(* ===== verification/Prelude.thy ===== *)
theory Prelude
  imports Main "HOL-Library.Word" "HOL-Library.Monad_Syntax" "HOL-Library.Multiset"
begin

text \<open>
  Shared vocabulary of the development: the widths of the program's machine
  integers, checked array accesses (an access outside the array is undefined
  behaviour, the value \<^verbatim>\<open>None\<close> of the option monad), linked descriptor
  lists, and the generic facts on words and lists the component theories use.
\<close>

section \<open>Machine integers\<close>

type_synonym u8 = "8 word"
type_synonym u16 = "16 word"
type_synonym u32 = "32 word"
type_synonym u64 = "64 word"

unbundle bit_operations_syntax

named_theorems access_simps \<open>unfolds the checked accesses to arrays\<close>

lemma unat_and_mask_mod:
  fixes x :: "'a::len word"
  shows "unat (x AND mask k) = unat x mod 2 ^ k"
  by (simp flip: take_bit_eq_mask take_bit_eq_mod add: unsigned_take_bit_eq)

lemma power2_minus_1_mask: "(2::'a::len word) ^ k - 1 = mask k"
  by (simp add: mask_eq_exp_minus_1)

lemma word_power2_of_unat:
  fixes n :: "'a::len word"
  assumes "unat n = 2 ^ k"
  shows "n = 2 ^ k"
proof -
  have "n = of_nat (unat n)" by simp
  also have "\<dots> = 2 ^ k" by (simp add: assms)
  finally show ?thesis .
qed

text \<open>The index macro of the rings, for a ring whose length is a power of two.\<close>

lemma unat_and_minus_1:
  fixes x n :: "'a::len word"
  assumes "unat n = 2 ^ k"
  shows "unat (x AND (n - 1)) = unat x mod unat n"
  using word_power2_of_unat [OF assms] assms
  by (simp add: power2_minus_1_mask unat_and_mask_mod)

lemma unat_Suc_mod: "unat (x + 1 :: 'a::len word) = Suc (unat x) mod 2 ^ LENGTH('a)"
  by (simp add: unat_word_ariths)

lemma unat_eq_of_nat: "unat (w :: 'a::len word) = n \<Longrightarrow> w = of_nat n"
  by auto

lemma unat_of_nat_less: "x < 2 ^ LENGTH('a) \<Longrightarrow> unat (of_nat x :: 'a::len word) = x"
  by (simp add: unsigned_of_nat take_bit_nat_eq_self)

lemma unat_ucast_u16_u32: "unat (ucast (x :: u16) :: u32) = unat x"
proof -
  have "unat x < 65536" using unsigned_less [of x] by simp
  then show ?thesis by (simp add: unsigned_ucast_eq take_bit_nat_eq_self)
qed

lemma unat_ucast_u32_u64: "unat (ucast (x :: u32) :: u64) = unat x"
proof -
  have "unat x < 4294967296" using unsigned_less [of x] by simp
  then show ?thesis by (simp add: unsigned_ucast_eq take_bit_nat_eq_self)
qed

lemma unat_ucast_u64_u32: "unat x < 4294967296 \<Longrightarrow> unat (ucast (x :: u64) :: u32) = unat x"
  by (simp add: unsigned_ucast_eq take_bit_nat_eq_self)

lemma unat_ucast_u32_u16: "unat x < 65536 \<Longrightarrow> unat (ucast (x :: u32) :: u16) = unat x"
  by (simp add: unsigned_ucast_eq take_bit_nat_eq_self)

lemma unat_minus_1: "0 < unat (x :: 'a::len word) \<Longrightarrow> unat (x - 1) = unat x - 1"
  by (subst unat_sub) (auto simp: word_le_nat_alt)

lemma sint_small: "unat x < 2 ^ 31 \<Longrightarrow> sint (x :: u32) = int (unat x)"
proof -
  assume "unat x < 2 ^ 31"
  then have "int (unat x) < int (2 ^ 31)" by (simp only: of_nat_less_iff)
  then have "uint x < 2147483648" by simp
  moreover have "- (2 ^ 31) \<le> uint x" by (rule order_trans [of _ 0]) simp_all
  ultimately have "signed_take_bit 31 (uint x) = uint x" by (intro signed_take_bit_int_eq_self) simp_all
  then show ?thesis by (simp add: sint_uint)
qed

lemma unat_u16_lt: "unat (x :: u16) < 65536"
  using unsigned_less [of x] by simp

lemma flag_clear [simp]: "(x AND NOT f) AND f = (0 :: 'a::len word)"
  by (rule bit_word_eqI) (simp add: bit_simps)

lemma flag_set [simp]: "(x OR f) AND f = (f :: 'a::len word)"
  by (simp add: bit_eq_iff bit_simps)

lemma and_not_mask_unat:
  fixes x :: "'a::len word"
  shows "unat (x AND NOT (mask a)) = unat x div 2 ^ a * 2 ^ a"
proof -
  have "x AND NOT (mask a) = x AND NOT (x AND mask a)"
    by (rule bit_word_eqI) (auto simp: bit_simps)
  also have "\<dots> = x - (x AND mask a)"
    by (rule disjunctive_diff_eq_and_not [symmetric], rule bit_word_eqI) (auto simp: bit_simps)
  finally have "x AND NOT (mask a) = x - (x AND mask a)" .
  moreover have "x AND mask a \<le> x"
    by (simp add: word_le_nat_alt unat_and_mask_mod)
  ultimately have "unat (x AND NOT (mask a)) = unat x - unat x mod 2 ^ a"
    by (simp add: unat_sub unat_and_mask_mod)
  then show ?thesis by (simp add: minus_mod_eq_div_mult)
qed

section \<open>Checked arrays\<close>

definition guard_opt :: "bool \<Rightarrow> unit option" where
  "guard_opt b = (if b then Some () else None)"

definition nth_opt :: "'a list \<Rightarrow> nat \<Rightarrow> 'a option" where
  "nth_opt xs i = (if i < length xs then Some (xs ! i) else None)"

definition upd_opt :: "'a list \<Rightarrow> nat \<Rightarrow> 'a \<Rightarrow> 'a list option" where
  "upd_opt xs i v = (if i < length xs then Some (xs[i := v]) else None)"

lemma guard_opt_True [simp]: "guard_opt True = Some ()"
  and guard_opt_False [simp]: "guard_opt False = None"
  by (simp_all add: guard_opt_def)

lemma guard_opt_Some [simp]: "guard_opt b = Some u \<longleftrightarrow> b"
  by (simp add: guard_opt_def)

lemma nth_opt_in [simp, access_simps]: "i < length xs \<Longrightarrow> nth_opt xs i = Some (xs ! i)"
  by (simp add: nth_opt_def)

lemma nth_opt_out [simp, access_simps]: "length xs \<le> i \<Longrightarrow> nth_opt xs i = None"
  by (simp add: nth_opt_def)

lemma nth_opt_Some: "nth_opt xs i = Some v \<longleftrightarrow> i < length xs \<and> xs ! i = v"
  by (auto simp: nth_opt_def)

lemma upd_opt_in [simp, access_simps]: "i < length xs \<Longrightarrow> upd_opt xs i v = Some (xs[i := v])"
  by (simp add: upd_opt_def)

lemma upd_opt_Some: "upd_opt xs i v = Some ys \<longleftrightarrow> i < length xs \<and> ys = xs[i := v]"
  by (auto simp: upd_opt_def)

section \<open>Counting loops\<close>

text \<open>\<^verbatim>\<open>for (i = a; i < b; i += d)\<close> over a state.\<close>
function for_loop :: "nat \<Rightarrow> nat \<Rightarrow> nat \<Rightarrow> (nat \<Rightarrow> 's \<Rightarrow> 's option) \<Rightarrow> 's \<Rightarrow> 's option" where
  "for_loop i b d f s =
     (if i < b \<and> 0 < d then do { s' \<leftarrow> f i s; for_loop (i + d) b d f s' } else Some s)"
  by pat_completeness auto
termination by (relation "measure (\<lambda>(i, b, d, f, s). b - i)") auto

declare for_loop.simps [simp del]

lemma for_loop_inv:
  assumes "I a s" "a \<le> b"
    and "\<And>i s. a \<le> i \<Longrightarrow> i < b \<Longrightarrow> I i s \<Longrightarrow> \<exists>s'. f i s = Some s' \<and> I (Suc i) s'"
  shows "\<exists>s'. for_loop a b 1 f s = Some s' \<and> I b s'"
  using assms
proof (induction "b - a" arbitrary: a s)
  case 0
  then show ?case by (subst for_loop.simps) auto
next
  case (Suc n)
  then have lt: "a < b" by simp
  obtain s' where s': "f a s = Some s'" "I (Suc a) s'" using Suc.prems lt by blast
  have "\<exists>s2. for_loop (Suc a) b 1 f s' = Some s2 \<and> I b s2"
    using Suc.prems(3) Suc.hyps(2) lt s'(2) by (intro Suc.hyps(1)) auto
  then show ?case using lt s'(1) by (subst for_loop.simps) auto
qed

lemma for_loop_keeps:
  assumes "for_loop i b d f s = Some s'" "I s" "\<And>i s s'. f i s = Some s' \<Longrightarrow> I s \<Longrightarrow> I s'"
  shows "I s'"
  using assms
proof (induction i b d f s rule: for_loop.induct)
  case (1 i b d f s)
  show ?case
  proof (cases "i < b \<and> 0 < d")
    case True
    then obtain s1 where s1: "f i s = Some s1" "for_loop (i + d) b d f s1 = Some s'"
      using 1(2) by (subst (asm) for_loop.simps) (auto simp: bind_eq_Some_conv)
    show ?thesis by (rule 1(1) [OF True s1 1(4) [OF s1(1) 1(3)] 1(4)])
  next
    case False
    then show ?thesis using 1(2,3) by (subst (asm) for_loop.simps) auto
  qed
qed


section \<open>Linked lists over an array of successor fields\<close>

text \<open>A free list: each node's successor field names the next node of the list;
  the successor field of the last node is not constrained (the code never reads it
  while the count of free nodes is right).\<close>

fun linked :: "(nat \<Rightarrow> nat) \<Rightarrow> nat list \<Rightarrow> bool" where
  "linked nx [] = True"
| "linked nx [x] = True"
| "linked nx (x # y # zs) = (nx x = y \<and> linked nx (y # zs))"

text \<open>A chain in flight: every node but the last carries the continuation mark.\<close>

fun chained :: "(nat \<Rightarrow> bool) \<Rightarrow> (nat \<Rightarrow> nat) \<Rightarrow> nat list \<Rightarrow> bool" where
  "chained h nx [] = False"
| "chained h nx [x] = (\<not> h x)"
| "chained h nx (x # y # zs) = (h x \<and> nx x = y \<and> chained h nx (y # zs))"

lemma linked_cong:
  "(\<And>x. x \<in> set xs \<Longrightarrow> nx x = nx' x) \<Longrightarrow> linked nx xs = linked nx' xs"
  by (induction nx xs rule: linked.induct) auto

lemma chained_cong:
  "(\<And>x. x \<in> set xs \<Longrightarrow> nx x = nx' x \<and> h x = h' x) \<Longrightarrow> chained h nx xs = chained h' nx' xs"
  by (induction h nx xs rule: chained.induct) auto

lemma linked_cong_butlast:
  "(\<And>x. x \<in> set (butlast xs) \<Longrightarrow> nx x = nx' x) \<Longrightarrow> linked nx xs = linked nx' xs"
  by (induction nx xs rule: linked.induct) auto

lemma linked_tl: "linked nx (x # xs) \<Longrightarrow> linked nx xs"
  by (cases xs) auto

lemma linked_Cons: "linked nx (x # xs) \<longleftrightarrow> linked nx xs \<and> (xs \<noteq> [] \<longrightarrow> nx x = hd xs)"
  by (cases xs) auto

lemma linked_append:
  "linked nx (xs @ ys) \<longleftrightarrow>
     linked nx xs \<and> linked nx ys \<and> (xs \<noteq> [] \<and> ys \<noteq> [] \<longrightarrow> nx (last xs) = hd ys)"
  by (induction xs) (auto simp: linked_Cons)

lemma chained_nonempty [simp]: "chained h nx c \<Longrightarrow> c \<noteq> []"
  by (cases c) auto

lemma chained_Cons:
  "chained h nx (x # xs) \<longleftrightarrow>
     (if xs = [] then \<not> h x else h x \<and> nx x = hd xs \<and> chained h nx xs)"
  by (cases xs) auto

lemma chained_linked: "chained h nx c \<Longrightarrow> linked nx c"
  by (induction h nx c rule: chained.induct) auto

lemma chained_last: "chained h nx c \<Longrightarrow> \<not> h (last c)"
  by (induction h nx c rule: chained.induct) auto

lemma linked_upt:
  assumes "\<And>i. a \<le> i \<Longrightarrow> Suc i < b \<Longrightarrow> nx i = Suc i"
  shows "linked nx [a..<b]"
  using assms
proof (induction b)
  case 0
  show ?case by simp
next
  case (Suc b)
  have "linked nx [a..<b]" by (rule Suc.IH) (simp add: Suc.prems)
  moreover have "nx (b - 1) = b" if "a < b" using Suc.prems [of "b - 1"] that by simp
  ultimately show ?case by (auto simp: linked_append)
qed

section \<open>Generic list facts\<close>

lemma hd_less: "c \<noteq> [] \<Longrightarrow> set c \<subseteq> {..<n} \<Longrightarrow> hd c < (n::nat)"
  by (cases c) auto

lemma last_less: "c \<noteq> [] \<Longrightarrow> set c \<subseteq> {..<n} \<Longrightarrow> last c < (n::nat)"
  using last_in_set [of c] by blast

lemma last_neq: "c \<noteq> [] \<Longrightarrow> x \<notin> set c \<Longrightarrow> x \<noteq> last c"
  using last_in_set by blast

lemma hd_notin: "c \<noteq> [] \<Longrightarrow> set c \<inter> A = {} \<Longrightarrow> hd c \<notin> A"
  by (cases c) auto

lemma concat_remove1_distinct:
  assumes "distinct (map f cs)" "c \<in> set cs"
  shows "mset (concat (map g cs)) = mset (g c) + mset (concat (map g (remove1 c cs)))"
  using assms by (induction cs) (auto simp: ac_simps)

end
