(* ===== verification/Virtqueue.thy ===== *)
theory Virtqueue
  imports Prelude
begin

text \<open>
  The interface \<^verbatim>\<open>src/VirtIO/VirtIO.h\<close> gives the two ring implementations: the buffer
  descriptors a request is made of, and the contract of \<^verbatim>\<open>add_buf\<close> and
  \<^verbatim>\<open>get_buf\<close>.  The locale \<^verbatim>\<open>virtqueue\<close> states the contract over what a driver can
  observe of a queue (the tokens outstanding, those the device has returned and the
  driver has not fetched, the free descriptors) and proves what clients rely on:
  the drain loop of an interrupt handler and conservation over any interleaving.
\<close>

section \<open>Requests\<close>

definition ENOSPC :: int where "ENOSPC = 1"

record scatterlist =
  physAddr :: u64
  sg_length :: u32

section \<open>Clients\<close>

text \<open>\<^verbatim>\<open>while ((buf = virtqueue_get_buf(vq)) != NULL)\<close>, with at most \<^verbatim>\<open>n\<close> calls.\<close>
fun drain :: "('q \<Rightarrow> ('a option \<times> 'q) option) \<Rightarrow> nat \<Rightarrow> 'q \<Rightarrow> ('a list \<times> 'q) option" where
  "drain get 0 q = None"
| "drain get (Suc n) q = do {
     (r, q1) \<leftarrow> get q;
     case r of None \<Rightarrow> Some ([], q1)
     | Some t \<Rightarrow> do { (ts, q2) \<leftarrow> drain get n q1; Some (t # ts, q2) }
   }"

text \<open>A run of a queue: the driver adds and fetches buffers, the device returns them.
  The two lists are the tokens accepted and the tokens fetched so far.\<close>
inductive vq_run ::
  "('q \<Rightarrow> scatterlist list \<Rightarrow> u32 \<Rightarrow> u32 \<Rightarrow> 'a \<Rightarrow> (int \<times> 'q) option) \<Rightarrow>
   ('q \<Rightarrow> ('a option \<times> 'q) option) \<Rightarrow> ('q \<Rightarrow> 'a \<Rightarrow> 'q \<Rightarrow> bool) \<Rightarrow>
   'q \<Rightarrow> 'a list \<Rightarrow> 'a list \<Rightarrow> 'q \<Rightarrow> bool"
  for add get use q0 where
  start: "vq_run add get use q0 [] [] q0"
| add: "vq_run add get use q0 ss gs q \<Longrightarrow> 0 < unat (out + in') \<Longrightarrow> unat (out + in') \<le> length sg \<Longrightarrow>
     add q sg out in' t = Some (r, q') \<Longrightarrow> vq_run add get use q0 (if r = 0 then ss @ [t] else ss) gs q'"
| use: "vq_run add get use q0 ss gs q \<Longrightarrow> use q t q' \<Longrightarrow> vq_run add get use q0 ss gs q'"
| get: "vq_run add get use q0 ss gs q \<Longrightarrow> get q = Some (r, q') \<Longrightarrow>
     vq_run add get use q0 ss (gs @ (case r of None \<Rightarrow> [] | Some t \<Rightarrow> [t])) q'"

section \<open>The contract\<close>

locale virtqueue =
  fixes inv :: "'q \<Rightarrow> bool"
    and add_buf :: "'q \<Rightarrow> scatterlist list \<Rightarrow> u32 \<Rightarrow> u32 \<Rightarrow> 'a \<Rightarrow> (int \<times> 'q) option"
    and get_buf :: "'q \<Rightarrow> ('a option \<times> 'q) option"
    and device_use :: "'q \<Rightarrow> 'a \<Rightarrow> 'q \<Rightarrow> bool"
    and outstanding :: "'q \<Rightarrow> 'a multiset"
    and returned :: "'q \<Rightarrow> 'a list"
    and free :: "'q \<Rightarrow> nat"
  assumes add_ok: "inv q \<Longrightarrow> 0 < unat (out + in') \<Longrightarrow> unat (out + in') \<le> free q \<Longrightarrow>
      unat (out + in') \<le> length sg \<Longrightarrow>
      \<exists>q'. add_buf q sg out in' t = Some (0, q') \<and> inv q' \<and>
        outstanding q' = add_mset t (outstanding q) \<and> returned q' = returned q \<and>
        free q' = free q - unat (out + in')"
    and add_full: "inv q \<Longrightarrow> free q < unat (out + in') \<Longrightarrow>
      add_buf q sg out in' t = Some (- ENOSPC, q)"
    and get_empty: "inv q \<Longrightarrow> returned q = [] \<Longrightarrow> get_buf q = Some (None, q)"
    and get_ok: "inv q \<Longrightarrow> returned q = t # ts \<Longrightarrow>
      \<exists>q'. get_buf q = Some (Some t, q') \<and> inv q' \<and>
        outstanding q' = outstanding q - {#t#} \<and> returned q' = ts \<and> free q < free q'"
    and use_ok: "inv q \<Longrightarrow> device_use q t q' \<Longrightarrow>
      inv q' \<and> outstanding q' = outstanding q \<and> returned q' = returned q @ [t] \<and> free q' = free q"
    and returned_outstanding: "inv q \<Longrightarrow> mset (returned q) \<subseteq># outstanding q"
begin

lemma get_total: "inv q \<Longrightarrow> \<exists>r q'. get_buf q = Some (r, q') \<and> inv q'"
  using get_empty get_ok by (cases "returned q") (fastforce)+

lemma drain_ok:
  assumes "inv q" "length (returned q) < n"
  shows "\<exists>q'. drain get_buf n q = Some (returned q, q') \<and> inv q' \<and> returned q' = [] \<and>
    outstanding q' = outstanding q - mset (returned q) \<and> free q \<le> free q'"
  using assms
proof (induction n arbitrary: q)
  case 0
  then show ?case by simp
next
  case (Suc n)
  show ?case
  proof (cases "returned q")
    case Nil
    then show ?thesis using get_empty Suc.prems by simp
  next
    case (Cons t ts)
    obtain q1 where q1: "get_buf q = Some (Some t, q1)" "inv q1"
      "outstanding q1 = outstanding q - {#t#}" "returned q1 = ts" "free q < free q1"
      using get_ok [OF Suc.prems(1) Cons] by blast
    with Suc.IH [of q1] Suc.prems Cons show ?thesis by fastforce
  qed
qed

lemma add_cases:
  assumes "inv q" "0 < unat (out + in')" "unat (out + in') \<le> length sg"
  shows "(\<exists>q'. add_buf q sg out in' t = Some (0, q') \<and> inv q' \<and>
        outstanding q' = add_mset t (outstanding q)) \<or>
     add_buf q sg out in' t = Some (- ENOSPC, q)"
  using add_ok [OF assms(1,2)] add_full [OF assms(1)] assms(3) by (meson not_less)

text \<open>No token is lost, duplicated or invented: whatever the interleaving, the tokens
  accepted are those fetched and those outstanding.\<close>
lemma run_conservation:
  assumes "vq_run add_buf get_buf device_use q0 ss gs q" "inv q0" "outstanding q0 = {#}"
  shows "inv q \<and> mset ss = mset gs + outstanding q"
  using assms
proof (induction rule: vq_run.induct)
  case start
  then show ?case by simp
next
  case (add ss gs q out in' sg t r q')
  then have i: "inv q" "mset ss = mset gs + outstanding q" by auto
  from add_cases [OF i(1) add.hyps(2,3), of t] add.hyps(4) i show ?case
    by (auto simp: ENOSPC_def)
next
  case (use ss gs q t q')
  then show ?case using use_ok by metis
next
  case (get ss gs q r q')
  then have i: "inv q" "mset ss = mset gs + outstanding q" by auto
  show ?case
  proof (cases "returned q")
    case Nil
    then show ?thesis using get_empty [OF i(1)] get.hyps(2) i by simp
  next
    case (Cons t ts)
    then have t: "t \<in># outstanding q"
      using returned_outstanding [OF i(1)] by (auto dest: mset_subset_eqD)
    obtain q1 where "get_buf q = Some (Some t, q1)" "inv q1" "outstanding q1 = outstanding q - {#t#}"
      using get_ok [OF i(1) Cons] by blast
    then show ?thesis using get.hyps(2) i t by auto
  qed
qed

lemma run_progress:
  assumes "vq_run add_buf get_buf device_use q0 ss gs q" "inv q0" "outstanding q0 = {#}"
  shows "\<exists>q'. drain get_buf (Suc (length (returned q))) q = Some (returned q, q') \<and> returned q' = [] \<and>
    mset ss = mset (gs @ returned q) + outstanding q'"
proof -
  from run_conservation [OF assms] have i: "inv q" "mset ss = mset gs + outstanding q" by auto
  from drain_ok [OF i(1) lessI] obtain q' where
    "drain get_buf (Suc (length (returned q))) q = Some (returned q, q')" "returned q' = []"
    "outstanding q' = outstanding q - mset (returned q)" by blast
  with i(2) returned_outstanding [OF i(1)] show ?thesis
    by (auto simp: subset_mset.add_diff_inverse)
qed

end

end
