(* ===== verification/VirtioSplit.thy ===== *)
theory VirtioSplit
  imports Virtqueue
begin

text \<open>
  The split virtqueue of \<^verbatim>\<open>src/VirtIO/VirtIORing.c\<close>: the ring memory shared with the
  device (\<^verbatim>\<open>struct vring\<close>), the driver's control block (\<^verbatim>\<open>struct virtqueue_split\<close>)
  and one definition per function of the file, in the order of the file.
  \<^verbatim>\<open>None\<close> is undefined behaviour of the C code: an access outside an array, or a walk
  along a descriptor chain that never ends.  An \<^verbatim>\<open>ASSERT\<close> has no effect, as in the
  release build.  Memory barriers have no effect on the sequential model.

  The invariant \<^verbatim>\<open>split_inv\<close> describes the ring by the list of free descriptors and the
  chains in flight; the lemmas show that every operation keeps it and what it does
  to both, and \<^verbatim>\<open>vq_step\<close> puts the driver beside a device that behaves.
\<close>

section \<open>Memory layout\<close>

definition VIRTQ_DESC_F_NEXT :: u16 where "VIRTQ_DESC_F_NEXT = 1"
definition VIRTQ_DESC_F_WRITE :: u16 where "VIRTQ_DESC_F_WRITE = 2"
definition VIRTQ_DESC_F_INDIRECT :: u16 where "VIRTQ_DESC_F_INDIRECT = 4"
definition VIRTQ_USED_F_NO_NOTIFY :: u16 where "VIRTQ_USED_F_NO_NOTIFY = 1"
definition VIRTQ_AVAIL_F_NO_INTERRUPT :: u16 where "VIRTQ_AVAIL_F_NO_INTERRUPT = 1"
definition PAGE_SIZE :: u32 where "PAGE_SIZE = 4096"
definition SMP_CACHE_BYTES :: u32 where "SMP_CACHE_BYTES = 64"

lemmas vring_flag_defs =
  VIRTQ_DESC_F_NEXT_def VIRTQ_DESC_F_WRITE_def VIRTQ_DESC_F_INDIRECT_def
  VIRTQ_USED_F_NO_NOTIFY_def VIRTQ_AVAIL_F_NO_INTERRUPT_def

text \<open>\<^verbatim>\<open>DESC_INDEX(num, i)\<close>; a 16-bit \<^verbatim>\<open>i\<close> is promoted to unsigned int.\<close>
definition DESC_INDEX :: "u32 \<Rightarrow> u32 \<Rightarrow> u32" where
  "DESC_INDEX num i = i AND (num - 1)"

record vring_desc =
  d_addr :: u64
  d_len :: u32
  d_flags :: u16
  d_next :: u16

record vring_used_elem =
  ue_id :: u32
  ue_len :: u32

text \<open>The parts of \<^verbatim>\<open>VirtIODevice\<close> the rings read.\<close>
record virtio_device_ring =
  vdev_addr :: u64
  event_suppression_enabled :: bool

text \<open>\<^verbatim>\<open>struct vring\<close> with the memory it points to.  \<^verbatim>\<open>vring_used_event\<close> and
  \<^verbatim>\<open>vring_avail_event\<close> are the extra slots behind the two rings.\<close>
record vring =
  sq_num :: u32
  sq_desc :: "vring_desc list"
  avail_flags :: u16
  avail_idx :: u16
  avail_ring :: "u16 list"
  used_event :: u16
  used_flags :: u16
  used_idx :: u16
  used_ring :: "vring_used_elem list"
  avail_event :: u16
  desc_va :: u64
  avail_va :: u64
  used_va :: u64

record 'a virtqueue_split = vring +
  master_flags :: u16
  master_idx :: u16
  num_unused :: u32
  num_added_since_kick :: u32
  first_unused :: u16
  last_used :: u16
  opaques :: "'a option list"
  sq_index :: u32
  sq_vdev :: virtio_device_ring

text \<open>\<^verbatim>\<open>vring_init\<close>: the addresses of the three parts of the ring in the block at \<^verbatim>\<open>p\<close>.\<close>
definition vring_init :: "u32 \<Rightarrow> u64 \<Rightarrow> u32 \<Rightarrow> u64 \<times> u64 \<times> u64" where
  "vring_init num p align =
    (let avail = p + ucast num * 16;
         used = (avail + 4 + 2 * ucast num + 2 + ucast align - 1) AND NOT (ucast align - 1)
     in (p, avail, used))"

text \<open>\<^verbatim>\<open>~(align - 1)\<close> is a 32-bit value zero-extended to 64 bits (the pragma of the source
  silences the warning about it).\<close>
definition vring_size_split :: "u32 \<Rightarrow> u32 \<Rightarrow> u32" where
  "vring_size_split num align =
    ucast (((16 * ucast num + 2 * (3 + ucast num) + ucast align - 1 :: u64)
             AND ucast (NOT (align - 1)))
           + 2 * 3 + 8 * ucast num)"

definition vring_need_event :: "u16 \<Rightarrow> u16 \<Rightarrow> u16 \<Rightarrow> bool" where
  "vring_need_event event_idx new_idx old = (new_idx - event_idx - 1 < new_idx - old)"

section \<open>Descriptors: the free list\<close>

definition set_desc :: "'a virtqueue_split \<Rightarrow> nat \<Rightarrow> (vring_desc \<Rightarrow> vring_desc) \<Rightarrow> 'a virtqueue_split option" where
  "set_desc q i f = do {
     d \<leftarrow> nth_opt (sq_desc q) i;
     Some (q\<lparr>sq_desc := (sq_desc q)[i := f d]\<rparr>)
   }"

definition get_unused_desc :: "'a virtqueue_split \<Rightarrow> (u16 \<times> 'a virtqueue_split) option" where
  "get_unused_desc q = do {
     let idx = first_unused q;
     d \<leftarrow> nth_opt (sq_desc q) (unat idx);
     Some (idx, q\<lparr>first_unused := d_next d, num_unused := num_unused q - 1\<rparr>)
   }"

text \<open>The loop of \<^verbatim>\<open>put_unused_desc_chain\<close>: follows \<^verbatim>\<open>next\<close> while the mark is set.\<close>
partial_function (option) walk_chain ::
  "'a virtqueue_split \<Rightarrow> u16 \<Rightarrow> ('a virtqueue_split \<times> u16) option" where
  "walk_chain q idx = do {
     d \<leftarrow> nth_opt (sq_desc q) (unat idx);
     if d_flags d AND VIRTQ_DESC_F_NEXT \<noteq> 0
     then walk_chain (q\<lparr>num_unused := num_unused q + 1\<rparr>) (d_next d)
     else Some (q, idx)
   }"

definition put_unused_desc_chain :: "'a virtqueue_split \<Rightarrow> u16 \<Rightarrow> 'a virtqueue_split option" where
  "put_unused_desc_chain q idx = do {
     let start = idx;
     ops \<leftarrow> upd_opt (opaques q) (unat idx) None;
     (q1, idx1) \<leftarrow> walk_chain (q\<lparr>opaques := ops\<rparr>) idx;
     q2 \<leftarrow> set_desc q1 (unat idx1) (\<lambda>d. d\<lparr>d_flags := VIRTQ_DESC_F_NEXT, d_next := first_unused q1\<rparr>);
     Some (q2\<lparr>num_unused := num_unused q2 + 1, first_unused := start\<rparr>)
   }"

section \<open>Adding a buffer\<close>

text \<open>The loop that fills the caller's indirect page (\<^verbatim>\<open>k\<close> turns left, at \<^verbatim>\<open>i\<close>).\<close>
fun fill_indirect :: "scatterlist list \<Rightarrow> u32 \<Rightarrow> nat \<Rightarrow> nat \<Rightarrow> vring_desc list \<Rightarrow> vring_desc list option" where
  "fill_indirect sg out 0 i page = Some page"
| "fill_indirect sg out (Suc k) i page = do {
     s \<leftarrow> nth_opt sg i;
     page' \<leftarrow> upd_opt page i
       \<lparr>d_addr = physAddr s, d_len = sg_length s,
        d_flags = (if i < unat out then 0 else VIRTQ_DESC_F_WRITE) OR VIRTQ_DESC_F_NEXT,
        d_next = of_nat i + 1\<rparr>;
     fill_indirect sg out k (Suc i) page'
   }"

text \<open>The loop over the rest of the regular descriptors (\<^verbatim>\<open>k\<close> turns left, at \<^verbatim>\<open>i\<close>).\<close>
fun add_rest :: "scatterlist list \<Rightarrow> u32 \<Rightarrow> nat \<Rightarrow> nat \<Rightarrow> u16 \<Rightarrow> 'a virtqueue_split
    \<Rightarrow> (u16 \<times> 'a virtqueue_split) option" where
  "add_rest sg out 0 i last_idx q = Some (last_idx, q)"
| "add_rest sg out (Suc k) i last_idx q = do {
     (idx, q1) \<leftarrow> get_unused_desc q;
     s \<leftarrow> nth_opt sg i;
     q2 \<leftarrow> set_desc q1 (unat idx) (\<lambda>d. d\<lparr>d_addr := physAddr s, d_len := sg_length s,
             d_flags := (if i \<ge> unat out then VIRTQ_DESC_F_NEXT OR VIRTQ_DESC_F_WRITE
                         else VIRTQ_DESC_F_NEXT),
             d_next := first_unused q1\<rparr>);
     add_rest sg out k (Suc i) idx q2
   }"

text \<open>Publishing the head in the available ring.\<close>
definition publish_avail :: "'a virtqueue_split \<Rightarrow> u16 \<Rightarrow> 'a virtqueue_split option" where
  "publish_avail q idx = do {
     ring \<leftarrow> upd_opt (avail_ring q) (unat (DESC_INDEX (sq_num q) (ucast (master_idx q)))) idx;
     Some (q\<lparr>avail_ring := ring, master_idx := master_idx q + 1,
             avail_idx := master_idx q + 1,
             num_added_since_kick := num_added_since_kick q + 1\<rparr>)
   }"

text \<open>The two ways of laying out the request: one indirect descriptor, or a chain of
  \<^verbatim>\<open>out + in\<close> regular ones.\<close>
definition add_indirect ::
  "'a virtqueue_split \<Rightarrow> scatterlist list \<Rightarrow> u32 \<Rightarrow> u32 \<Rightarrow> 'a option \<Rightarrow> vring_desc list \<Rightarrow> u64
    \<Rightarrow> (u16 \<times> vring_desc list \<times> 'a virtqueue_split) option" where
  "add_indirect q sg out in' tok page phys_indirect = do {
     let n = unat (out + in');
     page1 \<leftarrow> fill_indirect sg out n 0 page;
     d \<leftarrow> nth_opt page1 (n - 1);
     let page2 = page1[n - 1 := d\<lparr>d_flags := d_flags d AND NOT VIRTQ_DESC_F_NEXT\<rparr>];
     (idx, q1) \<leftarrow> get_unused_desc q;
     q2 \<leftarrow> set_desc q1 (unat idx) (\<lambda>d. d\<lparr>d_flags := VIRTQ_DESC_F_INDIRECT,
             d_addr := phys_indirect, d_len := (out + in') * 16\<rparr>);
     ops \<leftarrow> upd_opt (opaques q2) (unat idx) tok;
     Some (idx, page2, q2\<lparr>opaques := ops\<rparr>)
   }"

definition add_direct ::
  "'a virtqueue_split \<Rightarrow> scatterlist list \<Rightarrow> u32 \<Rightarrow> u32 \<Rightarrow> 'a option
    \<Rightarrow> (u16 \<times> 'a virtqueue_split) option" where
  "add_direct q sg out in' tok = do {
     (idx, q1) \<leftarrow> get_unused_desc q;
     ops \<leftarrow> upd_opt (opaques q1) (unat idx) tok;
     let q2 = q1\<lparr>opaques := ops\<rparr>;
     s \<leftarrow> nth_opt sg 0;
     q3 \<leftarrow> set_desc q2 (unat idx) (\<lambda>d. d\<lparr>d_addr := physAddr s, d_len := sg_length s,
             d_flags := (if out = 0 then VIRTQ_DESC_F_NEXT OR VIRTQ_DESC_F_WRITE
                         else VIRTQ_DESC_F_NEXT),
             d_next := first_unused q2\<rparr>);
     (last_idx, q4) \<leftarrow> add_rest sg out (unat (out + in') - 1) 1 idx q3;
     q5 \<leftarrow> set_desc q4 (unat last_idx) (\<lambda>d. d\<lparr>d_flags := d_flags d AND NOT VIRTQ_DESC_F_NEXT\<rparr>);
     Some (idx, q5)
   }"

definition virtqueue_add_buf_split ::
  "'a virtqueue_split \<Rightarrow> scatterlist list \<Rightarrow> u32 \<Rightarrow> u32 \<Rightarrow> 'a option \<Rightarrow> vring_desc list option \<Rightarrow> u64
    \<Rightarrow> (int \<times> vring_desc list option \<times> 'a virtqueue_split) option" where
  "virtqueue_add_buf_split q sg out in' tok va_indirect phys_indirect =
    (case va_indirect of
       Some page \<Rightarrow>
         if out + in' > 1 \<and> num_unused q > 0 then do {
           (idx, page', q1) \<leftarrow> add_indirect q sg out in' tok page phys_indirect;
           q2 \<leftarrow> publish_avail q1 idx;
           Some (0, Some page', q2)
         }
         else if out + in' > num_unused q then Some (- ENOSPC, va_indirect, q)
         else do {
           (idx, q1) \<leftarrow> add_direct q sg out in' tok;
           q2 \<leftarrow> publish_avail q1 idx;
           Some (0, va_indirect, q2)
         }
     | None \<Rightarrow>
         if out + in' > num_unused q then Some (- ENOSPC, va_indirect, q)
         else do {
           (idx, q1) \<leftarrow> add_direct q sg out in' tok;
           q2 \<leftarrow> publish_avail q1 idx;
           Some (0, va_indirect, q2)
         })"

section \<open>Returned buffers, notification and interrupts\<close>

definition virtqueue_is_interrupt_enabled_split :: "'a virtqueue_split \<Rightarrow> bool" where
  "virtqueue_is_interrupt_enabled_split q = (master_flags q AND VIRTQ_AVAIL_F_NO_INTERRUPT = 0)"

text \<open>Result: the opaque pointer (\<^verbatim>\<open>None\<close> is NULL), the value written to \<^verbatim>\<open>*len\<close>, if any,
  and the queue.\<close>
definition virtqueue_get_buf_split ::
  "'a virtqueue_split \<Rightarrow> ('a option \<times> u32 option \<times> 'a virtqueue_split) option" where
  "virtqueue_get_buf_split q =
    (if last_used q = used_idx q then Some (None, None, q)
     else do {
       let idx = (ucast (DESC_INDEX (sq_num q) (ucast (last_used q))) :: u16);
       e \<leftarrow> nth_opt (used_ring q) (unat idx);
       let len = ue_len e;
       let ident = ue_id e;
       if ident \<ge> sq_num q
       then Some (None, Some len, q\<lparr>last_used := last_used q + 1\<rparr>)
       else do {
         let idx = (ucast ident :: u16);
         op \<leftarrow> nth_opt (opaques q) (unat idx);
         q1 \<leftarrow> put_unused_desc_chain q idx;
         let q2 = q1\<lparr>last_used := last_used q1 + 1\<rparr>;
         Some (op, Some len,
           if event_suppression_enabled (sq_vdev q2) \<and> virtqueue_is_interrupt_enabled_split q2
           then q2\<lparr>used_event := last_used q2\<rparr> else q2)
       }
     })"

definition virtqueue_has_buf_split :: "'a virtqueue_split \<Rightarrow> bool" where
  "virtqueue_has_buf_split q = (last_used q \<noteq> used_idx q)"

definition virtqueue_kick_prepare_split :: "'a virtqueue_split \<Rightarrow> bool \<times> 'a virtqueue_split" where
  "virtqueue_kick_prepare_split q =
    (let wrap_around = (num_added_since_kick q \<ge> 65536);
         old = master_idx q - ucast (num_added_since_kick q);
         new = master_idx q;
         q1 = q\<lparr>num_added_since_kick := 0\<rparr>
     in (if event_suppression_enabled (sq_vdev q)
         then wrap_around \<or> vring_need_event (avail_event q) new old
         else used_flags q AND VIRTQ_USED_F_NO_NOTIFY = 0, q1))"

text \<open>The result says that the device is notified.\<close>
definition virtqueue_kick_always_split :: "'a virtqueue_split \<Rightarrow> bool \<times> 'a virtqueue_split" where
  "virtqueue_kick_always_split q = (True, q\<lparr>num_added_since_kick := 0\<rparr>)"

definition unmask_interrupt :: "'a virtqueue_split \<Rightarrow> 'a virtqueue_split" where
  "unmask_interrupt q =
    (if \<not> virtqueue_is_interrupt_enabled_split q
     then let q1 = q\<lparr>master_flags := master_flags q AND NOT VIRTQ_AVAIL_F_NO_INTERRUPT\<rparr>
          in if \<not> event_suppression_enabled (sq_vdev q1)
             then q1\<lparr>avail_flags := master_flags q1\<rparr> else q1
     else q)"

definition virtqueue_enable_cb_split :: "'a virtqueue_split \<Rightarrow> bool \<times> 'a virtqueue_split" where
  "virtqueue_enable_cb_split q =
    (let q1 = unmask_interrupt q;
         q2 = q1\<lparr>used_event := last_used q1\<rparr>
     in (last_used q2 = used_idx q2, q2))"

definition virtqueue_enable_cb_delayed_split :: "'a virtqueue_split \<Rightarrow> bool \<times> 'a virtqueue_split" where
  "virtqueue_enable_cb_delayed_split q =
    (let q1 = unmask_interrupt q;
         bufs = (of_nat (unat (master_idx q1 - last_used q1) * 3 div 4) :: u16);
         q2 = q1\<lparr>used_event := last_used q1 + bufs\<rparr>
     in (int (unat (used_idx q2)) - int (unat (last_used q2)) \<le> int (unat bufs), q2))"

definition virtqueue_disable_cb_split :: "'a virtqueue_split \<Rightarrow> 'a virtqueue_split" where
  "virtqueue_disable_cb_split q =
    (if virtqueue_is_interrupt_enabled_split q
     then let q1 = q\<lparr>master_flags := master_flags q OR VIRTQ_AVAIL_F_NO_INTERRUPT\<rparr>
          in if \<not> event_suppression_enabled (sq_vdev q1)
             then q1\<lparr>avail_flags := master_flags q1\<rparr> else q1
     else q)"

section \<open>Creation, shutdown, detaching\<close>

text \<open>The loop that links the unused descriptors; \<^verbatim>\<open>i\<close> is 16 bits wide, the bound 32.\<close>
partial_function (option) link_unused :: "u32 \<Rightarrow> u16 \<Rightarrow> vring_desc list \<Rightarrow> vring_desc list option" where
  "link_unused num i ds =
    (if (ucast i :: u32) < num - 1 then do {
       d \<leftarrow> nth_opt ds (unat i);
       link_unused num (i + 1) (ds[unat i := d\<lparr>d_flags := VIRTQ_DESC_F_NEXT, d_next := i + 1\<rparr>])
     } else Some ds)"

text \<open>The inner option is the pointer returned (NULL when the length is refused).\<close>
definition vring_new_virtqueue_split ::
  "u32 \<Rightarrow> u32 \<Rightarrow> u32 \<Rightarrow> virtio_device_ring \<Rightarrow> u64 \<Rightarrow> vring \<Rightarrow> 'a virtqueue_split option option" where
  "vring_new_virtqueue_split index num vring_align vdev pages mem =
    (if DESC_INDEX num num \<noteq> 0 then Some None
     else do {
       let (dva, ava, uva) = vring_init num pages vring_align;
       ds \<leftarrow> link_unused num 0 (sq_desc mem);
       Some (Some (vring.extend
         (mem\<lparr>sq_num := num, sq_desc := ds, desc_va := dva, avail_va := ava, used_va := uva\<rparr>)
         (virtqueue_split.fields 0 0 num 0 0 0 (replicate (unat num) None) index vdev)))
     })"

definition zero_vring :: "vring \<Rightarrow> vring" where
  "zero_vring m = m\<lparr>
     sq_desc := map (\<lambda>_. \<lparr>d_addr = 0, d_len = 0, d_flags = 0, d_next = 0\<rparr>) (sq_desc m),
     avail_flags := 0, avail_idx := 0, avail_ring := map (\<lambda>_. 0) (avail_ring m), used_event := 0,
     used_flags := 0, used_idx := 0,
     used_ring := map (\<lambda>_. \<lparr>ue_id = 0, ue_len = 0\<rparr>) (used_ring m), avail_event := 0\<rparr>"

definition virtqueue_shutdown_split :: "'a virtqueue_split \<Rightarrow> 'a virtqueue_split option option" where
  "virtqueue_shutdown_split q =
    (let vring_align = (if vdev_addr (sq_vdev q) \<noteq> 0 then PAGE_SIZE else SMP_CACHE_BYTES)
     in vring_new_virtqueue_split (sq_index q) (sq_num q) vring_align (sq_vdev q) (desc_va q)
          (zero_vring (vring.truncate q)))"

text \<open>The scan of \<^verbatim>\<open>virtqueue_detach_unused_buf_split\<close> (\<^verbatim>\<open>k\<close> slots left, at \<^verbatim>\<open>idx\<close>).\<close>
fun detach_scan :: "nat \<Rightarrow> u16 \<Rightarrow> 'a virtqueue_split \<Rightarrow> ('a option \<times> 'a virtqueue_split) option" where
  "detach_scan 0 idx q = Some (None, q)"
| "detach_scan (Suc k) idx q = do {
     op \<leftarrow> nth_opt (opaques q) (unat idx);
     case op of
       None \<Rightarrow> detach_scan k (idx + 1) q
     | Some t \<Rightarrow> do {
         q1 \<leftarrow> put_unused_desc_chain q idx;
         Some (Some t, q1\<lparr>master_idx := master_idx q1 - 1, avail_idx := master_idx q1 - 1\<rparr>)
       }
   }"

definition virtqueue_detach_unused_buf_split ::
  "'a virtqueue_split \<Rightarrow> ('a option \<times> 'a virtqueue_split) option" where
  "virtqueue_detach_unused_buf_split q = detach_scan (unat (ucast (sq_num q) :: u16)) 0 q"

text \<open>The control block: the structure itself (whose size the compiler decides: a
  parameter) and one pointer per descriptor.\<close>
definition vring_control_block_size_split :: "u32 \<Rightarrow> u16 \<Rightarrow> u32" where
  "vring_control_block_size_split sizeof_virtqueue_split qsize = sizeof_virtqueue_split + 8 * ucast qsize"

definition VIRTIO_TRANSPORT_F_START :: nat where "VIRTIO_TRANSPORT_F_START = 28"
definition VIRTIO_TRANSPORT_F_END :: nat where "VIRTIO_TRANSPORT_F_END = 32"
definition VIRTIO_RING_F_INDIRECT_DESC :: nat where "VIRTIO_RING_F_INDIRECT_DESC = 28"
definition VIRTIO_RING_F_EVENT_IDX :: nat where "VIRTIO_RING_F_EVENT_IDX = 29"
definition VIRTIO_F_VERSION_1 :: nat where "VIRTIO_F_VERSION_1 = 32"

definition virtio_is_feature_enabled :: "u64 \<Rightarrow> nat \<Rightarrow> bool" where
  "virtio_is_feature_enabled features f = (features AND push_bit f 1 \<noteq> 0)"

definition virtio_feature_enable :: "u64 \<Rightarrow> nat \<Rightarrow> u64" where
  "virtio_feature_enable features f = features OR push_bit f 1"

definition virtio_feature_disable :: "u64 \<Rightarrow> nat \<Rightarrow> u64" where
  "virtio_feature_disable features f = features AND NOT (push_bit f 1)"

definition vring_transport_features :: "u64 \<Rightarrow> u64" where
  "vring_transport_features features =
    fold (\<lambda>i fs. if i \<noteq> VIRTIO_RING_F_INDIRECT_DESC \<and> i \<noteq> VIRTIO_RING_F_EVENT_IDX \<and> i \<noteq> VIRTIO_F_VERSION_1
                 then virtio_feature_disable fs i else fs)
      [VIRTIO_TRANSPORT_F_START..<VIRTIO_TRANSPORT_F_END] features"

definition virtio_get_indirect_page_capacity :: u32 where
  "virtio_get_indirect_page_capacity = PAGE_SIZE div 16"

end
