(* ===== verification/VirtioSplitInv.thy ===== *)
theory VirtioSplitInv
  imports VirtioSplit
begin

text \<open>
  The invariant of the split ring and what each operation of
  \<^verbatim>\<open>src/VirtIO/VirtIORing.c\<close> does under it.  The ring is described by the list
  \<^verbatim>\<open>fs\<close> of free descriptors, in the order the code will take them, and by the list
  \<^verbatim>\<open>cs\<close> of the requests in flight, each with its token and its descriptor chain.
\<close>

section \<open>The invariant\<close>

definition desc_has_next :: "vring_desc list \<Rightarrow> nat \<Rightarrow> bool" where
  "desc_has_next ds i = (d_flags (ds ! i) AND VIRTQ_DESC_F_NEXT \<noteq> 0)"

definition desc_next :: "vring_desc list \<Rightarrow> nat \<Rightarrow> nat" where
  "desc_next ds i = unat (d_next (ds ! i))"

definition ring_shape :: "'a virtqueue_split \<Rightarrow> bool" where
  "ring_shape q \<longleftrightarrow>
     (\<exists>k\<le>15. unat (sq_num q) = 2 ^ k) \<and>
     length (sq_desc q) = unat (sq_num q) \<and>
     length (avail_ring q) = unat (sq_num q) \<and>
     length (used_ring q) = unat (sq_num q) \<and>
     length (opaques q) = unat (sq_num q)"

definition split_inv :: "nat list \<Rightarrow> ('a \<times> nat list) list \<Rightarrow> 'a virtqueue_split \<Rightarrow> bool" where
  "split_inv fs cs q \<longleftrightarrow>
     ring_shape q \<and>
     distinct (fs @ concat (map snd cs)) \<and>
     set (fs @ concat (map snd cs)) = {..<unat (sq_num q)} \<and>
     unat (num_unused q) = length fs \<and>
     (fs \<noteq> [] \<longrightarrow> unat (first_unused q) = hd fs) \<and>
     linked (desc_next (sq_desc q)) fs \<and>
     (\<forall>(t, c) \<in> set cs. chained (desc_has_next (sq_desc q)) (desc_next (sq_desc q)) c \<and>
        opaques q ! hd c = Some t) \<and>
     (\<forall>i < unat (sq_num q). i \<notin> hd ` snd ` set cs \<longrightarrow> opaques q ! i = None)"

text \<open>What a client of the queue sees: the tokens of the requests in flight.\<close>
definition outstanding_split :: "'a virtqueue_split \<Rightarrow> 'a multiset" where
  "outstanding_split q = mset (concat (map (case_option [] (\<lambda>t. [t])) (opaques q)))"

lemma ring_shapeD:
  assumes "ring_shape q"
  shows "length (sq_desc q) = unat (sq_num q)" "length (avail_ring q) = unat (sq_num q)"
    "length (used_ring q) = unat (sq_num q)" "length (opaques q) = unat (sq_num q)"
    "0 < unat (sq_num q)" "unat (sq_num q) \<le> 32768"
proof -
  from assms obtain k where k: "k \<le> 15" "unat (sq_num q) = 2 ^ k"
    by (auto simp: ring_shape_def)
  then show "0 < unat (sq_num q)" by simp
  from k have "(2::nat) ^ k \<le> 2 ^ 15" by (intro power_increasing) auto
  with k show "unat (sq_num q) \<le> 32768" by simp
qed (use assms in \<open>simp_all add: ring_shape_def\<close>)

lemma split_invD:
  assumes "split_inv fs cs q"
  shows "ring_shape q" "distinct fs" "distinct (fs @ concat (map snd cs))"
    "set (fs @ concat (map snd cs)) = {..<unat (sq_num q)}"
    "unat (num_unused q) = length fs" "fs \<noteq> [] \<Longrightarrow> unat (first_unused q) = hd fs"
    "linked (desc_next (sq_desc q)) fs"
    "length (sq_desc q) = unat (sq_num q)" "length (avail_ring q) = unat (sq_num q)"
    "length (used_ring q) = unat (sq_num q)" "length (opaques q) = unat (sq_num q)"
    "0 < unat (sq_num q)" "unat (sq_num q) \<le> 32768"
  using assms ring_shapeD [of q] by (auto simp: split_inv_def)

lemma split_inv_chain:
  assumes "split_inv fs cs q" "(t, c) \<in> set cs"
  shows "chained (desc_has_next (sq_desc q)) (desc_next (sq_desc q)) c"
    "opaques q ! hd c = Some t" "c \<noteq> []" "hd c < unat (sq_num q)" "set c \<subseteq> {..<unat (sq_num q)}"
    "distinct c" "set c \<inter> set fs = {}"
proof -
  show ch: "chained (desc_has_next (sq_desc q)) (desc_next (sq_desc q)) c"
    and "opaques q ! hd c = Some t"
    using assms by (auto simp: split_inv_def)
  then show ne: "c \<noteq> []" by auto
  have sub: "set c \<subseteq> set (concat (map snd cs))" using assms(2) by force
  with split_invD(4) [OF assms(1)] show c: "set c \<subseteq> {..<unat (sq_num q)}" by auto
  with ne show "hd c < unat (sq_num q)" by (cases c) auto
  show "set c \<inter> set fs = {}" using sub split_invD(3) [OF assms(1)] by auto
  have "distinct (concat (map snd cs))" using split_invD(3) [OF assms(1)] by simp
  then show "distinct c" using assms(2) by (auto simp: distinct_concat_iff image_iff) 
qed

text \<open>Free descriptors and descriptors in flight account for the whole ring.\<close>
lemma split_inv_count:
  assumes "split_inv fs cs q"
  shows "length fs + length (concat (map snd cs)) = unat (sq_num q)"
  using split_invD(3,4) [OF assms] distinct_card [of "fs @ concat (map snd cs)"] by simp

section \<open>Taking descriptors\<close>

lemma get_unused_desc_ok:
  assumes "unat (first_unused q) < length (sq_desc q)"
  shows "get_unused_desc q = Some (first_unused q,
     q\<lparr>first_unused := d_next (sq_desc q ! unat (first_unused q)), num_unused := num_unused q - 1\<rparr>)"
  using assms by (simp add: get_unused_desc_def Let_def)

text \<open>The descriptors of a request as the code leaves them before the last one is unmarked:
  the successor fields are those of the free list.\<close>
definition filled :: "scatterlist list \<Rightarrow> u32 \<Rightarrow> nat \<Rightarrow> nat list \<Rightarrow> vring_desc list \<Rightarrow> vring_desc list \<Rightarrow> bool" where
  "filled sg out i is ds ds' \<longleftrightarrow>
     length ds' = length ds \<and>
     (\<forall>x < length ds. x \<notin> set is \<longrightarrow> ds' ! x = ds ! x) \<and>
     (\<forall>j < length is. ds' ! (is ! j) =
        \<lparr>d_addr = physAddr (sg ! (i + j)), d_len = sg_length (sg ! (i + j)),
         d_flags = (if i + j \<ge> unat out then VIRTQ_DESC_F_NEXT OR VIRTQ_DESC_F_WRITE
                    else VIRTQ_DESC_F_NEXT),
         d_next = d_next (ds ! (is ! j))\<rparr>)"

lemma filled_Nil: "filled sg out i [] ds ds' \<longleftrightarrow> ds' = ds"
  unfolding filled_def by (auto simp: list_eq_iff_nth_eq)

lemma filled_Cons:
  assumes "filled sg out (Suc i) is (ds[x := \<lparr>d_addr = physAddr (sg ! i), d_len = sg_length (sg ! i),
         d_flags = (if i \<ge> unat out then VIRTQ_DESC_F_NEXT OR VIRTQ_DESC_F_WRITE
                    else VIRTQ_DESC_F_NEXT), d_next = d_next (ds ! x)\<rparr>]) ds'"
    and "x \<notin> set is" "x < length ds"
  shows "filled sg out i (x # is) ds ds'"
  using assms
  by (auto simp: filled_def nth_Cons nth_list_update split: nat.splits)

lemma desc_update_all:
  "d\<lparr>d_addr := a, d_len := l, d_flags := f\<rparr> = \<lparr>d_addr = a, d_len = l, d_flags = f, d_next = d_next d\<rparr>"
  by (cases d) simp

lemma add_rest_ok:
  assumes "distinct fs" "set fs \<subseteq> {..<length (sq_desc q)}" "k \<le> length fs" "i + k \<le> length sg"
    and "fs \<noteq> [] \<Longrightarrow> unat (first_unused q) = hd fs" "linked (desc_next (sq_desc q)) fs"
  shows "\<exists>ds' f'. add_rest sg out k i l q =
       Some (if k = 0 then l else of_nat (fs ! (k - 1)),
             q\<lparr>sq_desc := ds', first_unused := f', num_unused := num_unused q - of_nat k\<rparr>)
     \<and> filled sg out i (take k fs) (sq_desc q) ds'
     \<and> (drop k fs \<noteq> [] \<longrightarrow> unat f' = hd (drop k fs))"
  using assms
proof (induction k arbitrary: i l q fs)
  case 0
  then show ?case
    by (intro exI [of _ "sq_desc q"] exI [of _ "first_unused q"]) (simp add: filled_Nil)
next
  case (Suc k)
  then obtain x fs' where fs: "fs = x # fs'" by (cases fs) auto
  let ?D = "sq_desc q" and ?s = "sg ! i"
  let ?d = "\<lparr>d_addr = physAddr ?s, d_len = sg_length ?s,
      d_flags = (if i \<ge> unat out then VIRTQ_DESC_F_NEXT OR VIRTQ_DESC_F_WRITE else VIRTQ_DESC_F_NEXT),
      d_next = d_next (?D ! x)\<rparr>"
  let ?q1 = "q\<lparr>first_unused := d_next (?D ! x), num_unused := num_unused q - 1, sq_desc := ?D[x := ?d]\<rparr>"
  have x: "x < length ?D" "unat (first_unused q) = x" "x \<notin> set fs'" "i < length sg"
    using Suc.prems fs by auto
  have step: "add_rest sg out (Suc k) i l q = add_rest sg out k (Suc i) (first_unused q) ?q1"
    using x by (simp add: get_unused_desc_ok set_desc_def desc_update_all)
  have nx: "desc_next (?D[x := ?d]) = desc_next ?D"
    by (rule ext) (simp add: desc_next_def nth_list_update x)
  have "\<exists>ds' f'. add_rest sg out k (Suc i) (first_unused q) ?q1 =
       Some (if k = 0 then first_unused q else of_nat (fs' ! (k - 1)),
             ?q1\<lparr>sq_desc := ds', first_unused := f', num_unused := num_unused ?q1 - of_nat k\<rparr>)
     \<and> filled sg out (Suc i) (take k fs') (sq_desc ?q1) ds'
     \<and> (drop k fs' \<noteq> [] \<longrightarrow> unat f' = hd (drop k fs'))"
  proof (rule Suc.IH)
    show "fs' \<noteq> [] \<Longrightarrow> unat (first_unused ?q1) = hd fs'"
      using Suc.prems(6) fs by (auto simp: linked_Cons desc_next_def)
    show "linked (desc_next (sq_desc ?q1)) fs'"
      using Suc.prems(6) fs nx by (auto simp: linked_Cons)
  qed (use Suc.prems fs in auto)
  then obtain ds' f' where r: "add_rest sg out k (Suc i) (first_unused q) ?q1 =
       Some (if k = 0 then first_unused q else of_nat (fs' ! (k - 1)),
             ?q1\<lparr>sq_desc := ds', first_unused := f', num_unused := num_unused ?q1 - of_nat k\<rparr>)"
    and f: "filled sg out (Suc i) (take k fs') (?D[x := ?d]) ds'"
    and h: "drop k fs' \<noteq> [] \<longrightarrow> unat f' = hd (drop k fs')"
    by auto
  have fl: "filled sg out i (take (Suc k) fs) ?D ds'"
    using filled_Cons [OF f] x fs by (auto dest: in_set_takeD)
  have fx: "first_unused q = of_nat x" by (simp flip: x(2))
  show ?case
    using step r fl h fs fx by (auto simp: nth_Cons' intro!: exI [of _ ds'] exI [of _ f'])
qed


text \<open>The descriptors of a request as the device finds them.\<close>
definition request_desc :: "scatterlist list \<Rightarrow> u32 \<Rightarrow> nat list \<Rightarrow> vring_desc list \<Rightarrow> vring_desc list \<Rightarrow> bool" where
  "request_desc sg out is ds ds' \<longleftrightarrow>
     length ds' = length ds \<and>
     (\<forall>x < length ds. x \<notin> set is \<longrightarrow> ds' ! x = ds ! x) \<and>
     (\<forall>j < length is. ds' ! (is ! j) =
        \<lparr>d_addr = physAddr (sg ! j), d_len = sg_length (sg ! j),
         d_flags = (if Suc j < length is then VIRTQ_DESC_F_NEXT else 0) OR
                   (if j \<ge> unat out then VIRTQ_DESC_F_WRITE else 0),
         d_next = d_next (ds ! (is ! j))\<rparr>)"

lemma filled_request:
  assumes f: "filled sg out 0 is ds ds'" and "is \<noteq> []" "distinct is" "set is \<subseteq> {..<length ds}"
  shows "request_desc sg out is ds
    (ds'[last is := (ds' ! last is)\<lparr>d_flags := d_flags (ds' ! last is) AND NOT VIRTQ_DESC_F_NEXT\<rparr>])"
proof -
  have len: "length ds' = length ds" using f by (simp add: filled_def)
  have last: "last is = is ! (length is - 1)" "last is < length ds"
    using assms(2) last_less [OF assms(2,4)] by (auto simp: last_conv_nth)
  let ?ds = "ds'[last is := (ds' ! last is)\<lparr>d_flags := d_flags (ds' ! last is) AND NOT VIRTQ_DESC_F_NEXT\<rparr>]"
  have "?ds ! (is ! j) =
        \<lparr>d_addr = physAddr (sg ! j), d_len = sg_length (sg ! j),
         d_flags = (if Suc j < length is then VIRTQ_DESC_F_NEXT else 0) OR
                   (if j \<ge> unat out then VIRTQ_DESC_F_WRITE else 0),
         d_next = d_next (ds ! (is ! j))\<rparr>" if j: "j < length is" for j
  proof (cases "Suc j < length is")
    case True
    then have "is ! j \<noteq> last is"
      using assms(2,3) last(1) by (simp add: nth_eq_iff_index_eq)
    then show ?thesis using f True by (simp add: filled_def)
  next
    case False
    then have "j = length is - 1" using j by simp
    then have "last is = is ! j" using last(1) by simp
    then show ?thesis using f False j last(2) len by (simp add: filled_def vring_flag_defs)
  qed
  moreover have "?ds ! x = ds ! x" if "x < length ds" "x \<notin> set is" for x
    using that f last_neq [OF assms(2) that(2)] by (simp add: filled_def)
  ultimately show ?thesis using len by (simp add: request_desc_def)
qed

lemma request_desc_chained:
  assumes "request_desc sg out is ds ds'" "is \<noteq> []" "linked (desc_next ds) is"
  shows "chained (desc_has_next ds') (desc_next ds') is"
proof -
  have *: "chained (desc_has_next ds') (desc_next ds') (drop j is)" if "j < length is" for j
    using that
  proof (induction "length is - Suc j" arbitrary: j)
    case 0
    then have j: "Suc j = length is" by simp
    then have "drop j is = [is ! j]"
      by (metis Cons_nth_drop_Suc drop_all lessI order_refl)
    with assms(1) j show ?case
      by (auto simp: request_desc_def desc_has_next_def vring_flag_defs)
  next
    case (Suc n)
    then have j: "Suc j < length is" by simp
    have d: "drop j is = is ! j # drop (Suc j) is" "drop (Suc j) is \<noteq> []"
      "hd (drop (Suc j) is) = is ! Suc j"
      using j by (simp_all add: Cons_nth_drop_Suc hd_drop_conv_nth)
    have "linked (desc_next ds) (drop j is)"
      using assms(3) by (metis append_take_drop_id linked_append)
    then have "desc_next ds (is ! j) = is ! Suc j"
      using d by (simp add: linked_Cons)
    then have "desc_next ds' (is ! j) = is ! Suc j" "desc_has_next ds' (is ! j)"
      using assms(1) j
      by (auto simp: request_desc_def desc_has_next_def desc_next_def vring_flag_defs)
    moreover have "chained (desc_has_next ds') (desc_next ds') (drop (Suc j) is)"
      using Suc j by simp
    ultimately show ?case using d by (simp add: chained_Cons)
  qed
  from * [of 0] assms(2) show ?thesis by simp
qed

lemma add_direct_as_loop:
  assumes "unat (first_unused q) < length (sq_desc q)" "unat (first_unused q) < length (opaques q)"
    and "0 < unat (out + in')" "sg \<noteq> []"
  shows "add_direct q sg out in' tok = do {
     (l, q4) \<leftarrow> add_rest sg out (unat (out + in')) 0 l0
                (q\<lparr>opaques := (opaques q)[unat (first_unused q) := tok]\<rparr>);
     q5 \<leftarrow> set_desc q4 (unat l) (\<lambda>d. d\<lparr>d_flags := d_flags d AND NOT VIRTQ_DESC_F_NEXT\<rparr>);
     Some (first_unused q, q5) }"
proof -
  obtain n where n: "unat (out + in') = Suc n" using assms(3) by (cases "unat (out + in')") auto
  have "0 < length sg" using assms(4) by simp
  then show ?thesis
    unfolding add_direct_def n using assms(1,2)
    by (cases q) (simp add: get_unused_desc_ok set_desc_def Let_def unat_eq_zero)
qed

lemma add_direct_ok:
  assumes inv: "split_inv fs cs q" and n: "n = unat (out + in')" "0 < n" "n \<le> length fs" "n \<le> length sg"
  shows "\<exists>ds' f'. add_direct q sg out in' tok = Some (of_nat (hd fs),
      q\<lparr>opaques := (opaques q)[hd fs := tok], sq_desc := ds', first_unused := f',
        num_unused := num_unused q - of_nat n\<rparr>)
    \<and> request_desc sg out (take n fs) (sq_desc q) ds'
    \<and> (drop n fs \<noteq> [] \<longrightarrow> unat f' = hd (drop n fs))"
proof -
  note I = split_invD [OF inv]
  have fs: "fs \<noteq> []" using n by auto
  have sub: "set fs \<subseteq> {..<length (sq_desc q)}" using I(4,8) by auto
  have hd: "unat (first_unused q) = hd fs" "hd fs < length (sq_desc q)"
    using I(6) fs hd_less [OF fs sub] by auto
  let ?q0 = "q\<lparr>opaques := (opaques q)[hd fs := tok]\<rparr>"
  obtain ds f' where r: "add_rest sg out n 0 0 ?q0 = Some (of_nat (fs ! (n - 1)),
      ?q0\<lparr>sq_desc := ds, first_unused := f', num_unused := num_unused q - of_nat n\<rparr>)"
    and f: "filled sg out 0 (take n fs) (sq_desc q) ds"
    and h: "drop n fs \<noteq> [] \<longrightarrow> unat f' = hd (drop n fs)"
    using add_rest_ok [of fs ?q0 n 0 sg out 0] I n sub hd by auto
  have last: "last (take n fs) = fs ! (n - 1)" "fs ! (n - 1) < length (sq_desc q)"
    using n(2,3) last_conv_nth [of "take n fs"] sub nth_mem [of "n - 1" fs] by fastforce+
  then have un: "unat (of_nat (fs ! (n - 1)) :: u16) = last (take n fs)"
    using I(8,13) by (simp add: unat_of_nat_less)
  have len: "length ds = length (sq_desc q)" using f by (simp add: filled_def)
  have sg: "sg \<noteq> []" using n by auto
  have ho: "unat (first_unused q) < length (opaques q)" using hd I(8,11) by simp
  have r': "add_direct q sg out in' tok = Some (first_unused q, ?q0\<lparr>sq_desc :=
        ds[last (take n fs) := (ds ! last (take n fs))
             \<lparr>d_flags := d_flags (ds ! last (take n fs)) AND NOT VIRTQ_DESC_F_NEXT\<rparr>],
        first_unused := f', num_unused := num_unused q - of_nat n\<rparr>)"
    using add_direct_as_loop [of q out in' sg tok 0] hd ho n r un last len sg
    by (cases q) (auto simp: set_desc_def)
  moreover have "first_unused q = of_nat (hd fs)" by (simp flip: hd(1))
  moreover have "request_desc sg out (take n fs) (sq_desc q) (ds[last (take n fs) := (ds ! last (take n fs))
             \<lparr>d_flags := d_flags (ds ! last (take n fs)) AND NOT VIRTQ_DESC_F_NEXT\<rparr>])"
    using filled_request [OF f] fs n I(2) sub by (auto dest: in_set_takeD)
  ultimately show ?thesis using h by auto
qed

section \<open>The invariant under taking and returning descriptors\<close>

lemma split_inv_take:
  assumes inv: "split_inv (is @ fs) cs q" and ne: "is \<noteq> []"
    and sh: "ring_shape q'" "sq_num q' = sq_num q"
    and same: "\<And>x. x < unat (sq_num q) \<Longrightarrow> x \<notin> set is \<Longrightarrow> sq_desc q' ! x = sq_desc q ! x"
    and ch: "chained (desc_has_next (sq_desc q')) (desc_next (sq_desc q')) is"
    and op: "opaques q' = (opaques q)[hd is := Some t]"
    and nu: "unat (num_unused q') = length fs"
    and fu: "fs \<noteq> [] \<Longrightarrow> unat (first_unused q') = hd fs"
  shows "split_inv fs ((t, is) # cs) q'"
proof -
  note I = split_invD [OF inv]
  have hd: "hd is \<in> set is" "hd is < unat (sq_num q)" using ne I(4) by (cases "is"; auto)+
  have d: "desc_has_next (sq_desc q') x = desc_has_next (sq_desc q) x"
    "desc_next (sq_desc q') x = desc_next (sq_desc q) x"
    if "x < unat (sq_num q)" "x \<notin> set is" for x
    using same [OF that] by (simp_all add: desc_has_next_def desc_next_def)
  have "linked (desc_next (sq_desc q)) fs" using I(7) by (simp add: linked_append)
  moreover have "x < unat (sq_num q) \<and> x \<notin> set is" if "x \<in> set fs" for x
    using that I(3,4) by auto
  ultimately have lk: "linked (desc_next (sq_desc q')) fs"
    using linked_cong [of fs "desc_next (sq_desc q')" "desc_next (sq_desc q)"] d by auto
  have cs: "chained (desc_has_next (sq_desc q')) (desc_next (sq_desc q')) c \<and> opaques q' ! hd c = Some u"
    if uc: "(u, c) \<in> set cs" for u c
  proof -
    note C = split_inv_chain [OF inv uc]
    have "x < unat (sq_num q) \<and> x \<notin> set is" if "x \<in> set c" for x using C(5,7) that by auto
    then have "chained (desc_has_next (sq_desc q')) (desc_next (sq_desc q')) c"
      using chained_cong [of c "desc_next (sq_desc q')" "desc_next (sq_desc q)"
        "desc_has_next (sq_desc q')" "desc_has_next (sq_desc q)"] d C(1) by auto
    moreover have "hd c \<notin> set is" using C(7) by (intro hd_notin [OF C(3)]) auto
    then have "hd c \<noteq> hd is" using hd(1) by auto
    ultimately show ?thesis using C(2) op by simp
  qed
  have none: "opaques q' ! i = None" if "i < unat (sq_num q)" "i \<notin> hd ` snd ` set ((t, is) # cs)" for i
    using that inv op by (simp add: split_inv_def)
  show ?thesis
    unfolding split_inv_def
  proof (intro conjI)
    show "set (fs @ concat (map snd ((t, is) # cs))) = {..<unat (sq_num q')}"
      using I(4) sh(2) by auto
    show "distinct (fs @ concat (map snd ((t, is) # cs)))" using I(3) by auto
    show "\<forall>(t, c)\<in>set ((t, is) # cs).
       chained (desc_has_next (sq_desc q')) (desc_next (sq_desc q')) c \<and> opaques q' ! hd c = Some t"
      using ch cs op hd(2) I(11) by auto
  qed (use sh nu fu lk none in auto)
qed

lemma split_inv_put:
  assumes inv: "split_inv fs cs q" and tc: "(t, c) \<in> set cs" 
    and sh: "ring_shape q'" "sq_num q' = sq_num q"
    and ds: "sq_desc q' = (sq_desc q)[last c := (sq_desc q ! last c)\<lparr>d_flags := VIRTQ_DESC_F_NEXT, d_next := first_unused q\<rparr>]"
    and op: "opaques q' = (opaques q)[hd c := None]"
    and nu: "num_unused q' = num_unused q + of_nat (length c)"
    and fu: "unat (first_unused q') = hd c"
  shows "split_inv (c @ fs) (remove1 (t, c) cs) q'"
proof -
  note I = split_invD [OF inv] and C = split_inv_chain [OF inv tc]
  have last: "last c \<in> set c" "last c < length (sq_desc q)"
    using C(3) last_less [OF C(3,5)] I(8) by auto
  have dcs: "distinct (concat (map snd cs))" using I(3) by simp
  let ?cs = "remove1 (t, c) cs"
  have ms: "mset (concat (map snd cs)) = mset c + mset (concat (map snd ?cs))"
    using tc by (induction cs) (auto simp: ac_simps)
  have dis: "distinct (c @ concat (map snd ?cs))"
    using dcs ms by (metis mset_append mset_eq_imp_distinct_iff)
  have setms: "set (concat (map snd cs)) = set c \<union> set (concat (map snd ?cs))"
    using ms by (metis set_mset_mset set_mset_union)
  have d: "desc_has_next (sq_desc q') x = desc_has_next (sq_desc q) x"
    "desc_next (sq_desc q') x = desc_next (sq_desc q) x" if "x \<noteq> last c" for x
    using that by (simp_all add: desc_has_next_def desc_next_def ds nth_list_update)
  have "x \<noteq> last c" if "x \<in> set fs" for x using that C(7) last(1) by auto
  then have lf: "linked (desc_next (sq_desc q')) fs"
    using I(7) linked_cong [of fs "desc_next (sq_desc q')" "desc_next (sq_desc q)"] d by auto
  have "x \<noteq> last c" if "x \<in> set (butlast c)" for x
    using that C(3,6) append_butlast_last_id [OF C(3)]
    by (metis distinct_append disjoint_iff list.set_intros(1))
  then have lc: "linked (desc_next (sq_desc q')) c"
    using chained_linked [OF C(1)]
      linked_cong_butlast [of c "desc_next (sq_desc q')" "desc_next (sq_desc q)"] d by auto
  have lnk: "linked (desc_next (sq_desc q')) (c @ fs)"
    using lf lc I(6) last by (auto simp: linked_append ds desc_next_def)
  have cs: "chained (desc_has_next (sq_desc q')) (desc_next (sq_desc q')) e \<and> opaques q' ! hd e = Some u"
    if ue: "(u, e) \<in> set ?cs" for u e
  proof -
    have ue': "(u, e) \<in> set cs" using ue by (meson notin_set_remove1)
    note E = split_inv_chain [OF inv ue']
    have disj: "set e \<inter> set c = {}" using dis ue by force
    have "x \<noteq> last c" if "x \<in> set e" for x using that disj last(1) by auto
    then have "chained (desc_has_next (sq_desc q')) (desc_next (sq_desc q')) e"
      using chained_cong [of e "desc_next (sq_desc q')" "desc_next (sq_desc q)"
        "desc_has_next (sq_desc q')" "desc_has_next (sq_desc q)"] d E(1) by auto
    moreover have "hd e \<notin> set c" using disj by (intro hd_notin [OF E(3)])
    then have "hd e \<noteq> hd c" using C(3) by auto
    ultimately show ?thesis using E(2) op by simp
  qed
  have none: "opaques q' ! i = None" if "i < unat (sq_num q)" "i \<notin> hd ` snd ` set ?cs" for i
  proof (cases "i = hd c")
    case True
    then show ?thesis using op I(11) C(4) by simp
  next
    case False
    have "p \<in> set ?cs" if "p \<in> set cs" "p \<noteq> (t, c)" for p
      using that by (simp add: in_set_remove1)
    then have "set cs \<subseteq> insert (t, c) (set ?cs)" by blast
    then have "i \<notin> hd ` snd ` set cs" using that(2) False by force
    then show ?thesis using inv that(1) False op by (simp add: split_inv_def)
  qed
  have nun: "unat (num_unused q') = length (c @ fs)"
  proof -
    have "length c + length fs \<le> 32768"
      using split_inv_count [OF inv] I(13) arg_cong [OF ms, of size] by simp
    then show ?thesis using nu I(5) by (simp add: unat_word_ariths unat_of_nat)
  qed
  show ?thesis
    unfolding split_inv_def
  proof (intro conjI)
    show "distinct ((c @ fs) @ concat (map snd ?cs))"
      using dis I(3) setms by auto
    show "set ((c @ fs) @ concat (map snd ?cs)) = {..<unat (sq_num q')}"
      using I(4) setms sh(2) by auto
    show "c @ fs \<noteq> [] \<longrightarrow> unat (first_unused q') = hd (c @ fs)" using fu C(3) by simp
  qed (use sh lnk cs none nun in auto)
qed

text \<open>The walk of \<^verbatim>\<open>put_unused_desc_chain\<close> ends: it visits the chain once.\<close>
lemma walk_chain_ok:
  assumes "chained (desc_has_next (sq_desc q)) (desc_next (sq_desc q)) c"
    "set c \<subseteq> {..<length (sq_desc q)}" "unat idx = hd c"
  shows "\<exists>l. walk_chain q idx = Some (q\<lparr>num_unused := num_unused q + of_nat (length c - 1)\<rparr>, l)
     \<and> unat l = last c"
  using assms
proof (induction c arbitrary: q idx)
  case Nil
  then show ?case by simp
next
  case (Cons x c)
  show ?case
  proof (cases "c = []")
    case True
    then show ?thesis
      using Cons.prems by (subst walk_chain.simps) (simp add: desc_has_next_def)
  next
    case False
    let ?q = "q\<lparr>num_unused := num_unused q + 1\<rparr>"
    have x: "x < length (sq_desc q)" "unat idx = x" "d_flags (sq_desc q ! x) AND VIRTQ_DESC_F_NEXT \<noteq> 0"
      "unat (d_next (sq_desc q ! x)) = hd c"
      using Cons.prems False by (auto simp: chained_Cons desc_has_next_def desc_next_def)
    obtain l where l: "walk_chain ?q (d_next (sq_desc q ! x)) =
        Some (?q\<lparr>num_unused := num_unused ?q + of_nat (length c - 1)\<rparr>, l)" "unat l = last c"
      using Cons.IH [of ?q "d_next (sq_desc q ! x)"] Cons.prems False x
      by (auto simp: chained_Cons)
    have "(1::u32) + of_nat (length c - 1) = of_nat (length c)"
      using False by (cases c) auto
    with l x False show ?thesis
      by (subst walk_chain.simps) (simp add: add.assoc)
  qed
qed

lemma put_unused_desc_chain_ok:
  assumes inv: "split_inv fs cs q" and tc: "(t, c) \<in> set cs" and idx: "unat idx = hd c"
  shows "put_unused_desc_chain q idx = Some (q\<lparr>
       opaques := (opaques q)[hd c := None],
       sq_desc := (sq_desc q)[last c := (sq_desc q ! last c)\<lparr>d_flags := VIRTQ_DESC_F_NEXT, d_next := first_unused q\<rparr>],
       num_unused := num_unused q + of_nat (length c), first_unused := idx\<rparr>)"
proof -
  note I = split_invD [OF inv] and C = split_inv_chain [OF inv tc]
  let ?q = "q\<lparr>opaques := (opaques q)[hd c := None]\<rparr>"
  obtain l where l: "walk_chain ?q idx =
        Some (?q\<lparr>num_unused := num_unused q + of_nat (length c - 1)\<rparr>, l)" "unat l = last c"
    using walk_chain_ok [of ?q c idx] C I(8) idx by auto
  have "last c < length (sq_desc q)" using last_less [OF C(3,5)] I(8) by simp
  moreover have "(of_nat (length c - 1) :: u32) + 1 = of_nat (length c)"
    using C(3) by (cases c) auto
  ultimately show ?thesis
    using l I(11) C(4) idx
    by (cases q) (simp add: put_unused_desc_chain_def set_desc_def Let_def add.assoc)
qed

lemma put_unused_desc_chain_inv:
  assumes "split_inv fs cs q" "(t, c) \<in> set cs" "unat idx = hd c"
  shows "\<exists>q'. put_unused_desc_chain q idx = Some q' \<and> split_inv (c @ fs) (remove1 (t, c) cs) q'
    \<and> q' = q\<lparr>opaques := opaques q', sq_desc := sq_desc q', num_unused := num_unused q', first_unused := idx\<rparr>
    \<and> opaques q' = (opaques q)[hd c := None]"
  using put_unused_desc_chain_ok [OF assms] split_invD(1) [OF assms(1)] assms(3)
  by (cases q) (auto simp: ring_shape_def intro!: split_inv_put [OF assms(1,2)])

section \<open>Adding a buffer\<close>

lemma DESC_INDEX_mod:
  assumes "ring_shape q"
  shows "unat (DESC_INDEX (sq_num q) x) = unat x mod unat (sq_num q)"
  using assms unat_and_minus_1 [of "sq_num q" _ x] by (auto simp: ring_shape_def DESC_INDEX_def)

lemma DESC_INDEX_u16:
  assumes "ring_shape q"
  shows "unat (DESC_INDEX (sq_num q) (ucast (x :: u16))) = unat x mod unat (sq_num q)"
    "unat (ucast (DESC_INDEX (sq_num q) (ucast x)) :: u16) = unat x mod unat (sq_num q)"
    "unat x mod unat (sq_num q) < unat (sq_num q)"
proof -
  show 1: "unat (DESC_INDEX (sq_num q) (ucast x)) = unat x mod unat (sq_num q)"
    using DESC_INDEX_mod [OF assms, of "ucast x"] by (simp add: unat_ucast_u16_u32)
  show lt: "unat x mod unat (sq_num q) < unat (sq_num q)"
    using ring_shapeD [OF assms] by simp
  then have "unat (DESC_INDEX (sq_num q) (ucast x)) < 65536"
    using 1 lt ring_shapeD(6) [OF assms] by simp
  then show "unat (ucast (DESC_INDEX (sq_num q) (ucast x)) :: u16) = unat x mod unat (sq_num q)"
    using 1 by (simp add: unat_ucast_u32_u16)
qed

lemma publish_avail_ok:
  assumes "ring_shape q"
  shows "publish_avail q idx = Some (q\<lparr>
    avail_ring := (avail_ring q)[unat (master_idx q) mod unat (sq_num q) := idx],
    master_idx := master_idx q + 1, avail_idx := master_idx q + 1,
    num_added_since_kick := num_added_since_kick q + 1\<rparr>)"
  using ring_shapeD [OF assms] DESC_INDEX_u16 [OF assms] by (simp add: publish_avail_def)

text \<open>What \<^verbatim>\<open>virtqueue_add_buf_split\<close> leaves alone.\<close>
definition add_frame :: "'a virtqueue_split \<Rightarrow> 'a virtqueue_split \<Rightarrow> bool" where
  "add_frame q q' \<longleftrightarrow>
     q' = q\<lparr>sq_desc := sq_desc q', opaques := opaques q', first_unused := first_unused q',
       num_unused := num_unused q', avail_ring := avail_ring q', master_idx := master_idx q + 1,
       avail_idx := master_idx q + 1, num_added_since_kick := num_added_since_kick q + 1\<rparr>"

lemma add_direct_publish:
  assumes inv: "split_inv fs cs q" and n: "n = unat (out + in')" "0 < n" "n \<le> length fs" "n \<le> length sg"
  shows "\<exists>q1 q'. add_direct q sg out in' (Some t) = Some (of_nat (hd fs), q1) \<and>
    publish_avail q1 (of_nat (hd fs)) = Some q' \<and>
    split_inv (drop n fs) ((t, take n fs) # cs) q' \<and> add_frame q q' \<and>
    request_desc sg out (take n fs) (sq_desc q) (sq_desc q') \<and>
    opaques q' = (opaques q)[hd fs := Some t] \<and>
    avail_ring q' = (avail_ring q)[unat (master_idx q) mod unat (sq_num q) := of_nat (hd fs)]"
proof -
  note I = split_invD [OF inv]
  obtain ds' f' where r: "add_direct q sg out in' (Some t) = Some (of_nat (hd fs),
      q\<lparr>opaques := (opaques q)[hd fs := Some t], sq_desc := ds', first_unused := f',
        num_unused := num_unused q - of_nat n\<rparr>)"
    and d: "request_desc sg out (take n fs) (sq_desc q) ds'"
    and h: "drop n fs \<noteq> [] \<longrightarrow> unat f' = hd (drop n fs)"
    using add_direct_ok [OF inv n, of "Some t"] by blast
  let ?q1 = "q\<lparr>opaques := (opaques q)[hd fs := Some t], sq_desc := ds', first_unused := f',
        num_unused := num_unused q - of_nat n\<rparr>"
  let ?q' = "?q1\<lparr>avail_ring := (avail_ring q)[unat (master_idx q) mod unat (sq_num q) := of_nat (hd fs)],
    master_idx := master_idx q + 1, avail_idx := master_idx q + 1,
    num_added_since_kick := num_added_since_kick q + 1\<rparr>"
  have len: "length ds' = length (sq_desc q)" using d by (simp add: request_desc_def)
  have sh: "ring_shape ?q1" "ring_shape ?q'" using I(1) len by (simp_all add: ring_shape_def)
  have tk: "take n fs \<noteq> []" "hd (take n fs) = hd fs" using n by auto
  have ld: "linked (desc_next (sq_desc q)) (take n fs)"
    using I(7) append_take_drop_id [of n fs] by (metis linked_append)
  have le: "num_unused q \<ge> of_nat n"
    using I(5) n by (simp add: word_le_nat_alt)
  have "split_inv (drop n fs) ((t, take n fs) # cs) ?q'"
  proof (rule split_inv_take [where q = q])
    show "split_inv (take n fs @ drop n fs) cs q" using inv by simp
    show "sq_desc ?q' ! x = sq_desc q ! x" if "x < unat (sq_num q)" "x \<notin> set (take n fs)" for x
      using d that I(8) by (simp add: request_desc_def)
    show "chained (desc_has_next (sq_desc ?q')) (desc_next (sq_desc ?q')) (take n fs)"
      using request_desc_chained [OF d tk(1) ld] by simp
    show "unat (num_unused ?q') = length (drop n fs)"
      using le I(5) n by (simp add: unat_sub)
  qed (use sh tk h in auto)
  moreover have "publish_avail ?q1 (of_nat (hd fs)) = Some ?q'"
    using publish_avail_ok [OF sh(1), of "of_nat (hd fs)"] by simp
  moreover have "add_frame q ?q'" by (cases q) (simp add: add_frame_def)
  ultimately show ?thesis using r d
    by (intro exI [of _ ?q1] exI [of _ ?q']) simp
qed

lemma add_buf_split_direct:
  assumes inv: "split_inv fs cs q" and n: "n = unat (out + in')" "0 < n" "n \<le> length fs" "n \<le> length sg"
    and va: "va = None \<or> n = 1"
  shows "\<exists>q'. virtqueue_add_buf_split q sg out in' (Some t) va phys = Some (0, va, q') \<and>
    split_inv (drop n fs) ((t, take n fs) # cs) q' \<and> add_frame q q' \<and>
    request_desc sg out (take n fs) (sq_desc q) (sq_desc q') \<and>
    opaques q' = (opaques q)[hd fs := Some t] \<and>
    avail_ring q' = (avail_ring q)[unat (master_idx q) mod unat (sq_num q) := of_nat (hd fs)]"
proof -
  have "\<not> out + in' > num_unused q" "n = 1 \<Longrightarrow> \<not> out + in' > 1"
    using n split_invD(5) [OF inv] by (simp_all add: word_less_nat_alt)
  with add_direct_publish [OF inv n, of t] va show ?thesis
    by (fastforce simp: virtqueue_add_buf_split_def split: option.splits)
qed

lemma add_buf_split_full:
  assumes "unat (num_unused q) < unat (out + in')" "va = None \<or> num_unused q = 0"
  shows "virtqueue_add_buf_split q sg out in' tok va phys = Some (- ENOSPC, va, q)"
  using assms by (auto simp: virtqueue_add_buf_split_def word_less_nat_alt split: option.splits)

end
