(* ===== verification/VirtioSplitOps.thy ===== *)
theory VirtioSplitOps
  imports VirtioSplitInv
begin

text \<open>
  The remaining operations of \<^verbatim>\<open>src/VirtIO/VirtIORing.c\<close> under the invariant of
  \<^verbatim>\<open>VirtioSplitInv\<close>: indirect requests, returned buffers, detaching, creation and
  shutdown, notification and interrupt suppression, the memory layout and the
  transport features.
\<close>

section \<open>Indirect requests\<close>

definition indirect_desc :: "scatterlist list \<Rightarrow> u32 \<Rightarrow> nat \<Rightarrow> nat \<Rightarrow> vring_desc" where
  "indirect_desc sg out n j =
     \<lparr>d_addr = physAddr (sg ! j), d_len = sg_length (sg ! j),
      d_flags = (if j < unat out then 0 else VIRTQ_DESC_F_WRITE) OR
                (if Suc j < n then VIRTQ_DESC_F_NEXT else 0),
      d_next = of_nat (Suc j)\<rparr>"

lemma fill_indirect_ok:
  assumes "i + k \<le> length sg" "i + k \<le> length page"
  shows "\<exists>page'. fill_indirect sg out k i page = Some page' \<and> length page' = length page \<and>
    (\<forall>j. i \<le> j \<and> j < i + k \<longrightarrow> page' ! j =
      \<lparr>d_addr = physAddr (sg ! j), d_len = sg_length (sg ! j),
       d_flags = (if j < unat out then 0 else VIRTQ_DESC_F_WRITE) OR VIRTQ_DESC_F_NEXT,
       d_next = of_nat (Suc j)\<rparr>) \<and>
    (\<forall>j < length page. j < i \<or> i + k \<le> j \<longrightarrow> page' ! j = page ! j)"
  using assms
proof (induction k arbitrary: i page)
  case 0
  then show ?case by auto
next
  case (Suc k)
  let ?d = "\<lparr>d_addr = physAddr (sg ! i), d_len = sg_length (sg ! i),
       d_flags = (if i < unat out then 0 else VIRTQ_DESC_F_WRITE) OR VIRTQ_DESC_F_NEXT,
       d_next = of_nat i + 1\<rparr> :: vring_desc"
  have s: "fill_indirect sg out (Suc k) i page = fill_indirect sg out k (Suc i) (page[i := ?d])"
    using Suc.prems by simp
  obtain page' where p: "fill_indirect sg out k (Suc i) (page[i := ?d]) = Some page'"
    "length page' = length page"
    "\<forall>j. Suc i \<le> j \<and> j < Suc i + k \<longrightarrow> page' ! j =
      \<lparr>d_addr = physAddr (sg ! j), d_len = sg_length (sg ! j),
       d_flags = (if j < unat out then 0 else VIRTQ_DESC_F_WRITE) OR VIRTQ_DESC_F_NEXT,
       d_next = of_nat (Suc j)\<rparr>"
    "\<forall>j < length page. j < Suc i \<or> Suc i + k \<le> j \<longrightarrow> page' ! j = page[i := ?d] ! j"
    using Suc.IH [of "Suc i" "page[i := ?d]"] Suc.prems by auto
  have "page' ! i = ?d" using p(4) Suc.prems(2) by simp
  then have "page' ! j =
      \<lparr>d_addr = physAddr (sg ! j), d_len = sg_length (sg ! j),
       d_flags = (if j < unat out then 0 else VIRTQ_DESC_F_WRITE) OR VIRTQ_DESC_F_NEXT,
       d_next = of_nat (Suc j)\<rparr>" if "i \<le> j \<and> j < i + Suc k" for j
    using p(3) that by (cases "j = i") (auto simp: add.commute)
  moreover have "page' ! j = page ! j" if "j < length page" "j < i \<or> i + Suc k \<le> j" for j
    using p(4) that by auto
  ultimately show ?case using s p(1,2) by auto
qed

lemma add_buf_split_indirect:
  assumes inv: "split_inv fs cs q" and n: "n = unat (out + in')" "1 < n" "n \<le> length sg" "n \<le> length page"
    and fs: "fs = x # fs'"
  shows "\<exists>page' q'. virtqueue_add_buf_split q sg out in' (Some t) (Some page) phys = Some (0, Some page', q') \<and>
    split_inv fs' ((t, [x]) # cs) q' \<and> add_frame q q' \<and>
    (\<forall>j < n. page' ! j = indirect_desc sg out n j) \<and>
    sq_desc q' = (sq_desc q)[x := (sq_desc q ! x)\<lparr>d_flags := VIRTQ_DESC_F_INDIRECT,
       d_addr := phys, d_len := (out + in') * 16\<rparr>] \<and>
    opaques q' = (opaques q)[x := Some t] \<and>
    avail_ring q' = (avail_ring q)[unat (master_idx q) mod unat (sq_num q) := of_nat x]"
proof -
  note I = split_invD [OF inv]
  have c: "out + in' > 1" "num_unused q > 0"
    using n I(5) fs by (simp_all add: word_less_nat_alt)
  obtain page' where p: "fill_indirect sg out n 0 page = Some page'" "length page' = length page"
    "\<forall>j < n. page' ! j =
      \<lparr>d_addr = physAddr (sg ! j), d_len = sg_length (sg ! j),
       d_flags = (if j < unat out then 0 else VIRTQ_DESC_F_WRITE) OR VIRTQ_DESC_F_NEXT,
       d_next = of_nat (Suc j)\<rparr>"
    using fill_indirect_ok [of 0 n sg page out] n by auto
  let ?page2 = "page'[n - 1 := (page' ! (n - 1))\<lparr>d_flags := d_flags (page' ! (n - 1)) AND NOT VIRTQ_DESC_F_NEXT\<rparr>]"
  have pg: "?page2 ! j = indirect_desc sg out n j" if "j < n" for j
    using that p(2,3) n by (cases "j = n - 1") (auto simp: indirect_desc_def vring_flag_defs)
  have x: "unat (first_unused q) = x" "x < unat (sq_num q)" using I(4,6) fs by auto
  let ?q1 = "q\<lparr>first_unused := d_next (sq_desc q ! x), num_unused := num_unused q - 1,
      sq_desc := (sq_desc q)[x := (sq_desc q ! x)\<lparr>d_flags := VIRTQ_DESC_F_INDIRECT,
       d_addr := phys, d_len := (out + in') * 16\<rparr>], opaques := (opaques q)[x := Some t]\<rparr>"
  have a: "add_indirect q sg out in' (Some t) page phys = Some (first_unused q, ?page2, ?q1)"
    using p n x I(8,11)
    by (simp add: add_indirect_def get_unused_desc_ok set_desc_def Let_def)
  let ?q' = "?q1\<lparr>avail_ring := (avail_ring q)[unat (master_idx q) mod unat (sq_num q) := first_unused q],
    master_idx := master_idx q + 1, avail_idx := master_idx q + 1,
    num_added_since_kick := num_added_since_kick q + 1\<rparr>"
  have sh: "ring_shape ?q1" "ring_shape ?q'" using I(1) by (simp_all add: ring_shape_def)
  have fu: "first_unused q = of_nat x" by (simp flip: x(1))
  have "split_inv fs' ((t, [x]) # cs) ?q'"
  proof (rule split_inv_take [where q = q])
    show "split_inv ([x] @ fs') cs q" using inv fs by simp
    show "chained (desc_has_next (sq_desc ?q')) (desc_next (sq_desc ?q')) [x]"
      using x I(8) by (simp add: desc_has_next_def vring_flag_defs)
    show "unat (num_unused ?q') = length fs'"
      using I(5) fs c(2) by (simp add: unat_sub word_le_nat_alt)
    show "unat (first_unused ?q') = hd fs'" if "fs' \<noteq> []"
      using I(7) fs that by (simp add: linked_Cons desc_next_def)
  qed (use sh x fs I(1) in \<open>auto simp: nth_list_update\<close>)
  moreover have "virtqueue_add_buf_split q sg out in' (Some t) (Some page) phys = Some (0, Some ?page2, ?q')"
    using c a publish_avail_ok [OF sh(1), of "first_unused q"] by (simp add: virtqueue_add_buf_split_def)
  moreover have "add_frame q ?q'" by (cases q) (simp add: add_frame_def)
  ultimately show ?thesis using pg fu
    by (intro exI [of _ ?page2] exI [of _ ?q']) simp
qed

section \<open>Returned buffers\<close>

text \<open>The id the device left in the next used slot.\<close>
definition next_used :: "'a virtqueue_split \<Rightarrow> vring_used_elem" where
  "next_used q = used_ring q ! (unat (last_used q) mod unat (sq_num q))"

lemma get_buf_split_empty:
  "\<not> virtqueue_has_buf_split q \<Longrightarrow> virtqueue_get_buf_split q = Some (None, None, q)"
  by (simp add: virtqueue_has_buf_split_def virtqueue_get_buf_split_def)

lemma get_buf_split_bad_id:
  assumes "ring_shape q" "virtqueue_has_buf_split q" "sq_num q \<le> ue_id (next_used q)"
  shows "virtqueue_get_buf_split q =
    Some (None, Some (ue_len (next_used q)), q\<lparr>last_used := last_used q + 1\<rparr>)"
  using assms ring_shapeD [OF assms(1)] DESC_INDEX_u16 [OF assms(1), of "last_used q"]
  by (simp add: virtqueue_get_buf_split_def virtqueue_has_buf_split_def next_used_def Let_def)

text \<open>What \<^verbatim>\<open>virtqueue_get_buf_split\<close> leaves alone.\<close>
definition get_frame :: "'a virtqueue_split \<Rightarrow> 'a virtqueue_split \<Rightarrow> bool" where
  "get_frame q q' \<longleftrightarrow>
     q' = q\<lparr>sq_desc := sq_desc q', opaques := opaques q', first_unused := first_unused q',
       num_unused := num_unused q', last_used := last_used q + 1, used_event := used_event q'\<rparr>"

lemma split_inv_cong:
  assumes "split_inv fs cs q" "sq_num q' = sq_num q" "sq_desc q' = sq_desc q" "opaques q' = opaques q"
    "first_unused q' = first_unused q" "num_unused q' = num_unused q"
    "length (avail_ring q') = length (avail_ring q)" "length (used_ring q') = length (used_ring q)"
  shows "split_inv fs cs q'"
  using assms by (simp add: split_inv_def ring_shape_def)

lemma get_buf_split_chain:
  assumes inv: "split_inv fs cs q" and has: "virtqueue_has_buf_split q"
    and tc: "(t, c) \<in> set cs" and ident: "unat (ue_id (next_used q)) = hd c"
  shows "\<exists>q'. virtqueue_get_buf_split q = Some (Some t, Some (ue_len (next_used q)), q') \<and>
    split_inv (c @ fs) (remove1 (t, c) cs) q' \<and> get_frame q q' \<and>
    opaques q' = (opaques q)[hd c := None]"
proof -
  note I = split_invD [OF inv] and C = split_inv_chain [OF inv tc]
  let ?i = "ue_id (next_used q)"
  have lt: "\<not> sq_num q \<le> ?i" using C(4) ident by (simp add: word_le_nat_alt)
  have idx: "unat (ucast ?i :: u16) = hd c"
    using C(4) ident I(13) by (simp add: unat_ucast_u32_u16)
  obtain q1 where q1: "put_unused_desc_chain q (ucast ?i) = Some q1"
    "split_inv (c @ fs) (remove1 (t, c) cs) q1"
    "q1 = q\<lparr>opaques := opaques q1, sq_desc := sq_desc q1, num_unused := num_unused q1, first_unused := ucast ?i\<rparr>"
    "opaques q1 = (opaques q)[hd c := None]"
    using put_unused_desc_chain_inv [OF inv tc idx] by blast
  let ?q2 = "q1\<lparr>last_used := last_used q1 + 1\<rparr>"
  let ?q3 = "if event_suppression_enabled (sq_vdev ?q2) \<and> virtqueue_is_interrupt_enabled_split ?q2
             then ?q2\<lparr>used_event := last_used ?q2\<rparr> else ?q2"
  have "virtqueue_get_buf_split q = Some (Some t, Some (ue_len (next_used q)), ?q3)"
    using has lt idx q1(1) C(2,4) I DESC_INDEX_u16 [OF I(1), of "last_used q"]
    by (simp add: virtqueue_get_buf_split_def virtqueue_has_buf_split_def next_used_def Let_def)
  moreover have "split_inv (c @ fs) (remove1 (t, c) cs) ?q3"
    by (rule split_inv_cong [OF q1(2)]) auto
  moreover have "get_frame q ?q3"
    using q1(3) by (cases q; cases q1) (simp add: get_frame_def)
  moreover have "opaques ?q3 = (opaques q)[hd c := None]" using q1(4) by simp
  ultimately show ?thesis by blast
qed

section \<open>Detaching at shutdown\<close>

lemma split_inv_head:
  assumes "split_inv fs cs q" "i < unat (sq_num q)" "opaques q ! i = Some t"
  shows "\<exists>c. (t, c) \<in> set cs \<and> hd c = i"
proof -
  have "i \<in> hd ` snd ` set cs" using assms by (auto simp: split_inv_def)
  then obtain u c where "(u, c) \<in> set cs" "hd c = i" by auto
  then show ?thesis using split_inv_chain(2) [OF assms(1)] assms(3) by fastforce
qed

lemma detach_scan_ok:
  assumes inv: "split_inv fs cs q" and k: "unat idx + k = unat (sq_num q)"
    and none: "\<forall>i < unat idx. opaques q ! i = None"
  shows "(cs = [] \<and> detach_scan k idx q = Some (None, q)) \<or>
    (\<exists>t c q'. (t, c) \<in> set cs \<and> detach_scan k idx q = Some (Some t, q') \<and>
       split_inv (c @ fs) (remove1 (t, c) cs) q' \<and>
       master_idx q' = master_idx q - 1 \<and> avail_idx q' = master_idx q - 1 \<and>
       opaques q' = (opaques q)[hd c := None] \<and> (\<forall>(u, d) \<in> set cs. hd c \<le> hd d))"
  using k none
proof (induction k arbitrary: idx)
  case 0
  have "cs = []"
  proof (rule ccontr)
    assume "cs \<noteq> []"
    then obtain t c where "(t, c) \<in> set cs" by (cases cs) auto
    with split_inv_chain(2,4) [OF inv this] 0 show False by auto
  qed
  then show ?case by simp
next
  case (Suc k)
  have lt: "unat idx < length (opaques q)" using Suc.prems(1) split_invD(11) [OF inv] by simp
  have su: "unat (idx + 1) = Suc (unat idx)"
    using Suc.prems(1) split_invD(13) [OF inv] by (simp add: unat_Suc_mod)
  show ?case
  proof (cases "opaques q ! unat idx")
    case None
    then have "\<forall>i < unat (idx + 1). opaques q ! i = None"
      using Suc.prems(2) su by (auto simp: less_Suc_eq)
    then show ?thesis using Suc.IH [of "idx + 1"] Suc.prems(1) su None lt by simp
  next
    case (Some t)
    then obtain c where c: "(t, c) \<in> set cs" "unat idx = hd c"
      using split_inv_head [OF inv] lt split_invD(11) [OF inv] by fastforce
    obtain q1 where q1: "put_unused_desc_chain q idx = Some q1"
      "split_inv (c @ fs) (remove1 (t, c) cs) q1"
      "q1 = q\<lparr>opaques := opaques q1, sq_desc := sq_desc q1, num_unused := num_unused q1, first_unused := idx\<rparr>"
      "opaques q1 = (opaques q)[hd c := None]"
      using put_unused_desc_chain_inv [OF inv c] by blast
    have m: "master_idx q1 = master_idx q" by (subst q1(3)) simp
    have "hd c \<le> hd d" if "(u, d) \<in> set cs" for u d
      using split_inv_chain(2,4) [OF inv that] Suc.prems(2) c(2) by (metis not_less option.distinct(1))
    moreover have "split_inv (c @ fs) (remove1 (t, c) cs) (q1\<lparr>master_idx := master_idx q - 1, avail_idx := master_idx q - 1\<rparr>)"
      by (rule split_inv_cong [OF q1(2)]) auto
    ultimately show ?thesis using Some lt q1(1,4) c(1) m by auto
  qed
qed

lemma detach_unused_buf_split:
  assumes inv: "split_inv fs cs q"
  shows "(cs = [] \<and> virtqueue_detach_unused_buf_split q = Some (None, q)) \<or>
    (\<exists>t c q'. (t, c) \<in> set cs \<and> virtqueue_detach_unused_buf_split q = Some (Some t, q') \<and>
       split_inv (c @ fs) (remove1 (t, c) cs) q' \<and>
       master_idx q' = master_idx q - 1 \<and> avail_idx q' = master_idx q - 1 \<and>
       opaques q' = (opaques q)[hd c := None] \<and> (\<forall>(u, d) \<in> set cs. hd c \<le> hd d))"
proof -
  have "unat (ucast (sq_num q) :: u16) = unat (sq_num q)"
    using split_invD(13) [OF inv] by (simp add: unat_ucast_u32_u16)
  then show ?thesis
    using detach_scan_ok [OF inv, of 0 "unat (sq_num q)"]
    by (simp add: virtqueue_detach_unused_buf_split_def)
qed

section \<open>Creation and shutdown\<close>

lemma link_unused_ok:
  assumes "unat num = length ds" "0 < unat num" "unat num \<le> 32768" "unat i \<le> unat num - 1"
  shows "\<exists>ds'. link_unused num i ds = Some ds' \<and> length ds' = length ds \<and>
    (\<forall>j. unat i \<le> j \<and> Suc j < unat num \<longrightarrow> d_next (ds' ! j) = of_nat (Suc j) \<and> d_flags (ds' ! j) = VIRTQ_DESC_F_NEXT) \<and>
    (\<forall>j. j < unat i \<or> unat num \<le> Suc j \<longrightarrow> ds' ! j = ds ! j)"
  using assms
proof (induction "unat num - 1 - unat i" arbitrary: i ds)
  case 0
  have n1: "unat (num - 1) = unat num - 1"
    using 0 by (intro unat_minus_1) simp
  have "\<not> (ucast i :: u32) < num - 1"
    using 0 n1 by (simp add: word_less_nat_alt unat_ucast_u16_u32)
  then show ?case using 0 by (subst link_unused.simps) auto
next
  case (Suc m)
  have n1: "unat (num - 1) = unat num - 1"
    using Suc.prems by (intro unat_minus_1) simp
  have lt: "(ucast i :: u32) < num - 1"
    using Suc n1 by (simp add: word_less_nat_alt unat_ucast_u16_u32)
  have su: "unat (i + 1) = Suc (unat i)" using Suc by (simp add: unat_Suc_mod)
  have sw: "i + 1 = of_nat (Suc (unat i))" by simp
  let ?ds = "ds[unat i := (ds ! unat i)\<lparr>d_flags := VIRTQ_DESC_F_NEXT, d_next := i + 1\<rparr>]"
  have st: "link_unused num i ds = link_unused num (i + 1) ?ds"
    using Suc lt by (subst link_unused.simps) simp
  have pm: "m = unat num - 1 - unat (i + 1)" "unat num = length ?ds" "0 < unat num"
    "unat num \<le> 32768" "unat (i + 1) \<le> unat num - 1"
    using Suc.hyps(2) Suc.prems su by simp_all
  obtain ds' where ds': "link_unused num (i + 1) ?ds = Some ds'" "length ds' = length ?ds"
    "\<forall>j. unat (i + 1) \<le> j \<and> Suc j < unat num \<longrightarrow> d_next (ds' ! j) = of_nat (Suc j) \<and> d_flags (ds' ! j) = VIRTQ_DESC_F_NEXT"
    "\<forall>j. j < unat (i + 1) \<or> unat num \<le> Suc j \<longrightarrow> ds' ! j = ?ds ! j"
    using Suc.hyps(1) [OF pm] by blast
  have "d_next (ds' ! j) = of_nat (Suc j) \<and> d_flags (ds' ! j) = VIRTQ_DESC_F_NEXT"
    if j: "unat i \<le> j" "Suc j < unat num" for j
  proof (cases "j = unat i")
    case True
    then have "ds' ! j = ?ds ! j" using ds'(4) su by simp
    then show ?thesis using True sw Suc.prems(1) j by simp
  next
    case False
    then show ?thesis using ds'(3) su j by simp
  qed
  moreover have "ds' ! j = ds ! j" if "j < unat i \<or> unat num \<le> Suc j" for j
    using ds'(4) su that Suc.hyps(2) by auto
  ultimately show ?case using st ds'(1,2) by auto
qed

definition mem_shape :: "u32 \<Rightarrow> vring \<Rightarrow> bool" where
  "mem_shape num m \<longleftrightarrow> length (sq_desc m) = unat num \<and> length (avail_ring m) = unat num \<and>
     length (used_ring m) = unat num"

lemma vring_new_virtqueue_split_ok:
  assumes k: "unat num = 2 ^ k" "k \<le> 15" and m: "mem_shape num m"
  shows "\<exists>q :: 'a virtqueue_split. vring_new_virtqueue_split index num align vdev pages m = Some (Some q) \<and>
    split_inv [0..<unat num] [] q \<and> opaques q = replicate (unat num) None \<and>
    last_used q = 0 \<and> master_idx q = 0 \<and> master_flags q = 0 \<and> num_added_since_kick q = 0 \<and>
    used_idx q = used_idx m \<and> used_ring q = used_ring m \<and> avail_ring q = avail_ring m \<and>
    avail_flags q = avail_flags m \<and> avail_idx q = avail_idx m \<and>
    sq_num q = num \<and> sq_index q = index \<and> sq_vdev q = vdev \<and>
    (desc_va q, avail_va q, used_va q) = vring_init num pages align"
proof -
  have "(2::nat) ^ k \<le> 2 ^ 15" using k(2) by (intro power_increasing) auto
  then have n: "0 < unat num" "unat num \<le> 32768" using k(1) by auto
  have "unat (DESC_INDEX num num) = 0"
    using unat_and_minus_1 [OF k(1), of num] by (simp add: DESC_INDEX_def)
  then have di: "DESC_INDEX num num = 0" by (simp add: unat_eq_0)
  have ne: "sq_desc m \<noteq> []" using n m by (auto simp: mem_shape_def)
  obtain ds where ds: "link_unused num 0 (sq_desc m) = Some ds" "length ds = unat num"
    "\<forall>j. Suc j < unat num \<longrightarrow> d_next (ds ! j) = of_nat (Suc j)"
    using link_unused_ok [of num "sq_desc m" 0] n m ne by (auto simp: mem_shape_def)
  obtain dva ava uva where v: "vring_init num pages align = (dva, ava, uva)" by (cases "vring_init num pages align")
  define q :: "'a virtqueue_split" where "q = vring.extend
         (m\<lparr>sq_num := num, sq_desc := ds, desc_va := dva, avail_va := ava, used_va := uva\<rparr>)
         (virtqueue_split.fields 0 0 num 0 0 0 (replicate (unat num) None) index vdev)"
  have sel: "sq_num q = num" "sq_desc q = ds" "avail_ring q = avail_ring m" "used_ring q = used_ring m"
    "opaques q = replicate (unat num) None" "num_unused q = num" "first_unused q = 0"
    "last_used q = 0" "master_idx q = 0" "master_flags q = 0" "num_added_since_kick q = 0"
    "used_idx q = used_idx m" "avail_flags q = avail_flags m" "avail_idx q = avail_idx m"
    "sq_index q = index" "sq_vdev q = vdev" "desc_va q = dva" "avail_va q = ava" "used_va q = uva"
    by (simp_all add: q_def vring.extend_def virtqueue_split.fields_def)
  have new: "vring_new_virtqueue_split index num align vdev pages m = Some (Some q)"
    by (simp add: vring_new_virtqueue_split_def di v ds(1) q_def)
  have sh: "ring_shape q" using k m ds(2) by (auto simp: ring_shape_def sel mem_shape_def)
  have lk: "linked (desc_next ds) [0..<unat num]"
  proof (rule linked_upt)
    fix i assume "Suc i < unat num"
    then show "desc_next ds i = Suc i"
      using ds(3) n(2) unat_of_nat_less [of "Suc i", where 'a = 16] by (simp add: desc_next_def)
  qed
  have "split_inv [0..<unat num] [] q"
    using sh lk n by (auto simp: split_inv_def sel)
  with new sel v show ?thesis by (intro exI [of _ q]) simp
qed

lemma vring_new_virtqueue_split_refused:
  assumes "DESC_INDEX num num \<noteq> 0"
  shows "vring_new_virtqueue_split index num align vdev pages m = Some None"
  using assms by (simp add: vring_new_virtqueue_split_def)

lemma virtqueue_shutdown_split_ok:
  assumes "ring_shape q"
  shows "\<exists>q'. virtqueue_shutdown_split q = Some (Some q') \<and>
    split_inv [0..<unat (sq_num q)] [] q' \<and> opaques q' = replicate (unat (sq_num q)) None \<and>
    last_used q' = 0 \<and> used_idx q' = 0 \<and> master_idx q' = 0 \<and> avail_idx q' = 0 \<and>
    sq_num q' = sq_num q \<and> sq_index q' = sq_index q \<and> sq_vdev q' = sq_vdev q \<and>
    virtqueue_is_interrupt_enabled_split q'"
proof -
  obtain k where k: "k \<le> 15" "unat (sq_num q) = 2 ^ k" using assms by (auto simp: ring_shape_def)
  let ?m = "zero_vring (vring.truncate q)"
  have "mem_shape (sq_num q) ?m"
    using ring_shapeD [OF assms] by (simp add: mem_shape_def zero_vring_def vring.truncate_def)
  from vring_new_virtqueue_split_ok [OF k(2,1) this, of "sq_index q"
      "if vdev_addr (sq_vdev q) \<noteq> 0 then PAGE_SIZE else SMP_CACHE_BYTES" "sq_vdev q" "desc_va q", where 'a = 'a]
  show ?thesis
    by (auto simp: virtqueue_shutdown_split_def zero_vring_def virtqueue_is_interrupt_enabled_split_def Let_def)
qed

section \<open>Notification and interrupts\<close>

text \<open>An event is due when its index is one of those passed since the last notification,
  modulo the 16-bit wrap-around of the free-running indices.\<close>
lemma vring_need_event_window:
  "vring_need_event event_idx new_idx old \<longleftrightarrow>
     (\<exists>k < unat (new_idx - old). event_idx = old + of_nat k)"
proof
  assume "vring_need_event event_idx new_idx old"
  then have lt: "unat (new_idx - event_idx - 1) < unat (new_idx - old)"
    by (simp add: vring_need_event_def word_less_nat_alt)
  let ?k = "unat (new_idx - old) - Suc (unat (new_idx - event_idx - 1))"
  have "of_nat ?k = (new_idx - old) - (1 + (new_idx - event_idx - 1))"
    using lt by (simp add: of_nat_diff)
  then have "event_idx = old + of_nat ?k" by (simp add: algebra_simps)
  moreover have "?k < unat (new_idx - old)" using lt by simp
  ultimately show "\<exists>k < unat (new_idx - old). event_idx = old + of_nat k" by blast
next
  assume "\<exists>k < unat (new_idx - old). event_idx = old + of_nat k"
  then obtain k where k: "k < unat (new_idx - old)" "event_idx = old + of_nat k" by blast
  have "new_idx - event_idx - 1 = of_nat (unat (new_idx - old)) - of_nat (Suc k)"
    using k(2) by (simp add: algebra_simps)
  also have "\<dots> = of_nat (unat (new_idx - old) - Suc k)"
    using k(1) by (intro of_nat_diff [symmetric]) simp
  finally have "unat (new_idx - event_idx - 1) = unat (new_idx - old) - Suc k"
    using unat_u16_lt [of "new_idx - old"] unat_of_nat_less [of "unat (new_idx - old) - Suc k", where 'a = 16]
    by simp
  then show "vring_need_event event_idx new_idx old"
    using k(1) by (simp add: vring_need_event_def word_less_nat_alt)
qed

lemma kick_prepare_split_events:
  assumes "event_suppression_enabled (sq_vdev q)"
  shows "fst (virtqueue_kick_prepare_split q) \<longleftrightarrow>
    65536 \<le> unat (num_added_since_kick q) \<or>
    (\<exists>k < unat (num_added_since_kick q).
        avail_event q = master_idx q - ucast (num_added_since_kick q) + of_nat k)"
proof (cases "65536 \<le> unat (num_added_since_kick q)")
  case True
  then show ?thesis using assms by (simp add: virtqueue_kick_prepare_split_def word_le_nat_alt)
next
  case False
  then have "unat (ucast (num_added_since_kick q) :: u16) = unat (num_added_since_kick q)"
    by (simp add: unat_ucast_u32_u16)
  then show ?thesis using assms False
    by (simp add: virtqueue_kick_prepare_split_def word_le_nat_alt vring_need_event_window)
qed

lemma enable_cb_split_ok:
  "fst (virtqueue_enable_cb_split q) \<longleftrightarrow> \<not> virtqueue_has_buf_split q"
  "virtqueue_is_interrupt_enabled_split (snd (virtqueue_enable_cb_split q))"
  "used_event (snd (virtqueue_enable_cb_split q)) = last_used q"
  "avail_flags q = master_flags q \<Longrightarrow> \<not> event_suppression_enabled (sq_vdev q) \<Longrightarrow>
     avail_flags (snd (virtqueue_enable_cb_split q)) = master_flags (snd (virtqueue_enable_cb_split q))"
  by (auto simp: virtqueue_enable_cb_split_def unmask_interrupt_def virtqueue_has_buf_split_def
      virtqueue_is_interrupt_enabled_split_def Let_def)

lemma disable_cb_split_ok:
  "\<not> virtqueue_is_interrupt_enabled_split (virtqueue_disable_cb_split q)"
  "avail_flags q = master_flags q \<Longrightarrow> \<not> event_suppression_enabled (sq_vdev q) \<Longrightarrow>
     avail_flags (virtqueue_disable_cb_split q) = master_flags (virtqueue_disable_cb_split q)"
  by (auto simp: virtqueue_disable_cb_split_def virtqueue_is_interrupt_enabled_split_def Let_def
      VIRTQ_AVAIL_F_NO_INTERRUPT_def simp del: flag_set)

lemma cb_split_keep_inv:
  assumes "split_inv fs cs q"
  shows "split_inv fs cs (snd (virtqueue_enable_cb_split q))"
    "split_inv fs cs (snd (virtqueue_enable_cb_delayed_split q))"
    "split_inv fs cs (virtqueue_disable_cb_split q)"
    "split_inv fs cs (snd (virtqueue_kick_prepare_split q))"
    "split_inv fs cs (snd (virtqueue_kick_always_split q))"
  by (rule split_inv_cong [OF assms];
      simp add: virtqueue_enable_cb_split_def virtqueue_enable_cb_delayed_split_def unmask_interrupt_def
        virtqueue_disable_cb_split_def virtqueue_kick_prepare_split_def virtqueue_kick_always_split_def Let_def)+

text \<open>The comparison is made on ints: once the used index has wrapped below
  \<^verbatim>\<open>last_used\<close> it answers true whatever has been returned.\<close>
lemma enable_cb_delayed_split_result:
  "fst (virtqueue_enable_cb_delayed_split q) \<longleftrightarrow>
     unat (used_idx q) < unat (last_used q) \<or>
     unat (used_idx q - last_used q) \<le> unat (master_idx q - last_used q) * 3 div 4"
proof -
  let ?b = "unat (master_idx q - last_used q) * 3 div 4"
  have "?b < 2 ^ 16" using unat_u16_lt [of "master_idx q - last_used q"] by simp
  then have b: "unat (of_nat ?b :: u16) = ?b" by (intro unat_of_nat_less) simp
  have "int (unat (of_nat ?b :: u16)) = int ?b" by (simp only: b)
  then have b': "uint (of_nat ?b :: u16) = int ?b" by simp
  have *: "fst (virtqueue_enable_cb_delayed_split q) \<longleftrightarrow> int (unat (used_idx q)) - int (unat (last_used q)) \<le> int ?b"
    using b' by (simp add: virtqueue_enable_cb_delayed_split_def unmask_interrupt_def Let_def)
  show ?thesis
  proof (cases "unat (used_idx q) < unat (last_used q)")
    case True
    then show ?thesis unfolding * by linarith
  next
    case False
    then have "unat (used_idx q - last_used q) = unat (used_idx q) - unat (last_used q)"
      by (simp add: unat_sub word_le_nat_alt)
    with False show ?thesis unfolding * by linarith
  qed
qed

section \<open>Layout and features\<close>

text \<open>The three parts of the ring lie one behind the other, and the last byte of the used
  ring with its event slot is the last byte \<^verbatim>\<open>vring_size_split\<close> counts.\<close>
lemma vring_layout:
  fixes p :: u64
  assumes num: "unat num = 2 ^ k" "k \<le> 15" and al: "unat align = 2 ^ a" "2 \<le> a" "a \<le> 12"
    and p: "unat p mod unat align = 0" "unat p + 1048576 \<le> 2 ^ 64"
    and v: "vring_init num p align = (d, av, us)"
  shows "unat d = unat p \<and> unat av = unat d + 16 * unat num \<and>
    unat av + 2 * unat num + 6 \<le> unat us \<and> unat us < unat av + 2 * unat num + 6 + unat align \<and>
    unat us mod 4 = 0 \<and>
    unat us + 8 * unat num + 6 = unat p + unat (vring_size_split num align)"
proof -
  let ?n = "unat num" and ?A = "unat align" and ?P = "unat p"
  have "(2::nat) ^ k \<le> 2 ^ 15" using num(2) by (intro power_increasing) auto
  then have n: "0 < ?n" "?n \<le> 32768" using num(1) by auto
  have A: "4 \<le> ?A" "?A \<le> 4096"
    using power_increasing [of a 12 "2::nat"] power_increasing [of 2 a "2::nat"] al by simp_all
  have A4: "?A mod 4 = 0"
    using al(1,2) by (simp add: mod_eq_0_iff_dvd) (metis le_imp_power_dvd numeral_Bit0_eq_double power2_eq_square mult_2)
  have un: "unat (ucast num :: u64) = ?n" "unat (ucast align :: u64) = ?A"
    by (simp_all add: unat_ucast_u32_u64)
  have mA: "(ucast align :: u64) - 1 = mask a"
    using word_power2_of_unat [of "ucast align :: u64" a] al(1) un by (simp add: power2_minus_1_mask)
  have mA32: "align - 1 = mask a"
    using word_power2_of_unat [OF al(1)] by (simp add: power2_minus_1_mask)
  have av: "d = p" "av = p + ucast num * 16"
    "us = (av + 4 + 2 * ucast num + 2 + ucast align - 1) AND NOT (mask a)"
    using v unfolding vring_init_def Let_def mA prod.inject by auto
  have uav: "unat av = ?P + 16 * ?n"
    using p n un by (simp add: av(2) unat_word_ariths)
  let ?Y = "16 * ?n + 6 + 2 * ?n + ?A - 1"
  have "unat (av + 4 + 2 * ucast num + 2 + ucast align - 1) = unat (av + 4 + 2 * ucast num + 2 + ucast align) - 1"
    using uav un n A p by (intro unat_minus_1) (simp add: unat_word_ariths)
  also have "\<dots> = ?P + ?Y"
    using uav un n A p by (simp add: unat_word_ariths)
  finally have uus: "unat us = (?P + ?Y) div ?A * ?A"
    using al(1) by (simp add: av(3) and_not_mask_unat)
  obtain m where m: "?P = m * ?A" using p(1) by (metis div_mult_mod_eq add_0_right)
  have us: "unat us = ?P + ?Y div ?A * ?A"
    using uus A(1) by (simp add: m add.commute distrib_right)
  let ?w = "16 * ucast num + 2 * (3 + ucast num) + ucast align - 1 :: u64"
  have "unat ?w = unat (16 * ucast num + 2 * (3 + ucast num) + ucast align :: u64) - 1"
    using un n A by (intro unat_minus_1) (simp add: unat_word_ariths)
  also have "\<dots> = ?Y" using un n A by (simp add: unat_word_ariths)
  finally have w: "unat ?w = ?Y" .
  have "unat (take_bit 32 ?w) = unat ?w"
    using w n A by (simp add: unsigned_take_bit_eq take_bit_nat_eq_self)
  then have tw: "take_bit 32 ?w = ?w" by (simp only: word_unat_eq_iff)
  have "?w AND ucast (NOT (align - 1)) = take_bit 32 ?w AND NOT (mask a)"
    by (subst tw [symmetric], rule bit_word_eqI) (auto simp: mA32 bit_simps)
  then have "?w AND ucast (NOT (align - 1)) = ?w AND NOT (mask a)" by (simp only: tw)
  then have wm: "unat (?w AND ucast (NOT (align - 1))) = ?Y div ?A * ?A"
    using w al(1) by (simp add: and_not_mask_unat)
  have Yb: "?Y div ?A * ?A \<le> ?Y" "?Y < ?Y div ?A * ?A + ?A"
  proof -
    have "?Y = ?Y div ?A * ?A + ?Y mod ?A" "?Y mod ?A < ?A" using A by simp_all
    then show "?Y div ?A * ?A \<le> ?Y" "?Y < ?Y div ?A * ?A + ?A" by linarith+
  qed
  define M where "M = (?w AND ucast (NOT (align - 1)))"
  have uM: "unat M = ?Y div ?A * ?A" unfolding M_def by (rule wm)
  then have uM': "unat M \<le> 1000000" using Yb(1) n A by linarith
  then have "unat (M + 2 * 3 + 8 * ucast num) = unat M + 6 + 8 * ?n"
    using n un uM' by (simp add: unat_word_ariths)
  moreover have "vring_size_split num align = ucast (M + 2 * 3 + 8 * ucast num)"
    unfolding vring_size_split_def M_def ..
  ultimately have "unat (vring_size_split num align) = ?Y div ?A * ?A + 6 + 8 * ?n"
    using uM uM' n by (simp add: unat_ucast_u64_u32)
  moreover have "unat us mod 4 = 0"
    using A4 p(1) us m by (metis mod_add_eq mod_mult_right_eq mult_0_right mod_0 add_0)
  ultimately show ?thesis
    unfolding av(1) using uav us Yb A by (intro conjI refl; linarith)
qed

lemma virtio_feature_disable_bit:
  "bit (virtio_feature_disable x g) f \<longleftrightarrow> bit x f \<and> f \<noteq> g"
  by (auto simp: virtio_feature_disable_def bit_simps dest: bit_imp_le_length)

text \<open>Of the transport features the rings keep exactly the two they implement; every
  other bit of the word is left as the device offered it.\<close>
lemma vring_transport_features_bit:
  "bit (vring_transport_features x) f \<longleftrightarrow> bit x f \<and> f \<noteq> 30 \<and> f \<noteq> 31"
proof -
  have "[VIRTIO_TRANSPORT_F_START..<VIRTIO_TRANSPORT_F_END] = [28, 29, 30, 31]"
    by (simp add: VIRTIO_TRANSPORT_F_START_def VIRTIO_TRANSPORT_F_END_def upt_rec)
  then have "vring_transport_features x =
    virtio_feature_disable (virtio_feature_disable x 30) 31"
    by (simp add: vring_transport_features_def VIRTIO_RING_F_INDIRECT_DESC_def
        VIRTIO_RING_F_EVENT_IDX_def VIRTIO_F_VERSION_1_def)
  then show ?thesis by (simp add: virtio_feature_disable_bit)
qed

lemma virtio_feature_laws:
  "virtio_is_feature_enabled (virtio_feature_enable x f) f \<longleftrightarrow> f < 64"
  "\<not> virtio_is_feature_enabled (virtio_feature_disable x f) f"
  "virtio_is_feature_enabled x f \<longleftrightarrow> bit x f"
proof -
  have b: "virtio_is_feature_enabled y f \<longleftrightarrow> bit y f" for y
  proof -
    have "y AND push_bit f 1 \<noteq> 0 \<longleftrightarrow> (\<exists>n. bit y n \<and> bit (push_bit f 1 :: u64) n)"
      by (auto simp: bit_eq_iff bit_simps)
    then show ?thesis
      by (auto simp: virtio_is_feature_enabled_def bit_simps dest: bit_imp_le_length)
  qed
  then show "virtio_is_feature_enabled x f \<longleftrightarrow> bit x f" .
  show "virtio_is_feature_enabled (virtio_feature_enable x f) f \<longleftrightarrow> f < 64"
    by (auto simp: b virtio_feature_enable_def bit_simps dest: bit_imp_le_length)
  show "\<not> virtio_is_feature_enabled (virtio_feature_disable x f) f"
    by (simp add: b virtio_feature_disable_bit)
qed

end
