(* ===== verification/VirtioSplitSys.thy ===== *)
theory VirtioSplitSys
  imports VirtioSplitOps
begin

text \<open>
  The split ring beside its device.  \<^verbatim>\<open>device_use\<close> is what a virtio device does to
  the ring when it completes a request: it appends the id of a chain it holds to the
  used ring.  The split ring is an instance of the contract \<^verbatim>\<open>virtqueue\<close>, and the
  properties of the ring are stated at the end.
\<close>

section \<open>The used ring between device and driver\<close>

text \<open>The ids in the used ring the driver has not consumed.\<close>
definition pending_split :: "'a virtqueue_split \<Rightarrow> nat list" where
  "pending_split q = map (\<lambda>k. unat (ue_id (used_ring q ! ((unat (last_used q) + k) mod unat (sq_num q)))))
     [0..<unat (used_idx q - last_used q)]"

definition device_put :: "'a virtqueue_split \<Rightarrow> nat \<Rightarrow> u32 \<Rightarrow> 'a virtqueue_split" where
  "device_put q h len = q\<lparr>
     used_ring := (used_ring q)[unat (used_idx q) mod unat (sq_num q) := \<lparr>ue_id = of_nat h, ue_len = len\<rparr>],
     used_idx := used_idx q + 1\<rparr>"

text \<open>A completion: the device holds the chain at \<^verbatim>\<open>h\<close>, that is, the chain is in flight
  and its id is not already in the used ring.\<close>
definition device_use_split :: "'a virtqueue_split \<Rightarrow> 'a \<Rightarrow> 'a virtqueue_split \<Rightarrow> bool" where
  "device_use_split q t q' \<longleftrightarrow>
     (\<exists>h len. h < unat (sq_num q) \<and> opaques q ! h = Some t \<and> h \<notin> set (pending_split q) \<and>
        q' = device_put q h len)"

definition split_sys_inv :: "'a virtqueue_split \<Rightarrow> bool" where
  "split_sys_inv q \<longleftrightarrow> (\<exists>fs cs. split_inv fs cs q) \<and> distinct (pending_split q) \<and>
     (\<forall>h \<in> set (pending_split q). h < unat (sq_num q) \<and> opaques q ! h \<noteq> None)"

definition returned_split :: "'a virtqueue_split \<Rightarrow> 'a list" where
  "returned_split q = map (\<lambda>h. the (opaques q ! h)) (pending_split q)"

lemma split_sys_invE:
  assumes "split_sys_inv q"
  obtains fs cs where "split_inv fs cs q" "distinct (pending_split q)"
    "set (pending_split q) \<subseteq> {..<unat (sq_num q)}"
    "\<And>h. h \<in> set (pending_split q) \<Longrightarrow> opaques q ! h \<noteq> None"
  using assms unfolding split_sys_inv_def by blast

lemma pending_length: "length (pending_split q) = unat (used_idx q - last_used q)"
  by (simp add: pending_split_def)

lemma pending_bound:
  assumes "split_sys_inv q"
  shows "length (pending_split q) \<le> unat (sq_num q)"
  using assms
  by (elim split_sys_invE) (metis card_lessThan card_mono distinct_card finite_lessThan)

lemma pending_cong:
  assumes "used_ring q' = used_ring q" "used_idx q' = used_idx q" "last_used q' = last_used q"
    "sq_num q' = sq_num q"
  shows "pending_split q' = pending_split q"
  using assms by (simp add: pending_split_def)

lemma ring_mod_step:
  assumes "ring_shape q"
  shows "(unat (x + 1 :: u16) + k) mod unat (sq_num q) = (unat x + Suc k) mod unat (sq_num q)"
proof -
  obtain j where j: "j \<le> 15" "unat (sq_num q) = 2 ^ j" using assms by (auto simp: ring_shape_def)
  have "(2::nat) ^ j dvd 65536" using le_imp_power_dvd [of j 16 "2::nat"] j(1) by simp
  then have "Suc (unat x) mod 65536 mod 2 ^ j = Suc (unat x) mod 2 ^ j"
    by (rule mod_mod_cancel)
  then have "(Suc (unat x) mod 65536 + k) mod 2 ^ j = (Suc (unat x) + k) mod 2 ^ j"
    by (metis mod_add_left_eq)
  then show ?thesis by (simp add: j(2) unat_Suc_mod)
qed

lemma ring_mod_add:
  assumes "ring_shape q"
  shows "unat (x + of_nat k :: u16) mod unat (sq_num q) = (unat x + k) mod unat (sq_num q)"
  using ring_mod_step [OF assms]
proof (induction k arbitrary: x)
  case (Suc k)
  from Suc.IH [OF Suc.prems, of "x + 1"] Suc.prems show ?case by (simp add: add.assoc)
qed simp

lemma pending_Cons:
  assumes sh: "ring_shape q" and has: "virtqueue_has_buf_split q"
    and q': "used_ring q' = used_ring q" "used_idx q' = used_idx q" "last_used q' = last_used q + 1"
    "sq_num q' = sq_num q"
  shows "pending_split q = unat (ue_id (next_used q)) # pending_split q'"
proof -
  let ?n = "unat (used_idx q - last_used q)"
  have pos: "0 < ?n" using has by (simp add: virtqueue_has_buf_split_def unat_gt_0)
  have e: "used_idx q' - last_used q' = (used_idx q - last_used q) - 1"
    by (simp add: q' algebra_simps)
  have n': "unat (used_idx q' - last_used q') = ?n - 1"
    by (simp only: e unat_minus_1 [OF pos])
  have "[0..<?n] = 0 # map Suc [0..<?n - 1]" using pos by (simp add: map_Suc_upt upt_conv_Cons)
  then show ?thesis
    using n' q' ring_mod_step [OF sh] by (simp add: pending_split_def next_used_def)
qed

lemma pending_snoc:
  assumes sh: "ring_shape q" and len: "length (pending_split q) < unat (sq_num q)" and h: "h < unat (sq_num q)"
  shows "pending_split (device_put q h l) = pending_split q @ [h]"
proof -
  let ?n = "unat (used_idx q - last_used q)" and ?m = "unat (sq_num q)"
  have nm: "?n < ?m" "?m \<le> 32768" using len ring_shapeD [OF sh] by (simp_all add: pending_length)
  have e: "used_idx q + 1 - last_used q = (used_idx q - last_used q) + 1" by simp
  have n': "unat (used_idx q + 1 - last_used q) = Suc ?n"
    using nm by (simp only: e unat_Suc_mod) simp
  have slot: "unat (used_idx q) mod ?m = (unat (last_used q) + ?n) mod ?m"
    using ring_mod_add [OF sh, of "last_used q" ?n] by simp
  have other: "(unat (last_used q) + k) mod ?m \<noteq> unat (used_idx q) mod ?m" if "k < ?n" for k
  proof
    assume "(unat (last_used q) + k) mod ?m = unat (used_idx q) mod ?m"
    then have "?m dvd ?n - k"
      using slot that by (metis add_diff_cancel_left mod_eq_dvd_iff_nat nat_add_left_cancel_le less_imp_le)
    then show False using that nm by (auto dest: dvd_imp_le)
  qed
  have hid: "unat (of_nat h :: u32) = h" using h nm by (intro unat_of_nat_less) simp
  have l: "length (used_ring q) = ?m" "unat (used_idx q) mod ?m < ?m"
    using ring_shapeD [OF sh] by simp_all
  let ?F = "\<lambda>k. unat (ue_id ((used_ring q)[unat (used_idx q) mod ?m := \<lparr>ue_id = of_nat h, ue_len = l\<rparr>]
      ! ((unat (last_used q) + k) mod ?m)))"
  have "pending_split (device_put q h l) = map ?F [0..<?n] @ [?F ?n]"
    by (simp add: pending_split_def device_put_def n')
  moreover have "?F ?n = h" using slot l hid by simp
  moreover have "?F k = unat (ue_id (used_ring q ! ((unat (last_used q) + k) mod ?m)))" if "k < ?n" for k
    using other [OF that] by (simp add: nth_list_update)
  then have "map ?F [0..<?n] = pending_split q" by (auto simp: pending_split_def)
  ultimately show ?thesis by simp
qed

section \<open>The tokens a client sees\<close>

abbreviation tok_of :: "'a option \<Rightarrow> 'a list" where
  "tok_of \<equiv> case_option [] (\<lambda>t. [t])"

lemma tokens_update:
  assumes "i < length xs"
  shows "mset (concat (map tok_of (xs[i := v]))) =
    mset (tok_of v) + (mset (concat (map tok_of xs)) - mset (tok_of (xs ! i)))"
proof -
  obtain as x bs where xs: "xs = as @ x # bs" "length as = i"
    using id_take_nth_drop [OF assms] assms by (metis length_take min.absorb4)
  then have "xs[i := v] = as @ v # bs" "xs ! i = x" by (auto simp: list_update_append)
  then show ?thesis using xs by simp
qed

lemma tokens_distinct_slots:
  assumes "distinct hs" "\<forall>h \<in> set hs. h < length xs \<and> xs ! h \<noteq> None"
  shows "mset (map (\<lambda>h. the (xs ! h)) hs) \<subseteq># mset (concat (map tok_of xs))"
  using assms
proof (induction hs arbitrary: xs)
  case Nil
  then show ?case by simp
next
  case (Cons h hs)
  then obtain t where t: "h < length xs" "xs ! h = Some t" by auto
  have "mset (map (\<lambda>i. the (xs[h := None] ! i)) hs) \<subseteq># mset (concat (map tok_of (xs[h := None])))"
    using Cons.prems by (intro Cons.IH) (auto simp: nth_list_update)
  moreover have "map (\<lambda>i. the (xs[h := None] ! i)) hs = map (\<lambda>i. the (xs ! i)) hs"
    using Cons.prems by (auto simp: nth_list_update)
  moreover have "mset (concat (map tok_of (xs[h := None]))) = mset (concat (map tok_of xs)) - {#t#}"
    using tokens_update [OF t(1), of None] t(2) by simp
  moreover have "t \<in># mset (concat (map tok_of xs))"
    using t by (auto simp: in_set_conv_nth intro!: bexI [of _ "xs ! h"])
  ultimately show ?case using t(2)
    by (simp add: insert_subset_eq_iff)
qed

lemma outstanding_split_set:
  "i < length (opaques q) \<Longrightarrow> opaques q ! i = None \<Longrightarrow> opaques q' = (opaques q)[i := Some t] \<Longrightarrow>
     outstanding_split q' = add_mset t (outstanding_split q)"
  "i < length (opaques q) \<Longrightarrow> opaques q ! i = Some t \<Longrightarrow> opaques q' = (opaques q)[i := None] \<Longrightarrow>
     outstanding_split q' = outstanding_split q - {#t#}"
  using tokens_update [of i "opaques q"] by (simp_all add: outstanding_split_def)

section \<open>The contract\<close>

definition add_tok_split ::
  "'a virtqueue_split \<Rightarrow> scatterlist list \<Rightarrow> u32 \<Rightarrow> u32 \<Rightarrow> 'a \<Rightarrow> (int \<times> 'a virtqueue_split) option" where
  "add_tok_split q sg out in' t =
     map_option (\<lambda>(r, va, q'). (r, q')) (virtqueue_add_buf_split q sg out in' (Some t) None 0)"

definition get_tok_split :: "'a virtqueue_split \<Rightarrow> ('a option \<times> 'a virtqueue_split) option" where
  "get_tok_split q = map_option (\<lambda>(r, l, q'). (r, q')) (virtqueue_get_buf_split q)"

abbreviation free_split :: "'a virtqueue_split \<Rightarrow> nat" where
  "free_split q \<equiv> unat (num_unused q)"

lemma opaque_in_flight:
  assumes inv: "split_inv fs cs q" and h: "h < unat (sq_num q)" "opaques q ! h \<noteq> None"
  obtains t c where "(t, c) \<in> set cs" "hd c = h" "opaques q ! h = Some t"
  using split_inv_head [OF inv h(1)] h(2) by fastforce

lemma split_add_sys:
  assumes inv: "split_sys_inv q" and n: "0 < unat (out + in')" "unat (out + in') \<le> free_split q"
    "unat (out + in') \<le> length sg"
  shows "\<exists>q'. add_tok_split q sg out in' t = Some (0, q') \<and> split_sys_inv q' \<and>
        outstanding_split q' = add_mset t (outstanding_split q) \<and> returned_split q' = returned_split q \<and>
        free_split q' = free_split q - unat (out + in')"
proof -
  obtain fs cs where I: "split_inv fs cs q" and p: "distinct (pending_split q)"
    "set (pending_split q) \<subseteq> {..<unat (sq_num q)}"
    "\<And>h. h \<in> set (pending_split q) \<Longrightarrow> opaques q ! h \<noteq> None"
    using split_sys_invE [OF inv] by blast
  note D = split_invD [OF I]
  let ?n = "unat (out + in')"
  have fs: "?n \<le> length fs" "fs \<noteq> []" using n D(5) by auto
  obtain q' where q': "virtqueue_add_buf_split q sg out in' (Some t) None 0 = Some (0, None, q')"
    "split_inv (drop ?n fs) ((t, take ?n fs) # cs) q'" "add_frame q q'"
    "opaques q' = (opaques q)[hd fs := Some t]"
    using add_buf_split_direct [OF I refl n(1) fs(1) n(3), of None t 0] by blast
  have fr: "used_ring q' = used_ring q" "used_idx q' = used_idx q" "last_used q' = last_used q"
    "sq_num q' = sq_num q"
    using q'(3) by (cases q; cases q'; simp add: add_frame_def)+
  have pe: "pending_split q' = pending_split q" by (rule pending_cong [OF fr])
  have "hd fs \<notin> hd ` snd ` set cs"
  proof
    assume "hd fs \<in> hd ` snd ` set cs"
    then obtain u c where "(u, c) \<in> set cs" "hd fs = hd c" by auto
    with split_inv_chain [OF I this(1)] fs(2) show False by (metis disjoint_iff hd_in_set)
  qed
  moreover have hfs: "hd fs < unat (sq_num q)" using D(4) fs(2) by (cases fs) auto
  ultimately have hn: "opaques q ! hd fs = None" using I by (simp add: split_inv_def)
  have "opaques q' ! h = opaques q ! h" if "h \<in> set (pending_split q)" for h
    using q'(4) hn p(3) [OF that] by (metis nth_list_update_neq)
  then have "returned_split q' = returned_split q" "\<forall>h \<in> set (pending_split q'). opaques q' ! h \<noteq> None"
    using p(3) by (simp_all add: returned_split_def pe)
  moreover have "outstanding_split q' = add_mset t (outstanding_split q)"
    using outstanding_split_set(1) [OF _ hn q'(4)] hfs D(11) by simp
  moreover have "free_split q' = free_split q - ?n"
    using split_invD(5) [OF q'(2)] D(5) by simp
  ultimately show ?thesis
    using q'(1,2) p fr pe by (auto simp: add_tok_split_def split_sys_inv_def)
qed

lemma split_get_sys:
  assumes inv: "split_sys_inv q" and r: "returned_split q = t # ts"
  shows "\<exists>q'. get_tok_split q = Some (Some t, q') \<and> split_sys_inv q' \<and>
        outstanding_split q' = outstanding_split q - {#t#} \<and> returned_split q' = ts \<and>
        free_split q < free_split q'"
proof -
  obtain fs cs where I: "split_inv fs cs q" and p: "distinct (pending_split q)"
    "set (pending_split q) \<subseteq> {..<unat (sq_num q)}"
    "\<And>h. h \<in> set (pending_split q) \<Longrightarrow> opaques q ! h \<noteq> None"
    using split_sys_invE [OF inv] by blast
  note D = split_invD [OF I]
  obtain h hs where hs: "pending_split q = h # hs" using r by (auto simp: returned_split_def)
  have has: "virtqueue_has_buf_split q"
    using hs pending_length [of q] by (auto simp: virtqueue_has_buf_split_def)
  have "unat (ue_id (next_used q)) = h"
    using pending_Cons [OF D(1) has, of "q\<lparr>last_used := last_used q + 1\<rparr>"] hs by simp
  moreover have h: "h < unat (sq_num q)" "opaques q ! h \<noteq> None" using p hs by auto
  then obtain u c where c: "(u, c) \<in> set cs" "hd c = h" "opaques q ! h = Some u"
    using opaque_in_flight [OF I] by blast
  have ut: "u = t" using r hs c(3) by (simp add: returned_split_def)
  then have tc: "(t, c) \<in> set cs" using c(1) by simp
  ultimately obtain q' where q':
    "virtqueue_get_buf_split q = Some (Some t, Some (ue_len (next_used q)), q')"
    "split_inv (c @ fs) (remove1 (t, c) cs) q'" "get_frame q q'" "opaques q' = (opaques q)[h := None]"
    using get_buf_split_chain [OF I has tc] unfolding c(2) by auto
  have fr: "used_ring q' = used_ring q" "used_idx q' = used_idx q" "last_used q' = last_used q + 1"
    "sq_num q' = sq_num q"
    using q'(3) by (cases q; cases q'; simp add: get_frame_def)+
  have pe: "pending_split q' = hs" using pending_Cons [OF D(1) has fr] hs by simp
  have op: "opaques q' ! i = opaques q ! i" if "i \<in> set hs" for i
    using q'(4) p(1) hs that by (metis distinct.simps(2) nth_list_update_neq)
  have "split_sys_inv q'"
    using q'(2) p fr pe hs op by (auto simp: split_sys_inv_def)
  moreover have "returned_split q' = ts"
    using r hs op by (auto simp: returned_split_def pe)
  moreover have "outstanding_split q' = outstanding_split q - {#t#}"
    using outstanding_split_set(2) [OF _ _ q'(4)] h D(11) c(3) ut by simp
  moreover have "free_split q < free_split q'"
    using split_invD(5) [OF q'(2)] D(5) split_inv_chain(3) [OF I c(1)] by simp
  ultimately show ?thesis using q'(1) by (auto simp: get_tok_split_def)
qed

lemma split_use_sys:
  assumes inv: "split_sys_inv q" and u: "device_use_split q t q'"
  shows "split_sys_inv q' \<and> outstanding_split q' = outstanding_split q \<and>
      returned_split q' = returned_split q @ [t] \<and> free_split q' = free_split q"
proof -
  obtain fs cs where I: "split_inv fs cs q" and p: "distinct (pending_split q)"
    "set (pending_split q) \<subseteq> {..<unat (sq_num q)}"
    "\<And>h. h \<in> set (pending_split q) \<Longrightarrow> opaques q ! h \<noteq> None"
    using split_sys_invE [OF inv] by blast
  note D = split_invD [OF I]
  obtain h len where h: "h < unat (sq_num q)" "opaques q ! h = Some t" "h \<notin> set (pending_split q)"
    "q' = device_put q h len"
    using u by (auto simp: device_use_split_def)
  have "set (h # pending_split q) \<subseteq> {..<unat (sq_num q)}" using h p by auto
  then have "card (set (h # pending_split q)) \<le> unat (sq_num q)"
    by (metis card_lessThan card_mono finite_lessThan)
  then have "length (pending_split q) < unat (sq_num q)" using h(3) p(1) by (simp add: distinct_card)
  then have pe: "pending_split q' = pending_split q @ [h]"
    using pending_snoc [OF D(1) _ h(1)] h(4) by simp
  have sel: "opaques q' = opaques q" "sq_num q' = sq_num q" "num_unused q' = num_unused q"
    by (simp_all add: h(4) device_put_def)
  have "split_inv fs cs q'"
    by (rule split_inv_cong [OF I]) (simp_all add: h(4) device_put_def)
  then show ?thesis
    using p h pe sel by (auto simp: split_sys_inv_def outstanding_split_def returned_split_def)
qed

interpretation sq: virtqueue split_sys_inv add_tok_split get_tok_split device_use_split
    outstanding_split returned_split free_split
proof
  fix q :: "'a virtqueue_split" and out in' sg t
  show "split_sys_inv q \<Longrightarrow> free_split q < unat (out + in') \<Longrightarrow>
      add_tok_split q sg out in' t = Some (- ENOSPC, q)"
    by (simp add: add_tok_split_def add_buf_split_full)
  show "split_sys_inv q \<Longrightarrow> returned_split q = [] \<Longrightarrow> get_tok_split q = Some (None, q)"
    using pending_length [of q]
    by (simp add: returned_split_def get_tok_split_def virtqueue_get_buf_split_def unat_eq_zero)
  show "split_sys_inv q \<Longrightarrow> mset (returned_split q) \<subseteq># outstanding_split q"
    unfolding returned_split_def outstanding_split_def
    by (elim split_sys_invE, rule tokens_distinct_slots) (fastforce dest: split_invD(11))+
qed (rule split_add_sys split_get_sys split_use_sys; assumption)+

lemma split_sys_inv_new:
  assumes "split_inv [0..<unat (sq_num q)] [] q" "used_idx q = last_used q"
    "opaques q = replicate (unat (sq_num q)) None"
  shows "split_sys_inv q" "outstanding_split q = {#}"
proof -
  have "pending_split q = []" using assms(2) by (simp add: pending_split_def)
  then show "split_sys_inv q" using assms(1) by (auto simp: split_sys_inv_def)
  show "outstanding_split q = {#}" by (simp add: outstanding_split_def assms(3))
qed

end
