(* ===== verification/VirtioSplitProps.thy ===== *)
theory VirtioSplitProps
  imports VirtioSplitSys
begin

text \<open>
  The properties of the split ring of \<^verbatim>\<open>src/VirtIO/VirtIORing.c\<close>, each with its
  application to a concrete ring.
\<close>

section \<open>Concrete rings\<close>

definition empty_desc :: vring_desc where
  "empty_desc = \<lparr>d_addr = 0, d_len = 0, d_flags = 0, d_next = 0\<rparr>"

definition ring_mem4 :: vring where
  "ring_mem4 = \<lparr>sq_num = 4, sq_desc = replicate 4 empty_desc, avail_flags = 0, avail_idx = 0,
     avail_ring = replicate 4 0, used_event = 0, used_flags = 0, used_idx = 0,
     used_ring = replicate 4 \<lparr>ue_id = 0, ue_len = 0\<rparr>, avail_event = 0,
     desc_va = 0, avail_va = 0, used_va = 0\<rparr>"

text \<open>A fresh ring of four descriptors, and one with a two-descriptor request (token 7) that
  the device has completed.\<close>
definition ring4 :: "nat virtqueue_split" where
  "ring4 = vring.extend (ring_mem4\<lparr>sq_desc :=
      map (\<lambda>n. \<lparr>d_addr = 0, d_len = 0, d_flags = VIRTQ_DESC_F_NEXT, d_next = n\<rparr>) [1, 2, 3] @ [empty_desc]\<rparr>)
    (virtqueue_split.fields 0 0 4 0 0 0 (replicate 4 None) 0 \<lparr>vdev_addr = 0, event_suppression_enabled = True\<rparr>)"

definition ring4_used :: "nat virtqueue_split" where
  "ring4_used = ring4\<lparr>
     sq_desc := [\<lparr>d_addr = 4096, d_len = 24, d_flags = VIRTQ_DESC_F_NEXT, d_next = 1\<rparr>,
        \<lparr>d_addr = 8192, d_len = 64, d_flags = VIRTQ_DESC_F_WRITE, d_next = 2\<rparr>,
        \<lparr>d_addr = 0, d_len = 0, d_flags = VIRTQ_DESC_F_NEXT, d_next = 3\<rparr>, empty_desc],
     opaques := [Some 7, None, None, None], first_unused := 2, num_unused := 2,
     avail_idx := 1, master_idx := 1, num_added_since_kick := 1,
     used_ring := [\<lparr>ue_id = 0, ue_len = 64\<rparr>, \<lparr>ue_id = 0, ue_len = 0\<rparr>,
        \<lparr>ue_id = 0, ue_len = 0\<rparr>, \<lparr>ue_id = 0, ue_len = 0\<rparr>], used_idx := 1\<rparr>"

lemmas ring4_defs = ring4_def ring4_used_def ring_mem4_def empty_desc_def vring.extend_def
  virtqueue_split.fields_def vring_flag_defs

lemma ring4_shape: "ring_shape ring4" "ring_shape ring4_used"
  by (auto simp: ring_shape_def ring4_defs intro!: exI [of _ 2])

lemma lessThan_4: "{..<4::nat} = {0, 1, 2, 3}"
  by auto

lemma all_less_4: "(\<forall>i < 4::nat. P i) \<longleftrightarrow> P 0 \<and> P 1 \<and> P 2 \<and> P 3"
proof -
  have "i < 4 \<longleftrightarrow> i = 0 \<or> i = 1 \<or> i = 2 \<or> i = 3" for i :: nat by auto
  then show ?thesis by auto
qed

lemma ring4_inv: "split_inv [0, 1, 2, 3] [] ring4"
  using ring4_shape(1)
  by (simp add: split_inv_def ring4_defs lessThan_4 all_less_4 desc_next_def)

lemma ring4_used_inv: "split_inv [2, 3] [(7, [0, 1])] ring4_used"
  using ring4_shape(2)
  by (simp add: split_inv_def ring4_defs lessThan_4 all_less_4 desc_next_def desc_has_next_def) auto

lemma ring4_sys: "split_sys_inv ring4" "outstanding_split ring4 = {#}"
proof -
  have n: "unat (sq_num ring4) = 4" by (simp add: ring4_defs)
  have "[0..<4] = [0, 1, 2, 3::nat]" by (simp add: upt_rec)
  then have i: "split_inv [0..<unat (sq_num ring4)] [] ring4" unfolding n using ring4_inv by simp
  have "used_idx ring4 = last_used ring4" by (simp add: ring4_defs)
  moreover have "opaques ring4 = replicate (unat (sq_num ring4)) None" unfolding n by (simp add: ring4_defs)
  ultimately show "split_sys_inv ring4" "outstanding_split ring4 = {#}"
    using split_sys_inv_new [OF i] by simp_all
qed

definition sg2 :: "scatterlist list" where
  "sg2 = [\<lparr>physAddr = 4096, sg_length = 24\<rparr>, \<lparr>physAddr = 8192, sg_length = 64\<rparr>]"

section \<open>Conservation\<close>



section \<open>Adding buffers\<close>

text \<open>C27: With enough free descriptors, a direct request takes the first \<^verbatim>\<open>out + in\<close> of them in
  free-list order and leaves in them, for the device, the addresses and lengths of the
  scatter list, the WRITE mark on exactly the last \<^verbatim>\<open>in\<close> and the NEXT mark on all but the last;
  the head goes to the next slot of the available ring, whose index moves by one; the token is
  recorded at the head; everything else, the device's used ring included, is unchanged, and the
  invariant holds with the chain in flight.\<close>
theorem split_add_buf_direct:
  assumes "split_inv fs cs q" "n = unat (out + in')" "0 < n" "n \<le> length fs" "n \<le> length sg"
    and "va = None \<or> n = 1"
  shows "\<exists>q'. virtqueue_add_buf_split q sg out in' (Some t) va phys = Some (0, va, q') \<and>
    split_inv (drop n fs) ((t, take n fs) # cs) q' \<and> add_frame q q' \<and>
    request_desc sg out (take n fs) (sq_desc q) (sq_desc q') \<and>
    opaques q' = (opaques q)[hd fs := Some t] \<and>
    avail_ring q' = (avail_ring q)[unat (master_idx q) mod unat (sq_num q) := of_nat (hd fs)]"
  by (rule add_buf_split_direct [OF assms])

theorem split_add_buf_direct_witness:
  "\<exists>q'. virtqueue_add_buf_split ring4 sg2 1 1 (Some 7) None 0 = Some (0, None, q') \<and>
    split_inv (drop 2 [0, 1, 2, 3]) ((7, take 2 [0, 1, 2, 3]) # []) q' \<and> add_frame ring4 q' \<and>
    request_desc sg2 1 (take 2 [0, 1, 2, 3]) (sq_desc ring4) (sq_desc q') \<and>
    opaques q' = (opaques ring4)[hd [0, 1, 2, 3] := Some 7] \<and>
    avail_ring q' = (avail_ring ring4)[unat (master_idx ring4) mod unat (sq_num ring4) := of_nat (hd [0, 1, 2, 3])]"
  by (rule split_add_buf_direct [OF ring4_inv]) (simp_all add: sg2_def)

text \<open>With an indirect page and a request of more than one buffer, one free descriptor
  suffices: it points at the page, with the page's length in bytes and only the INDIRECT mark,
  and the page holds the whole request as a table whose entry \<^verbatim>\<open>j\<close> continues at \<^verbatim>\<open>j + 1\<close>.\<close>
theorem split_add_buf_indirect:
  assumes "split_inv (x # fs) cs q" "n = unat (out + in')" "1 < n" "n \<le> length sg" "n \<le> length page"
  shows "\<exists>page' q'. virtqueue_add_buf_split q sg out in' (Some t) (Some page) phys = Some (0, Some page', q') \<and>
    split_inv fs ((t, [x]) # cs) q' \<and> add_frame q q' \<and>
    (\<forall>j < n. page' ! j = indirect_desc sg out n j) \<and>
    sq_desc q' = (sq_desc q)[x := (sq_desc q ! x)\<lparr>d_flags := VIRTQ_DESC_F_INDIRECT,
       d_addr := phys, d_len := (out + in') * 16\<rparr>] \<and>
    opaques q' = (opaques q)[x := Some t] \<and>
    avail_ring q' = (avail_ring q)[unat (master_idx q) mod unat (sq_num q) := of_nat x]"
  by (rule add_buf_split_indirect [OF assms refl])

theorem split_add_buf_indirect_witness:
  "\<exists>page' q'. virtqueue_add_buf_split ring4 sg2 1 1 (Some 7) (Some [empty_desc, empty_desc]) 65536
      = Some (0, Some page', q') \<and>
    split_inv [1, 2, 3] ((7, [0]) # []) q' \<and> add_frame ring4 q' \<and>
    (\<forall>j < 2. page' ! j = indirect_desc sg2 1 2 j) \<and>
    sq_desc q' = (sq_desc ring4)[0 := (sq_desc ring4 ! 0)\<lparr>d_flags := VIRTQ_DESC_F_INDIRECT,
       d_addr := 65536, d_len := (1 + 1) * 16\<rparr>] \<and>
    opaques q' = (opaques ring4)[0 := Some 7] \<and>
    avail_ring q' = (avail_ring ring4)[unat (master_idx ring4) mod unat (sq_num ring4) := of_nat 0]"
  by (rule split_add_buf_indirect [OF ring4_inv]) (simp_all add: sg2_def)

section \<open>Fetching and detaching buffers\<close>

text \<open>When the device has put the head of a chain in flight into the used ring,
  \<^verbatim>\<open>virtqueue_get_buf_split\<close> returns the token of that request and the length the device
  wrote, gives every descriptor of the chain back to the front of the free list (the walk along
  the chain ends), clears the slot of the token, and moves \<^verbatim>\<open>last_used\<close> by one; the
  invariant holds without the chain.\<close>
theorem split_get_buf:
  assumes "split_inv fs cs q" "virtqueue_has_buf_split q" "(t, c) \<in> set cs"
    and "unat (ue_id (next_used q)) = hd c"
  shows "\<exists>q'. virtqueue_get_buf_split q = Some (Some t, Some (ue_len (next_used q)), q') \<and>
    split_inv (c @ fs) (remove1 (t, c) cs) q' \<and> get_frame q q' \<and>
    opaques q' = (opaques q)[hd c := None]"
  by (rule get_buf_split_chain [OF assms])

theorem split_get_buf_witness:
  "\<exists>q'. virtqueue_get_buf_split ring4_used = Some (Some 7, Some (ue_len (next_used ring4_used)), q') \<and>
    split_inv ([0, 1] @ [2, 3]) (remove1 (7, [0, 1]) [(7, [0, 1])]) q' \<and> get_frame ring4_used q' \<and>
    opaques q' = (opaques ring4_used)[hd [0, 1] := None]"
  by (rule split_get_buf [OF ring4_used_inv])
     (simp_all add: virtqueue_has_buf_split_def next_used_def ring4_defs)

text \<open>A used id outside the ring is not followed: the entry is skipped, nothing is freed.  An
  id inside the ring is not checked further: when the device returns the id of a descriptor that is
  free, the code frees it again and returns NULL, and the ring of four descriptors then
  counts five free ones.\<close>
theorem split_get_buf_untrusted_id:
  "(ring_shape q \<and> virtqueue_has_buf_split q \<and> sq_num q \<le> ue_id (next_used q) \<longrightarrow>
     virtqueue_get_buf_split q =
       Some (None, Some (ue_len (next_used q)), q\<lparr>last_used := last_used q + 1\<rparr>)) \<and>
   (case virtqueue_get_buf_split (device_put ring4 3 0) of
      Some (r, l, q') \<Rightarrow> r = None \<and> num_unused q' = 5
    | None \<Rightarrow> False)"
proof -
  have "case virtqueue_get_buf_split (device_put ring4 3 0) of
      Some (r, l, q') \<Rightarrow> r = None \<and> num_unused q' = 5 | None \<Rightarrow> False"
    by (simp add: virtqueue_get_buf_split_def device_put_def ring4_defs DESC_INDEX_def Let_def
        put_unused_desc_chain_def set_desc_def walk_chain.simps virtqueue_is_interrupt_enabled_split_def)
  then show ?thesis using get_buf_split_bad_id by blast
qed

theorem split_get_buf_untrusted_id_witness:
  "virtqueue_get_buf_split (device_put ring4 4 0) =
     Some (None, Some (ue_len (next_used (device_put ring4 4 0))),
       (device_put ring4 4 0)\<lparr>last_used := last_used (device_put ring4 4 0) + 1\<rparr>)"
  using split_get_buf_untrusted_id [of "device_put ring4 4 0"]
  by (simp add: device_put_def ring4_defs ring_shape_def virtqueue_has_buf_split_def next_used_def
      exI [of _ 2])

text \<open>At shutdown, \<^verbatim>\<open>virtqueue_detach_unused_buf_split\<close> returns NULL exactly when no request
  is in flight; otherwise it returns the token of the request with the lowest head, frees
  its descriptors, takes the available index back by one and keeps the invariant.  Re-initialising
  the ring with \<^verbatim>\<open>virtqueue_shutdown_split\<close> always succeeds and leaves a ring with every
  descriptor free, no token, indices at zero and interrupts enabled.\<close>
theorem split_detach_and_shutdown:
  assumes "split_inv fs cs q"
  shows "((cs = [] \<and> virtqueue_detach_unused_buf_split q = Some (None, q)) \<or>
    (\<exists>t c q'. (t, c) \<in> set cs \<and> virtqueue_detach_unused_buf_split q = Some (Some t, q') \<and>
       split_inv (c @ fs) (remove1 (t, c) cs) q' \<and>
       master_idx q' = master_idx q - 1 \<and> avail_idx q' = master_idx q - 1 \<and>
       opaques q' = (opaques q)[hd c := None] \<and> (\<forall>(u, d) \<in> set cs. hd c \<le> hd d))) \<and>
    (\<exists>q'. virtqueue_shutdown_split q = Some (Some q') \<and>
       split_inv [0..<unat (sq_num q)] [] q' \<and> split_sys_inv q' \<and> outstanding_split q' = {#} \<and>
       last_used q' = 0 \<and> used_idx q' = 0 \<and> master_idx q' = 0 \<and> avail_idx q' = 0 \<and>
       sq_num q' = sq_num q \<and> sq_index q' = sq_index q \<and> virtqueue_is_interrupt_enabled_split q')"
proof -
  obtain q' where q': "virtqueue_shutdown_split q = Some (Some q')" "split_inv [0..<unat (sq_num q)] [] q'"
    "opaques q' = replicate (unat (sq_num q)) None" "last_used q' = 0" "used_idx q' = 0" "master_idx q' = 0"
    "avail_idx q' = 0" "sq_num q' = sq_num q" "sq_index q' = sq_index q" "virtqueue_is_interrupt_enabled_split q'"
    using virtqueue_shutdown_split_ok [OF split_invD(1) [OF assms]] by blast
  then have "split_sys_inv q'" "outstanding_split q' = {#}" by (auto intro!: split_sys_inv_new)
  with q' detach_unused_buf_split [OF assms] show ?thesis by blast
qed

theorem split_detach_and_shutdown_witness:
  "\<exists>q' q''. virtqueue_detach_unused_buf_split ring4_used = Some (Some 7, q') \<and>
     virtqueue_shutdown_split ring4_used = Some (Some q'') \<and> outstanding_split q'' = {#}"
  using split_detach_and_shutdown [OF ring4_used_inv] by auto

section \<open>Creation and layout\<close>

text \<open>A length that is neither zero nor a power of two is refused with NULL.  For a power of
  two up to 32768 the ring is created (the loop that links the descriptors ends) with every
  descriptor on the free list in order, no token, and all indices of the driver at zero; the
  parts of the ring then lie one behind the other in the page block: descriptors at its
  start, the available ring behind them, the used ring aligned behind that, and the last byte of
  the used ring is the last one \<^verbatim>\<open>vring_size_split\<close> asks for.\<close>
theorem split_new_virtqueue:
  "(DESC_INDEX num num \<noteq> 0 \<longrightarrow>
      vring_new_virtqueue_split index num align vdev pages m = Some (None :: 'a virtqueue_split option)) \<and>
   (unat num = 2 ^ k \<and> k \<le> 15 \<and> mem_shape num m \<and> unat align = 2 ^ a \<and> 2 \<le> a \<and> a \<le> 12 \<and>
      unat pages mod unat align = 0 \<and> unat pages + 1048576 \<le> 2 ^ 64 \<longrightarrow>
    (\<exists>q :: 'a virtqueue_split. vring_new_virtqueue_split index num align vdev pages m = Some (Some q) \<and>
      split_inv [0..<unat num] [] q \<and> last_used q = 0 \<and> master_idx q = 0 \<and> num_added_since_kick q = 0 \<and>
      unat (desc_va q) = unat pages \<and> unat (avail_va q) = unat pages + 16 * unat num \<and>
      unat (avail_va q) + 2 * unat num + 6 \<le> unat (used_va q) \<and> unat (used_va q) mod 4 = 0 \<and>
      unat (used_va q) + 8 * unat num + 6 = unat pages + unat (vring_size_split num align)))"
proof (intro conjI impI; (elim conjE)?)
  assume a: "unat num = 2 ^ k" "k \<le> 15" "mem_shape num m" "unat align = 2 ^ a" "2 \<le> a" "a \<le> 12"
    "unat pages mod unat align = 0" "unat pages + 1048576 \<le> 2 ^ 64"
  obtain q :: "'a virtqueue_split" where
    q: "vring_new_virtqueue_split index num align vdev pages m = Some (Some q)"
    "split_inv [0..<unat num] [] q" "last_used q = 0" "master_idx q = 0" "num_added_since_kick q = 0"
    "(desc_va q, avail_va q, used_va q) = vring_init num pages align"
    using vring_new_virtqueue_split_ok [OF a(1,2,3), where 'a = 'a] by blast
  from vring_layout [OF a(1,2,4,5,6,7,8) q(6) [symmetric]] q show
    "\<exists>q :: 'a virtqueue_split. vring_new_virtqueue_split index num align vdev pages m = Some (Some q) \<and>
      split_inv [0..<unat num] [] q \<and> last_used q = 0 \<and> master_idx q = 0 \<and> num_added_since_kick q = 0 \<and>
      unat (desc_va q) = unat pages \<and> unat (avail_va q) = unat pages + 16 * unat num \<and>
      unat (avail_va q) + 2 * unat num + 6 \<le> unat (used_va q) \<and> unat (used_va q) mod 4 = 0 \<and>
      unat (used_va q) + 8 * unat num + 6 = unat pages + unat (vring_size_split num align)"
    by (intro exI [of _ q]) simp
qed (rule vring_new_virtqueue_split_refused)

theorem split_new_virtqueue_witness:
  "\<exists>q :: nat virtqueue_split. vring_new_virtqueue_split 0 4 64 \<lparr>vdev_addr = 0, event_suppression_enabled = True\<rparr>
      65536 ring_mem4 = Some (Some q) \<and> split_inv [0..<unat (4::u32)] [] q"
proof -
  have "mem_shape 4 ring_mem4" by (simp add: mem_shape_def ring_mem4_def)
  with split_new_virtqueue [of 4 0 64 _ 65536 ring_mem4 2 6, where 'a = nat] show ?thesis by auto
qed

section \<open>Notification and interrupts\<close>

text \<open>With event suppression, the device is to be notified exactly when the index it asked
  for is one of those of the buffers added since the last kick (indices wrap at 16 bits), or
  when so many were added that the window wrapped; the count of additions restarts.\<close>
theorem split_kick_prepare_window:
  "event_suppression_enabled (sq_vdev q) \<longrightarrow>
   (fst (virtqueue_kick_prepare_split q) \<longleftrightarrow>
      65536 \<le> unat (num_added_since_kick q) \<or>
      (\<exists>k < unat (num_added_since_kick q).
          avail_event q = master_idx q - ucast (num_added_since_kick q) + of_nat k)) \<and>
    num_added_since_kick (snd (virtqueue_kick_prepare_split q)) = 0"
  using kick_prepare_split_events [of q] by (simp add: virtqueue_kick_prepare_split_def Let_def)

theorem split_kick_prepare_window_witness:
  "fst (virtqueue_kick_prepare_split ring4_used)"
proof -
  have "event_suppression_enabled (sq_vdev ring4_used)" "num_added_since_kick ring4_used = 1"
    "avail_event ring4_used = 0" "master_idx ring4_used = 1"
    by (simp_all add: ring4_defs)
  with split_kick_prepare_window [of ring4_used] show ?thesis by auto
qed

text \<open>\<^verbatim>\<open>virtqueue_enable_cb_delayed_split\<close> answers by comparing the distance from
  \<^verbatim>\<open>last_used\<close> to the used index with three quarters of the buffers in flight; but the
  distance is taken on ints, so when the used index has wrapped below \<^verbatim>\<open>last_used\<close> it
  answers true (keep waiting) whatever the device has returned, where the plain
  \<^verbatim>\<open>virtqueue_enable_cb_split\<close> answers whether anything is left to fetch.  Both leave the
  interrupt enabled.\<close>
theorem split_enable_cb_answers:
  "(fst (virtqueue_enable_cb_split q) \<longleftrightarrow> \<not> virtqueue_has_buf_split q) \<and>
   used_event (snd (virtqueue_enable_cb_split q)) = last_used q \<and>
   (fst (virtqueue_enable_cb_delayed_split q) \<longleftrightarrow>
     unat (used_idx q) < unat (last_used q) \<or>
     unat (used_idx q - last_used q) \<le> unat (master_idx q - last_used q) * 3 div 4) \<and>
   virtqueue_is_interrupt_enabled_split (snd (virtqueue_enable_cb_split q)) \<and>
   virtqueue_is_interrupt_enabled_split (snd (virtqueue_enable_cb_delayed_split q)) \<and>
   \<not> virtqueue_is_interrupt_enabled_split (virtqueue_disable_cb_split q)"
proof -
  have "virtqueue_is_interrupt_enabled_split (snd (virtqueue_enable_cb_delayed_split q))"
    by (auto simp: virtqueue_enable_cb_delayed_split_def unmask_interrupt_def
      virtqueue_is_interrupt_enabled_split_def Let_def)
  then show ?thesis
    using enable_cb_split_ok [of q] disable_cb_split_ok(1) [of q] enable_cb_delayed_split_result [of q]
    by blast
qed

text \<open>Of the transport features only bits 30 and 31 are cleared; indirect descriptors, event
  indices and the bits from 32 upwards pass as the device offered them.\<close>
lemma transport_features_accepted:
  "bit (vring_transport_features x) f \<longleftrightarrow> bit x f \<and> f \<noteq> 30 \<and> f \<noteq> 31"
  by (rule vring_transport_features_bit)

end
