(* ===== verification/VirtioPacked.thy ===== *)
theory VirtioPacked
  imports VirtioSplitProps
begin

text \<open>
  The packed virtqueue of \<^verbatim>\<open>src/VirtIO/VirtIORing-Packed.c\<close>: the descriptor ring and the two
  event structures shared with the device, the driver's control block
  \<^verbatim>\<open>struct virtqueue_packed\<close>, and one definition per function, in the order of the file.
  \<^verbatim>\<open>None\<close> is a bug check (\<^verbatim>\<open>BUG_ON\<close>, \<^verbatim>\<open>BAD_RING\<close>) or an access outside an array.
  The C type \<^verbatim>\<open>bool\<close> of the wrap counters holds 0 or 1 and is a HOL \<^verbatim>\<open>bool\<close>.
\<close>

section \<open>State\<close>

definition VRING_DESC_F_NEXT :: u16 where "VRING_DESC_F_NEXT = 1"
definition VRING_DESC_F_WRITE :: u16 where "VRING_DESC_F_WRITE = 2"
definition VRING_DESC_F_INDIRECT :: u16 where "VRING_DESC_F_INDIRECT = 4"
definition VRING_PACKED_DESC_F_AVAIL :: nat where "VRING_PACKED_DESC_F_AVAIL = 7"
definition VRING_PACKED_DESC_F_USED :: nat where "VRING_PACKED_DESC_F_USED = 15"
definition VRING_PACKED_EVENT_FLAG_ENABLE :: u16 where "VRING_PACKED_EVENT_FLAG_ENABLE = 0"
definition VRING_PACKED_EVENT_FLAG_DISABLE :: u16 where "VRING_PACKED_EVENT_FLAG_DISABLE = 1"
definition VRING_PACKED_EVENT_FLAG_DESC :: u16 where "VRING_PACKED_EVENT_FLAG_DESC = 2"
definition VRING_PACKED_EVENT_F_WRAP_CTR :: nat where "VRING_PACKED_EVENT_F_WRAP_CTR = 15"

lemmas packed_flag_defs = VRING_DESC_F_NEXT_def VRING_DESC_F_WRITE_def VRING_DESC_F_INDIRECT_def
  VRING_PACKED_DESC_F_AVAIL_def VRING_PACKED_DESC_F_USED_def VRING_PACKED_EVENT_FLAG_ENABLE_def
  VRING_PACKED_EVENT_FLAG_DISABLE_def VRING_PACKED_EVENT_FLAG_DESC_def VRING_PACKED_EVENT_F_WRAP_CTR_def

record vring_packed_desc_event =
  off_wrap :: u16
  ev_flags :: u16

record vring_packed_desc =
  p_addr :: u64
  p_len :: u32
  p_id :: u16
  p_flags :: u16

record 'a vring_desc_state_packed =
  st_data :: "'a option"
  st_num :: u16
  st_next :: u16
  st_last :: u16

record 'a virtqueue_packed =
  num_added :: u32
  free_head :: u32
  num_free :: u32
  last_used_idx :: u16
  avail_used_flags :: u16
  avail_wrap_counter :: bool
  used_wrap_counter :: bool
  next_avail_idx :: u16
  event_flags_shadow :: u16
  pq_num :: u32
  pq_desc :: "vring_packed_desc list"
  driver_event :: vring_packed_desc_event
  device_event :: vring_packed_desc_event
  desc_state :: "'a vring_desc_state_packed list"
  pq_index :: u32
  pq_vdev :: virtio_device_ring
  pq_desc_va :: u64
  pq_avail_va :: u64
  pq_used_va :: u64

definition vring_need_event_packed :: "u16 \<Rightarrow> u16 \<Rightarrow> u16 \<Rightarrow> bool" where
  "vring_need_event_packed event_idx new_idx old = (new_idx - event_idx - 1 < new_idx - old)"

text \<open>The sizes of the compiler's structures are parameters.\<close>
definition vring_control_block_size_packed :: "u32 \<Rightarrow> u32 \<Rightarrow> u16 \<Rightarrow> u32" where
  "vring_control_block_size_packed sizeof_virtqueue_packed sizeof_desc_state qsize =
     sizeof_virtqueue_packed + sizeof_desc_state * ucast qsize"

definition vring_size_packed :: "u32 \<Rightarrow> u32 \<Rightarrow> u32" where
  "vring_size_packed num align = num * 16 + 2 * 4"

definition bool_u16 :: "bool \<Rightarrow> u16" where
  "bool_u16 b = (if b then 1 else 0)"

text \<open>The two bits toggled when the ring wraps.\<close>
definition avail_used_mask :: u16 where
  "avail_used_mask = push_bit VRING_PACKED_DESC_F_AVAIL 1 OR push_bit VRING_PACKED_DESC_F_USED 1"

section \<open>Adding a buffer\<close>

definition set_pdesc :: "'a virtqueue_packed \<Rightarrow> nat \<Rightarrow> (vring_packed_desc \<Rightarrow> vring_packed_desc)
    \<Rightarrow> 'a virtqueue_packed option" where
  "set_pdesc q i f = do {
     d \<leftarrow> nth_opt (pq_desc q) i;
     Some (q\<lparr>pq_desc := (pq_desc q)[i := f d]\<rparr>)
   }"

definition set_state :: "'a virtqueue_packed \<Rightarrow> nat \<Rightarrow> ('a vring_desc_state_packed \<Rightarrow> 'a vring_desc_state_packed)
    \<Rightarrow> 'a virtqueue_packed option" where
  "set_state q i f = do {
     s \<leftarrow> nth_opt (desc_state q) i;
     Some (q\<lparr>desc_state := (desc_state q)[i := f s]\<rparr>)
   }"

text \<open>The loop that fills the indirect page; its counter is 16 bits wide, the bound 32.\<close>
partial_function (option) fill_indirect_packed ::
  "scatterlist list \<Rightarrow> u32 \<Rightarrow> u32 \<Rightarrow> u16 \<Rightarrow> vring_packed_desc list \<Rightarrow> vring_packed_desc list option" where
  "fill_indirect_packed sg out descs_used i page =
    (if (ucast i :: u32) < descs_used then do {
       s \<leftarrow> nth_opt sg (unat i);
       d \<leftarrow> nth_opt page (unat i);
       fill_indirect_packed sg out descs_used (i + 1)
         (page[unat i := d\<lparr>p_flags := (if (ucast i :: u32) < out then 0 else VRING_DESC_F_WRITE),
            p_addr := physAddr s, p_len := sg_length s\<rparr>])
     } else Some page)"

definition add_indirect_packed ::
  "'a virtqueue_packed \<Rightarrow> scatterlist list \<Rightarrow> u32 \<Rightarrow> u32 \<Rightarrow> 'a option \<Rightarrow> vring_packed_desc list \<Rightarrow> u64
    \<Rightarrow> (vring_packed_desc list \<times> 'a virtqueue_packed) option" where
  "add_indirect_packed q sg out descs_used tok page phys_indirect = do {
     let head = next_avail_idx q;
     let ident = (ucast (free_head q) :: u16);
     page' \<leftarrow> fill_indirect_packed sg out descs_used 0 page;
     q1 \<leftarrow> set_pdesc q (unat head) (\<lambda>d. d\<lparr>p_addr := phys_indirect, p_len := descs_used * 16, p_id := ident,
             p_flags := VRING_DESC_F_INDIRECT OR avail_used_flags q\<rparr>);
     let head1 = head + 1;
     let wrap = ((ucast head1 :: u32) \<ge> pq_num q1);
     let q2 = (if wrap then q1\<lparr>avail_wrap_counter := \<not> avail_wrap_counter q1,
                 avail_used_flags := avail_used_flags q1 XOR avail_used_mask\<rparr> else q1);
     let q3 = q2\<lparr>next_avail_idx := (if wrap then 0 else head1), num_free := num_free q2 - 1,
                 num_added := num_added q2 + 1\<rparr>;
     s \<leftarrow> nth_opt (desc_state q3) (unat ident);
     let q4 = q3\<lparr>free_head := ucast (st_next s)\<rparr>;
     q5 \<leftarrow> set_state q4 (unat ident) (\<lambda>s. s\<lparr>st_num := 1, st_data := tok, st_last := ident\<rparr>);
     Some (page', q5)
   }"

text \<open>The loop over the descriptors of a direct request (\<^verbatim>\<open>k\<close> turns left, at \<^verbatim>\<open>n\<close>):
  ring position, current and previous id, the flags kept back for the head.\<close>
fun add_loop_packed ::
  "scatterlist list \<Rightarrow> u32 \<Rightarrow> u32 \<Rightarrow> u16 \<Rightarrow> nat \<Rightarrow> nat \<Rightarrow> u16 \<Rightarrow> u16 \<Rightarrow> u16 \<Rightarrow> u16 \<Rightarrow> 'a virtqueue_packed
    \<Rightarrow> (u16 \<times> u16 \<times> u16 \<times> u16 \<times> 'a virtqueue_packed) option" where
  "add_loop_packed sg out descs_used ident 0 n i cur prev head_flags q = Some (i, cur, prev, head_flags, q)"
| "add_loop_packed sg out descs_used ident (Suc k) n i cur prev head_flags q = do {
     let flags = avail_used_flags q OR (if n < unat out then 0 else VRING_DESC_F_WRITE)
                   OR (if n \<noteq> unat (descs_used - 1) then VRING_DESC_F_NEXT else 0);
     s \<leftarrow> nth_opt sg n;
     q1 \<leftarrow> set_pdesc q (unat i) (\<lambda>d. d\<lparr>p_addr := physAddr s, p_len := sg_length s, p_id := ident,
             p_flags := (if n = 0 then p_flags d else flags)\<rparr>);
     st \<leftarrow> nth_opt (desc_state q1) (unat cur);
     let wrap = ((ucast (i + 1) :: u32) \<ge> pq_num q1);
     let q2 = (if wrap then q1\<lparr>avail_used_flags := avail_used_flags q1 XOR avail_used_mask\<rparr> else q1);
     add_loop_packed sg out descs_used ident k (Suc n) (if wrap then 0 else i + 1) (st_next st) cur
       (if n = 0 then flags else head_flags) q2
   }"

definition add_direct_packed ::
  "'a virtqueue_packed \<Rightarrow> scatterlist list \<Rightarrow> u32 \<Rightarrow> u32 \<Rightarrow> 'a option \<Rightarrow> 'a virtqueue_packed option" where
  "add_direct_packed q sg out descs_used tok = do {
     let head = next_avail_idx q;
     let ident = (ucast (free_head q) :: u16);
     (i, cur, prev, head_flags, q1) \<leftarrow>
        add_loop_packed sg out descs_used ident (unat descs_used) 0 head ident 0 0 q;
     let q2 = (if i < head then q1\<lparr>avail_wrap_counter := \<not> avail_wrap_counter q1\<rparr> else q1);
     let q3 = q2\<lparr>num_free := num_free q2 - descs_used, next_avail_idx := i, free_head := ucast cur\<rparr>;
     q4 \<leftarrow> set_state q3 (unat ident) (\<lambda>s. s\<lparr>st_num := ucast descs_used, st_data := tok, st_last := prev\<rparr>);
     q5 \<leftarrow> set_pdesc q4 (unat head) (\<lambda>d. d\<lparr>p_flags := head_flags\<rparr>);
     Some (q5\<lparr>num_added := num_added q5 + descs_used\<rparr>)
   }"

definition virtqueue_add_buf_packed ::
  "'a virtqueue_packed \<Rightarrow> scatterlist list \<Rightarrow> u32 \<Rightarrow> u32 \<Rightarrow> 'a option \<Rightarrow> vring_packed_desc list option \<Rightarrow> u64
    \<Rightarrow> (int \<times> vring_packed_desc list option \<times> 'a virtqueue_packed) option" where
  "virtqueue_add_buf_packed q sg out in' tok va_indirect phys_indirect = do {
     let descs_used = out + in';
     let ident = (ucast (free_head q) :: u16);
     guard_opt (descs_used \<noteq> 0);
     guard_opt (\<not> (ucast ident :: u32) \<ge> pq_num q);
     case (if num_free q > 0 then va_indirect else None) of
       Some page \<Rightarrow> do {
         (page', q1) \<leftarrow> add_indirect_packed q sg out descs_used tok page phys_indirect;
         Some (0, Some page', q1)
       }
     | None \<Rightarrow>
         if num_free q < descs_used then Some (- ENOSPC, va_indirect, q)
         else do {
           q1 \<leftarrow> add_direct_packed q sg out descs_used tok;
           Some (0, va_indirect, q1)
         }
   }"

section \<open>Detaching\<close>

definition detach_buf_packed :: "'a virtqueue_packed \<Rightarrow> u32 \<Rightarrow> 'a virtqueue_packed option" where
  "detach_buf_packed q ident = do {
     q1 \<leftarrow> set_state q (unat ident) (\<lambda>s. s\<lparr>st_data := None\<rparr>);
     s \<leftarrow> nth_opt (desc_state q1) (unat ident);
     q2 \<leftarrow> set_state q1 (unat (st_last s)) (\<lambda>l. l\<lparr>st_next := ucast (free_head q1)\<rparr>);
     s2 \<leftarrow> nth_opt (desc_state q2) (unat ident);
     Some (q2\<lparr>free_head := ident, num_free := num_free q2 + ucast (st_num s2)\<rparr>)
   }"

text \<open>The scan for a token (\<^verbatim>\<open>k\<close> entries left, at \<^verbatim>\<open>i\<close>); a queue without one must have every
  descriptor free.\<close>
fun detach_scan_packed :: "nat \<Rightarrow> u32 \<Rightarrow> 'a virtqueue_packed \<Rightarrow> ('a option \<times> 'a virtqueue_packed) option" where
  "detach_scan_packed 0 i q = do { guard_opt (\<not> num_free q \<noteq> pq_num q); Some (None, q) }"
| "detach_scan_packed (Suc k) i q = do {
     s \<leftarrow> nth_opt (desc_state q) (unat i);
     case st_data s of
       None \<Rightarrow> detach_scan_packed k (i + 1) q
     | Some t \<Rightarrow> do { q1 \<leftarrow> detach_buf_packed q i; Some (Some t, q1) }
   }"

definition virtqueue_detach_unused_buf_packed ::
  "'a virtqueue_packed \<Rightarrow> ('a option \<times> 'a virtqueue_packed) option" where
  "virtqueue_detach_unused_buf_packed q = detach_scan_packed (unat (pq_num q)) 0 q"

section \<open>Interrupts\<close>

definition virtqueue_disable_cb_packed :: "'a virtqueue_packed \<Rightarrow> 'a virtqueue_packed" where
  "virtqueue_disable_cb_packed q =
    (if event_flags_shadow q \<noteq> VRING_PACKED_EVENT_FLAG_DISABLE
     then q\<lparr>event_flags_shadow := VRING_PACKED_EVENT_FLAG_DISABLE,
            driver_event := (driver_event q)\<lparr>ev_flags := VRING_PACKED_EVENT_FLAG_DISABLE\<rparr>\<rparr>
     else q)"

definition is_used_desc_packed :: "'a virtqueue_packed \<Rightarrow> u16 \<Rightarrow> bool \<Rightarrow> bool option" where
  "is_used_desc_packed q idx wrap = do {
     d \<leftarrow> nth_opt (pq_desc q) (unat idx);
     let avail = (p_flags d AND push_bit VRING_PACKED_DESC_F_AVAIL 1 \<noteq> 0);
     let used = (p_flags d AND push_bit VRING_PACKED_DESC_F_USED 1 \<noteq> 0);
     Some (avail = used \<and> used = wrap)
   }"

definition virtqueue_poll_packed :: "'a virtqueue_packed \<Rightarrow> u16 \<Rightarrow> bool option" where
  "virtqueue_poll_packed q ow =
     is_used_desc_packed q (ow AND NOT (push_bit VRING_PACKED_EVENT_F_WRAP_CTR 1))
       (drop_bit VRING_PACKED_EVENT_F_WRAP_CTR ow \<noteq> 0)"

definition unmask_interrupt_packed :: "'a virtqueue_packed \<Rightarrow> 'a virtqueue_packed" where
  "unmask_interrupt_packed q =
    (if event_flags_shadow q = VRING_PACKED_EVENT_FLAG_DISABLE
     then let f = (if event_suppression_enabled (pq_vdev q) then VRING_PACKED_EVENT_FLAG_DESC
                   else VRING_PACKED_EVENT_FLAG_ENABLE)
          in q\<lparr>event_flags_shadow := f, driver_event := (driver_event q)\<lparr>ev_flags := f\<rparr>\<rparr>
     else q)"

definition used_off_wrap :: "'a virtqueue_packed \<Rightarrow> u16" where
  "used_off_wrap q = last_used_idx q OR push_bit VRING_PACKED_EVENT_F_WRAP_CTR (bool_u16 (used_wrap_counter q))"

definition virtqueue_enable_cb_prepare_packed :: "'a virtqueue_packed \<Rightarrow> u16 \<times> 'a virtqueue_packed" where
  "virtqueue_enable_cb_prepare_packed q =
    (let q1 = (if event_suppression_enabled (pq_vdev q)
               then q\<lparr>driver_event := (driver_event q)\<lparr>off_wrap := used_off_wrap q\<rparr>\<rparr> else q);
         q2 = unmask_interrupt_packed q1
     in (used_off_wrap q2, q2))"

definition virtqueue_enable_cb_packed :: "'a virtqueue_packed \<Rightarrow> (bool \<times> 'a virtqueue_packed) option" where
  "virtqueue_enable_cb_packed q =
    (let (ow, q1) = virtqueue_enable_cb_prepare_packed q
     in map_option (\<lambda>b. (\<not> b, q1)) (virtqueue_poll_packed q1 ow))"

definition virtqueue_enable_cb_delayed_packed ::
  "'a virtqueue_packed \<Rightarrow> (bool \<times> 'a virtqueue_packed) option" where
  "virtqueue_enable_cb_delayed_packed q =
    (let q1 = (if event_suppression_enabled (pq_vdev q) then
           let bufs = (ucast ((pq_num q - num_free q) * 3 div 4) :: u16);
               used0 = last_used_idx q + bufs;
               wrap = ((ucast used0 :: u32) \<ge> pq_num q);
               used = (if wrap then used0 - ucast (pq_num q) else used0);
               wc = (if wrap then \<not> used_wrap_counter q else used_wrap_counter q)
           in q\<lparr>driver_event := (driver_event q)\<lparr>off_wrap :=
                used OR push_bit VRING_PACKED_EVENT_F_WRAP_CTR (bool_u16 wc)\<rparr>\<rparr>
         else q);
         q2 = unmask_interrupt_packed q1
     in map_option (\<lambda>b. (\<not> b, q2)) (is_used_desc_packed q2 (last_used_idx q2) (used_wrap_counter q2)))"

definition virtqueue_is_interrupt_enabled_packed :: "'a virtqueue_packed \<Rightarrow> bool" where
  "virtqueue_is_interrupt_enabled_packed q = (event_flags_shadow q AND VRING_PACKED_EVENT_FLAG_DISABLE \<noteq> 0)"

section \<open>Returned buffers\<close>

definition more_used_packed :: "'a virtqueue_packed \<Rightarrow> bool option" where
  "more_used_packed q = is_used_desc_packed q (last_used_idx q) (used_wrap_counter q)"

definition virtqueue_has_buf_packed :: "'a virtqueue_packed \<Rightarrow> bool option" where
  "virtqueue_has_buf_packed q = more_used_packed q"

definition virtqueue_get_buf_packed ::
  "'a virtqueue_packed \<Rightarrow> ('a option \<times> u32 option \<times> 'a virtqueue_packed) option" where
  "virtqueue_get_buf_packed q = do {
     more \<leftarrow> more_used_packed q;
     if \<not> more then Some (None, None, q)
     else do {
       d \<leftarrow> nth_opt (pq_desc q) (unat (last_used_idx q));
       let ident = p_id d;
       guard_opt (\<not> (ucast ident :: u32) \<ge> pq_num q);
       s \<leftarrow> nth_opt (desc_state q) (unat ident);
       guard_opt (st_data s \<noteq> None);
       q1 \<leftarrow> detach_buf_packed q (ucast ident);
       s1 \<leftarrow> nth_opt (desc_state q1) (unat ident);
       let lu = last_used_idx q1 + st_num s1;
       let wrap = ((ucast lu :: u32) \<ge> pq_num q1);
       let q2 = (if wrap then q1\<lparr>last_used_idx := lu - ucast (pq_num q1),
                     used_wrap_counter := \<not> used_wrap_counter q1\<rparr>
                 else q1\<lparr>last_used_idx := lu\<rparr>);
       let q3 = (if event_flags_shadow q2 = VRING_PACKED_EVENT_FLAG_DESC
                 then q2\<lparr>driver_event := (driver_event q2)\<lparr>off_wrap := used_off_wrap q2\<rparr>\<rparr> else q2);
       Some (st_data s, Some (p_len d), q3)
     }
   }"

section \<open>Notification\<close>

definition virtqueue_kick_prepare_packed :: "'a virtqueue_packed \<Rightarrow> bool \<times> 'a virtqueue_packed" where
  "virtqueue_kick_prepare_packed q =
    (let old = next_avail_idx q - ucast (num_added q);
         new = next_avail_idx q;
         q1 = q\<lparr>num_added := 0\<rparr>;
         flags = ev_flags (device_event q);
         ow = off_wrap (device_event q)
     in if flags \<noteq> VRING_PACKED_EVENT_FLAG_DESC
        then (flags \<noteq> VRING_PACKED_EVENT_FLAG_DISABLE, q1)
        else
          let wrap_counter = (drop_bit VRING_PACKED_EVENT_F_WRAP_CTR ow \<noteq> 0);
              event0 = ow AND NOT (push_bit VRING_PACKED_EVENT_F_WRAP_CTR 1);
              event = (if wrap_counter \<noteq> avail_wrap_counter q then event0 - ucast (pq_num q) else event0)
          in (vring_need_event_packed event new old, q1))"

definition virtqueue_kick_always_packed :: "'a virtqueue_packed \<Rightarrow> bool \<times> 'a virtqueue_packed" where
  "virtqueue_kick_always_packed q = (True, q\<lparr>num_added := 0\<rparr>)"

section \<open>Creation and shutdown\<close>

definition fresh_state :: "u32 \<Rightarrow> 'a vring_desc_state_packed list" where
  "fresh_state num = map (\<lambda>i. \<lparr>st_data = None, st_num = 0,
      st_next = (if Suc i < unat num then of_nat (Suc i) else 0), st_last = 0\<rparr>) [0..<unat num]"

text \<open>The ring memory (descriptors and event structures) is the caller's and is not touched; a
  length of zero makes the bound \<^verbatim>\<open>num - 1\<close> of the linking loop huge.\<close>
definition vring_new_virtqueue_packed ::
  "u32 \<Rightarrow> u32 \<Rightarrow> u32 \<Rightarrow> virtio_device_ring \<Rightarrow> u64 \<Rightarrow> vring_packed_desc list \<Rightarrow> vring_packed_desc_event
    \<Rightarrow> vring_packed_desc_event \<Rightarrow> 'a virtqueue_packed option" where
  "vring_new_virtqueue_packed index num align vdev pages ds drv dev = do {
     guard_opt (num \<noteq> 0);
     let ava = pages + ucast num * 16;
     Some \<lparr>num_added = 0, free_head = 0, num_free = num, last_used_idx = 0,
       avail_used_flags = push_bit VRING_PACKED_DESC_F_AVAIL 1,
       avail_wrap_counter = True, used_wrap_counter = True, next_avail_idx = 0, event_flags_shadow = 0,
       pq_num = num, pq_desc = ds, driver_event = drv, device_event = dev, desc_state = fresh_state num,
       pq_index = index, pq_vdev = vdev, pq_desc_va = pages, pq_avail_va = ava, pq_used_va = ava + 4\<rparr>
   }"

definition virtqueue_shutdown_packed :: "'a virtqueue_packed \<Rightarrow> 'a virtqueue_packed option" where
  "virtqueue_shutdown_packed q =
    (let vring_align = (if vdev_addr (pq_vdev q) \<noteq> 0 then PAGE_SIZE else SMP_CACHE_BYTES)
     in vring_new_virtqueue_packed (pq_index q) (pq_num q) vring_align (pq_vdev q) (pq_desc_va q)
          (map (\<lambda>_. \<lparr>p_addr = 0, p_len = 0, p_id = 0, p_flags = 0\<rparr>) (pq_desc q))
          \<lparr>off_wrap = 0, ev_flags = 0\<rparr> \<lparr>off_wrap = 0, ev_flags = 0\<rparr>)"

end
