(* ===== verification/VirtioPackedInv.thy ===== *)
theory VirtioPackedInv
  imports VirtioPacked
begin

text \<open>
  The invariant of the packed ring beside its device.  Ring positions are counted without
  wrapping: \<^verbatim>\<open>U\<close> is the position the driver reads next and \<^verbatim>\<open>A\<close> the one it writes
  next, so the indices of the code are \<^verbatim>\<open>U mod N\<close> and \<^verbatim>\<open>A mod N\<close> and its wrap
  counters the parity of the lap.  The device's own index and wrap counter, and the list of
  completions the driver has not read, stand beside the driver's queue in
  \<^verbatim>\<open>packed_sys\<close>.
\<close>

section \<open>Laps\<close>

definition lap :: "nat \<Rightarrow> nat \<Rightarrow> bool" where
  "lap N v = odd (v div N)"

lemma mod_add_le:
  assumes "0 < N" "l \<le> N"
  shows "(v + l) mod N = (if N \<le> v mod N + l then v mod N + l - N else v mod N + (l::nat))"
proof -
  define r where "r = v mod N"
  have e: "(v + l) mod N = (r + l) mod N" by (simp add: r_def mod_add_left_eq)
  have r: "r < N" using assms by (simp add: r_def)
  show ?thesis
  proof (cases "N \<le> r + l")
    case True
    then have "(r + l) mod N = r + l - N" using r assms by (simp add: le_mod_geq)
    then show ?thesis unfolding e using True by (simp add: r_def)
  next
    case False
    then show ?thesis unfolding e by (simp add: r_def)
  qed
qed

lemma lap_add:
  assumes "0 < N" "l \<le> N"
  shows "lap N (v + l) = (if N \<le> v mod N + l then \<not> lap N v else lap N v)"
proof -
  have v: "v = v div N * N + v mod N" "v mod N < N" using assms by simp_all
  show ?thesis
  proof (cases "N \<le> v mod N + l")
    case True
    then have "v + l = (v div N + 1) * N + (v mod N + l - N)" "v mod N + l - N < N"
      using v assms by (simp only: add_mult_distrib, linarith)+
    then have "(v + l) div N = v div N + 1"
      by (metis Euclidean_Rings.div_eq_0_iff add_0_right div_mult_self3 less_nat_zero_code mult.commute)
    then show ?thesis using True by (simp add: lap_def)
  next
    case False
    then have "v + l = v div N * N + (v mod N + l)" "v mod N + l < N" using v by simp_all
    then have "(v + l) div N = v div N"
      by (metis Euclidean_Rings.div_eq_0_iff add_0_right div_mult_self3 less_nat_zero_code mult.commute)
    then show ?thesis using False by (simp add: lap_def)
  qed
qed

lemma lap_diff: "0 < N \<Longrightarrow> N \<le> v \<Longrightarrow> lap N (v - N) = (\<not> lap N v)"
  by (simp add: lap_def le_div_geq)

text \<open>Positions less than a lap apart are different slots.\<close>
lemma mod_window_inj:
  assumes "a \<le> v" "v < a + N" "a \<le> w" "w < a + N" "v mod N = w mod (N::nat)"
  shows "v = w"
proof (rule ccontr)
  have *: False if "x < y" "y < x + N" "x mod N = y mod N" for x y :: nat
  proof -
    have "N dvd y - x" using that(1,3) by (metis less_imp_le mod_eq_dvd_iff_nat)
    then show False using that by (auto dest: dvd_imp_le)
  qed
  assume "v \<noteq> w"
  then consider "v < w" | "w < v" by linarith
  then show False using * [of v w] * [of w v] assms by cases auto
qed

section \<open>Flags\<close>

definition drv_written :: "u16 \<Rightarrow> bool \<Rightarrow> bool" where
  "drv_written f l \<longleftrightarrow> bit f 7 = l \<and> bit f 15 = (\<not> l)"

definition dev_written :: "u16 \<Rightarrow> bool \<Rightarrow> bool" where
  "dev_written f l \<longleftrightarrow> bit f 7 = l \<and> bit f 15 = l"

definition aflags :: "bool \<Rightarrow> u16" where
  "aflags l = (if l then push_bit VRING_PACKED_DESC_F_AVAIL 1 else push_bit VRING_PACKED_DESC_F_USED 1)"

lemma and_bit_16: "(f :: u16) AND push_bit n 1 \<noteq> 0 \<longleftrightarrow> bit f n"
proof -
  have "f AND push_bit n 1 \<noteq> 0 \<longleftrightarrow> (\<exists>m. bit f m \<and> bit (push_bit n 1 :: u16) m)"
    by (auto simp: bit_eq_iff bit_simps)
  then show ?thesis by (auto simp: bit_simps dest: bit_imp_le_length)
qed

lemma is_used_desc_ok:
  assumes "unat idx < length (pq_desc q)"
  shows "is_used_desc_packed q idx w = Some (dev_written (p_flags (pq_desc q ! unat idx)) w)"
  using assms
  unfolding is_used_desc_packed_def and_bit_16 Let_def VRING_PACKED_DESC_F_AVAIL_def VRING_PACKED_DESC_F_USED_def
  by (auto simp: dev_written_def)

lemma aflags_toggle: "aflags l XOR avail_used_mask = aflags (\<not> l)"
  by (simp add: aflags_def avail_used_mask_def packed_flag_defs)

lemma drv_written_flags:
  assumes "w = 0 \<or> w = VRING_DESC_F_WRITE" "x = 0 \<or> x = VRING_DESC_F_NEXT"
  shows "drv_written (aflags l OR w OR x) l" "drv_written (VRING_DESC_F_INDIRECT OR aflags l) l"
  using assms
  by (auto simp: drv_written_def aflags_def packed_flag_defs bit_simps)

lemma drv_not_dev: "drv_written f l \<Longrightarrow> \<not> dev_written f m"
  by (auto simp: drv_written_def dev_written_def)

section \<open>The invariant\<close>

definition snext :: "'a virtqueue_packed \<Rightarrow> nat \<Rightarrow> nat" where
  "snext q i = unat (st_next (desc_state q ! i))"

definition slot_flags :: "'a virtqueue_packed \<Rightarrow> nat \<Rightarrow> u16" where
  "slot_flags q v = p_flags (pq_desc q ! (v mod unat (pq_num q)))"

abbreviation ids_of :: "('a \<times> nat list) list \<Rightarrow> nat list" where
  "ids_of cs \<equiv> concat (map snd cs)"

text \<open>The ids: free ones and those of the requests in flight.\<close>
definition packed_ids :: "nat list \<Rightarrow> ('a \<times> nat list) list \<Rightarrow> 'a virtqueue_packed \<Rightarrow> bool" where
  "packed_ids fs cs q \<longleftrightarrow>
     0 < unat (pq_num q) \<and> unat (pq_num q) \<le> 32768 \<and>
     length (pq_desc q) = unat (pq_num q) \<and> length (desc_state q) = unat (pq_num q) \<and>
     distinct (fs @ ids_of cs) \<and> set (fs @ ids_of cs) = {..<unat (pq_num q)} \<and>
     unat (num_free q) = length fs \<and> unat (free_head q) < unat (pq_num q) \<and>
     (fs \<noteq> [] \<longrightarrow> unat (free_head q) = hd fs) \<and>
     (\<forall>i < unat (pq_num q). snext q i < unat (pq_num q)) \<and>
     linked (snext q) fs \<and>
     (\<forall>(t, c) \<in> set cs. c \<noteq> [] \<and> linked (snext q) c \<and> st_data (desc_state q ! hd c) = Some t \<and>
        unat (st_num (desc_state q ! hd c)) = length c \<and> unat (st_last (desc_state q ! hd c)) = last c) \<and>
     (\<forall>i < unat (pq_num q). i \<notin> hd ` snd ` set cs \<longrightarrow> st_data (desc_state q ! i) = None)"

text \<open>The ring: indices and wrap counters are those of the positions, and no slot of the last
  lap looks like one the device has just used.\<close>
definition packed_ring :: "nat \<Rightarrow> nat \<Rightarrow> 'a virtqueue_packed \<Rightarrow> bool" where
  "packed_ring U A q \<longleftrightarrow> (let N = unat (pq_num q) in
     N \<le> U \<and> U \<le> A \<and> A \<le> U + N \<and>
     unat (last_used_idx q) = U mod N \<and> used_wrap_counter q = lap N U \<and>
     unat (next_avail_idx q) = A mod N \<and> avail_used_flags q = aflags (lap N A) \<and>
     (\<forall>v. A - N \<le> v \<and> v < A \<longrightarrow> \<not> dev_written (slot_flags q v) (\<not> lap N v)))"

definition packed_inv :: "nat list \<Rightarrow> ('a \<times> nat list) list \<Rightarrow> nat \<Rightarrow> nat \<Rightarrow> 'a virtqueue_packed \<Rightarrow> bool" where
  "packed_inv fs cs U A q \<longleftrightarrow> packed_ids fs cs q \<and> packed_ring U A q \<and> A = U + length (ids_of cs)"

lemma packed_idsD:
  assumes "packed_ids fs cs q"
  shows "0 < unat (pq_num q)" "unat (pq_num q) \<le> 32768" "length (pq_desc q) = unat (pq_num q)"
    "length (desc_state q) = unat (pq_num q)" "distinct fs" "distinct (fs @ ids_of cs)"
    "set (fs @ ids_of cs) = {..<unat (pq_num q)}" "unat (num_free q) = length fs"
    "unat (free_head q) < unat (pq_num q)" "fs \<noteq> [] \<Longrightarrow> unat (free_head q) = hd fs"
    "\<And>i. i < unat (pq_num q) \<Longrightarrow> snext q i < unat (pq_num q)" "linked (snext q) fs"
  using assms by (auto simp: packed_ids_def)

lemma packed_ids_chain:
  assumes "packed_ids fs cs q" "(t, c) \<in> set cs"
  shows "c \<noteq> []" "linked (snext q) c" "st_data (desc_state q ! hd c) = Some t"
    "unat (st_num (desc_state q ! hd c)) = length c" "unat (st_last (desc_state q ! hd c)) = last c"
    "set c \<subseteq> {..<unat (pq_num q)}" "hd c < unat (pq_num q)" "set c \<inter> set fs = {}" "distinct c"
proof -
  show ne: "c \<noteq> []" and "linked (snext q) c" "st_data (desc_state q ! hd c) = Some t"
    "unat (st_num (desc_state q ! hd c)) = length c" "unat (st_last (desc_state q ! hd c)) = last c"
    using assms by (auto simp: packed_ids_def)
  have sub: "set c \<subseteq> set (ids_of cs)" using assms(2) by force
  with packed_idsD(7) [OF assms(1)] show c: "set c \<subseteq> {..<unat (pq_num q)}" by auto
  show "hd c < unat (pq_num q)" by (rule hd_less [OF ne c])
  show "set c \<inter> set fs = {}" using sub packed_idsD(6) [OF assms(1)] by auto
  have "distinct (ids_of cs)" using packed_idsD(6) [OF assms(1)] by simp
  then show "distinct c" using assms(2) by (auto simp: distinct_concat_iff image_iff)
qed

lemma packed_ids_count:
  assumes "packed_ids fs cs q"
  shows "length fs + length (ids_of cs) = unat (pq_num q)"
  using packed_idsD(6,7) [OF assms] distinct_card [of "fs @ ids_of cs"] by simp

lemma packed_more_used:
  assumes "packed_inv fs cs U A q"
  shows "more_used_packed q = Some (dev_written (slot_flags q U) (lap (unat (pq_num q)) U))"
proof -
  have i: "packed_ids fs cs q" and r: "packed_ring U A q" using assms by (auto simp: packed_inv_def)
  have "unat (last_used_idx q) = U mod unat (pq_num q)" "used_wrap_counter q = lap (unat (pq_num q)) U"
    using r by (auto simp: packed_ring_def Let_def)
  then show ?thesis
    using packed_idsD(1,3) [OF i] by (simp add: more_used_packed_def is_used_desc_ok slot_flags_def)
qed

end
