(* ===== verification/VirtioPackedOps.thy ===== *)
theory VirtioPackedOps
  imports VirtioPackedInv
begin

text \<open>
  What the operations of \<^verbatim>\<open>src/VirtIO/VirtIORing-Packed.c\<close> do under the invariant of
  \<^verbatim>\<open>VirtioPackedInv\<close>: adding a request, direct or indirect, fetching and detaching one,
  and creating the queue.
\<close>

section \<open>The invariant when a request is added\<close>

lemma packed_ids_take:
  assumes inv: "packed_ids (is @ fs) cs q" and ne: "is \<noteq> []"
    and sh: "pq_num q' = pq_num q" "length (pq_desc q') = length (pq_desc q)"
    and st: "desc_state q' = (desc_state q)[hd is := \<lparr>st_data = Some t, st_num = of_nat (length is),
               st_next = st_next (desc_state q ! hd is), st_last = of_nat (last is)\<rparr>]"
    and nf: "unat (num_free q') = length fs"
    and fh: "unat (free_head q') = snext q (last is)"
  shows "packed_ids fs ((t, is) # cs) q'"
proof -
  note I = packed_idsD [OF inv]
  have isN: "set is \<subseteq> {..<unat (pq_num q)}" using I(7) by auto
  have hd: "hd is < unat (pq_num q)" "last is < unat (pq_num q)" "hd is \<in> set is"
    using hd_less [OF ne isN] last_less [OF ne isN] ne by auto
  have nx: "snext q' = snext q"
    by (rule ext) (auto simp: snext_def st nth_list_update hd I(4))
  have cnt: "length is \<le> 32768" "last is < 65536"
    using packed_ids_count [OF inv] I(2) hd by auto
  have len: "unat (of_nat (length is) :: u16) = length is" "unat (of_nat (last is) :: u16) = last is"
    using cnt by (simp_all add: unat_of_nat_less)
  have dis: "hd c \<noteq> hd is" if "(u, c) \<in> set cs" for u c
  proof -
    note C = packed_ids_chain [OF inv that]
    have "hd c \<notin> set is" by (rule hd_notin [OF C(1)]) (use C(8) in auto)
    then show ?thesis using hd(3) by auto
  qed
  have cs: "c \<noteq> [] \<and> linked (snext q') c \<and> st_data (desc_state q' ! hd c) = Some u \<and>
        unat (st_num (desc_state q' ! hd c)) = length c \<and> unat (st_last (desc_state q' ! hd c)) = last c"
    if "(u, c) \<in> set ((t, is) # cs)" for u c
  proof (cases "(u, c) = (t, is)")
    case True
    then show ?thesis using ne nx I(12) len hd(1) I(4) by (auto simp: st linked_append)
  next
    case False
    with that have uc: "(u, c) \<in> set cs" by auto
    then show ?thesis using packed_ids_chain [OF inv uc] dis [OF uc] nx by (simp add: st)
  qed
  have none: "st_data (desc_state q' ! i) = None"
    if "i < unat (pq_num q)" "i \<notin> hd ` snd ` set ((t, is) # cs)" for i
    using inv that by (auto simp: packed_ids_def st)
  have fhd: "unat (free_head q') < unat (pq_num q)" using fh I(11) hd(2) by simp
  have fhd2: "unat (free_head q') = hd fs" if "fs \<noteq> []"
    using fh I(12) that ne by (simp add: linked_append)
  show ?thesis
    unfolding packed_ids_def
  proof (intro conjI)
    show "set (fs @ ids_of ((t, is) # cs)) = {..<unat (pq_num q')}" using I(7) sh(1) by auto
    show "distinct (fs @ ids_of ((t, is) # cs))" using I(6) by auto
    show "linked (snext q') fs" using I(12) nx by (simp add: linked_append)
    show "length (desc_state q') = unat (pq_num q')" using I(4) sh(1) st by simp
  qed (use sh I(1,2,3,11) nf fhd fhd2 nx none cs in auto)
qed

lemma slot_flags_same:
  assumes "pq_num q' = pq_num q" "pq_desc q' ! (v mod unat (pq_num q)) = pq_desc q ! (v mod unat (pq_num q))"
  shows "slot_flags q' v = slot_flags q v"
  using assms by (simp add: slot_flags_def)

lemma packed_ring_add:
  assumes r: "packed_ring U A q" and k: "A + k \<le> U + unat (pq_num q)" and N: "0 < unat (pq_num q)"
    and sh: "pq_num q' = pq_num q" "last_used_idx q' = last_used_idx q" "used_wrap_counter q' = used_wrap_counter q"
    and nx: "unat (next_avail_idx q') = (A + k) mod unat (pq_num q)"
    and fl: "avail_used_flags q' = aflags (lap (unat (pq_num q)) (A + k))"
    and new: "\<And>v. A \<le> v \<Longrightarrow> v < A + k \<Longrightarrow> drv_written (slot_flags q' v) (lap (unat (pq_num q)) v)"
    and old: "\<And>v. A + k - unat (pq_num q) \<le> v \<Longrightarrow> v < A \<Longrightarrow> slot_flags q' v = slot_flags q v"
  shows "packed_ring U (A + k) q'"
proof -
  let ?N = "unat (pq_num q)"
  have "\<not> dev_written (slot_flags q' v) (\<not> lap ?N v)" if "A + k - ?N \<le> v" "v < A + k" for v
  proof (cases "v < A")
    case True
    then show ?thesis using old [OF that(1) True] r that by (simp add: packed_ring_def Let_def)
  next
    case False
    then show ?thesis using new [of v] that drv_not_dev by auto
  qed
  then show ?thesis using r k sh nx fl N by (simp add: packed_ring_def Let_def)
qed

section \<open>Adding: the direct loop\<close>

text \<open>The descriptors of a direct request as the code leaves them, at ring positions from
  \<^verbatim>\<open>A\<close> on.\<close>
definition packed_desc_of ::
  "scatterlist list \<Rightarrow> u32 \<Rightarrow> nat \<Rightarrow> nat \<Rightarrow> u16 \<Rightarrow> nat \<Rightarrow> nat \<Rightarrow> vring_packed_desc" where
  "packed_desc_of sg out d N ident A j =
     \<lparr>p_addr = physAddr (sg ! j), p_len = sg_length (sg ! j), p_id = ident,
      p_flags = aflags (lap N (A + j)) OR (if j < unat out then 0 else VRING_DESC_F_WRITE)
                  OR (if j \<noteq> d - 1 then VRING_DESC_F_NEXT else 0)\<rparr>"

lemma packed_step_pos:
  assumes "0 < N" "N \<le> 32768" "unat (i :: u16) = v mod N" "unat (num :: u32) = N"
  shows "((ucast (i + 1) :: u32) \<ge> num) = (N \<le> v mod N + 1)"
    "unat (if (ucast (i + 1) :: u32) \<ge> num then 0 else i + 1) = Suc v mod N"
    "(if (ucast (i + 1) :: u32) \<ge> num then aflags (lap N v) XOR avail_used_mask else aflags (lap N v))
       = aflags (lap N (Suc v))"
proof -
  have "v mod N < N" using assms(1) by simp
  then have "Suc (v mod N) < 65536" using assms(2) by linarith
  then have u: "unat (i + 1) = v mod N + 1" using assms(3) by (simp add: unat_Suc_mod)
  then show w: "((ucast (i + 1) :: u32) \<ge> num) = (N \<le> v mod N + 1)"
    using assms(4) by (simp add: word_le_nat_alt unat_ucast_u16_u32)
  show "unat (if (ucast (i + 1) :: u32) \<ge> num then 0 else i + 1) = Suc v mod N"
    unfolding w using mod_add_le [of N 1 v] assms(1) u \<open>v mod N < N\<close> by auto
  show "(if (ucast (i + 1) :: u32) \<ge> num then aflags (lap N v) XOR avail_used_mask else aflags (lap N v))
       = aflags (lap N (Suc v))"
    unfolding w using lap_add [of N 1 v] assms(1) by (simp add: aflags_toggle)
qed

lemma add_loop_packed_ok:
  assumes "0 < N" "N \<le> 32768" "unat (pq_num q) = N" "length (pq_desc q) = N" "length (desc_state q) = N"
    and "unat i = (A + n) mod N" "avail_used_flags q = aflags (lap N (A + n))"
    and "n + k \<le> length sg" "unat du = d" "0 < d" "n + k \<le> N" "n + k = d"
    and "length is = k" "linked (snext q) is" "set is \<subseteq> {..<N}" "is \<noteq> [] \<Longrightarrow> unat cur = hd is"
  shows "\<exists>i' cur' prev' hf' ds'. add_loop_packed sg out du ident k n i cur prev hf q =
      Some (i', cur', prev', hf', q\<lparr>pq_desc := ds', avail_used_flags := aflags (lap N (A + n + k))\<rparr>) \<and>
    unat i' = (A + n + k) mod N \<and>
    (is = [] \<longrightarrow> cur' = cur \<and> prev' = prev) \<and>
    (is \<noteq> [] \<longrightarrow> unat cur' = snext q (last is) \<and> unat prev' = last is) \<and>
    hf' = (if n = 0 \<and> 0 < k then p_flags (packed_desc_of sg out d N ident A 0) else hf) \<and>
    length ds' = N \<and>
    (\<forall>x < N. (\<forall>j. n \<le> j \<and> j < n + k \<longrightarrow> x \<noteq> (A + j) mod N) \<longrightarrow> ds' ! x = pq_desc q ! x) \<and>
    (\<forall>j. n \<le> j \<and> j < n + k \<longrightarrow> ds' ! ((A + j) mod N) =
       (if j = 0 then (packed_desc_of sg out d N ident A 0)\<lparr>p_flags := p_flags (pq_desc q ! (A mod N))\<rparr>
        else packed_desc_of sg out d N ident A j))"
  using assms
proof (induction k arbitrary: n i cur prev hf q "is")
  case 0
  show ?case
    by (rule exI [of _ i], rule exI [of _ cur], rule exI [of _ prev], rule exI [of _ hf],
        rule exI [of _ "pq_desc q"]) (use 0 in auto)
next
  case (Suc k)
  note P = Suc.prems
  obtain x is' where "is": "is = x # is'" using P(13) by (cases "is") auto
  have x: "unat cur = x" "x < N" using P(15,16) "is" by auto
  let ?p = "(A + n) mod N"
  have p: "?p < N" using P(1) by simp
  have duw: "unat (du - 1) = d - 1" using P(9,10) by (intro trans [OF unat_minus_1]) auto
  let ?fl = "aflags (lap N (A + n)) OR (if n < unat out then 0 else VRING_DESC_F_WRITE)
      OR (if n \<noteq> d - 1 then VRING_DESC_F_NEXT else 0)"
  let ?d = "\<lparr>p_addr = physAddr (sg ! n), p_len = sg_length (sg ! n), p_id = ident,
      p_flags = (if n = 0 then p_flags (pq_desc q ! ?p) else ?fl)\<rparr>"
  let ?i = "if (ucast (i + 1) :: u32) \<ge> pq_num q then 0 else i + 1"
  let ?q = "q\<lparr>pq_desc := (pq_desc q)[?p := ?d], avail_used_flags := aflags (lap N (Suc (A + n)))\<rparr>"
  note step = packed_step_pos [OF P(1,2,6,3)]
  have upd: "d'\<lparr>p_addr := a, p_len := l, p_id := m, p_flags := f\<rparr> = \<lparr>p_addr = a, p_len = l, p_id = m, p_flags = f\<rparr>"
    for d' :: vring_packed_desc and a l m f by (cases d') simp
  have nsg: "n < length sg" using P(8) by simp
  have run: "add_loop_packed sg out du ident (Suc k) n i cur prev hf q =
     add_loop_packed sg out du ident k (Suc n) ?i (st_next (desc_state q ! x)) cur (if n = 0 then ?fl else hf) ?q"
    using P(4,5,6,7) x p nsg duw step(3)
    by (cases q) (auto simp: set_pdesc_def Let_def upd)
  have nxq: "snext ?q = snext q" by (rule ext) (simp add: snext_def)
  have "\<exists>i' cur' prev' hf' ds'. add_loop_packed sg out du ident k (Suc n) ?i (st_next (desc_state q ! x)) cur
        (if n = 0 then ?fl else hf) ?q =
      Some (i', cur', prev', hf', ?q\<lparr>pq_desc := ds', avail_used_flags := aflags (lap N (A + Suc n + k))\<rparr>) \<and>
    unat i' = (A + Suc n + k) mod N \<and>
    (is' = [] \<longrightarrow> cur' = st_next (desc_state q ! x) \<and> prev' = cur) \<and>
    (is' \<noteq> [] \<longrightarrow> unat cur' = snext ?q (last is') \<and> unat prev' = last is') \<and>
    hf' = (if Suc n = 0 \<and> 0 < k then p_flags (packed_desc_of sg out d N ident A 0) else (if n = 0 then ?fl else hf)) \<and>
    length ds' = N \<and>
    (\<forall>x < N. (\<forall>j. Suc n \<le> j \<and> j < Suc n + k \<longrightarrow> x \<noteq> (A + j) mod N) \<longrightarrow> ds' ! x = pq_desc ?q ! x) \<and>
    (\<forall>j. Suc n \<le> j \<and> j < Suc n + k \<longrightarrow> ds' ! ((A + j) mod N) =
       (if j = 0 then (packed_desc_of sg out d N ident A 0)\<lparr>p_flags := p_flags (pq_desc ?q ! (A mod N))\<rparr>
        else packed_desc_of sg out d N ident A j))"
  proof (rule Suc.IH)
    show "linked (snext ?q) is'" using P(14) "is" nxq by (simp add: linked_Cons)
    show "is' \<noteq> [] \<Longrightarrow> unat (st_next (desc_state q ! x)) = hd is'"
      using P(14) "is" by (simp add: linked_Cons snext_def)
    show "unat ?i = (A + Suc n) mod N" using step(2) by simp
  qed (use P "is" in simp_all)
  then obtain i' cur' prev' hf' ds' where R:
    "add_loop_packed sg out du ident k (Suc n) ?i (st_next (desc_state q ! x)) cur
        (if n = 0 then ?fl else hf) ?q =
      Some (i', cur', prev', hf', ?q\<lparr>pq_desc := ds', avail_used_flags := aflags (lap N (A + Suc n + k))\<rparr>)"
    "unat i' = (A + Suc n + k) mod N"
    "is' = [] \<longrightarrow> cur' = st_next (desc_state q ! x) \<and> prev' = cur"
    "is' \<noteq> [] \<longrightarrow> unat cur' = snext ?q (last is') \<and> unat prev' = last is'"
    "hf' = (if Suc n = 0 \<and> 0 < k then p_flags (packed_desc_of sg out d N ident A 0) else (if n = 0 then ?fl else hf))"
    "length ds' = N"
    "\<forall>x < N. (\<forall>j. Suc n \<le> j \<and> j < Suc n + k \<longrightarrow> x \<noteq> (A + j) mod N) \<longrightarrow> ds' ! x = pq_desc ?q ! x"
    "\<forall>j. Suc n \<le> j \<and> j < Suc n + k \<longrightarrow> ds' ! ((A + j) mod N) =
       (if j = 0 then (packed_desc_of sg out d N ident A 0)\<lparr>p_flags := p_flags (pq_desc ?q ! (A mod N))\<rparr>
        else packed_desc_of sg out d N ident A j)"
    by blast
  have ends: "unat cur' = snext q (last is)" "unat prev' = last is"
    using R(3,4) "is" x nxq by (cases "is' = []"; simp add: snext_def)+
  have other: "ds' ! y = pq_desc q ! y"
    if "y < N" "\<forall>j. n \<le> j \<and> j < n + Suc k \<longrightarrow> y \<noteq> (A + j) mod N" for y
  proof -
    have "y \<noteq> ?p" using that(2) by simp
    moreover have "\<forall>j. Suc n \<le> j \<and> j < Suc n + k \<longrightarrow> y \<noteq> (A + j) mod N" using that(2) by simp
    ultimately show ?thesis using R(7) that(1) by simp
  qed
  have at_n: "ds' ! ?p = ?d"
  proof -
    have "\<forall>j. Suc n \<le> j \<and> j < Suc n + k \<longrightarrow> ?p \<noteq> (A + j) mod N"
    proof (intro allI impI notI)
      fix j assume "Suc n \<le> j \<and> j < Suc n + k" "?p = (A + j) mod N"
      then show False using mod_window_inj [of "A + n" "A + n" N "A + j"] P(11) by simp
    qed
    then have "ds' ! ?p = pq_desc ?q ! ?p" using R(7) p by blast
    then show ?thesis using p P(4) by simp
  qed
  have new: "ds' ! ((A + j) mod N) =
       (if j = 0 then (packed_desc_of sg out d N ident A 0)\<lparr>p_flags := p_flags (pq_desc q ! (A mod N))\<rparr>
        else packed_desc_of sg out d N ident A j)" if "n \<le> j" "j < n + Suc k" for j
  proof (cases "j = n")
    case True
    then show ?thesis using at_n by (simp add: packed_desc_of_def)
  next
    case False
    then show ?thesis using R(8) that by simp
  qed
  have hf: "hf' = (if n = 0 \<and> 0 < Suc k then p_flags (packed_desc_of sg out d N ident A 0) else hf)"
    using R(5) by (simp add: packed_desc_of_def)
  show ?case
    by (rule exI [of _ i'], rule exI [of _ cur'], rule exI [of _ prev'], rule exI [of _ hf'],
        rule exI [of _ ds'], intro conjI)
       (use run R(1,2,6) ends other new hf "is" in \<open>simp_all add: add.assoc\<close>)
qed

section \<open>Adding a request\<close>

text \<open>What \<^verbatim>\<open>virtqueue_add_buf_packed\<close> leaves alone.\<close>
definition padd_frame :: "'a virtqueue_packed \<Rightarrow> 'a virtqueue_packed \<Rightarrow> bool" where
  "padd_frame q q' \<longleftrightarrow>
     q' = q\<lparr>num_added := num_added q', free_head := free_head q', num_free := num_free q',
       avail_used_flags := avail_used_flags q', avail_wrap_counter := avail_wrap_counter q',
       next_avail_idx := next_avail_idx q', pq_desc := pq_desc q', desc_state := desc_state q'\<rparr>"

lemma state_update_all:
  "s\<lparr>st_num := n, st_data := d, st_last := l\<rparr> = \<lparr>st_data = d, st_num = n, st_next = st_next s, st_last = l\<rparr>"
  by (cases s) simp

lemma packed_invD:
  assumes "packed_inv fs cs U A q"
  shows "packed_ids fs cs q" "packed_ring U A q" "A = U + length (ids_of cs)"
    "unat (last_used_idx q) = U mod unat (pq_num q)" "used_wrap_counter q = lap (unat (pq_num q)) U"
    "unat (next_avail_idx q) = A mod unat (pq_num q)" "avail_used_flags q = aflags (lap (unat (pq_num q)) A)"
    "unat (pq_num q) \<le> U" "A + length fs = U + unat (pq_num q)"
  using assms packed_ids_count [of fs cs q] by (auto simp: packed_inv_def packed_ring_def Let_def)

lemma add_buf_packed_direct:
  assumes inv: "packed_inv fs cs U A q" and n: "n = unat (out + in')" "0 < n" "n \<le> length fs" "n \<le> length sg"
  defines "N \<equiv> unat (pq_num q)"
  shows "\<exists>q'. virtqueue_add_buf_packed q sg out in' (Some t) None phys = Some (0, None, q') \<and>
    packed_inv (drop n fs) ((t, take n fs) # cs) U (A + n) q' \<and> padd_frame q q' \<and>
    (\<forall>j < n. pq_desc q' ! ((A + j) mod N) = packed_desc_of sg out n N (of_nat (hd fs)) A j) \<and>
    (\<forall>x < N. (\<forall>j < n. x \<noteq> (A + j) mod N) \<longrightarrow> pq_desc q' ! x = pq_desc q ! x) \<and>
    desc_state q' = (desc_state q)[hd fs := \<lparr>st_data = Some t, st_num = of_nat n,
       st_next = st_next (desc_state q ! hd fs), st_last = of_nat (fs ! (n - 1))\<rparr>] \<and>
    num_added q' = num_added q + of_nat n \<and>
    avail_wrap_counter q' = (if (A + n) mod N < A mod N then \<not> avail_wrap_counter q else avail_wrap_counter q)"
proof -
  note P = packed_invD [OF inv]
  note I = packed_idsD [OF P(1)]
  have fs: "fs \<noteq> []" using n by auto
  have sub: "set fs \<subseteq> {..<N}" using I(7) by (auto simp: N_def)
  let ?is = "take n fs" and ?id = "ucast (free_head q) :: u16"
  have isne: "?is \<noteq> []" "hd ?is = hd fs" "last ?is = fs ! (n - 1)" "length ?is = n"
    using n fs by (auto simp: last_conv_nth)
  have hdN: "hd fs < N" "last ?is < N"
    using hd_less [OF fs sub] last_less [OF isne(1)] sub set_take_subset [of n fs] by fastforce+
  have idn: "unat ?id = hd fs" "?id = of_nat (hd fs)"
  proof -
    have fh: "unat (free_head q) = hd fs" by (rule I(10) [OF fs])
    then show "unat ?id = hd fs" using hdN I(2) by (simp add: unat_ucast_u32_u16 N_def)
    then show "?id = of_nat (hd fs)" by (rule unat_eq_of_nat)
  qed
  have lk: "linked (snext q) ?is"
    using I(12) append_take_drop_id [of n fs] by (metis linked_append)
  have isN: "set ?is \<subseteq> {..<N}" using sub set_take_subset [of n fs] by blast
  have pr: "0 < N" "N \<le> 32768" "unat (pq_num q) = N" "length (pq_desc q) = N" "length (desc_state q) = N"
    "unat (next_avail_idx q) = (A + 0) mod N" "avail_used_flags q = aflags (lap N (A + 0))"
    "0 + n \<le> length sg" "unat (out + in') = n" "0 < n" "0 + n \<le> N" "0 + n = n"
    "length ?is = n" "linked (snext q) ?is" "set ?is \<subseteq> {..<N}" "unat ?id = hd ?is"
    using I(1,2,3,4) n P(6,7) isne lk idn(1) isN packed_ids_count [OF P(1)] by (simp_all add: N_def)
  obtain i' cur' prev' hf' ds' where L:
    "add_loop_packed sg out (out + in') ?id n 0 (next_avail_idx q) ?id 0 0 q =
      Some (i', cur', prev', hf', q\<lparr>pq_desc := ds', avail_used_flags := aflags (lap N (A + 0 + n))\<rparr>)"
    "unat i' = (A + 0 + n) mod N"
    "?is \<noteq> [] \<longrightarrow> unat cur' = snext q (last ?is) \<and> unat prev' = last ?is"
    "hf' = (if (0::nat) = 0 \<and> 0 < n then p_flags (packed_desc_of sg out n N ?id A 0) else 0)"
    "length ds' = N"
    "\<forall>x < N. (\<forall>j. 0 \<le> j \<and> j < 0 + n \<longrightarrow> x \<noteq> (A + j) mod N) \<longrightarrow> ds' ! x = pq_desc q ! x"
    "\<forall>j. 0 \<le> j \<and> j < 0 + n \<longrightarrow> ds' ! ((A + j) mod N) =
       (if j = 0 then (packed_desc_of sg out n N ?id A 0)\<lparr>p_flags := p_flags (pq_desc q ! (A mod N))\<rparr>
        else packed_desc_of sg out n N ?id A j)"
    using add_loop_packed_ok [OF pr, where out = out and ident = ?id and prev = 0 and hf = 0]
    by (elim exE conjE) (rule that; assumption)
  have A0: "A mod N < N" using I(1) by (simp add: N_def)
  have cur: "unat cur' = snext q (last ?is)" "unat prev' = last ?is" using L(3) isne by auto
  have prevw: "prev' = of_nat (fs ! (n - 1))" using cur(2) isne(3) by (metis unat_eq_of_nat)
  have nd: "ucast (out + in') = (of_nat n :: u16)" using n(1) by (simp add: word_eq_iff_unsigned)
  let ?D = "ds'[A mod N := (ds' ! (A mod N))\<lparr>p_flags := hf'\<rparr>]"
  let ?q' = "q\<lparr>pq_desc := ?D, avail_used_flags := aflags (lap N (A + n)),
     avail_wrap_counter := (if (A + n) mod N < A mod N then \<not> avail_wrap_counter q else avail_wrap_counter q),
     num_free := num_free q - (out + in'), next_avail_idx := i', free_head := ucast cur',
     desc_state := (desc_state q)[hd fs := \<lparr>st_data = Some t, st_num = of_nat n,
       st_next = st_next (desc_state q ! hd fs), st_last = of_nat (fs ! (n - 1))\<rparr>],
     num_added := num_added q + (out + in')\<rparr>"
  have "i' < next_avail_idx q \<longleftrightarrow> (A + n) mod N < A mod N"
    using L(2) P(6) by (simp add: word_less_nat_alt N_def)
  then have run: "add_direct_packed q sg out (out + in') (Some t) = Some ?q'"
    using L(1,5) A0 idn(1) hdN I(4) P(6) n(1) nd prevw
    by (cases q) (simp add: add_direct_packed_def set_state_def set_pdesc_def state_update_all N_def)
  have desc: "?D ! ((A + j) mod N) = packed_desc_of sg out n N (of_nat (hd fs)) A j" if "j < n" for j
  proof (cases "j = 0")
    case True
    have "ds' ! (A mod N) = (packed_desc_of sg out n N ?id A 0)\<lparr>p_flags := p_flags (pq_desc q ! (A mod N))\<rparr>"
      using L(7) [rule_format, of 0] n(2) by simp
    then show ?thesis using True L(4,5) n(2) A0 idn(2) by (simp add: packed_desc_of_def)
  next
    case False
    then have "(A + j) mod N \<noteq> A mod N"
      using mod_window_inj [of A "A + j" N A] that n(3) packed_ids_count [OF P(1)] by (auto simp: N_def)
    then show ?thesis using L(7) that False idn(2) by simp
  qed
  have other: "?D ! x = pq_desc q ! x" if "x < N" "\<forall>j < n. x \<noteq> (A + j) mod N" for x
  proof -
    have "x \<noteq> A mod N" using that(2) n(2) by (metis add_0_right)
    then show ?thesis using L(6) that by simp
  qed
  have nf: "unat (num_free q - (out + in')) = length fs - n"
    using I(8) n by (simp add: unat_sub word_le_nat_alt)
  have ids: "packed_ids (drop n fs) ((t, ?is) # cs) ?q'"
  proof (rule packed_ids_take [of ?is "drop n fs" cs q ?q' t])
    show "packed_ids (?is @ drop n fs) cs q" using P(1) by simp
    show "unat (free_head ?q') = snext q (last ?is)" using cur(1) by (simp add: unat_ucast_u16_u32)
  qed (use isne I(3) L(5) nf in \<open>auto simp: N_def\<close>)
  have ring: "packed_ring U (A + n) ?q'"
  proof (rule packed_ring_add [OF P(2)])
    show "drv_written (slot_flags ?q' v) (lap (unat (pq_num q)) v)" if "A \<le> v" "v < A + n" for v
    proof -
      obtain j where j: "v = A + j" "j < n" using \<open>A \<le> v\<close> \<open>v < A + n\<close>
        by (metis add_diff_inverse_nat less_diff_conv2 add.commute not_less)
      then have "slot_flags ?q' v = p_flags (packed_desc_of sg out n N (of_nat (hd fs)) A j)"
        using desc [OF j(2)] by (simp add: slot_flags_def N_def)
      then show ?thesis using drv_written_flags(1) j(1) by (simp add: packed_desc_of_def N_def)
    qed
    show "slot_flags ?q' v = slot_flags q v" if "A + n - unat (pq_num q) \<le> v" "v < A" for v
    proof (rule slot_flags_same)
      have "v mod N \<noteq> (A + j) mod N" if "j < n" for j
      proof
        assume "v mod N = (A + j) mod N"
        moreover have "A + j < v + N" using \<open>A + n - _ \<le> v\<close> that I(1) unfolding N_def by linarith
        ultimately show False using mod_window_inj [of v v N "A + j"] \<open>v < A\<close> by simp
      qed
      then have "\<forall>j < n. v mod N \<noteq> (A + j) mod N" by blast
      then show "pq_desc ?q' ! (v mod unat (pq_num q)) = pq_desc q ! (v mod unat (pq_num q))"
        using other [of "v mod N"] I(1) by (simp add: N_def)
    qed simp
  qed (use I(1) P(9) n L(2) in \<open>auto simp: N_def\<close>)
  have inv': "packed_inv (drop n fs) ((t, ?is) # cs) U (A + n) ?q'"
    using ids ring P(3) isne(4) by (simp add: packed_inv_def)
  have "\<not> num_free q < out + in'" "out + in' \<noteq> 0" "\<not> (ucast ?id :: u32) \<ge> pq_num q"
    using n I(8) hdN idn(1) by (auto simp: word_less_nat_alt word_le_nat_alt unat_ucast_u16_u32 N_def)
  then have "virtqueue_add_buf_packed q sg out in' (Some t) None phys = Some (0, None, ?q')"
    using run by (simp add: virtqueue_add_buf_packed_def Let_def)
  moreover have "padd_frame q ?q'" by (cases q) (simp add: padd_frame_def)
  ultimately show ?thesis
    using inv' desc other n(1) by (intro exI [of _ ?q']) auto
qed

lemma add_buf_packed_full:
  assumes "packed_inv fs cs U A q" "length fs < unat (out + in')" "va = None \<or> fs = []"
  shows "virtqueue_add_buf_packed q sg out in' tok va phys = Some (- ENOSPC, va, q)"
proof -
  note I = packed_idsD [OF packed_invD(1) [OF assms(1)]]
  have "unat (ucast (free_head q) :: u16) = unat (free_head q)"
    using I(2,9) by (simp add: unat_ucast_u32_u16)
  then have "out + in' \<noteq> 0" "\<not> (ucast (ucast (free_head q) :: u16) :: u32) \<ge> pq_num q"
    "num_free q < out + in'" "fs = [] \<longrightarrow> \<not> num_free q > 0"
    using assms(2) I(8,9) by (auto simp: word_less_nat_alt word_le_nat_alt unat_ucast_u16_u32)
  then show ?thesis using assms(3) by (auto simp: virtqueue_add_buf_packed_def Let_def)
qed

section \<open>Detaching and fetching\<close>

lemma detach_buf_packed_ok:
  assumes ids: "packed_ids fs cs q" and tc: "(t, c) \<in> set cs" and id: "unat ident = hd c"
  shows "\<exists>q'. detach_buf_packed q ident = Some q' \<and> packed_ids (c @ fs) (remove1 (t, c) cs) q' \<and>
    q' = q\<lparr>desc_state := desc_state q', free_head := ident, num_free := num_free q + of_nat (length c)\<rparr> \<and>
    (\<forall>i. st_num (desc_state q' ! i) = st_num (desc_state q ! i)) \<and>
    (\<forall>i. st_data (desc_state q' ! i) = (if i = hd c then None else st_data (desc_state q ! i)))"
proof -
  note I = packed_idsD [OF ids] and C = packed_ids_chain [OF ids tc]
  let ?N = "unat (pq_num q)" and ?S = "desc_state q"
  have last: "last c < ?N" "last c \<in> set c" using last_less [OF C(1,6)] C(1) by auto
  let ?S1 = "?S[hd c := (?S ! hd c)\<lparr>st_data := None\<rparr>]"
  let ?S2 = "?S1[last c := (?S1 ! last c)\<lparr>st_next := ucast (free_head q)\<rparr>]"
  let ?q' = "q\<lparr>desc_state := ?S2, free_head := ident, num_free := num_free q + of_nat (length c)\<rparr>"
  have num: "st_num (?S2 ! i) = st_num (?S ! i)" for i
    using C(7) last I(4) by (cases "i = last c"; cases "i = hd c") (auto simp: nth_list_update)
  have data: "st_data (?S2 ! i) = (if i = hd c then None else st_data (?S ! i))" for i
    using C(7) last I(4) by (cases "i = last c"; cases "i = hd c") (auto simp: nth_list_update)
  have lst: "st_last (?S2 ! i) = st_last (?S ! i)" for i
    using C(7) last I(4) by (cases "i = last c"; cases "i = hd c") (auto simp: nth_list_update)
  have fh: "unat (ucast (free_head q) :: u16) = unat (free_head q)"
    using I(2,9) by (simp add: unat_ucast_u32_u16)
  have nx: "snext ?q' i = (if i = last c then unat (free_head q) else snext q i)" for i
    using C(7) last I(4) fh by (cases "i = last c"; cases "i = hd c") (auto simp: nth_list_update snext_def)
  have lstw: "unat (st_last (?S1 ! hd c)) = last c" using C(5,7) I(4) by simp
  have numw: "ucast (st_num (?S ! hd c)) = (of_nat (length c) :: u32)"
    using C(4) by (metis unat_eq_of_nat unat_ucast_u16_u32)
  have run: "detach_buf_packed q ident = Some ?q'"
    using id C(7) last I(4) lstw num numw
    by (cases q) (simp add: detach_buf_packed_def set_state_def)
  let ?cs = "remove1 (t, c) cs"
  have ms: "mset (ids_of cs) = mset c + mset (ids_of ?cs)"
    using tc by (induction cs) (auto simp: ac_simps)
  have dis: "distinct (c @ ids_of ?cs)"
    using I(6) ms by (metis distinct_append mset_append mset_eq_imp_distinct_iff)
  have setms: "set (ids_of cs) = set c \<union> set (ids_of ?cs)"
    using ms by (metis set_mset_mset set_mset_union)
  have "snext ?q' i = snext q i" if "i \<in> set fs \<or> i \<in> set (butlast c)" for i
  proof -
    have "i \<noteq> last c"
      using that C(1,8,9) last(2) append_butlast_last_id [OF C(1)]
      by (metis disjoint_iff distinct_append list.set_intros(1))
    then show ?thesis by (simp add: nx)
  qed
  then have lk: "linked (snext ?q') fs" "linked (snext ?q') c"
    using I(12) C(2) linked_cong [of fs "snext ?q'" "snext q"] linked_cong_butlast [of c "snext ?q'" "snext q"]
    by auto
  have lnk: "linked (snext ?q') (c @ fs)" using lk I(10) nx by (auto simp: linked_append)
  have cs: "e \<noteq> [] \<and> linked (snext ?q') e \<and> st_data (desc_state ?q' ! hd e) = Some u \<and>
        unat (st_num (desc_state ?q' ! hd e)) = length e \<and> unat (st_last (desc_state ?q' ! hd e)) = last e"
    if ue: "(u, e) \<in> set ?cs" for u e
  proof -
    have ue': "(u, e) \<in> set cs" using ue by (meson notin_set_remove1)
    note E = packed_ids_chain [OF ids ue']
    have disj: "set e \<inter> set c = {}" using dis ue by force
    have "x \<noteq> last c" if "x \<in> set e" for x using that disj last(2) by auto
    then have "linked (snext ?q') e" using linked_cong [of e "snext ?q'" "snext q"] nx E(2) by auto
    moreover have "hd e \<notin> set c" using disj by (intro hd_notin [OF E(1)])
    then have "hd e \<noteq> hd c" using C(1) by auto
    ultimately show ?thesis using E num data lst by simp
  qed
  have none: "st_data (desc_state ?q' ! i) = None" if "i < ?N" "i \<notin> hd ` snd ` set ?cs" for i
  proof (cases "i = hd c")
    case True
    then show ?thesis using data by simp
  next
    case False
    have "p \<in> set ?cs" if "p \<in> set cs" "p \<noteq> (t, c)" for p using that by (simp add: in_set_remove1)
    then have "set cs \<subseteq> insert (t, c) (set ?cs)" by blast
    then have "i \<notin> hd ` snd ` set cs" using that(2) False by force
    then have "st_data (?S ! i) = None" using ids that(1) by (simp add: packed_ids_def)
    then show ?thesis using data by simp
  qed
  have nf: "unat (num_free ?q') = length (c @ fs)"
  proof -
    have "length c + length fs \<le> 32768"
      using packed_ids_count [OF ids] I(2) arg_cong [OF ms, of size] by simp
    then show ?thesis using I(8) by (simp add: unat_word_ariths unat_of_nat)
  qed
  have "packed_ids (c @ fs) ?cs ?q'"
    unfolding packed_ids_def
  proof (intro conjI)
    show "distinct ((c @ fs) @ ids_of ?cs)" using dis I(6) setms by auto
    show "set ((c @ fs) @ ids_of ?cs) = {..<unat (pq_num ?q')}" using I(7) setms by auto
    show "\<forall>i<unat (pq_num ?q'). snext ?q' i < unat (pq_num ?q')" using nx I(9,11) by simp
    show "length (desc_state ?q') = unat (pq_num ?q')" using I(4) by simp
    show "c @ fs \<noteq> [] \<longrightarrow> unat (free_head ?q') = hd (c @ fs)" using id C(1) by simp
    show "unat (free_head ?q') < unat (pq_num ?q')" using id C(7) by simp
    show "\<forall>(t, c)\<in>set ?cs. c \<noteq> [] \<and> linked (snext ?q') c \<and> st_data (desc_state ?q' ! hd c) = Some t \<and>
        unat (st_num (desc_state ?q' ! hd c)) = length c \<and> unat (st_last (desc_state ?q' ! hd c)) = last c"
      using cs by blast
  qed (use I(1,2,3) lnk none nf in simp_all)
  with run num data show ?thesis by (intro exI [of _ ?q']) (simp del: length_append)
qed

text \<open>What \<^verbatim>\<open>virtqueue_get_buf_packed\<close> leaves alone.\<close>
definition pget_frame :: "'a virtqueue_packed \<Rightarrow> 'a virtqueue_packed \<Rightarrow> bool" where
  "pget_frame q q' \<longleftrightarrow>
     q' = q\<lparr>desc_state := desc_state q', free_head := free_head q', num_free := num_free q',
       last_used_idx := last_used_idx q', used_wrap_counter := used_wrap_counter q',
       driver_event := driver_event q'\<rparr>"

lemma packed_ids_cong:
  assumes "packed_ids fs cs q" "pq_num q' = pq_num q" "length (pq_desc q') = length (pq_desc q)"
    "desc_state q' = desc_state q" "num_free q' = num_free q" "free_head q' = free_head q"
  shows "packed_ids fs cs q'"
proof -
  have "snext q' = snext q" by (rule ext) (simp add: snext_def assms)
  then show ?thesis using assms by (simp add: packed_ids_def)
qed

lemma packed_ring_advance:
  assumes "packed_ring U A q" "0 < unat (pq_num q)" "U + l \<le> A"
    and "pq_num q' = pq_num q" "pq_desc q' = pq_desc q" "next_avail_idx q' = next_avail_idx q"
    "avail_used_flags q' = avail_used_flags q"
    and "unat (last_used_idx q') = (U + l) mod unat (pq_num q)" "used_wrap_counter q' = lap (unat (pq_num q)) (U + l)"
  shows "packed_ring (U + l) A q'"
  using assms by (simp add: packed_ring_def slot_flags_def Let_def)

lemma get_buf_packed_none:
  assumes "packed_inv fs cs U A q" "\<not> dev_written (slot_flags q U) (lap (unat (pq_num q)) U)"
  shows "virtqueue_get_buf_packed q = Some (None, None, q)"
  using packed_more_used [OF assms(1)] assms(2) by (simp add: virtqueue_get_buf_packed_def)

lemma get_buf_packed_chain:
  assumes inv: "packed_inv fs cs U A q" and tc: "(t, c) \<in> set cs"
    and used: "dev_written (slot_flags q U) (lap (unat (pq_num q)) U)"
    and id: "unat (p_id (pq_desc q ! (U mod unat (pq_num q)))) = hd c"
  shows "\<exists>q'. virtqueue_get_buf_packed q = Some (Some t, Some (p_len (pq_desc q ! (U mod unat (pq_num q)))), q') \<and>
    packed_inv (c @ fs) (remove1 (t, c) cs) (U + length c) A q' \<and> pget_frame q q' \<and>
    (\<forall>i. st_data (desc_state q' ! i) = (if i = hd c then None else st_data (desc_state q ! i))) \<and>
    (\<forall>i. st_num (desc_state q' ! i) = st_num (desc_state q ! i))"
proof -
  note P = packed_invD [OF inv]
  note I = packed_idsD [OF P(1)] and C = packed_ids_chain [OF P(1) tc]
  let ?N = "unat (pq_num q)" and ?l = "length c"
  let ?d = "pq_desc q ! (U mod ?N)"
  have ident: "unat (ucast (p_id ?d) :: u32) = hd c" using id by (simp add: unat_ucast_u16_u32)
  have lt: "\<not> pq_num q \<le> ucast (p_id ?d)" using ident C(7) by (simp add: word_le_nat_alt)
  obtain q1 where q1: "detach_buf_packed q (ucast (p_id ?d)) = Some q1"
    "packed_ids (c @ fs) (remove1 (t, c) cs) q1"
    "q1 = q\<lparr>desc_state := desc_state q1, free_head := ucast (p_id ?d), num_free := num_free q + of_nat ?l\<rparr>"
    "\<forall>i. st_num (desc_state q1 ! i) = st_num (desc_state q ! i)"
    "\<forall>i. st_data (desc_state q1 ! i) = (if i = hd c then None else st_data (desc_state q ! i))"
    using detach_buf_packed_ok [OF P(1) tc ident] by blast
  have sel: "pq_num q1 = pq_num q" "pq_desc q1 = pq_desc q" "next_avail_idx q1 = next_avail_idx q"
    "avail_used_flags q1 = avail_used_flags q" "last_used_idx q1 = last_used_idx q"
    "used_wrap_counter q1 = used_wrap_counter q" "event_flags_shadow q1 = event_flags_shadow q"
    by (subst q1(3), simp)+
  have ls: "length (desc_state q1) = ?N" using packed_idsD(4) [OF q1(2)] sel by simp
  have lc: "?l \<le> ?N" "U + ?l \<le> A"
  proof -
    have "mset (ids_of cs) = mset c + mset (ids_of (remove1 (t, c) cs))"
      using tc by (induction cs) (auto simp: ac_simps)
    then have "?l \<le> length (ids_of cs)" by (metis size_mset size_union le_add1)
    then show "?l \<le> ?N" "U + ?l \<le> A" using packed_ids_count [OF P(1)] P(3) by auto
  qed
  let ?lu = "last_used_idx q + st_num (desc_state q ! hd c)"
  have "U mod ?N < ?N" using I(1) by simp
  then have lu: "unat ?lu = U mod ?N + ?l"
    using P(4) C(4) lc I(2) by (simp add: unat_word_ariths)
  let ?w = "(ucast ?lu :: u32) \<ge> pq_num q"
  have w: "?w \<longleftrightarrow> ?N \<le> U mod ?N + ?l" using lu by (simp add: word_le_nat_alt unat_ucast_u16_u32)
  let ?lu2 = "if ?w then ?lu - ucast (pq_num q) else ?lu"
  have lu2: "unat ?lu2 = (U + ?l) mod ?N"
  proof -
    have "unat (ucast (pq_num q) :: u16) = ?N" using I(2) by (simp add: unat_ucast_u32_u16)
    moreover have "?w \<Longrightarrow> unat (?lu - ucast (pq_num q)) = unat ?lu - unat (ucast (pq_num q) :: u16)"
      using w lu calculation by (intro unat_sub) (simp add: word_le_nat_alt)
    ultimately show ?thesis using mod_add_le [OF I(1) lc(1), of U] lu w by simp
  qed
  have wc: "(if ?w then \<not> used_wrap_counter q else used_wrap_counter q) = lap ?N (U + ?l)"
    using lap_add [OF I(1) lc(1), of U] P(5) w by simp
  let ?q2 = "if ?w then q1\<lparr>last_used_idx := ?lu - ucast (pq_num q), used_wrap_counter := \<not> used_wrap_counter q1\<rparr>
       else q1\<lparr>last_used_idx := ?lu\<rparr>"
  let ?q3 = "if event_flags_shadow ?q2 = VRING_PACKED_EVENT_FLAG_DESC
                 then ?q2\<lparr>driver_event := (driver_event ?q2)\<lparr>off_wrap := used_off_wrap ?q2\<rparr>\<rparr> else ?q2"
  have "virtqueue_get_buf_packed q = Some (Some t, Some (p_len ?d), ?q3)"
    using packed_more_used [OF inv] used P(4) I(1,3,4) lt C(3,7) ident id q1(1) ls q1(4) sel
    by (simp add: virtqueue_get_buf_packed_def Let_def)
  moreover have "packed_inv (c @ fs) (remove1 (t, c) cs) (U + ?l) A ?q3"
  proof -
    have "packed_ids (c @ fs) (remove1 (t, c) cs) ?q3"
      by (rule packed_ids_cong [OF q1(2)]) auto
    moreover have "packed_ring (U + ?l) A ?q3"
      by (rule packed_ring_advance [OF P(2) I(1) lc(2)]) (use sel lu2 wc in auto)
    moreover have "A = U + ?l + length (ids_of (remove1 (t, c) cs))"
      using P(3,9) packed_ids_count [OF q1(2)] sel by simp
    ultimately show ?thesis by (simp add: packed_inv_def)
  qed
  moreover have "pget_frame q ?q3"
    using q1(3) by (cases q; cases q1) (simp add: pget_frame_def)
  moreover have "desc_state ?q3 = desc_state q1" by simp
  ultimately show ?thesis using q1(4,5) by (intro exI [of _ ?q3]) simp
qed

lemma detach_scan_packed_ok:
  assumes ids: "packed_ids fs cs q" and k: "unat i + k = unat (pq_num q)"
    and none: "\<forall>j < unat i. st_data (desc_state q ! j) = None"
  shows "(cs = [] \<and> detach_scan_packed k i q = Some (None, q)) \<or>
    (\<exists>t c q'. (t, c) \<in> set cs \<and> detach_scan_packed k i q = Some (Some t, q') \<and>
       packed_ids (c @ fs) (remove1 (t, c) cs) q' \<and> (\<forall>(u, d) \<in> set cs. hd c \<le> hd d))"
  using k none
proof (induction k arbitrary: i)
  case 0
  have cs: "cs = []"
  proof (rule ccontr)
    assume "cs \<noteq> []"
    then obtain t c where "(t, c) \<in> set cs" by (cases cs) auto
    with packed_ids_chain(3,7) [OF ids this] 0 show False by auto
  qed
  then have "num_free q = pq_num q"
    using packed_ids_count [OF ids] packed_idsD(8) [OF ids] by (simp add: word_unat_eq_iff)
  with cs show ?case by simp
next
  case (Suc k)
  have lt: "unat i < unat (pq_num q)" using Suc.prems(1) by simp
  have su: "unat (i + 1) = Suc (unat i)"
    using lt packed_idsD(2) [OF ids] by (simp add: unat_Suc_mod)
  show ?case
  proof (cases "st_data (desc_state q ! unat i)")
    case None
    then have "\<forall>j < unat (i + 1). st_data (desc_state q ! j) = None"
      using Suc.prems(2) su by (auto simp: less_Suc_eq)
    then show ?thesis
      using Suc.IH [of "i + 1"] Suc.prems(1) su None lt packed_idsD(4) [OF ids] by simp
  next
    case (Some t)
    then have "unat i \<in> hd ` snd ` set cs" using ids lt by (auto simp: packed_ids_def)
    then obtain u c where c: "(u, c) \<in> set cs" "unat i = hd c" by auto
    then have ut: "u = t" using packed_ids_chain(3) [OF ids c(1)] Some by simp
    obtain q1 where q1: "detach_buf_packed q i = Some q1" "packed_ids (c @ fs) (remove1 (t, c) cs) q1"
      using detach_buf_packed_ok [OF ids c] ut by blast
    have "hd c \<le> hd d" if "(v, d) \<in> set cs" for v d
      using packed_ids_chain(3,7) [OF ids that] Suc.prems(2) c(2) by (metis not_less option.distinct(1))
    then show ?thesis using Some lt q1 c(1) ut packed_idsD(4) [OF ids] by auto
  qed
qed

section \<open>Indirect requests\<close>

lemma fill_indirect_packed_ok:
  assumes "unat du \<le> length sg" "unat du \<le> length page" "unat du < 65536" "unat i \<le> unat du"
  shows "\<exists>page'. fill_indirect_packed sg out du i page = Some page' \<and> length page' = length page \<and>
    (\<forall>j. unat i \<le> j \<and> j < unat du \<longrightarrow> p_addr (page' ! j) = physAddr (sg ! j) \<and>
        p_len (page' ! j) = sg_length (sg ! j) \<and>
        p_flags (page' ! j) = (if j < unat out then 0 else VRING_DESC_F_WRITE)) \<and>
    (\<forall>j. j < unat i \<or> unat du \<le> j \<longrightarrow> page' ! j = page ! j)"
  using assms
proof (induction "unat du - unat i" arbitrary: i page)
  case 0
  then have "\<not> (ucast i :: u32) < du" by (simp add: word_less_nat_alt unat_ucast_u16_u32)
  then show ?case using 0 by (subst fill_indirect_packed.simps) auto
next
  case (Suc m)
  have lt: "(ucast i :: u32) < du" "unat i < unat du"
    using Suc.hyps(2) by (simp_all add: word_less_nat_alt unat_ucast_u16_u32)
  have su: "unat (i + 1) = Suc (unat i)" using lt(2) Suc.prems(3) by (simp add: unat_Suc_mod)
  let ?p = "page[unat i := (page ! unat i)\<lparr>p_flags := (if (ucast i :: u32) < out then 0 else VRING_DESC_F_WRITE),
            p_addr := physAddr (sg ! unat i), p_len := sg_length (sg ! unat i)\<rparr>]"
  have st: "fill_indirect_packed sg out du i page = fill_indirect_packed sg out du (i + 1) ?p"
    using lt Suc.prems by (subst fill_indirect_packed.simps) simp
  have pm: "m = unat du - unat (i + 1)" "unat du \<le> length sg" "unat du \<le> length ?p" "unat du < 65536"
    "unat (i + 1) \<le> unat du"
    using Suc.hyps(2) Suc.prems su lt by simp_all
  obtain page' where R: "fill_indirect_packed sg out du (i + 1) ?p = Some page'" "length page' = length ?p"
    "\<forall>j. unat (i + 1) \<le> j \<and> j < unat du \<longrightarrow> p_addr (page' ! j) = physAddr (sg ! j) \<and>
        p_len (page' ! j) = sg_length (sg ! j) \<and>
        p_flags (page' ! j) = (if j < unat out then 0 else VRING_DESC_F_WRITE)"
    "\<forall>j. j < unat (i + 1) \<or> unat du \<le> j \<longrightarrow> page' ! j = ?p ! j"
    using Suc.hyps(1) [OF pm] by blast
  have "p_addr (page' ! j) = physAddr (sg ! j) \<and> p_len (page' ! j) = sg_length (sg ! j) \<and>
        p_flags (page' ! j) = (if j < unat out then 0 else VRING_DESC_F_WRITE)"
    if j: "unat i \<le> j" "j < unat du" for j
  proof (cases "j = unat i")
    case True
    then have "page' ! j = ?p ! j" using R(4) su by simp
    then show ?thesis using True Suc.prems(2) j
      by (simp add: word_less_nat_alt unat_ucast_u16_u32)
  next
    case False
    then show ?thesis using R(3) su j by simp
  qed
  moreover have "page' ! j = page ! j" if "j < unat i \<or> unat du \<le> j" for j
    using R(4) su that lt(2) by auto
  ultimately show ?case using st R(1,2) by auto
qed

lemma add_buf_packed_indirect:
  assumes inv: "packed_inv (x # fs) cs U A q" and n: "n = unat (out + in')" "0 < n" "n < 65536"
    "n \<le> length sg" "n \<le> length page"
  defines "N \<equiv> unat (pq_num q)"
  shows "\<exists>page' q'. virtqueue_add_buf_packed q sg out in' (Some t) (Some page) phys = Some (0, Some page', q') \<and>
    packed_inv fs ((t, [x]) # cs) U (A + 1) q' \<and> padd_frame q q' \<and>
    (\<forall>j < n. p_addr (page' ! j) = physAddr (sg ! j) \<and> p_len (page' ! j) = sg_length (sg ! j) \<and>
        p_flags (page' ! j) = (if j < unat out then 0 else VRING_DESC_F_WRITE)) \<and>
    pq_desc q' = (pq_desc q)[A mod N := \<lparr>p_addr = phys, p_len = (out + in') * 16, p_id = of_nat x,
       p_flags = VRING_DESC_F_INDIRECT OR aflags (lap N A)\<rparr>] \<and>
    num_added q' = num_added q + 1 \<and>
    avail_wrap_counter q' = (if N \<le> A mod N + 1 then \<not> avail_wrap_counter q else avail_wrap_counter q)"
proof -
  note P = packed_invD [OF inv]
  note I = packed_idsD [OF P(1)]
  have xN: "x < N" "unat (free_head q) = x" using I(7,10) by (auto simp: N_def)
  have idn: "unat (ucast (free_head q) :: u16) = x" using xN I(2) by (simp add: unat_ucast_u32_u16 N_def)
  have idw: "ucast (free_head q) = (of_nat x :: u16)" by (rule unat_eq_of_nat [OF idn])
  obtain page' where pg: "fill_indirect_packed sg out (out + in') 0 page = Some page'"
    "\<forall>j < n. p_addr (page' ! j) = physAddr (sg ! j) \<and> p_len (page' ! j) = sg_length (sg ! j) \<and>
        p_flags (page' ! j) = (if j < unat out then 0 else VRING_DESC_F_WRITE)"
    using fill_indirect_packed_ok [of "out + in'" sg page 0 out] n by auto
  have A0: "A mod N < N" using I(1) by (simp add: N_def)
  have "0 < N" "N \<le> 32768" "unat (next_avail_idx q) = A mod N" "unat (pq_num q) = N"
    using I(1,2) P(6) by (simp_all add: N_def)
  note step = packed_step_pos [OF this]
  let ?w = "(ucast (next_avail_idx q + 1) :: u32) \<ge> pq_num q"
  let ?d = "\<lparr>p_addr = phys, p_len = (out + in') * 16, p_id = of_nat x,
       p_flags = VRING_DESC_F_INDIRECT OR aflags (lap N A)\<rparr>"
  have upd: "d'\<lparr>p_addr := a, p_len := l, p_id := m, p_flags := f\<rparr> = \<lparr>p_addr = a, p_len = l, p_id = m, p_flags = f\<rparr>"
    for d' :: vring_packed_desc and a l m f by (cases d') simp
  let ?q' = "q\<lparr>pq_desc := (pq_desc q)[A mod N := ?d],
     avail_used_flags := aflags (lap N (Suc A)),
     avail_wrap_counter := (if ?w then \<not> avail_wrap_counter q else avail_wrap_counter q),
     next_avail_idx := (if ?w then 0 else next_avail_idx q + 1), num_free := num_free q - 1,
     num_added := num_added q + 1, free_head := ucast (st_next (desc_state q ! x)),
     desc_state := (desc_state q)[x := \<lparr>st_data = Some t, st_num = 1,
       st_next = st_next (desc_state q ! x), st_last = of_nat x\<rparr>]\<rparr>"
  have fl: "avail_used_flags q = aflags (lap N A)" using P(7) by (simp add: N_def)
  have run: "add_indirect_packed q sg out (out + in') (Some t) page phys = Some (page', ?q')"
    using pg(1) A0 xN idn idw I(3,4) P(6) step(3) fl
    by (cases "?w"; cases q) (simp_all add: add_indirect_packed_def set_pdesc_def set_state_def state_update_all upd N_def Let_def)
  have nf: "unat (num_free q - 1) = length fs"
    using I(8) by (subst unat_minus_1) auto
  have ids: "packed_ids fs ((t, [x]) # cs) ?q'"
  proof (rule packed_ids_take [of "[x]" fs cs q ?q' t])
    show "unat (free_head ?q') = snext q (last [x])" by (simp add: unat_ucast_u16_u32 snext_def)
  qed (use P(1) nf in auto)
  have ring: "packed_ring U (A + 1) ?q'"
  proof (rule packed_ring_add [OF P(2)])
    show "drv_written (slot_flags ?q' v) (lap (unat (pq_num q)) v)" if "A \<le> v" "v < A + 1" for v
    proof -
      have "v = A" using that by simp
      then show ?thesis
        using drv_written_flags(2) [of 0 0] A0 I(3) by (simp add: slot_flags_def N_def)
    qed
    show "slot_flags ?q' v = slot_flags q v" if "A + 1 - unat (pq_num q) \<le> v" "v < A" for v
    proof (rule slot_flags_same)
      have "A < v + N" using that I(1) unfolding N_def by linarith
      then have "v mod N \<noteq> A mod N"
        using mod_window_inj [of v v N A] that(2) by auto
      then show "pq_desc ?q' ! (v mod unat (pq_num q)) = pq_desc q ! (v mod unat (pq_num q))"
        by (simp add: N_def)
    qed simp
    show "unat (next_avail_idx ?q') = (A + 1) mod unat (pq_num q)" using step(2) by (simp add: N_def)
  qed (use I(1) P(9) in \<open>auto simp: N_def\<close>)
  have inv': "packed_inv fs ((t, [x]) # cs) U (A + 1) ?q'"
    using ids ring P(3) by (simp add: packed_inv_def)
  have "num_free q > 0" "out + in' \<noteq> 0" "\<not> (ucast (ucast (free_head q) :: u16) :: u32) \<ge> pq_num q"
    using n I(8) xN idn by (auto simp: word_less_nat_alt word_le_nat_alt unat_ucast_u16_u32 N_def)
  then have "virtqueue_add_buf_packed q sg out in' (Some t) (Some page) phys = Some (0, Some page', ?q')"
    using run by (simp add: virtqueue_add_buf_packed_def Let_def)
  moreover have "padd_frame q ?q'" by (cases q) (simp add: padd_frame_def)
  ultimately show ?thesis
    using inv' pg(2) step(1) by (intro exI [of _ page'] exI [of _ ?q']) auto
qed

section \<open>Creation\<close>

lemma vring_new_virtqueue_packed_ok:
  assumes "0 < unat num" "unat num \<le> 32768" "length ds = unat num"
    and "\<forall>d \<in> set ds. \<not> dev_written (p_flags d) True"
  shows "\<exists>q :: 'a virtqueue_packed. vring_new_virtqueue_packed index num align vdev pages ds drv dev = Some q \<and>
     packed_inv [0..<unat num] [] (unat num) (unat num) q \<and> avail_wrap_counter q \<and> num_added q = 0 \<and>
     pq_num q = num \<and> pq_desc q = ds \<and> event_flags_shadow q = 0"
proof -
  have g: "num \<noteq> 0" using assms(1) by auto
  obtain q :: "'a virtqueue_packed" where q: "vring_new_virtqueue_packed index num align vdev pages ds drv dev = Some q"
    using g by (simp add: vring_new_virtqueue_packed_def Let_def)
  have sel: "num_added q = 0" "free_head q = 0" "num_free q = num" "last_used_idx q = 0"
    "avail_used_flags q = push_bit VRING_PACKED_DESC_F_AVAIL 1" "avail_wrap_counter q" "used_wrap_counter q"
    "next_avail_idx q = 0" "event_flags_shadow q = 0" "pq_num q = num" "pq_desc q = ds" "desc_state q = fresh_state num"
    using q g by (auto simp: vring_new_virtqueue_packed_def Let_def)
  have nx: "snext q i = (if Suc i < unat num then Suc i else 0)" if "i < unat num" for i
    using that assms(2) unat_of_nat_less [of "Suc i", where 'a = 16]
    by (simp add: snext_def sel fresh_state_def)
  have lk: "linked (snext q) [0..<unat num]" by (rule linked_upt) (simp add: nx)
  have ids: "packed_ids [0..<unat num] [] q"
    unfolding packed_ids_def
    using assms lk nx by (auto simp: sel fresh_state_def)
  have "packed_ring (unat num) (unat num) q"
  proof -
    have "\<not> dev_written (slot_flags q v) (\<not> lap (unat num) v)" if "v < unat num" for v
      using assms(3,4) that by (auto simp: slot_flags_def sel lap_def)
    then show ?thesis using assms(1) by (simp add: packed_ring_def sel lap_def aflags_def Let_def)
  qed
  with ids q sel show ?thesis by (intro exI [of _ q]) (simp add: packed_inv_def)
qed

end
