(* ===== verification/VirtioPci.thy ===== *)
theory VirtioPci
  imports VirtioSplitOps VirtioPackedOps
begin

text \<open>
  The transport below the rings: \<^verbatim>\<open>src/VirtIO/VirtIOPCIModern.c\<close> (the capabilities in
  configuration space, the registers of the common configuration, the creation and deletion of a
  queue) and \<^verbatim>\<open>src/VirtIO/VirtIOPCICommon.c\<close> (status, features, configuration, the set of
  queues).  The machine below the driver (registers, configuration space, allocator) is the
  parameter \<open>machine\<close>; the state carries its condition and the blocks of memory the driver holds.
\<close>

unbundle bit_operations_syntax

section \<open>State\<close>

text \<open>The fields of \<^verbatim>\<open>virtio_pci_common_cfg\<close>.\<close>
datatype reg = DeviceFeatureSelect | DeviceFeature | GuestFeatureSelect | GuestFeature
  | MsixConfig | NumQueues | DeviceStatus | ConfigGeneration
  | QueueSelect | QueueSize | QueueMsixVector | QueueEnable | QueueNotifyOff
  | QueueDescLo | QueueDescHi | QueueAvailLo | QueueAvailHi | QueueUsedLo | QueueUsedHi

text \<open>What the driver is given: \<^verbatim>\<open>VirtIOSystemOps\<close> over a machine whose condition is of type \<open>'d\<close>,
  and the sizes the compiler gives three structures.  A failed access of the configuration space is
  \<^verbatim>\<open>None\<close>, a failed allocation or mapping 0; an allocation is given the addresses the driver holds.\<close>
record 'd machine =
  read_reg :: "reg \<Rightarrow> 'd \<Rightarrow> u32 \<times> 'd"
  write_reg :: "reg \<Rightarrow> u32 \<Rightarrow> 'd \<Rightarrow> 'd"
  read_conf :: "u64 \<Rightarrow> nat \<Rightarrow> 'd \<Rightarrow> u32 \<times> 'd"
  write_conf :: "u64 \<Rightarrow> nat \<Rightarrow> u32 \<Rightarrow> 'd \<Rightarrow> 'd"
  cfg_byte :: "nat \<Rightarrow> 'd \<Rightarrow> u8 option"
  cfg_word :: "nat \<Rightarrow> 'd \<Rightarrow> u16 option"
  cfg_dword :: "nat \<Rightarrow> 'd \<Rightarrow> u32 option"
  res_len :: "nat \<Rightarrow> u64"
  map_range :: "nat \<Rightarrow> u64 \<Rightarrow> u64 \<Rightarrow> u64"
  msix_vector :: "nat option \<Rightarrow> u16"
  take_pages :: "u64 \<Rightarrow> u64 set \<Rightarrow> 'd \<Rightarrow> u64 \<times> 'd"
  take_block :: "u64 \<Rightarrow> u64 set \<Rightarrow> 'd \<Rightarrow> u64 \<times> 'd"
  phys_of :: "u64 \<Rightarrow> u64"
  sleep :: "'d \<Rightarrow> 'd"
  sizeof_split :: u32
  sizeof_packed :: u32
  sizeof_state :: u32

datatype 'a any_ring = SplitRing "'a virtqueue_split" | PackedRing "'a virtqueue_packed"

text \<open>A queue: its control block, its ring, and where it is notified.\<close>
record 'a vq_handle =
  vq_block :: u64
  vq_index :: u32
  vq_ring :: "'a any_ring"
  notification_addr :: u64

record 'a queue_info =
  qi_vq :: "'a vq_handle option"
  qi_num :: u16
  qi_queue :: u64

text \<open>\<^verbatim>\<open>VirtIODevice\<close>; \<open>info_block\<close> is the block of an enlarged table of queues, 0 for the inline one.\<close>
record ('d, 'a) vdev =
  vd_world :: 'd
  vd_msix_used :: bool
  vd_event_suppression :: bool
  vd_packed_ring :: bool
  vd_modern :: bool
  vd_isr :: u64
  vd_common :: u64
  vd_config :: u64
  vd_config_len :: u64
  vd_notify_base :: u64
  vd_notify_len :: u64
  vd_notify_map_cap :: nat
  vd_notify_multiplier :: u32
  vd_max_queues :: nat
  vd_info :: "'a queue_info list"
  vd_info_block :: u64
  vd_pages :: "u64 set"
  vd_blocks :: "u64 set"

definition VIRTIO_MSI_NO_VECTOR :: u16 where "VIRTIO_MSI_NO_VECTOR = 0xFFFF"
definition MAX_QUEUES_PER_DEVICE_DEFAULT :: nat where "MAX_QUEUES_PER_DEVICE_DEFAULT = 8"
definition PCI_TYPE0_ADDRESSES :: u8 where "PCI_TYPE0_ADDRESSES = 6"
definition PCI_CAPABILITY_ID_VENDOR_SPECIFIC :: u8 where "PCI_CAPABILITY_ID_VENDOR_SPECIFIC = 9"
definition VIRTIO_PCI_CAP_COMMON_CFG :: nat where "VIRTIO_PCI_CAP_COMMON_CFG = 1"
definition VIRTIO_PCI_CAP_NOTIFY_CFG :: nat where "VIRTIO_PCI_CAP_NOTIFY_CFG = 2"
definition VIRTIO_PCI_CAP_ISR_CFG :: nat where "VIRTIO_PCI_CAP_ISR_CFG = 3"
definition VIRTIO_PCI_CAP_DEVICE_CFG :: nat where "VIRTIO_PCI_CAP_DEVICE_CFG = 4"
definition VIRTIO_PCI_CAP_PCI_CFG :: nat where "VIRTIO_PCI_CAP_PCI_CFG = 5"
definition VIRTIO_CONFIG_S_ACKNOWLEDGE :: u8 where "VIRTIO_CONFIG_S_ACKNOWLEDGE = 1"
definition VIRTIO_CONFIG_S_DRIVER :: u8 where "VIRTIO_CONFIG_S_DRIVER = 2"
definition VIRTIO_CONFIG_S_DRIVER_OK :: u8 where "VIRTIO_CONFIG_S_DRIVER_OK = 4"
definition VIRTIO_CONFIG_S_FEATURES_OK :: u8 where "VIRTIO_CONFIG_S_FEATURES_OK = 8"
definition VIRTIO_CONFIG_S_FAILED :: u8 where "VIRTIO_CONFIG_S_FAILED = 0x80"
definition VIRTIO_F_RING_PACKED :: nat where "VIRTIO_F_RING_PACKED = 34"
definition VIRTIO_F_ACCESS_PLATFORM :: nat where "VIRTIO_F_ACCESS_PLATFORM = 33"

lemmas status_bits = VIRTIO_CONFIG_S_ACKNOWLEDGE_def VIRTIO_CONFIG_S_DRIVER_def VIRTIO_CONFIG_S_DRIVER_OK_def
  VIRTIO_CONFIG_S_FEATURES_OK_def VIRTIO_CONFIG_S_FAILED_def

datatype vstatus = VSuccess | VNotFound | VInvalidParameter | VInsufficientResources | VDeviceBusy
  | VNotConnected | VUnsuccessful

section \<open>Registers\<close>

definition ioread :: "'d machine \<Rightarrow> reg \<Rightarrow> ('d, 'a) vdev \<Rightarrow> u32 \<times> ('d, 'a) vdev" where
  "ioread M r v = (case read_reg M r (vd_world v) of (x, d) \<Rightarrow> (x, v\<lparr>vd_world := d\<rparr>))"

definition iowrite :: "'d machine \<Rightarrow> reg \<Rightarrow> u32 \<Rightarrow> ('d, 'a) vdev \<Rightarrow> ('d, 'a) vdev" where
  "iowrite M r x v = v\<lparr>vd_world := write_reg M r x (vd_world v)\<rparr>"

definition iowrite64_twopart :: "'d machine \<Rightarrow> u64 \<Rightarrow> reg \<Rightarrow> reg \<Rightarrow> ('d, 'a) vdev \<Rightarrow> ('d, 'a) vdev" where
  "iowrite64_twopart M x lo hi v = iowrite M hi (ucast (drop_bit 32 x)) (iowrite M lo (ucast x) v)"

definition get_status :: "'d machine \<Rightarrow> ('d, 'a) vdev \<Rightarrow> u8 \<times> ('d, 'a) vdev" where
  "get_status M v = (case ioread M DeviceStatus v of (x, v1) \<Rightarrow> (ucast x, v1))"

definition set_status :: "'d machine \<Rightarrow> u8 \<Rightarrow> ('d, 'a) vdev \<Rightarrow> ('d, 'a) vdev" where
  "set_status M s v = iowrite M DeviceStatus (ucast s) v"

definition virtio_add_status :: "'d machine \<Rightarrow> u8 \<Rightarrow> ('d, 'a) vdev \<Rightarrow> ('d, 'a) vdev" where
  "virtio_add_status M s v = (case get_status M v of (x, v1) \<Rightarrow> set_status M (x OR s) v1)"

definition virtio_device_ready :: "'d machine \<Rightarrow> ('d, 'a) vdev \<Rightarrow> ('d, 'a) vdev" where
  "virtio_device_ready M v = (case get_status M v of (x, v1) \<Rightarrow> set_status M (x OR VIRTIO_CONFIG_S_DRIVER_OK) v1)"

text \<open>The wait for the end of a reset; a device that is gone reads as all ones.\<close>
partial_function (option) reset_wait :: "'d machine \<Rightarrow> ('d, 'a) vdev \<Rightarrow> ('d, 'a) vdev option" where
  "reset_wait M v = (case get_status M v of (x, v1) \<Rightarrow>
     if x = 0 then Some v1
     else case cfg_word M 0 (vd_world v1) of
       None \<Rightarrow> Some v1
     | Some val \<Rightarrow> if val = 0xFFFF then Some v1
         else reset_wait M (v1\<lparr>vd_world := sleep M (vd_world v1)\<rparr>))"

definition vio_modern_reset :: "'d machine \<Rightarrow> ('d, 'a) vdev \<Rightarrow> ('d, 'a) vdev option" where
  "vio_modern_reset M v = reset_wait M (set_status M 0 v)"

definition vio_modern_get_features :: "'d machine \<Rightarrow> ('d, 'a) vdev \<Rightarrow> u64 \<times> ('d, 'a) vdev" where
  "vio_modern_get_features M v0 =
     (let (lo, v1) = ioread M DeviceFeature (iowrite M DeviceFeatureSelect 0 v0);
          (hi, v2) = ioread M DeviceFeature (iowrite M DeviceFeatureSelect 1 v1) in
      (ucast lo OR push_bit 32 (ucast hi), v2))"

definition vio_modern_set_features :: "'d machine \<Rightarrow> u64 \<Rightarrow> ('d, 'a) vdev \<Rightarrow> vstatus \<times> ('d, 'a) vdev" where
  "vio_modern_set_features M features0 v0 =
     (let features = vring_transport_features features0 in
      if \<not> virtio_is_feature_enabled features VIRTIO_F_VERSION_1 then (VInvalidParameter, v0)
      else
        let v1 = iowrite M GuestFeature (ucast features) (iowrite M GuestFeatureSelect 0 v0);
            v2 = iowrite M GuestFeature (ucast (drop_bit 32 features)) (iowrite M GuestFeatureSelect 1 v1) in
        (VSuccess, v2))"

definition virtio_set_features :: "'d machine \<Rightarrow> u64 \<Rightarrow> ('d, 'a) vdev \<Rightarrow> vstatus \<times> ('d, 'a) vdev" where
  "virtio_set_features M features v0 =
     (let v1 = v0\<lparr>vd_event_suppression := virtio_is_feature_enabled features VIRTIO_RING_F_EVENT_IDX,
            vd_packed_ring := virtio_is_feature_enabled features VIRTIO_F_RING_PACKED\<rparr>;
          (st, v2) = vio_modern_set_features M features v1 in
      if st \<noteq> VSuccess then (st, v2)
      else if \<not> virtio_is_feature_enabled features VIRTIO_F_VERSION_1 then (st, v2)
      else
        let (s, v3) = get_status M (virtio_add_status M VIRTIO_CONFIG_S_FEATURES_OK v2) in
        (if s AND VIRTIO_CONFIG_S_FEATURES_OK = 0 then VInvalidParameter else st, v3))"

definition vio_modern_set_config_vector :: "'d machine \<Rightarrow> u16 \<Rightarrow> ('d, 'a) vdev \<Rightarrow> u16 \<times> ('d, 'a) vdev" where
  "vio_modern_set_config_vector M vec v =
     (case ioread M MsixConfig (iowrite M MsixConfig (ucast vec) v) of (x, v1) \<Rightarrow> (ucast x, v1))"

definition vio_modern_set_queue_vector :: "'d machine \<Rightarrow> u32 \<Rightarrow> u16 \<Rightarrow> ('d, 'a) vdev \<Rightarrow> u16 \<times> ('d, 'a) vdev" where
  "vio_modern_set_queue_vector M index vec v =
     (let v1 = iowrite M QueueSelect (ucast (ucast index :: u16)) v in
      case ioread M QueueMsixVector (iowrite M QueueMsixVector (ucast vec) v1) of (x, v2) \<Rightarrow> (ucast x, v2))"

section \<open>Configuration space of the device\<close>

text \<open>A single access of 1, 2 or 4 bytes; others, and those outside, leave the buffer as it is.  The value is the
  little-endian number.\<close>
definition vio_modern_get_config :: "'d machine \<Rightarrow> u32 \<Rightarrow> nat \<Rightarrow> u32 \<Rightarrow> ('d, 'a) vdev \<Rightarrow> u32 \<times> ('d, 'a) vdev" where
  "vio_modern_get_config M offset len buf v =
     (if vd_config v = 0 \<or> vd_config_len v < ucast (offset + of_nat len) then (buf, v)
      else if len = 1 \<or> len = 2 \<or> len = 4
        then (case read_conf M (vd_config v + ucast offset) len (vd_world v) of (x, d) \<Rightarrow> (x, v\<lparr>vd_world := d\<rparr>))
      else (buf, v))"

definition vio_modern_set_config :: "'d machine \<Rightarrow> u32 \<Rightarrow> nat \<Rightarrow> u32 \<Rightarrow> ('d, 'a) vdev \<Rightarrow> ('d, 'a) vdev" where
  "vio_modern_set_config M offset len x v =
     (if vd_config v = 0 \<or> vd_config_len v < ucast (offset + of_nat len) then v
      else if len = 1 \<or> len = 2 \<or> len = 4
        then v\<lparr>vd_world := write_conf M (vd_config v + ucast offset) len x (vd_world v)\<rparr>
      else v)"

definition vio_modern_get_generation :: "'d machine \<Rightarrow> ('d, 'a) vdev \<Rightarrow> u32 \<times> ('d, 'a) vdev" where
  "vio_modern_get_generation M v = (case ioread M ConfigGeneration v of (x, v1) \<Rightarrow> (ucast (ucast x :: u8), v1))"

text \<open>One pass over \<^verbatim>\<open>count\<close> fields of \<^verbatim>\<open>bytes\<close> bytes.\<close>
fun read_fields :: "'d machine \<Rightarrow> u32 \<Rightarrow> nat \<Rightarrow> nat \<Rightarrow> u32 list \<Rightarrow> ('d, 'a) vdev \<Rightarrow> u32 list \<times> ('d, 'a) vdev" where
  "read_fields M offset bytes i [] v = ([], v)"
| "read_fields M offset bytes i (b # bs) v =
     (let (x, v1) = vio_modern_get_config M (offset + of_nat (bytes * i)) bytes b v;
          (xs, v2) = read_fields M offset bytes (Suc i) bs v1 in (x # xs, v2))"

partial_function (option) cread_loop ::
  "'d machine \<Rightarrow> u32 \<Rightarrow> nat \<Rightarrow> u32 \<Rightarrow> u32 list \<Rightarrow> ('d, 'a) vdev \<Rightarrow> (u32 list \<times> ('d, 'a) vdev) option" where
  "cread_loop M offset bytes gen buf v =
     (let (xs, v1) = read_fields M offset bytes 0 buf v;
          (g, v2) = vio_modern_get_generation M v1 in
      if g = gen then Some (xs, v2) else cread_loop M offset bytes g xs v2)"

definition virtio_cread_many ::
  "'d machine \<Rightarrow> u32 \<Rightarrow> u32 list \<Rightarrow> nat \<Rightarrow> ('d, 'a) vdev \<Rightarrow> (u32 list \<times> ('d, 'a) vdev) option" where
  "virtio_cread_many M offset buf bytes v =
     (case vio_modern_get_generation M v of (gen, v1) \<Rightarrow> cread_loop M offset bytes gen buf v1)"

text \<open>The buffer of \<^verbatim>\<open>len\<close> bytes as the fields it is read in: one of its length, two of 4, or its bytes.\<close>
definition virtio_get_config ::
  "'d machine \<Rightarrow> u32 \<Rightarrow> u32 list \<Rightarrow> nat \<Rightarrow> ('d, 'a) vdev \<Rightarrow> (u32 list \<times> ('d, 'a) vdev) option" where
  "virtio_get_config M offset buf len v =
     (if len = 1 \<or> len = 2 \<or> len = 4
      then (case vio_modern_get_config M offset len (hd buf) v of (x, v1) \<Rightarrow> Some ([x], v1))
      else if len = 8 then virtio_cread_many M offset (take 2 buf) 4 v
      else virtio_cread_many M offset (take len buf) 1 v)"

fun write_fields :: "'d machine \<Rightarrow> u32 \<Rightarrow> nat \<Rightarrow> nat \<Rightarrow> u32 list \<Rightarrow> ('d, 'a) vdev \<Rightarrow> ('d, 'a) vdev" where
  "write_fields M offset bytes i [] v = v"
| "write_fields M offset bytes i (b # bs) v =
     write_fields M offset bytes (Suc i) bs (vio_modern_set_config M (offset + of_nat (bytes * i)) bytes b v)"

definition virtio_set_config :: "'d machine \<Rightarrow> u32 \<Rightarrow> u32 list \<Rightarrow> nat \<Rightarrow> ('d, 'a) vdev \<Rightarrow> ('d, 'a) vdev" where
  "virtio_set_config M offset buf len v =
     (if len = 1 \<or> len = 2 \<or> len = 4 then vio_modern_set_config M offset len (hd buf) v
      else if len = 8 then write_fields M offset 4 0 (take 2 buf) v
      else write_fields M offset 1 0 (take len buf) v)"

section \<open>The capabilities\<close>

text \<open>The loop of \<^verbatim>\<open>find_next_pci_vendor_capability\<close>, with the turns left.\<close>
fun next_cap_loop :: "'d machine \<Rightarrow> 'd \<Rightarrow> nat \<Rightarrow> u8 \<Rightarrow> u8" where
  "next_cap_loop M d 0 offset = 0"
| "next_cap_loop M d (Suc k) offset =
     (if offset < 0x40 then 0
      else let o' = offset AND NOT 3 in
      case cfg_byte M (unat o') d of
        None \<Rightarrow> 0
      | Some ident \<Rightarrow>
          if ident = 0xFF then 0
          else if ident = PCI_CAPABILITY_ID_VENDOR_SPECIFIC then o'
          else case cfg_byte M (unat o' + 1) d of None \<Rightarrow> 0 | Some nxt \<Rightarrow> next_cap_loop M d k nxt)"

definition find_next_pci_vendor_capability :: "'d machine \<Rightarrow> 'd \<Rightarrow> u8 \<Rightarrow> u8" where
  "find_next_pci_vendor_capability M d offset = (case cfg_byte M (unat offset) d of
     None \<Rightarrow> 0 | Some offset' \<Rightarrow> next_cap_loop M d 48 offset')"

text \<open>The offsets of the standard header: its type, the status, and the pointers of the three types.\<close>
definition find_first_pci_vendor_capability :: "'d machine \<Rightarrow> 'd \<Rightarrow> u8" where
  "find_first_pci_vendor_capability M d = (case cfg_byte M 0x0E d of
     None \<Rightarrow> 0
   | Some hdr_type \<Rightarrow> case cfg_word M 0x06 d of
       None \<Rightarrow> 0
     | Some status \<Rightarrow>
         if status AND 0x10 = 0 then 0
         else find_next_pci_vendor_capability M d (if hdr_type AND NOT 0x80 = 2 then 0x14 else 0x34))"

text \<open>A failed read leaves the local variable without a value.\<close>
definition record_capability :: "'d machine \<Rightarrow> 'd \<Rightarrow> u8 \<Rightarrow> nat list \<Rightarrow> nat list option" where
  "record_capability M d offset caps = do {
     cfg_type \<leftarrow> cfg_byte M (unat offset + 3) d;
     bar \<leftarrow> cfg_byte M (unat offset + 4) d;
     Some (if bar < PCI_TYPE0_ADDRESSES \<and> unat cfg_type < length caps \<and> 0 < res_len M (unat bar)
           then caps[unat cfg_type := unat offset] else caps) }"

definition next_capability :: "'d machine \<Rightarrow> 'd \<Rightarrow> u8 \<Rightarrow> u8" where
  "next_capability M d offset = find_next_pci_vendor_capability M d (offset + 1)"

partial_function (option) capability_loop :: "'d machine \<Rightarrow> 'd \<Rightarrow> u8 \<Rightarrow> nat list \<Rightarrow> nat list option" where
  "capability_loop M d offset caps =
     (if 0 < offset then do {
        caps' \<leftarrow> record_capability M d offset caps;
        capability_loop M d (next_capability M d offset) caps' }
      else Some caps)"

definition find_pci_vendor_capabilities :: "'d machine \<Rightarrow> 'd \<Rightarrow> nat list \<Rightarrow> nat list option" where
  "find_pci_vendor_capabilities M d caps = capability_loop M d (find_first_pci_vendor_capability M d) caps"

text \<open>The address, 0 when refused, and the length reported if the code got that far.\<close>
definition vio_modern_map_capability ::
  "'d machine \<Rightarrow> 'd \<Rightarrow> nat \<Rightarrow> u64 \<Rightarrow> u32 \<Rightarrow> u32 \<Rightarrow> u32 \<Rightarrow> (u64 \<times> u32 option) option" where
  "vio_modern_map_capability M d cap minlen alignment start sz = do {
     bar \<leftarrow> cfg_byte M (cap + 4) d;
     if PCI_TYPE0_ADDRESSES \<le> bar then Some (0, None)
     else do {
       bar_offset0 \<leftarrow> cfg_dword M (cap + 8) d;
       bar_length0 \<leftarrow> cfg_dword M (cap + 12) d;
       if ucast bar_length0 < ucast start + minlen then Some (0, None)
       else do {
         let bar_length1 = bar_length0 - start;
         let bar_offset = bar_offset0 + start;
         if bar_offset AND (alignment - 1) \<noteq> 0 then Some (0, None)
         else do {
           let bar_length = (if sz < bar_length1 then sz else bar_length1);
           if res_len M (unat bar) < ucast bar_offset + minlen then Some (0, Some bar_length)
           else Some (map_range M (unat bar) (ucast bar_offset) (ucast bar_length), Some bar_length) } } } }"

definition vio_modern_map_simple_capability ::
  "'d machine \<Rightarrow> 'd \<Rightarrow> nat \<Rightarrow> u64 \<Rightarrow> u32 \<Rightarrow> u64 option" where
  "vio_modern_map_simple_capability M d cap len alignment =
     map_option fst (vio_modern_map_capability M d cap len alignment 0 (ucast len))"

definition SIZEOF_COMMON_CFG :: u64 where "SIZEOF_COMMON_CFG = 56"

text \<open>The tail of \<^verbatim>\<open>vio_modern_initialize\<close>: the part of the device that is its own.\<close>
definition map_device_config :: "'d machine \<Rightarrow> nat \<Rightarrow> ('d, 'a) vdev \<Rightarrow> (vstatus \<times> ('d, 'a) vdev) option" where
  "map_device_config M cap v =
     (if cap \<noteq> 0 then do {
        (a, l) \<leftarrow> vio_modern_map_capability M (vd_world v) cap 0 4 0 PAGE_SIZE;
        let v1 = v\<lparr>vd_config := a, vd_config_len := (case l of None \<Rightarrow> vd_config_len v | Some l \<Rightarrow> ucast l)\<rparr>;
        if a = 0 then Some (VInvalidParameter, v1) else Some (VSuccess, v1\<lparr>vd_modern := True\<rparr>) }
      else Some (VSuccess, v\<lparr>vd_modern := True\<rparr>))"

definition vio_modern_initialize :: "'d machine \<Rightarrow> ('d, 'a) vdev \<Rightarrow> (vstatus \<times> ('d, 'a) vdev) option" where
  "vio_modern_initialize M v = do {
     let d = vd_world v;
     caps \<leftarrow> find_pci_vendor_capabilities M d (replicate VIRTIO_PCI_CAP_PCI_CFG 0);
     let cap = (\<lambda>i. caps ! i);
     if cap VIRTIO_PCI_CAP_COMMON_CFG = 0 then Some (VNotConnected, v)
     else if cap VIRTIO_PCI_CAP_ISR_CFG = 0 \<or> cap VIRTIO_PCI_CAP_NOTIFY_CFG = 0 then Some (VInvalidParameter, v)
     else do {
       com \<leftarrow> vio_modern_map_simple_capability M d (cap VIRTIO_PCI_CAP_COMMON_CFG) SIZEOF_COMMON_CFG 4;
       let v1 = v\<lparr>vd_common := com\<rparr>;
       if com = 0 then Some (VInvalidParameter, v1)
       else do {
         isr \<leftarrow> vio_modern_map_simple_capability M d (cap VIRTIO_PCI_CAP_ISR_CFG) 1 1;
         let v2 = v1\<lparr>vd_isr := isr\<rparr>;
         if isr = 0 then Some (VInvalidParameter, v2)
         else do {
           mult \<leftarrow> cfg_dword M (cap VIRTIO_PCI_CAP_NOTIFY_CFG + 16) d;
           notify_length \<leftarrow> cfg_dword M (cap VIRTIO_PCI_CAP_NOTIFY_CFG + 12) d;
           notify_offset \<leftarrow> cfg_dword M (cap VIRTIO_PCI_CAP_NOTIFY_CFG + 8) d;
           let v3 = v2\<lparr>vd_notify_multiplier := mult\<rparr>;
           (ok, v4) \<leftarrow> (if notify_length + (notify_offset mod PAGE_SIZE) \<le> PAGE_SIZE then do {
               (a, l) \<leftarrow> vio_modern_map_capability M d (cap VIRTIO_PCI_CAP_NOTIFY_CFG) 2 2 0 notify_length;
               Some (a \<noteq> 0, v3\<lparr>vd_notify_base := a,
                 vd_notify_len := (case l of None \<Rightarrow> vd_notify_len v3 | Some l \<Rightarrow> ucast l)\<rparr>) }
             else Some (True, v3\<lparr>vd_notify_map_cap := cap VIRTIO_PCI_CAP_NOTIFY_CFG\<rparr>));
           if \<not> ok then Some (VInvalidParameter, v4)
           else map_device_config M (cap VIRTIO_PCI_CAP_DEVICE_CFG) v4 } } } }"

section \<open>Memory\<close>

definition mem_alloc_pages :: "'d machine \<Rightarrow> u64 \<Rightarrow> ('d, 'a) vdev \<Rightarrow> u64 \<times> ('d, 'a) vdev" where
  "mem_alloc_pages M n v = (case take_pages M n (vd_pages v) (vd_world v) of (p, d) \<Rightarrow>
     (p, v\<lparr>vd_world := d, vd_pages := (if p = 0 then vd_pages v else insert p (vd_pages v))\<rparr>))"

definition mem_alloc_block :: "'d machine \<Rightarrow> u64 \<Rightarrow> ('d, 'a) vdev \<Rightarrow> u64 \<times> ('d, 'a) vdev" where
  "mem_alloc_block M n v = (case take_block M n (vd_blocks v) (vd_world v) of (p, d) \<Rightarrow>
     (p, v\<lparr>vd_world := d, vd_blocks := (if p = 0 then vd_blocks v else insert p (vd_blocks v))\<rparr>))"

text \<open>A null pointer is not freed; an address the driver does not hold is a bug check.\<close>
definition mem_free_pages :: "u64 \<Rightarrow> ('d, 'a) vdev \<Rightarrow> ('d, 'a) vdev option" where
  "mem_free_pages p v = (if p = 0 then Some v
     else do { guard_opt (p \<in> vd_pages v); Some (v\<lparr>vd_pages := vd_pages v - {p}\<rparr>) })"

definition mem_free_block :: "u64 \<Rightarrow> ('d, 'a) vdev \<Rightarrow> ('d, 'a) vdev option" where
  "mem_free_block p v = (if p = 0 then Some v
     else do { guard_opt (p \<in> vd_blocks v); Some (v\<lparr>vd_blocks := vd_blocks v - {p}\<rparr>) })"

section \<open>Queues\<close>

definition vring_size :: "u32 \<Rightarrow> u32 \<Rightarrow> bool \<Rightarrow> u32" where
  "vring_size num align packed = (if packed then vring_size_packed num align else vring_size_split num align)"

definition vring_control_block_size :: "'d machine \<Rightarrow> u16 \<Rightarrow> bool \<Rightarrow> u32" where
  "vring_control_block_size M qsize packed =
     (if packed then vring_control_block_size_packed (sizeof_packed M) (sizeof_state M) qsize
      else vring_control_block_size_split (sizeof_split M) qsize)"

definition vring_pci_size :: "u16 \<Rightarrow> bool \<Rightarrow> u64" where
  "vring_pci_size num packed =
     (ucast (vring_size (ucast num) SMP_CACHE_BYTES packed) + ucast PAGE_SIZE - 1) AND NOT (ucast PAGE_SIZE - 1)"

record vq_alloc =
  va_num :: u16
  va_ring_size :: u64
  va_heap_size :: u64

definition vio_modern_query_vq_alloc ::
  "'d machine \<Rightarrow> u32 \<Rightarrow> ('d, 'a) vdev \<Rightarrow> (vstatus + vq_alloc) \<times> ('d, 'a) vdev" where
  "vio_modern_query_vq_alloc M index v0 =
     (let (nq, v1) = ioread M NumQueues v0 in
      if ucast (ucast nq :: u16) \<le> index then (Inl VNotFound, v1)
      else
        let (n, v2) = ioread M QueueSize (iowrite M QueueSelect (ucast (ucast index :: u16)) v1);
            num = ucast n :: u16 in
        if num = 0 then (Inl VNotFound, v2)
        else if num AND (num - 1) \<noteq> 0 then (Inl VInvalidParameter, v2)
        else (Inr \<lparr>va_num = num, va_ring_size = vring_pci_size num (vd_packed_ring v2),
                va_heap_size = ucast (vring_control_block_size M num (vd_packed_ring v2))\<rparr>, v2))"

text \<open>The allocation that scales the queue down: the length it ends with and the pages, 0 when none could be had.\<close>
function scale_down :: "'d machine \<Rightarrow> u16 \<Rightarrow> ('d, 'a) vdev \<Rightarrow> (u16 \<times> u64) \<times> ('d, 'a) vdev" where
  "scale_down M num v =
     (case mem_alloc_pages M (vring_pci_size num (vd_packed_ring v)) v of (p, v1) \<Rightarrow>
        if p \<noteq> 0 then ((num, p), v1)
        else if 0 < num then scale_down M (num div 2) v1
        else ((num, 0), v1))"
  by pat_completeness auto
termination
  by (relation "measure (\<lambda>(M, num, v). unat num)") (auto simp: unat_div word_less_nat_alt)

declare scale_down.simps [simp del]

definition zeroed_vring :: "u16 \<Rightarrow> vring" where
  "zeroed_vring num = \<lparr>sq_num = 0, sq_desc = replicate (unat num) \<lparr>d_addr = 0, d_len = 0, d_flags = 0, d_next = 0\<rparr>,
     avail_flags = 0, avail_idx = 0, avail_ring = replicate (unat num) 0, used_event = 0,
     used_flags = 0, used_idx = 0, used_ring = replicate (unat num) \<lparr>ue_id = 0, ue_len = 0\<rparr>, avail_event = 0,
     desc_va = 0, avail_va = 0, used_va = 0\<rparr>"

text \<open>The creation of the ring in zeroed pages (the address of a modern device is 0); the inner option is the pointer returned.\<close>
definition new_ring :: "u32 \<Rightarrow> u16 \<Rightarrow> u64 \<Rightarrow> ('d, 'a) vdev \<Rightarrow> 'a any_ring option option" where
  "new_ring index num p v =
     (let vr = \<lparr>vdev_addr = 0, event_suppression_enabled = vd_event_suppression v\<rparr> in
      if vd_packed_ring v then
        map_option (\<lambda>q. Some (PackedRing q)) (vring_new_virtqueue_packed index (ucast num) SMP_CACHE_BYTES vr p
          (replicate (unat num) \<lparr>p_addr = 0, p_len = 0, p_id = 0, p_flags = 0\<rparr>)
          \<lparr>off_wrap = 0, ev_flags = 0\<rparr> \<lparr>off_wrap = 0, ev_flags = 0\<rparr>)
      else map_option (map_option SplitRing)
        (vring_new_virtqueue_split index (ucast num) SMP_CACHE_BYTES vr p (zeroed_vring num)))"

fun ring_avail_va :: "'a any_ring \<Rightarrow> u64" where
  "ring_avail_va (SplitRing q) = avail_va q"
| "ring_avail_va (PackedRing q) = pq_avail_va q"

fun ring_used_va :: "'a any_ring \<Rightarrow> u64" where
  "ring_used_va (SplitRing q) = used_va q"
| "ring_used_va (PackedRing q) = pq_used_va q"

text \<open>\<^verbatim>\<open>virtqueue_shutdown\<close>: does it return?\<close>
fun shutdown_ring :: "'a any_ring \<Rightarrow> unit option" where
  "shutdown_ring (SplitRing q) = map_option (\<lambda>_. ()) (virtqueue_shutdown_split q)"
| "shutdown_ring (PackedRing q) = map_option (\<lambda>_. ()) (virtqueue_shutdown_packed q)"

definition activate_queue :: "'d machine \<Rightarrow> u16 \<Rightarrow> u64 \<Rightarrow> 'a any_ring \<Rightarrow> ('d, 'a) vdev \<Rightarrow> ('d, 'a) vdev" where
  "activate_queue M num p r v =
     iowrite64_twopart M (phys_of M (ring_used_va r)) QueueUsedLo QueueUsedHi
       (iowrite64_twopart M (phys_of M (ring_avail_va r)) QueueAvailLo QueueAvailHi
         (iowrite64_twopart M (phys_of M p) QueueDescLo QueueDescHi
           (iowrite M QueueSize (ucast num) v)))"

text \<open>The address a queue is notified at: an error, or the address (0 when it cannot be mapped).\<close>
definition notify_address :: "'d machine \<Rightarrow> u16 \<Rightarrow> ('d, 'a) vdev \<Rightarrow> (vstatus + u64) option" where
  "notify_address M off v =
     (let mult = vd_notify_multiplier v in
      if vd_notify_base v \<noteq> 0 then
        (if vd_notify_len v < ucast off * ucast mult + 2 then Some (Inl VInvalidParameter)
         else Some (Inr (vd_notify_base v + ucast (ucast off * mult :: u32))))
      else map_option (\<lambda>(a, l). Inr a)
        (vio_modern_map_capability M (vd_world v) (vd_notify_map_cap v) 2 2 (ucast off * mult) 2))"

text \<open>The labels \<^verbatim>\<open>err_new_queue\<close> and \<^verbatim>\<open>err_map_notify\<close>.\<close>
definition fail_new_queue :: "vstatus \<Rightarrow> u64 \<Rightarrow> u64 \<Rightarrow> ('d, 'a) vdev \<Rightarrow> ((vstatus + 'a vq_handle) \<times> ('d, 'a) vdev) option" where
  "fail_new_queue st block p v = do {
     v1 \<leftarrow> mem_free_block block v;
     v2 \<leftarrow> mem_free_pages p v1;
     Some (Inl st, v2) }"

definition fail_map_notify ::
  "vstatus \<Rightarrow> 'a any_ring \<Rightarrow> u64 \<Rightarrow> u64 \<Rightarrow> ('d, 'a) vdev \<Rightarrow> ((vstatus + 'a vq_handle) \<times> ('d, 'a) vdev) option" where
  "fail_map_notify st r block p v = do { _ \<leftarrow> shutdown_ring r; fail_new_queue st block p v }"

definition set_info :: "nat \<Rightarrow> ('a queue_info \<Rightarrow> 'a queue_info) \<Rightarrow> ('d, 'a) vdev \<Rightarrow> ('d, 'a) vdev option" where
  "set_info i f v = do {
     qi \<leftarrow> nth_opt (vd_info v) i;
     Some (v\<lparr>vd_info := (vd_info v)[i := f qi]\<rparr>) }"

definition vio_modern_setup_vq ::
  "'d machine \<Rightarrow> u32 \<Rightarrow> u16 \<Rightarrow> ('d, 'a) vdev \<Rightarrow> ((vstatus + 'a vq_handle) \<times> ('d, 'a) vdev) option" where
  "vio_modern_setup_vq M index msix_vec v0 =
     (case vio_modern_query_vq_alloc M index v0 of (r, v1) \<Rightarrow>
      case r of
        Inl st \<Rightarrow> Some (Inl st, v1)
      | Inr va \<Rightarrow> do {
          let (off, v2) = ioread M QueueNotifyOff v1;
          let ((num, p), v3) = scale_down M (va_num va) v2;
          v4 \<leftarrow> set_info (unat index) (\<lambda>q. q\<lparr>qi_num := num, qi_queue := p\<rparr>) v3;
          if p = 0 then Some (Inl VInsufficientResources, v4)
          else do {
            let (block, v5) = mem_alloc_block M (va_heap_size va) v4;
            if block = 0 then fail_new_queue VInsufficientResources block p v5
            else do {
              rng \<leftarrow> new_ring index num p v5;
              case rng of
                None \<Rightarrow> fail_new_queue VInsufficientResources block p v5
              | Some rg \<Rightarrow> do {
                  let v6 = activate_queue M num p rg v5;
                  na \<leftarrow> notify_address M (ucast off) v6;
                  case na of
                    Inl st \<Rightarrow> fail_map_notify st rg block p v6
                  | Inr addr \<Rightarrow>
                      if addr = 0 then fail_map_notify VInsufficientResources rg block p v6
                      else do {
                        let (vec, v7) = (if msix_vec \<noteq> VIRTIO_MSI_NO_VECTOR
                          then vio_modern_set_queue_vector M index msix_vec v6 else (0, v6));
                        if msix_vec \<noteq> VIRTIO_MSI_NO_VECTOR \<and> vec = VIRTIO_MSI_NO_VECTOR
                        then fail_map_notify VDeviceBusy rg block p v7
                        else Some (Inr \<lparr>vq_block = block, vq_index = index, vq_ring = rg, notification_addr = addr\<rparr>,
                          iowrite M QueueEnable 1 v7) } } } } })"

definition vio_modern_del_vq :: "'d machine \<Rightarrow> 'a queue_info \<Rightarrow> ('d, 'a) vdev \<Rightarrow> ('d, 'a) vdev option" where
  "vio_modern_del_vq M qi v0 = do {
     q \<leftarrow> qi_vq qi;
     let v1 = iowrite M QueueSelect (ucast (ucast (vq_index q) :: u16)) v0;
     let v2 = (if vd_msix_used v1
       then snd (ioread M QueueMsixVector (iowrite M QueueMsixVector (ucast VIRTIO_MSI_NO_VECTOR) v1)) else v1);
     _ \<leftarrow> shutdown_ring (vq_ring q);
     v3 \<leftarrow> mem_free_block (vq_block q) v2;
     mem_free_pages (qi_queue qi) v3 }"

section \<open>The set of queues\<close>

definition SIZEOF_QUEUE_INFO :: u64 where "SIZEOF_QUEUE_INFO = 24"

definition empty_info :: "'a queue_info" where
  "empty_info = \<lparr>qi_vq = None, qi_num = 0, qi_queue = 0\<rparr>"

definition virtio_reserve_queue_memory :: "'d machine \<Rightarrow> nat \<Rightarrow> ('d, 'a) vdev \<Rightarrow> (vstatus \<times> ('d, 'a) vdev) option" where
  "virtio_reserve_queue_memory M nvqs v =
     (if vd_max_queues v < nvqs then
        (case mem_alloc_block M (of_nat nvqs * SIZEOF_QUEUE_INFO) v of (p, v1) \<Rightarrow>
           if p = 0 then Some (VInsufficientResources, v1)
           else do {
             v2 \<leftarrow> mem_free_block (vd_info_block v1) v1;
             Some (VSuccess, v2\<lparr>vd_info := replicate nvqs empty_info, vd_info_block := p, vd_max_queues := nvqs\<rparr>) })
      else Some (VSuccess, v))"

definition vp_setup_vq :: "'d machine \<Rightarrow> nat \<Rightarrow> u16 \<Rightarrow> ('d, 'a) vdev \<Rightarrow> ((vstatus + 'a vq_handle) \<times> ('d, 'a) vdev) option" where
  "vp_setup_vq M i msix_vec v = do {
     (r, v1) \<leftarrow> vio_modern_setup_vq M (of_nat i) msix_vec v;
     case r of
       Inl st \<Rightarrow> Some (Inl st, v1)
     | Inr q \<Rightarrow> do { v2 \<leftarrow> set_info i (\<lambda>qi. qi\<lparr>qi_vq := Some q\<rparr>) v1; Some (Inr q, v2) } }"

definition delete_one :: "'d machine \<Rightarrow> nat \<Rightarrow> ('d, 'a) vdev \<Rightarrow> ('d, 'a) vdev option" where
  "delete_one M i v = do {
     qi \<leftarrow> nth_opt (vd_info v) i;
     case qi_vq qi of
       None \<Rightarrow> Some v
     | Some q \<Rightarrow> do {
         v1 \<leftarrow> vio_modern_del_vq M qi v;
         set_info i (\<lambda>qi. qi\<lparr>qi_vq := None\<rparr>) v1 } }"

definition virtio_delete_queues :: "'d machine \<Rightarrow> ('d, 'a) vdev \<Rightarrow> ('d, 'a) vdev option" where
  "virtio_delete_queues M v = for_loop 0 (vd_max_queues v) 1 (delete_one M) v"

text \<open>The loop that sets the queues up (\<^verbatim>\<open>k\<close> left, at \<^verbatim>\<open>i\<close>).\<close>
fun setup_queues :: "'d machine \<Rightarrow> nat \<Rightarrow> nat \<Rightarrow> ('d, 'a) vdev \<Rightarrow> (vstatus \<times> ('d, 'a) vdev) option" where
  "setup_queues M 0 i v = Some (VSuccess, v)"
| "setup_queues M (Suc k) i v = do {
     (r, v1) \<leftarrow> vp_setup_vq M i (msix_vector M (Some i)) v;
     case r of
       Inl st \<Rightarrow> do { v2 \<leftarrow> virtio_delete_queues M v1; Some (st, v2) }
     | Inr q \<Rightarrow> setup_queues M k (Suc i) v1 }"

definition virtio_find_queues :: "'d machine \<Rightarrow> nat \<Rightarrow> ('d, 'a) vdev \<Rightarrow> (vstatus \<times> ('d, 'a) vdev) option" where
  "virtio_find_queues M nvqs v = do {
     (st, v1) \<leftarrow> virtio_reserve_queue_memory M nvqs v;
     if st \<noteq> VSuccess then Some (st, v1)
     else do {
       let vec = msix_vector M None;
       if vec \<noteq> VIRTIO_MSI_NO_VECTOR then
         (case vio_modern_set_config_vector M vec v1 of (vec', v2) \<Rightarrow>
            if vec' = VIRTIO_MSI_NO_VECTOR then do { v3 \<leftarrow> virtio_delete_queues M v2; Some (VDeviceBusy, v3) }
            else setup_queues M nvqs 0 v2)
       else setup_queues M nvqs 0 v1 } }"

definition virtio_find_queue :: "'d machine \<Rightarrow> nat \<Rightarrow> ('d, 'a) vdev \<Rightarrow> ((vstatus + 'a vq_handle) \<times> ('d, 'a) vdev) option" where
  "virtio_find_queue M i v = vp_setup_vq M i (msix_vector M (Some i)) v"

definition virtio_delete_queue :: "'d machine \<Rightarrow> 'a vq_handle \<Rightarrow> ('d, 'a) vdev \<Rightarrow> ('d, 'a) vdev option" where
  "virtio_delete_queue M q v = do {
     let i = unat (vq_index q);
     qi \<leftarrow> nth_opt (vd_info v) i;
     v1 \<leftarrow> vio_modern_del_vq M qi v;
     set_info i (\<lambda>qi. qi\<lparr>qi_vq := None\<rparr>) v1 }"

definition virtio_get_queue_size :: "'a vq_handle \<Rightarrow> ('d, 'a) vdev \<Rightarrow> u32 option" where
  "virtio_get_queue_size q v = map_option (\<lambda>qi. ucast (qi_num qi)) (nth_opt (vd_info v) (unat (vq_index q)))"

text \<open>The 16-bit write of the selector to the notification address; the kick of a queue.\<close>
definition vp_notify :: "'d machine \<Rightarrow> 'a vq_handle \<Rightarrow> ('d, 'a) vdev \<Rightarrow> ('d, 'a) vdev" where
  "vp_notify M q v =
     v\<lparr>vd_world := write_conf M (notification_addr q) 2 (ucast (ucast (vq_index q) :: u16)) (vd_world v)\<rparr>"

fun virtqueue_kick_prepare :: "'a any_ring \<Rightarrow> bool \<times> 'a any_ring" where
  "virtqueue_kick_prepare (SplitRing q) = (case virtqueue_kick_prepare_split q of (b, q') \<Rightarrow> (b, SplitRing q'))"
| "virtqueue_kick_prepare (PackedRing q) = (case virtqueue_kick_prepare_packed q of (b, q') \<Rightarrow> (b, PackedRing q'))"

definition virtqueue_kick :: "'d machine \<Rightarrow> 'a vq_handle \<Rightarrow> ('d, 'a) vdev \<Rightarrow> 'a vq_handle \<times> ('d, 'a) vdev" where
  "virtqueue_kick M q v = (case virtqueue_kick_prepare (vq_ring q) of (b, r) \<Rightarrow>
     (q\<lparr>vq_ring := r\<rparr>, if b then vp_notify M q v else v))"

definition virtio_device_shutdown :: "('d, 'a) vdev \<Rightarrow> ('d, 'a) vdev option" where
  "virtio_device_shutdown v =
     (if vd_info_block v \<noteq> 0 then do {
        v1 \<leftarrow> mem_free_block (vd_info_block v) v; Some (v1\<lparr>vd_info_block := 0, vd_info := []\<rparr>) }
      else Some v)"

text \<open>\<^verbatim>\<open>virtio_device_initialize\<close> on a device with the modern interface; the fallback to the legacy one is the
  answer \<^verbatim>\<open>VNotConnected\<close>.\<close>
definition virtio_device_initialize :: "'d machine \<Rightarrow> bool \<Rightarrow> ('d, 'a) vdev \<Rightarrow> (vstatus \<times> ('d, 'a) vdev) option" where
  "virtio_device_initialize M msix v0 = do {
     let v = \<lparr>vd_world = vd_world v0, vd_msix_used = msix, vd_event_suppression = False, vd_packed_ring = False,
       vd_modern = False, vd_isr = 0, vd_common = 0, vd_config = 0, vd_config_len = 0, vd_notify_base = 0,
       vd_notify_len = 0, vd_notify_map_cap = 0, vd_notify_multiplier = 0,
       vd_max_queues = MAX_QUEUES_PER_DEVICE_DEFAULT,
       vd_info = replicate MAX_QUEUES_PER_DEVICE_DEFAULT empty_info, vd_info_block = 0,
       vd_pages = vd_pages v0, vd_blocks = vd_blocks v0\<rparr>;
     (st, v1) \<leftarrow> vio_modern_initialize M v;
     if st = VSuccess then do {
       v2 \<leftarrow> vio_modern_reset M v1;
       Some (st, virtio_add_status M VIRTIO_CONFIG_S_DRIVER (virtio_add_status M VIRTIO_CONFIG_S_ACKNOWLEDGE v2)) }
     else Some (st, v1) }"

section \<open>The index of a BAR\<close>

text \<open>The loop of \<^verbatim>\<open>virtio_get_bar_index\<close> over the six address registers (\<^verbatim>\<open>k\<close> turns at most); the upper half of a
  64-bit address is the next register, which must exist.\<close>
fun bar_index_loop :: "u32 list \<Rightarrow> u64 \<Rightarrow> nat \<Rightarrow> nat \<Rightarrow> int option" where
  "bar_index_loop bars pa 0 i = Some (- 1)"
| "bar_index_loop bars pa (Suc k) i =
     (if i < unat PCI_TYPE0_ADDRESSES then do {
        low \<leftarrow> nth_opt bars i;
        (addr, j) \<leftarrow> (if low AND 1 \<noteq> 0 then Some (ucast (low AND NOT 3), i)
          else if low AND 6 = 4 then do {
            high \<leftarrow> nth_opt bars (Suc i);
            Some (ucast (low AND NOT 15) OR push_bit 32 (ucast high), Suc i) }
          else Some (ucast (low AND NOT 15), i));
        if addr = pa then Some (int i) else bar_index_loop bars pa k (Suc j) }
      else Some (- 1))"

definition virtio_get_bar_index :: "u32 list \<Rightarrow> u64 \<Rightarrow> int option" where
  "virtio_get_bar_index bars pa = bar_index_loop bars pa 7 0"

end
