(* ===== verification/VirtioPciProps.thy ===== *)
theory VirtioPciProps
  imports VirtioPci
begin

text \<open>
  What the transport guarantees: the memory of the queues is owned exactly by the queues that are set
  up, on every error path; the walk over the capabilities; the status a device goes through.
\<close>

unbundle bit_operations_syntax

section \<open>Sizes\<close>

lemma power2_and_pred:
  fixes x :: u16
  assumes "x AND (x - 1) = 0" "x \<noteq> 0"
  shows "\<exists>k \<le> 15. unat x = 2 ^ k"
proof -
  have pos: "0 < unat x" using assms(2) by (simp add: unat_gt_0)
  obtain k where k: "2 ^ k \<le> unat x" "unat x < 2 ^ (k + 1)" using ex_power_ivl1 [of 2 "unat x"] pos by auto
  have hi: "bit y k" if "2 ^ k \<le> unat y" "unat y < 2 ^ (k + 1)" for y :: u16
  proof -
    have "unat y div 2 ^ k = 1" using that by (intro div_nat_eqI) simp_all
    then have "bit (unat y) k" by (simp add: bit_iff_odd)
    then show ?thesis by (simp add: bit_unsigned_iff)
  qed
  have "unat x = 2 ^ k"
  proof (rule ccontr)
    assume ne: "unat x \<noteq> 2 ^ k"
    have "unat (x - 1) = unat x - 1" by (rule unat_minus_1 [OF pos])
    then have "bit (x - 1) k" using ne k by (intro hi) simp_all
    then have "bit (x AND (x - 1)) k" using hi [OF k] by (simp add: bit_and_iff)
    then show False using assms(1) by simp
  qed
  moreover have "k \<le> 15"
  proof (rule ccontr)
    assume "\<not> k \<le> 15"
    then have "(2 :: nat) ^ 16 \<le> 2 ^ k" by (intro power_increasing) simp_all
    then show False using k(1) unat_u16_lt [of x] by simp
  qed
  ultimately show ?thesis by blast
qed

lemma one_entry_one_page: "vring_pci_size 1 packed = 4096"
  by (cases packed) (simp_all add: vring_pci_size_def vring_size_def vring_size_packed_def vring_size_split_def
    SMP_CACHE_BYTES_def PAGE_SIZE_def)

section \<open>Allocation\<close>

text \<open>An allocation that succeeds gives an address the driver does not hold.\<close>
definition fresh_alloc :: "'d machine \<Rightarrow> bool" where
  "fresh_alloc M \<longleftrightarrow> (\<forall>n h d. (fst (take_pages M n h d) \<noteq> 0 \<longrightarrow> fst (take_pages M n h d) \<notin> h)
     \<and> (fst (take_block M n h d) \<noteq> 0 \<longrightarrow> fst (take_block M n h d) \<notin> h))"

lemma fresh_allocD:
  assumes "fresh_alloc M"
  shows "take_pages M n h d = (p, d') \<Longrightarrow> p \<noteq> 0 \<Longrightarrow> p \<notin> h" "take_block M n h d = (p, d') \<Longrightarrow> p \<noteq> 0 \<Longrightarrow> p \<notin> h"
  using assms unfolding fresh_alloc_def by (metis fst_conv)+

text \<open>A single page can be had while the driver holds the pages \<^verbatim>\<open>h\<close>; with fewer than \<^verbatim>\<open>n\<close> held beside \<^verbatim>\<open>P\<close>.\<close>
definition page_available :: "'d machine \<Rightarrow> u64 set \<Rightarrow> bool" where
  "page_available M h \<longleftrightarrow> (\<forall>d. fst (take_pages M 4096 h d) \<noteq> 0)"

definition pages_available :: "'d machine \<Rightarrow> u64 set \<Rightarrow> nat \<Rightarrow> bool" where
  "pages_available M P n \<longleftrightarrow> (\<forall>h. P \<subseteq> h \<longrightarrow> card (h - P) < n \<longrightarrow> page_available M h)"

lemma scale_down_ok:
  assumes "scale_down M num v = ((n, p), v')" "fresh_alloc M"
  shows "(\<exists>d. v' = v\<lparr>vd_world := d, vd_pages := (if p = 0 then vd_pages v else insert p (vd_pages v))\<rparr>)
    \<and> (p \<noteq> 0 \<longrightarrow> p \<notin> vd_pages v) \<and> (\<exists>k. unat n = unat num div 2 ^ k) \<and> (p = 0 \<longrightarrow> n = 0)"
  using assms
proof (induction M num v rule: scale_down.induct)
  case (1 M num v)
  obtain q d where a: "take_pages M (vring_pci_size num (vd_packed_ring v)) (vd_pages v) (vd_world v) = (q, d)"
    by (cases "take_pages M (vring_pci_size num (vd_packed_ring v)) (vd_pages v) (vd_world v)")
  have f: "q \<noteq> 0 \<longrightarrow> q \<notin> vd_pages v" using fresh_allocD(1) [OF 1(3) a] by blast
  let ?v1 = "v\<lparr>vd_world := d, vd_pages := (if q = 0 then vd_pages v else insert q (vd_pages v))\<rparr>"
  have m: "mem_alloc_pages M (vring_pci_size num (vd_packed_ring v)) v = (q, ?v1)"
    by (simp add: mem_alloc_pages_def a)
  have e: "scale_down M num v = (if q \<noteq> 0 then ((num, q), ?v1)
      else if 0 < num then scale_down M (num div 2) ?v1 else ((num, 0), ?v1))"
    by (subst scale_down.simps) (simp only: m prod.case)
  show ?case
  proof (cases "q = 0 \<and> 0 < num")
    case False
    then have "n = num \<and> p = q \<and> v' = ?v1 \<and> (p = 0 \<longrightarrow> num = 0)"
      using 1(2) unfolding e by (auto simp: word_gt_0 split: if_splits)
    then show ?thesis using f by (auto intro: exI [of _ 0])
  next
    case True
    then have s: "scale_down M (num div 2) ?v1 = ((n, p), v')"
      using 1(2) unfolding e by simp
    from 1(1) [OF m [symmetric] _ _ s 1(3)] True obtain k e where
      "v' = ?v1\<lparr>vd_world := e, vd_pages := (if p = 0 then vd_pages ?v1 else insert p (vd_pages ?v1))\<rparr>"
      "p \<noteq> 0 \<longrightarrow> p \<notin> vd_pages ?v1" "unat n = unat (num div 2) div 2 ^ k" "p = 0 \<longrightarrow> n = 0" by auto
    then show ?thesis using True
      by (auto simp: unat_div div_mult2_eq [symmetric] mult.commute intro: exI [of _ "Suc k"])
  qed
qed

lemma scale_down_page:
  assumes "scale_down M num v = ((n, p), v')" "page_available M (vd_pages v)" "unat num = 2 ^ k"
  shows "n \<noteq> 0 \<and> p \<noteq> 0"
  using assms
proof (induction M num v arbitrary: k rule: scale_down.induct)
  case (1 M num v)
  obtain q v1 where m: "mem_alloc_pages M (vring_pci_size num (vd_packed_ring v)) v = (q, v1)"
    by (cases "mem_alloc_pages M (vring_pci_size num (vd_packed_ring v)) v")
  show ?case
  proof (cases "q = 0")
    case False
    then show ?thesis using 1(2,4) by (subst (asm) scale_down.simps) (auto simp: m)
  next
    case True
    have "fst (take_pages M 4096 (vd_pages v) (vd_world v)) \<noteq> 0"
      using 1(3) by (simp add: page_available_def)
    then have "num \<noteq> 1"
      using m True by (auto simp: one_entry_one_page mem_alloc_pages_def split: prod.splits)
    then obtain k' where k: "k = Suc k'" using 1(4) by (cases k) (auto simp: unat_eq_of_nat word_unat_eq_iff)
    then have "unat (num div 2) = 2 ^ k'" using 1(4) by (simp add: unat_div)
    moreover have "0 < num" using 1(4) by (simp add: word_less_nat_alt)
    moreover from this True have "scale_down M (num div 2) v1 = ((n, p), v')"
      using 1(2) by (subst (asm) scale_down.simps) (simp add: m)
    moreover have "vd_pages v1 = vd_pages v" using m True by (auto simp: mem_alloc_pages_def split: prod.splits)
    ultimately show ?thesis using 1(1) [OF m [symmetric]] 1(3) True by simp
  qed
qed

section \<open>Rings\<close>

lemma ucast_u16_u32_power: "unat n = 2 ^ k \<Longrightarrow> unat (ucast (n :: u16) :: u32) = 2 ^ k"
  by (simp add: unat_ucast_u16_u32)

text \<open>A ring as it leaves its creation: it can be shut down, and its interrupts can be enabled.\<close>
fun ring_fresh :: "'a any_ring \<Rightarrow> bool" where
  "ring_fresh (SplitRing q) = ring_shape q"
| "ring_fresh (PackedRing q) = (pq_num q \<noteq> 0 \<and> last_used_idx q = 0 \<and> length (pq_desc q) = unat (pq_num q))"

lemma ring_fresh_shutdown: "ring_fresh r \<Longrightarrow> shutdown_ring r \<noteq> None"
proof (cases r)
  case (SplitRing q)
  assume "ring_fresh r"
  then obtain q' where "virtqueue_shutdown_split q = Some (Some q')"
    using virtqueue_shutdown_split_ok [of q] SplitRing by auto
  then show ?thesis using SplitRing by simp
qed (simp add: virtqueue_shutdown_packed_def vring_new_virtqueue_packed_def Let_def)

lemma new_ring_ok:
  fixes v :: "('d, 'b) vdev"
  assumes "unat num = 2 ^ k" "k \<le> 15"
  shows "\<exists>r. new_ring index num p v = Some (Some r) \<and> ring_fresh r"
proof (cases "vd_packed_ring v")
  case True
  have "(ucast num :: u32) \<noteq> 0" using ucast_u16_u32_power [OF assms(1)] by auto
  then show ?thesis using True
    by (auto simp: new_ring_def Let_def vring_new_virtqueue_packed_def unat_ucast_u16_u32 split: prod.splits)
next
  case False
  have m: "mem_shape (ucast num) (zeroed_vring num)"
    by (simp add: mem_shape_def zeroed_vring_def unat_ucast_u16_u32)
  from vring_new_virtqueue_split_ok [OF ucast_u16_u32_power [OF assms(1)] assms(2) m, where 'a = 'b]
  obtain q :: "'b virtqueue_split" where q: "vring_new_virtqueue_split index (ucast num) SMP_CACHE_BYTES
      \<lparr>vdev_addr = 0, event_suppression_enabled = vd_event_suppression v\<rparr> p (zeroed_vring num) = Some (Some q)"
    "split_inv [0..<unat (ucast num :: u32)] [] q" by blast
  then show ?thesis using False split_invD(1) [OF q(2)]
    by (intro exI [of _ "SplitRing q"]) (simp add: new_ring_def Let_def)
qed

lemma query_ok:
  assumes "vio_modern_query_vq_alloc M index v = (r, v')"
  shows "(\<exists>d. v' = v\<lparr>vd_world := d\<rparr>) \<and> (case r of Inl st \<Rightarrow> st \<noteq> VSuccess
    | Inr va \<Rightarrow> \<exists>k \<le> 15. unat (va_num va) = 2 ^ k)"
  using assms power2_and_pred
  by (auto simp: vio_modern_query_vq_alloc_def ioread_def iowrite_def Let_def split: prod.splits if_splits)

section \<open>Setting up one queue\<close>

text \<open>The notification area is mapped, or its capability can be read.\<close>
definition notify_readable :: "'d machine \<Rightarrow> ('d, 'a) vdev \<Rightarrow> bool" where
  "notify_readable M v \<longleftrightarrow> vd_notify_base v \<noteq> 0 \<or> (\<forall>d. cfg_byte M (vd_notify_map_cap v + 4) d \<noteq> None
     \<and> cfg_dword M (vd_notify_map_cap v + 8) d \<noteq> None \<and> cfg_dword M (vd_notify_map_cap v + 12) d \<noteq> None)"

lemma notify_address_total:
  assumes "notify_readable M v"
  shows "notify_address M off v \<noteq> None"
proof (cases "vd_notify_base v = 0")
  case True
  then obtain b bo bl where "cfg_byte M (vd_notify_map_cap v + 4) (vd_world v) = Some b"
    "cfg_dword M (vd_notify_map_cap v + 8) (vd_world v) = Some bo"
    "cfg_dword M (vd_notify_map_cap v + 12) (vd_world v) = Some bl"
    using assms unfolding notify_readable_def by (metis not_None_eq)
  then show ?thesis using True by (simp add: notify_address_def vio_modern_map_capability_def Let_def)
qed (simp add: notify_address_def Let_def)

lemma notify_address_error: "notify_address M off v = Some (Inl st) \<Longrightarrow> st \<noteq> VSuccess"
  by (auto simp: notify_address_def Let_def split: if_splits)

lemma notify_cong:
  assumes "vd_notify_base v' = vd_notify_base v" "vd_notify_map_cap v' = vd_notify_map_cap v"
  shows "notify_readable M v' = notify_readable M v"
  using assms by (simp add: notify_readable_def)

lemma activate_world: "\<exists>d. activate_queue M n p r v = v\<lparr>vd_world := d\<rparr>"
  by (auto simp: activate_queue_def iowrite64_twopart_def iowrite_def)

lemma queue_vector_world: "vio_modern_set_queue_vector M i vec v = (x, v') \<Longrightarrow> \<exists>d. v' = v\<lparr>vd_world := d\<rparr>"
  by (auto simp: vio_modern_set_queue_vector_def ioread_def iowrite_def Let_def split: prod.splits)

lemma fail_new_queue_ok:
  assumes "block = 0 \<or> block \<in> vd_blocks v" "p \<in> vd_pages v"
  shows "fail_new_queue st block p v = Some (Inl st,
    v\<lparr>vd_blocks := (if block = 0 then vd_blocks v else vd_blocks v - {block}),
      vd_pages := (if p = 0 then vd_pages v else vd_pages v - {p})\<rparr>)"
  using assms by (auto simp: fail_new_queue_def mem_free_block_def mem_free_pages_def)

text \<open>What the set-up leaves: nothing but an entry of the table when it fails, else one block and one run of pages more.\<close>
definition setup_outcome :: "nat \<Rightarrow> (vstatus + 'a vq_handle) \<Rightarrow> ('d, 'a) vdev \<Rightarrow> ('d, 'a) vdev \<Rightarrow> bool" where
  "setup_outcome i r v v' \<longleftrightarrow> (\<exists>d inf. case r of
     Inl st \<Rightarrow> st \<noteq> VSuccess \<and> v' = v\<lparr>vd_world := d, vd_info := inf\<rparr>
       \<and> (\<exists>n p. inf = (vd_info v)[i := (vd_info v ! i)\<lparr>qi_num := n, qi_queue := p\<rparr>] \<or> inf = vd_info v)
   | Inr q \<Rightarrow> (\<exists>n p. v' = v\<lparr>vd_world := d, vd_info := inf, vd_pages := insert p (vd_pages v),
         vd_blocks := insert (vq_block q) (vd_blocks v)\<rparr>
       \<and> inf = (vd_info v)[i := (vd_info v ! i)\<lparr>qi_num := n, qi_queue := p\<rparr>]
       \<and> p \<noteq> 0 \<and> p \<notin> vd_pages v \<and> vq_block q \<noteq> 0 \<and> vq_block q \<notin> vd_blocks v
       \<and> ring_fresh (vq_ring q)))"

lemma setup_outcome_world: "st \<noteq> VSuccess \<Longrightarrow> setup_outcome i (Inl st) v (v\<lparr>vd_world := d\<rparr>)"
  unfolding setup_outcome_def by (cases v) (auto intro!: exI [of _ d] exI [of _ "vd_info v"])

lemma setup_vq_ok:
  assumes "fresh_alloc M" "page_available M (vd_pages v)" "notify_readable M v" "i < length (vd_info v)" "unat (of_nat i :: u32) = i"
  shows "\<exists>r v'. vio_modern_setup_vq M (of_nat i) vec v = Some (r, v') \<and> setup_outcome i r v v'"
proof -
  obtain r v1 where q: "vio_modern_query_vq_alloc M (of_nat i) v = (r, v1)" by fastforce
  from query_ok [OF q] obtain d1 where v1: "v1 = v\<lparr>vd_world := d1\<rparr>" by blast
  show ?thesis
  proof (cases r)
    case (Inl st)
    then have "setup_outcome i (Inl st) v v1" using setup_outcome_world query_ok [OF q] v1 by auto
    then show ?thesis using Inl q by (auto simp: vio_modern_setup_vq_def)
  next
    case (Inr va)
    then obtain k where k: "k \<le> 15" "unat (va_num va) = 2 ^ k" using query_ok [OF q] by auto
    obtain off d2 where off: "ioread M QueueNotifyOff v1 = (off, v\<lparr>vd_world := d2\<rparr>)"
      by (cases "read_reg M QueueNotifyOff d1") (simp add: ioread_def v1)
    obtain num p v3 where s: "scale_down M (va_num va) (v\<lparr>vd_world := d2\<rparr>) = ((num, p), v3)"
      by (metis prod.exhaust)
    have np: "num \<noteq> 0" "p \<noteq> 0" using scale_down_page [OF s _ k(2)] assms(2) by simp_all
    obtain d3 j where v3: "v3 = v\<lparr>vd_world := d3, vd_pages := insert p (vd_pages v)\<rparr>" and pf: "p \<notin> vd_pages v"
      and j: "unat num = 2 ^ k div 2 ^ j"
      using scale_down_ok [OF s assms(1)] np k(2) by auto
    have "j \<le> k"
    proof (rule ccontr)
      assume "\<not> j \<le> k"
      then have "(2 :: nat) ^ k < 2 ^ j" by (intro power_strict_increasing) simp_all
      then show False using j np(1) by (simp add: unat_eq_0 [symmetric])
    qed
    then have num: "unat num = 2 ^ (k - j)" "k - j \<le> 15" using j k(1) by (simp_all add: power_diff)
    let ?inf = "(vd_info v)[i := (vd_info v ! i)\<lparr>qi_num := num, qi_queue := p\<rparr>]"
    let ?v4 = "v\<lparr>vd_world := d3, vd_pages := insert p (vd_pages v), vd_info := ?inf\<rparr>"
    have si: "set_info i (\<lambda>q. q\<lparr>qi_num := num, qi_queue := p\<rparr>) v3 = Some ?v4"
      using assms(4) by (simp add: set_info_def v3 nth_opt_def)
    obtain block d5 where tb: "take_block M (va_heap_size va) (vd_blocks v) d3 = (block, d5)" by fastforce
    have bf: "block \<noteq> 0 \<Longrightarrow> block \<notin> vd_blocks v" by (rule fresh_allocD(2) [OF assms(1) tb])
    let ?v5 = "?v4\<lparr>vd_world := d5, vd_blocks := (if block = 0 then vd_blocks v else insert block (vd_blocks v))\<rparr>"
    have mb: "mem_alloc_block M (va_heap_size va) ?v4 = (block, ?v5)" by (simp add: mem_alloc_block_def tb)
    have un: "fail_new_queue st block p (?v5\<lparr>vd_world := d\<rparr>) = Some (Inl st, v\<lparr>vd_world := d, vd_info := ?inf\<rparr>)" for st d
      using pf bf np by (subst fail_new_queue_ok) auto
    have fail: "setup_outcome i (Inl st) v (v\<lparr>vd_world := d, vd_info := ?inf\<rparr>)" if "st \<noteq> VSuccess" for st d
      using that by (auto simp: setup_outcome_def)
    note start = vio_modern_setup_vq_def q Inr off s si assms(5) np Let_def mb
    show ?thesis
    proof (cases "block = 0")
      case True
      then show ?thesis using un [of VInsufficientResources d5] fail [of VInsufficientResources d5] by (simp add: start)
    next
      case False
      obtain rg where rg: "new_ring (of_nat i) num p ?v5 = Some (Some rg)" "ring_fresh rg"
        using new_ring_ok [OF num] by blast
      obtain d6 where act: "activate_queue M num p rg ?v5 = ?v5\<lparr>vd_world := d6\<rparr>"
        using activate_world [of M num p rg ?v5] by (elim exE)
      have fm: "fail_map_notify st rg block p (?v5\<lparr>vd_world := d\<rparr>) = Some (Inl st, v\<lparr>vd_world := d, vd_info := ?inf\<rparr>)" for st d
        using ring_fresh_shutdown [OF rg(2)] un by (auto simp: fail_map_notify_def)
      have "notify_readable M (?v5\<lparr>vd_world := d6\<rparr>)" using assms(3) by (simp add: notify_readable_def)
      from notify_address_total [OF this] obtain na where
        na: "notify_address M (ucast off) (?v5\<lparr>vd_world := d6\<rparr>) = Some na" by blast
      have blk: "(block = 0) = False" using False by simp
      note mid = start blk rg(1) [simplified blk, simplified] act [simplified blk, simplified] na [simplified blk, simplified]
      show ?thesis
      proof (cases na)
        case (Inl st)
        then show ?thesis using False fm [of st d6] fail [of st d6] notify_address_error [OF na [unfolded Inl]]
          by (simp add: mid)
      next
        case (Inr addr)
        let ?q = "\<lparr>vq_block = block, vq_index = of_nat i, vq_ring = rg, notification_addr = addr\<rparr>"
        have win: "setup_outcome i (Inr ?q) v (iowrite M QueueEnable 1 (?v5\<lparr>vd_world := d\<rparr>))" for d
          using False np pf bf [OF False] rg(2) unfolding setup_outcome_def iowrite_def
          by (intro exI [of _ "write_reg M QueueEnable 1 d"] exI [of _ ?inf])
            (auto intro!: exI [of _ num] exI [of _ p])
        show ?thesis
        proof (cases "vec = VIRTIO_MSI_NO_VECTOR")
          case True
          then show ?thesis
            using False fm [of VInsufficientResources d6] fail [of VInsufficientResources d6] win [of d6] Inr
            by (simp add: mid)
        next
          case vec: False
          obtain y v7 where y: "vio_modern_set_queue_vector M (of_nat i) vec (?v5\<lparr>vd_world := d6\<rparr>) = (y, v7)" by fastforce
          obtain d7 where d7: "v7 = ?v5\<lparr>vd_world := d7\<rparr>" using queue_vector_world [OF y] by auto
          show ?thesis
            using False fm [of VInsufficientResources d6] fail [of VInsufficientResources d6] vec
              fm [of VDeviceBusy d7] fail [of VDeviceBusy d7] win [of d7] Inr
            by (simp add: mid y [unfolded d7, simplified blk, simplified])
        qed
      qed
    qed
  qed
qed

section \<open>Who owns the memory\<close>

text \<open>The queues that are set up, and the block and the pages of each; the table of queues has a block of
  its own when it was enlarged.\<close>
definition live :: "('d, 'a) vdev \<Rightarrow> nat set" where
  "live v = {i. i < length (vd_info v) \<and> qi_vq (vd_info v ! i) \<noteq> None}"

definition blk :: "('d, 'a) vdev \<Rightarrow> nat \<Rightarrow> u64" where
  "blk v i = (case qi_vq (vd_info v ! i) of Some q \<Rightarrow> vq_block q | None \<Rightarrow> 0)"

definition pgs :: "('d, 'a) vdev \<Rightarrow> nat \<Rightarrow> u64" where
  "pgs v i = qi_queue (vd_info v ! i)"

definition table_block :: "('d, 'a) vdev \<Rightarrow> u64 set" where
  "table_block v = {vd_info_block v} - {0}"

definition ring_idle :: "('d, 'a) vdev \<Rightarrow> nat \<Rightarrow> bool" where
  "ring_idle v i = (case qi_vq (vd_info v ! i) of Some q \<Rightarrow> ring_fresh (vq_ring q) | None \<Rightarrow> True)"

text \<open>A heap: all that is held but \<^verbatim>\<open>B\<close> belongs to exactly one member of \<^verbatim>\<open>L\<close>.\<close>
definition owned :: "u64 set \<Rightarrow> u64 set \<Rightarrow> nat set \<Rightarrow> (nat \<Rightarrow> u64) \<Rightarrow> bool" where
  "owned B S L f \<longleftrightarrow> S = B \<union> f ` L \<and> inj_on f L \<and> B \<inter> f ` L = {} \<and> 0 \<notin> f ` L"

lemma owned_cong: "(\<And>i. i \<in> L \<Longrightarrow> f i = g i) \<Longrightarrow> owned B S L f = owned B S L g"
  by (simp add: owned_def cong: image_cong inj_on_cong)

lemma owned_insert:
  assumes "owned B S L f" "i \<notin> L" "a \<noteq> 0" "a \<notin> S" "g i = a" "\<And>j. j \<in> L \<Longrightarrow> g j = f j"
  shows "owned B (insert a S) (insert i L) g"
proof -
  have "owned B S L g" using owned_cong [of L g f] assms(1,6) by blast
  then show ?thesis using assms(2-5) by (auto simp: owned_def)
qed

lemma owned_delete:
  assumes "owned B S L f" "i \<in> L" "\<And>j. j \<in> L - {i} \<Longrightarrow> g j = f j"
  shows "owned B (S - {f i}) (L - {i}) g"
proof -
  have "owned B (S - {f i}) (L - {i}) f" using assms(1,2)
    by (auto simp: owned_def inj_on_diff dest: inj_onD)
  then show ?thesis using owned_cong [of "L - {i}" g f] assms(3) by blast
qed

definition owns :: "u64 set \<Rightarrow> u64 set \<Rightarrow> ('d, 'a) vdev \<Rightarrow> bool" where
  "owns B P v \<longleftrightarrow> owned (B \<union> table_block v) (vd_blocks v) (live v) (blk v) \<and> owned P (vd_pages v) (live v) (pgs v)
    \<and> B \<inter> table_block v = {} \<and> (\<forall>i \<in> live v. ring_idle v i) \<and> length (vd_info v) = vd_max_queues v"

lemma owns_idle: "owns B P v \<Longrightarrow> live v = {} \<Longrightarrow> vd_blocks v = B \<union> table_block v \<and> vd_pages v = P"
  by (simp add: owns_def owned_def)

text \<open>The four readings of an entry that is replaced.\<close>
lemma info_update:
  assumes "vd_info w = (vd_info v)[i := x]" "i < length (vd_info v)"
  shows "live w = (if qi_vq x = None then live v - {i} else insert i (live v))"
    "pgs w i = qi_queue x" "qi_vq x = Some q \<Longrightarrow> blk w i = vq_block q"
    "qi_vq x = Some q \<Longrightarrow> ring_idle w i = ring_fresh (vq_ring q)"
    "j \<noteq> i \<Longrightarrow> blk w j = blk v j" "j \<noteq> i \<Longrightarrow> pgs w j = pgs v j" "j \<noteq> i \<Longrightarrow> ring_idle w j = ring_idle v j"
  using assms by (auto simp: live_def blk_def pgs_def ring_idle_def nth_list_update)

lemma owns_same:
  assumes "vd_info w = vd_info v" "vd_blocks w = vd_blocks v" "vd_pages w = vd_pages v"
    "vd_info_block w = vd_info_block v" "vd_max_queues w = vd_max_queues v"
  shows "owns B P w = owns B P v" "live w = live v"
proof -
  have "live w = live v" "blk w = blk v" "pgs w = pgs v" "table_block w = table_block v" "ring_idle w = ring_idle v"
    using assms by (simp_all add: fun_eq_iff live_def blk_def pgs_def table_block_def ring_idle_def)
  then show "owns B P w = owns B P v" "live w = live v" using assms by (simp_all add: owns_def)
qed

text \<open>An entry that is not live may change.\<close>
lemma owns_dead:
  assumes "owns B P v" "i < length (vd_info v)" "i \<notin> live v" "qi_vq x = None"
    "w = v\<lparr>vd_world := d, vd_info := (vd_info v)[i := x]\<rparr>"
  shows "owns B P w" "live w = live v"
proof -
  have inf: "vd_info w = (vd_info v)[i := x]" by (simp add: assms(5))
  show l: "live w = live v" using info_update(1) [OF inf assms(2)] assms(3,4) by simp
  have e: "blk w j = blk v j" "pgs w j = pgs v j" "ring_idle w j = ring_idle v j" if "j \<in> live v" for j
  proof -
    have "j \<noteq> i" using that assms(3) by blast
    then show "blk w j = blk v j" "pgs w j = pgs v j" "ring_idle w j = ring_idle v j"
      by (simp_all add: info_update(5-7) [OF inf assms(2)])
  qed
  have "owned B' S (live v) (blk w) = owned B' S (live v) (blk v)"
    "owned B' S (live v) (pgs w) = owned B' S (live v) (pgs v)" for B' S
    by (rule owned_cong, erule e)+
  then show "owns B P w" using assms(1,5) l e(3) by (simp add: owns_def table_block_def)
qed

text \<open>A queue becomes live.\<close>
lemma owns_insert:
  assumes "owns B P v" "i < length (vd_info v)" "i \<notin> live v" "qi_vq x = Some q"
    "vq_block q \<noteq> 0" "vq_block q \<notin> vd_blocks v" "qi_queue x \<noteq> 0" "qi_queue x \<notin> vd_pages v"
    "ring_fresh (vq_ring q)"
    "w = v\<lparr>vd_world := d, vd_info := (vd_info v)[i := x],
      vd_pages := insert (qi_queue x) (vd_pages v), vd_blocks := insert (vq_block q) (vd_blocks v)\<rparr>"
  shows "owns B P w" "live w = insert i (live v)"
proof -
  have inf: "vd_info w = (vd_info v)[i := x]" by (simp add: assms(10))
  note u = info_update [OF inf assms(2)]
  show l: "live w = insert i (live v)" using u(1) assms(4) by simp
  have ne: "j \<noteq> i" if "j \<in> live v" for j using that assms(3) by blast
  have "owned (B \<union> table_block v) (insert (vq_block q) (vd_blocks v)) (insert i (live v)) (blk w)"
    using assms(1,3,5,6) u(3) [OF assms(4)] u(5) ne by (auto simp: owns_def intro!: owned_insert)
  moreover have "owned P (insert (qi_queue x) (vd_pages v)) (insert i (live v)) (pgs w)"
    using assms(1,3,7,8) u(2) u(6) ne by (auto simp: owns_def intro!: owned_insert)
  moreover have "ring_idle w j" if "j \<in> insert i (live v)" for j
    using that assms(1,9) u(4) [OF assms(4)] u(7) by (cases "j = i") (auto simp: owns_def)
  ultimately show "owns B P w" using assms(1,10) l by (simp add: owns_def table_block_def)
qed

text \<open>A live queue is given up.\<close>
lemma owns_delete:
  assumes "owns B P v" "i \<in> live v" "qi_vq x = None"
    "w = v\<lparr>vd_world := d, vd_info := (vd_info v)[i := x],
      vd_blocks := vd_blocks v - {blk v i}, vd_pages := vd_pages v - {pgs v i}\<rparr>"
  shows "owns B P w" "live w = live v - {i}"
proof -
  have i: "i < length (vd_info v)" using assms(2) by (simp add: live_def)
  have inf: "vd_info w = (vd_info v)[i := x]" by (simp add: assms(4))
  note u = info_update [OF inf i]
  show l: "live w = live v - {i}" using u(1) assms(3) by simp
  have "owned (B \<union> table_block v) (vd_blocks v - {blk v i}) (live v - {i}) (blk w)"
    using assms(1,2) u(5) by (auto simp: owns_def intro!: owned_delete)
  moreover have "owned P (vd_pages v - {pgs v i}) (live v - {i}) (pgs w)"
    using assms(1,2) u(6) by (auto simp: owns_def intro!: owned_delete)
  moreover have "ring_idle w j" if "j \<in> live v - {i}" for j using that assms(1) u(7) by (auto simp: owns_def)
  ultimately show "owns B P w" using assms(1,4) l by (simp add: owns_def table_block_def)
qed

section \<open>Setting up and deleting the queues\<close>

lemma vp_setup_vq_ok:
  assumes "fresh_alloc M" "page_available M (vd_pages v)" "notify_readable M v" "i < length (vd_info v)" "i < 2 ^ 16"
    "owns B P v" "i \<notin> live v"
  shows "\<exists>r v'. vp_setup_vq M i vec v = Some (r, v') \<and> owns B P v' \<and> notify_readable M v'
    \<and> length (vd_info v') = length (vd_info v)
    \<and> (case r of Inl st \<Rightarrow> st \<noteq> VSuccess \<and> live v' = live v | Inr q \<Rightarrow> live v' = insert i (live v))"
proof -
  have "unat (of_nat i :: u32) = i" using assms(5) by (simp add: unsigned_of_nat take_bit_nat_eq_self_iff)
  from setup_vq_ok [OF assms(1-4) this, of vec] obtain r v1 where
    s: "vio_modern_setup_vq M (of_nat i) vec v = Some (r, v1)" "setup_outcome i r v v1" by blast
  have dead: "qi_vq (vd_info v ! i) = None" using assms(4,7) by (simp add: live_def)
  show ?thesis
  proof (cases r)
    case (Inl st)
    then obtain d x where v1: "v1 = v\<lparr>vd_world := d, vd_info := (vd_info v)[i := x]\<rparr>" "qi_vq x = None" "st \<noteq> VSuccess"
      using s(2) dead unfolding setup_outcome_def by (auto intro: that [of "vd_info v ! i"])
    have "owns B P v1" "live v1 = live v" using owns_dead [OF assms(6,4,7) v1(2,1)] by blast+
    moreover have "notify_readable M v1" using assms(3) by (simp add: v1(1) notify_readable_def)
    ultimately show ?thesis using s(1) Inl v1(1,3) by (simp add: vp_setup_vq_def)
  next
    case (Inr q)
    let ?y = "\<lambda>n p. (vd_info v ! i)\<lparr>qi_num := n, qi_queue := p\<rparr>"
    obtain d n p where v1: "v1 = v\<lparr>vd_world := d, vd_info := (vd_info v)[i := ?y n p],
        vd_pages := insert p (vd_pages v), vd_blocks := insert (vq_block q) (vd_blocks v)\<rparr>"
      and fr: "p \<noteq> 0" "p \<notin> vd_pages v" "vq_block q \<noteq> 0" "vq_block q \<notin> vd_blocks v" "ring_fresh (vq_ring q)"
      using s(2) Inr unfolding setup_outcome_def by auto
    let ?x = "(?y n p)\<lparr>qi_vq := Some q\<rparr>"
    let ?w = "v\<lparr>vd_world := d, vd_info := (vd_info v)[i := ?x],
        vd_pages := insert (qi_queue ?x) (vd_pages v), vd_blocks := insert (vq_block q) (vd_blocks v)\<rparr>"
    have w: "vp_setup_vq M i vec v = Some (Inr q, ?w)"
      using s(1) Inr v1 assms(4) by (simp add: vp_setup_vq_def set_info_def nth_opt_def)
    have "owns B P ?w" "live ?w = insert i (live v)"
      using owns_insert [OF assms(6,4,7), of ?x q ?w d] fr by simp_all
    moreover have "notify_readable M ?w" using assms(3) by (simp add: notify_readable_def)
    ultimately show ?thesis using w by simp
  qed
qed

lemma del_vq_ok:
  assumes "owns B P v" "i \<in> live v"
  shows "\<exists>d. vio_modern_del_vq M (vd_info v ! i) v
    = Some (v\<lparr>vd_world := d, vd_blocks := vd_blocks v - {blk v i}, vd_pages := vd_pages v - {pgs v i}\<rparr>)"
proof -
  obtain q where q: "qi_vq (vd_info v ! i) = Some q" using assms(2) by (auto simp: live_def)
  have m: "blk v i \<in> vd_blocks v" "blk v i \<noteq> 0" "pgs v i \<in> vd_pages v" "pgs v i \<noteq> 0" "ring_idle v i"
    using assms by (auto simp: owns_def owned_def)
  then have "vq_block q \<in> vd_blocks v" "vq_block q \<noteq> 0" "qi_queue (vd_info v ! i) \<in> vd_pages v"
    "qi_queue (vd_info v ! i) \<noteq> 0" "shutdown_ring (vq_ring q) \<noteq> None"
    using ring_fresh_shutdown [of "vq_ring q"] by (simp_all add: q blk_def pgs_def ring_idle_def)
  then show ?thesis
    by (auto simp: vio_modern_del_vq_def q iowrite_def ioread_def Let_def mem_free_block_def mem_free_pages_def
      blk_def pgs_def split: prod.splits)
qed

lemma delete_one_ok:
  assumes "owns B P v" "i < length (vd_info v)"
  shows "\<exists>w. delete_one M i v = Some w \<and> owns B P w \<and> live w = live v - {i} \<and> length (vd_info w) = length (vd_info v)
    \<and> vd_max_queues w = vd_max_queues v \<and> vd_info_block w = vd_info_block v"
proof (cases "i \<in> live v")
  case False
  then show ?thesis using assms by (auto simp: delete_one_def nth_opt_def live_def)
next
  case True
  then obtain q where q: "qi_vq (vd_info v ! i) = Some q" by (auto simp: live_def)
  obtain d where d: "vio_modern_del_vq M (vd_info v ! i) v
      = Some (v\<lparr>vd_world := d, vd_blocks := vd_blocks v - {blk v i}, vd_pages := vd_pages v - {pgs v i}\<rparr>)"
    using del_vq_ok [OF assms(1) True] by blast
  let ?x = "(vd_info v ! i)\<lparr>qi_vq := None\<rparr>"
  let ?w = "v\<lparr>vd_world := d, vd_info := (vd_info v)[i := ?x],
      vd_blocks := vd_blocks v - {blk v i}, vd_pages := vd_pages v - {pgs v i}\<rparr>"
  have "delete_one M i v = Some ?w" using assms(2) by (simp add: delete_one_def nth_opt_def q d set_info_def)
  moreover have "owns B P ?w" "live ?w = live v - {i}"
    using owns_delete [OF assms(1) True, of ?x ?w d] by simp_all
  ultimately show ?thesis by simp
qed

lemma delete_queues_ok:
  fixes v :: "('d, 'a) vdev"
  assumes "owns B P v"
  shows "\<exists>w. virtio_delete_queues M v = Some w \<and> owns B P w \<and> live w = {} \<and> vd_info_block w = vd_info_block v"
proof -
  let ?I = "\<lambda>i w. owns B P w \<and> live w = live v - {0..<i} \<and> length (vd_info w) = length (vd_info v)
    \<and> vd_max_queues w = vd_max_queues v \<and> vd_info_block w = vd_info_block v"
  have "\<exists>w. for_loop 0 (vd_max_queues v) 1 (delete_one M) v = Some w \<and> ?I (vd_max_queues v) w"
  proof (rule for_loop_inv [where I = ?I])
    fix i and w :: "('d, 'a) vdev"
    assume i: "?I i w" "0 \<le> i" "i < vd_max_queues v"
    then have "i < length (vd_info w)" by (auto simp: owns_def)
    from delete_one_ok [OF conjunct1 [OF i(1)] this, of M] i(1)
    show "\<exists>w'. delete_one M i w = Some w' \<and> ?I (Suc i) w'" by (auto simp: atLeast0_lessThan_Suc)
  qed (use assms in auto)
  moreover have "live v - {0..<vd_max_queues v} = {}" using assms by (auto simp: owns_def live_def)
  ultimately show ?thesis by (auto simp: virtio_delete_queues_def)
qed

definition queues_after :: "vstatus \<Rightarrow> nat \<Rightarrow> nat set" where
  "queues_after st n = (if st = VSuccess then {0..<n} else {})"

lemma setup_queues_ok:
  assumes "fresh_alloc M" "pages_available M P (i + k)" "notify_readable M v" "owns B P v" "live v = {0..<i}"
    "i + k \<le> length (vd_info v)" "i + k \<le> 2 ^ 16"
  shows "\<exists>st w. setup_queues M k i v = Some (st, w) \<and> owns B P w
    \<and> live w = queues_after st (i + k)"
  using assms
proof (induction k arbitrary: i v)
  case 0
  then show ?case by (simp add: queues_after_def)
next
  case (Suc k)
  have i: "i < length (vd_info v)" "i < 2 ^ 16" "i \<notin> live v" using Suc.prems(5-7) by auto
  have "P \<subseteq> vd_pages v" "card (vd_pages v - P) \<le> i"
    using Suc.prems(4,5) card_image_le [of "{0..<i}" "pgs v"] by (auto simp: owns_def owned_def Diff_triv Un_Diff Int_commute)
  then have "page_available M (vd_pages v)" using Suc.prems(2) by (simp add: pages_available_def)
  from vp_setup_vq_ok [OF Suc.prems(1) this Suc.prems(3) i(1,2) Suc.prems(4) i(3), of "msix_vector M (Some i)"]
  obtain r v1 where s: "vp_setup_vq M i (msix_vector M (Some i)) v = Some (r, v1)" "owns B P v1" "notify_readable M v1"
    "length (vd_info v1) = length (vd_info v)"
    "case r of Inl st \<Rightarrow> st \<noteq> VSuccess \<and> live v1 = live v | Inr q \<Rightarrow> live v1 = insert i (live v)" by blast
  show ?case
  proof (cases r)
    case (Inl st)
    then show ?thesis using delete_queues_ok [OF s(2), of M] s(1,5) by (auto simp: queues_after_def)
  next
    case (Inr q)
    have "live v1 = {0..<Suc i}" using s(5) Inr Suc.prems(5) by auto
    from Suc.IH [OF Suc.prems(1) _ s(3,2) this] Suc.prems(2,6,7) s(4) obtain st w where
      "setup_queues M k (Suc i) v1 = Some (st, w)" "owns B P w" "live w = queues_after st (Suc i + k)"
      by auto
    then show ?thesis using s(1) Inr by (intro exI [of _ st] exI [of _ w]) simp
  qed
qed

lemma reserve_ok:
  assumes "fresh_alloc M" "owns B P v" "live v = {}"
  shows "\<exists>st w. virtio_reserve_queue_memory M n v = Some (st, w) \<and> owns B P w \<and> live w = {}
    \<and> notify_readable M w = notify_readable M v \<and> (st = VSuccess \<longrightarrow> n \<le> length (vd_info w))"
proof (cases "vd_max_queues v < n")
  case False
  then show ?thesis using assms by (auto simp: virtio_reserve_queue_memory_def owns_def)
next
  case True
  obtain p d where t: "take_block M (of_nat n * SIZEOF_QUEUE_INFO) (vd_blocks v) (vd_world v) = (p, d)" by fastforce
  then have f: "p \<noteq> 0 \<Longrightarrow> p \<notin> vd_blocks v" by (rule fresh_allocD(2) [OF assms(1)])
  let ?t = "vd_info_block v"
  have bl: "vd_blocks v = B \<union> table_block v" "vd_pages v = P" "B \<inter> table_block v = {}"
    using owns_idle [OF assms(2,3)] assms(2) by (auto simp: owns_def)
  let ?v1 = "v\<lparr>vd_world := d, vd_blocks := (if p = 0 then vd_blocks v else insert p (vd_blocks v))\<rparr>"
  let ?w = "v\<lparr>vd_world := d, vd_blocks := (if ?t = 0 then insert p (vd_blocks v) else insert p (vd_blocks v) - {?t}),
      vd_info := replicate n empty_info, vd_info_block := p, vd_max_queues := n\<rparr>"
  have a: "mem_alloc_block M (of_nat n * SIZEOF_QUEUE_INFO) v = (p, ?v1)" by (simp add: mem_alloc_block_def t)
  show ?thesis
  proof (cases "p = 0")
    case p0: True
    have "owns B P ?v1 = owns B P v" "live ?v1 = live v" by (rule owns_same; simp add: p0)+
    then show ?thesis using True a p0 assms(2,3)
      by (simp add: virtio_reserve_queue_memory_def) (simp add: notify_readable_def)
  next
    case p: False
    have l: "live ?w = {}" by (auto simp: live_def empty_info_def)
    have "(if ?t = 0 then insert p (vd_blocks v) else insert p (vd_blocks v) - {?t}) = B \<union> {p}"
      using bl(1,3) f p by (auto simp: table_block_def)
    then have "owns B P ?w" using l bl f p by (auto simp: owns_def owned_def table_block_def)
    moreover have "virtio_reserve_queue_memory M n v = Some (VSuccess, ?w)"
      using True a p bl(1) by (auto simp: virtio_reserve_queue_memory_def mem_free_block_def table_block_def)
    ultimately show ?thesis using l by (simp add: notify_readable_def)
  qed
qed

lemma find_queues_ok:
  assumes "fresh_alloc M" "pages_available M P n" "notify_readable M v" "owns B P v" "live v = {}" "n \<le> 2 ^ 16"
  shows "\<exists>st w. virtio_find_queues M n v = Some (st, w) \<and> owns B P w
    \<and> live w = queues_after st n"
proof -
  obtain st v1 where r: "virtio_reserve_queue_memory M n v = Some (st, v1)" "owns B P v1" "live v1 = {}"
    "notify_readable M v1" "st = VSuccess \<longrightarrow> n \<le> length (vd_info v1)"
    using reserve_ok [OF assms(1,4,5), of n] assms(3) by blast
  show ?thesis
  proof (cases "st = VSuccess")
    case False
    then show ?thesis using r(1-3) by (auto simp: virtio_find_queues_def queues_after_def)
  next
    case True
    have go: "\<exists>st w. setup_queues M n 0 (v1\<lparr>vd_world := d\<rparr>) = Some (st, w) \<and> owns B P w
        \<and> live w = queues_after st n"
      and del: "\<exists>w. virtio_delete_queues M (v1\<lparr>vd_world := d\<rparr>) = Some w \<and> owns B P w \<and> live w = {}" for d
    proof -
      have o: "owns B P (v1\<lparr>vd_world := d\<rparr>)" "live (v1\<lparr>vd_world := d\<rparr>) = {}"
        using owns_same [where w = "v1\<lparr>vd_world := d\<rparr>" and v = v1] r(2,3) by simp_all
      moreover have "notify_readable M (v1\<lparr>vd_world := d\<rparr>)" using r(4) by (simp add: notify_readable_def)
      ultimately show "\<exists>st w. setup_queues M n 0 (v1\<lparr>vd_world := d\<rparr>) = Some (st, w) \<and> owns B P w
          \<and> live w = queues_after st n"
        using setup_queues_ok [OF assms(1), where v = "v1\<lparr>vd_world := d\<rparr>" and B = B and P = P and i = 0 and k = n] r(5) True assms(2,6) by simp
      show "\<exists>w. virtio_delete_queues M (v1\<lparr>vd_world := d\<rparr>) = Some w \<and> owns B P w \<and> live w = {}"
        using delete_queues_ok [OF o(1), of M] by blast
    qed
    obtain vec v2 where c: "vio_modern_set_config_vector M (msix_vector M None) v1 = (vec, v2)" by fastforce
    obtain d2 where v2: "v2 = v1\<lparr>vd_world := d2\<rparr>" using c
      by (auto simp: vio_modern_set_config_vector_def ioread_def iowrite_def split: prod.splits)
    have "v1\<lparr>vd_world := vd_world v1\<rparr> = v1" by simp
    then show ?thesis using r(1) True go [of d2] go [of "vd_world v1"] del [of d2] c v2
      by (auto simp: virtio_find_queues_def Let_def queues_after_def [of VDeviceBusy])
  qed
qed

lemma shutdown_ok:
  assumes "owns B P v" "live v = {}"
  shows "\<exists>w. virtio_device_shutdown v = Some w \<and> vd_blocks w = B \<and> vd_pages w = P"
proof -
  have h: "vd_blocks v = B \<union> table_block v" "vd_pages v = P" "B \<inter> table_block v = {}"
    using owns_idle [OF assms] assms(1) by (auto simp: owns_def)
  then show ?thesis by (auto simp: virtio_device_shutdown_def mem_free_block_def table_block_def)
qed

text \<open>The life of the queues: set up, whatever the outcome; deleted; the device shut down.\<close>
definition queues_life :: "'d machine \<Rightarrow> nat \<Rightarrow> ('d, 'a) vdev \<Rightarrow> (vstatus \<times> ('d, 'a) vdev) option" where
  "queues_life M n v = do {
     (st, v1) \<leftarrow> virtio_find_queues M n v;
     v2 \<leftarrow> virtio_delete_queues M v1;
     v3 \<leftarrow> virtio_device_shutdown v2;
     Some (st, v3) }"

lemma queues_life_ok:
  assumes "fresh_alloc M" "pages_available M P n" "notify_readable M v" "owns B P v" "live v = {}" "n \<le> 2 ^ 16"
  shows "\<exists>st w. queues_life M n v = Some (st, w) \<and> vd_blocks w = B \<and> vd_pages w = P"
proof -
  obtain st v1 where f: "virtio_find_queues M n v = Some (st, v1)" "owns B P v1"
    using find_queues_ok [OF assms] by blast
  obtain v2 where d: "virtio_delete_queues M v1 = Some v2" "owns B P v2" "live v2 = {}"
    using delete_queues_ok [OF f(2)] by blast
  obtain w where "virtio_device_shutdown v2 = Some w" "vd_blocks w = B" "vd_pages w = P"
    using shutdown_ok [OF d(2,3)] by blast
  then show ?thesis using f(1) d(1) by (simp add: queues_life_def)
qed

section \<open>The walk over the capabilities\<close>

text \<open>Configuration space answers every read of a byte.\<close>
definition conf_readable :: "'d machine \<Rightarrow> 'd \<Rightarrow> bool" where
  "conf_readable M d \<longleftrightarrow> (\<forall>i < 512. cfg_byte M i d \<noteq> None)"

text \<open>What one capability does to the table of offsets, once its bytes can be read.\<close>
definition note_capability :: "'d machine \<Rightarrow> 'd \<Rightarrow> u8 \<Rightarrow> nat list \<Rightarrow> nat list" where
  "note_capability M d offset caps = the (record_capability M d offset caps)"

lemma record_readable:
  assumes "conf_readable M d"
  shows "record_capability M d offset caps = Some (note_capability M d offset caps)"
proof -
  have "unat offset < 2 ^ LENGTH(8)" by (rule unsigned_less)
  then have "unat offset + 3 < 512" "unat offset + 4 < 512" by simp_all
  then have "cfg_byte M (unat offset + 3) d \<noteq> None" "cfg_byte M (unat offset + 4) d \<noteq> None"
    using assms by (simp_all add: conf_readable_def)
  then show ?thesis by (auto simp: note_capability_def record_capability_def)
qed

text \<open>The first \<^verbatim>\<open>n\<close> offsets of the chain that starts at \<^verbatim>\<open>offset\<close>.\<close>
fun cap_chain :: "'d machine \<Rightarrow> 'd \<Rightarrow> nat \<Rightarrow> u8 \<Rightarrow> u8 list" where
  "cap_chain M d 0 offset = []"
| "cap_chain M d (Suc n) offset = offset # cap_chain M d n (next_capability M d offset)"

lemma capability_loop_0 [simp]: "capability_loop M d 0 caps = Some caps"
  by (subst capability_loop.simps) simp

lemma capability_loop_step:
  "conf_readable M d \<Longrightarrow> offset \<noteq> 0 \<Longrightarrow>
   capability_loop M d offset caps = capability_loop M d (next_capability M d offset) (note_capability M d offset caps)"
  by (subst capability_loop.simps) (simp add: record_readable word_gt_0)

lemma capability_loop_chain:
  assumes "conf_readable M d" "(next_capability M d ^^ n) offset = 0" "0 \<notin> set (cap_chain M d n offset)"
  shows "capability_loop M d offset caps = Some (fold (note_capability M d) (cap_chain M d n offset) caps)"
  using assms(2,3)
proof (induction n arbitrary: offset caps)
  case (Suc n)
  then show ?case using capability_loop_step [OF assms(1), of offset caps] by (simp add: funpow_swap1)
qed simp

lemma capability_loop_ends:
  assumes "capability_loop M d offset caps = Some caps'"
  shows "\<exists>n. (next_capability M d ^^ n) offset = 0 \<and> 0 \<notin> set (cap_chain M d n offset)"
  using assms
proof (induction rule: capability_loop.raw_induct [of _ M d offset caps caps', rotated, consumes 1])
  case (1 loop M d offset caps caps')
  show ?case
  proof (cases "offset = 0")
    case True
    then show ?thesis by (intro exI [of _ 0]) simp
  next
    case False
    then obtain c where "loop M d (next_capability M d offset) c = Some caps'"
      using 1(2) by (auto simp: word_gt_0 bind_eq_Some_conv)
    then obtain n where "(next_capability M d ^^ n) (next_capability M d offset) = 0"
      "0 \<notin> set (cap_chain M d n (next_capability M d offset))" using 1(1) by blast
    then show ?thesis using False by (intro exI [of _ "Suc n"]) (simp add: funpow_swap1)
  qed
qed

lemma cap_chain_before:
  "(\<And>m. m < n \<Longrightarrow> (next_capability M d ^^ m) offset \<noteq> 0) \<Longrightarrow> 0 \<notin> set (cap_chain M d n offset)"
proof (induction n arbitrary: offset)
  case (Suc n)
  have "(next_capability M d ^^ m) (next_capability M d offset) \<noteq> 0" if "m < n" for m
    using Suc.prems [of "Suc m"] that by (simp add: funpow_swap1)
  then show ?case using Suc.IH Suc.prems [of 0] by auto
qed simp

lemma capability_loop_reference:
  assumes "conf_readable M d"
  shows "capability_loop M d offset caps = (if \<exists>n. (next_capability M d ^^ n) offset = 0
    then Some (fold (note_capability M d) (cap_chain M d (LEAST n. (next_capability M d ^^ n) offset = 0) offset) caps)
    else None)"
proof (cases "\<exists>n. (next_capability M d ^^ n) offset = 0")
  case True
  let ?n = "LEAST n. (next_capability M d ^^ n) offset = 0"
  have "(next_capability M d ^^ ?n) offset = 0" using True by (rule LeastI_ex)
  moreover have "0 \<notin> set (cap_chain M d ?n offset)" by (rule cap_chain_before) (rule not_less_Least)
  ultimately show ?thesis using True capability_loop_chain [OF assms] by simp
next
  case False
  then show ?thesis using capability_loop_ends [of M d offset caps] by (cases "capability_loop M d offset caps") auto
qed

section \<open>The properties\<close>

text \<open>A machine of two pages of queues: three addresses of each heap, two queues of four entries.\<close>
definition demo_take :: "u64 set \<Rightarrow> u64" where
  "demo_take h = (case List.find (\<lambda>a. a \<notin> h) [0x1000, 0x2000, 0x3000] of Some a \<Rightarrow> a | None \<Rightarrow> 0)"

definition demo_machine :: "(nat \<Rightarrow> u8) \<Rightarrow> unit machine" where
  "demo_machine cfg = \<lparr>read_reg = (\<lambda>r d. (case r of NumQueues \<Rightarrow> 2 | QueueSize \<Rightarrow> 4 | _ \<Rightarrow> 0, d)),
     write_reg = (\<lambda>_ _ d. d), read_conf = (\<lambda>_ _ d. (0, d)), write_conf = (\<lambda>_ _ _ d. d),
     cfg_byte = (\<lambda>i d. Some (cfg i)), cfg_word = (\<lambda>i d. Some 0x10), cfg_dword = (\<lambda>i d. Some 0),
     res_len = (\<lambda>_. 0x4000), map_range = (\<lambda>_ off len. 0x8000 + off), msix_vector = (\<lambda>_. 0xFFFF),
     take_pages = (\<lambda>n h d. (demo_take h, d)), take_block = (\<lambda>n h d. (demo_take h, d)), phys_of = (\<lambda>a. a),
     sleep = (\<lambda>d. d), sizeof_split = 200, sizeof_packed = 200, sizeof_state = 24\<rparr>"

definition demo_vdev :: "(unit, nat) vdev" where
  "demo_vdev = \<lparr>vd_world = (), vd_msix_used = False, vd_event_suppression = False, vd_packed_ring = False,
     vd_modern = True, vd_isr = 0x8000, vd_common = 0x8100, vd_config = 0, vd_config_len = 0, vd_notify_base = 0x8200,
     vd_notify_len = 0x1000, vd_notify_map_cap = 0, vd_notify_multiplier = 4, vd_max_queues = 8,
     vd_info = replicate 8 empty_info, vd_info_block = 0, vd_pages = {}, vd_blocks = {}\<rparr>"

lemma demo_take_fresh: "demo_take h \<noteq> 0 \<Longrightarrow> demo_take h \<notin> h"
  by (auto simp: demo_take_def split: if_splits)

lemma demo_take_page:
  assumes "card (h :: u64 set) < 3"
  shows "demo_take h \<noteq> 0"
proof
  assume "demo_take h = 0"
  then have "{0x1000, 0x2000, 0x3000} \<subseteq> h" by (auto simp: demo_take_def split: if_splits)
  from card_mono [OF _ this] show False using assms by simp
qed

lemma demo_machine_memory: "fresh_alloc (demo_machine cfg)" "pages_available (demo_machine cfg) {} 3"
  using demo_take_fresh demo_take_page
  by (simp_all add: fresh_alloc_def pages_available_def page_available_def demo_machine_def)

lemma demo_vdev_idle: "live demo_vdev = {}" "owns {} {} demo_vdev" "notify_readable M demo_vdev"
proof -
  show l: "live demo_vdev = {}" by (auto simp: live_def demo_vdev_def empty_info_def)
  show "owns {} {} demo_vdev" unfolding owns_def l by (simp add: owned_def demo_vdev_def table_block_def)
  show "notify_readable M demo_vdev" by (simp add: demo_vdev_def notify_readable_def)
qed






text \<open>A vendor capability at 0x40 whose next pointer is 0x40.\<close>
definition demo_cyclic :: "nat \<Rightarrow> u8" where
  "demo_cyclic i = (if i = 0x34 then 0x40 else if i = 0x40 then 9 else if i = 0x41 then 0x40 else 0)"


end
