(* ===== verification/PciResources.thy ===== *)
theory PciResources
  imports VirtioPciProps
begin

text \<open>
  The resources of the PCI device: \<^verbatim>\<open>CPciBar\<close> and \<^verbatim>\<open>CPciResources\<close> of
  \<^verbatim>\<open>src/IntelVirtDisplayKMD/viogpu_pci.cpp\<close>, and the part of \<^verbatim>\<open>VioGpuSystemOps\<close> the transport
  sees of them.  Mapping of device memory (\<^verbatim>\<open>MmMapIoSpace\<close>) is the parameter \<open>map_io\<close>: the
  address, or 0.
\<close>

unbundle bit_operations_syntax

section \<open>Base address registers\<close>

record pci_bar =
  m_BasePA :: u64
  m_uSize :: u32
  m_BaseVA :: u64
  m_bPortSpace :: bool
  m_bIoMapped :: bool

definition no_bar :: pci_bar where
  "no_bar = \<lparr>m_BasePA = 0, m_uSize = 0, m_BaseVA = 0, m_bPortSpace = False, m_bIoMapped = True\<rparr>"

definition memory_bar :: "u64 \<Rightarrow> u32 \<Rightarrow> pci_bar" where
  "memory_bar pa len = \<lparr>m_BasePA = pa, m_uSize = len, m_BaseVA = 0, m_bPortSpace = False, m_bIoMapped = True\<rparr>"

text \<open>\<^verbatim>\<open>map_port\<close> is the callback for a port range that is mapped.\<close>
definition get_va :: "(u64 \<Rightarrow> u32 \<Rightarrow> u64) \<Rightarrow> (u64 \<Rightarrow> u32 \<Rightarrow> u64) \<Rightarrow> pci_bar \<Rightarrow> u64 \<times> pci_bar" where
  "get_va map_io map_port b =
     (if m_BaseVA b \<noteq> 0 then (m_BaseVA b, b)
      else
        let va = (if m_bPortSpace b
          then (if m_bIoMapped b then map_port (m_BasePA b) (m_uSize b) else m_BasePA b)
          else map_io (m_BasePA b) (m_uSize b)) in
        (va, b\<lparr>m_BaseVA := va\<rparr>))"

text \<open>\<^verbatim>\<open>Unmap\<close>, with the range it gives back.\<close>
definition bar_unmap :: "pci_bar \<Rightarrow> (u64 \<times> u32) option \<times> pci_bar" where
  "bar_unmap b =
     (if m_BaseVA b \<noteq> 0 \<and> \<not> m_bPortSpace b then Some (m_BaseVA b, m_uSize b) else None, b\<lparr>m_BaseVA := 0\<rparr>)"

section \<open>The list of resources\<close>

datatype res_desc = Interrupt u16 | Memory u64 u32 | OtherResource

record pci_resources =
  m_InterruptFlags :: u16
  m_Bars :: "pci_bar list"

definition CM_RESOURCE_INTERRUPT_MESSAGE :: u16 where "CM_RESOURCE_INTERRUPT_MESSAGE = 2"

definition is_msi_enabled :: "pci_resources \<Rightarrow> bool" where
  "is_msi_enabled r = (m_InterruptFlags r AND CM_RESOURCE_INTERRUPT_MESSAGE \<noteq> 0)"

text \<open>One turn of the loop of \<^verbatim>\<open>CPciResources::Init\<close>: the resources, was an interrupt found, the last index.\<close>
fun enumerate_one :: "u32 list \<Rightarrow> res_desc \<Rightarrow> pci_resources \<times> bool \<times> int \<Rightarrow> (pci_resources \<times> bool \<times> int) option" where
  "enumerate_one bars (Interrupt flags) (r, f, bar) = Some (r\<lparr>m_InterruptFlags := flags\<rparr>, True, bar)"
| "enumerate_one bars (Memory start len) (r, f, bar) = do {
     bar' \<leftarrow> virtio_get_bar_index bars start;
     Some (if bar' < 0 then (r, f, bar') else (r\<lparr>m_Bars := (m_Bars r)[nat bar' := memory_bar start len]\<rparr>, f, bar')) }"
| "enumerate_one bars OtherResource (r, f, bar) = Some (r, f, bar)"

fun enumerate :: "u32 list \<Rightarrow> res_desc list \<Rightarrow> pci_resources \<times> bool \<times> int \<Rightarrow> (pci_resources \<times> bool \<times> int) option" where
  "enumerate bars [] s = Some s"
| "enumerate bars (x # xs) s = do { s' \<leftarrow> enumerate_one bars x s; enumerate bars xs s' }"

text \<open>\<^verbatim>\<open>header\<close> is the device's header, \<^verbatim>\<open>None\<close> when it can not be read.\<close>
definition resources_init :: "u32 list option \<Rightarrow> res_desc list \<Rightarrow> pci_resources \<Rightarrow> (bool \<times> pci_resources) option" where
  "resources_init header xs r = (case header of
     None \<Rightarrow> Some (False, r)
   | Some bars \<Rightarrow> do {
       (r', found, bar) \<leftarrow> enumerate bars xs (r, False, - 1);
       Some (\<not> (bar < 0 \<or> \<not> found), r') })"

definition new_resources :: pci_resources where
  "new_resources = \<lparr>m_InterruptFlags = 0, m_Bars = replicate (unat PCI_TYPE0_ADDRESSES) no_bar\<rparr>"

definition get_bar_size :: "pci_resources \<Rightarrow> nat \<Rightarrow> u32" where
  "get_bar_size r bar = (if unat PCI_TYPE0_ADDRESSES \<le> bar then 0 else m_uSize (m_Bars r ! bar))"

definition get_mapped_address ::
  "(u64 \<Rightarrow> u32 \<Rightarrow> u64) \<Rightarrow> (u64 \<Rightarrow> u32 \<Rightarrow> u64) \<Rightarrow> nat \<Rightarrow> u32 \<Rightarrow> pci_resources \<Rightarrow> u64 \<times> pci_resources" where
  "get_mapped_address map_io map_port bar off r =
     (if unat PCI_TYPE0_ADDRESSES \<le> bar then (0, r)
      else
        let b = m_Bars r ! bar;
            (va, b') = (if off < m_uSize b then get_va map_io map_port b else (0, b));
            r' = r\<lparr>m_Bars := (m_Bars r)[bar := b']\<rparr> in
        if va \<noteq> 0
        then (if m_bPortSpace b' then ucast (ucast (m_BasePA b') :: u32) + ucast off else va + ucast off, r')
        else (0, r'))"

section \<open>What the transport is given\<close>

definition VIRTIO_GPU_MSIX_CONFIG_VECTOR :: u16 where "VIRTIO_GPU_MSIX_CONFIG_VECTOR = 0"

definition vdev_get_msix_vector :: "pci_resources \<Rightarrow> nat option \<Rightarrow> u16" where
  "vdev_get_msix_vector r queue = (case queue of
     Some q \<Rightarrow> if is_msi_enabled r then of_nat (q + 1) else VIRTIO_MSI_NO_VECTOR
   | None \<Rightarrow> VIRTIO_GPU_MSIX_CONFIG_VECTOR)"

definition pci_get_resource_len :: "pci_resources \<Rightarrow> nat \<Rightarrow> u64" where
  "pci_get_resource_len r bar = ucast (get_bar_size r bar)"

definition pci_map_address_range ::
  "(u64 \<Rightarrow> u32 \<Rightarrow> u64) \<Rightarrow> (u64 \<Rightarrow> u32 \<Rightarrow> u64) \<Rightarrow> nat \<Rightarrow> u64 \<Rightarrow> u64 \<Rightarrow> pci_resources \<Rightarrow> u64 \<times> pci_resources" where
  "pci_map_address_range map_io map_port bar off maxlen r = get_mapped_address map_io map_port bar (ucast off) r"

text \<open>The machine of the kernel-mode driver: the resources it was started with below the rest of \<^verbatim>\<open>M\<close>.  A bar is
  mapped once, so the address does not depend on the calls before.\<close>
definition kmd_machine :: "(u64 \<Rightarrow> u32 \<Rightarrow> u64) \<Rightarrow> (u64 \<Rightarrow> u32 \<Rightarrow> u64) \<Rightarrow> pci_resources \<Rightarrow> 'd machine \<Rightarrow> 'd machine" where
  "kmd_machine map_io map_port r M = M\<lparr>res_len := pci_get_resource_len r,
     map_range := (\<lambda>bar off len. fst (pci_map_address_range map_io map_port bar off len r)),
     msix_vector := vdev_get_msix_vector r\<rparr>"

section \<open>Properties\<close>

definition memory_bars :: "pci_resources \<Rightarrow> bool" where
  "memory_bars r \<longleftrightarrow> length (m_Bars r) = 6 \<and> (\<forall>b \<in> set (m_Bars r). \<not> m_bPortSpace b)"

lemma mapped_address_cases:
  assumes "memory_bars r" "fst (get_mapped_address map_io map_port bar off r) \<noteq> 0"
  shows "bar < 6 \<and> off < m_uSize (m_Bars r ! bar) \<and> fst (get_va map_io map_port (m_Bars r ! bar)) \<noteq> 0
    \<and> fst (get_mapped_address map_io map_port bar off r) = fst (get_va map_io map_port (m_Bars r ! bar)) + ucast off"
proof -
  have b: "bar < 6" using assms(2) by (auto simp: get_mapped_address_def PCI_TYPE0_ADDRESSES_def split: if_splits)
  then have "\<not> m_bPortSpace (m_Bars r ! bar)" using assms(1) by (auto simp: memory_bars_def)
  then have "\<not> m_bPortSpace (snd (get_va map_io map_port (m_Bars r ! bar)))" by (simp add: get_va_def Let_def)
  then show ?thesis using assms(2) b
    by (auto simp: get_mapped_address_def PCI_TYPE0_ADDRESSES_def Let_def split: if_splits prod.splits)
qed

lemma mapped_address:
  assumes "memory_bars r" "bar < 6" "off < m_uSize (m_Bars r ! bar)" "fst (get_va mi mp (m_Bars r ! bar)) \<noteq> 0"
  shows "fst (get_mapped_address mi mp bar off r) = fst (get_va mi mp (m_Bars r ! bar)) + ucast off"
proof -
  obtain va b where g: "get_va mi mp (m_Bars r ! bar) = (va, b)" by fastforce
  have "\<not> m_bPortSpace (m_Bars r ! bar)" using assms(1,2) by (auto simp: memory_bars_def)
  moreover have "m_bPortSpace b = m_bPortSpace (m_Bars r ! bar)" using g by (auto simp: get_va_def Let_def split: if_splits)
  ultimately show ?thesis using assms(2-4) g by (simp add: get_mapped_address_def PCI_TYPE0_ADDRESSES_def Let_def)
qed

text \<open>A bar is mapped once: the second call gives the same address and changes nothing.\<close>
lemma get_va_idem:
  assumes "get_va map_io map_port b = (va, b')" "va \<noteq> 0"
  shows "get_va map_io map_port b' = (va, b')"
  using assms by (auto simp: get_va_def Let_def split: if_splits)

lemma kmd_machine_cfg [simp]:
  "cfg_byte (kmd_machine mi mp r M) = cfg_byte M" "cfg_dword (kmd_machine mi mp r M) = cfg_dword M"
  "read_conf (kmd_machine mi mp r M) = read_conf M"
  "res_len (kmd_machine mi mp r M) = pci_get_resource_len r"
  "map_range (kmd_machine mi mp r M) bar off len = fst (get_mapped_address mi mp bar (ucast off) r)"
  by (simp_all add: kmd_machine_def pci_map_address_range_def)

lemma map_capability_mapped:
  assumes "vio_modern_map_capability M d cap minlen alignment start sz = Some (a, l)" "a \<noteq> 0"
  shows "\<exists>bar off len. \<not> PCI_TYPE0_ADDRESSES \<le> bar \<and> \<not> res_len M (unat bar) < ucast (off :: u32) + minlen
    \<and> a = map_range M (unat bar) (ucast off) len"
proof -
  obtain bar bo bl where b: "cfg_byte M (cap + 4) d = Some bar" "\<not> PCI_TYPE0_ADDRESSES \<le> bar"
    "cfg_dword M (cap + 8) d = Some bo" "cfg_dword M (cap + 12) d = Some bl"
    using assms by (cases "cfg_byte M (cap + 4) d"; cases "cfg_dword M (cap + 8) d"; cases "cfg_dword M (cap + 12) d")
      (simp_all add: vio_modern_map_capability_def split: if_splits)
  let ?off = "bo + start"
  let ?len = "if sz < bl - start then sz else bl - start"
  have "(if ucast bl < ucast start + minlen then Some (0, None)
      else if ?off AND (alignment - 1) \<noteq> 0 then Some (0, None)
      else if res_len M (unat bar) < ucast ?off + minlen then Some (0, Some ?len)
      else Some (map_range M (unat bar) (ucast ?off) (ucast ?len), Some ?len)) = Some (a, l)"
    using assms(1) by (simp only: vio_modern_map_capability_def b bind.bind_lunit if_False Let_def)
  then have "\<not> res_len M (unat bar) < ucast ?off + minlen \<and> a = map_range M (unat bar) (ucast ?off) (ucast ?len)"
    using assms(2) by (simp only: split: if_split_asm) (auto simp only: option.inject prod.inject if_True if_False)
  then show ?thesis using b(2) by blast
qed

text \<open>A capability that is mapped with a least length lies with that many bytes inside the mapping of its BAR: the
  pointers to the common configuration and the interrupt status that the driver uses never lead outside it.\<close>
theorem mapped_capability_inside_bar:
  assumes "vio_modern_map_capability (kmd_machine mi mp r M) d cap minlen alignment start sz = Some (a, l)" "a \<noteq> 0"
    "memory_bars r" "unat minlen < 2 ^ 32"
  shows "\<exists>bar off. bar < 6 \<and> a = fst (get_va mi mp (m_Bars r ! bar)) + ucast (off :: u32)
    \<and> unat off + unat minlen \<le> unat (m_uSize (m_Bars r ! bar))"
proof -
  obtain bar off where c: "\<not> PCI_TYPE0_ADDRESSES \<le> bar"
    "\<not> pci_get_resource_len r (unat bar) < ucast (off :: u32) + minlen"
    "a = fst (get_mapped_address mi mp (unat bar) (ucast (ucast off :: u64)) r)"
    using map_capability_mapped [OF assms(1,2)] by (simp only: kmd_machine_cfg) (elim exE conjE, rule that)
  have o: "(ucast (ucast off :: u64) :: u32) = off"
    by (rule bit_word_eqI) (simp add: bit_ucast_iff)
  have m: "unat bar < 6" "a = fst (get_va mi mp (m_Bars r ! unat bar)) + ucast off"
    using mapped_address_cases [OF assms(3), of mi mp "unat bar" off] assms(2) c(3) unfolding o by metis+
  have "unat (ucast off + minlen :: u64) = unat off + unat minlen"
    using assms(4) unsigned_less [of off, where 'a = nat] by (simp add: unat_word_ariths unat_ucast_u32_u64)
  moreover have "pci_get_resource_len r (unat bar) = ucast (m_uSize (m_Bars r ! unat bar))"
    using m(1) by (simp add: pci_get_resource_len_def get_bar_size_def PCI_TYPE0_ADDRESSES_def)
  ultimately have "unat off + unat minlen \<le> unat (m_uSize (m_Bars r ! unat bar))"
    using c(2) by (simp add: word_less_nat_alt unat_ucast_u32_u64)
  then show ?thesis using m by blast
qed

lemma ucast_u32_u64_less: "((ucast a :: u64) < ucast b) = ((a :: u32) < b)"
  by (simp add: word_less_nat_alt unat_ucast_u32_u64)

definition demo_resources :: pci_resources where
  "demo_resources = new_resources\<lparr>m_Bars := (m_Bars new_resources)[2 := memory_bar 0xF0000000 0x1000]\<rparr>"

definition demo_map :: "u64 \<Rightarrow> u32 \<Rightarrow> u64" where
  "demo_map pa len = 0x80000000"

text \<open>A capability at 0x40 in bar 2, of 0x100 bytes from 0xFF0.\<close>
definition demo_bus :: "unit machine" where
  "demo_bus = \<lparr>read_reg = (\<lambda>r d. (0, d)), write_reg = (\<lambda>_ _ d. d), read_conf = (\<lambda>a n d. (7, d)), write_conf = (\<lambda>_ _ _ d. d),
     cfg_byte = (\<lambda>i d. Some 2), cfg_word = (\<lambda>i d. Some 0), cfg_dword = (\<lambda>i d. Some (if i = 0x48 then 0xFF0 else 0x100)),
     res_len = (\<lambda>_. 0), map_range = (\<lambda>_ _ _. 0), msix_vector = (\<lambda>_. 0xFFFF),
     take_pages = (\<lambda>n h d. (0, d)), take_block = (\<lambda>n h d. (0, d)), phys_of = (\<lambda>a. a),
     sleep = (\<lambda>d. d), sizeof_split = 200, sizeof_packed = 200, sizeof_state = 24\<rparr>"

lemma demo_resources_memory: "memory_bars demo_resources"
  by code_simp

theorem mapped_capability_inside_bar_witness:
  "\<exists>bar off. bar < 6 \<and> 0x80000FF0 = fst (get_va demo_map demo_map (m_Bars demo_resources ! bar)) + ucast (off :: u32)
    \<and> unat off + unat (2 :: u64) \<le> unat (m_uSize (m_Bars demo_resources ! bar))"
proof (rule mapped_capability_inside_bar)
  show "vio_modern_map_capability (kmd_machine demo_map demo_map demo_resources demo_bus) () 0x40 2 2 0 2
      = Some (0x80000FF0, Some 2)" by code_simp
qed (simp_all add: demo_resources_memory)

text \<open>C35: The configuration of the device itself is mapped with least length 0, and its length is the one the capability
  claims, up to a page: nothing compares it with the BAR, so reads the driver takes for checked go past the mapping.\<close>
theorem device_config_past_bar:
  assumes "cfg_byte M (cap + 4) d = Some bar" "bar < 6" "cfg_dword M (cap + 8) d = Some off" "cfg_dword M (cap + 12) d = Some len"
    "off AND 3 = 0" "memory_bars r" "off < m_uSize (m_Bars r ! unat bar)"
    "va = fst (get_va mi mp (m_Bars r ! unat bar))" "va \<noteq> 0" "va + ucast off \<noteq> 0" "vd_world v = d" "cap \<noteq> 0"
    "n = 1 \<or> n = 2 \<or> n = 4" "unat o' + n \<le> min (unat len) 4096"
  shows "\<exists>v'. map_device_config (kmd_machine mi mp r M) cap v = Some (VSuccess, v')
    \<and> vio_modern_get_config (kmd_machine mi mp r M) o' n buf v'
      = (case read_conf M (va + ucast off + ucast o') n d of (x, d') \<Rightarrow> (x, v'\<lparr>vd_world := d'\<rparr>))"
proof -
  let ?K = "kmd_machine mi mp r M"
  let ?len = "if 4096 < len then 4096 else len"
  have ub: "unat bar < 6" using assms(2) by (simp add: word_less_nat_alt)
  have oo: "(ucast (ucast off :: u64) :: u32) = off" by (rule bit_word_eqI) (simp add: bit_ucast_iff)
  have rl: "pci_get_resource_len r (unat bar) = ucast (m_uSize (m_Bars r ! unat bar))"
    using ub by (simp add: pci_get_resource_len_def get_bar_size_def PCI_TYPE0_ADDRESSES_def)
  have le: "\<not> (ucast (m_uSize (m_Bars r ! unat bar)) :: u64) < ucast off"
    using assms(7) by (simp add: word_less_nat_alt unat_ucast_u32_u64)
  have ma: "fst (get_mapped_address mi mp (unat bar) off r) = va + ucast off"
    using mapped_address [OF assms(6) ub assms(7), of mi mp] assms(8,9) by simp
  have m: "vio_modern_map_capability ?K d cap 0 4 0 PAGE_SIZE = Some (va + ucast off, Some ?len)"
    using assms(1-5) le oo by (simp add: vio_modern_map_capability_def PCI_TYPE0_ADDRESSES_def rl ma PAGE_SIZE_def Let_def)
  have n: "unat (of_nat n :: u32) = n" using assms(13) by auto
  have "unat (o' + of_nat n) = unat o' + n" using assms(14) by (simp add: unat_word_ariths n)
  then have "\<not> ?len < o' + of_nat n" using assms(14) by (auto simp: word_less_nat_alt)
  then have nl: "\<not> (ucast ?len :: u64) < ucast (o' + of_nat n)" by (simp only: ucast_u32_u64_less not_False_eq_True)
  show ?thesis using assms(10-13) m nl
    by (simp add: map_device_config_def vio_modern_get_config_def)
qed

lemma demo_bar: "m_Bars demo_resources ! 2 = memory_bar 0xF0000000 0x1000"
    "m_uSize (memory_bar pa len) = len" "m_BaseVA (memory_bar pa len) = 0" "m_bPortSpace (memory_bar pa len) = False"
  by (simp_all add: demo_resources_def new_resources_def PCI_TYPE0_ADDRESSES_def memory_bar_def)

theorem device_config_past_bar_witness:
  "\<exists>v'. map_device_config (kmd_machine demo_map demo_map demo_resources demo_bus) 0x40 demo_vdev
      = Some (VSuccess, v')
    \<and> vio_modern_get_config (kmd_machine demo_map demo_map demo_resources demo_bus) 0x80 4 0 v'
      = (case read_conf demo_bus 0x80001070 4 () of (x, d') \<Rightarrow> (x, v'\<lparr>vd_world := d'\<rparr>))
    \<and> 0x80000000 + ucast (m_uSize (m_Bars demo_resources ! 2)) \<le> (0x80001070 :: u64)"
  using device_config_past_bar [where M = demo_bus and cap = "0x40" and d = "()" and bar = 2 and off = "0xFF0" and len = "0x100"
      and r = demo_resources and va = "0x80000000" and mi = demo_map and mp = demo_map and v = demo_vdev and n = 4 and o' = "0x80"
      and buf = 0] demo_resources_memory
  by (simp add: demo_bus_def demo_bar demo_map_def get_va_def)

lemma kmd_machine_regs [simp]:
  "read_reg (kmd_machine mi mp r M) = read_reg M" "write_reg (kmd_machine mi mp r M) = write_reg M"
  "take_block (kmd_machine mi mp r M) = take_block M" "take_pages (kmd_machine mi mp r M) = take_pages M"
  "msix_vector (kmd_machine mi mp r M) = vdev_get_msix_vector r"
  by (simp_all add: kmd_machine_def)

text \<open>The vector of configuration changes is asked for whether or not the device was given message interrupts: a device
  that takes no vector (it answers 0xFFFF) never gets its queues, although the driver has a path for line interrupts.\<close>
theorem no_queues_without_msix:
  assumes "fresh_alloc M" "owns B P v" "live v = {}" "\<And>d. fst (read_reg M MsixConfig d) = 0xFFFF"
  shows "\<exists>st w. virtio_find_queues (kmd_machine mi mp r M) n v = Some (st, w) \<and> st \<noteq> VSuccess \<and> owns B P w \<and> live w = {}"
proof -
  let ?K = "kmd_machine mi mp r M"
  have "fresh_alloc ?K" using assms(1) by (simp add: fresh_alloc_def)
  from reserve_ok [OF this assms(2,3), of n] obtain st v1 where
    s: "virtio_reserve_queue_memory ?K n v = Some (st, v1)" "owns B P v1" "live v1 = {}" by blast
  obtain vec v2 where c: "vio_modern_set_config_vector ?K (msix_vector ?K None) v1 = (vec, v2)" by fastforce
  have "vec = VIRTIO_MSI_NO_VECTOR" using c assms(4) [of "write_reg M MsixConfig 0 (vd_world v1)"]
    by (auto simp: vio_modern_set_config_vector_def ioread_def iowrite_def VIRTIO_MSI_NO_VECTOR_def
      vdev_get_msix_vector_def VIRTIO_GPU_MSIX_CONFIG_VECTOR_def split: prod.splits)
  moreover obtain d where "v2 = v1\<lparr>vd_world := d\<rparr>" using c
    by (auto simp: vio_modern_set_config_vector_def ioread_def iowrite_def split: prod.splits)
  then have "owns B P v2" using owns_same(1) [of v2 v1 B P] s(2) by simp
  from delete_queues_ok [OF this, of ?K] obtain w where
    "virtio_delete_queues ?K v2 = Some w" "owns B P w" "live w = {}" by blast
  moreover have "vdev_get_msix_vector r None \<noteq> VIRTIO_MSI_NO_VECTOR"
    by (simp add: vdev_get_msix_vector_def VIRTIO_GPU_MSIX_CONFIG_VECTOR_def VIRTIO_MSI_NO_VECTOR_def)
  ultimately show ?thesis using s c by (cases "st = VSuccess") (auto simp: virtio_find_queues_def Let_def)
qed

theorem no_queues_without_msix_witness:
  "\<exists>st w. virtio_find_queues (kmd_machine demo_map demo_map demo_resources ((demo_machine (\<lambda>_. 0))
      \<lparr>read_reg := (\<lambda>rg d. (case rg of MsixConfig \<Rightarrow> 0xFFFF | NumQueues \<Rightarrow> 2 | QueueSize \<Rightarrow> 4 | _ \<Rightarrow> 0, d))\<rparr>)) 2 demo_vdev
    = Some (st, w) \<and> st \<noteq> VSuccess \<and> owns {} {} w \<and> live w = {}"
  by (rule no_queues_without_msix)
    (use demo_machine_memory(1) [of "\<lambda>_. 0"] in \<open>simp_all add: demo_vdev_idle fresh_alloc_def\<close>)

end
