(* ===== verification/GpuBringUp.thy ===== *)
theory GpuBringUp
  imports PciResources
begin

text \<open>
  How the adapter brings its device up and down: \<^verbatim>\<open>VioGpuAdapterLiteInit\<close>, \<^verbatim>\<open>AckFeature\<close>,
  \<^verbatim>\<open>VioGpuAdapterLiteClose\<close> of \<^verbatim>\<open>src/IntelVirtDisplayKMD/viogpulite.cpp\<close> and \<^verbatim>\<open>Init\<close>,
  \<^verbatim>\<open>Close\<close> and \<^verbatim>\<open>QueryAllocation\<close> of \<^verbatim>\<open>VioGpuQueue\<close>, over the transport of \<open>VirtioPci\<close>.
\<close>

unbundle bit_operations_syntax

section \<open>State\<close>

text \<open>The part of \<^verbatim>\<open>VioGpuAdapterLite\<close> these operations work on.  A \<^verbatim>\<open>struct virtqueue *\<close> is the index of its entry in the
  transport's table.\<close>
record ('d, 'a) lite =
  l_vio :: "('d, 'a) vdev"
  l_hw_init :: bool
  l_host_features :: u64
  l_guest_features :: u64
  l_scanouts :: u32
  l_capsets :: u32
  l_blob :: bool
  l_ctrl :: "nat option"
  l_cursor :: "nat option"
  l_fb_active :: bool
  l_fb_ptr :: u64
  l_hpd_event :: u64

definition VIRTIO_GPU_F_EDID :: nat where "VIRTIO_GPU_F_EDID = 1"
definition VIRTIO_GPU_F_RESOURCE_BLOB :: nat where "VIRTIO_GPU_F_RESOURCE_BLOB = 3"
definition USE_BLOB_RESOURCE :: bool where "USE_BLOB_RESOURCE = True"
definition NUM_CAPSETS_OFFSET :: u32 where "NUM_CAPSETS_OFFSET = 12"

section \<open>The queues\<close>

fun enable_interrupt :: "'a any_ring \<Rightarrow> 'a any_ring option" where
  "enable_interrupt (SplitRing q) = Some (SplitRing (snd (virtqueue_enable_cb_split q)))"
| "enable_interrupt (PackedRing q) = map_option (\<lambda>(b, q'). PackedRing q') (virtqueue_enable_cb_packed q)"

text \<open>\<^verbatim>\<open>VioGpuQueue::Init\<close> on the pointer in entry \<^verbatim>\<open>i\<close>: a null pointer is refused.\<close>
definition queue_init :: "nat \<Rightarrow> ('d, 'a) vdev \<Rightarrow> (bool \<times> ('d, 'a) vdev) option" where
  "queue_init i v = do {
     qi \<leftarrow> nth_opt (vd_info v) i;
     case qi_vq qi of
       None \<Rightarrow> Some (False, v)
     | Some q \<Rightarrow> do {
         r \<leftarrow> enable_interrupt (vq_ring q);
         v' \<leftarrow> set_info i (\<lambda>qi. qi\<lparr>qi_vq := Some (q\<lparr>vq_ring := r\<rparr>)\<rparr>) v;
         Some (True, v') } }"

definition query_allocation :: "'d machine \<Rightarrow> u32 \<Rightarrow> ('d, 'a) lite \<Rightarrow> u32 \<times> ('d, 'a) lite" where
  "query_allocation M index l = (case vio_modern_query_vq_alloc M index (l_vio l) of (r, v) \<Rightarrow>
     (case r of Inl st \<Rightarrow> 0 | Inr va \<Rightarrow> ucast (va_num va), l\<lparr>l_vio := v\<rparr>))"

section \<open>Up\<close>

definition ack_feature :: "nat \<Rightarrow> ('d, 'a) lite \<Rightarrow> bool \<times> ('d, 'a) lite" where
  "ack_feature f l =
     (if virtio_is_feature_enabled (l_host_features l) f
      then (True, l\<lparr>l_guest_features := virtio_feature_enable (l_guest_features l) f\<rparr>) else (False, l))"

text \<open>The end of the block of \<^verbatim>\<open>VioGpuAdapterLiteInit\<close>, once the queues are found.\<close>
definition init_queues :: "'d machine \<Rightarrow> ('d, 'a) lite \<Rightarrow> (vstatus \<times> ('d, 'a) lite) option" where
  "init_queues M l = do {
     (ok0, v0) \<leftarrow> queue_init 0 (l_vio l);
     if \<not> ok0 then Some (VInsufficientResources, l\<lparr>l_vio := v0\<rparr>)
     else do {
       (ok1, v1) \<leftarrow> queue_init 1 v0;
       let l1 = l\<lparr>l_vio := v1, l_ctrl := Some 0\<rparr>;
       if \<not> ok1 then Some (VInsufficientResources, l1)
       else do {
         let l2 = l1\<lparr>l_cursor := Some 1, l_scanouts := 4\<rparr>;
         (xs, v2) \<leftarrow> virtio_get_config M NUM_CAPSETS_OFFSET [l_capsets l2] 4 v1;
         Some (VSuccess, l2\<lparr>l_vio := v2, l_capsets := hd xs\<rparr>) } } }"

definition negotiate :: "'d machine \<Rightarrow> ('d, 'a) lite \<Rightarrow> (vstatus \<times> ('d, 'a) lite) option" where
  "negotiate M l0 =
     (case ack_feature VIRTIO_F_VERSION_1 l0 of (ok, l1) \<Rightarrow>
        if \<not> ok then Some (VUnsuccessful, l1)
        else
          let l2 = snd (ack_feature VIRTIO_F_ACCESS_PLATFORM l1);
              (st, v3) = virtio_set_features M (l_guest_features l2) (l_vio l2) in
          if st \<noteq> VSuccess then Some (st, l2\<lparr>l_vio := v3\<rparr>)
          else do {
            (st, v4) \<leftarrow> virtio_find_queues M 2 v3;
            if st \<noteq> VSuccess then Some (st, l2\<lparr>l_vio := v4\<rparr>) else init_queues M (l2\<lparr>l_vio := v4\<rparr>) })"

definition lite_init :: "'d machine \<Rightarrow> bool \<Rightarrow> ('d, 'a) lite \<Rightarrow> (vstatus \<times> ('d, 'a) lite) option" where
  "lite_init M msi l =
     (if l_hw_init l then Some (VSuccess, l)
      else do {
        (st, v1) \<leftarrow> virtio_device_initialize M msi (l_vio l);
        if st \<noteq> VSuccess then Some (st, l\<lparr>l_vio := v1\<rparr>)
        else do {
          let (host, v2) = vio_modern_get_features M v1;
          (st, l3) \<leftarrow> negotiate M (l\<lparr>l_vio := v2, l_host_features := host, l_guest_features := 0\<rparr>);
          let l4 = (if st = VSuccess then l3\<lparr>l_vio := virtio_device_ready M (l_vio l3), l_hw_init := True\<rparr>
            else l3\<lparr>l_vio := virtio_add_status M VIRTIO_CONFIG_S_FAILED (l_vio l3)\<rparr>);
          Some (st, l4\<lparr>l_blob :=
            virtio_is_feature_enabled (l_host_features l4) VIRTIO_GPU_F_RESOURCE_BLOB \<and> USE_BLOB_RESOURCE\<rparr>) } })"

section \<open>Down\<close>

definition lite_close :: "'d machine \<Rightarrow> ('d, 'a) lite \<Rightarrow> ('d, 'a) lite option" where
  "lite_close M l =
     (if l_hw_init l then do {
        v1 \<leftarrow> vio_modern_reset M (l_vio l);
        v2 \<leftarrow> virtio_delete_queues M v1;
        v3 \<leftarrow> virtio_device_shutdown v2;
        Some (l\<lparr>l_hw_init := False, l_vio := v3, l_ctrl := None, l_cursor := None,
          l_fb_active := False, l_fb_ptr := 0, l_hpd_event := 0\<rparr>) }
      else Some l)"

section \<open>The status register\<close>

text \<open>What the driver relies on of the status register of a device (virtio 1.x, 2.1): it reads as it was last written, except
  that a device which does not take the features leaves FEATURES_OK clear; nothing else changes it.\<close>
definition status_device :: "'d machine \<Rightarrow> ('d \<Rightarrow> u8) \<Rightarrow> bool" where
  "status_device M st \<longleftrightarrow>
     (\<forall>d. fst (read_reg M DeviceStatus d) = ucast (st d))
   \<and> (\<forall>x d. st (write_reg M DeviceStatus x d) = ucast x
       \<or> st d AND VIRTIO_CONFIG_S_FEATURES_OK = 0 \<and> st (write_reg M DeviceStatus x d) = ucast x AND NOT VIRTIO_CONFIG_S_FEATURES_OK)
   \<and> (\<forall>r d. st (snd (read_reg M r d)) = st d)
   \<and> (\<forall>r x d. r \<noteq> DeviceStatus \<longrightarrow> st (write_reg M r x d) = st d)
   \<and> (\<forall>a n d. st (snd (read_conf M a n d)) = st d) \<and> (\<forall>a n x d. st (write_conf M a n x d) = st d)
   \<and> (\<forall>n h d. st (snd (take_pages M n h d)) = st d) \<and> (\<forall>n h d. st (snd (take_block M n h d)) = st d)
   \<and> (\<forall>d. st (sleep M d) = st d)"

abbreviation dev_status :: "('d \<Rightarrow> u8) \<Rightarrow> ('d, 'a) vdev \<Rightarrow> u8" where
  "dev_status st v \<equiv> st (vd_world v)"

lemma status_deviceD:
  "read_reg M r d = (x, d') \<Longrightarrow> status_device M st \<Longrightarrow> st d' = st d"
  "status_device M st \<Longrightarrow> r \<noteq> DeviceStatus \<Longrightarrow> st (write_reg M r y d) = st d"
  "read_conf M a n d = (x, d') \<Longrightarrow> status_device M st \<Longrightarrow> st d' = st d"
  "status_device M st \<Longrightarrow> st (write_conf M a n y d) = st d"
  "take_pages M m h d = (p, d') \<Longrightarrow> status_device M st \<Longrightarrow> st d' = st d"
  "take_block M m h d = (p, d') \<Longrightarrow> status_device M st \<Longrightarrow> st d' = st d"
  "status_device M st \<Longrightarrow> st (sleep M d) = st d"
  "read_reg M DeviceStatus d = (x, d') \<Longrightarrow> status_device M st \<Longrightarrow> x = ucast (st d)"
  unfolding status_device_def by (metis snd_conv fst_conv)+

lemma iowrite_status: "status_device M st \<Longrightarrow> r \<noteq> DeviceStatus \<Longrightarrow> dev_status st (iowrite M r x v) = dev_status st v"
  by (simp add: iowrite_def status_deviceD)

lemma ioread_status: "ioread M r v = (x, w) \<Longrightarrow> status_device M st \<Longrightarrow> dev_status st w = dev_status st v"
  by (auto simp: ioread_def dest: status_deviceD(1) split: prod.splits)

lemma get_status_status:
  assumes "get_status M v = (x, w)" "status_device M st"
  shows "x = dev_status st v" "dev_status st w = dev_status st v"
proof -
  obtain y d where r: "read_reg M DeviceStatus (vd_world v) = (y, d)" by fastforce
  have "(ucast (ucast (dev_status st v) :: u32) :: u8) = dev_status st v" by (rule bit_word_eqI) (simp add: bit_ucast_iff)
  then show "x = dev_status st v" "dev_status st w = dev_status st v"
    using assms(1) status_deviceD(1) [OF r assms(2)] status_deviceD(8) [OF r assms(2)]
    by (auto simp: get_status_def ioread_def r)
qed

lemma set_status_status:
  assumes "status_device M st"
  shows "dev_status st (set_status M x v) = x
    \<or> dev_status st v AND VIRTIO_CONFIG_S_FEATURES_OK = 0 \<and> dev_status st (set_status M x v) = x AND NOT VIRTIO_CONFIG_S_FEATURES_OK"
proof -
  have "(ucast (ucast x :: u32) :: u8) = x" by (rule bit_word_eqI) (simp add: bit_ucast_iff)
  moreover have "\<forall>y d. st (write_reg M DeviceStatus y d) = ucast y \<or> st d AND VIRTIO_CONFIG_S_FEATURES_OK = 0
      \<and> st (write_reg M DeviceStatus y d) = ucast y AND NOT VIRTIO_CONFIG_S_FEATURES_OK"
    using assms unfolding status_device_def by (elim conjE)
  from this [rule_format, of "ucast x" "vd_world v"] show ?thesis using calculation by (simp add: set_status_def iowrite_def)
qed

text \<open>Everything else leaves the status alone.\<close>
lemma iowrite64_status:
  "status_device M st \<Longrightarrow> lo \<noteq> DeviceStatus \<Longrightarrow> hi \<noteq> DeviceStatus \<Longrightarrow> dev_status st (iowrite64_twopart M x lo hi v) = dev_status st v"
  by (simp add: iowrite64_twopart_def iowrite_status)

lemma set_queue_vector_status:
  assumes "vio_modern_set_queue_vector M i vec v = (x, w)" "status_device M st"
  shows "dev_status st w = dev_status st v"
  using assms(1) by (auto simp: vio_modern_set_queue_vector_def Let_def iowrite_status [OF assms(2)]
    dest!: ioread_status [OF _ assms(2)] split: prod.splits)

lemma set_config_vector_status:
  assumes "vio_modern_set_config_vector M vec v = (x, w)" "status_device M st"
  shows "dev_status st w = dev_status st v"
  using assms(1) by (auto simp: vio_modern_set_config_vector_def iowrite_status [OF assms(2)]
    dest!: ioread_status [OF _ assms(2)] split: prod.splits)

lemma query_status:
  assumes "vio_modern_query_vq_alloc M i v = (r, w)" "status_device M st"
  shows "dev_status st w = dev_status st v"
  using assms(1) by (auto simp: vio_modern_query_vq_alloc_def Let_def iowrite_status [OF assms(2)]
    dest!: ioread_status [OF _ assms(2)] split: prod.splits if_splits)

lemma alloc_status:
  "mem_alloc_pages M n v = (p, w) \<Longrightarrow> status_device M st \<Longrightarrow> dev_status st w = dev_status st v"
  "mem_alloc_block M n v = (p, w) \<Longrightarrow> status_device M st \<Longrightarrow> dev_status st w = dev_status st v"
  by (auto simp: mem_alloc_pages_def mem_alloc_block_def dest: status_deviceD(5,6) split: prod.splits)

lemma free_status:
  "mem_free_pages p v = Some w \<Longrightarrow> vd_world w = vd_world v" "mem_free_block p v = Some w \<Longrightarrow> vd_world w = vd_world v"
  by (auto simp: mem_free_pages_def mem_free_block_def bind_eq_Some_conv split: if_splits)

lemma set_info_status: "set_info i f v = Some w \<Longrightarrow> vd_world w = vd_world v"
  by (auto simp: set_info_def bind_eq_Some_conv)

lemma scale_down_status:
  "scale_down M num v = (r, w) \<Longrightarrow> status_device M st \<Longrightarrow> dev_status st w = dev_status st v"
proof (induction M num v rule: scale_down.induct)
  case (1 M num v)
  obtain p v1 where m: "mem_alloc_pages M (vring_pci_size num (vd_packed_ring v)) v = (p, v1)" by fastforce
  have k: "dev_status st v1 = dev_status st v" using alloc_status(1) [OF m 1(3)] .
  show ?case
  proof (cases "p = 0 \<and> 0 < num")
    case True
    then have "scale_down M (num div 2) v1 = (r, w)" using 1(2) by (subst (asm) scale_down.simps) (simp add: m)
    from 1(1) [OF m [symmetric] _ _ this 1(3)] True k show ?thesis by simp
  next
    case False
    then show ?thesis using 1(2) k by (subst (asm) scale_down.simps) (auto simp: m split: if_splits)
  qed
qed

lemma activate_status: "status_device M st \<Longrightarrow> dev_status st (activate_queue M n p r v) = dev_status st v"
  by (simp add: activate_queue_def iowrite64_status iowrite_status)

lemma fail_status:
  "fail_new_queue e block p v = Some (r, w) \<Longrightarrow> vd_world w = vd_world v"
  "fail_map_notify e rg block p v = Some (r, w) \<Longrightarrow> vd_world w = vd_world v"
  by (auto simp: fail_new_queue_def fail_map_notify_def bind_eq_Some_conv free_status)

lemma setup_vq_status:
  assumes "vio_modern_setup_vq M i vec v = Some (r, w)" "status_device M st"
  shows "dev_status st w = dev_status st v"
proof -
  note sd = assms(2)
  obtain r1 v1 where q: "vio_modern_query_vq_alloc M i v = (r1, v1)" by fastforce
  obtain off v2 where o: "ioread M QueueNotifyOff v1 = (off, v2)" by fastforce
  obtain n p v3 where s: "scale_down M (case r1 of Inr va \<Rightarrow> va_num va | Inl _ \<Rightarrow> 0) v2 = ((n, p), v3)" by (metis prod.exhaust)
  have k: "dev_status st v1 = dev_status st v" "dev_status st v3 = dev_status st v"
    using query_status [OF q sd] ioread_status [OF o sd] scale_down_status [OF s sd] by simp_all
  show ?thesis
  proof (cases r1)
    case (Inl e)
    then show ?thesis using assms(1) q k by (simp add: vio_modern_setup_vq_def)
  next
    case (Inr va)
    then obtain v4 where v4: "set_info (unat i) (\<lambda>q. q\<lparr>qi_num := n, qi_queue := p\<rparr>) v3 = Some v4"
      using assms(1) q o s by (auto simp: vio_modern_setup_vq_def Let_def bind_eq_Some_conv)
    obtain block v5 where b: "mem_alloc_block M (va_heap_size va) v4 = (block, v5)" by fastforce
    have k4: "dev_status st v4 = dev_status st v" "dev_status st v5 = dev_status st v"
      using k set_info_status [OF v4] alloc_status(2) [OF b sd] by simp_all
    note start = vio_modern_setup_vq_def q o Inr s v4 b Let_def
    consider "p = 0" | "p \<noteq> 0" "block = 0" | "p \<noteq> 0" "block \<noteq> 0" by blast
    then show ?thesis
    proof cases
      case 1
      then show ?thesis using assms(1) k4 s v4 Inr by (simp add: start)
    next
      case 2
      then show ?thesis using assms(1) k4 s Inr by (auto simp: start dest: fail_status)
    next
      case 3
      have act: "dev_status st (activate_queue M n p rg v5) = dev_status st v" for rg
        by (simp add: activate_status [OF sd] k4)
      obtain rng where rng: "new_ring i n p v5 = Some rng"
        using assms(1) 3 s Inr by (auto simp: start bind_eq_Some_conv)
      show ?thesis
      proof (cases rng)
        case None
        then show ?thesis using assms(1) 3 k4 s Inr rng by (auto simp: start dest: fail_status)
      next
        case (Some rg)
        let ?v6 = "activate_queue M n p rg v5"
        obtain na where na: "notify_address M (ucast off) ?v6 = Some na"
          using assms(1) 3 s Inr rng Some by (auto simp: start bind_eq_Some_conv)
        obtain x v7 where x: "(if vec \<noteq> VIRTIO_MSI_NO_VECTOR then vio_modern_set_queue_vector M i vec ?v6 else (0, ?v6)) = (x, v7)"
          by fastforce
        then have k7: "dev_status st v7 = dev_status st v"
          using act [of rg] set_queue_vector_status [OF _ sd, of i vec ?v6 x v7] by (simp split: if_splits)
        show ?thesis
        proof (cases na)
          case (Inl e)
          then show ?thesis using assms(1) 3 s \<open>r1 = Inr va\<close> rng Some na act by (auto simp: start dest: fail_status)
        next
          case (Inr addr)
          then show ?thesis using assms(1) 3 s \<open>r1 = Inr va\<close> rng Some na act k7
            by (auto simp: start x iowrite_status [OF sd] dest: fail_status split: if_split_asm)
        qed
      qed
    qed
  qed
qed

lemma vp_setup_status:
  assumes "vp_setup_vq M i vec v = Some (r, w)" "status_device M st"
  shows "dev_status st w = dev_status st v"
proof -
  obtain r1 v1 where s: "vio_modern_setup_vq M (of_nat i) vec v = Some (r1, v1)"
    using assms(1) by (auto simp: vp_setup_vq_def bind_eq_Some_conv)
  show ?thesis using assms(1) s setup_vq_status [OF s assms(2)]
    by (cases r1) (auto simp: vp_setup_vq_def bind_eq_Some_conv dest!: set_info_status)
qed

lemma del_vq_status:
  fixes qi :: "'a queue_info"
  assumes "vio_modern_del_vq M qi v = Some w" "status_device M st"
  shows "dev_status st w = dev_status st v"
proof -
  let ?v1 = "\<lambda>q :: 'a vq_handle. iowrite M QueueSelect (ucast (ucast (vq_index q) :: u16)) v"
  let ?v2 = "\<lambda>q. if vd_msix_used (?v1 q)
    then snd (ioread M QueueMsixVector (iowrite M QueueMsixVector (ucast VIRTIO_MSI_NO_VECTOR) (?v1 q))) else ?v1 q"
  obtain q v3 where q: "mem_free_block (vq_block q) (?v2 q) = Some v3" "mem_free_pages (qi_queue qi) v3 = Some w"
    using assms(1) unfolding vio_modern_del_vq_def bind_eq_Some_conv Let_def by (elim exE conjE) (rule that)
  obtain x u where r: "ioread M QueueMsixVector (iowrite M QueueMsixVector (ucast VIRTIO_MSI_NO_VECTOR) (?v1 q)) = (x, u)"
    by fastforce
  have "dev_status st u = dev_status st v" using ioread_status [OF r assms(2)] by (simp add: iowrite_status [OF assms(2)])
  then have "dev_status st (?v2 q) = dev_status st v" by (simp add: r iowrite_status [OF assms(2)])
  then show ?thesis using free_status(1) [OF q(2)] free_status(2) [OF q(1)] by simp
qed

lemma delete_one_status:
  assumes "delete_one M i v = Some w" "status_device M st"
  shows "dev_status st w = dev_status st v"
  using assms(1) by (auto simp: delete_one_def bind_eq_Some_conv split: option.splits
    dest!: del_vq_status [OF _ assms(2)] set_info_status)

lemma delete_queues_status:
  assumes "virtio_delete_queues M v = Some w" "status_device M st"
  shows "dev_status st w = dev_status st v"
  by (rule for_loop_keeps [where I = "\<lambda>u. dev_status st u = dev_status st v",
        OF assms(1) [unfolded virtio_delete_queues_def]])
    (auto dest: delete_one_status [OF _ assms(2)])

lemma setup_queues_status:
  assumes "setup_queues M k i v = Some (r, w)" "status_device M st"
  shows "dev_status st w = dev_status st v"
  using assms(1)
proof (induction k arbitrary: i v)
  case (Suc k)
  obtain r1 v1 where s: "vp_setup_vq M i (msix_vector M (Some i)) v = Some (r1, v1)"
    using Suc.prems by (auto simp: bind_eq_Some_conv)
  show ?case using Suc.prems Suc.IH [of "Suc i" v1] s vp_setup_status [OF s assms(2)]
    by (cases r1) (auto simp: bind_eq_Some_conv dest!: delete_queues_status [OF _ assms(2)])
qed simp

lemma reserve_status:
  assumes "virtio_reserve_queue_memory M n v = Some (r, w)" "status_device M st"
  shows "dev_status st w = dev_status st v"
  using assms(1) by (auto simp: virtio_reserve_queue_memory_def bind_eq_Some_conv split: prod.splits if_splits
    dest!: alloc_status(2) [OF _ assms(2)] free_status)

lemma find_queues_status:
  assumes "virtio_find_queues M n v = Some (r, w)" "status_device M st"
  shows "dev_status st w = dev_status st v"
  using assms(1) by (auto simp: virtio_find_queues_def bind_eq_Some_conv Let_def split: prod.splits if_splits
    dest!: reserve_status [OF _ assms(2)] delete_queues_status [OF _ assms(2)] setup_queues_status [OF _ assms(2)]
      set_config_vector_status [OF _ assms(2)])

section \<open>Bringing the transport up\<close>

text \<open>A present device answers every read of its configuration space, and its chain of capabilities ends.\<close>
definition config_space_ok :: "'d machine \<Rightarrow> bool" where
  "config_space_ok M \<longleftrightarrow> (\<forall>i d. cfg_byte M i d \<noteq> None \<and> cfg_word M i d \<noteq> None \<and> cfg_dword M i d \<noteq> None)
     \<and> (\<forall>d. \<exists>n. (next_capability M d ^^ n) (find_first_pci_vendor_capability M d) = 0)"

lemma config_space_okD:
  assumes "config_space_ok M"
  obtains b w x where "cfg_byte M i d = Some b" "cfg_word M j d = Some w" "cfg_dword M k d = Some x"
  using assms unfolding config_space_ok_def by (metis not_None_eq)

text \<open>Two states of the transport with the same world, queues and memory.\<close>
definition same_queues :: "('d, 'a) vdev \<Rightarrow> ('d, 'a) vdev \<Rightarrow> bool" where
  "same_queues v w \<longleftrightarrow> vd_world w = vd_world v \<and> vd_info w = vd_info v \<and> vd_info_block w = vd_info_block v
     \<and> vd_max_queues w = vd_max_queues v \<and> vd_blocks w = vd_blocks v \<and> vd_pages w = vd_pages v"

lemma map_capability_total:
  assumes "config_space_ok M"
  shows "\<exists>r. vio_modern_map_capability M d cap minlen alignment start sz = Some r"
proof -
  obtain b x where "cfg_byte M (cap + 4) d = Some b" "cfg_dword M (cap + 8) d = Some x" by (rule config_space_okD [OF assms])
  moreover obtain y where "cfg_dword M (cap + 12) d = Some y" by (rule config_space_okD [OF assms])
  ultimately show ?thesis by (simp add: vio_modern_map_capability_def Let_def)
qed

lemma map_device_config_ok:
  assumes "config_space_ok M"
  shows "\<exists>r w. map_device_config M cap v = Some (r, w) \<and> same_queues v w"
proof (cases "cap = 0")
  case False
  obtain a l where "vio_modern_map_capability M (vd_world v) cap 0 4 0 PAGE_SIZE = Some (a, l)"
    using map_capability_total [OF assms] by fastforce
  then show ?thesis using False by (cases "a = 0") (simp_all add: map_device_config_def same_queues_def Let_def)
qed (simp add: map_device_config_def same_queues_def)

lemma modern_initialize_ok:
  assumes "config_space_ok M"
  shows "\<exists>r w. vio_modern_initialize M v = Some (r, w) \<and> same_queues v w"
proof -
  let ?d = "vd_world v"
  have "conf_readable M ?d" using assms by (simp add: config_space_ok_def conf_readable_def)
  then obtain caps where caps: "find_pci_vendor_capabilities M ?d (replicate VIRTIO_PCI_CAP_PCI_CFG 0) = Some caps"
    using capability_loop_reference [of M ?d "find_first_pci_vendor_capability M ?d"] assms
    by (auto simp: find_pci_vendor_capabilities_def config_space_ok_def)
  obtain com where com: "vio_modern_map_simple_capability M ?d (caps ! VIRTIO_PCI_CAP_COMMON_CFG) SIZEOF_COMMON_CFG 4 = Some com"
    using map_capability_total [OF assms] by (fastforce simp: vio_modern_map_simple_capability_def)
  obtain isr where isr: "vio_modern_map_simple_capability M ?d (caps ! VIRTIO_PCI_CAP_ISR_CFG) 1 1 = Some isr"
    using map_capability_total [OF assms] by (fastforce simp: vio_modern_map_simple_capability_def)
  let ?n = "caps ! VIRTIO_PCI_CAP_NOTIFY_CFG"
  obtain mu where mu: "cfg_dword M (?n + 16) ?d = Some mu" by (rule config_space_okD [OF assms])
  obtain nl where nl: "cfg_dword M (?n + 12) ?d = Some nl" by (rule config_space_okD [OF assms])
  obtain no where no: "cfg_dword M (?n + 8) ?d = Some no" by (rule config_space_okD [OF assms])
  obtain a l where nb: "vio_modern_map_capability M ?d ?n 2 2 0 nl = Some (a, l)"
    using map_capability_total [OF assms] by fastforce
  define v1 where "v1 = v\<lparr>vd_common := com\<rparr>"
  define v2 where "v2 = v1\<lparr>vd_isr := isr\<rparr>"
  define v3 where "v3 = v2\<lparr>vd_notify_multiplier := mu\<rparr>"
  define v4 where "v4 = (if nl + (no mod PAGE_SIZE) \<le> PAGE_SIZE then v3\<lparr>vd_notify_base := a,
    vd_notify_len := (case l of None \<Rightarrow> vd_notify_len v3 | Some l \<Rightarrow> ucast l)\<rparr> else v3\<lparr>vd_notify_map_cap := ?n\<rparr>)"
  define ok where "ok = (if nl + (no mod PAGE_SIZE) \<le> PAGE_SIZE then a \<noteq> 0 else True)"
  have s: "same_queues v v" "same_queues v v1" "same_queues v v2" "same_queues v v4"
    by (simp_all add: same_queues_def v1_def v2_def v3_def v4_def)
  obtain r w where m: "map_device_config M (caps ! VIRTIO_PCI_CAP_DEVICE_CFG) v4 = Some (r, w)" "same_queues v4 w"
    using map_device_config_ok [OF assms] by blast
  have sw: "same_queues v w" using s(4) m(2) by (simp add: same_queues_def)
  have e: "vio_modern_initialize M v =
    (if caps ! VIRTIO_PCI_CAP_COMMON_CFG = 0 then Some (VNotConnected, v)
     else if caps ! VIRTIO_PCI_CAP_ISR_CFG = 0 \<or> ?n = 0 then Some (VInvalidParameter, v)
     else if com = 0 then Some (VInvalidParameter, v1)
     else if isr = 0 then Some (VInvalidParameter, v2)
     else if \<not> ok then Some (VInvalidParameter, v4) else Some (r, w))"
    using m(1) by (cases l; cases "nl + (no mod PAGE_SIZE) \<le> PAGE_SIZE")
      (simp_all add: vio_modern_initialize_def Let_def caps com isr mu nl no nb v1_def v2_def v3_def v4_def ok_def)
  show ?thesis unfolding e using s sw by auto
qed

section \<open>The status a device goes through\<close>

lemma add_status_status:
  assumes "status_device M st"
  shows "dev_status st (virtio_add_status M x v) = dev_status st v OR x
    \<or> dev_status st v AND VIRTIO_CONFIG_S_FEATURES_OK = 0
      \<and> dev_status st (virtio_add_status M x v) = (dev_status st v OR x) AND NOT VIRTIO_CONFIG_S_FEATURES_OK"
proof -
  obtain y v1 where g: "get_status M v = (y, v1)" by fastforce
  note gs = get_status_status [OF g assms]
  show ?thesis using set_status_status [OF assms, of "y OR x" v1] gs by (simp add: virtio_add_status_def g)
qed

text \<open>Outside the world nothing changes.\<close>
lemma status_ops_frame:
  "\<exists>d. virtio_add_status M x v = v\<lparr>vd_world := d\<rparr>" "\<exists>d. virtio_device_ready M v = v\<lparr>vd_world := d\<rparr>"
  "\<exists>d. set_status M x v = v\<lparr>vd_world := d\<rparr>" "get_status M v = (y, w) \<Longrightarrow> \<exists>d. w = v\<lparr>vd_world := d\<rparr>"
  by (auto simp: virtio_add_status_def virtio_device_ready_def set_status_def get_status_def ioread_def iowrite_def
    split: prod.splits)

lemma reset_ok:
  assumes "status_device M st"
  shows "\<exists>d. vio_modern_reset M v = Some (v\<lparr>vd_world := d\<rparr>) \<and> st d = 0"
proof -
  let ?v = "set_status M 0 v"
  have z: "dev_status st ?v = 0" using set_status_status [OF assms, of 0 v] by auto
  obtain y w where g: "get_status M ?v = (y, w)" by fastforce
  note gs = get_status_status [OF g assms]
  have "vio_modern_reset M v = Some w" using gs z g unfolding vio_modern_reset_def by (subst reset_wait.simps) simp
  moreover obtain d where "w = v\<lparr>vd_world := d\<rparr>" using status_ops_frame(3) [of M 0 v] status_ops_frame(4) [OF g] by auto
  ultimately show ?thesis using gs z by auto
qed

text \<open>The state \<^verbatim>\<open>virtio_device_initialize\<close> leaves: no queue, the memory held before, and on success the status
  ACKNOWLEDGE and DRIVER.\<close>
lemma device_initialize_ok:
  assumes "status_device M st" "config_space_ok M"
  shows "\<exists>r w. virtio_device_initialize M msi v = Some (r, w) \<and> owns (vd_blocks v) (vd_pages v) w \<and> live w = {}
    \<and> length (vd_info w) = 8
    \<and> dev_status st w = (if r = VSuccess then VIRTIO_CONFIG_S_ACKNOWLEDGE OR VIRTIO_CONFIG_S_DRIVER else dev_status st v)"
proof -
  let ?e = "\<lparr>vd_world = vd_world v, vd_msix_used = msi, vd_event_suppression = False, vd_packed_ring = False,
       vd_modern = False, vd_isr = 0, vd_common = 0, vd_config = 0, vd_config_len = 0, vd_notify_base = 0,
       vd_notify_len = 0, vd_notify_map_cap = 0, vd_notify_multiplier = 0,
       vd_max_queues = MAX_QUEUES_PER_DEVICE_DEFAULT,
       vd_info = replicate MAX_QUEUES_PER_DEVICE_DEFAULT empty_info, vd_info_block = 0,
       vd_pages = vd_pages v, vd_blocks = vd_blocks v\<rparr> :: ('a, 'b) vdev"
  obtain r w where i: "vio_modern_initialize M ?e = Some (r, w)" "same_queues ?e w"
    using modern_initialize_ok [OF assms(2)] by blast
  have idle: "owns (vd_blocks v) (vd_pages v) u \<and> live u = {} \<and> length (vd_info u) = 8"
    if "vd_info u = vd_info ?e" "vd_info_block u = 0" "vd_max_queues u = 8" "vd_blocks u = vd_blocks v"
      "vd_pages u = vd_pages v" for u :: "('a, 'b) vdev"
  proof -
    have l: "live u = {}" using that(1) by (auto simp: live_def empty_info_def MAX_QUEUES_PER_DEVICE_DEFAULT_def)
    moreover have "length (vd_info u) = 8" using that(1) by (simp add: MAX_QUEUES_PER_DEVICE_DEFAULT_def)
    ultimately show ?thesis using that(2-5) by (simp add: owns_def l owned_def table_block_def)
  qed
  show ?thesis
  proof (cases "r = VSuccess")
    case False
    then show ?thesis using i idle [of w]
      by (simp add: virtio_device_initialize_def same_queues_def MAX_QUEUES_PER_DEVICE_DEFAULT_def)
  next
    case True
    obtain d where d: "vio_modern_reset M w = Some (w\<lparr>vd_world := d\<rparr>)" "st d = 0" using reset_ok [OF assms(1)] by blast
    let ?a = "virtio_add_status M VIRTIO_CONFIG_S_ACKNOWLEDGE (w\<lparr>vd_world := d\<rparr>)"
    let ?b = "virtio_add_status M VIRTIO_CONFIG_S_DRIVER ?a"
    have a: "dev_status st ?a = 1"
      using add_status_status [OF assms(1), of VIRTIO_CONFIG_S_ACKNOWLEDGE "w\<lparr>vd_world := d\<rparr>"] d(2) by (simp add: status_bits)
    have b: "dev_status st ?b = VIRTIO_CONFIG_S_ACKNOWLEDGE OR VIRTIO_CONFIG_S_DRIVER"
      using add_status_status [OF assms(1), of VIRTIO_CONFIG_S_DRIVER ?a] a by (simp add: status_bits)
    obtain d' where "?b = w\<lparr>vd_world := d'\<rparr>"
      using status_ops_frame(1) [of M VIRTIO_CONFIG_S_DRIVER ?a] status_ops_frame(1) [of M VIRTIO_CONFIG_S_ACKNOWLEDGE "w\<lparr>vd_world := d\<rparr>"]
      by auto
    then have "owns (vd_blocks v) (vd_pages v) ?b \<and> live ?b = {} \<and> length (vd_info ?b) = 8"
      using idle [of ?b] i(2) by (simp add: same_queues_def MAX_QUEUES_PER_DEVICE_DEFAULT_def)
    moreover have "virtio_device_initialize M msi v = Some (r, ?b)"
      using i(1) d(1) True by (simp add: virtio_device_initialize_def)
    ultimately show ?thesis using b True by simp
  qed
qed

lemma owns_world: "owns B P (v\<lparr>vd_world := d\<rparr>) = owns B P v" "live (v\<lparr>vd_world := d\<rparr>) = live v"
  by (rule owns_same; simp)+

lemma set_features_ok:
  assumes "virtio_set_features M f v = (r, w)" "status_device M st" "dev_status st v = 3"
  shows "dev_status st w = (if r = VSuccess then 11 else dev_status st w)" "dev_status st w AND VIRTIO_CONFIG_S_DRIVER_OK = 0"
    "w = v\<lparr>vd_world := vd_world w, vd_event_suppression := virtio_is_feature_enabled f VIRTIO_RING_F_EVENT_IDX,
      vd_packed_ring := virtio_is_feature_enabled f VIRTIO_F_RING_PACKED\<rparr>"
proof -
  define v1 where "v1 = v\<lparr>vd_event_suppression := virtio_is_feature_enabled f VIRTIO_RING_F_EVENT_IDX,
      vd_packed_ring := virtio_is_feature_enabled f VIRTIO_F_RING_PACKED\<rparr>"
  obtain r2 v2 where m: "vio_modern_set_features M f v1 = (r2, v2)" by fastforce
  have k2: "dev_status st v2 = 3"
    using m assms(3) by (auto simp: vio_modern_set_features_def Let_def iowrite_status [OF assms(2)] v1_def split: if_splits)
  have f2: "v2 = v1\<lparr>vd_world := vd_world v2\<rparr>"
    using m by (auto simp: vio_modern_set_features_def Let_def iowrite_def split: if_splits)
  have fr: "v2\<lparr>vd_world := d\<rparr> = v1\<lparr>vd_world := d\<rparr>" for d by (subst f2) simp
  have v: "virtio_is_feature_enabled f VIRTIO_F_VERSION_1" if "r2 = VSuccess"
    using m that by (auto simp: vio_modern_set_features_def Let_def virtio_feature_laws(3) vring_transport_features_bit
      split: if_splits)
  let ?a = "virtio_add_status M VIRTIO_CONFIG_S_FEATURES_OK v2"
  obtain s v3 where g: "get_status M ?a = (s, v3)" by fastforce
  have a: "dev_status st ?a = 11 \<or> dev_status st ?a = 3"
    using add_status_status [OF assms(2), of VIRTIO_CONFIG_S_FEATURES_OK v2] k2 by (auto simp: status_bits)
  note gs = get_status_status [OF g assms(2)]
  have e: "virtio_set_features M f v = (if r2 \<noteq> VSuccess then (r2, v2)
      else (if s AND VIRTIO_CONFIG_S_FEATURES_OK = 0 then VInvalidParameter else r2, v3))"
    using v by (simp add: virtio_set_features_def v1_def [symmetric] m Let_def g)
  show "dev_status st w = (if r = VSuccess then 11 else dev_status st w)"
    using assms(1) a gs unfolding e by (auto simp: status_bits split: if_splits)
  show "dev_status st w AND VIRTIO_CONFIG_S_DRIVER_OK = 0"
    using assms(1) a gs k2 unfolding e by (auto simp: status_bits split: if_splits)
  have "\<exists>d. w = v1\<lparr>vd_world := d\<rparr>"
    using assms(1) f2 status_ops_frame(1) [of M VIRTIO_CONFIG_S_FEATURES_OK v2] status_ops_frame(4) [OF g]
    unfolding e by (auto simp: fr split: if_splits)
  then show "w = v\<lparr>vd_world := vd_world w, vd_event_suppression := virtio_is_feature_enabled f VIRTIO_RING_F_EVENT_IDX,
      vd_packed_ring := virtio_is_feature_enabled f VIRTIO_F_RING_PACKED\<rparr>"
    by (auto simp: v1_def)
qed

lemma get_features_frame:
  assumes "vio_modern_get_features M v = (x, w)" "status_device M st"
  shows "dev_status st w = dev_status st v" "\<exists>d. w = v\<lparr>vd_world := d\<rparr>"
proof -
  show "dev_status st w = dev_status st v"
    using assms(1) by (auto simp: vio_modern_get_features_def Let_def iowrite_status [OF assms(2)]
      dest!: ioread_status [OF _ assms(2)] split: prod.splits)
  show "\<exists>d. w = v\<lparr>vd_world := d\<rparr>"
    using assms(1) by (auto simp: vio_modern_get_features_def Let_def ioread_def iowrite_def split: prod.splits)
qed

lemma get_config_frame:
  assumes "vio_modern_get_config M off n buf v = (x, w)" "status_device M st"
  shows "dev_status st w = dev_status st v" "\<exists>d. w = v\<lparr>vd_world := d\<rparr>"
proof -
  show "dev_status st w = dev_status st v"
    using assms(1) by (auto simp: vio_modern_get_config_def dest: status_deviceD(3) [OF _ assms(2)] split: if_splits prod.splits)
  show "\<exists>d. w = v\<lparr>vd_world := d\<rparr>"
    using assms(1) by (cases v) (auto simp: vio_modern_get_config_def split: if_splits prod.splits)
qed

lemma enable_interrupt_ok: "ring_fresh r \<Longrightarrow> \<exists>r'. enable_interrupt r = Some r' \<and> ring_fresh r'"
proof (cases r)
  case (SplitRing q)
  then show "ring_fresh r \<Longrightarrow> ?thesis"
    by (simp add: virtqueue_enable_cb_split_def unmask_interrupt_def Let_def ring_shape_def)
next
  case (PackedRing q)
  have w: "used_off_wrap (unmask_interrupt_packed (q\<lparr>driver_event := e\<rparr>)) AND NOT (push_bit VRING_PACKED_EVENT_F_WRAP_CTR 1) = 0"
    "used_off_wrap (unmask_interrupt_packed q) AND NOT (push_bit VRING_PACKED_EVENT_F_WRAP_CTR 1) = 0"
    if "last_used_idx q = 0" for e
    using that by (auto simp: used_off_wrap_def unmask_interrupt_packed_def Let_def bool_u16_def VRING_PACKED_EVENT_F_WRAP_CTR_def)
  have u: "pq_num (unmask_interrupt_packed p) = pq_num p" "last_used_idx (unmask_interrupt_packed p) = last_used_idx p"
    "pq_desc (unmask_interrupt_packed p) = pq_desc p" for p :: "'a virtqueue_packed"
    by (simp_all add: unmask_interrupt_packed_def Let_def)
  assume "ring_fresh r"
  then have f: "pq_num q \<noteq> 0" "last_used_idx q = 0" "length (pq_desc q) = unat (pq_num q)" using PackedRing by simp_all
  then have l: "0 < length (pq_desc q)" by (simp add: unat_gt_0)
  show ?thesis using PackedRing f l w
    by (auto simp: virtqueue_enable_cb_packed_def virtqueue_enable_cb_prepare_packed_def Let_def virtqueue_poll_packed_def
      is_used_desc_packed_def nth_opt_def u)
qed

text \<open>Initialising a queue object keeps the books.\<close>
lemma queue_init_ok:
  assumes "owns B P v" "i \<in> live v"
  shows "\<exists>w. queue_init i v = Some (True, w) \<and> owns B P w \<and> live w = live v \<and> vd_world w = vd_world v"
proof -
  have i: "i < length (vd_info v)" using assms(2) by (simp add: live_def)
  obtain q where q: "qi_vq (vd_info v ! i) = Some q" using assms(2) by (auto simp: live_def)
  have "ring_fresh (vq_ring q)" using assms q by (auto simp: owns_def ring_idle_def)
  then obtain r where r: "enable_interrupt (vq_ring q) = Some r" "ring_fresh r" using enable_interrupt_ok by blast
  let ?x = "(vd_info v ! i)\<lparr>qi_vq := Some (q\<lparr>vq_ring := r\<rparr>)\<rparr>"
  let ?w = "v\<lparr>vd_info := (vd_info v)[i := ?x]\<rparr>"
  have e: "queue_init i v = Some (True, ?w)" using i by (simp add: queue_init_def nth_opt_def q r set_info_def)
  have inf: "vd_info ?w = (vd_info v)[i := ?x]" by simp
  note u = info_update [OF inf i]
  have l: "live ?w = live v" using u(1) assms(2) by auto
  have b: "blk ?w j = blk v j" "pgs ?w j = pgs v j" for j
    using u(2,3,5,6) q by (cases "j = i"; simp add: blk_def pgs_def)+
  have o: "owned B' S (live v) (blk ?w) = owned B' S (live v) (blk v)"
    "owned B' S (live v) (pgs ?w) = owned B' S (live v) (pgs v)" for B' S by (rule owned_cong, rule b)+
  have "ring_idle ?w j" if "j \<in> live v" for j
    using that assms(1) u(4) u(7) r(2) by (cases "j = i") (auto simp: owns_def)
  then have "owns B P ?w" using assms(1) l o by (simp add: owns_def table_block_def)
  then show ?thesis using e l by simp
qed

lemma init_queues_ok:
  assumes "owns B P (l_vio l)" "live (l_vio l) = {0..<2}" "status_device M st"
  shows "\<exists>w. init_queues M l = Some (VSuccess, w) \<and> owns B P (l_vio w) \<and> live (l_vio w) = {0..<2}
    \<and> dev_status st (l_vio w) = dev_status st (l_vio l) \<and> l_ctrl w = Some 0 \<and> l_cursor w = Some 1
    \<and> l_hw_init w = l_hw_init l \<and> l_guest_features w = l_guest_features l \<and> l_host_features w = l_host_features l"
proof -
  obtain v0 where v0: "queue_init 0 (l_vio l) = Some (True, v0)" "owns B P v0" "live v0 = {0..<2}"
    "vd_world v0 = vd_world (l_vio l)" using queue_init_ok [OF assms(1), of 0] assms(2) by auto
  obtain v1 where v1: "queue_init 1 v0 = Some (True, v1)" "owns B P v1" "live v1 = {0..<2}"
    "vd_world v1 = vd_world v0" using queue_init_ok [OF v0(2), of 1] v0(3) by auto
  obtain x v2 where c: "vio_modern_get_config M NUM_CAPSETS_OFFSET 4 (l_capsets l) v1 = (x, v2)" by fastforce
  obtain d where d: "v2 = v1\<lparr>vd_world := d\<rparr>" using get_config_frame(2) [OF c assms(3)] by blast
  have "owns B P v2" "live v2 = {0..<2}" using owns_same(1) [of v2 v1 B P] owns_same(2) [of v2 v1] v1(2,3) d by simp_all
  then show ?thesis using v0(1,4) v1(1,4) c get_config_frame(1) [OF c assms(3)]
    by (simp add: init_queues_def Let_def virtio_get_config_def)
qed

text \<open>What the driver asks for: version 1, and the platform's translation of addresses when it is offered.\<close>
definition driver_features :: "u64 \<Rightarrow> u64" where
  "driver_features host = (if bit host 33 then push_bit 32 1 OR push_bit 33 1 else push_bit 32 1)"

lemma driver_features_bit: "bit (driver_features host) i \<longleftrightarrow> i = 32 \<or> i = 33 \<and> bit host 33"
  by (cases "bit host 33")
    (simp_all only: driver_features_def if_True if_False bit_or_iff bit_push_bit_iff bit_1_iff, auto)

lemma ack_features:
  assumes "l_guest_features l = 0"
  shows "ack_feature VIRTIO_F_VERSION_1 l = (bit (l_host_features l) 32,
      if bit (l_host_features l) 32 then l\<lparr>l_guest_features := 0x100000000\<rparr> else l)"
    "bit (l_host_features l) 32 \<Longrightarrow> snd (ack_feature VIRTIO_F_ACCESS_PLATFORM (l\<lparr>l_guest_features := 0x100000000\<rparr>))
      = l\<lparr>l_guest_features := driver_features (l_host_features l)\<rparr>"
  using assms by (simp_all add: ack_feature_def virtio_feature_laws(3) virtio_feature_enable_def VIRTIO_F_VERSION_1_def
    VIRTIO_F_ACCESS_PLATFORM_def driver_features_def)

lemma negotiate_ok:
  assumes "status_device M st" "fresh_alloc M" "pages_available M P 2" "config_space_ok M" "owns B P (l_vio l)"
    "live (l_vio l) = {}" "dev_status st (l_vio l) = 3" "l_guest_features l = 0" "\<not> l_hw_init l"
  shows "\<exists>r w. negotiate M l = Some (r, w) \<and> owns B P (l_vio w) \<and> \<not> l_hw_init w
    \<and> dev_status st (l_vio w) AND VIRTIO_CONFIG_S_DRIVER_OK = 0
    \<and> l_host_features w = l_host_features l
    \<and> (r = VSuccess \<longrightarrow> dev_status st (l_vio w) = 11 \<and> live (l_vio w) = {0..<2}
        \<and> l_guest_features w = driver_features (l_host_features l))"
proof (cases "bit (l_host_features l) 32")
  case False
  then show ?thesis using assms(5-9) by (simp add: negotiate_def ack_features(1) [OF assms(8)] status_bits)
next
  case True
  let ?l2 = "l\<lparr>l_guest_features := driver_features (l_host_features l)\<rparr>"
  obtain r3 v3 where s: "virtio_set_features M (l_guest_features ?l2) (l_vio l) = (r3, v3)" by fastforce
  note sf = set_features_ok [OF s assms(1,7)]
  have "vd_info v3 = vd_info (l_vio l)" "vd_blocks v3 = vd_blocks (l_vio l)" "vd_pages v3 = vd_pages (l_vio l)"
    "vd_info_block v3 = vd_info_block (l_vio l)" "vd_max_queues v3 = vd_max_queues (l_vio l)"
    by (subst sf(3); simp)+
  then have o3: "owns B P v3" "live v3 = {}"
    using owns_same(1) [of v3 "l_vio l" B P] owns_same(2) [of v3 "l_vio l"] assms(5,6) by simp_all
  note start = negotiate_def ack_features [OF assms(8)] True s
  show ?thesis
  proof (cases "r3 = VSuccess")
    case False
    then show ?thesis using o3 sf(2) s assms(9) by (simp add: start)
  next
    case r3: True
    have "notify_readable M v3" using assms(4) by (simp add: notify_readable_def config_space_ok_def)
    from find_queues_ok [OF assms(2,3) this o3] obtain r4 v4 where
      f: "virtio_find_queues M 2 v3 = Some (r4, v4)" "owns B P v4" "live v4 = queues_after r4 2" by auto
    have st4: "dev_status st v4 = 11" using find_queues_status [OF f(1) assms(1)] sf(1) r3 by simp
    show ?thesis
    proof (cases "r4 = VSuccess")
      case False
      then show ?thesis using f st4 s r3 assms(9) by (simp add: start status_bits)
    next
      case r4: True
      have "live v4 = {0..<2}" using f(3) r4 by (simp add: queues_after_def)
      then obtain w where w: "init_queues M (?l2\<lparr>l_vio := v4\<rparr>) = Some (VSuccess, w)" "owns B P (l_vio w)"
        "live (l_vio w) = {0..<2}" "dev_status st (l_vio w) = 11" "l_hw_init w = l_hw_init l"
        "l_guest_features w = driver_features (l_host_features l)" "l_host_features w = l_host_features l"
        using init_queues_ok [of B P "?l2\<lparr>l_vio := v4\<rparr>" M st] f(2) st4 assms(1) by auto
      then show ?thesis using f(1) s r3 r4 assms(9) by (simp add: start status_bits)
    qed
  qed
qed

text \<open>The states a start can end in.\<close>
definition started :: "('d \<Rightarrow> u8) \<Rightarrow> ('d, 'a) lite \<Rightarrow> bool" where
  "started st l \<longleftrightarrow> l_hw_init l \<and> live (l_vio l) = {0..<2} \<and> l_guest_features l = driver_features (l_host_features l)
     \<and> l_blob l = bit (l_host_features l) 3
     \<and> dev_status st (l_vio l) = VIRTIO_CONFIG_S_ACKNOWLEDGE OR VIRTIO_CONFIG_S_DRIVER OR VIRTIO_CONFIG_S_FEATURES_OK
         OR VIRTIO_CONFIG_S_DRIVER_OK"

definition given_up :: "('d \<Rightarrow> u8) \<Rightarrow> ('d, 'a) lite \<Rightarrow> bool" where
  "given_up st l \<longleftrightarrow> \<not> l_hw_init l \<and> dev_status st (l_vio l) AND VIRTIO_CONFIG_S_DRIVER_OK = 0
     \<and> dev_status st (l_vio l) AND VIRTIO_CONFIG_S_FAILED \<noteq> 0"

lemma failed_bits:
  assumes "(x :: u8) AND 4 = 0"
  shows "(x OR 0x80) AND 4 = 0" "(x OR 0x80) AND 0x80 \<noteq> 0" "((x OR 0x80) AND NOT 8) AND 4 = 0"
    "((x OR 0x80) AND NOT 8) AND 0x80 \<noteq> 0"
proof -
  show f: "(x OR 0x80) AND 4 = 0" using assms by (simp add: bit.conj_disj_distrib2)
  have "(x OR 0x80) AND 0x80 = 0x80" by (rule flag_set)
  then show g: "(x OR 0x80) AND 0x80 \<noteq> 0" by simp
  have "((x OR 0x80) AND NOT 8) AND 4 = (x OR 0x80) AND 4" "((x OR 0x80) AND NOT 8) AND 0x80 = (x OR 0x80) AND 0x80"
    by (simp_all add: and.assoc)
  then show "((x OR 0x80) AND NOT 8) AND 4 = 0" "((x OR 0x80) AND NOT 8) AND 0x80 \<noteq> 0" using f g by simp_all
qed

lemma lite_init_ok:
  assumes "status_device M st" "fresh_alloc M" "pages_available M (vd_pages (l_vio l)) 2" "config_space_ok M" "\<not> l_hw_init l"
  shows "\<exists>r w. lite_init M msi l = Some (r, w) \<and> owns (vd_blocks (l_vio l)) (vd_pages (l_vio l)) (l_vio w)
    \<and> (if r = VSuccess then started st w
       else given_up st w \<or> \<not> l_hw_init w \<and> dev_status st (l_vio w) = dev_status st (l_vio l))"
proof -
  let ?B = "vd_blocks (l_vio l)" and ?P = "vd_pages (l_vio l)"
  obtain r1 v1 where d: "virtio_device_initialize M msi (l_vio l) = Some (r1, v1)" "owns ?B ?P v1" "live v1 = {}"
    "dev_status st v1 = (if r1 = VSuccess then VIRTIO_CONFIG_S_ACKNOWLEDGE OR VIRTIO_CONFIG_S_DRIVER else dev_status st (l_vio l))"
    using device_initialize_ok [OF assms(1,4)] by blast
  show ?thesis
  proof (cases "r1 = VSuccess")
    case False
    then show ?thesis using d assms(5) by (simp add: lite_init_def)
  next
    case r1: True
    obtain host v2 where g: "vio_modern_get_features M v1 = (host, v2)" by fastforce
    note gf = get_features_frame [OF g assms(1)]
    let ?l = "l\<lparr>l_vio := v2, l_host_features := host, l_guest_features := 0\<rparr>"
    have o2: "owns ?B ?P v2" "live v2 = {}"
      using gf(2) owns_same(1) [of v2 v1 ?B ?P] owns_same(2) [of v2 v1] d(2,3) by auto
    have "dev_status st v2 = 3" using gf(1) d(4) r1 by (simp add: status_bits)
    then obtain r3 l3 where n: "negotiate M ?l = Some (r3, l3)" "owns ?B ?P (l_vio l3)" "\<not> l_hw_init l3"
      "dev_status st (l_vio l3) AND VIRTIO_CONFIG_S_DRIVER_OK = 0"
      "r3 = VSuccess \<longrightarrow> dev_status st (l_vio l3) = 11 \<and> live (l_vio l3) = {0..<2} \<and> l_guest_features l3 = driver_features host"
      "l_host_features l3 = host"
      using negotiate_ok [OF assms(1-4), of ?B ?l] o2 assms(5) by auto
    have keep: "owns ?B ?P (virtio_device_ready M (l_vio l3))" "live (virtio_device_ready M (l_vio l3)) = live (l_vio l3)"
      "owns ?B ?P (virtio_add_status M x (l_vio l3))" for x
      using status_ops_frame(1) [of M x "l_vio l3"] status_ops_frame(2) [of M "l_vio l3"] n(2) by (auto simp: owns_world)
    show ?thesis
    proof (cases "r3 = VSuccess")
      case True
      have e: "virtio_device_ready M (l_vio l3) = virtio_add_status M VIRTIO_CONFIG_S_DRIVER_OK (l_vio l3)"
        by (simp add: virtio_device_ready_def virtio_add_status_def)
      have "dev_status st (virtio_device_ready M (l_vio l3)) = 15" unfolding e
        using add_status_status [OF assms(1), of VIRTIO_CONFIG_S_DRIVER_OK "l_vio l3"] n(5) True by (simp add: status_bits)
      then show ?thesis using d(1) r1 g n(1,5,6) True keep assms(5)
        by (simp add: lite_init_def started_def status_bits virtio_feature_laws(3) VIRTIO_GPU_F_RESOURCE_BLOB_def
          USE_BLOB_RESOURCE_def)
    next
      case False
      have "dev_status st (virtio_add_status M VIRTIO_CONFIG_S_FAILED (l_vio l3)) AND VIRTIO_CONFIG_S_DRIVER_OK = 0"
        "dev_status st (virtio_add_status M VIRTIO_CONFIG_S_FAILED (l_vio l3)) AND VIRTIO_CONFIG_S_FAILED \<noteq> 0"
        using add_status_status [OF assms(1), of VIRTIO_CONFIG_S_FAILED "l_vio l3"] n(4)
          failed_bits [of "dev_status st (l_vio l3)"] unfolding status_bits by metis+
      then show ?thesis using d(1) r1 g n(1,3) False keep assms(5)
        by (simp add: lite_init_def given_up_def)
    qed
  qed
qed

lemma shutdown_status: "virtio_device_shutdown v = Some w \<Longrightarrow> vd_world w = vd_world v"
  by (auto simp: virtio_device_shutdown_def bind_eq_Some_conv free_status split: if_splits)

lemma lite_close_ok:
  assumes "status_device M st" "owns B P (l_vio l)" "l_hw_init l"
  shows "\<exists>w. lite_close M l = Some w \<and> \<not> l_hw_init w \<and> vd_blocks (l_vio w) = B \<and> vd_pages (l_vio w) = P
    \<and> dev_status st (l_vio w) = 0 \<and> l_ctrl w = None \<and> l_cursor w = None"
proof -
  obtain d where r: "vio_modern_reset M (l_vio l) = Some (l_vio l\<lparr>vd_world := d\<rparr>)" "st d = 0" using reset_ok [OF assms(1)] by blast
  have "owns B P (l_vio l\<lparr>vd_world := d\<rparr>)" using assms(2) by (simp add: owns_world)
  then obtain v2 where v2: "virtio_delete_queues M (l_vio l\<lparr>vd_world := d\<rparr>) = Some v2" "owns B P v2" "live v2 = {}"
    using delete_queues_ok by blast
  obtain v3 where v3: "virtio_device_shutdown v2 = Some v3" "vd_blocks v3 = B" "vd_pages v3 = P"
    using shutdown_ok [OF v2(2,3)] by blast
  have "dev_status st v3 = 0" using shutdown_status [OF v3(1)] delete_queues_status [OF v2(1) assms(1)] r(2) by simp
  then show ?thesis using assms(3) r(1) v2(1) v3 by (simp add: lite_close_def)
qed

section \<open>The properties\<close>

text \<open>A device that takes every feature; its world is the status and the selector of the feature word.\<close>
definition demo_caps :: "nat \<Rightarrow> u8" where
  "demo_caps i = (if i = 0x34 then 0x40 else if i = 0x40 \<or> i = 0x50 \<or> i = 0x60 then 9
     else if i = 0x41 then 0x50 else if i = 0x51 then 0x60 else if i = 0x43 then 1 else if i = 0x53 then 3
     else if i = 0x63 then 2 else 0)"

definition demo_gpu :: "(u8 \<times> u32) machine" where
  "demo_gpu = \<lparr>read_reg = (\<lambda>r d. (case r of DeviceStatus \<Rightarrow> ucast (fst d) | DeviceFeature \<Rightarrow> (if snd d = 1 then 1 else 0xA)
       | NumQueues \<Rightarrow> 2 | QueueSize \<Rightarrow> 4 | _ \<Rightarrow> 0, d)),
     write_reg = (\<lambda>r x d. case r of DeviceStatus \<Rightarrow> (ucast x, snd d) | DeviceFeatureSelect \<Rightarrow> (fst d, x) | _ \<Rightarrow> d),
     read_conf = (\<lambda>a n d. (0, d)), write_conf = (\<lambda>_ _ _ d. d),
     cfg_byte = (\<lambda>i d. Some (demo_caps i)), cfg_word = (\<lambda>i d. Some 0x10),
     cfg_dword = (\<lambda>i d. Some (if i mod 16 = 12 then 0x1000 else if i mod 16 = 0 then 4 else 0)),
     res_len = (\<lambda>_. 0x4000), map_range = (\<lambda>_ off len. 0x8000 + off), msix_vector = (\<lambda>_. 0xFFFF),
     take_pages = (\<lambda>n h d. (demo_take h, d)), take_block = (\<lambda>n h d. (demo_take h, d)), phys_of = (\<lambda>a. a),
     sleep = (\<lambda>d. d), sizeof_split = 200, sizeof_packed = 200, sizeof_state = 24\<rparr>"

definition demo_lite :: "(u8 \<times> u32, nat) lite" where
  "demo_lite = \<lparr>l_vio = \<lparr>vd_world = (0, 0), vd_msix_used = False, vd_event_suppression = False, vd_packed_ring = False,
     vd_modern = False, vd_isr = 0, vd_common = 0, vd_config = 0, vd_config_len = 0, vd_notify_base = 0,
     vd_notify_len = 0, vd_notify_map_cap = 0, vd_notify_multiplier = 0, vd_max_queues = 0,
     vd_info = [], vd_info_block = 0, vd_pages = {}, vd_blocks = {}\<rparr>,
     l_hw_init = False, l_host_features = 0, l_guest_features = 0, l_scanouts = 0, l_capsets = 0, l_blob = False,
     l_ctrl = None, l_cursor = None, l_fb_active = False, l_fb_ptr = 0, l_hpd_event = 0\<rparr>"

lemma demo_gpu_status: "status_device demo_gpu fst"
  by (auto simp: status_device_def demo_gpu_def split: reg.splits)

lemma demo_gpu_memory: "fresh_alloc demo_gpu" "pages_available demo_gpu {} 2"
proof -
  show "fresh_alloc demo_gpu" using demo_take_fresh by (simp add: fresh_alloc_def demo_gpu_def)
  show "pages_available demo_gpu {} 2"
    using demo_take_page by (simp add: pages_available_def page_available_def demo_gpu_def)
qed

lemma demo_gpu_chain: "find_first_pci_vendor_capability demo_gpu d = 0x40" "next_capability demo_gpu d 0x40 = 0x50"
  "next_capability demo_gpu d 0x50 = 0x60" "next_capability demo_gpu d 0x60 = 0"
  by (cases d; simp only:; code_simp)+

lemma demo_gpu_config: "config_space_ok demo_gpu"
proof -
  have "(next_capability demo_gpu d ^^ 3) (find_first_pci_vendor_capability demo_gpu d) = 0" for d
    by (simp add: demo_gpu_chain eval_nat_numeral)
  then have "\<exists>n. (next_capability demo_gpu d ^^ n) (find_first_pci_vendor_capability demo_gpu d) = 0" for d by blast
  then show ?thesis by (simp add: config_space_ok_def) (simp add: demo_gpu_def)
qed

declare capability_loop.simps [code] reset_wait.simps [code] link_unused.simps [code]

lemma demo_start:
  "map_option (\<lambda>(r, w). (r, l_host_features w, l_blob w)) (lite_init demo_gpu False demo_lite)
    = Some (VSuccess, 0x10000000A, True)"
  by code_simp

lemma demo_started:
  obtains w where "lite_init demo_gpu False demo_lite = Some (VSuccess, w)" "l_host_features w = 0x10000000A"
  using demo_start by (auto simp: map_option_case split: option.splits)

lemma demo_lite_idle: "pages_available demo_gpu (vd_pages (l_vio demo_lite)) 2" "\<not> l_hw_init demo_lite"
  using demo_gpu_memory(2) by (simp_all add: demo_lite_def)







end

