(* ===== verification/EdidParser.thy ===== *)
theory EdidParser
  imports Prelude
begin

text \<open>
  The parser of display identification data, \<^verbatim>\<open>src/EDIDParser/edidparser.c\<close> and
  \<^verbatim>\<open>edidparser.h\<close>: the display modes of a 256 byte EDID are appended to an array of 32
  modes.  Reads are checked (\<^verbatim>\<open>None\<close> is a read outside the data); the values the code
  holds in \<^verbatim>\<open>int\<close> are integers, those in \<^verbatim>\<open>unsigned char\<close> and \<^verbatim>\<open>unsigned int\<close> words.
  The \<^verbatim>\<open>double\<close> refresh rates are exact, in millionths of a hertz: every literal of the
  tables has at most six decimals, and every computed rate is a whole number.
\<close>

section \<open>Data\<close>

record edid_qemu_modes =
  mode_width :: u32
  mode_height :: u32
  refresh_rate :: nat

record output_modelist =
  modelist :: "edid_qemu_modes list"
  modelist_size :: u32

definition empty_modelist :: output_modelist where
  "empty_modelist = \<lparr>modelist = replicate 32 \<lparr>mode_width = 0, mode_height = 0, refresh_rate = 0\<rparr>,
     modelist_size = 0\<rparr>"

abbreviation md :: "u32 \<Rightarrow> u32 \<Rightarrow> nat \<Rightarrow> edid_qemu_modes" where
  "md w h r \<equiv> \<lparr>mode_width = w, mode_height = h, refresh_rate = r\<rparr>"

definition EDID_MASK :: "nat \<Rightarrow> int" where "EDID_MASK a = drop_bit a 0xFF"
definition EDID_SIZE :: nat where "EDID_SIZE = 256"
definition OUTPUT_MODELIST_SIZE :: nat where "OUTPUT_MODELIST_SIZE = 32"
definition EDID_FIRST_BLOCK_END :: nat where "EDID_FIRST_BLOCK_END = 127"
definition EDID_SECOND_BLOCK_START :: nat where "EDID_SECOND_BLOCK_START = 128"
definition TIMING_BITMAP_START :: nat where "TIMING_BITMAP_START = 35"
definition TIMING_BITMAP_END :: nat where "TIMING_BITMAP_END = 37"
definition TIMING_BITMAP_MODELIST_SIZE :: nat where "TIMING_BITMAP_MODELIST_SIZE = 17"
definition STANDARD_MODE_START :: nat where "STANDARD_MODE_START = 38"
definition STANDARD_MODE_END :: nat where "STANDARD_MODE_END = 53"
definition CEA_MODELIST_SIZE :: int where "CEA_MODELIST_SIZE = 154"
definition CEA_VIDEO_BLOCK_IDENTIFIER :: int where "CEA_VIDEO_BLOCK_IDENTIFIER = 2"
definition CEA_DATA_BLOCKS_END_INDEX :: nat where "CEA_DATA_BLOCKS_END_INDEX = 130"
definition CEA_DATA_FIRST_BLOCK_INDEX :: nat where "CEA_DATA_FIRST_BLOCK_INDEX = 132"
definition CEA_MODELIST_FIRST_BLOCK :: int where "CEA_MODELIST_FIRST_BLOCK = 127"
definition CEA_MODELIST_SECOND_BLOCK :: int where "CEA_MODELIST_SECOND_BLOCK = 193"
definition DTD_START :: nat where "DTD_START = 54"
definition DTD_END :: nat where "DTD_END = 126"
definition DTD_ADDITIONAL_STANDARD_TIMING_MODELIST_SIZE :: nat where
  "DTD_ADDITIONAL_STANDARD_TIMING_MODELIST_SIZE = 44"
definition DTD_ADDITIONAL_STANDARD_START_BYTE :: nat where
  "DTD_ADDITIONAL_STANDARD_START_BYTE = 6"
definition DTD_ADDITIONAL_STANDARD_TOTAL_BYTES :: nat where
  "DTD_ADDITIONAL_STANDARD_TOTAL_BYTES = 5"
definition DTD_DISPLAY_DESCRIPTOR_HEADER_SIZE :: nat where
  "DTD_DISPLAY_DESCRIPTOR_HEADER_SIZE = 2"
definition DTD_STANDARD_DESC_SIZE :: nat where "DTD_STANDARD_DESC_SIZE = 18"
definition CLK_UNIT :: int where "CLK_UNIT = 10000"

lemmas edid_consts = EDID_SIZE_def OUTPUT_MODELIST_SIZE_def EDID_FIRST_BLOCK_END_def
  EDID_SECOND_BLOCK_START_def TIMING_BITMAP_START_def TIMING_BITMAP_END_def
  TIMING_BITMAP_MODELIST_SIZE_def STANDARD_MODE_START_def STANDARD_MODE_END_def
  CEA_MODELIST_SIZE_def CEA_VIDEO_BLOCK_IDENTIFIER_def CEA_DATA_BLOCKS_END_INDEX_def
  CEA_DATA_FIRST_BLOCK_INDEX_def CEA_MODELIST_FIRST_BLOCK_def CEA_MODELIST_SECOND_BLOCK_def
  DTD_START_def DTD_END_def DTD_ADDITIONAL_STANDARD_TIMING_MODELIST_SIZE_def
  DTD_ADDITIONAL_STANDARD_START_BYTE_def DTD_ADDITIONAL_STANDARD_TOTAL_BYTES_def
  DTD_DISPLAY_DESCRIPTOR_HEADER_SIZE_def DTD_STANDARD_DESC_SIZE_def CLK_UNIT_def

definition g_edid_header :: "u8 list" where
  "g_edid_header = [0x00, 0xFF, 0xFF, 0xFF, 0xFF, 0xFF, 0xFF, 0x00]"

definition g_additional_standard_header :: "u8 list" where
  "g_additional_standard_header = [0x00, 0x00, 0x00, 0xf7, 0x00]"

definition g_dtd_display_header :: "u8 list" where
  "g_dtd_display_header = [0x00, 0x00]"

definition timing_bitmap_modelist :: "edid_qemu_modes list" where
  "timing_bitmap_modelist = [
  md 800 600 60000000, md 800 600 56000000, md 640 480 75000000, md 640 480 72000000, md 640 480 67000000,
   md 640 480 60000000, md 720 400 88000000, md 720 400 70000000, md 1280 1024 75000000,
   md 1024 768 75000000, md 1024 768 70000000, md 1024 768 60000000, md 1024 768 87000000,
   md 832 624 75000000, md 800 600 75000000, md 800 600 72000000, md 1152 870 75000000]"

definition additional_standard_timing_modelist :: "edid_qemu_modes list" where
  "additional_standard_timing_modelist = [
  md 1152 864 85000000, md 1024 768 85000000, md 800 600 85000000, md 848 480 60000000, md 640 480 85000000,
   md 720 400 85000000, md 640 400 85000000, md 640 350 85000000, md 1280 1024 85000000,
   md 1280 1024 60000000, md 1280 960 85000000, md 1280 960 60000000, md 1280 768 85000000,
   md 1280 768 75000000, md 1280 768 60000000, md 1280 768 60000000, md 1440 1050 75000000,
   md 1440 1050 60000000, md 1440 1050 60000000, md 1440 900 85000000, md 1440 900 75000000,
   md 1440 900 60000000, md 1280 768 60000000, md 1360 768 60000000, md 1600 1200 70000000,
   md 1600 1200 65000000, md 1600 1200 60000000, md 1680 1050 85000000, md 1680 1050 75000000,
   md 1680 1050 60000000, md 1680 1050 60000000, md 1440 1050 85000000, md 1920 1200 60000000,
   md 1920 1200 60000000, md 1856 1392 75000000, md 1856 1392 60000000, md 1792 1344 75000000,
   md 1792 1344 60000000, md 1600 1200 85000000, md 1600 1200 70000000, md 1920 1440 75000000,
   md 1920 1440 60000000, md 1920 1200 85000000, md 1920 1200 75000000]"

definition cea_modelist :: "edid_qemu_modes list" where
  "cea_modelist = [
  md 640 480 59940000, md 720 480 59940000, md 720 480 59940000, md 1280 720 60000000, md 1920 540 60000000,
   md 1440 240 59940000, md 1440 240 59940000, md 1440 240 59826000, md 1440 240 59826000,
   md 2880 240 59940000, md 2880 240 59940000, md 2880 240 60000000, md 2880 240 60000000,
   md 1440 480 59940000, md 1440 480 59940000, md 1920 1080 60000000, md 720 576 50000000,
   md 720 576 50000000, md 1280 720 50000000, md 1920 540 50000000, md 1440 288 50000000,
   md 1440 288 50000000, md 1440 288 50000000, md 1440 288 50000000, md 2880 288 50000000,
   md 2880 288 50000000, md 2880 288 50000000, md 2880 288 50000000, md 1440 576 50000000,
   md 1440 576 50000000, md 1920 1080 50000000, md 1920 1080 23980000, md 1920 1080 25000000,
   md 1920 1080 29970000, md 2880 240 59940000, md 2880 240 59940000, md 2880 576 50000000,
   md 2880 576 50000000, md 1920 540 50000000, md 1920 540 100000000, md 1280 720 100000000,
   md 720 576 100000000, md 720 576 100000000, md 1440 576 100000000, md 1440 576 100000000,
   md 1920 540 119880000, md 1280 720 119880000, md 720 576 119880000, md 720 576 119880000,
   md 1440 576 119880000, md 1440 576 119880000, md 720 576 200000000, md 720 576 200000000,
   md 1440 288 200000000, md 1440 288 200000000, md 720 480 239760000, md 720 480 239760000,
   md 1440 240 239760000, md 1440 240 239760000, md 1280 720 23980000, md 1280 720 25000000,
   md 1280 720 29970000, md 1920 1080 119880000, md 1920 1080 100000000, md 1280 720 23980000,
   md 1280 720 25000000, md 1280 720 29970000, md 1280 720 50000000, md 1650 750 60000000,
   md 1280 720 100000000, md 1280 720 119880000, md 1920 1080 23980000, md 1920 1080 25000000,
   md 1920 1080 29970000, md 1920 1080 50000000, md 1920 1080 60000000, md 1920 1080 100000000,
   md 1920 1080 119880000, md 1680 720 23980000, md 1680 720 25000000, md 1680 720 29970000,
   md 1680 720 50000000, md 1680 720 60000000, md 1680 720 100000000, md 1680 720 119880000,
   md 2560 1080 23980000, md 2560 1080 25000000, md 2560 1080 29970000, md 2560 1080 50000000,
   md 2560 1080 60000000, md 2560 1080 100000000, md 2560 1080 119880000, md 3840 2160 23980000,
   md 3840 2160 25000000, md 3840 2160 29970000, md 3840 2160 50000000, md 3840 2160 60000000,
   md 4096 2160 23980000, md 4096 2160 25000000, md 4096 2160 29970000, md 4096 2160 50000000,
   md 4096 2160 60000000, md 3840 2160 23980000, md 3840 2160 25000000, md 3840 2160 29970000,
   md 3840 2160 50000000, md 3840 2160 60000000, md 1280 720 47960000, md 1280 720 47960000,
   md 1680 720 47960000, md 1920 1080 47960000, md 1920 1080 47960000, md 2560 1080 47960000,
   md 3840 2160 47960000, md 4096 2160 47960000, md 3840 2160 47960000, md 3840 2160 100000000,
   md 3840 2160 119880000, md 3840 2160 100000000, md 3840 2160 119880000, md 5120 2160 23980000,
   md 5120 2160 25000000, md 5120 2160 29970000, md 5120 2160 47960000, md 5120 2160 50000000,
   md 5120 2160 60000000, md 5120 2160 100000000, md 5120 2160 119880000, md 7680 4320 23980000,
   md 7680 4320 25000000, md 7680 4320 29970000, md 7680 4320 47960000, md 7680 4320 50000000,
   md 7680 4320 60000000, md 7680 4320 100000000, md 7680 4320 119880000, md 7680 4320 23980000,
   md 7680 4320 25000000, md 7680 4320 29970000, md 7680 4320 47960000, md 7680 4320 50000000,
   md 7680 4320 60000000, md 7680 4320 100000000, md 7680 4320 119880000, md 10240 4320 23980000,
   md 10240 4320 25000000, md 10240 4320 29970000, md 10240 4320 47960000, md 10240 4320 50000000,
   md 10240 4320 60000000, md 10240 4320 100000000, md 10240 4320 119880000, md 4096 2160 100000000,
   md 4096 2160 119880000]"

section \<open>Operations\<close>

text \<open>A byte as the \<^verbatim>\<open>int\<close> it is promoted to.\<close>
definition ibyte :: "u8 list \<Rightarrow> nat \<Rightarrow> int option" where
  "ibyte e i = map_option uint (nth_opt e i)"

text \<open>\<^verbatim>\<open>memcmp(e + i, bs, length bs)\<close>: the standard fixes the sign of the result only.\<close>
fun mem_cmp :: "u8 list \<Rightarrow> nat \<Rightarrow> u8 list \<Rightarrow> int option" where
  "mem_cmp e i [] = Some 0"
| "mem_cmp e i (b # bs) = do {
     x \<leftarrow> nth_opt e i;
     r \<leftarrow> mem_cmp e (i + 1) bs;
     Some (if x < b then - 1 else if b < x then 1 else r) }"

text \<open>The result is a C \<^verbatim>\<open>int\<close>; the list behind the pointer is \<^verbatim>\<open>None\<close> for a null pointer.\<close>
definition add_mode :: "u32 \<Rightarrow> u32 \<Rightarrow> nat \<Rightarrow> output_modelist option \<Rightarrow>
    (int \<times> output_modelist option) option" where
  "add_mode w h r lo = (case lo of
     None \<Rightarrow> Some (- 1, lo)
   | Some l \<Rightarrow>
       if OUTPUT_MODELIST_SIZE \<le> unat (modelist_size l) then Some (- 1, lo)
       else do {
         ms \<leftarrow> upd_opt (modelist l) (unat (modelist_size l)) (md w h r);
         Some (0, Some (l\<lparr>modelist := ms, modelist_size := modelist_size l + 1\<rparr>)) })"

text \<open>The calls drop the result.\<close>
definition add_entry :: "edid_qemu_modes \<Rightarrow> output_modelist option \<Rightarrow> output_modelist option option" where
  "add_entry m lo = map_option snd (add_mode (mode_width m) (mode_height m) (refresh_rate m) lo)"

definition validate_edid_header :: "u8 list \<Rightarrow> int option" where
  "validate_edid_header e = mem_cmp e 0 g_edid_header"

definition validate_edid_checksum :: "u8 list \<Rightarrow> int option" where
  "validate_edid_checksum e = do {
     chksum \<leftarrow> for_loop 0 (EDID_FIRST_BLOCK_END + 1) 1
       (\<lambda>i c. do { b \<leftarrow> ibyte e i; Some (c + b) }) (0 :: int);
     let chksum = chksum mod int EDID_SIZE;
     if chksum \<noteq> 0 then Some (- 1) else do {
       chksum \<leftarrow> for_loop EDID_SECOND_BLOCK_START EDID_SIZE 1
         (\<lambda>i c. do { b \<leftarrow> ibyte e i; Some (c + b) }) chksum;
       let chksum = chksum mod int EDID_SIZE;
       Some (if chksum \<noteq> 0 then - 1 else 0) } }"

text \<open>One pass over the bits of a bitmap byte: \<^verbatim>\<open>k\<close> bits left, the loop stops early at the
  end of the table.\<close>
fun bitmap_bits :: "edid_qemu_modes list \<Rightarrow> nat \<Rightarrow> nat \<Rightarrow> nat \<Rightarrow> u8 \<Rightarrow> output_modelist option \<Rightarrow>
    (nat \<times> output_modelist option) option" where
  "bitmap_bits tbl n 0 lookup byte lo = Some (lookup, lo)"
| "bitmap_bits tbl n (Suc k) lookup byte lo = do {
     lo1 \<leftarrow> (if byte AND 1 = 1 then do { m \<leftarrow> nth_opt tbl lookup; add_entry m lo } else Some lo);
     let lookup1 = (if lookup \<le> n - 1 then lookup + 1 else lookup);
     if n - 1 < lookup1 then Some (lookup1, lo1)
     else bitmap_bits tbl n k lookup1 (drop_bit 1 byte) lo1 }"

function timing_bytes :: "u8 list \<Rightarrow> nat \<Rightarrow> nat \<Rightarrow> output_modelist option \<Rightarrow>
    output_modelist option option" where
  "timing_bytes e i tb_lookup lo =
     (if i \<le> TIMING_BITMAP_END then
        if TIMING_BITMAP_MODELIST_SIZE - 1 < tb_lookup then Some lo
        else do {
          tb_byte \<leftarrow> nth_opt e i;
          if i < TIMING_BITMAP_END then do {
            (lk, lo1) \<leftarrow> bitmap_bits timing_bitmap_modelist TIMING_BITMAP_MODELIST_SIZE 8 tb_lookup tb_byte lo;
            timing_bytes e (i + 1) lk lo1
          } else do {
            lo1 \<leftarrow> (if drop_bit 7 tb_byte AND 1 = 1
                    then do { m \<leftarrow> nth_opt timing_bitmap_modelist tb_lookup; add_entry m lo }
                    else Some lo);
            timing_bytes e (i + 1) tb_lookup lo1
          } }
      else Some lo)"
  by pat_completeness auto
termination by (relation "measure (\<lambda>(e, i, l, lo). TIMING_BITMAP_END + 1 - i)") auto

definition get_timing_bitmaps_modes :: "u8 list \<Rightarrow> output_modelist option \<Rightarrow> output_modelist option option" where
  "get_timing_bitmaps_modes e lo = timing_bytes e TIMING_BITMAP_START 0 lo"

definition standard_mode_one :: "u8 list \<Rightarrow> nat \<Rightarrow> output_modelist option \<Rightarrow> output_modelist option option" where
  "standard_mode_one e index lo = do {
     b0 \<leftarrow> ibyte e index;
     b1 \<leftarrow> (if b0 = 1 then ibyte e (index + 1) else Some 0);
     if b0 = 1 \<and> b1 = 1 then Some lo
     else do {
       let width = (b0 + 31) * 8;
       b1 \<leftarrow> ibyte e (index + 1);
       let aspect_ratio = drop_bit 6 b1;
       let height = (if aspect_ratio = 0 then Some (width * 10 div 16)
                     else if aspect_ratio = 1 then Some (width * 3 div 4)
                     else if aspect_ratio = 2 then Some (width * 4 div 5)
                     else if aspect_ratio = 3 then Some (width * 9 div 16)
                     else None);
       case height of
         None \<Rightarrow> Some lo
       | Some height \<Rightarrow>
           add_entry (md (word_of_int width) (word_of_int height)
             (nat (((b1 AND EDID_MASK 2) + 60) * 1000000))) lo } }"

definition get_standard_modes :: "u8 list \<Rightarrow> output_modelist option \<Rightarrow> output_modelist option option" where
  "get_standard_modes e lo =
     for_loop STANDARD_MODE_START (STANDARD_MODE_END + 1) 2 (standard_mode_one e) lo"

definition cea_vic_one :: "u8 list \<Rightarrow> nat \<Rightarrow> output_modelist option \<Rightarrow> output_modelist option option" where
  "cea_vic_one e i lo = do {
     b \<leftarrow> ibyte e i;
     let vic_number = b AND EDID_MASK 1;
     let vic_number = (if vic_number > 64 then b else vic_number);
     if vic_number = 0 then Some lo
     else if vic_number \<ge> 1 \<and> vic_number \<le> CEA_MODELIST_FIRST_BLOCK then
       let idx = vic_number - 1 in
       if idx \<ge> 0 \<and> idx < CEA_MODELIST_SIZE
       then do { m \<leftarrow> nth_opt cea_modelist (nat idx); add_entry m lo } else Some lo
     else if vic_number \<ge> CEA_MODELIST_SECOND_BLOCK then
       let idx = vic_number - 65 in
       if idx \<ge> 0 \<and> idx < CEA_MODELIST_SIZE
       then do { m \<leftarrow> nth_opt cea_modelist (nat idx); add_entry m lo } else Some lo
     else Some lo }"

function cea_blocks :: "u8 list \<Rightarrow> nat \<Rightarrow> nat \<Rightarrow> output_modelist option \<Rightarrow> output_modelist option option" where
  "cea_blocks e cea_end start lo =
     (if start < cea_end then do {
        b \<leftarrow> ibyte e start;
        if drop_bit 5 (b AND NOT (EDID_MASK 3)) = CEA_VIDEO_BLOCK_IDENTIFIER then do {
          let video_block_end = start + nat (b AND EDID_MASK 3);
          let video_block_end =
            (if EDID_SIZE \<le> video_block_end then EDID_SIZE - 1 else video_block_end);
          for_loop (start + 1) (video_block_end + 1) 1 (cea_vic_one e) lo
        } else cea_blocks e cea_end (start + nat (b AND EDID_MASK 3) + 1) lo
      } else Some lo)"
  by pat_completeness auto
termination by (relation "measure (\<lambda>(e, m, s, lo). m - s)") auto

definition get_cea_modes :: "u8 list \<Rightarrow> output_modelist option \<Rightarrow> output_modelist option option" where
  "get_cea_modes e lo = do {
     _ \<leftarrow> ibyte e CEA_DATA_FIRST_BLOCK_INDEX;
     d \<leftarrow> ibyte e CEA_DATA_BLOCKS_END_INDEX;
     let cea_end = CEA_DATA_FIRST_BLOCK_INDEX + nat d;
     let cea_end = (if EDID_SIZE - 1 < cea_end then EDID_SIZE - 1 else cea_end);
     cea_blocks e cea_end CEA_DATA_FIRST_BLOCK_INDEX lo }"

fun asd_last_bits :: "nat \<Rightarrow> nat \<Rightarrow> u8 \<Rightarrow> output_modelist option \<Rightarrow> (nat \<times> output_modelist option) option" where
  "asd_last_bits 0 lookup byte lo = Some (lookup, lo)"
| "asd_last_bits (Suc k) lookup byte lo =
     (if DTD_ADDITIONAL_STANDARD_TIMING_MODELIST_SIZE - 1 < lookup then Some (lookup, lo)
      else do {
        lo1 \<leftarrow> (if byte AND 1 = 1
          then do { m \<leftarrow> nth_opt additional_standard_timing_modelist lookup; add_entry m lo }
          else Some lo);
        let lookup1 = (if lookup \<le> DTD_ADDITIONAL_STANDARD_TIMING_MODELIST_SIZE - 1
          then lookup + 1 else lookup);
        asd_last_bits k lookup1 (drop_bit 1 byte) lo1 })"

function asd_bytes :: "u8 list \<Rightarrow> nat \<Rightarrow> nat \<Rightarrow> nat \<Rightarrow> output_modelist option \<Rightarrow>
    output_modelist option option" where
  "asd_bytes e start index lookup lo =
     (if index \<le> start + DTD_ADDITIONAL_STANDARD_TOTAL_BYTES then
        if DTD_ADDITIONAL_STANDARD_TIMING_MODELIST_SIZE - 1 < lookup then Some lo
        else do {
          byte \<leftarrow> nth_opt e index;
          (lk, lo1) \<leftarrow> (if index \<le> start + 4
             then bitmap_bits additional_standard_timing_modelist
               DTD_ADDITIONAL_STANDARD_TIMING_MODELIST_SIZE 8 lookup byte lo
             else asd_last_bits 4 lookup (drop_bit 4 byte) lo);
          asd_bytes e start (index + 1) lk lo1 }
      else Some lo)"
  by pat_completeness auto
termination by (relation "measure (\<lambda>(e, s, i, l, lo). s + 6 - i)") (auto simp: edid_consts)

function asd_scan :: "u8 list \<Rightarrow> nat \<Rightarrow> output_modelist option \<Rightarrow> output_modelist option option" where
  "asd_scan e i lo =
     (if i < DTD_END then do {
        c \<leftarrow> mem_cmp e i g_additional_standard_header;
        if c = 0 then
          let start = i + DTD_ADDITIONAL_STANDARD_START_BYTE in asd_bytes e start start 0 lo
        else asd_scan e (i + 1) lo
      } else Some lo)"
  by pat_completeness auto
termination by (relation "measure (\<lambda>(e, i, lo). DTD_END - i)") auto

definition get_additional_standard_display_modes :: "u8 list \<Rightarrow> output_modelist option \<Rightarrow>
    output_modelist option option" where
  "get_additional_standard_display_modes e lo = asd_scan e DTD_START lo"

text \<open>The totals are \<^verbatim>\<open>unsigned int\<close>, and so is the division: the rate is a whole number.\<close>
definition dtd_one :: "u8 list \<Rightarrow> nat \<Rightarrow> output_modelist option \<Rightarrow> output_modelist option option" where
  "dtd_one e i lo = do {
     c \<leftarrow> mem_cmp e i g_dtd_display_header;
     if c \<noteq> 0 then do {
       b0 \<leftarrow> ibyte e i; b1 \<leftarrow> ibyte e (i + 1); b2 \<leftarrow> ibyte e (i + 2); b3 \<leftarrow> ibyte e (i + 3);
       b4 \<leftarrow> ibyte e (i + 4); b5 \<leftarrow> ibyte e (i + 5); b6 \<leftarrow> ibyte e (i + 6); b7 \<leftarrow> ibyte e (i + 7);
       let pixel_clk = (word_of_int ((b0 + push_bit 8 b1) * CLK_UNIT) :: u32);
       let h_active = (word_of_int (push_bit 8 (drop_bit 4 b4) + b2) :: u32);
       let v_active = (word_of_int (push_bit 8 (drop_bit 4 b7) + b5) :: u32);
       let h_blank = (word_of_int (push_bit 8 (b4 AND 15) + b3) :: u32);
       let v_blank = (word_of_int (push_bit 8 (b7 AND 15) + b6) :: u32);
       let h_total = h_active + h_blank;
       let v_total = v_active + v_blank;
       if h_total \<noteq> 0 \<and> v_total \<noteq> 0 then do {
         guard_opt (h_total * v_total \<noteq> 0);
         add_entry (md h_active v_active (unat (pixel_clk div (h_total * v_total)) * 1000000)) lo
       } else Some lo
     } else Some lo }"

definition get_detailed_timing_descriptor_modes :: "u8 list \<Rightarrow> output_modelist option \<Rightarrow>
    output_modelist option option" where
  "get_detailed_timing_descriptor_modes e lo =
     for_loop DTD_START (DTD_END - DTD_DISPLAY_DESCRIPTOR_HEADER_SIZE) DTD_STANDARD_DESC_SIZE
       (dtd_one e) lo"

definition parse_edid_data :: "u8 list \<Rightarrow> output_modelist option \<Rightarrow>
    (int \<times> output_modelist option) option" where
  "parse_edid_data e lo = do {
     r \<leftarrow> validate_edid_header e;
     if r \<noteq> 0 then Some (r, lo) else do {
       r \<leftarrow> validate_edid_checksum e;
       if r \<noteq> 0 then Some (r, lo) else do {
         lo \<leftarrow> get_timing_bitmaps_modes e lo;
         lo \<leftarrow> get_standard_modes e lo;
         lo \<leftarrow> get_cea_modes e lo;
         lo \<leftarrow> get_detailed_timing_descriptor_modes e lo;
         lo \<leftarrow> get_additional_standard_display_modes e lo;
         Some (0, lo) } } }"

declare timing_bytes.simps [simp del] cea_blocks.simps [simp del]
  asd_bytes.simps [simp del] asd_scan.simps [simp del]

end
