(* ===== verification/EdidParserProps.thy ===== *)
theory EdidParserProps
  imports EdidParser
begin

text \<open>
  What the parser of display identification data computes: the modes of a reference
  reading of the 256 bytes, in order, as far as the array of 32 modes has room.  From it
  follow memory safety on every input and the bound on the number of modes.
\<close>

section \<open>Appending to the array\<close>

definition modes_ok :: "output_modelist option \<Rightarrow> bool" where
  "modes_ok lo = (case lo of None \<Rightarrow> True
     | Some l \<Rightarrow> length (modelist l) = OUTPUT_MODELIST_SIZE \<and> unat (modelist_size l) \<le> OUTPUT_MODELIST_SIZE)"

definition add_modes :: "edid_qemu_modes list \<Rightarrow> output_modelist option \<Rightarrow> output_modelist option" where
  "add_modes ms lo = (case lo of None \<Rightarrow> None
     | Some l \<Rightarrow>
        let n = unat (modelist_size l); k = min (length ms) (OUTPUT_MODELIST_SIZE - n) in
        Some (l\<lparr>modelist := take n (modelist l) @ take k ms @ drop (n + k) (modelist l),
                modelist_size := modelist_size l + of_nat k\<rparr>))"

lemma add_modes_Nil [simp]: "add_modes [] lo = lo"
  by (cases lo) (simp_all add: add_modes_def)

lemma add_modes_None [simp]: "add_modes ms None = None"
  by (simp add: add_modes_def)

lemma size_plus:
  assumes "unat (s :: u32) \<le> 32" "k \<le> 32 - unat s"
  shows "unat (s + of_nat k) = unat s + k"
proof -
  have "unat (of_nat k :: u32) = k" using assms by (intro unat_of_nat_less) simp
  then show ?thesis using assms by (simp add: unat_word_ariths)
qed

lemma modes_ok_add [simp, intro]: "modes_ok lo \<Longrightarrow> modes_ok (add_modes ms lo)"
  by (cases lo) (auto simp: modes_ok_def add_modes_def OUTPUT_MODELIST_SIZE_def Let_def size_plus)

lemma add_modes_append:
  assumes "modes_ok lo"
  shows "add_modes (xs @ ys) lo = add_modes ys (add_modes xs lo)"
proof (cases lo)
  case None
  then show ?thesis by simp
next
  case (Some l)
  define n where "n = unat (modelist_size l)"
  define k where "k = min (length xs) (32 - n)"
  define k2 where "k2 = min (length ys) (32 - (n + k))"
  have l: "length (modelist l) = 32" "n \<le> 32"
    using assms Some by (simp_all add: modes_ok_def OUTPUT_MODELIST_SIZE_def n_def)
  have u: "unat (modelist_size l + of_nat k) = n + k"
    using l unfolding n_def k_def by (intro size_plus) auto
  have m: "min (length xs + length ys) (32 - n) = k + k2" by (simp add: k_def k2_def)
  have t: "take (k + k2) (xs @ ys) = take k xs @ take k2 ys" by (auto simp: k_def k2_def min_def)
  have 1: "add_modes xs lo = Some (l\<lparr>modelist := take n (modelist l) @ take k xs @ drop (n + k) (modelist l),
      modelist_size := modelist_size l + of_nat k\<rparr>)" (is "_ = Some ?l1")
    by (simp add: Some add_modes_def OUTPUT_MODELIST_SIZE_def Let_def n_def k_def)
  have t1: "take (n + k) (modelist ?l1) = take n (modelist l) @ take k xs"
    using l by (simp add: k_def min_def)
  have d1: "drop (n + k + k2) (modelist ?l1) = drop (n + k + k2) (modelist l)"
    using l by (simp add: k_def min_def ac_simps)
  have "add_modes ys (add_modes xs lo) = Some (?l1\<lparr>modelist :=
      take (n + k) (modelist ?l1) @ take k2 ys @ drop (n + k + k2) (modelist ?l1),
      modelist_size := modelist_size ?l1 + of_nat k2\<rparr>)"
    unfolding 1 by (simp add: add_modes_def OUTPUT_MODELIST_SIZE_def Let_def u k2_def)
  also have "\<dots> = add_modes (xs @ ys) lo"
    unfolding t1 d1
    by (simp add: Some add_modes_def OUTPUT_MODELIST_SIZE_def Let_def n_def [symmetric] m t
        add.assoc del: take_append)
  finally show ?thesis by simp
qed

lemma add_entry_ok [simp]:
  assumes "modes_ok lo"
  shows "add_entry m lo = Some (add_modes [m] lo)"
proof (cases lo)
  case None
  then show ?thesis by (simp add: add_entry_def add_mode_def)
next
  case (Some l)
  have "length (modelist l) = 32" "unat (modelist_size l) \<le> 32"
    using assms Some by (simp_all add: modes_ok_def OUTPUT_MODELIST_SIZE_def)
  then show ?thesis
    by (cases "unat (modelist_size l) = 32")
       (auto simp: Some add_entry_def add_mode_def add_modes_def OUTPUT_MODELIST_SIZE_def
          Let_def upd_conv_take_nth_drop)
qed

section \<open>Loops\<close>

function steps :: "nat \<Rightarrow> nat \<Rightarrow> nat \<Rightarrow> nat list" where
  "steps i b d = (if i < b \<and> 0 < d then i # steps (i + d) b d else [])"
  by pat_completeness auto
termination by (relation "measure (\<lambda>(i, b, d). b - i)") auto

declare steps.simps [simp del]

lemma steps_1: "steps i b 1 = [i..<b]"
  by (induction i b "1::nat" rule: steps.induct) (subst steps.simps, simp add: upt_conv_Cons)

lemmas steps_Suc_0 = steps_1 [unfolded One_nat_def]

lemma for_loop_modes:
  assumes "modes_ok lo"
    and "\<And>i s. i \<in> set (steps a b d) \<Longrightarrow> modes_ok s \<Longrightarrow> f i s = Some (add_modes (g i) s)"
  shows "for_loop a b d f lo = Some (add_modes (concat (map g (steps a b d))) lo)"
  using assms
proof (induction a b d f lo rule: for_loop.induct)
  case (1 i b d f s)
  show ?case
  proof (cases "i < b \<and> 0 < d")
    case True
    have st: "steps i b d = i # steps (i + d) b d" using True by (subst steps.simps) simp
    have f: "f i s = Some (add_modes (g i) s)" using 1(2,3) st by simp
    have "for_loop (i + d) b d f (add_modes (g i) s)
        = Some (add_modes (concat (map g (steps (i + d) b d))) (add_modes (g i) s))"
      using 1(2,3) st by (intro 1(1) True) auto
    then show ?thesis using True f 1(2) st by (subst for_loop.simps) (simp add: add_modes_append)
  next
    case False
    then show ?thesis by (subst for_loop.simps, subst steps.simps) auto
  qed
qed

lemma for_loop_sum:
  assumes "b \<le> length e"
  shows "for_loop a b 1 (\<lambda>i c. do { x \<leftarrow> ibyte e i; Some (c + x) }) c
    = Some (c + (\<Sum>i\<leftarrow>[a..<b]. uint (e ! i)))"
  using assms
proof (induction "b - a" arbitrary: a c)
  case 0
  then show ?case by (subst for_loop.simps) simp
next
  case (Suc n)
  then have "a < b" "n = b - (a + 1)" by auto
  then show ?case using Suc
    by (subst for_loop.simps) (simp add: ibyte_def upt_conv_Cons algebra_simps)
qed

lemma mem_cmp_ok:
  "i + length bs \<le> length e \<Longrightarrow> \<exists>r. mem_cmp e i bs = Some r \<and> (r = 0 \<longleftrightarrow> take (length bs) (drop i e) = bs)"
proof (induction e i bs rule: mem_cmp.induct)
  case (1 e i)
  then show ?case by simp
next
  case (2 e i b bs)
  have "e ! i \<noteq> b \<Longrightarrow> e ! i < b \<or> b < e ! i" by auto
  moreover obtain r where "mem_cmp e (i + 1) bs = Some r"
      "r = 0 \<longleftrightarrow> take (length bs) (drop (i + 1) e) = bs"
    using 2 by fastforce
  ultimately show ?case using 2(2) by (auto simp: Cons_nth_drop_Suc [symmetric])
qed

lemma mem_cmp_0:
  "i + length bs \<le> length e \<Longrightarrow> mem_cmp e i bs = Some 0 \<longleftrightarrow> take (length bs) (drop i e) = bs"
  using mem_cmp_ok [of i bs e] by auto

section \<open>Bitmaps\<close>

lemma and_1_bit: "(b AND 1 = 1) = bit (b :: u8) 0"
  by (simp add: and_one_eq odd_iff_mod_2_eq_one bit_0)

definition bitmap_modes :: "edid_qemu_modes list \<Rightarrow> nat \<Rightarrow> u8 \<Rightarrow> nat list \<Rightarrow> edid_qemu_modes list" where
  "bitmap_modes tbl off b js = [tbl ! (off + j). j \<leftarrow> js, bit b j]"

lemma bitmap_modes_Suc:
  "bitmap_modes tbl off b [0..<Suc k] =
     (if bit b 0 then [tbl ! off] else []) @ bitmap_modes tbl (Suc off) (drop_bit 1 b) [0..<k]"
proof -
  have "[0..<Suc k] = 0 # map Suc [0..<k]" by (simp add: upt_conv_Cons map_Suc_upt del: upt_Suc)
  then show ?thesis
    by (auto simp: bitmap_modes_def bit_drop_bit_eq o_def simp del: upt_Suc intro!: arg_cong [where f = concat])
qed

lemma bitmap_bits_ok:
  assumes "modes_ok lo" "lookup + k \<le> length tbl"
  shows "bitmap_bits tbl (length tbl) k lookup byte lo =
    Some (lookup + k, add_modes (bitmap_modes tbl lookup byte [0..<k]) lo)"
  using assms
proof (induction k arbitrary: lookup byte lo)
  case 0
  then show ?case by (simp add: bitmap_modes_def)
next
  case (Suc k)
  let ?lo = "if bit byte 0 then add_modes [tbl ! lookup] lo else lo"
  have *: "bitmap_bits tbl (length tbl) k (lookup + 1) (drop_bit 1 byte) ?lo =
    Some (lookup + Suc k, add_modes (bitmap_modes tbl (lookup + 1) (drop_bit 1 byte) [0..<k]) ?lo)"
    using Suc by (subst Suc.IH) auto
  have s: "lookup < length tbl" using Suc.prems by simp
  show ?case
  proof (cases "length tbl - 1 < lookup + 1")
    case True
    then have "k = 0" using Suc.prems by simp
    then show ?thesis using s True Suc.prems
      by (auto simp: and_1_bit bitmap_modes_def Let_def)
  next
    case False
    then show ?thesis using s * Suc.prems
      by (auto simp: and_1_bit bitmap_modes_Suc Let_def add_modes_append simp del: upt_Suc)
  qed
qed

section \<open>The reference reading\<close>

definition timing_modes :: "u8 list \<Rightarrow> edid_qemu_modes list" where
  "timing_modes e = bitmap_modes timing_bitmap_modelist 0 (e ! 35) [0..<8]
     @ bitmap_modes timing_bitmap_modelist 8 (e ! 36) [0..<8]
     @ (if bit (e ! 37) 7 then [timing_bitmap_modelist ! 16] else [])"

text \<open>A standard timing: horizontal pixels, aspect ratio and rate of a pair of bytes.\<close>
definition standard_mode :: "u8 \<Rightarrow> u8 \<Rightarrow> edid_qemu_modes list" where
  "standard_mode b0 b1 =
     (if b0 = 1 \<and> b1 = 1 then []
      else let w = (unat b0 + 31) * 8; (p, q) = [(10, 16), (3, 4), (4, 5), (9, 16)] ! (unat b1 div 64) in
        [md (of_nat w) (of_nat (w * p div q)) ((unat b1 mod 64 + 60) * 1000000)])"

definition standard_modes :: "u8 list \<Rightarrow> edid_qemu_modes list" where
  "standard_modes e = [m. i \<leftarrow> [38, 40, 42, 44, 46, 48, 50, 52], m \<leftarrow> standard_mode (e ! i) (e ! (i + 1))]"

text \<open>The first video data block within the first \<^verbatim>\<open>n\<close> bytes of a data block collection.\<close>
fun video_vics :: "nat \<Rightarrow> u8 list \<Rightarrow> u8 list" where
  "video_vics n [] = []"
| "video_vics n (b # bs) =
     (if n = 0 then []
      else if unat b div 32 = 2 then take (unat b mod 32) bs
      else video_vics (n - 1 - unat b mod 32) (drop (unat b mod 32) bs))"

definition vic_mode :: "u8 \<Rightarrow> edid_qemu_modes list" where
  "vic_mode b = (let v = (if unat b mod 128 \<le> 64 then unat b mod 128 else unat b) in
     if v = 0 then [] else if v \<le> 127 then [cea_modelist ! (v - 1)]
     else if v < 219 then [cea_modelist ! (v - 65)] else [])"

definition cea_modes :: "u8 list \<Rightarrow> edid_qemu_modes list" where
  "cea_modes e = concat (map vic_mode (video_vics (min (unat (e ! 130)) 123) (drop 132 e)))"

definition dtd_mode :: "u8 list \<Rightarrow> edid_qemu_modes list" where
  "dtd_mode d = (if d ! 0 = 0 \<and> d ! 1 = 0 then []
     else let b = (\<lambda>i. unat (d ! i));
            ha = b 4 div 16 * 256 + b 2; va = b 7 div 16 * 256 + b 5;
            ht = ha + (b 4 mod 16 * 256 + b 3); vt = va + (b 7 mod 16 * 256 + b 6) in
       if ht = 0 \<or> vt = 0 then []
       else [md (of_nat ha) (of_nat va) ((b 0 + 256 * b 1) * 10000 div (ht * vt) * 1000000)])"

definition dtd_modes :: "u8 list \<Rightarrow> edid_qemu_modes list" where
  "dtd_modes e = [m. i \<leftarrow> [54, 72, 90, 108], m \<leftarrow> dtd_mode (drop i e)]"

definition asd_at :: "u8 list \<Rightarrow> nat \<Rightarrow> edid_qemu_modes list" where
  "asd_at e s = [m. k \<leftarrow> [0..<5], m \<leftarrow>
       bitmap_modes additional_standard_timing_modelist (8 * k) (e ! (s + k)) [0..<8]]
     @ bitmap_modes additional_standard_timing_modelist 40 (drop_bit 4 (e ! (s + 5))) [0..<4]"

definition asd_modes :: "u8 list \<Rightarrow> edid_qemu_modes list" where
  "asd_modes e = (case List.find (\<lambda>i. take 5 (drop i e) = g_additional_standard_header) [54..<126] of
     None \<Rightarrow> [] | Some i \<Rightarrow> asd_at e (i + 6))"

definition edid_modes :: "u8 list \<Rightarrow> edid_qemu_modes list" where
  "edid_modes e = timing_modes e @ standard_modes e @ cea_modes e @ dtd_modes e @ asd_modes e"

section \<open>Each part computes its part of the reference\<close>

lemma timing_ok:
  assumes "length e = 256" "modes_ok lo"
  shows "get_timing_bitmaps_modes e lo = Some (add_modes (timing_modes e) lo)"
proof -
  have n: "length timing_bitmap_modelist = 17" by (simp add: timing_bitmap_modelist_def)
  have b: "bitmap_bits timing_bitmap_modelist 17 8 k byte lo' =
      Some (k + 8, add_modes (bitmap_modes timing_bitmap_modelist k byte [0..<8]) lo')"
    if "modes_ok lo'" "k + 8 \<le> 17" for k byte lo'
    using bitmap_bits_ok [of lo' k 8 timing_bitmap_modelist byte] that n by simp
  have last: "drop_bit 7 x AND 1 = 1 \<longleftrightarrow> bit x 7" for x :: u8
    by (simp add: and_1_bit bit_drop_bit_eq)
  show ?thesis
    using assms unfolding get_timing_bitmaps_modes_def TIMING_BITMAP_START_def
    apply (subst timing_bytes.simps)
    apply (simp add: TIMING_BITMAP_END_def TIMING_BITMAP_MODELIST_SIZE_def b)
    apply (subst timing_bytes.simps)
    apply (simp add: TIMING_BITMAP_END_def TIMING_BITMAP_MODELIST_SIZE_def b)
    apply (subst timing_bytes.simps)
    apply (simp add: TIMING_BITMAP_END_def TIMING_BITMAP_MODELIST_SIZE_def n last)
    apply (auto simp: timing_modes_def add_modes_append)
     apply (subst timing_bytes.simps, simp add: TIMING_BITMAP_END_def)+
    done
qed

lemma uint_div: "drop_bit k (uint (b :: u8)) = int (unat b div 2 ^ k)"
  by (simp add: drop_bit_eq_div zdiv_int)

lemma uint_mask: "uint (b :: u8) AND mask k = int (unat b mod 2 ^ k)"
  by (simp add: zmod_int take_bit_eq_mod flip: take_bit_eq_mask)

lemma EDID_MASKs: "EDID_MASK 1 = mask 7" "EDID_MASK 2 = mask 6" "EDID_MASK 3 = mask 5"
  by (simp_all add: EDID_MASK_def mask_eq_exp_minus_1 drop_bit_eq_div)

lemma standard_one:
  assumes "i + 1 < length e" "modes_ok s"
  shows "standard_mode_one e i s = Some (add_modes (standard_mode (e ! i) (e ! (i + 1))) s)"
proof -
  define u0 u1 where u: "u0 = unat (e ! i)" "u1 = unat (e ! Suc i)"
  define w where "w = (u0 + 31) * 8"
  have b: "ibyte e i = Some (int u0)" "ibyte e (Suc i) = Some (int u1)"
    using assms by (simp_all add: ibyte_def u)
  have one: "e ! i = 1 \<longleftrightarrow> u0 = 1" "e ! Suc i = 1 \<longleftrightarrow> u1 = 1"
    unfolding u using word_unat_eq_iff [of _ 1] by auto
  have w: "(int u0 + 31) * 8 = int w" by (simp add: w_def)
  have d: "drop_bit 6 (int u1) = int (u1 div 64)" and m: "int u1 AND mask 6 = int (u1 mod 64)"
    using uint_div [of 6 "e ! Suc i"] uint_mask [of "e ! Suc i" 6] by (simp_all add: u)
  have h: "int w * 10 div 16 = int (w * 10 div 16)" "int w * 3 div 4 = int (w * 3 div 4)"
    "int w * 4 div 5 = int (w * 4 div 5)" "int w * 9 div 16 = int (w * 9 div 16)"
    by (simp_all add: zdiv_int)
  have r: "nat ((int (u1 mod 64) + 60) * 1000000) = (u1 mod 64 + 60) * 1000000" by simp
  have "u1 < 256" unfolding u using unsigned_less [of "e ! Suc i"] by simp
  then have "u1 div 64 < 4" by simp
  then have "u1 div 64 \<in> {0, 1, 2, 3}" by auto
  then show ?thesis
    using assms(2)
    unfolding standard_mode_one_def Suc_eq_plus1 [symmetric] b standard_mode_def Let_def
      u [symmetric] one bind.bind_lunit EDID_MASKs w d m r w_def [symmetric]
    by (auto simp: b h)
qed

lemma map_nth_upt:
  "b \<le> length e \<Longrightarrow> map (\<lambda>i. f (e ! i)) [a..<b] = map f (take (b - a) (drop a e))"
  by (rule nth_equalityI) auto

lemma standard_ok:
  assumes "length e = 256" "modes_ok lo"
  shows "get_standard_modes e lo = Some (add_modes (standard_modes e) lo)"
proof -
  have st: "steps 38 54 2 = [38, 40, 42, 44, 46, 48, 50, 52]"
    by (simp add: steps.simps)
  have "get_standard_modes e lo = Some (add_modes
      (concat (map (\<lambda>i. standard_mode (e ! i) (e ! (i + 1))) (steps 38 54 2))) lo)"
    unfolding get_standard_modes_def STANDARD_MODE_START_def STANDARD_MODE_END_def
    using assms by (simp, intro for_loop_modes) (auto simp: st standard_one)
  then show ?thesis by (simp add: st standard_modes_def)
qed

lemma video_vics_0 [simp]: "video_vics 0 xs = []"
  by (cases xs) auto

lemma vic_one:
  assumes "i < length e" "modes_ok s"
  shows "cea_vic_one e i s = Some (add_modes (vic_mode (e ! i)) s)"
proof -
  define u where "u = unat (e ! i)"
  have u: "u < 256" using unsigned_less [of "e ! i"] by (simp add: u_def)
  have b: "uint (e ! i) = int u" by (simp add: u_def)
  have m: "int u AND mask 7 = int (u mod 128)"
    using uint_mask [of "e ! i" 7] by (simp add: u_def)
  have len: "length cea_modelist = 154" by (simp add: cea_modelist_def)
  have ib: "ibyte e i = Some (int u)" using assms(1) b by (simp add: ibyte_def)
  define v where "v = (if u mod 128 \<le> 64 then u mod 128 else u)"
  have v: "(if int (u mod 128) > 64 then int u else int (u mod 128)) = int v" by (simp add: v_def)
  have "v \<le> 127 \<or> 193 \<le> v"
    using u by (cases "u < 128") (auto simp: v_def le_mod_geq)
  moreover have n: "nat (int v - 65) = v - 65" "nat (int v - 1) = v - 1" by simp_all
  ultimately show ?thesis
    using assms(2) unfolding vic_mode_def cea_vic_one_def ib u_def [symmetric] EDID_MASKs m
      bind.bind_lunit Let_def v v_def [symmetric]
    by (auto simp: CEA_MODELIST_SIZE_def CEA_MODELIST_FIRST_BLOCK_def CEA_MODELIST_SECOND_BLOCK_def
        len nth_opt_def n)
qed

lemma tag_bits: "drop_bit 5 (uint (b :: u8) AND NOT (mask 5)) = int (unat b div 32)"
proof -
  have "drop_bit 5 (uint b AND NOT (mask 5)) = drop_bit 5 (uint b)"
    by (rule bit_eqI) (simp add: bit_simps)
  then show ?thesis using uint_div [of 5] by simp
qed

lemmas tag_bits' = tag_bits [unfolded drop_bit_and]

lemma cea_blocks_ok:
  assumes "length e = 256" "cea_end \<le> 255" "modes_ok lo"
  shows "cea_blocks e cea_end start lo =
    Some (add_modes (concat (map vic_mode (video_vics (cea_end - start) (drop start e)))) lo)"
  using assms
proof (induction e cea_end start lo rule: cea_blocks.induct)
  case (1 e cea_end start lo)
  show ?case
  proof (cases "start < cea_end")
    case False
    then show ?thesis by (subst cea_blocks.simps) simp
  next
    case True
    define b where "b = e ! start"
    define n where "n = unat b mod 32"
    have s: "start < length e" using True 1 by simp
    have d: "drop start e = b # drop (start + 1) e" using s by (simp add: b_def Cons_nth_drop_Suc)
    have len: "nat (uint b AND mask 5) = n" using uint_mask [of b 5] by (simp add: n_def)
    show ?thesis
    proof (cases "unat b div 32 = 2")
      case tag: True
      define ve where "ve = (if 256 \<le> start + n then 255 else start + n)"
      have "ve + 1 \<le> length e" using 1 by (simp add: ve_def)
      have "for_loop (start + 1) (ve + 1) 1 (cea_vic_one e) lo = Some (add_modes
          (concat (map (\<lambda>i. vic_mode (e ! i)) [start + 1..<ve + 1])) lo)"
        unfolding steps_1 [symmetric]
        by (rule for_loop_modes) (use 1(4) \<open>ve + 1 \<le> length e\<close> in \<open>auto simp: steps_Suc_0 intro: vic_one\<close>)
      also have "concat (map (\<lambda>i. vic_mode (e ! i)) [start + 1..<ve + 1])
          = concat (map vic_mode (take (ve - start) (drop (start + 1) e)))"
        by (subst map_nth_upt) (use \<open>ve + 1 \<le> length e\<close> in auto)
      also have "take (ve - start) (drop (start + 1) e) = take n (drop (start + 1) e)"
        using 1(2) s by (auto simp: ve_def)
      finally show ?thesis
        using True tag s unfolding d
        by (subst cea_blocks.simps)
           (simp add: ibyte_def b_def [symmetric] EDID_MASKs tag_bits' CEA_VIDEO_BLOCK_IDENTIFIER_def
             Let_def EDID_SIZE_def len ve_def n_def [symmetric] split: if_splits)
    next
      case tag: False
      have "cea_blocks e cea_end (start + n + 1) lo = Some (add_modes
          (concat (map vic_mode (video_vics (cea_end - (start + n + 1)) (drop (start + n + 1) e)))) lo)"
        using 1 True tag s
        by (simp add: ibyte_def b_def [symmetric] EDID_MASKs tag_bits' CEA_VIDEO_BLOCK_IDENTIFIER_def
            len)
      then show ?thesis
        using True tag s 1 unfolding d
        by (subst cea_blocks.simps)
           (simp add: ibyte_def b_def [symmetric] EDID_MASKs tag_bits' CEA_VIDEO_BLOCK_IDENTIFIER_def
             len n_def [symmetric] ac_simps)
    qed
  qed
qed

lemma cea_ok:
  assumes "length e = 256" "modes_ok lo"
  shows "get_cea_modes e lo = Some (add_modes (cea_modes e) lo)"
proof -
  define d where "d = unat (e ! 130)"
  have "nat (uint (e ! 130)) = d" by (simp add: d_def)
  moreover have "(if 255 < 132 + d then 255 else 132 + d) - 132 = min d 123" by auto
  ultimately show ?thesis
    using assms
    by (simp add: get_cea_modes_def ibyte_def CEA_DATA_FIRST_BLOCK_INDEX_def
        CEA_DATA_BLOCKS_END_INDEX_def EDID_SIZE_def Let_def cea_blocks_ok cea_modes_def
        d_def [symmetric] del: nat_uint_eq)
qed

lemma ucst: "n < 4294967296 \<Longrightarrow> unat (word_of_int (int n) :: u32) = n"
  by (simp add: unat_of_nat_less)

lemma push_int: "push_bit k (int n) = int (n * 2 ^ k)"
  by (simp add: push_bit_eq_mult)

lemma byte_lt: "unat (b :: u8) < 256"
  using unsigned_less [of b] by simp

lemma dtd_one_ok:
  assumes "i + 7 < length e" "modes_ok s"
  shows "dtd_one e i s = Some (add_modes (dtd_mode (drop i e)) s)"
proof -
  define b where "b = (\<lambda>k. unat (e ! (i + k)))"
  define ha va hb vb pc where defs: "ha = b 4 div 16 * 256 + b 2" "va = b 7 div 16 * 256 + b 5"
    "hb = b 4 mod 16 * 256 + b 3" "vb = b 7 mod 16 * 256 + b 6" "pc = (b 0 + 256 * b 1) * 10000"
  have ib: "ibyte e (i + k) = Some (int (b k))" if "k \<le> 7" for k
    using that assms by (simp add: ibyte_def b_def)
  have ib0: "ibyte e i = Some (int (b 0))" using ib [of 0] by simp
  have lt: "b k < 256" for k by (simp add: b_def byte_lt)
  have bd: "b k div 16 < 16" "b k mod 16 < 16" for k using lt [of k] by auto
  have hi: "push_bit 8 (drop_bit 4 (int (b k))) = int (b k div 16 * 256)" for k
    using uint_div [of 4 "e ! (i + k)"] by (simp add: b_def push_bit_eq_mult)
  have lo: "push_bit 8 (int (b k) AND 15) = int (b k mod 16 * 256)" for k
    using uint_mask [of "e ! (i + k)" 4] by (simp add: b_def push_bit_eq_mult mask_eq_exp_minus_1)
  have clk: "(int (b 0) + push_bit 8 (int (b 1))) * CLK_UNIT = int pc"
    by (simp add: push_bit_eq_mult CLK_UNIT_def defs)
  have hs: "push_bit 8 (drop_bit 4 (int (b 4))) + int (b 2) = int ha"
    "push_bit 8 (drop_bit 4 (int (b 7))) + int (b 5) = int va"
    "push_bit 8 (int (b 4) AND 15) + int (b 3) = int hb"
    "push_bit 8 (int (b 7) AND 15) + int (b 6) = int vb"
    unfolding hi lo by (simp_all add: defs)
  have ibs: "ibyte e (i + 1) = Some (int (b 1))" "ibyte e (i + 2) = Some (int (b 2))"
    "ibyte e (i + 3) = Some (int (b 3))" "ibyte e (i + 4) = Some (int (b 4))"
    "ibyte e (i + 5) = Some (int (b 5))" "ibyte e (i + 6) = Some (int (b 6))"
    "ibyte e (i + 7) = Some (int (b 7))"
    by (rule ib, simp)+
  have sm: "ha < 4096" "va < 4096" "hb < 4096" "vb < 4096" "pc < 4294967296"
    unfolding defs using bd [of 4] bd [of 7] lt [of 0] lt [of 1] lt [of 2] lt [of 3] lt [of 5] lt [of 6]
    by (linarith, linarith, linarith, linarith, simp)
  have c: "mem_cmp e i g_dtd_display_header = Some 0 \<longleftrightarrow> b 0 = 0 \<and> b 1 = 0"
    using assms(1) mem_cmp_0 [of i g_dtd_display_header e]
    by (auto simp: g_dtd_display_header_def b_def Cons_nth_drop_Suc [symmetric] numeral_2_eq_2
        unat_eq_zero)
  obtain r where r: "mem_cmp e i g_dtd_display_header = Some r"
    using mem_cmp_ok [of i g_dtd_display_header e] assms(1) by (auto simp: g_dtd_display_header_def)
  define ht vt :: u32 where t: "ht = word_of_int (int ha) + word_of_int (int hb)"
    "vt = word_of_int (int va) + word_of_int (int vb)"
  have ut: "unat ht = ha + hb" "unat vt = va + vb"
    unfolding t using sm by (simp_all add: unat_word_ariths unat_of_nat_less)
  have um: "unat (ht * vt) = (ha + hb) * (va + vb)"
  proof -
    have "(ha + hb) * (va + vb) \<le> 8192 * 8192" using sm by (intro mult_le_mono) auto
    then show ?thesis by (simp add: unat_word_ariths ut)
  qed
  have uz: "x \<noteq> 0 \<longleftrightarrow> unat x \<noteq> 0" for x :: u32 by (simp add: unat_eq_zero)
  have z: "ht \<noteq> 0 \<longleftrightarrow> ha + hb \<noteq> 0" "vt \<noteq> 0 \<longleftrightarrow> va + vb \<noteq> 0"
    "ht * vt \<noteq> 0 \<longleftrightarrow> (ha + hb) * (va + vb) \<noteq> 0"
    unfolding uz um ut by simp_all
  have q: "unat (word_of_int (int pc) div (ht * vt)) = pc div ((ha + hb) * (va + vb))"
    using sm by (simp add: unat_div um unat_of_nat_less)
  have bb: "unat (drop i e ! k) = b k" if "k \<le> 7" for k using that assms(1) by (simp add: b_def)
  have zz: "drop i e ! k = 0 \<longleftrightarrow> b k = 0" if "k \<le> 7" for k using bb [OF that] by (simp flip: unat_eq_zero)
  show ?thesis
  proof (cases "b 0 = 0 \<and> b 1 = 0")
    case True
    then have "dtd_mode (drop i e) = []" by (simp add: dtd_mode_def zz)
    then show ?thesis using True c by (simp add: dtd_one_def)
  next
    case False
    then have rn: "r \<noteq> 0" using c r by auto
    have dm: "dtd_mode (drop i e) = (if ha + hb = 0 \<or> va + vb = 0 then []
       else [md (of_nat ha) (of_nat va) (pc div ((ha + hb) * (va + vb)) * 1000000)])"
      using False unfolding dtd_mode_def Let_def by (simp add: zz bb defs) auto
    show ?thesis
      using assms(2) rn
      unfolding dtd_one_def r ib0 ibs bind.bind_lunit Let_def dm clk hs t [symmetric] z q
      by simp
  qed
qed

lemma dtd_ok:
  assumes "length e = 256" "modes_ok lo"
  shows "get_detailed_timing_descriptor_modes e lo = Some (add_modes (dtd_modes e) lo)"
proof -
  have st: "steps 54 124 18 = [54, 72, 90, 108]" by (simp add: steps.simps)
  have "get_detailed_timing_descriptor_modes e lo = Some (add_modes
      (concat (map (\<lambda>i. dtd_mode (drop i e)) (steps 54 124 18))) lo)"
    unfolding get_detailed_timing_descriptor_modes_def DTD_START_def DTD_END_def
      DTD_DISPLAY_DESCRIPTOR_HEADER_SIZE_def DTD_STANDARD_DESC_SIZE_def
    using assms by (simp, intro for_loop_modes) (auto simp: st dtd_one_ok)
  then show ?thesis by (simp add: st dtd_modes_def)
qed

lemma asd_last_bits_ok:
  assumes "modes_ok lo" "lookup + k \<le> 44"
  shows "asd_last_bits k lookup byte lo =
    Some (lookup + k, add_modes (bitmap_modes additional_standard_timing_modelist lookup byte [0..<k]) lo)"
  using assms
proof (induction k arbitrary: lookup byte lo)
  case 0
  then show ?case by (simp add: bitmap_modes_def)
next
  case (Suc k)
  have "length additional_standard_timing_modelist = 44"
    by (simp add: additional_standard_timing_modelist_def)
  then show ?case using Suc
    by (simp add: and_1_bit bitmap_modes_Suc Let_def add_modes_append
        DTD_ADDITIONAL_STANDARD_TIMING_MODELIST_SIZE_def del: upt_Suc)
qed

lemma asd_bytes_step:
  assumes "s + k < length e" "k \<le> 4" "modes_ok lo"
  shows "asd_bytes e s (s + k) (8 * k) lo = asd_bytes e s (s + Suc k) (8 * Suc k)
    (add_modes (bitmap_modes additional_standard_timing_modelist (8 * k) (e ! (s + k)) [0..<8]) lo)"
proof -
  have n: "length additional_standard_timing_modelist = 44"
    by (simp add: additional_standard_timing_modelist_def)
  have "bitmap_bits additional_standard_timing_modelist 44 8 (8 * k) (e ! (s + k)) lo = Some (8 * k + 8,
      add_modes (bitmap_modes additional_standard_timing_modelist (8 * k) (e ! (s + k)) [0..<8]) lo)"
    using bitmap_bits_ok [of lo "8 * k" 8 additional_standard_timing_modelist "e ! (s + k)"] assms n
    by simp
  then show ?thesis
    using assms
    by (subst asd_bytes.simps)
       (simp add: DTD_ADDITIONAL_STANDARD_TOTAL_BYTES_def DTD_ADDITIONAL_STANDARD_TIMING_MODELIST_SIZE_def
         ac_simps)
qed

lemma asd_at_ok:
  assumes "s + 5 < length e" "modes_ok lo"
  shows "asd_bytes e s s 0 lo = Some (add_modes (asd_at e s) lo)"
proof -
  define g where "g = (\<lambda>k. bitmap_modes additional_standard_timing_modelist (8 * k) (e ! (s + k)) [0..<8])"
  define h where "h = bitmap_modes additional_standard_timing_modelist 40 (drop_bit 4 (e ! (s + 5))) [0..<4]"
  have pre: "asd_bytes e s s 0 lo
      = asd_bytes e s (s + k) (8 * k) (add_modes (concat (map g [0..<k])) lo)" if "k \<le> 5" for k
    using that
  proof (induction k)
    case 0
    show ?case by simp
  next
    case (Suc k)
    then show ?case
      using asd_bytes_step [of s k e "add_modes (concat (map g [0..<k])) lo"] assms
      by (simp add: add_modes_append g_def)
  qed
  define lo5 where "lo5 = add_modes (concat (map g [0..<5])) lo"
  have "asd_last_bits 4 40 (drop_bit 4 (e ! (s + 5))) lo5 = Some (44, add_modes h lo5)"
    using asd_last_bits_ok [of lo5 40 4] assms by (simp add: lo5_def h_def)
  then have "asd_bytes e s (s + 5) 40 lo5 = Some (add_modes h lo5)"
    using assms
    by (subst asd_bytes.simps, simp add: DTD_ADDITIONAL_STANDARD_TOTAL_BYTES_def
          DTD_ADDITIONAL_STANDARD_TIMING_MODELIST_SIZE_def)
       (subst asd_bytes.simps, simp add: DTD_ADDITIONAL_STANDARD_TOTAL_BYTES_def)
  then show ?thesis
    using pre [of 5] assms
    by (simp add: asd_at_def g_def [symmetric] h_def [symmetric] add_modes_append lo5_def [symmetric]
        del: upt_Suc upt_rec_numeral)
qed

lemma asd_scan_ok:
  assumes "length e = 256" "modes_ok lo" "54 \<le> i"
  shows "asd_scan e i lo = Some (add_modes
    (case List.find (\<lambda>i. take 5 (drop i e) = g_additional_standard_header) [i..<126] of
       None \<Rightarrow> [] | Some i \<Rightarrow> asd_at e (i + 6)) lo)"
  using assms
proof (induction e i lo rule: asd_scan.induct)
  case (1 e i lo)
  show ?case
  proof (cases "i < 126")
    case False
    then show ?thesis by (subst asd_scan.simps) (simp add: DTD_END_def)
  next
    case True
    have len: "length g_additional_standard_header = 5" by (simp add: g_additional_standard_header_def)
    obtain r where r: "mem_cmp e i g_additional_standard_header = Some r"
        "r = 0 \<longleftrightarrow> take 5 (drop i e) = g_additional_standard_header"
      using mem_cmp_ok [of i g_additional_standard_header e] 1(2) True by (auto simp: len)
    have u: "[i..<126] = i # [i + 1..<126]" using True by (simp add: upt_conv_Cons)
    show ?thesis
    proof (cases "r = 0")
      case True
      then show ?thesis using r 1 \<open>i < 126\<close> u
        by (subst asd_scan.simps)
           (simp add: DTD_END_def DTD_ADDITIONAL_STANDARD_START_BYTE_def asd_at_ok Let_def)
    next
      case False
      then show ?thesis using r 1 \<open>i < 126\<close> u
        by (subst asd_scan.simps) (simp add: DTD_END_def)
    qed
  qed
qed

lemma asd_ok:
  assumes "length e = 256" "modes_ok lo"
  shows "get_additional_standard_display_modes e lo = Some (add_modes (asd_modes e) lo)"
  using assms
  by (simp add: get_additional_standard_display_modes_def DTD_START_def asd_scan_ok asd_modes_def)

lemma checksum_ok:
  assumes "length e = 256"
  shows "validate_edid_checksum e = Some (if 256 dvd (\<Sum>b\<leftarrow>take 128 e. uint b)
     \<and> 256 dvd (\<Sum>b\<leftarrow>drop 128 e. uint b) then 0 else - 1)"
proof -
  have t: "(\<Sum>i\<leftarrow>[0..<128]. uint (e ! i)) = (\<Sum>b\<leftarrow>take 128 e. uint b)"
    using map_nth_upt [of 128 e uint 0] assms by (simp del: upt_rec_numeral)
  have d: "(\<Sum>i\<leftarrow>[128..<256]. uint (e ! i)) = (\<Sum>b\<leftarrow>drop 128 e. uint b)"
    using map_nth_upt [of 256 e uint 128] assms by (simp del: upt_rec_numeral)
  show ?thesis
    unfolding validate_edid_checksum_def EDID_FIRST_BLOCK_END_def EDID_SECOND_BLOCK_START_def EDID_SIZE_def
    using for_loop_sum [of "127 + 1" e 0 0] for_loop_sum [of 256 e 128 0] assms t d
    by (auto simp: Let_def dvd_eq_mod_eq_0 simp del: upt_rec_numeral)
qed

lemma header_ok:
  assumes "length e = 256"
  obtains r where "validate_edid_header e = Some r" "r = 0 \<longleftrightarrow> take 8 e = g_edid_header"
proof -
  have "length g_edid_header = 8" by (simp add: g_edid_header_def)
  then show ?thesis
    using that mem_cmp_ok [of 0 g_edid_header e] assms by (auto simp: validate_edid_header_def)
qed

lemma parse_cases:
  assumes "length e = 256" "modes_ok lo"
  shows "\<exists>r. parse_edid_data e lo = Some (r, if r = 0 then add_modes (edid_modes e) lo else lo) \<and>
    (r = 0 \<longleftrightarrow> take 8 e = g_edid_header \<and> 256 dvd (\<Sum>b\<leftarrow>take 128 e. uint b)
       \<and> 256 dvd (\<Sum>b\<leftarrow>drop 128 e. uint b))"
proof -
  obtain r where r: "validate_edid_header e = Some r" "r = 0 \<longleftrightarrow> take 8 e = g_edid_header"
    using header_ok [OF assms(1)] .
  show ?thesis
    using assms r
    by (auto simp: parse_edid_data_def checksum_ok timing_ok standard_ok cea_ok dtd_ok asd_ok
        edid_modes_def add_modes_append)
qed

lemma nth_add_modes:
  assumes "modes_ok (Some l)"
  shows "\<exists>l'. add_modes ms (Some l) = Some l' \<and> length (modelist l') = 32
    \<and> unat (modelist_size l') = min 32 (unat (modelist_size l) + length ms)
    \<and> take (unat (modelist_size l')) (modelist l')
        = take 32 (take (unat (modelist_size l)) (modelist l) @ ms)"
proof -
  define n where "n = unat (modelist_size l)"
  define k where "k = min (length ms) (32 - n)"
  have l: "length (modelist l) = 32" "n \<le> 32"
    using assms by (simp_all add: modes_ok_def OUTPUT_MODELIST_SIZE_def n_def)
  have u: "unat (modelist_size l + of_nat k) = n + k"
    using l unfolding n_def k_def by (intro size_plus) auto
  let ?l' = "l\<lparr>modelist := take n (modelist l) @ take k ms @ drop (n + k) (modelist l),
    modelist_size := modelist_size l + of_nat k\<rparr>"
  have kb: "k \<le> length ms" "n + k \<le> 32" "n + k = min 32 (n + length ms)"
    using l by (auto simp: k_def)
  have tk: "take (32 - n) ms = take k ms" by (simp add: k_def min_def)
  have 1: "add_modes ms (Some l) = Some ?l'"
    by (simp add: add_modes_def OUTPUT_MODELIST_SIZE_def Let_def n_def k_def)
  have 2: "unat (modelist_size ?l') = n + k" using u by simp
  have 3: "take (n + k) (modelist ?l') = take n (modelist l) @ take k ms" "length (modelist ?l') = 32"
    using kb(1,2) l by simp_all
  have 4: "take 32 (take n (modelist l) @ ms) = take n (modelist l) @ take k ms"
    using l by (simp add: tk)
  show ?thesis
    using 1 2 3 4 kb(3) by (intro exI [of _ ?l']) (simp only: n_def [symmetric] simp_thms)
qed

section \<open>Properties\<close>

text \<open>An identification block with one established and eight standard timings.\<close>
definition sample_edid :: "u8 list" where
  "sample_edid = g_edid_header @ replicate 27 0 @ [1] @ replicate 91 0 @ [5] @ replicate 128 0"

lemma sample_facts:
  "length sample_edid = 256" "take 8 sample_edid = g_edid_header"
  "256 dvd (\<Sum>b\<leftarrow>take 128 sample_edid. uint b)" "256 dvd (\<Sum>b\<leftarrow>drop 128 sample_edid. uint b)"
  by (simp_all add: sample_edid_def g_edid_header_def sum_list_replicate)

text \<open>C20: On every 256 bytes and every array of modes the parser agrees with the reference
  reading: it succeeds exactly when the header is right and both halves sum to a multiple
  of 256, and then the array holds its old modes followed by the established, standard,
  extension, detailed and additional timings in that order, cut at 32; a null list pointer
  is left alone.\<close>
theorem parse_edid_reference:
  assumes "length e = 256" and "modes_ok lo"
  shows "\<exists>r. parse_edid_data e lo = Some (r, if r = 0 then add_modes (edid_modes e) lo else lo) \<and>
    (r = 0 \<longleftrightarrow> take 8 e = g_edid_header \<and> 256 dvd (\<Sum>b\<leftarrow>take 128 e. uint b)
       \<and> 256 dvd (\<Sum>b\<leftarrow>drop 128 e. uint b))"
  using assms by (rule parse_cases)

theorem parse_edid_reference_witness:
  "\<exists>lo. parse_edid_data sample_edid (Some empty_modelist) = Some (0, lo)"
  using parse_edid_reference [of sample_edid "Some empty_modelist"] sample_facts
  by (auto simp: modes_ok_def empty_modelist_def OUTPUT_MODELIST_SIZE_def)

text \<open>C28: Every loop of the parser ends and every access stays inside the 256 bytes, the
  mode tables and the array of 32 modes, whatever the bytes are; the count never exceeds
  32 and the modes already in the array are kept.\<close>
theorem parse_edid_total:
  assumes "length e = 256" and "length (modelist l) = 32" and "unat (modelist_size l) \<le> 32"
  shows "\<exists>r l'. parse_edid_data e (Some l) = Some (r, Some l') \<and> length (modelist l') = 32
    \<and> unat (modelist_size l) \<le> unat (modelist_size l') \<and> unat (modelist_size l') \<le> 32
    \<and> (\<forall>k < unat (modelist_size l). modelist l' ! k = modelist l ! k)"
proof -
  have ok: "modes_ok (Some l)" using assms by (simp add: modes_ok_def OUTPUT_MODELIST_SIZE_def)
  obtain r where r: "parse_edid_data e (Some l) =
      Some (r, if r = 0 then add_modes (edid_modes e) (Some l) else Some l)"
    using parse_cases [OF assms(1) ok] by blast
  obtain l' where l': "add_modes (edid_modes e) (Some l) = Some l'" "length (modelist l') = 32"
    "unat (modelist_size l') = min 32 (unat (modelist_size l) + length (edid_modes e))"
    "take (unat (modelist_size l')) (modelist l')
        = take 32 (take (unat (modelist_size l)) (modelist l) @ edid_modes e)"
    using nth_add_modes [OF ok] by blast
  have "modelist l' ! k = modelist l ! k" if "k < unat (modelist_size l)" for k
  proof -
    have "modelist l' ! k = take (unat (modelist_size l')) (modelist l') ! k"
      using that l'(3) assms(3) by simp
    also have "\<dots> = modelist l ! k" unfolding l'(4) using that assms by (simp add: nth_append)
    finally show ?thesis .
  qed
  then show ?thesis using r l' assms by (cases "r = 0") auto
qed

theorem parse_edid_total_witness:
  "\<exists>r l'. parse_edid_data sample_edid (Some empty_modelist) = Some (r, Some l')
    \<and> unat (modelist_size l') \<le> 32"
  using parse_edid_total [of sample_edid empty_modelist] sample_facts
  by (auto simp: empty_modelist_def)

text \<open>The table lists the codes 1 to 127 and then the codes 193 to 219.\<close>
definition cea_code_index :: "nat \<Rightarrow> nat" where
  "cea_code_index v = (if v \<le> 127 then v - 1 else v - 66)"

text \<open>Extension timings. A code up to 127 adds its mode of the table, and so does its
  native form, 128 more, for the codes up to 64. A code from 193 on adds the mode of the
  next code, and code 219, the last, adds none. The search for the video block runs four
  bytes too far: with an empty data block collection (offset 4) the bytes of the first
  detailed timing are read as data blocks.\<close>
theorem cea_codes:
  assumes "i < length e" and "modes_ok lo" and "length e' = 256" and "unat (e' ! 130) = 4"
    and "unat (e' ! 132) div 32 = 2"
  defines "v \<equiv> unat (e ! i)"
  defines "adds \<equiv> (\<lambda>c. cea_vic_one e i lo = Some (add_modes [cea_modelist ! cea_code_index c] lo))"
  shows "(1 \<le> v \<and> v \<le> 127 \<longrightarrow> adds v) \<and> (129 \<le> v \<and> v \<le> 192 \<longrightarrow> adds (v - 128))
    \<and> (193 \<le> v \<and> v \<le> 218 \<longrightarrow> adds (v + 1)) \<and> (219 \<le> v \<longrightarrow> cea_vic_one e i lo = Some lo)
    \<and> get_cea_modes e' lo = Some (add_modes
        (concat (map vic_mode (take (unat (e' ! 132) mod 32) (drop 133 e')))) lo)"
proof -
  have d: "drop 132 e' = e' ! 132 # drop 133 e'"
    using Cons_nth_drop_Suc [of 132 e'] assms(3) by simp
  have lt: "unat (e ! i) < 256" by (rule byte_lt)
  let ?u = "unat (e ! i)"
  have low: "1 \<le> ?u \<Longrightarrow> ?u \<le> 127 \<Longrightarrow>
      cea_vic_one e i lo = Some (add_modes [cea_modelist ! cea_code_index ?u] lo)"
    by (simp add: vic_one assms vic_mode_def cea_code_index_def)
  have native: "129 \<le> ?u \<Longrightarrow> ?u \<le> 192 \<Longrightarrow>
      cea_vic_one e i lo = Some (add_modes [cea_modelist ! cea_code_index (?u - 128)] lo)"
  proof -
    assume u: "129 \<le> ?u" "?u \<le> 192"
    then have "?u mod 128 = ?u - 128" by (simp add: le_mod_geq)
    then show ?thesis using u by (simp add: vic_one assms vic_mode_def cea_code_index_def)
  qed
  have big: "193 \<le> ?u \<Longrightarrow> \<not> ?u mod 128 \<le> 64" using lt by (simp add: le_mod_geq)
  have high: "193 \<le> ?u \<Longrightarrow> ?u \<le> 218 \<Longrightarrow>
      cea_vic_one e i lo = Some (add_modes [cea_modelist ! cea_code_index (?u + 1)] lo)"
    using big by (simp add: vic_one assms vic_mode_def cea_code_index_def)
  have last: "219 \<le> ?u \<Longrightarrow> cea_vic_one e i lo = Some lo"
    using big by (simp add: vic_one assms vic_mode_def)
  have ext: "get_cea_modes e' lo = Some (add_modes
      (concat (map vic_mode (take (unat (e' ! 132) mod 32) (drop 133 e')))) lo)"
    using cea_ok [OF assms(3,2)] assms(4,5) by (simp add: cea_modes_def d)
  show ?thesis unfolding v_def adds_def using low native high last ext by blast
qed

text \<open>The detailed timing that follows an empty collection: pixel clock low byte 0x41.\<close>
definition sample_ext :: "u8 list" where
  "sample_ext = replicate 130 0 @ [4, 0, 0x41, 16] @ replicate 122 0"

theorem cea_codes_witness:
  "cea_vic_one [193] 0 (Some empty_modelist) =
     Some (add_modes [md 7680 4320 23980000] (Some empty_modelist)) \<and>
   get_cea_modes sample_ext (Some empty_modelist) =
     Some (add_modes [md 1920 1080 60000000] (Some empty_modelist))"
proof -
  have ok: "modes_ok (Some empty_modelist)"
    by (simp add: modes_ok_def empty_modelist_def OUTPUT_MODELIST_SIZE_def)
  have x: "length sample_ext = 256" "unat (sample_ext ! 130) = 4" "unat (sample_ext ! 132) div 32 = 2"
    "unat (sample_ext ! 132) mod 32 = 1" "take 1 (drop 133 sample_ext) = [16]"
    by (simp_all add: sample_ext_def nth_append)
  show ?thesis
    using cea_codes [of 0 "[193]" "Some empty_modelist" sample_ext] ok x
    by (simp add: cea_code_index_def cea_modelist_def vic_mode_def)
qed

end
