(* ===== verification/GpuBuf.thy ===== *)
theory GpuBuf
  imports Prelude
begin

text \<open>
  The pool of command buffers of \<^verbatim>\<open>src/IntelVirtDisplayKMD/viogpu_queue.cpp\<close>: the class
  \<^verbatim>\<open>VioGpuBuf\<close> with its free and in-use lists, over the kernel heap it allocates from.
  The \<^verbatim>\<open>LIST_ENTRY\<close> macros are those of the driver kit, by their documented meaning on the
  list of entries; the walk of \<^verbatim>\<open>FreeBuf\<close>, which the source writes itself and which goes
  round the circular list through its head, is a loop that may not return.  Every
  operation runs under the pool's spin lock and is one step.  \<^verbatim>\<open>ASSERT\<close> is empty in the
  release build that is modelled.
\<close>

section \<open>State\<close>

definition MAX_INLINE_CMD_SIZE :: u32 where "MAX_INLINE_CMD_SIZE = 96"
definition MAX_INLINE_RESP_SIZE :: u32 where "MAX_INLINE_RESP_SIZE = 24"

text \<open>\<^verbatim>\<open>sizeof(GPU_VBUFFER)\<close> with the natural alignment of a 64-bit target.\<close>
definition SIZEOF_GPU_VBUFFER :: u64 where "SIZEOF_GPU_VBUFFER = 72"

definition VBUFFER_SIZE :: u64 where
  "VBUFFER_SIZE = SIZEOF_GPU_VBUFFER + ucast MAX_INLINE_CMD_SIZE + ucast MAX_INLINE_RESP_SIZE"

record gpu_vbuffer =
  vb_buf :: u64
  vb_size :: u32
  data_buf :: u64
  data_size :: u32
  resp_buf :: u64
  resp_size :: u32
  vb_event :: u64

definition zero_vbuffer :: gpu_vbuffer where
  "zero_vbuffer = \<lparr>vb_buf = 0, vb_size = 0, data_buf = 0, data_size = 0, resp_buf = 0,
     resp_size = 0, vb_event = 0\<rparr>"

text \<open>The lists hold the addresses of the buffers, \<^verbatim>\<open>vbufs\<close> their contents, \<^verbatim>\<open>blocks\<close> the
  addresses of all blocks of the kernel heap in use.\<close>
record gpubuf =
  m_FreeBufs :: "u64 list"
  m_InUseBufs :: "u64 list"
  m_uCount :: u32
  vbufs :: "u64 \<Rightarrow> gpu_vbuffer option"
  blocks :: "u64 set"

definition new_gpubuf :: "u64 set \<Rightarrow> gpubuf" where
  "new_gpubuf heap = \<lparr>m_FreeBufs = [], m_InUseBufs = [], m_uCount = 0, vbufs = Map.empty, blocks = heap\<rparr>"

section \<open>Operations\<close>

text \<open>\<^verbatim>\<open>delete[] p\<close>: nothing for NULL, undefined for an address that is no block.\<close>
definition delete_block :: "u64 \<Rightarrow> gpubuf \<Rightarrow> gpubuf option" where
  "delete_block p b =
     (if p = 0 then Some b
      else do { guard_opt (p \<in> blocks b); Some (b\<lparr>blocks := blocks b - {p}\<rparr>) })"

definition delete_vbuf :: "u64 \<Rightarrow> gpubuf \<Rightarrow> gpubuf option" where
  "delete_vbuf p b = do {
     b1 \<leftarrow> delete_block p b;
     Some (b1\<lparr>vbufs := (vbufs b1)(p := None)\<rparr>)
   }"

text \<open>The allocator: the blocks in use and the size asked for to an address, 0 on failure.\<close>
type_synonym allocator = "u64 set \<Rightarrow> u64 \<Rightarrow> u64"

fun init_bufs :: "allocator \<Rightarrow> nat \<Rightarrow> gpubuf \<Rightarrow> gpubuf" where
  "init_bufs alloc 0 b = b"
| "init_bufs alloc (Suc n) b =
     (let p = alloc (blocks b) VBUFFER_SIZE in
      if p = 0 then b
      else init_bufs alloc n
        (b\<lparr>m_FreeBufs := m_FreeBufs b @ [p], m_uCount := m_uCount b + 1,
           vbufs := (vbufs b)(p \<mapsto> zero_vbuffer), blocks := insert p (blocks b)\<rparr>))"

fun delete_all :: "u64 list \<Rightarrow> gpubuf \<Rightarrow> gpubuf option" where
  "delete_all [] b = Some b"
| "delete_all (p # ps) b = do { b1 \<leftarrow> delete_vbuf p b; delete_all ps b1 }"

definition gpubuf_init :: "allocator \<Rightarrow> u32 \<Rightarrow> gpubuf \<Rightarrow> (bool \<times> gpubuf) option" where
  "gpubuf_init alloc cnt b = do {
     let b1 = init_bufs alloc (unat cnt) (b\<lparr>m_FreeBufs := [], m_InUseBufs := []\<rparr>);
     b2 \<leftarrow> (if m_uCount b1 \<noteq> cnt
           then do { b' \<leftarrow> delete_all (m_FreeBufs b1) b1; Some (b'\<lparr>m_FreeBufs := []\<rparr>) }
           else Some b1);
     Some (0 < m_uCount b2, b2)
   }"

definition large_resp :: "gpu_vbuffer \<Rightarrow> bool" where
  "large_resp v \<longleftrightarrow> resp_buf v \<noteq> 0 \<and> sint MAX_INLINE_RESP_SIZE < sint (resp_size v)"

definition has_data :: "gpu_vbuffer \<Rightarrow> bool" where
  "has_data v \<longleftrightarrow> data_buf v \<noteq> 0 \<and> data_size v \<noteq> 0"

text \<open>The payload code shared by \<^verbatim>\<open>FreeBuf\<close> and \<^verbatim>\<open>Close\<close>.\<close>
definition delete_payload :: "u64 \<Rightarrow> gpubuf \<Rightarrow> gpubuf option" where
  "delete_payload p b = do {
     v \<leftarrow> vbufs b p;
     (v1, b1) \<leftarrow> (if large_resp v
       then do { b' \<leftarrow> delete_block (resp_buf v) b; Some (v\<lparr>resp_buf := 0, resp_size := 0\<rparr>, b') }
       else Some (v, b));
     (v2, b2) \<leftarrow> (if has_data v1
       then do { b' \<leftarrow> delete_block (data_buf v1) b1; Some (v1\<lparr>data_buf := 0, data_size := 0\<rparr>, b') }
       else Some (v1, b1));
     Some (b2\<lparr>vbufs := (vbufs b2)(p \<mapsto> v2)\<rparr>)
   }"

definition get_vbuf :: "u32 \<Rightarrow> u32 \<Rightarrow> u64 \<Rightarrow> gpubuf \<Rightarrow> (u64 \<times> gpubuf) option" where
  "get_vbuf sz rsize rbuf b =
     (case m_FreeBufs b of
        [] \<Rightarrow> Some (0, b)
      | p # ps \<Rightarrow> do {
          _ \<leftarrow> vbufs b p;
          let cmd = p + SIZEOF_GPU_VBUFFER;
          let v = zero_vbuffer\<lparr>vb_buf := cmd, vb_size := sz, resp_size := rsize,
                    resp_buf := (if sint rsize \<le> sint MAX_INLINE_RESP_SIZE
                                 then cmd + scast sz else rbuf)\<rparr>;
          Some (p, b\<lparr>m_FreeBufs := ps, m_InUseBufs := m_InUseBufs b @ [p],
                     vbufs := (vbufs b)(p \<mapsto> v)\<rparr>)
        })"

text \<open>The walk of \<^verbatim>\<open>FreeBuf\<close>: position \<^verbatim>\<open>length es\<close> is the list head, which is no buffer;
  the walk does not stop there.\<close>
partial_function (option) find_in_use :: "u64 list \<Rightarrow> u64 \<Rightarrow> nat \<Rightarrow> nat option" where
  "find_in_use es p i =
     (if i < length es \<and> es ! i = p then Some i
      else find_in_use es p (if i < length es then Suc i else 0))"

definition free_vbuf :: "u64 \<Rightarrow> gpubuf \<Rightarrow> gpubuf option" where
  "free_vbuf p b = do {
     b1 \<leftarrow> (if m_InUseBufs b \<noteq> []
           then do {
             i \<leftarrow> find_in_use (m_InUseBufs b) p 0;
             Some (b\<lparr>m_InUseBufs := take i (m_InUseBufs b) @ drop (Suc i) (m_InUseBufs b)\<rparr>) }
           else Some b);
     b2 \<leftarrow> delete_payload p b1;
     guard_opt (p \<notin> set (m_FreeBufs b2));
     Some (b2\<lparr>m_FreeBufs := m_FreeBufs b2 @ [p]\<rparr>)
   }"

fun close_in_use :: "u64 list \<Rightarrow> gpubuf \<Rightarrow> gpubuf option" where
  "close_in_use [] b = Some b"
| "close_in_use (p # ps) b = do {
     b1 \<leftarrow> delete_vbuf p b;
     close_in_use ps (b1\<lparr>m_uCount := m_uCount b1 - 1\<rparr>)
   }"

fun close_free :: "u64 list \<Rightarrow> gpubuf \<Rightarrow> gpubuf option" where
  "close_free [] b = Some b"
| "close_free (p # ps) b = do {
     b1 \<leftarrow> delete_payload p b;
     b2 \<leftarrow> delete_vbuf p b1;
     close_free ps (b2\<lparr>m_uCount := m_uCount b2 - 1\<rparr>)
   }"

definition gpubuf_close :: "gpubuf \<Rightarrow> gpubuf option" where
  "gpubuf_close b = do {
     b1 \<leftarrow> close_in_use (m_InUseBufs b) b;
     b2 \<leftarrow> close_free (m_FreeBufs b1) (b1\<lparr>m_InUseBufs := []\<rparr>);
     Some (b2\<lparr>m_FreeBufs := []\<rparr>)
   }"

text \<open>What a command does to the buffer it was given (\<^verbatim>\<open>vbuf->data_buf\<close>, \<^verbatim>\<open>vbuf->event\<close>).\<close>
definition upd_vbuf :: "u64 \<Rightarrow> (gpu_vbuffer \<Rightarrow> gpu_vbuffer) \<Rightarrow> gpubuf \<Rightarrow> gpubuf option" where
  "upd_vbuf p f b = do { v \<leftarrow> vbufs b p; Some (b\<lparr>vbufs := (vbufs b)(p \<mapsto> f v)\<rparr>) }"

section \<open>The walk\<close>

lemma find_in_use_returns:
  assumes "j < length es" "es ! j = p" "\<And>k. k < j \<Longrightarrow> es ! k \<noteq> p" "i \<le> j"
  shows "find_in_use es p i = Some j"
  using assms(4)
proof (induction "j - i" arbitrary: i)
  case 0
  then show ?case using assms by (simp add: find_in_use.simps)
next
  case (Suc n)
  then have "i < j" by simp
  then have "find_in_use es p i = find_in_use es p (Suc i)"
    using assms by (subst find_in_use.simps) auto
  also have "\<dots> = Some j" using Suc by simp
  finally show ?case .
qed

lemma find_in_use_Some: "find_in_use es p i = Some j \<Longrightarrow> j < length es \<and> es ! j = p"
proof (induction rule: find_in_use.raw_induct [of _ es p i j, rotated, consumes 1])
  case (1 find es p i y)
  then show ?case by (auto split: if_splits)
qed

lemma find_in_use_diverges: "p \<notin> set es \<Longrightarrow> find_in_use es p i = None"
  using find_in_use_Some [of es p i] by (cases "find_in_use es p i") (auto dest: nth_mem)

lemma find_in_use_mem:
  assumes "p \<in> set es" "distinct es"
  obtains j where "find_in_use es p 0 = Some j" "j < length es" "es ! j = p"
    "take j es @ drop (Suc j) es = remove1 p es"
proof -
  from assms(1) obtain j where j: "j < length es" "es ! j = p" by (auto simp: in_set_conv_nth)
  have "find_in_use es p 0 = Some j"
    by (rule find_in_use_returns) (use assms j in \<open>auto simp: nth_eq_iff_index_eq\<close>)
  moreover have "es = take j es @ p # drop (Suc j) es"
    using j by (metis id_take_nth_drop)
  moreover then have "p \<notin> set (take j es)" using assms(2) by (metis disjoint_iff distinct_append list.set_intros(1))
  ultimately show ?thesis using that j by (metis remove1.simps(2) remove1_append)
qed

section \<open>The invariant\<close>

definition owned :: "gpu_vbuffer \<Rightarrow> u64 list" where
  "owned v = (if large_resp v then [resp_buf v] else []) @ (if has_data v then [data_buf v] else [])"

definition owned_at :: "gpubuf \<Rightarrow> u64 \<Rightarrow> u64 list" where
  "owned_at b p = (case vbufs b p of None \<Rightarrow> [] | Some v \<Rightarrow> owned v)"

text \<open>The blocks the pool answers for: its buffers, then the payloads they carry.\<close>
definition pool_blocks :: "gpubuf \<Rightarrow> u64 list" where
  "pool_blocks b = m_FreeBufs b @ m_InUseBufs b @ concat (map (owned_at b) (m_InUseBufs b))"

definition gpubuf_inv :: "gpubuf \<Rightarrow> bool" where
  "gpubuf_inv b \<longleftrightarrow>
     distinct (pool_blocks b) \<and> set (pool_blocks b) \<subseteq> blocks b \<and> 0 \<notin> blocks b \<and>
     dom (vbufs b) = set (m_FreeBufs b) \<union> set (m_InUseBufs b) \<and>
     (\<forall>p\<in>set (m_FreeBufs b). owned_at b p = []) \<and>
     unat (m_uCount b) = length (m_FreeBufs b) + length (m_InUseBufs b)"

lemma gpubuf_invI [intro?]:
  assumes "distinct (pool_blocks b)" "set (pool_blocks b) \<subseteq> blocks b" "0 \<notin> blocks b"
    "dom (vbufs b) = set (m_FreeBufs b) \<union> set (m_InUseBufs b)"
    "\<And>p. p \<in> set (m_FreeBufs b) \<Longrightarrow> owned_at b p = []"
    "unat (m_uCount b) = length (m_FreeBufs b) + length (m_InUseBufs b)"
  shows "gpubuf_inv b"
  using assms by (simp add: gpubuf_inv_def)

lemma gpubuf_invD:
  assumes "gpubuf_inv b"
  shows "distinct (pool_blocks b)" "set (pool_blocks b) \<subseteq> blocks b" "0 \<notin> blocks b"
    "dom (vbufs b) = set (m_FreeBufs b) \<union> set (m_InUseBufs b)"
    "\<And>p. p \<in> set (m_FreeBufs b) \<Longrightarrow> owned_at b p = []"
    "unat (m_uCount b) = length (m_FreeBufs b) + length (m_InUseBufs b)"
  using assms by (simp_all add: gpubuf_inv_def)

lemma pool_blocks_mem:
  "x \<in> set (pool_blocks b) \<longleftrightarrow> x \<in> set (m_FreeBufs b) \<or> x \<in> set (m_InUseBufs b) \<or>
     (\<exists>q\<in>set (m_InUseBufs b). x \<in> set (owned_at b q))"
  by (auto simp: pool_blocks_def)

lemma owned_at_upd [simp]:
  "owned_at (b\<lparr>vbufs := (vbufs b)(p \<mapsto> v)\<rparr>) q = (if q = p then owned v else owned_at b q)"
  by (simp add: owned_at_def)

lemma owned_at_other_fields [simp]:
  "owned_at (b\<lparr>m_FreeBufs := x1\<rparr>) p = owned_at b p"
  "owned_at (b\<lparr>m_InUseBufs := x2\<rparr>) p = owned_at b p"
  "owned_at (b\<lparr>m_uCount := x3\<rparr>) p = owned_at b p"
  "owned_at (b\<lparr>blocks := x4\<rparr>) p = owned_at b p"
  by (simp_all add: owned_at_def)

lemma gpubuf_inv_elem:
  assumes "gpubuf_inv b"
  shows "\<lbrakk>p \<in> set (m_FreeBufs b) \<union> set (m_InUseBufs b)\<rbrakk> \<Longrightarrow> \<exists>v. vbufs b p = Some v"
    "\<lbrakk>p \<in> set (m_FreeBufs b) \<union> set (m_InUseBufs b)\<rbrakk> \<Longrightarrow> p \<in> blocks b \<and> p \<noteq> 0"
    "distinct (m_FreeBufs b)" "distinct (m_InUseBufs b)"
    "set (m_FreeBufs b) \<inter> set (m_InUseBufs b) = {}"
    "\<lbrakk>p \<in> set (m_InUseBufs b); x \<in> set (owned_at b p)\<rbrakk> \<Longrightarrow>
       x \<in> blocks b \<and> x \<noteq> 0 \<and> x \<notin> set (m_FreeBufs b) \<and> x \<notin> set (m_InUseBufs b)"
    "p \<in> set (m_InUseBufs b) \<Longrightarrow> distinct (owned_at b p)"
proof -
  note d = gpubuf_invD [OF assms]
  show "\<lbrakk>p \<in> set (m_FreeBufs b) \<union> set (m_InUseBufs b)\<rbrakk> \<Longrightarrow> \<exists>v. vbufs b p = Some v"
    using d(4) by (metis domD)
  have sub: "x \<in> set (pool_blocks b) \<Longrightarrow> x \<in> blocks b \<and> x \<noteq> 0" for x
    using d(2,3) by auto
  show "\<lbrakk>p \<in> set (m_FreeBufs b) \<union> set (m_InUseBufs b)\<rbrakk> \<Longrightarrow> p \<in> blocks b \<and> p \<noteq> 0"
    by (rule sub) (auto simp: pool_blocks_mem)
  show "distinct (m_FreeBufs b)" "distinct (m_InUseBufs b)"
    "set (m_FreeBufs b) \<inter> set (m_InUseBufs b) = {}"
    using d(1) by (auto simp: pool_blocks_def)
  show "\<lbrakk>p \<in> set (m_InUseBufs b); x \<in> set (owned_at b p)\<rbrakk> \<Longrightarrow>
       x \<in> blocks b \<and> x \<noteq> 0 \<and> x \<notin> set (m_FreeBufs b) \<and> x \<notin> set (m_InUseBufs b)"
    using sub [of x] d(1) by (auto simp: pool_blocks_def)
  show "p \<in> set (m_InUseBufs b) \<Longrightarrow> distinct (owned_at b p)"
    using d(1) by (auto simp: pool_blocks_def distinct_concat_iff)
qed

lemma new_gpubuf_inv: "0 \<notin> heap \<Longrightarrow> gpubuf_inv (new_gpubuf heap)"
  by (simp add: gpubuf_inv_def new_gpubuf_def pool_blocks_def)

section \<open>Init\<close>

text \<open>The documented behaviour of the allocator: a block it returns was not in use.\<close>
definition fresh_allocator :: "allocator \<Rightarrow> bool" where
  "fresh_allocator alloc \<longleftrightarrow> (\<forall>h n. alloc h n = 0 \<or> alloc h n \<notin> h)"

lemma init_bufs_step_inv:
  assumes "gpubuf_inv b" "m_InUseBufs b = []" "p \<noteq> 0" "p \<notin> blocks b"
    "unat (m_uCount b) + 1 < 2 ^ 32"
  shows "gpubuf_inv (b\<lparr>m_FreeBufs := m_FreeBufs b @ [p], m_uCount := m_uCount b + 1,
           vbufs := (vbufs b)(p \<mapsto> zero_vbuffer), blocks := insert p (blocks b)\<rparr>)"
proof -
  note d = gpubuf_invD [OF assms(1)]
  have "p \<notin> set (m_FreeBufs b)" using gpubuf_inv_elem(2) [OF assms(1)] assms(4) by blast
  moreover have "owned_at b q = []" if "q \<in> set (m_FreeBufs b)" for q using d(5) that .
  moreover have "unat (m_uCount b + 1) = unat (m_uCount b) + 1"
    using assms(5) by (simp add: unat_Suc_mod)
  ultimately show ?thesis
    using d assms(2,3)
    by (intro gpubuf_invI) (auto simp: pool_blocks_def owned_at_def owned_def zero_vbuffer_def
        large_resp_def has_data_def split: if_splits)
qed

lemma init_bufs_ok:
  assumes "fresh_allocator alloc" "gpubuf_inv b" "m_InUseBufs b = []" "unat (m_uCount b) + n < 2 ^ 32"
  shows "gpubuf_inv (init_bufs alloc n b) \<and> m_InUseBufs (init_bufs alloc n b) = [] \<and>
    blocks (init_bufs alloc n b) - set (m_FreeBufs (init_bufs alloc n b)) = blocks b - set (m_FreeBufs b) \<and>
    unat (m_uCount (init_bufs alloc n b)) \<le> unat (m_uCount b) + n"
  using assms(2-)
proof (induction n arbitrary: b)
  case 0
  then show ?case by simp
next
  case (Suc n)
  define p where "p = alloc (blocks b) VBUFFER_SIZE"
  show ?case
  proof (cases "p = 0")
    case True
    then show ?thesis using Suc.prems by (simp add: p_def)
  next
    case False
    let ?b = "b\<lparr>m_FreeBufs := m_FreeBufs b @ [p], m_uCount := m_uCount b + 1,
           vbufs := (vbufs b)(p \<mapsto> zero_vbuffer), blocks := insert p (blocks b)\<rparr>"
    have p: "p \<notin> blocks b" using assms(1) False by (auto simp: p_def fresh_allocator_def)
    have u: "unat (m_uCount b + 1) = unat (m_uCount b) + 1"
      using Suc.prems(3) by (simp add: unat_Suc_mod)
    have i: "gpubuf_inv ?b"
      by (rule init_bufs_step_inv [OF Suc.prems(1,2) False p]) (use Suc.prems(3) in simp)
    have "init_bufs alloc (Suc n) b = init_bufs alloc n ?b"
      using False by (simp add: p_def [symmetric] Let_def)
    moreover have "m_InUseBufs ?b = []" "unat (m_uCount ?b) + n < 2 ^ 32"
      using Suc.prems u by simp_all
    moreover have "blocks ?b - set (m_FreeBufs ?b) = blocks b - set (m_FreeBufs b)" using p by auto
    ultimately show ?thesis using Suc.IH [OF i] u by simp
  qed
qed

lemma delete_block_ok: "p \<in> blocks b \<Longrightarrow> p \<noteq> 0 \<Longrightarrow> delete_block p b = Some (b\<lparr>blocks := blocks b - {p}\<rparr>)"
  by (simp add: delete_block_def)

lemma delete_all_ok:
  assumes "distinct ps" "set ps \<subseteq> blocks b" "0 \<notin> set ps"
  shows "delete_all ps b = Some (b\<lparr>blocks := blocks b - set ps, vbufs := (vbufs b) |` (- set ps)\<rparr>)"
  using assms
proof (induction ps arbitrary: b)
  case Nil
  then show ?case by (cases b) simp
next
  case (Cons p ps)
  let ?b = "b\<lparr>blocks := blocks b - {p}, vbufs := (vbufs b)(p := None)\<rparr>"
  have "delete_vbuf p b = Some ?b"
    using Cons.prems by (cases b) (simp add: delete_vbuf_def delete_block_ok)
  moreover have "delete_all ps ?b =
      Some (?b\<lparr>blocks := blocks ?b - set ps, vbufs := (vbufs ?b) |` (- set ps)\<rparr>)"
    by (rule Cons.IH) (use Cons.prems in auto)
  moreover have "(vbufs ?b) |` (- set ps) = (vbufs b) |` (- set (p # ps))"
    by (auto simp: restrict_map_def fun_eq_iff)
  moreover have "blocks ?b - set ps = blocks b - set (p # ps)" by auto
  ultimately show ?case by simp
qed

section \<open>GetBuf and FreeBuf\<close>

text \<open>What a caller owes: a response buffer that does not fit inline is a block of its
  own, which the pool takes over.\<close>
definition resp_arg_ok :: "gpubuf \<Rightarrow> u32 \<Rightarrow> u64 \<Rightarrow> bool" where
  "resp_arg_ok b rsize rbuf \<longleftrightarrow>
     (sint MAX_INLINE_RESP_SIZE < sint rsize \<and> rbuf \<noteq> 0 \<longrightarrow>
        rbuf \<in> blocks b \<and> rbuf \<notin> set (pool_blocks b))"

definition fresh_vbuf :: "u64 \<Rightarrow> u32 \<Rightarrow> u32 \<Rightarrow> u64 \<Rightarrow> gpu_vbuffer" where
  "fresh_vbuf p sz rsize rbuf =
     \<lparr>vb_buf = p + SIZEOF_GPU_VBUFFER, vb_size = sz, data_buf = 0, data_size = 0,
      resp_buf = (if sint rsize \<le> sint MAX_INLINE_RESP_SIZE
                  then p + SIZEOF_GPU_VBUFFER + scast sz else rbuf),
      resp_size = rsize, vb_event = 0\<rparr>"

lemma owned_fresh_vbuf:
  "owned (fresh_vbuf p sz rsize rbuf) =
     (if sint MAX_INLINE_RESP_SIZE < sint rsize \<and> rbuf \<noteq> 0 then [rbuf] else [])"
  by (auto simp: owned_def fresh_vbuf_def large_resp_def has_data_def)

lemma get_vbuf_empty: "m_FreeBufs b = [] \<Longrightarrow> get_vbuf sz rsize rbuf b = Some (0, b)"
  by (simp add: get_vbuf_def)

lemma concat_owned_cong:
  "(\<And>q. q \<in> set qs \<Longrightarrow> owned_at b q = owned_at b' q) \<Longrightarrow>
   concat (map (owned_at b) qs) = concat (map (owned_at b') qs)"
  by (simp cong: map_cong)

lemma get_vbuf_ok:
  fixes sz :: u32
  assumes inv: "gpubuf_inv b" and f: "m_FreeBufs b = p # ps" and a: "resp_arg_ok b rsize rbuf"
  defines "b' \<equiv> b\<lparr>m_FreeBufs := ps, m_InUseBufs := m_InUseBufs b @ [p],
    vbufs := (vbufs b)(p \<mapsto> fresh_vbuf p sz rsize rbuf)\<rparr>"
  shows "get_vbuf sz rsize rbuf b = Some (p, b')" "gpubuf_inv b'"
proof -
  note d = gpubuf_invD [OF inv] and e = gpubuf_inv_elem [OF inv]
  obtain v where v: "vbufs b p = Some v" using e(1) [of p] f by auto
  show "get_vbuf sz rsize rbuf b = Some (p, b')"
    using f v by (simp add: get_vbuf_def b'_def fresh_vbuf_def zero_vbuffer_def Let_def)
  let ?o = "owned (fresh_vbuf p sz rsize rbuf)"
  have pin: "p \<notin> set (m_InUseBufs b)" using e(5) f by auto
  have cc: "concat (map (owned_at b') (m_InUseBufs b)) = concat (map (owned_at b) (m_InUseBufs b))"
    by (rule concat_owned_cong) (use pin in \<open>auto simp: b'_def owned_at_def\<close>)
  have o: "set ?o \<subseteq> blocks b - set (pool_blocks b)" "distinct ?o"
    using a by (auto simp: owned_fresh_vbuf resp_arg_ok_def)
  have pb: "pool_blocks b' = ps @ (m_InUseBufs b @ [p]) @ concat (map (owned_at b) (m_InUseBufs b)) @ ?o"
    using cc by (simp add: pool_blocks_def) (simp add: b'_def owned_at_def)
  have ms: "mset (pool_blocks b') = mset (pool_blocks b) + mset ?o"
    by (simp add: pb) (simp add: pool_blocks_def f)
  have st: "set (pool_blocks b') = set (pool_blocks b) \<union> set ?o"
    using ms by (metis set_mset_mset set_mset_union)
  show "gpubuf_inv b'"
  proof
    have "distinct (pool_blocks b @ ?o)" using d(1) o by auto
    then show "distinct (pool_blocks b')" using ms by (metis mset_append mset_eq_imp_distinct_iff)
    show "set (pool_blocks b') \<subseteq> blocks b'" using st d(2) o(1) by (auto simp: b'_def)
    show "0 \<notin> blocks b'" using d(3) by (simp add: b'_def)
    show "dom (vbufs b') = set (m_FreeBufs b') \<union> set (m_InUseBufs b')"
      using d(4) f by (auto simp: b'_def)
    show "owned_at b' q = []" if "q \<in> set (m_FreeBufs b')" for q
    proof -
      have "q \<in> set (m_FreeBufs b)" "q \<noteq> p" using that e(3) f by (auto simp: b'_def)
      then show ?thesis using d(5) [of q] by (simp add: b'_def owned_at_def)
    qed
    show "unat (m_uCount b') = length (m_FreeBufs b') + length (m_InUseBufs b')"
      using d(6) f by (simp add: b'_def)
  qed
qed

text \<open>The contents of a buffer once its payload is given back.\<close>
definition drop_payload :: "gpu_vbuffer \<Rightarrow> gpu_vbuffer" where
  "drop_payload v =
     (let v1 = (if large_resp v then v\<lparr>resp_buf := 0, resp_size := 0\<rparr> else v) in
      if has_data v1 then v1\<lparr>data_buf := 0, data_size := 0\<rparr> else v1)"

lemma owned_drop_payload [simp]: "owned (drop_payload v) = []"
  by (auto simp: owned_def drop_payload_def Let_def large_resp_def has_data_def)

lemma delete_payload_ok:
  assumes "vbufs b p = Some v" "set (owned v) \<subseteq> blocks b" "0 \<notin> blocks b" "distinct (owned v)"
  shows "delete_payload p b =
    Some (b\<lparr>blocks := blocks b - set (owned v), vbufs := (vbufs b)(p \<mapsto> drop_payload v)\<rparr>)"
proof -
  have r: "large_resp v \<Longrightarrow> resp_buf v \<in> blocks b \<and> resp_buf v \<noteq> 0"
    using assms(2,3) by (auto simp: owned_def)
  have h: "has_data v \<Longrightarrow> data_buf v \<in> blocks b \<and> data_buf v \<noteq> 0"
    using assms(2,3) by (auto simp: owned_def)
  have n: "large_resp v \<Longrightarrow> has_data v \<Longrightarrow> resp_buf v \<noteq> data_buf v"
    using assms(4) by (auto simp: owned_def)
  have hd: "has_data (v\<lparr>resp_buf := 0, resp_size := 0\<rparr>) = has_data v" by (simp add: has_data_def)
  show ?thesis
  proof (cases "large_resp v")
    case True
    then show ?thesis using r h n hd assms(1)
      by (cases b) (auto simp: delete_payload_def delete_block_ok drop_payload_def owned_def Let_def
          insert_commute Diff_insert2 [symmetric])
  next
    case False
    then show ?thesis using h assms(1)
      by (cases b) (auto simp: delete_payload_def delete_block_ok drop_payload_def owned_def Let_def)
  qed
qed

lemma free_vbuf_ok:
  assumes inv: "gpubuf_inv b" and p: "p \<in> set (m_InUseBufs b)"
  defines "b' \<equiv> b\<lparr>m_FreeBufs := m_FreeBufs b @ [p], m_InUseBufs := remove1 p (m_InUseBufs b),
    vbufs := (vbufs b)(p \<mapsto> drop_payload (the (vbufs b p))),
    blocks := blocks b - set (owned_at b p)\<rparr>"
  shows "free_vbuf p b = Some b'" "gpubuf_inv b'"
proof -
  note d = gpubuf_invD [OF inv] and e = gpubuf_inv_elem [OF inv]
  obtain v where v: "vbufs b p = Some v" using e(1) [of p] p by auto
  have ov: "owned_at b p = owned v" by (simp add: owned_at_def v)
  obtain j where j: "find_in_use (m_InUseBufs b) p 0 = Some j"
      "take j (m_InUseBufs b) @ drop (Suc j) (m_InUseBufs b) = remove1 p (m_InUseBufs b)"
    using find_in_use_mem [OF p e(4)] by metis
  let ?b1 = "b\<lparr>m_InUseBufs := remove1 p (m_InUseBufs b)\<rparr>"
  have dp: "delete_payload p ?b1 = Some (?b1\<lparr>blocks := blocks ?b1 - set (owned v),
      vbufs := (vbufs ?b1)(p \<mapsto> drop_payload v)\<rparr>)"
    by (rule delete_payload_ok) (use v d(3) e(6) [OF p] e(7) [OF p] ov in auto)
  have pf: "p \<notin> set (m_FreeBufs b)" using e(5) p by auto
  have ne: "m_InUseBufs b \<noteq> []" using p by auto
  have b'v: "b' = b\<lparr>m_FreeBufs := m_FreeBufs b @ [p], m_InUseBufs := remove1 p (m_InUseBufs b),
      vbufs := (vbufs b)(p \<mapsto> drop_payload v), blocks := blocks b - set (owned v)\<rparr>"
    by (simp add: b'_def ov v)
  show "free_vbuf p b = Some b'"
    using j dp pf ne unfolding free_vbuf_def b'v by (cases b) simp
  have cc: "concat (map (owned_at b') (remove1 p (m_InUseBufs b))) =
      concat (map (owned_at b) (remove1 p (m_InUseBufs b)))"
    by (rule concat_owned_cong) (use e(4) in \<open>auto simp: b'_def owned_at_def\<close>)
  have ms: "mset (pool_blocks b) = mset (pool_blocks b') + mset (owned v)"
  proof -
    have "mset (concat (map (owned_at b) (m_InUseBufs b))) =
        mset (owned_at b p) + mset (concat (map (owned_at b) (remove1 p (m_InUseBufs b))))"
      by (rule concat_remove1_distinct [where f = id]) (use e(4) p in auto)
    moreover have "mset (m_InUseBufs b) = add_mset p (mset (remove1 p (m_InUseBufs b)))"
      using p by simp
    moreover have "pool_blocks b' = (m_FreeBufs b @ [p]) @ remove1 p (m_InUseBufs b) @
        concat (map (owned_at b) (remove1 p (m_InUseBufs b)))"
      using cc by (simp add: pool_blocks_def) (simp add: b'_def)
    ultimately show ?thesis by (simp add: pool_blocks_def ov)
  qed
  have dd: "distinct (pool_blocks b' @ owned v)"
    using d(1) ms by (metis mset_append mset_eq_imp_distinct_iff)
  have st: "set (pool_blocks b) = set (pool_blocks b') \<union> set (owned v)"
    using ms by (metis set_mset_mset set_mset_union)
  show "gpubuf_inv b'"
  proof
    show "distinct (pool_blocks b')" using dd by simp
    show "set (pool_blocks b') \<subseteq> blocks b'" using st d(2) dd by (auto simp: b'_def ov)
    show "0 \<notin> blocks b'" using d(3) by (simp add: b'_def)
    show "dom (vbufs b') = set (m_FreeBufs b') \<union> set (m_InUseBufs b')"
      using d(4) e(4) p by (auto simp: b'_def)
    show "owned_at b' q = []" if "q \<in> set (m_FreeBufs b')" for q
      using that d(5) [of q] v by (auto simp: b'_def owned_at_def)
    show "unat (m_uCount b') = length (m_FreeBufs b') + length (m_InUseBufs b')"
      using d(6) p by (simp add: b'_def length_remove1) (metis Suc_pred length_pos_if_in_set add_Suc_right)
  qed
qed

text \<open>A buffer that is not in use: the walk under the spin lock never returns, or, with no
  buffer in use, an entry that is no free-standing buffer is linked.\<close>
lemma free_vbuf_not_in_use:
  assumes "gpubuf_inv b" "p \<notin> set (m_InUseBufs b)"
  shows "free_vbuf p b = None"
proof (cases "m_InUseBufs b = []")
  case False
  then show ?thesis using assms(2) by (simp add: free_vbuf_def find_in_use_diverges)
next
  case True
  show ?thesis
  proof (cases "vbufs b p")
    case None
    then show ?thesis using True by (simp add: free_vbuf_def delete_payload_def)
  next
    case (Some v)
    then have p: "p \<in> set (m_FreeBufs b)" using gpubuf_invD(4) [OF assms(1)] True by auto
    have "owned v = []" using gpubuf_invD(5) [OF assms(1) p] by (simp add: owned_at_def Some)
    then have "delete_payload p b = Some (b\<lparr>blocks := blocks b - set (owned v),
        vbufs := (vbufs b)(p \<mapsto> drop_payload v)\<rparr>)"
      by (intro delete_payload_ok) (use Some gpubuf_invD(3) [OF assms(1)] in auto)
    then show ?thesis using True p by (simp add: free_vbuf_def)
  qed
qed

text \<open>A command attaches its payload or its event.\<close>
lemma upd_vbuf_ok:
  assumes inv: "gpubuf_inv b" and p: "p \<in> set (m_InUseBufs b)" and v: "vbufs b p = Some v"
    and o: "mset (owned (f v)) = mset (owned v) + mset xs" "distinct xs"
      "set xs \<subseteq> blocks b - set (pool_blocks b)"
  shows "upd_vbuf p f b = Some (b\<lparr>vbufs := (vbufs b)(p \<mapsto> f v)\<rparr>)"
    "gpubuf_inv (b\<lparr>vbufs := (vbufs b)(p \<mapsto> f v)\<rparr>)"
proof -
  note d = gpubuf_invD [OF inv] and e = gpubuf_inv_elem [OF inv]
  let ?b = "b\<lparr>vbufs := (vbufs b)(p \<mapsto> f v)\<rparr>"
  show "upd_vbuf p f b = Some ?b" by (simp add: upd_vbuf_def v)
  have cc: "concat (map (owned_at ?b) (remove1 p (m_InUseBufs b))) =
      concat (map (owned_at b) (remove1 p (m_InUseBufs b)))"
    by (rule concat_owned_cong) (use e(4) in \<open>auto simp: owned_at_def\<close>)
  have split: "mset (concat (map g (m_InUseBufs b))) =
      mset (g p) + mset (concat (map g (remove1 p (m_InUseBufs b))))" for g :: "u64 \<Rightarrow> u64 list"
    by (rule concat_remove1_distinct [where f = id]) (use e(4) p in auto)
  have ms: "mset (pool_blocks ?b) = mset (pool_blocks b @ xs)"
    using o(1) by (simp add: pool_blocks_def split [of "owned_at ?b"] split [of "owned_at b"] cc)
      (simp add: owned_at_def v)
  have st: "set (pool_blocks ?b) = set (pool_blocks b) \<union> set xs"
    using ms by (metis set_append set_mset_mset)
  show "gpubuf_inv ?b"
  proof
    have "distinct (pool_blocks b @ xs)" using d(1) o by auto
    then show "distinct (pool_blocks ?b)" using ms by (metis mset_eq_imp_distinct_iff)
    show "set (pool_blocks ?b) \<subseteq> blocks ?b" using st d(2) o(3) by auto
    show "0 \<notin> blocks ?b" using d(3) by simp
    show "dom (vbufs ?b) = set (m_FreeBufs ?b) \<union> set (m_InUseBufs ?b)" using d(4) p by auto
    show "owned_at ?b q = []" if "q \<in> set (m_FreeBufs ?b)" for q
      using that d(5) [of q] e(5) p by auto
    show "unat (m_uCount ?b) = length (m_FreeBufs ?b) + length (m_InUseBufs ?b)" using d(6) by simp
  qed
qed

section \<open>Close\<close>

lemma delete_vbuf_ok:
  "p \<in> blocks b \<Longrightarrow> p \<noteq> 0 \<Longrightarrow>
   delete_vbuf p b = Some (b\<lparr>vbufs := (vbufs b)(p := None), blocks := blocks b - {p}\<rparr>)"
  by (simp add: delete_vbuf_def delete_block_ok)

lemma close_in_use_ok:
  assumes "distinct ps" "set ps \<subseteq> blocks b" "0 \<notin> set ps"
  shows "close_in_use ps b = Some (b\<lparr>m_uCount := m_uCount b - of_nat (length ps),
    vbufs := (vbufs b) |` (- set ps), blocks := blocks b - set ps\<rparr>)"
  using assms
proof (induction ps arbitrary: b)
  case Nil
  then show ?case by (cases b) simp
next
  case (Cons p ps)
  let ?b = "b\<lparr>m_uCount := m_uCount b - 1, vbufs := (vbufs b)(p := None), blocks := blocks b - {p}\<rparr>"
  have "close_in_use ps ?b = Some (?b\<lparr>m_uCount := m_uCount ?b - of_nat (length ps),
    vbufs := (vbufs ?b) |` (- set ps), blocks := blocks ?b - set ps\<rparr>)"
    by (rule Cons.IH) (use Cons.prems in auto)
  moreover have "(vbufs ?b) |` (- set ps) = (vbufs b) |` (- set (p # ps))"
    by (auto simp: restrict_map_def fun_eq_iff)
  moreover have "blocks ?b - set ps = blocks b - set (p # ps)" by auto
  moreover have "m_uCount ?b - of_nat (length ps) = m_uCount b - of_nat (length (p # ps))"
    by simp
  moreover have "delete_vbuf p b = Some (b\<lparr>vbufs := (vbufs b)(p := None), blocks := blocks b - {p}\<rparr>)"
    using Cons.prems by (simp add: delete_vbuf_ok)
  ultimately show ?case by (cases b) (simp add: diff_diff_eq)
qed

lemma close_free_ok:
  assumes "distinct ps" "set ps \<subseteq> blocks b" "0 \<notin> blocks b"
    "\<And>p. p \<in> set ps \<Longrightarrow> \<exists>v. vbufs b p = Some v \<and> owned v = []"
  shows "close_free ps b = Some (b\<lparr>m_uCount := m_uCount b - of_nat (length ps),
    vbufs := (vbufs b) |` (- set ps), blocks := blocks b - set ps\<rparr>)"
  using assms
proof (induction ps arbitrary: b)
  case Nil
  then show ?case by (cases b) simp
next
  case (Cons p ps)
  let ?b = "b\<lparr>m_uCount := m_uCount b - 1, vbufs := (vbufs b)(p := None), blocks := blocks b - {p}\<rparr>"
  have IH: "close_free ps ?b = Some (?b\<lparr>m_uCount := m_uCount ?b - of_nat (length ps),
    vbufs := (vbufs ?b) |` (- set ps), blocks := blocks ?b - set ps\<rparr>)"
  proof (rule Cons.IH)
    show "\<exists>v. vbufs ?b q = Some v \<and> owned v = []" if "q \<in> set ps" for q
      using Cons.prems(1) Cons.prems(4) [of q] that by auto
  qed (use Cons.prems in auto)
  obtain v where v: "vbufs b p = Some v" "owned v = []" using Cons.prems(4) [of p] by auto
  have dp: "delete_payload p b = Some (b\<lparr>vbufs := (vbufs b)(p \<mapsto> drop_payload v)\<rparr>)"
    using delete_payload_ok [OF v(1)] v(2) Cons.prems(3) by simp
  have p: "p \<in> blocks b" "p \<noteq> 0" using Cons.prems(2,3) by auto
  have dv: "delete_vbuf p (b\<lparr>vbufs := (vbufs b)(p \<mapsto> drop_payload v)\<rparr>) =
      Some (b\<lparr>vbufs := (vbufs b)(p := None), blocks := blocks b - {p}\<rparr>)"
    using p by (simp add: delete_vbuf_ok)
  have "(vbufs ?b) |` (- set ps) = (vbufs b) |` (- set (p # ps))"
    by (auto simp: restrict_map_def fun_eq_iff)
  moreover have "blocks ?b - set ps = blocks b - set (p # ps)" by auto
  moreover have "m_uCount ?b - of_nat (length ps) = m_uCount b - of_nat (length (p # ps))"
    by simp
  ultimately show ?case using IH dp dv by (cases b) (simp add: diff_diff_eq)
qed

lemma gpubuf_close_ok:
  assumes inv: "gpubuf_inv b"
  shows "gpubuf_close b = Some (new_gpubuf (blocks b - set (m_FreeBufs b) - set (m_InUseBufs b)))"
proof -
  note d = gpubuf_invD [OF inv] and e = gpubuf_inv_elem [OF inv]
  let ?b1 = "b\<lparr>m_uCount := m_uCount b - of_nat (length (m_InUseBufs b)),
    vbufs := (vbufs b) |` (- set (m_InUseBufs b)), blocks := blocks b - set (m_InUseBufs b)\<rparr>"
  have c1: "close_in_use (m_InUseBufs b) b = Some ?b1"
    by (rule close_in_use_ok) (use e(2,4) in auto)
  let ?b2 = "?b1\<lparr>m_InUseBufs := []\<rparr>"
  have c2: "close_free (m_FreeBufs ?b1) ?b2 =
      Some (?b2\<lparr>m_uCount := m_uCount ?b2 - of_nat (length (m_FreeBufs ?b1)),
        vbufs := (vbufs ?b2) |` (- set (m_FreeBufs ?b1)), blocks := blocks ?b2 - set (m_FreeBufs ?b1)\<rparr>)"
  proof (rule close_free_ok)
    show "set (m_FreeBufs ?b1) \<subseteq> blocks ?b2" using e(2,5) by fastforce
    show "\<exists>v. vbufs ?b2 p = Some v \<and> owned v = []" if "p \<in> set (m_FreeBufs ?b1)" for p
    proof -
      have p: "p \<in> set (m_FreeBufs b)" "p \<notin> set (m_InUseBufs b)" using that e(5) by auto
      then show ?thesis using e(1) [of p] d(5) [OF p(1)] by (auto simp: owned_at_def)
    qed
  qed (use d(3) e(3) in auto)
  have "m_uCount b = of_nat (length (m_FreeBufs b) + length (m_InUseBufs b))"
    using d(6) by (metis word_unat_eq_iff unat_eq_of_nat)
  then have u: "m_uCount b - of_nat (length (m_InUseBufs b)) - of_nat (length (m_FreeBufs b)) = 0"
    by simp
  have "(vbufs b) |` (- (set (m_FreeBufs b) \<union> set (m_InUseBufs b))) = Map.empty"
    using d(4) by (auto simp: restrict_map_def fun_eq_iff)
  then have m: "(vbufs b) |` (- set (m_InUseBufs b)) |` (- set (m_FreeBufs b)) = Map.empty"
    by (simp add: restrict_restrict Int_commute)
  have bs: "blocks b - set (m_InUseBufs b) - set (m_FreeBufs b) =
      blocks b - set (m_FreeBufs b) - set (m_InUseBufs b)" by auto
  show ?thesis
    unfolding gpubuf_close_def using c1 c2 u m bs by (cases b) (simp add: new_gpubuf_def)
qed

section \<open>The contract of a buffer pool\<close>

text \<open>A run of a pool: clients take buffers and give back buffers they hold.\<close>
inductive pool_run ::
  "('p \<Rightarrow> 'r \<Rightarrow> ('b option \<times> 'p) option) \<Rightarrow> ('b \<Rightarrow> 'p \<Rightarrow> 'p option) \<Rightarrow> ('p \<Rightarrow> 'r \<Rightarrow> bool) \<Rightarrow>
   'p \<Rightarrow> 'b multiset \<Rightarrow> 'p \<Rightarrow> bool"
  for get give okarg p0 where
  start: "pool_run get give okarg p0 {#} p0"
| get: "pool_run get give okarg p0 hs p \<Longrightarrow> okarg p r \<Longrightarrow> get p r = Some (x, p') \<Longrightarrow>
     pool_run get give okarg p0 (case x of None \<Rightarrow> hs | Some a \<Rightarrow> add_mset a hs) p'"
| give: "pool_run get give okarg p0 hs p \<Longrightarrow> x \<in># hs \<Longrightarrow> give x p = Some p' \<Longrightarrow>
     pool_run get give okarg p0 (hs - {#x#}) p'"

locale buffer_pool =
  fixes inv :: "'p \<Rightarrow> bool"
    and get :: "'p \<Rightarrow> 'r \<Rightarrow> ('b option \<times> 'p) option"
    and give :: "'b \<Rightarrow> 'p \<Rightarrow> 'p option"
    and okarg :: "'p \<Rightarrow> 'r \<Rightarrow> bool"
    and avail :: "'p \<Rightarrow> 'b list"
    and in_use :: "'p \<Rightarrow> 'b list"
  assumes get_ok: "inv p \<Longrightarrow> okarg p r \<Longrightarrow> avail p = x # xs \<Longrightarrow>
      \<exists>p'. get p r = Some (Some x, p') \<and> inv p' \<and> avail p' = xs \<and> in_use p' = in_use p @ [x]"
    and get_empty: "inv p \<Longrightarrow> avail p = [] \<Longrightarrow> get p r = Some (None, p)"
    and give_ok: "inv p \<Longrightarrow> x \<in> set (in_use p) \<Longrightarrow>
      \<exists>p'. give x p = Some p' \<and> inv p' \<and> avail p' = avail p @ [x] \<and> in_use p' = remove1 x (in_use p)"
    and no_sharing: "inv p \<Longrightarrow> distinct (avail p @ in_use p)"
begin

lemma run_ok:
  assumes "pool_run get give okarg p0 hs p" "inv p0" "in_use p0 = []"
  shows "inv p \<and> mset (in_use p) = hs \<and> mset (avail p) + hs = mset (avail p0)"
  using assms
proof (induction rule: pool_run.induct)
  case start
  then show ?case by simp
next
  case (get hs p r x p')
  then have i: "inv p" "mset (in_use p) = hs" "mset (avail p) + hs = mset (avail p0)" by auto
  show ?case
  proof (cases "avail p")
    case Nil
    then show ?thesis using get_empty [OF i(1), of r] get.hyps(3) i by auto
  next
    case (Cons y ys)
    obtain p2 where "get p r = Some (Some y, p2)" "inv p2" "avail p2 = ys" "in_use p2 = in_use p @ [y]"
      using get_ok [OF i(1) get.hyps(2) Cons] by blast
    then show ?thesis using get.hyps(3) i Cons by auto
  qed
next
  case (give hs p x p')
  then have i: "inv p" "mset (in_use p) = hs" "mset (avail p) + hs = mset (avail p0)" by auto
  have x: "x \<in> set (in_use p)" using give.hyps(2) i(2) by (metis set_mset_mset)
  obtain p2 where "give x p = Some p2" "inv p2" "avail p2 = avail p @ [x]"
      "in_use p2 = remove1 x (in_use p)"
    using give_ok [OF i(1) x] by blast
  moreover have "x \<in># mset (avail p0)" using i(3) give.hyps(2) by (metis union_iff)
  ultimately show ?case using give.hyps(2,3) i by auto
qed

lemma run_exclusive:
  assumes "pool_run get give okarg p0 hs p" "inv p0" "in_use p0 = []"
  shows "(\<forall>x. count hs x \<le> 1) \<and> set_mset hs \<inter> set (avail p) = {} \<and>
    size hs + length (avail p) = length (avail p0)"
proof -
  note r = run_ok [OF assms]
  have d: "distinct (avail p @ in_use p)" using no_sharing r by blast
  then have "count hs x \<le> 1" for x
    using r distinct_count_atmost_1 [of "in_use p"] by (metis distinct_append le_refl zero_le_one)
  moreover have "set_mset hs \<inter> set (avail p) = {}" using d r by (metis distinct_append inf_commute set_mset_mset)
  moreover have "size hs + length (avail p) = length (avail p0)"
    using r by (metis size_mset size_union add.commute)
  ultimately show ?thesis by blast
qed

lemma give_total: "inv p \<Longrightarrow> x \<in> set (in_use p) \<Longrightarrow> \<exists>p'. give x p = Some p' \<and> inv p'"
  using give_ok by blast

end

section \<open>The pool of the driver\<close>

definition pool_get :: "gpubuf \<Rightarrow> u32 \<times> u32 \<times> u64 \<Rightarrow> (u64 option \<times> gpubuf) option" where
  "pool_get b r = (case r of (sz, rsize, rbuf) \<Rightarrow> do {
     (p, b') \<leftarrow> get_vbuf sz rsize rbuf b;
     Some (if p = 0 then None else Some p, b') })"

definition pool_okarg :: "gpubuf \<Rightarrow> u32 \<times> u32 \<times> u64 \<Rightarrow> bool" where
  "pool_okarg b r = (case r of (sz, rsize, rbuf) \<Rightarrow> resp_arg_ok b rsize rbuf)"

interpretation gb: buffer_pool gpubuf_inv pool_get free_vbuf pool_okarg m_FreeBufs m_InUseBufs
proof
  fix b :: gpubuf and r :: "u32 \<times> u32 \<times> u64" and x xs
  assume inv: "gpubuf_inv b" and a: "pool_okarg b r" and f: "m_FreeBufs b = x # xs"
  obtain sz rsize rbuf where r: "r = (sz, rsize, rbuf)" by (cases r)
  have "x \<noteq> 0" using gpubuf_inv_elem(2) [OF inv, of x] f by simp
  then show "\<exists>p'. pool_get b r = Some (Some x, p') \<and> gpubuf_inv p' \<and> m_FreeBufs p' = xs \<and>
      m_InUseBufs p' = m_InUseBufs b @ [x]"
    using get_vbuf_ok [OF inv f, of rsize rbuf sz] a r by (simp add: pool_get_def pool_okarg_def)
next
  fix b :: gpubuf and r :: "u32 \<times> u32 \<times> u64"
  assume "m_FreeBufs b = []"
  then show "pool_get b r = Some (None, b)"
    by (cases r) (simp add: pool_get_def get_vbuf_empty)
next
  fix b :: gpubuf and x
  assume "gpubuf_inv b" "x \<in> set (m_InUseBufs b)"
  from free_vbuf_ok [OF this] show "\<exists>p'. free_vbuf x b = Some p' \<and> gpubuf_inv p' \<and>
      m_FreeBufs p' = m_FreeBufs b @ [x] \<and> m_InUseBufs p' = remove1 x (m_InUseBufs b)"
    by simp
next
  fix b :: gpubuf
  assume "gpubuf_inv b"
  then show "distinct (m_FreeBufs b @ m_InUseBufs b)" using gpubuf_inv_elem(3-5) by auto
qed

section \<open>Correctness\<close>

lemma init_bufs_length:
  "length (m_FreeBufs (init_bufs alloc n b)) \<le> length (m_FreeBufs b) + n"
  by (induction alloc n b rule: init_bufs.induct) (auto simp: Let_def)

lemma gpubuf_init_cases:
  assumes "fresh_allocator alloc" "0 \<notin> heap"
  shows "(\<exists>b. gpubuf_init alloc cnt (new_gpubuf heap) = Some (0 < cnt, b) \<and> gpubuf_inv b \<and>
        length (m_FreeBufs b) = unat cnt \<and> m_InUseBufs b = [] \<and> blocks b - set (m_FreeBufs b) = heap) \<or>
     (\<exists>n. n < cnt \<and> gpubuf_init alloc cnt (new_gpubuf heap) =
        Some (0 < n, (new_gpubuf heap)\<lparr>m_uCount := n\<rparr>))"
proof -
  let ?b0 = "new_gpubuf heap"
  let ?b1 = "init_bufs alloc (unat cnt) ?b0"
  have e0: "?b0\<lparr>m_FreeBufs := [], m_InUseBufs := []\<rparr> = ?b0" by (simp add: new_gpubuf_def)
  have fields: "m_FreeBufs ?b0 = []" "m_InUseBufs ?b0 = []" "m_uCount ?b0 = 0" "blocks ?b0 = heap"
    by (simp_all add: new_gpubuf_def)
  have ok: "gpubuf_inv ?b1" "m_InUseBufs ?b1 = []" "blocks ?b1 - set (m_FreeBufs ?b1) = heap"
    using init_bufs_ok [OF assms(1) new_gpubuf_inv [OF assms(2)] fields(2), of "unat cnt"] fields
      unsigned_less [of cnt] by auto
  have cnt1: "length (m_FreeBufs ?b1) \<le> unat cnt"
    using init_bufs_length [of alloc "unat cnt" ?b0] fields by simp
  note d = gpubuf_invD [OF ok(1)] and e = gpubuf_inv_elem [OF ok(1)]
  show ?thesis
  proof (cases "m_uCount ?b1 = cnt")
    case True
    have "length (m_FreeBufs ?b1) = unat cnt" using d(6) ok(2) True by simp
    then show ?thesis using True ok e0 by (intro disjI1 exI [of _ ?b1]) (simp add: gpubuf_init_def)
  next
    case False
    have "unat (m_uCount ?b1) < unat cnt"
    proof -
      have "unat (m_uCount ?b1) = length (m_FreeBufs ?b1)" using d(6) ok(2) by simp
      moreover have "unat (m_uCount ?b1) \<noteq> unat cnt" using False by (metis word_unat_eq_iff)
      ultimately show ?thesis using cnt1 by simp
    qed
    then have lt: "m_uCount ?b1 < cnt" by (simp add: word_less_nat_alt)
    have "delete_all (m_FreeBufs ?b1) ?b1 = Some (?b1\<lparr>blocks := blocks ?b1 - set (m_FreeBufs ?b1),
        vbufs := (vbufs ?b1) |` (- set (m_FreeBufs ?b1))\<rparr>)"
      by (rule delete_all_ok) (use e(2,3) in blast)+
    moreover have "(vbufs ?b1) |` (- set (m_FreeBufs ?b1)) = Map.empty"
      using d(4) ok(2) by (auto simp: restrict_map_def fun_eq_iff)
    ultimately have da: "delete_all (m_FreeBufs ?b1) ?b1 =
        Some (?b1\<lparr>blocks := heap, vbufs := Map.empty\<rparr>)" using ok(3) by simp
    have "?b1\<lparr>blocks := heap, vbufs := Map.empty, m_FreeBufs := []\<rparr> =
        (new_gpubuf heap)\<lparr>m_uCount := m_uCount ?b1\<rparr>"
      using ok(2) by (cases ?b1) (simp add: new_gpubuf_def)
    then have "gpubuf_init alloc cnt ?b0 =
        Some (0 < m_uCount ?b1, (new_gpubuf heap)\<lparr>m_uCount := m_uCount ?b1\<rparr>)"
      using False e0 da by (simp add: gpubuf_init_def Let_def)
    then show ?thesis using lt by blast
  qed
qed

text \<open>(buffer pool, Init) With an allocator that never returns a block already in use,
  Init of a new pool has two outcomes.  All \<open>cnt\<close> buffers are allocated: the pool then
  holds exactly these, none of them in use, and the result is TRUE if there is one.  Or
  some allocation fails: everything allocated so far is given back, but the count of
  buffers keeps the number that had been allocated and is what the result is computed
  from, so after at least one success Init still answers TRUE, with an empty pool.\<close>
theorem gpubuf_init_outcome:
  assumes "fresh_allocator alloc" "0 \<notin> heap"
    and "gpubuf_init alloc cnt (new_gpubuf heap) = Some (ok, b)"
  shows "ok = (0 < m_uCount b) \<and>
    (if m_uCount b = cnt
     then gpubuf_inv b \<and> length (m_FreeBufs b) = unat cnt \<and> m_InUseBufs b = [] \<and>
       blocks b - set (m_FreeBufs b) = heap
     else m_uCount b < cnt \<and> m_FreeBufs b = [] \<and> m_InUseBufs b = [] \<and> blocks b = heap)"
  using gpubuf_init_cases [OF assms(1,2), of cnt]
proof (elim disjE exE conjE)
  fix b' assume *: "gpubuf_init alloc cnt (new_gpubuf heap) = Some (0 < cnt, b')" "gpubuf_inv b'"
    "length (m_FreeBufs b') = unat cnt" "m_InUseBufs b' = []" "blocks b' - set (m_FreeBufs b') = heap"
  then have "unat (m_uCount b') = unat cnt" using gpubuf_invD(6) [OF *(2)] by simp
  then have "m_uCount b' = cnt" by (simp add: word_unat_eq_iff)
  then show ?thesis using * assms(3) by simp
next
  fix n assume "n < cnt" "gpubuf_init alloc cnt (new_gpubuf heap) = Some (0 < n, (new_gpubuf heap)\<lparr>m_uCount := n\<rparr>)"
  then show ?thesis using assms(3) by (auto simp: new_gpubuf_def)
qed

definition two_blocks :: allocator where
  "two_blocks h n = (if 4096 \<notin> h then 4096 else if 8192 \<notin> h then 8192 else 0)"

lemma two_blocks_fresh: "fresh_allocator two_blocks"
  by (simp add: fresh_allocator_def two_blocks_def)

theorem gpubuf_init_outcome_witness:
  "gpubuf_init two_blocks 3 (new_gpubuf {}) = Some (True, (new_gpubuf {})\<lparr>m_uCount := 2\<rparr>) \<and>
   m_FreeBufs ((new_gpubuf {})\<lparr>m_uCount := 2\<rparr>) = []"
proof -
  have e: "gpubuf_init two_blocks 3 (new_gpubuf {}) = Some (True, (new_gpubuf {})\<lparr>m_uCount := 2\<rparr>)"
  proof -
    have u: "unat (3 :: u32) = Suc (Suc (Suc 0))" by simp
    show ?thesis unfolding gpubuf_init_def u
      by (simp add: new_gpubuf_def two_blocks_def Let_def delete_vbuf_def delete_block_def fun_upd_def)
        (auto simp: fun_eq_iff)
  qed
  with gpubuf_init_outcome [OF two_blocks_fresh _ e] show ?thesis by simp
qed


text \<open>C15: (buffer pool, exclusive ownership) From a pool in which Init allocated all
  \<open>cnt\<close> buffers, in any run in which clients take buffers and give back buffers they
  hold, no buffer is ever held twice, none held is also free, none is lost: the buffers
  held and the free ones are together always \<open>cnt\<close>.  Every buffer held can be given
  back: the call returns and undefined behaviour does not occur.\<close>
theorem gpubuf_run_exclusive:
  assumes "fresh_allocator alloc" "0 \<notin> heap"
    and "gpubuf_init alloc cnt (new_gpubuf heap) = Some (ok, b0)" "m_uCount b0 = cnt"
    and "pool_run pool_get free_vbuf pool_okarg b0 held b"
  shows "gpubuf_inv b \<and> (\<forall>x. count held x \<le> 1) \<and> set_mset held \<inter> set (m_FreeBufs b) = {} \<and>
    size held + length (m_FreeBufs b) = unat cnt \<and>
    (\<forall>x. (free_vbuf x b \<noteq> None) = (x \<in># held))"
proof -
  have "gpubuf_inv b0" "length (m_FreeBufs b0) = unat cnt" "m_InUseBufs b0 = []"
    using gpubuf_init_cases [OF assms(1,2), of cnt] assms(3,4) by auto
  then have i: "gpubuf_inv b0" "m_InUseBufs b0 = []" "length (m_FreeBufs b0) = unat cnt" by auto
  have r: "gpubuf_inv b" "mset (m_InUseBufs b) = held" using gb.run_ok [OF assms(5) i(1,2)] by auto
  have "(free_vbuf x b \<noteq> None) = (x \<in># held)" for x
  proof -
    have "x \<in># held \<longleftrightarrow> x \<in> set (m_InUseBufs b)" using r(2) by auto
    then show ?thesis using gb.give_total [OF r(1), of x] free_vbuf_not_in_use [OF r(1), of x]
      by (cases "x \<in> set (m_InUseBufs b)") auto
  qed
  then show ?thesis using gb.run_exclusive [OF assms(5) i(1,2)] r i(3) by auto
qed

text \<open>(buffer pool, GetBuf) A taken buffer is the first free one, zeroed, with room for
  the command behind the header; a response of at most 24 bytes lands behind the command,
  and for a command of at most 96 bytes both areas lie inside the block; a longer response
  goes to the caller's block.\<close>
theorem get_vbuf_layout:
  assumes "gpubuf_inv b" "m_FreeBufs b = p # ps" "resp_arg_ok b rsize rbuf"
  shows "\<exists>b'. get_vbuf sz rsize rbuf b = Some (p, b') \<and> gpubuf_inv b' \<and>
    m_FreeBufs b' = ps \<and> m_InUseBufs b' = m_InUseBufs b @ [p] \<and> blocks b' = blocks b \<and>
    vbufs b' p = Some (fresh_vbuf p sz rsize rbuf) \<and>
    (sz \<le> MAX_INLINE_CMD_SIZE \<and> rsize \<le> MAX_INLINE_RESP_SIZE \<longrightarrow>
       vb_buf (fresh_vbuf p sz rsize rbuf) - p = SIZEOF_GPU_VBUFFER \<and>
       resp_buf (fresh_vbuf p sz rsize rbuf) - p = SIZEOF_GPU_VBUFFER + ucast sz \<and>
       resp_buf (fresh_vbuf p sz rsize rbuf) - p + ucast rsize \<le> VBUFFER_SIZE) \<and>
    (24 < sint rsize \<longrightarrow> resp_buf (fresh_vbuf p sz rsize rbuf) = rbuf)"
proof -
  have "resp_buf (fresh_vbuf p sz rsize rbuf) - p = SIZEOF_GPU_VBUFFER + ucast sz \<and>
      SIZEOF_GPU_VBUFFER + ucast sz + ucast rsize \<le> VBUFFER_SIZE"
    if "sz \<le> MAX_INLINE_CMD_SIZE" "rsize \<le> MAX_INLINE_RESP_SIZE"
  proof -
    from that have u: "unat sz \<le> 96" "unat rsize \<le> 24"
      by (simp_all add: word_le_nat_alt MAX_INLINE_CMD_SIZE_def MAX_INLINE_RESP_SIZE_def)
    have s1: "sint rsize = int (unat rsize)" and s2: "sint sz = uint sz"
      using u sint_small [of rsize] sint_small [of sz] by simp_all
    have s3: "int (unat rsize) \<le> int 24" using u(2) by (simp only: of_nat_le_iff)
    have s: "sint rsize \<le> sint MAX_INLINE_RESP_SIZE" "(scast sz :: u64) = ucast sz"
      using s3 unfolding s1 MAX_INLINE_RESP_SIZE_def scast_eq ucast_eq s2 by simp_all
    have "unat (SIZEOF_GPU_VBUFFER + ucast sz + ucast rsize) = 72 + unat sz + unat rsize"
      using u by (simp add: SIZEOF_GPU_VBUFFER_def unat_word_ariths unat_ucast_u32_u64)
    then show ?thesis
      using s u by (simp add: fresh_vbuf_def word_le_nat_alt VBUFFER_SIZE_def MAX_INLINE_CMD_SIZE_def
          MAX_INLINE_RESP_SIZE_def SIZEOF_GPU_VBUFFER_def)
  qed
  moreover have "24 < sint rsize \<longrightarrow> resp_buf (fresh_vbuf p sz rsize rbuf) = rbuf"
    by (simp add: fresh_vbuf_def MAX_INLINE_RESP_SIZE_def)
  ultimately show ?thesis
    using get_vbuf_ok [OF assms, of sz] by (auto simp: fresh_vbuf_def)
qed

text \<open>(buffer pool, FreeBuf) Giving back a buffer in use deletes exactly the blocks it
  owns, a response longer than 24 bytes and the data of a command, and makes it the last
  free buffer; a buffer that is not in use can not be given back (a second time): the walk
  through the in-use list never ends, with the spin lock held.  Close then returns every
  buffer block to the heap; the payloads of buffers still in use stay allocated.\<close>
theorem free_vbuf_and_close:
  assumes "gpubuf_inv b" "p \<in> set (m_InUseBufs b)"
  shows "\<exists>b'. free_vbuf p b = Some b' \<and> gpubuf_inv b' \<and>
    m_FreeBufs b' = m_FreeBufs b @ [p] \<and> m_InUseBufs b' = remove1 p (m_InUseBufs b) \<and>
    blocks b' = blocks b - set (owned_at b p) \<and> owned_at b' p = [] \<and>
    free_vbuf p b' = None \<and>
    gpubuf_close b' = Some (new_gpubuf (blocks b' - set (m_FreeBufs b') - set (m_InUseBufs b')))"
proof -
  obtain b' where b': "free_vbuf p b = Some b'" "gpubuf_inv b'"
    "m_FreeBufs b' = m_FreeBufs b @ [p]" "m_InUseBufs b' = remove1 p (m_InUseBufs b)"
    "blocks b' = blocks b - set (owned_at b p)"
    using free_vbuf_ok [OF assms] by simp
  have "p \<notin> set (m_InUseBufs b')" using b'(4) gpubuf_inv_elem(4) [OF assms(1)] by simp
  moreover have "owned_at b' p = []" using gpubuf_invD(5) [OF b'(2), of p] b'(3) by simp
  ultimately show ?thesis
    using b' free_vbuf_not_in_use [OF b'(2)] gpubuf_close_ok [OF b'(2)] by blast
qed


section \<open>Witnesses\<close>

definition demo_pool :: gpubuf where
  "demo_pool = \<lparr>m_FreeBufs = [4096, 8192], m_InUseBufs = [], m_uCount = 2,
     vbufs = Map.empty(4096 \<mapsto> zero_vbuffer, 8192 \<mapsto> zero_vbuffer), blocks = {4096, 8192, 12288}\<rparr>"

definition demo_taken :: gpubuf where
  "demo_taken = demo_pool\<lparr>m_FreeBufs := [8192], m_InUseBufs := [4096],
     vbufs := (vbufs demo_pool)(4096 \<mapsto> fresh_vbuf 4096 32 1056 12288)\<rparr>"

lemma demo_pool_init: "gpubuf_init two_blocks 2 (new_gpubuf {12288}) = Some (True, demo_pool)"
proof -
  have u: "unat (2 :: u32) = Suc (Suc 0)" by simp
  show ?thesis unfolding gpubuf_init_def u
    by (simp add: new_gpubuf_def two_blocks_def Let_def demo_pool_def insert_commute)
qed

lemma demo_pool_inv: "gpubuf_inv demo_pool"
  by (simp add: gpubuf_inv_def demo_pool_def pool_blocks_def owned_at_def owned_def zero_vbuffer_def
      large_resp_def has_data_def insert_commute)

lemma demo_arg: "resp_arg_ok demo_pool 1056 12288"
  by (simp add: resp_arg_ok_def demo_pool_def pool_blocks_def)

lemma demo_get: "get_vbuf 32 1056 12288 demo_pool = Some (4096, demo_taken)" "gpubuf_inv demo_taken"
  using get_vbuf_ok [OF demo_pool_inv _ demo_arg, of 4096 "[8192]" 32]
  by (simp_all add: demo_taken_def demo_pool_def)

theorem gpubuf_run_exclusive_witness:
  "pool_run pool_get free_vbuf pool_okarg demo_pool {#4096#} demo_taken \<and>
   free_vbuf 4096 demo_taken \<noteq> None \<and> free_vbuf 8192 demo_taken = None"
proof -
  have g: "pool_okarg demo_pool (32, 1056, 12288)"
      "pool_get demo_pool (32, 1056, 12288) = Some (Some 4096, demo_taken)"
    by (simp_all add: pool_okarg_def demo_arg pool_get_def demo_get)
  have r: "pool_run pool_get free_vbuf pool_okarg demo_pool {#4096#} demo_taken"
    using pool_run.get [of pool_get free_vbuf pool_okarg, OF pool_run.start g] by simp
  have "m_uCount demo_pool = 2" by (simp add: demo_pool_def)
  from gpubuf_run_exclusive [OF two_blocks_fresh _ demo_pool_init this r]
  have "(free_vbuf 4096 demo_taken \<noteq> None) = (4096 \<in># {#4096#})"
    "(free_vbuf 8192 demo_taken \<noteq> None) = (8192 \<in># {#4096 :: u64#})" by auto
  then show ?thesis using r by simp
qed

theorem get_vbuf_layout_witness:
  "\<exists>b'. get_vbuf 32 1056 12288 demo_pool = Some (4096, b') \<and>
    vbufs b' 4096 = Some (fresh_vbuf 4096 32 1056 12288)"
  using get_vbuf_layout [OF demo_pool_inv _ demo_arg, of 4096 "[8192]" 32]
  by (auto simp: demo_pool_def)

theorem free_vbuf_and_close_witness:
  "\<exists>b'. free_vbuf 4096 demo_taken = Some b' \<and> m_FreeBufs b' = [8192, 4096] \<and>
    blocks b' = {4096, 8192} \<and> free_vbuf 4096 b' = None"
  using free_vbuf_and_close [OF demo_get(2), of 4096]
  by (auto simp: demo_taken_def demo_pool_def owned_at_def owned_fresh_vbuf MAX_INLINE_RESP_SIZE_def)

end
