(* ===== verification/GpuCmd.thy ===== *)
theory GpuCmd
  imports Prelude
begin

text \<open>
  The commands and responses of \<^verbatim>\<open>src/IntelVirtDisplayKMD/viogpu.h\<close>: the packed structures
  shared with the device as records, and the bytes they occupy in the guest's memory
  (little endian, \<^verbatim>\<open>#pragma pack(1)\<close>).  \<^verbatim>\<open>decode_cmd\<close> is the reader's side: it selects the
  structure by the type field of the header.
\<close>

section \<open>Constants\<close>

definition VIRTIO_GPU_CMD_GET_DISPLAY_INFO :: u32 where "VIRTIO_GPU_CMD_GET_DISPLAY_INFO = 0x100"
definition VIRTIO_GPU_CMD_RESOURCE_CREATE_2D :: u32 where "VIRTIO_GPU_CMD_RESOURCE_CREATE_2D = 0x101"
definition VIRTIO_GPU_CMD_RESOURCE_UNREF :: u32 where "VIRTIO_GPU_CMD_RESOURCE_UNREF = 0x102"
definition VIRTIO_GPU_CMD_SET_SCANOUT :: u32 where "VIRTIO_GPU_CMD_SET_SCANOUT = 0x103"
definition VIRTIO_GPU_CMD_RESOURCE_FLUSH :: u32 where "VIRTIO_GPU_CMD_RESOURCE_FLUSH = 0x104"
definition VIRTIO_GPU_CMD_TRANSFER_TO_HOST_2D :: u32 where "VIRTIO_GPU_CMD_TRANSFER_TO_HOST_2D = 0x105"
definition VIRTIO_GPU_CMD_RESOURCE_ATTACH_BACKING :: u32 where "VIRTIO_GPU_CMD_RESOURCE_ATTACH_BACKING = 0x106"
definition VIRTIO_GPU_CMD_RESOURCE_DETACH_BACKING :: u32 where "VIRTIO_GPU_CMD_RESOURCE_DETACH_BACKING = 0x107"
definition VIRTIO_GPU_CMD_GET_EDID :: u32 where "VIRTIO_GPU_CMD_GET_EDID = 0x10A"
definition VIRTIO_GPU_CMD_RESOURCE_CREATE_BLOB :: u32 where "VIRTIO_GPU_CMD_RESOURCE_CREATE_BLOB = 0x10C"
definition VIRTIO_GPU_CMD_SET_SCANOUT_BLOB :: u32 where "VIRTIO_GPU_CMD_SET_SCANOUT_BLOB = 0x10D"
definition VIRTIO_GPU_CMD_UPDATE_CURSOR :: u32 where "VIRTIO_GPU_CMD_UPDATE_CURSOR = 0x300"
definition VIRTIO_GPU_CMD_MOVE_CURSOR :: u32 where "VIRTIO_GPU_CMD_MOVE_CURSOR = 0x301"
definition VIRTIO_GPU_RESP_OK_NODATA :: u32 where "VIRTIO_GPU_RESP_OK_NODATA = 0x1100"
definition VIRTIO_GPU_RESP_OK_DISPLAY_INFO :: u32 where "VIRTIO_GPU_RESP_OK_DISPLAY_INFO = 0x1101"
definition VIRTIO_GPU_RESP_OK_EDID :: u32 where "VIRTIO_GPU_RESP_OK_EDID = 0x1104"

lemmas gpu_type_defs =
  VIRTIO_GPU_CMD_GET_DISPLAY_INFO_def VIRTIO_GPU_CMD_RESOURCE_CREATE_2D_def
  VIRTIO_GPU_CMD_RESOURCE_UNREF_def VIRTIO_GPU_CMD_SET_SCANOUT_def VIRTIO_GPU_CMD_RESOURCE_FLUSH_def
  VIRTIO_GPU_CMD_TRANSFER_TO_HOST_2D_def VIRTIO_GPU_CMD_RESOURCE_ATTACH_BACKING_def
  VIRTIO_GPU_CMD_RESOURCE_DETACH_BACKING_def VIRTIO_GPU_CMD_GET_EDID_def
  VIRTIO_GPU_CMD_RESOURCE_CREATE_BLOB_def VIRTIO_GPU_CMD_SET_SCANOUT_BLOB_def
  VIRTIO_GPU_CMD_UPDATE_CURSOR_def VIRTIO_GPU_CMD_MOVE_CURSOR_def

definition VIRTIO_GPU_FLAG_FENCE :: u32 where "VIRTIO_GPU_FLAG_FENCE = 1"
definition VIRTIO_GPU_BLOB_MEM_GUEST :: u32 where "VIRTIO_GPU_BLOB_MEM_GUEST = 1"
definition VIRTIO_GPU_BLOB_FLAG_USE_SHAREABLE :: u32 where "VIRTIO_GPU_BLOB_FLAG_USE_SHAREABLE = 2"
definition VIRTIO_GPU_FORMAT_B8G8R8A8_UNORM :: u32 where "VIRTIO_GPU_FORMAT_B8G8R8A8_UNORM = 1"
definition VIRTIO_GPU_FORMAT_B8G8R8X8_UNORM :: u32 where "VIRTIO_GPU_FORMAT_B8G8R8X8_UNORM = 2"
definition VIRTIO_GPU_FORMAT_R8G8B8A8_UNORM :: u32 where "VIRTIO_GPU_FORMAT_R8G8B8A8_UNORM = 67"
definition VIRTIO_GPU_FORMAT_R8G8B8X8_UNORM :: u32 where "VIRTIO_GPU_FORMAT_R8G8B8X8_UNORM = 134"
definition VIRTIO_GPU_MAX_SCANOUTS :: nat where "VIRTIO_GPU_MAX_SCANOUTS = 16"
definition MAX_SCAN_OUT :: u32 where "MAX_SCAN_OUT = 4"
definition EDID_V1_BLOCK_SIZE :: nat where "EDID_V1_BLOCK_SIZE = 256"

section \<open>Structures\<close>

record gpu_rect =
  r_x :: u32
  r_y :: u32
  r_width :: u32
  r_height :: u32

record gpu_ctrl_hdr =
  h_type :: u32
  h_flags :: u32
  h_fence_id :: u64
  h_ctx_id :: u32
  h_padding :: u32

record gpu_res_create_2d =
  c2_resource_id :: u32
  c2_format :: u32
  c2_width :: u32
  c2_height :: u32

record gpu_res_create_blob =
  cb_resource_id :: u32
  cb_blob_mem :: u32
  cb_blob_flags :: u32
  cb_nr_entries :: u32
  cb_blob_id :: u64
  cb_size :: u64

record gpu_set_scanout =
  ss_r :: gpu_rect
  ss_scanout_id :: u32
  ss_resource_id :: u32

record gpu_set_scanout_blob =
  sb_r :: gpu_rect
  sb_scanout_id :: u32
  sb_resource_id :: u32
  sb_width :: u32
  sb_height :: u32
  sb_format :: u32
  sb_padding :: u32
  sb_strides :: "u32 list"
  sb_offsets :: "u32 list"

record gpu_res_flush =
  rf_r :: gpu_rect
  rf_resource_id :: u32
  rf_padding :: u32

record gpu_transfer_to_host_2d =
  tr_r :: gpu_rect
  tr_offset :: u64
  tr_resource_id :: u32
  tr_padding :: u32

record gpu_cursor_pos =
  cp_scanout_id :: u32
  cp_x :: u32
  cp_y :: u32
  cp_padding :: u32

record gpu_update_cursor =
  uc_pos :: gpu_cursor_pos
  uc_resource_id :: u32
  uc_hot_x :: u32
  uc_hot_y :: u32
  uc_padding :: u32

record gpu_mem_entry =
  me_addr :: u64
  me_length :: u32
  me_padding :: u32

record gpu_display_one =
  d_r :: gpu_rect
  d_enabled :: u32
  d_flags' :: u32

text \<open>A command is its header and the rest of its structure; \<open>ResId\<close> is the structure of
  UNREF and of DETACH_BACKING, \<open>GetEdid\<close> carries the scanout.\<close>
datatype gpu_body =
    NoBody
  | ResId u32 u32
  | Create2D gpu_res_create_2d
  | CreateBlob gpu_res_create_blob
  | SetScanout gpu_set_scanout
  | SetScanoutBlob gpu_set_scanout_blob
  | ResFlush gpu_res_flush
  | Transfer2D gpu_transfer_to_host_2d
  | AttachBacking u32 u32
  | GetEdid u32 u32
  | UpdateCursor gpu_update_cursor

record gpu_cmd =
  cmd_hdr :: gpu_ctrl_hdr
  cmd_body :: gpu_body

section \<open>Bytes\<close>

text \<open>Little-endian bytes.\<close>

definition le_bytes :: "nat \<Rightarrow> 'a::len word \<Rightarrow> u8 list" where
  "le_bytes n w = map (\<lambda>i. ucast (drop_bit (8 * i) w)) [0..<n]"

definition rd_bytes :: "u8 list \<Rightarrow> 'a::len word" where
  "rd_bytes bs = foldr (\<lambda>b acc. ucast b OR push_bit 8 acc) bs 0"

lemma length_le_bytes [simp]: "length (le_bytes n w) = n"
  by (simp add: le_bytes_def)

lemma byte_cons:
  fixes w :: "'a::len word"
  assumes "8 \<le> LENGTH('a)"
  shows "ucast (ucast w :: u8) OR push_bit 8 (drop_bit 8 w) = w"
proof (rule bit_word_eqI)
  fix n assume "n < LENGTH('a)"
  then show "bit (ucast (ucast w :: u8) OR push_bit 8 (drop_bit 8 w)) n = bit w n"
    by (cases "n < 8") (auto simp: bit_simps)
qed

lemma rd_le_bytes:
  fixes w :: "'a::len word"
  assumes "8 \<le> LENGTH('a)"
  shows "rd_bytes (le_bytes n w) = take_bit (8 * n) w"
proof (induction n arbitrary: w)
  case 0
  show ?case by (simp add: rd_bytes_def le_bytes_def)
next
  case (Suc n)
  have "le_bytes (Suc n) w = ucast w # le_bytes n (drop_bit 8 w)"
    by (simp add: le_bytes_def upt_rec [of 0] map_Suc_upt [symmetric] del: upt_Suc) (simp add: add.commute)
  then have "rd_bytes (le_bytes (Suc n) w) = ucast (ucast w :: u8) OR push_bit 8 (take_bit (8 * n) (drop_bit 8 w))"
    using Suc.IH [of "drop_bit 8 w"] by (simp add: rd_bytes_def)
  also have "\<dots> = take_bit (8 * Suc n) (ucast (ucast w :: u8) OR push_bit 8 (drop_bit 8 w))"
    by (rule bit_word_eqI) (auto simp: bit_simps)
  also have "\<dots> = take_bit (8 * Suc n) w" using byte_cons [OF assms] by simp
  finally show ?case .
qed


text \<open>The fields of a structure in their order, each with its width.\<close>
datatype wfield = W32 u32 | W64 u64

fun field_bytes :: "wfield \<Rightarrow> u8 list" where
  "field_bytes (W32 w) = le_bytes 4 w"
| "field_bytes (W64 w) = le_bytes 8 w"

definition struct_bytes :: "wfield list \<Rightarrow> u8 list" where
  "struct_bytes fs = concat (map field_bytes fs)"

definition rect_fields :: "gpu_rect \<Rightarrow> wfield list" where
  "rect_fields r = [W32 (r_x r), W32 (r_y r), W32 (r_width r), W32 (r_height r)]"

definition hdr_fields :: "gpu_ctrl_hdr \<Rightarrow> wfield list" where
  "hdr_fields h = [W32 (h_type h), W32 (h_flags h), W64 (h_fence_id h), W32 (h_ctx_id h), W32 (h_padding h)]"

fun body_fields :: "gpu_body \<Rightarrow> wfield list" where
  "body_fields NoBody = []"
| "body_fields (ResId i p) = [W32 i, W32 p]"
| "body_fields (Create2D c) = [W32 (c2_resource_id c), W32 (c2_format c), W32 (c2_width c), W32 (c2_height c)]"
| "body_fields (CreateBlob c) = [W32 (cb_resource_id c), W32 (cb_blob_mem c), W32 (cb_blob_flags c),
     W32 (cb_nr_entries c), W64 (cb_blob_id c), W64 (cb_size c)]"
| "body_fields (SetScanout c) = rect_fields (ss_r c) @ [W32 (ss_scanout_id c), W32 (ss_resource_id c)]"
| "body_fields (SetScanoutBlob c) = rect_fields (sb_r c) @
     [W32 (sb_scanout_id c), W32 (sb_resource_id c), W32 (sb_width c), W32 (sb_height c),
      W32 (sb_format c), W32 (sb_padding c)] @ map W32 (sb_strides c) @ map W32 (sb_offsets c)"
| "body_fields (ResFlush c) = rect_fields (rf_r c) @ [W32 (rf_resource_id c), W32 (rf_padding c)]"
| "body_fields (Transfer2D c) = rect_fields (tr_r c) @
     [W64 (tr_offset c), W32 (tr_resource_id c), W32 (tr_padding c)]"
| "body_fields (AttachBacking i n) = [W32 i, W32 n]"
| "body_fields (GetEdid s p) = [W32 s, W32 p]"
| "body_fields (UpdateCursor c) = [W32 (cp_scanout_id (uc_pos c)), W32 (cp_x (uc_pos c)),
     W32 (cp_y (uc_pos c)), W32 (cp_padding (uc_pos c)), W32 (uc_resource_id c), W32 (uc_hot_x c),
     W32 (uc_hot_y c), W32 (uc_padding c)]"

definition cmd_bytes :: "gpu_cmd \<Rightarrow> u8 list" where
  "cmd_bytes c = struct_bytes (hdr_fields (cmd_hdr c) @ body_fields (cmd_body c))"

text \<open>\<^verbatim>\<open>sizeof\<close> of the structures.\<close>
definition SIZEOF_GPU_CTRL_HDR :: u32 where "SIZEOF_GPU_CTRL_HDR = 24"

fun sizeof_body :: "gpu_body \<Rightarrow> u32" where
  "sizeof_body NoBody = 0"
| "sizeof_body (ResId i p) = 8"
| "sizeof_body (Create2D c) = 16"
| "sizeof_body (CreateBlob c) = 32"
| "sizeof_body (SetScanout c) = 24"
| "sizeof_body (SetScanoutBlob c) = 72"
| "sizeof_body (ResFlush c) = 24"
| "sizeof_body (Transfer2D c) = 32"
| "sizeof_body (AttachBacking i n) = 8"
| "sizeof_body (GetEdid s p) = 8"
| "sizeof_body (UpdateCursor c) = 32"

definition sizeof_cmd :: "gpu_cmd \<Rightarrow> u32" where
  "sizeof_cmd c = SIZEOF_GPU_CTRL_HDR + sizeof_body (cmd_body c)"

section \<open>Reading\<close>

text \<open>Reads fields of the given widths (True for 64 bits); the bytes must be used up.\<close>
fun read_fields :: "bool list \<Rightarrow> u8 list \<Rightarrow> wfield list option" where
  "read_fields [] bs = (if bs = [] then Some [] else None)"
| "read_fields (wide # ws) bs =
     (let n = (if wide then 8 else 4) in
      if length bs < n then None
      else do {
        fs \<leftarrow> read_fields ws (drop n bs);
        Some ((if wide then W64 (rd_bytes (take n bs)) else W32 (rd_bytes (take n bs))) # fs)
      })"

definition is_wide :: "wfield \<Rightarrow> bool" where
  "is_wide f = (case f of W32 _ \<Rightarrow> False | W64 _ \<Rightarrow> True)"

lemma rd_le32 [simp]: "rd_bytes (le_bytes 4 (w :: u32)) = w"
  by (subst rd_le_bytes) (simp, rule bit_word_eqI, auto simp: bit_simps)

lemma rd_le64 [simp]: "rd_bytes (le_bytes 8 (w :: u64)) = w"
  by (subst rd_le_bytes) (simp, rule bit_word_eqI, auto simp: bit_simps)

lemma read_struct_bytes: "read_fields (map is_wide fs) (struct_bytes fs) = Some fs"
proof (induction fs)
  case Nil
  show ?case by (simp add: struct_bytes_def)
next
  case (Cons f fs)
  then show ?case by (cases f) (simp_all add: struct_bytes_def is_wide_def)
qed


text \<open>The widths of the fields after the header, by type.\<close>
definition body_widths :: "u32 \<Rightarrow> bool list option" where
  "body_widths t =
     (let w = (\<lambda>n. replicate n False) in
      if t = VIRTIO_GPU_CMD_GET_DISPLAY_INFO then Some []
      else if t = VIRTIO_GPU_CMD_RESOURCE_UNREF \<or> t = VIRTIO_GPU_CMD_RESOURCE_DETACH_BACKING
        \<or> t = VIRTIO_GPU_CMD_RESOURCE_ATTACH_BACKING \<or> t = VIRTIO_GPU_CMD_GET_EDID then Some (w 2)
      else if t = VIRTIO_GPU_CMD_RESOURCE_CREATE_2D then Some (w 4)
      else if t = VIRTIO_GPU_CMD_RESOURCE_CREATE_BLOB then Some (w 4 @ [True, True])
      else if t = VIRTIO_GPU_CMD_SET_SCANOUT \<or> t = VIRTIO_GPU_CMD_RESOURCE_FLUSH then Some (w 6)
      else if t = VIRTIO_GPU_CMD_SET_SCANOUT_BLOB then Some (w 18)
      else if t = VIRTIO_GPU_CMD_TRANSFER_TO_HOST_2D then Some (w 4 @ [True, False, False])
      else if t = VIRTIO_GPU_CMD_UPDATE_CURSOR \<or> t = VIRTIO_GPU_CMD_MOVE_CURSOR then Some (w 8)
      else None)"

fun w32 :: "wfield \<Rightarrow> u32" where
  "w32 (W32 x) = x"
| "w32 (W64 x) = ucast x"

fun w64 :: "wfield \<Rightarrow> u64" where
  "w64 (W32 x) = ucast x"
| "w64 (W64 x) = x"

fun rect_of :: "wfield list \<Rightarrow> gpu_rect" where
  "rect_of (a # b # c # d # _) = \<lparr>r_x = w32 a, r_y = w32 b, r_width = w32 c, r_height = w32 d\<rparr>"
| "rect_of _ = \<lparr>r_x = 0, r_y = 0, r_width = 0, r_height = 0\<rparr>"

definition body_of :: "u32 \<Rightarrow> wfield list \<Rightarrow> gpu_body" where
  "body_of t fs =
     (let f = (\<lambda>i. w32 (fs ! i)) in
      if t = VIRTIO_GPU_CMD_GET_DISPLAY_INFO then NoBody
      else if t = VIRTIO_GPU_CMD_RESOURCE_UNREF \<or> t = VIRTIO_GPU_CMD_RESOURCE_DETACH_BACKING
        then ResId (f 0) (f 1)
      else if t = VIRTIO_GPU_CMD_RESOURCE_ATTACH_BACKING then AttachBacking (f 0) (f 1)
      else if t = VIRTIO_GPU_CMD_GET_EDID then GetEdid (f 0) (f 1)
      else if t = VIRTIO_GPU_CMD_RESOURCE_CREATE_2D then
        Create2D \<lparr>c2_resource_id = f 0, c2_format = f 1, c2_width = f 2, c2_height = f 3\<rparr>
      else if t = VIRTIO_GPU_CMD_RESOURCE_CREATE_BLOB then
        CreateBlob \<lparr>cb_resource_id = f 0, cb_blob_mem = f 1, cb_blob_flags = f 2, cb_nr_entries = f 3,
          cb_blob_id = w64 (fs ! 4), cb_size = w64 (fs ! 5)\<rparr>
      else if t = VIRTIO_GPU_CMD_SET_SCANOUT then
        SetScanout \<lparr>ss_r = rect_of fs, ss_scanout_id = f 4, ss_resource_id = f 5\<rparr>
      else if t = VIRTIO_GPU_CMD_RESOURCE_FLUSH then
        ResFlush \<lparr>rf_r = rect_of fs, rf_resource_id = f 4, rf_padding = f 5\<rparr>
      else if t = VIRTIO_GPU_CMD_SET_SCANOUT_BLOB then
        SetScanoutBlob \<lparr>sb_r = rect_of fs, sb_scanout_id = f 4, sb_resource_id = f 5, sb_width = f 6,
          sb_height = f 7, sb_format = f 8, sb_padding = f 9, sb_strides = map f [10..<14],
          sb_offsets = map f [14..<18]\<rparr>
      else if t = VIRTIO_GPU_CMD_TRANSFER_TO_HOST_2D then
        Transfer2D \<lparr>tr_r = rect_of fs, tr_offset = w64 (fs ! 4), tr_resource_id = f 5, tr_padding = f 6\<rparr>
      else UpdateCursor \<lparr>uc_pos = \<lparr>cp_scanout_id = f 0, cp_x = f 1, cp_y = f 2, cp_padding = f 3\<rparr>,
          uc_resource_id = f 4, uc_hot_x = f 5, uc_hot_y = f 6, uc_padding = f 7\<rparr>)"

definition hdr_widths :: "bool list" where
  "hdr_widths = [False, False, True, False, False]"

definition hdr_of :: "wfield list \<Rightarrow> gpu_ctrl_hdr" where
  "hdr_of fs = \<lparr>h_type = w32 (fs ! 0), h_flags = w32 (fs ! 1), h_fence_id = w64 (fs ! 2),
     h_ctx_id = w32 (fs ! 3), h_padding = w32 (fs ! 4)\<rparr>"

definition decode_cmd :: "u8 list \<Rightarrow> gpu_cmd option" where
  "decode_cmd bs = do {
     hf \<leftarrow> read_fields hdr_widths (take 24 bs);
     let h = hdr_of hf;
     ws \<leftarrow> body_widths (h_type h);
     fs \<leftarrow> read_fields ws (drop 24 bs);
     Some \<lparr>cmd_hdr = h, cmd_body = body_of (h_type h) fs\<rparr>
   }"

text \<open>The structure the type announces is the one that follows.\<close>
definition cmd_wf :: "gpu_cmd \<Rightarrow> bool" where
  "cmd_wf c = (let t = h_type (cmd_hdr c) in
     case cmd_body c of
       NoBody \<Rightarrow> t = VIRTIO_GPU_CMD_GET_DISPLAY_INFO
     | ResId _ _ \<Rightarrow> t = VIRTIO_GPU_CMD_RESOURCE_UNREF \<or> t = VIRTIO_GPU_CMD_RESOURCE_DETACH_BACKING
     | Create2D _ \<Rightarrow> t = VIRTIO_GPU_CMD_RESOURCE_CREATE_2D
     | CreateBlob _ \<Rightarrow> t = VIRTIO_GPU_CMD_RESOURCE_CREATE_BLOB
     | SetScanout _ \<Rightarrow> t = VIRTIO_GPU_CMD_SET_SCANOUT
     | SetScanoutBlob b \<Rightarrow> t = VIRTIO_GPU_CMD_SET_SCANOUT_BLOB \<and>
         length (sb_strides b) = 4 \<and> length (sb_offsets b) = 4
     | ResFlush _ \<Rightarrow> t = VIRTIO_GPU_CMD_RESOURCE_FLUSH
     | Transfer2D _ \<Rightarrow> t = VIRTIO_GPU_CMD_TRANSFER_TO_HOST_2D
     | AttachBacking _ _ \<Rightarrow> t = VIRTIO_GPU_CMD_RESOURCE_ATTACH_BACKING
     | GetEdid _ _ \<Rightarrow> t = VIRTIO_GPU_CMD_GET_EDID
     | UpdateCursor _ \<Rightarrow> t = VIRTIO_GPU_CMD_UPDATE_CURSOR \<or> t = VIRTIO_GPU_CMD_MOVE_CURSOR)"

section \<open>Round trip\<close>

lemma length_field_bytes [simp]: "length (field_bytes f) = (if is_wide f then 8 else 4)"
  by (cases f) (simp_all add: is_wide_def)

lemma length_struct_bytes:
  "length (struct_bytes fs) = sum_list (map (\<lambda>f. if is_wide f then 8 else 4) fs)"
  by (simp add: struct_bytes_def length_concat comp_def)

lemma is_wide_simps [simp]: "is_wide (W32 x) = False" "is_wide (W64 y) = True"
  by (simp_all add: is_wide_def)

lemma length_hdr_bytes [simp]: "length (struct_bytes (hdr_fields h)) = 24"
  by (simp add: length_struct_bytes hdr_fields_def)

lemma struct_bytes_append: "struct_bytes (fs @ gs) = struct_bytes fs @ struct_bytes gs"
  by (simp add: struct_bytes_def)

lemma length4: "length xs = 4 \<Longrightarrow> \<exists>a b c d. xs = [a, b, c, d]"
  by (auto simp: numeral_eq_Suc length_Suc_conv)

lemma length_cmd_bytes: "cmd_wf c \<Longrightarrow> length (cmd_bytes c) = unat (sizeof_cmd c)"
  by (cases "cmd_body c")
    (simp_all add: cmd_bytes_def struct_bytes_append length_struct_bytes hdr_fields_def rect_fields_def
      sizeof_cmd_def SIZEOF_GPU_CTRL_HDR_def cmd_wf_def Let_def comp_def sum_list_triv)

lemma replicate_widths:
  "replicate 2 False = [False, False]"
  "replicate 4 False = [False, False, False, False]"
  "replicate 6 False = [False, False, False, False, False, False]"
  "replicate 8 False = [False, False, False, False, False, False, False, False]"
  "replicate 18 False = [False, False, False, False, False, False, False, False, False, False, False, False, False, False, False, False, False, False]"
  by (simp_all add: numeral_eq_Suc)

lemma widths_of_body:
  "cmd_wf c \<Longrightarrow> body_widths (h_type (cmd_hdr c)) = Some (map is_wide (body_fields (cmd_body c)))"
proof (cases "cmd_body c")
  case (SetScanoutBlob b)
  moreover assume "cmd_wf c"
  ultimately have t: "h_type (cmd_hdr c) = VIRTIO_GPU_CMD_SET_SCANOUT_BLOB" "length (sb_strides b) = 4"
      "length (sb_offsets b) = 4" by (simp_all add: cmd_wf_def Let_def)
  obtain s0 s1 s2 s3 where s: "sb_strides b = [s0, s1, s2, s3]" using length4 [OF t(2)] by blast
  obtain o0 o1 o2 o3 where o: "sb_offsets b = [o0, o1, o2, o3]" using length4 [OF t(3)] by blast
  show ?thesis using SetScanoutBlob t(1) s o
    by (simp add: body_widths_def gpu_type_defs rect_fields_def Let_def replicate_widths)
qed (auto simp: cmd_wf_def body_widths_def gpu_type_defs rect_fields_def Let_def replicate_widths)

lemma body_of_fields:
  "cmd_wf c \<Longrightarrow> body_of (h_type (cmd_hdr c)) (body_fields (cmd_body c)) = cmd_body c"
proof (cases "cmd_body c")
  case (SetScanoutBlob b)
  moreover assume "cmd_wf c"
  ultimately have t: "h_type (cmd_hdr c) = VIRTIO_GPU_CMD_SET_SCANOUT_BLOB" "length (sb_strides b) = 4"
      "length (sb_offsets b) = 4" by (simp_all add: cmd_wf_def Let_def)
  obtain s0 s1 s2 s3 where s: "sb_strides b = [s0, s1, s2, s3]" using length4 [OF t(2)] by blast
  obtain o0 o1 o2 o3 where o: "sb_offsets b = [o0, o1, o2, o3]" using length4 [OF t(3)] by blast
  show ?thesis using SetScanoutBlob t(1) s o
    by (cases b) (simp add: body_of_def gpu_type_defs rect_fields_def Let_def upt_rec)
qed (auto simp: cmd_wf_def body_of_def gpu_type_defs rect_fields_def Let_def)

lemma decode_cmd_bytes:
  assumes "cmd_wf c"
  shows "decode_cmd (cmd_bytes c) = Some c"
proof -
  have h: "read_fields hdr_widths (struct_bytes (hdr_fields (cmd_hdr c))) = Some (hdr_fields (cmd_hdr c))"
    using read_struct_bytes [of "hdr_fields (cmd_hdr c)"] by (simp add: hdr_fields_def hdr_widths_def)
  have "hdr_of (hdr_fields (cmd_hdr c)) = cmd_hdr c" by (simp add: hdr_of_def hdr_fields_def)
  then show ?thesis
    using h assms
    by (simp add: decode_cmd_def cmd_bytes_def struct_bytes_append widths_of_body body_of_fields
        read_struct_bytes)
qed

text \<open>C12: (commands, wire format) Every well-formed command occupies exactly the number of
  bytes of its structure, at most the 96 bytes the command buffers reserve for it, and a
  reader that selects the structure by the type field gets back every field.\<close>
theorem cmd_bytes_roundtrip:
  assumes "cmd_wf c"
  shows "decode_cmd (cmd_bytes c) = Some c \<and> length (cmd_bytes c) = unat (sizeof_cmd c) \<and>
    length (cmd_bytes c) \<le> 96"
proof -
  have "unat (sizeof_cmd c) \<le> 96"
    by (cases "cmd_body c") (simp_all add: sizeof_cmd_def SIZEOF_GPU_CTRL_HDR_def)
  then show ?thesis using length_cmd_bytes [OF assms] decode_cmd_bytes [OF assms] by simp
qed

theorem cmd_bytes_roundtrip_witness:
  "decode_cmd (cmd_bytes \<lparr>cmd_hdr = \<lparr>h_type = 0x102, h_flags = 0, h_fence_id = 0, h_ctx_id = 0, h_padding = 0\<rparr>,
     cmd_body = ResId 7 0\<rparr>) =
   Some \<lparr>cmd_hdr = \<lparr>h_type = 0x102, h_flags = 0, h_fence_id = 0, h_ctx_id = 0, h_padding = 0\<rparr>,
     cmd_body = ResId 7 0\<rparr>"
  by (rule conjunct1 [OF cmd_bytes_roundtrip]) (simp add: cmd_wf_def gpu_type_defs Let_def)

end
