(* ===== verification/GpuQueue.thy ===== *)
theory GpuQueue
  imports GpuBuf GpuCmd VirtioSplitSys
begin

text \<open>
  The queues of \<^verbatim>\<open>src/IntelVirtDisplayKMD/viogpu_queue.cpp\<close> (classes \<^verbatim>\<open>VioGpuQueue\<close>,
  \<^verbatim>\<open>CtrlQueue\<close>, \<^verbatim>\<open>CrsrQueue\<close>): how a command buffer becomes a list of physical pages on a
  ring, and the commands.  The code reaches the ring through function pointers, so the
  operations here take them as arguments; the split and the packed ring are the two
  instances.  The virtual memory of the kernel (\<^verbatim>\<open>MmIsAddressValid\<close>,
  \<^verbatim>\<open>MmGetPhysicalAddress\<close>) is the parameter \<^verbatim>\<open>mm\<close>.
\<close>

section \<open>State\<close>

record mm =
  addr_valid :: "u64 \<Rightarrow> bool"
  phys_addr :: "u64 \<Rightarrow> u64"

text \<open>The function pointers of \<^verbatim>\<open>struct virtqueue\<close> the driver calls.\<close>
record 'q vq_ops =
  vq_add :: "'q \<Rightarrow> scatterlist list \<Rightarrow> u32 \<Rightarrow> u32 \<Rightarrow> u64 \<Rightarrow> (int \<times> 'q) option"
  vq_get :: "'q \<Rightarrow> (u64 option \<times> 'q) option"
  vq_kick :: "'q \<Rightarrow> 'q"

text \<open>A queue over its ring, the pool it takes buffers from, and what the driver has written to the
  command area of each buffer.\<close>
record 'q gpuq =
  ring :: 'q
  pool :: gpubuf
  cmds :: "u64 \<Rightarrow> gpu_cmd option"

definition SGLIST_SIZE :: nat where "SGLIST_SIZE = 64"

section \<open>Scatter lists\<close>

text \<open>\<^verbatim>\<open>BuildSGElement\<close>; None stands for FALSE.\<close>
definition build_sg_element :: "mm \<Rightarrow> u64 \<Rightarrow> u32 \<Rightarrow> scatterlist option" where
  "build_sg_element mm buf sz =
     (if sz \<noteq> 0 \<and> addr_valid mm buf
      then Some \<lparr>physAddr = phys_addr mm buf, sg_length = min sz PAGE_SIZE\<rparr> else None)"

text \<open>The loop over the pages of \<^verbatim>\<open>data_buf\<close>.  \<^verbatim>\<open>Some None\<close>: the list is full and
  \<^verbatim>\<open>QueueBuffer\<close> returns.  When \<^verbatim>\<open>BuildSGElement\<close> fails the loop goes round unchanged.\<close>
partial_function (option) queue_data ::
  "mm \<Rightarrow> u64 \<Rightarrow> u32 \<Rightarrow> scatterlist list \<Rightarrow> u32 \<Rightarrow> (scatterlist list \<times> u32) option option" where
  "queue_data mm dbuf dsize sg sgleft =
     (if dsize = 0 then Some (Some (sg, sgleft))
      else case build_sg_element mm dbuf dsize of
        None \<Rightarrow> queue_data mm dbuf dsize sg sgleft
      | Some e \<Rightarrow> do {
          guard_opt (length sg < SGLIST_SIZE);
          if sgleft - 1 = 0 then Some None
          else queue_data mm (dbuf + 4096) (dsize - min dsize PAGE_SIZE) (sg @ [e]) (sgleft - 1)
        })"

definition queue_buffer :: "mm \<Rightarrow> 'q vq_ops \<Rightarrow> 'q gpuq \<Rightarrow> u64 \<Rightarrow> (u32 \<times> 'q gpuq) option" where
  "queue_buffer mm ops q p = do {
     v \<leftarrow> vbufs (pool q) p;
     if sint PAGE_SIZE < sint (vb_size v) then Some (0, q)
     else do {
       let (sg, sgleft) = (case build_sg_element mm (vb_buf v) (vb_size v) of
           Some e \<Rightarrow> ([e], of_nat SGLIST_SIZE - 1) | None \<Rightarrow> ([], of_nat SGLIST_SIZE));
       d \<leftarrow> queue_data mm (data_buf v) (data_size v) sg sgleft;
       case d of
         None \<Rightarrow> Some (0, q)
       | Some (sg1, sgleft1) \<Rightarrow>
           if sint PAGE_SIZE < sint (resp_size v) then Some (0, q)
           else do {
             let outcnt = of_nat (length sg1);
             (sg2, incnt) \<leftarrow> (if resp_size v \<noteq> 0 \<and> 0 < sgleft1 then
                 (case build_sg_element mm (resp_buf v) (resp_size v) of
                    Some e \<Rightarrow> do { guard_opt (length sg1 < SGLIST_SIZE); Some (sg1 @ [e], 1) }
                  | None \<Rightarrow> Some (sg1, 0))
               else Some (sg1, 0));
             (r, ring1) \<leftarrow> vq_add ops (ring q) sg2 outcnt incnt p;
             Some (word_of_int r, q\<lparr>ring := vq_kick ops ring1\<rparr>)
           }
     }
   }"

definition dequeue_buffer :: "'q vq_ops \<Rightarrow> 'q gpuq \<Rightarrow> (u64 \<times> 'q gpuq) option" where
  "dequeue_buffer ops q = do {
     (r, ring1) \<leftarrow> vq_get ops (ring q);
     Some (case r of None \<Rightarrow> 0 | Some p \<Rightarrow> p, q\<lparr>ring := ring1\<rparr>)
   }"

definition release_buffer :: "'q gpuq \<Rightarrow> u64 \<Rightarrow> 'q gpuq option" where
  "release_buffer q p = do { b \<leftarrow> free_vbuf p (pool q); Some (q\<lparr>pool := b\<rparr>) }"

definition queue_cursor :: "mm \<Rightarrow> 'q vq_ops \<Rightarrow> 'q gpuq \<Rightarrow> u64 \<Rightarrow> (u32 \<times> 'q gpuq) option" where
  "queue_cursor mm ops q p = do {
     v \<leftarrow> vbufs (pool q) p;
     let res = 0;
     let sg = (case build_sg_element mm (vb_buf v) (vb_size v) of Some e \<Rightarrow> [e] | None \<Rightarrow> []);
     (r, ring1) \<leftarrow> vq_add ops (ring q) sg (of_nat (length sg)) 0 p;
     Some (res, q\<lparr>ring := vq_kick ops ring1\<rparr>)
   }"

section \<open>Commands\<close>

definition alloc_cmd_resp :: "u32 \<Rightarrow> u64 \<Rightarrow> u32 \<Rightarrow> 'q gpuq \<Rightarrow> (u64 \<times> 'q gpuq) option" where
  "alloc_cmd_resp cmd_sz rbuf resp_sz q = do {
     (p, b) \<leftarrow> get_vbuf cmd_sz resp_sz rbuf (pool q);
     Some (p, q\<lparr>pool := b\<rparr>)
   }"

definition alloc_cmd :: "u32 \<Rightarrow> 'q gpuq \<Rightarrow> (u64 \<times> 'q gpuq) option" where
  "alloc_cmd sz q = alloc_cmd_resp sz 0 SIZEOF_GPU_CTRL_HDR q"

definition alloc_cursor :: "'q gpuq \<Rightarrow> (u64 \<times> 'q gpuq) option" where
  "alloc_cursor q = alloc_cmd_resp 56 0 0 q"

definition zero_hdr :: gpu_ctrl_hdr where
  "zero_hdr = \<lparr>h_type = 0, h_flags = 0, h_fence_id = 0, h_ctx_id = 0, h_padding = 0\<rparr>"

definition set_cmd :: "u64 \<Rightarrow> gpu_cmd \<Rightarrow> 'q gpuq \<Rightarrow> 'q gpuq" where
  "set_cmd p c q = q\<lparr>cmds := (cmds q)(p \<mapsto> c)\<rparr>"

definition set_vbuf :: "u64 \<Rightarrow> (gpu_vbuffer \<Rightarrow> gpu_vbuffer) \<Rightarrow> 'q gpuq \<Rightarrow> 'q gpuq option" where
  "set_vbuf p f q = do { b \<leftarrow> upd_vbuf p f (pool q); Some (q\<lparr>pool := b\<rparr>) }"

text \<open>The pattern of the commands without a reply to wait for: allocate, fill in, attach the
  data, queue; the result of \<^verbatim>\<open>QueueBuffer\<close> is not looked at.\<close>
definition send_cmd ::
  "mm \<Rightarrow> 'q vq_ops \<Rightarrow> gpu_cmd \<Rightarrow> (gpu_vbuffer \<Rightarrow> gpu_vbuffer) \<Rightarrow> 'q gpuq \<Rightarrow> (u64 \<times> 'q gpuq) option" where
  "send_cmd mm ops c f q = do {
     (p, q1) \<leftarrow> alloc_cmd (sizeof_cmd c) q;
     if p = 0 then Some (0, q1)
     else do {
       q2 \<leftarrow> set_vbuf p f (set_cmd p c q1);
       (r, q3) \<leftarrow> queue_buffer mm ops q2 p;
       Some (p, q3)
     }
   }"

definition create_resource_cmd :: "u32 \<Rightarrow> u32 \<Rightarrow> u32 \<Rightarrow> u32 \<Rightarrow> gpu_cmd" where
  "create_resource_cmd res_id fmt w h =
     \<lparr>cmd_hdr = zero_hdr\<lparr>h_type := VIRTIO_GPU_CMD_RESOURCE_CREATE_2D\<rparr>,
      cmd_body = Create2D \<lparr>c2_resource_id = res_id, c2_format = fmt, c2_width = w, c2_height = h\<rparr>\<rparr>"

text \<open>\<^verbatim>\<open>ROUND_TO_PAGES\<close> on 64 bits.\<close>
definition round_to_pages :: "u64 \<Rightarrow> u64" where
  "round_to_pages x = (x + 4095) AND NOT 4095"

definition create_resource_blob_cmd :: "u32 \<Rightarrow> u32 \<Rightarrow> u64 \<Rightarrow> u64 \<Rightarrow> gpu_cmd" where
  "create_resource_blob_cmd res_id nents height stride =
     \<lparr>cmd_hdr = zero_hdr\<lparr>h_type := VIRTIO_GPU_CMD_RESOURCE_CREATE_BLOB\<rparr>,
      cmd_body = CreateBlob \<lparr>cb_resource_id = res_id, cb_blob_mem = VIRTIO_GPU_BLOB_MEM_GUEST,
        cb_blob_flags = VIRTIO_GPU_BLOB_FLAG_USE_SHAREABLE, cb_nr_entries = nents, cb_blob_id = 0,
        cb_size = round_to_pages (stride * height * 4)\<rparr>\<rparr>"

definition unref_resource_cmd :: "u32 \<Rightarrow> gpu_cmd" where
  "unref_resource_cmd res_id =
     \<lparr>cmd_hdr = zero_hdr\<lparr>h_type := VIRTIO_GPU_CMD_RESOURCE_UNREF\<rparr>, cmd_body = ResId res_id 0\<rparr>"

definition inval_backing_cmd :: "u32 \<Rightarrow> gpu_cmd" where
  "inval_backing_cmd res_id =
     \<lparr>cmd_hdr = zero_hdr\<lparr>h_type := VIRTIO_GPU_CMD_RESOURCE_DETACH_BACKING\<rparr>, cmd_body = ResId res_id 0\<rparr>"

definition set_scanout_cmd :: "u32 \<Rightarrow> u32 \<Rightarrow> u32 \<Rightarrow> u32 \<Rightarrow> u32 \<Rightarrow> u32 \<Rightarrow> gpu_cmd" where
  "set_scanout_cmd scan_id res_id w h x y =
     \<lparr>cmd_hdr = zero_hdr\<lparr>h_type := VIRTIO_GPU_CMD_SET_SCANOUT\<rparr>,
      cmd_body = SetScanout \<lparr>ss_r = \<lparr>r_x = x, r_y = y, r_width = w, r_height = h\<rparr>,
        ss_scanout_id = scan_id, ss_resource_id = res_id\<rparr>\<rparr>"

definition set_scanout_blob_cmd ::
  "u32 \<Rightarrow> u32 \<Rightarrow> u32 \<Rightarrow> u32 \<Rightarrow> u32 \<Rightarrow> u32 \<Rightarrow> u32 \<Rightarrow> u32 \<Rightarrow> gpu_cmd" where
  "set_scanout_blob_cmd scan_id res_id w h fmt x y stride =
     \<lparr>cmd_hdr = zero_hdr\<lparr>h_type := VIRTIO_GPU_CMD_SET_SCANOUT_BLOB\<rparr>,
      cmd_body = SetScanoutBlob \<lparr>sb_r = \<lparr>r_x = x, r_y = y, r_width = w, r_height = h\<rparr>,
        sb_scanout_id = scan_id, sb_resource_id = res_id, sb_width = w, sb_height = h, sb_format = fmt,
        sb_padding = 0, sb_strides = map (\<lambda>i. stride * 4) [0..<4::nat],
        sb_offsets = map (\<lambda>i. 0) [0..<4::nat]\<rparr>\<rparr>"

definition res_flush_cmd :: "u32 \<Rightarrow> u32 \<Rightarrow> u32 \<Rightarrow> u32 \<Rightarrow> u32 \<Rightarrow> u32 \<Rightarrow> gpu_cmd" where
  "res_flush_cmd res_id w h x y screen_num =
     \<lparr>cmd_hdr = zero_hdr\<lparr>h_type := VIRTIO_GPU_CMD_RESOURCE_FLUSH, h_fence_id := ucast screen_num,
        h_flags := 0 OR VIRTIO_GPU_FLAG_FENCE\<rparr>,
      cmd_body = ResFlush \<lparr>rf_r = \<lparr>r_x = x, r_y = y, r_width = w, r_height = h\<rparr>,
        rf_resource_id = res_id, rf_padding = 0\<rparr>\<rparr>"

definition transfer_cmd :: "u32 \<Rightarrow> u32 \<Rightarrow> u32 \<Rightarrow> u32 \<Rightarrow> u32 \<Rightarrow> u32 \<Rightarrow> u32 option \<Rightarrow> gpu_cmd" where
  "transfer_cmd res_id offset w h x y fence_id =
     \<lparr>cmd_hdr = (case fence_id of
         None \<Rightarrow> zero_hdr\<lparr>h_type := VIRTIO_GPU_CMD_TRANSFER_TO_HOST_2D\<rparr>
       | Some f \<Rightarrow> zero_hdr\<lparr>h_type := VIRTIO_GPU_CMD_TRANSFER_TO_HOST_2D,
           h_flags := 0 OR VIRTIO_GPU_FLAG_FENCE, h_fence_id := ucast f\<rparr>),
      cmd_body = Transfer2D \<lparr>tr_r = \<lparr>r_x = x, r_y = y, r_width = w, r_height = h\<rparr>,
        tr_offset = ucast offset, tr_resource_id = res_id, tr_padding = 0\<rparr>\<rparr>"

definition attach_backing_cmd :: "u32 \<Rightarrow> u32 \<Rightarrow> gpu_cmd" where
  "attach_backing_cmd res_id nents =
     \<lparr>cmd_hdr = zero_hdr\<lparr>h_type := VIRTIO_GPU_CMD_RESOURCE_ATTACH_BACKING\<rparr>,
      cmd_body = AttachBacking res_id nents\<rparr>"

definition get_display_info_cmd :: gpu_cmd where
  "get_display_info_cmd =
     \<lparr>cmd_hdr = zero_hdr\<lparr>h_type := VIRTIO_GPU_CMD_GET_DISPLAY_INFO\<rparr>, cmd_body = NoBody\<rparr>"

definition get_edid_cmd :: "u32 \<Rightarrow> gpu_cmd" where
  "get_edid_cmd scanout =
     \<lparr>cmd_hdr = zero_hdr\<lparr>h_type := VIRTIO_GPU_CMD_GET_EDID\<rparr>, cmd_body = GetEdid scanout 0\<rparr>"

text \<open>What a command hangs on its buffer before it is queued.\<close>
datatype payload = NoPayload | Event u64 | Data u64 u32

definition SIZEOF_GPU_MEM_ENTRY :: u32 where "SIZEOF_GPU_MEM_ENTRY = 16"

fun attach_payload :: "payload \<Rightarrow> gpu_vbuffer \<Rightarrow> gpu_vbuffer" where
  "attach_payload NoPayload v = v"
| "attach_payload (Event e) v = v\<lparr>vb_event := e\<rparr>"
| "attach_payload (Data a n) v = v\<lparr>data_buf := a, data_size := SIZEOF_GPU_MEM_ENTRY * n\<rparr>"

type_synonym 'q sender = "gpu_cmd \<Rightarrow> payload \<Rightarrow> 'q gpuq \<Rightarrow> (u64 \<times> 'q gpuq) option"

definition sender :: "mm \<Rightarrow> 'q vq_ops \<Rightarrow> 'q sender" where
  "sender mm ops c pl q = send_cmd mm ops c (attach_payload pl) q"

definition create_resource :: "'q sender \<Rightarrow> u32 \<Rightarrow> u32 \<Rightarrow> u32 \<Rightarrow> u32 \<Rightarrow> 'q gpuq \<Rightarrow> 'q gpuq option" where
  "create_resource send res_id fmt w h q =
     map_option snd (send (create_resource_cmd res_id fmt w h) NoPayload q)"

definition create_resource_blob ::
  "'q sender \<Rightarrow> u32 \<Rightarrow> u64 \<Rightarrow> u32 \<Rightarrow> u64 \<Rightarrow> u64 \<Rightarrow> u64 \<Rightarrow> 'q gpuq \<Rightarrow> 'q gpuq option" where
  "create_resource_blob send res_id es nents w h stride q =
     map_option snd (send (create_resource_blob_cmd res_id nents h stride) (Data es nents) q)"

definition unref_resource :: "'q sender \<Rightarrow> u32 \<Rightarrow> 'q gpuq \<Rightarrow> 'q gpuq option" where
  "unref_resource send res_id q = map_option snd (send (unref_resource_cmd res_id) NoPayload q)"

definition inval_backing :: "'q sender \<Rightarrow> u32 \<Rightarrow> 'q gpuq \<Rightarrow> 'q gpuq option" where
  "inval_backing send res_id q = map_option snd (send (inval_backing_cmd res_id) NoPayload q)"

definition set_scanout ::
  "'q sender \<Rightarrow> u32 \<Rightarrow> u32 \<Rightarrow> u32 \<Rightarrow> u32 \<Rightarrow> u32 \<Rightarrow> u32 \<Rightarrow> 'q gpuq \<Rightarrow> 'q gpuq option" where
  "set_scanout send scan_id res_id w h x y q =
     map_option snd (send (set_scanout_cmd scan_id res_id w h x y) NoPayload q)"

definition set_scanout_blob ::
  "'q sender \<Rightarrow> u32 \<Rightarrow> u32 \<Rightarrow> u32 \<Rightarrow> u32 \<Rightarrow> u32 \<Rightarrow> u32 \<Rightarrow> u32 \<Rightarrow> u32 \<Rightarrow> 'q gpuq \<Rightarrow> 'q gpuq option" where
  "set_scanout_blob send scan_id res_id w h fmt x y stride q =
     map_option snd (send (set_scanout_blob_cmd scan_id res_id w h fmt x y stride) NoPayload q)"

text \<open>\<^verbatim>\<open>ResFlush\<close> up to the wait; the address returned is that of the buffer (0: none was
  free and the call has returned).  After the wait, however it ended, it is released.\<close>
definition res_flush_submit ::
  "'q sender \<Rightarrow> u32 \<Rightarrow> u32 \<Rightarrow> u32 \<Rightarrow> u32 \<Rightarrow> u32 \<Rightarrow> u32 \<Rightarrow> u64 \<Rightarrow> 'q gpuq \<Rightarrow> (u64 \<times> 'q gpuq) option" where
  "res_flush_submit send res_id w h x y screen_num event q =
     send (res_flush_cmd res_id w h x y screen_num) (Event event) q"

definition res_flush_finish :: "u64 \<Rightarrow> 'q gpuq \<Rightarrow> 'q gpuq option" where
  "res_flush_finish p q = (if p = 0 then Some q else release_buffer q p)"

definition transfer_to_host_2d ::
  "'q sender \<Rightarrow> u32 \<Rightarrow> u32 \<Rightarrow> u32 \<Rightarrow> u32 \<Rightarrow> u32 \<Rightarrow> u32 \<Rightarrow> u32 option \<Rightarrow> 'q gpuq \<Rightarrow> 'q gpuq option" where
  "transfer_to_host_2d send res_id offset w h x y fence_id q =
     map_option snd (send (transfer_cmd res_id offset w h x y fence_id) NoPayload q)"

definition attach_backing :: "'q sender \<Rightarrow> u32 \<Rightarrow> u64 \<Rightarrow> u32 \<Rightarrow> 'q gpuq \<Rightarrow> 'q gpuq option" where
  "attach_backing send res_id es nents q =
     map_option snd (send (attach_backing_cmd res_id nents) (Data es nents) q)"

text \<open>\<^verbatim>\<open>AskDisplayInfo\<close> and \<^verbatim>\<open>AskEdidInfo\<close> up to the wait: a block for the response, a command
  buffer, the event.  The result is FALSE with no buffer when one of the two can not be
  had; in the second case the response block stays allocated.\<close>
definition SIZEOF_GPU_RESP_DISP_INFO :: u32 where "SIZEOF_GPU_RESP_DISP_INFO = 408"
definition SIZEOF_GPU_RESP_EDID :: u32 where "SIZEOF_GPU_RESP_EDID = 1056"

definition ask_cmd ::
  "mm \<Rightarrow> 'q vq_ops \<Rightarrow> allocator \<Rightarrow> gpu_cmd \<Rightarrow> u32 \<Rightarrow> u64 \<Rightarrow> 'q gpuq \<Rightarrow> (bool \<times> u64 \<times> 'q gpuq) option" where
  "ask_cmd mm ops alloc c rsize event q = do {
     let rbuf = alloc (blocks (pool q)) (ucast rsize);
     if rbuf = 0 then Some (False, 0, q)
     else do {
       (p, q1) \<leftarrow> alloc_cmd_resp (sizeof_cmd c) rbuf rsize
         (q\<lparr>pool := (pool q)\<lparr>blocks := insert rbuf (blocks (pool q))\<rparr>\<rparr>);
       if p = 0 then Some (False, 0, q1)
       else do {
         q2 \<leftarrow> set_vbuf p (attach_payload (Event event)) (set_cmd p c q1);
         (r, q3) \<leftarrow> queue_buffer mm ops q2 p;
         Some (True, p, q3)
       }
     }
   }"

definition ask_display_info ::
  "mm \<Rightarrow> 'q vq_ops \<Rightarrow> allocator \<Rightarrow> u64 \<Rightarrow> 'q gpuq \<Rightarrow> (bool \<times> u64 \<times> 'q gpuq) option" where
  "ask_display_info mm ops alloc event q =
     ask_cmd mm ops alloc get_display_info_cmd SIZEOF_GPU_RESP_DISP_INFO event q"

definition ask_edid_info ::
  "mm \<Rightarrow> 'q vq_ops \<Rightarrow> allocator \<Rightarrow> u32 \<Rightarrow> u64 \<Rightarrow> 'q gpuq \<Rightarrow> (bool \<times> u64 \<times> 'q gpuq) option" where
  "ask_edid_info mm ops alloc scanout event q =
     ask_cmd mm ops alloc (get_edid_cmd scanout) SIZEOF_GPU_RESP_EDID event q"

record resp_disp_info =
  rdi_type :: u32
  pmodes :: "gpu_display_one list"

text \<open>The resolution, or None for FALSE; the outer None is an index outside \<^verbatim>\<open>pmodes\<close>.\<close>
definition get_display_info :: "resp_disp_info \<Rightarrow> u32 \<Rightarrow> (u32 \<times> u32) option option" where
  "get_display_info resp i =
     (if rdi_type resp \<noteq> VIRTIO_GPU_RESP_OK_DISPLAY_INFO then Some None
      else do {
        m \<leftarrow> nth_opt (pmodes resp) (unat i);
        Some (if d_enabled m \<noteq> 0 then Some (r_width (d_r m), r_height (d_r m)) else None)
      })"

record resp_edid =
  re_type :: u32
  re_edid :: "u8 list"

definition get_edid_info :: "u32 \<Rightarrow> resp_edid \<Rightarrow> u32 \<Rightarrow> u8 list option" where
  "get_edid_info cmd_scanout resp i =
     (if re_type resp \<noteq> VIRTIO_GPU_RESP_OK_EDID \<and> MAX_SCAN_OUT \<le> i then None
      else if cmd_scanout \<noteq> i then None
      else Some (take EDID_V1_BLOCK_SIZE (re_edid resp)))"

section \<open>The driver over a ring\<close>

definition ops_of ::
  "('q \<Rightarrow> scatterlist list \<Rightarrow> u32 \<Rightarrow> u32 \<Rightarrow> u64 \<Rightarrow> (int \<times> 'q) option) \<Rightarrow>
   ('q \<Rightarrow> (u64 option \<times> 'q) option) \<Rightarrow> ('q \<Rightarrow> 'q) \<Rightarrow> 'q vq_ops" where
  "ops_of add get kick = \<lparr>vq_add = add, vq_get = get, vq_kick = kick\<rparr>"

text \<open>One round of the control loop of \<^verbatim>\<open>DpcRoutine\<close>: the buffer fetched and whether its
  event is set; without an event the buffer is released.\<close>
definition dpc_ctrl_one :: "'q vq_ops \<Rightarrow> 'q gpuq \<Rightarrow> ((u64 \<times> bool) option \<times> 'q gpuq) option" where
  "dpc_ctrl_one ops q = do {
     (p, q1) \<leftarrow> dequeue_buffer ops q;
     if p = 0 then Some (None, q1)
     else do {
       v \<leftarrow> vbufs (pool q1) p;
       if vb_event v = 0 then do { q2 \<leftarrow> release_buffer q1 p; Some (Some (p, False), q2) }
       else Some (Some (p, case cmds q1 p of
           None \<Rightarrow> False
         | Some c \<Rightarrow> h_type (cmd_hdr c) \<in> {VIRTIO_GPU_CMD_RESOURCE_FLUSH,
             VIRTIO_GPU_CMD_GET_DISPLAY_INFO, VIRTIO_GPU_CMD_GET_EDID}), q1)
     }
   }"

definition dpc_cursor_one :: "'q vq_ops \<Rightarrow> 'q gpuq \<Rightarrow> (u64 option \<times> 'q gpuq) option" where
  "dpc_cursor_one ops q = do {
     (p, q1) \<leftarrow> dequeue_buffer ops q;
     if p = 0 then Some (None, q1) else do { q2 \<leftarrow> release_buffer q1 p; Some (Some p, q2) }
   }"

definition with_ring :: "'q \<Rightarrow> 'q gpuq \<Rightarrow> 'q gpuq" where
  "with_ring r q = q\<lparr>ring := r\<rparr>"

lemma with_ring_simps [simp]:
  "ring (with_ring r q) = r" "pool (with_ring r q) = pool q" "cmds (with_ring r q) = cmds q"
  by (simp_all add: with_ring_def)

fun payload_ok :: "payload \<Rightarrow> gpubuf \<Rightarrow> bool" where
  "payload_ok NoPayload b = True"
| "payload_ok (Event e) b = True"
| "payload_ok (Data a n) b = (a \<in> blocks b \<and> a \<notin> set (pool_blocks b))"

text \<open>The command areas are non-paged memory.\<close>
definition cmd_areas_valid :: "mm \<Rightarrow> bool" where
  "cmd_areas_valid mm \<longleftrightarrow> (\<forall>a. addr_valid mm a)"

text \<open>A run of the driver with its two queues, which share the pool, beside the device.  The
  multiset holds the buffers whose event the interrupt handler has seen and whose waiter
  has not released them yet.\<close>
inductive drv_run ::
  "mm \<Rightarrow> 'q vq_ops \<Rightarrow> allocator \<Rightarrow> ('q \<Rightarrow> u64 \<Rightarrow> 'q \<Rightarrow> bool) \<Rightarrow> 'q gpuq \<Rightarrow> 'q \<Rightarrow>
   u64 multiset \<Rightarrow> 'q gpuq \<Rightarrow> 'q \<Rightarrow> bool"
  for mm ops alloc use q0 c0 where
  start: "drv_run mm ops alloc use q0 c0 {#} q0 c0"
| send: "drv_run mm ops alloc use q0 c0 ws q c \<Longrightarrow> payload_ok pl (pool q) \<Longrightarrow>
     sender mm ops cm pl q = Some (p, q') \<Longrightarrow> drv_run mm ops alloc use q0 c0 ws q' c"
| ask: "drv_run mm ops alloc use q0 c0 ws q c \<Longrightarrow>
     ask_cmd mm ops alloc cm rsize event q = Some (ok, p, q') \<Longrightarrow> drv_run mm ops alloc use q0 c0 ws q' c"
| cursor: "drv_run mm ops alloc use q0 c0 ws q c \<Longrightarrow> alloc_cursor q = Some (p, q1) \<Longrightarrow> p \<noteq> 0 \<Longrightarrow>
     queue_cursor mm ops (with_ring c (set_cmd p cm q1)) p = Some (r, q2) \<Longrightarrow>
     drv_run mm ops alloc use q0 c0 ws (with_ring (ring q) q2) (ring q2)"
| dev_ctrl: "drv_run mm ops alloc use q0 c0 ws q c \<Longrightarrow> use (ring q) t r' \<Longrightarrow>
     drv_run mm ops alloc use q0 c0 ws (with_ring r' q) c"
| dev_cursor: "drv_run mm ops alloc use q0 c0 ws q c \<Longrightarrow> use c t c' \<Longrightarrow>
     drv_run mm ops alloc use q0 c0 ws q c'"
| dpc_ctrl: "drv_run mm ops alloc use q0 c0 ws q c \<Longrightarrow> dpc_ctrl_one ops q = Some (r, q') \<Longrightarrow>
     drv_run mm ops alloc use q0 c0
       (case r of Some (p, _) \<Rightarrow> if p \<in> set (m_InUseBufs (pool q')) then add_mset p ws else ws | None \<Rightarrow> ws) q' c"
| dpc_cursor: "drv_run mm ops alloc use q0 c0 ws q c \<Longrightarrow>
     dpc_cursor_one ops (with_ring c q) = Some (r, q') \<Longrightarrow>
     drv_run mm ops alloc use q0 c0 ws (with_ring (ring q) q') (ring q')"
| finish: "drv_run mm ops alloc use q0 c0 ws q c \<Longrightarrow> p \<in># ws \<Longrightarrow> res_flush_finish p q = Some q' \<Longrightarrow>
     drv_run mm ops alloc use q0 c0 (ws - {#p#}) q' c"

end
