(* ===== verification/MemSegment.thy ===== *)
theory MemSegment
  imports GpuQueue
begin

text \<open>
  The memory behind a scanout or a cursor: the classes \<^verbatim>\<open>VioGpuMemSegment\<close> and
  \<^verbatim>\<open>VioGpuObj\<close> of \<^verbatim>\<open>src/IntelVirtDisplayKMD/viogpu_queue.cpp\<close> and the mapping helpers of
  \<^verbatim>\<open>viogpu_pci.cpp\<close>.  The memory manager is a parameter; what it has given out (heap blocks,
  mappings, memory descriptor lists and the locked ones among them) is the state
  \<^verbatim>\<open>kmem\<close>, and giving back something that is not out is undefined (\<^verbatim>\<open>None\<close>).
\<close>

section \<open>State\<close>

record kernel =
  k_alloc :: allocator
  k_map :: "bool \<Rightarrow> u64 set \<Rightarrow> u64 \<Rightarrow> u32 \<Rightarrow> u64"
  k_mdl :: "u64 set \<Rightarrow> u64 \<Rightarrow> u32 \<Rightarrow> u64"
  k_lock :: "bool \<Rightarrow> u64 \<Rightarrow> u32 \<Rightarrow> bool"
  k_mm :: mm

record kmem =
  heap :: "u64 set"
  maps :: "u64 set"
  mdls :: "u64 set"
  locked :: "u64 set"

record segment =
  m_bSystemMemory :: bool
  m_bUserMemory :: bool
  m_bMapped :: bool
  m_pSGList :: "(u64 \<times> (u64 \<times> u32) list) option"
  m_pVAddr :: u64
  m_pMdl :: u64
  m_Size :: u64

definition new_segment :: segment where
  "new_segment = \<lparr>m_bSystemMemory = False, m_bUserMemory = False, m_bMapped = False,
     m_pSGList = None, m_pVAddr = 0, m_pMdl = 0, m_Size = 0\<rparr>"

section \<open>Operations\<close>

definition delete_heap :: "u64 \<Rightarrow> kmem \<Rightarrow> kmem option" where
  "delete_heap p k = (if p = 0 then Some k
     else do { guard_opt (p \<in> heap k); Some (k\<lparr>heap := heap k - {p}\<rparr>) })"

definition unlock_pages :: "u64 \<Rightarrow> kmem \<Rightarrow> kmem option" where
  "unlock_pages m k = do { guard_opt (m \<in> locked k); Some (k\<lparr>locked := locked k - {m}\<rparr>) }"

definition free_mdl :: "u64 \<Rightarrow> kmem \<Rightarrow> kmem option" where
  "free_mdl m k = do { guard_opt (m \<in> mdls k \<and> m \<notin> locked k); Some (k\<lparr>mdls := mdls k - {m}\<rparr>) }"

text \<open>The address mapped (0: failure); a second try with another cache type.\<close>
definition map_frame_buffer :: "kernel \<Rightarrow> u64 \<Rightarrow> u32 \<Rightarrow> kmem \<Rightarrow> u64 \<times> kmem" where
  "map_frame_buffer K pa len k =
     (if pa = 0 \<or> len = 0 then (0, k)
      else let v = k_map K True (maps k) pa len;
               v = (if v = 0 then k_map K False (maps k) pa len else v) in
        if v = 0 then (0, k) else (v, k\<lparr>maps := insert v (maps k)\<rparr>))"

definition unmap_frame_buffer :: "u64 \<Rightarrow> u32 \<Rightarrow> kmem \<Rightarrow> kmem option" where
  "unmap_frame_buffer v len k =
     (if v = 0 \<or> len = 0 then Some k
      else do { guard_opt (v \<in> maps k); Some (k\<lparr>maps := maps k - {v}\<rparr>) })"

definition bytes_to_pages :: "u32 \<Rightarrow> u32" where
  "bytes_to_pages n = drop_bit 12 n + (if n AND 0xFFF \<noteq> 0 then 1 else 0)"

definition page_align :: "u64 \<Rightarrow> u64" where
  "page_align v = v AND NOT 0xFFF"

fun fill_sg_list :: "mm \<Rightarrow> u64 \<Rightarrow> nat \<Rightarrow> (u64 \<times> u32) list" where
  "fill_sg_list mm buf 0 = []"
| "fill_sg_list mm buf (Suc n) =
     (let pa = phys_addr mm buf in
      if pa = 0 then [] else (pa, PAGE_SIZE) # fill_sg_list mm (buf + 4096) n)"

definition sgl_bytes :: "u32 \<Rightarrow> u64" where
  "sgl_bytes pages = 16 + 24 * ucast pages"

text \<open>The memory of the segment: from the heap, or a mapping of a physical address.\<close>
definition segment_memory :: "kernel \<Rightarrow> u32 \<Rightarrow> u64 option \<Rightarrow> segment \<Rightarrow> kmem \<Rightarrow> bool \<times> segment \<times> kmem" where
  "segment_memory K sz paddr s k = (case paddr of
     None \<Rightarrow>
       let v = k_alloc K (heap k) (ucast sz) in
       if v = 0 then (False, s\<lparr>m_pVAddr := 0\<rparr>, k)
       else (True, s\<lparr>m_pVAddr := v, m_bSystemMemory := True\<rparr>, k\<lparr>heap := insert v (heap k)\<rparr>)
   | Some pa \<Rightarrow>
       if pa \<noteq> 0 then
         let (v, k1) = map_frame_buffer K pa sz k in
         if v = 0 then (False, s\<lparr>m_pVAddr := 0\<rparr>, k1)
         else (True, s\<lparr>m_pVAddr := v, m_bMapped := True\<rparr>, k1)
       else (False, s, k))"

definition segment_init :: "kernel \<Rightarrow> u32 \<Rightarrow> u64 option \<Rightarrow> segment \<Rightarrow> kmem \<Rightarrow> (bool \<times> segment \<times> kmem) option" where
  "segment_init K size0 paddr s k = do {
     let pages = bytes_to_pages size0;
     let sz = pages * PAGE_SIZE;
     let (ok, s1, k1) = segment_memory K sz paddr s k;
     if \<not> ok then Some (False, s1, k1)
     else do {
       let m = k_mdl K (mdls k1) (m_pVAddr s1) sz;
       let s2 = s1\<lparr>m_pMdl := m\<rparr>;
       if m = 0 then Some (False, s2, k1)
       else do {
         let k2 = k1\<lparr>mdls := insert m (mdls k1)\<rparr>;
         if m_bSystemMemory s2 \<and> \<not> k_lock K False (m_pVAddr s2) sz then do {
           k3 \<leftarrow> free_mdl m k2; Some (False, s2\<lparr>m_pMdl := 0\<rparr>, k3) }
         else do {
           let k3 = (if m_bSystemMemory s2 then k2\<lparr>locked := insert m (locked k2)\<rparr> else k2);
           let p = k_alloc K (heap k3) (sgl_bytes pages);
           if p = 0 then do {
             k4 \<leftarrow> (if m_bSystemMemory s2 then unlock_pages m k3 else Some k3);
             k5 \<leftarrow> free_mdl m k4;
             Some (False, s2\<lparr>m_pMdl := 0, m_pSGList := None\<rparr>, k5) }
           else Some (True,
             s2\<lparr>m_pSGList := Some (p, fill_sg_list (k_mm K) (page_align (m_pVAddr s2)) (unat pages)),
                m_Size := ucast sz\<rparr>,
             k3\<lparr>heap := insert p (heap k3)\<rparr>) } } } }"

definition segment_close :: "segment \<Rightarrow> kmem \<Rightarrow> (segment \<times> kmem) option" where
  "segment_close s k = do {
     k1 \<leftarrow> (if m_pMdl s \<noteq> 0 then do {
         k' \<leftarrow> (if m_bSystemMemory s \<or> m_bUserMemory s then unlock_pages (m_pMdl s) k else Some k);
         free_mdl (m_pMdl s) k' }
       else Some k);
     k2 \<leftarrow> (if \<not> m_bUserMemory s then
         (if m_bSystemMemory s then delete_heap (m_pVAddr s) k1
          else if m_pVAddr s \<noteq> 0 then unmap_frame_buffer (m_pVAddr s) (ucast (m_Size s)) k1
          else Some k1)
       else Some k1);
     k3 \<leftarrow> (case m_pSGList s of None \<Rightarrow> Some k2 | Some (p, es) \<Rightarrow> delete_heap p k2);
     Some (new_segment, k3) }"

definition segment_init_ext :: "kernel \<Rightarrow> u32 \<Rightarrow> u64 \<Rightarrow> segment \<Rightarrow> kmem \<Rightarrow> (bool \<times> segment \<times> kmem) option" where
  "segment_init_ext K size0 addr s0 k0 = do {
     (s, k) \<leftarrow> segment_close s0 k0;
     let pages = bytes_to_pages size0;
     let sz = pages * PAGE_SIZE;
     if 0 < sz \<and> addr \<noteq> 0 then do {
       let m = k_mdl K (mdls k) addr sz;
       let s1 = s\<lparr>m_pVAddr := addr, m_bUserMemory := True, m_pMdl := m\<rparr>;
       if m \<noteq> 0 then do {
         let k1 = k\<lparr>mdls := insert m (mdls k)\<rparr>;
         if \<not> k_lock K True addr sz then do {
           k2 \<leftarrow> free_mdl m k1;
           Some (False, s1\<lparr>m_pMdl := 0, m_pVAddr := 0, m_bUserMemory := False\<rparr>, k2) }
         else do {
           let k2 = k1\<lparr>locked := insert m (locked k1)\<rparr>;
           let p = k_alloc K (heap k2) (sgl_bytes pages);
           if p = 0 then do {
             k3 \<leftarrow> unlock_pages m k2;
             k4 \<leftarrow> free_mdl m k3;
             Some (False, s1\<lparr>m_pSGList := None, m_pMdl := 0, m_pVAddr := 0, m_bUserMemory := False\<rparr>, k4) }
           else Some (True,
             s1\<lparr>m_pSGList := Some (p, fill_sg_list (k_mm K) (page_align addr) (unat pages)),
                m_Size := ucast sz\<rparr>,
             k2\<lparr>heap := insert p (heap k2)\<rparr>) } }
       else Some (False, s1, k) }
     else Some (False, s, k) }"

definition segment_physical :: "mm \<Rightarrow> segment \<Rightarrow> u64" where
  "segment_physical mm s =
     (if m_pVAddr s \<noteq> 0 \<and> addr_valid mm (m_pVAddr s) then phys_addr mm (m_pVAddr s) else 0)"

section \<open>Objects\<close>

text \<open>An object points at the segment of its scanout or of its cursor.\<close>
datatype seg_ref = FrameSeg nat | CursorSeg nat

record gpu_obj =
  m_uiHwRes :: u32
  m_ObjSize :: u64
  m_pSegment :: "seg_ref option"

definition new_gpu_obj :: gpu_obj where
  "new_gpu_obj = \<lparr>m_uiHwRes = 0, m_ObjSize = 0, m_pSegment = None\<rparr>"

definition gpu_obj_init :: "u32 \<Rightarrow> seg_ref \<Rightarrow> segment \<Rightarrow> gpu_obj \<Rightarrow> bool \<times> gpu_obj" where
  "gpu_obj_init size0 r s ob =
     (let sz = bytes_to_pages size0 * PAGE_SIZE in
      if m_Size s < ucast sz then (False, ob)
      else (True, ob\<lparr>m_pSegment := Some r, m_ObjSize := ucast sz\<rparr>))"

section \<open>What a segment holds\<close>

definition own_heap :: "segment \<Rightarrow> u64 set" where
  "own_heap s = (if m_bSystemMemory s then {m_pVAddr s} else {})
     \<union> (case m_pSGList s of None \<Rightarrow> {} | Some (p, es) \<Rightarrow> {p})"

definition own_mdl :: "segment \<Rightarrow> u64 set" where
  "own_mdl s = (if m_pMdl s = 0 then {} else {m_pMdl s})"

text \<open>The segment holds what it says on top of what is out for others; memory that is neither from
  the heap nor the caller's does not occur.\<close>
definition seg_holds :: "kmem \<Rightarrow> segment \<Rightarrow> kmem \<Rightarrow> bool" where
  "seg_holds k0 s k \<longleftrightarrow>
     heap k = heap k0 \<union> own_heap s \<and> heap k0 \<inter> own_heap s = {} \<and> 0 \<notin> own_heap s
     \<and> mdls k = mdls k0 \<union> own_mdl s \<and> mdls k0 \<inter> own_mdl s = {}
     \<and> locked k = locked k0 \<union> own_mdl s \<and> locked k0 \<inter> own_mdl s = {}
     \<and> maps k = maps k0
     \<and> \<not> (m_bSystemMemory s \<and> m_bUserMemory s)
     \<and> (m_pVAddr s \<noteq> 0 \<longleftrightarrow> m_bSystemMemory s \<or> m_bUserMemory s)
     \<and> (m_pVAddr s = 0 \<longrightarrow> m_pMdl s = 0 \<and> m_pSGList s = None)
     \<and> (\<forall>p es. m_pSGList s = Some (p, es) \<longrightarrow> m_bSystemMemory s \<longrightarrow> p \<noteq> m_pVAddr s)"

text \<open>The documented behaviour of the memory manager: what it gives out was not out.\<close>
definition kernel_ok :: "kernel \<Rightarrow> bool" where
  "kernel_ok K \<longleftrightarrow> fresh_allocator (k_alloc K)
     \<and> (\<forall>ms v n. k_mdl K ms v n = 0 \<or> k_mdl K ms v n \<notin> ms)"

inductive segment_run :: "kernel \<Rightarrow> kmem \<Rightarrow> segment \<Rightarrow> kmem \<Rightarrow> bool" for K k0 where
  start: "segment_run K k0 new_segment k0"
| init: "segment_run K k0 s k \<Longrightarrow> m_pVAddr s = 0 \<Longrightarrow>
     segment_init K n None s k = Some (r, s', k') \<Longrightarrow> segment_run K k0 s' k'"
| init_ext: "segment_run K k0 s k \<Longrightarrow>
     segment_init_ext K n addr s k = Some (r, s', k') \<Longrightarrow> segment_run K k0 s' k'"
| close: "segment_run K k0 s k \<Longrightarrow> segment_close s k = Some (s', k') \<Longrightarrow> segment_run K k0 s' k'"

end
