(* ===== verification/GpuScreen.thy ===== *)
theory GpuScreen
  imports EdidParserProps MemSegment
begin

text \<open>
  The modes of a screen: the class \<^verbatim>\<open>ScreenInfo\<close> of
  \<^verbatim>\<open>src/IntelVirtDisplayKMD/viogpulite.cpp\<close> and the parts of \<^verbatim>\<open>VioGpuAdapterLite\<close> that
  turn identification data into the table of video modes.  Refresh rates are in millionths
  of a hertz, as in the parser.
\<close>

section \<open>State\<close>

definition MAX_MODELIST_SIZE :: nat where "MAX_MODELIST_SIZE = 128"
definition MODE_LIST_MAX_SIZE :: nat where "MODE_LIST_MAX_SIZE = 32"
definition QEMU_MODELIST_SIZE :: nat where "QEMU_MODELIST_SIZE = 23"
definition MIN_WIDTH_SIZE :: nat where "MIN_WIDTH_SIZE = 640"
definition MIN_HEIGHT_SIZE :: nat where "MIN_HEIGHT_SIZE = 480"
definition NOM_WIDTH_SIZE :: nat where "NOM_WIDTH_SIZE = 1024"
definition NOM_HEIGHT_SIZE :: nat where "NOM_HEIGHT_SIZE = 768"
definition FRAMEBUFFER_COUNT :: nat where "FRAMEBUFFER_COUNT = 2"
definition BITS_PER_BYTE :: u32 where "BITS_PER_BYTE = 8"

lemmas screen_consts = MAX_MODELIST_SIZE_def MODE_LIST_MAX_SIZE_def QEMU_MODELIST_SIZE_def
  MIN_WIDTH_SIZE_def MIN_HEIGHT_SIZE_def NOM_WIDTH_SIZE_def NOM_HEIGHT_SIZE_def
  FRAMEBUFFER_COUNT_def BITS_PER_BYTE_def

record gpu_disp_mode_ext =
  XResolution :: u16
  YResolution :: u16
  refresh :: nat

text \<open>The fields of \<^verbatim>\<open>VIDEO_MODE_INFORMATION\<close> the driver uses.\<close>
record video_mode =
  ModeIndex :: u32
  VisScreenWidth :: u32
  VisScreenHeight :: u32

record disp_info =
  di_Width :: u32
  di_Height :: u32
  di_Pitch :: u32
  di_ColorFormat :: u32
  di_TargetId :: u32

text \<open>\<^verbatim>\<open>m_FlushCount\<close> is a C \<^verbatim>\<open>int\<close> that is never near its limits: the back-pressure keeps
  it small.\<close>
record screen =
  m_ModeInfo :: "video_mode list option"
  m_ModeCount :: u32
  m_ModeNumbers :: "u16 list option"
  m_CurrentMode :: u16
  m_CustomMode :: u16
  m_EDIDs :: "u8 list"
  disp_mode_ext :: "gpu_disp_mode_ext list"
  mode_list :: output_modelist
  m_FrameSegment :: segment
  m_pFrameBuf :: "gpu_obj option list"
  m_FrontBufferIndex :: nat
  m_FbSrcAddr :: u64
  m_FbWidth :: u32
  m_FbHeight :: u32
  m_FbStride :: u32
  m_pCursorBuf :: "gpu_obj option"
  m_CursorSegment :: segment
  m_FlushCount :: int
  m_FlushStallCount :: u32
  scr_enabled :: bool

definition zero_mode_ext :: gpu_disp_mode_ext where
  "zero_mode_ext = \<lparr>XResolution = 0, YResolution = 0, refresh = 0\<rparr>"

definition zero_video_mode :: video_mode where
  "zero_video_mode = \<lparr>ModeIndex = 0, VisScreenWidth = 0, VisScreenHeight = 0\<rparr>"

text \<open>The constructor; the bytes of \<^verbatim>\<open>m_EDIDs\<close> are those of the memory it is placed in.\<close>
definition new_screen :: "u8 list \<Rightarrow> screen" where
  "new_screen edid0 = \<lparr>m_ModeInfo = None, m_ModeCount = 0, m_ModeNumbers = None, m_CurrentMode = 0,
     m_CustomMode = 0, m_EDIDs = edid0, disp_mode_ext = replicate MAX_MODELIST_SIZE zero_mode_ext,
     mode_list = empty_modelist, m_FrameSegment = new_segment,
     m_pFrameBuf = replicate FRAMEBUFFER_COUNT None, m_FrontBufferIndex = 0, m_FbSrcAddr = 0,
     m_FbWidth = 0, m_FbHeight = 0, m_FbStride = 0, m_pCursorBuf = None, m_CursorSegment = new_segment,
     m_FlushCount = 0, m_FlushStallCount = 0, scr_enabled = False\<rparr>"

definition screen_reset :: "screen \<Rightarrow> screen" where
  "screen_reset s = s\<lparr>m_ModeInfo := None, m_ModeNumbers := None, mode_list := empty_modelist,
     disp_mode_ext := replicate MAX_MODELIST_SIZE zero_mode_ext\<rparr>"

section \<open>Frame buffer slots\<close>

datatype fb_slot = Front | Back

fun slot_index :: "fb_slot \<Rightarrow> nat" where
  "slot_index Front = 0"
| "slot_index Back = 1"

definition swap_framebuffer :: "screen \<Rightarrow> screen" where
  "swap_framebuffer s = s\<lparr>m_FrontBufferIndex := (m_FrontBufferIndex s + 1) mod FRAMEBUFFER_COUNT\<rparr>"

definition get_framebuffer_index :: "fb_slot \<Rightarrow> screen \<Rightarrow> nat" where
  "get_framebuffer_index b s = (m_FrontBufferIndex s + slot_index b) mod FRAMEBUFFER_COUNT"

definition get_framebuffer_obj :: "fb_slot \<Rightarrow> screen \<Rightarrow> gpu_obj option option" where
  "get_framebuffer_obj b s = nth_opt (m_pFrameBuf s) (get_framebuffer_index b s)"

definition set_framebuffer_obj :: "gpu_obj \<Rightarrow> fb_slot \<Rightarrow> screen \<Rightarrow> screen option" where
  "set_framebuffer_obj ob b s = do {
     fs \<leftarrow> upd_opt (m_pFrameBuf s) (get_framebuffer_index b s) (Some ob);
     Some (s\<lparr>m_pFrameBuf := fs\<rparr>) }"

section \<open>Formats\<close>

text \<open>The values of \<^verbatim>\<open>D3DDDIFORMAT\<close> in the display driver kit.\<close>
definition D3DDDIFMT_UNKNOWN :: u32 where "D3DDDIFMT_UNKNOWN = 0"
definition D3DDDIFMT_R8G8B8 :: u32 where "D3DDDIFMT_R8G8B8 = 20"
definition D3DDDIFMT_A8R8G8B8 :: u32 where "D3DDDIFMT_A8R8G8B8 = 21"
definition D3DDDIFMT_X8R8G8B8 :: u32 where "D3DDDIFMT_X8R8G8B8 = 22"
definition D3DDDIFMT_R5G6B5 :: u32 where "D3DDDIFMT_R5G6B5 = 23"
definition D3DDDIFMT_A2B10G10R10 :: u32 where "D3DDDIFMT_A2B10G10R10 = 31"
definition D3DDDIFMT_A8B8G8R8 :: u32 where "D3DDDIFMT_A8B8G8R8 = 32"
definition D3DDDIFMT_X8B8G8R8 :: u32 where "D3DDDIFMT_X8B8G8R8 = 33"
definition D3DDDIFMT_P8 :: u32 where "D3DDDIFMT_P8 = 41"
definition D3DDDIFMT_A1 :: u32 where "D3DDDIFMT_A1 = 118"

lemmas format_consts = D3DDDIFMT_UNKNOWN_def D3DDDIFMT_R8G8B8_def D3DDDIFMT_A8R8G8B8_def
  D3DDDIFMT_X8R8G8B8_def D3DDDIFMT_R5G6B5_def D3DDDIFMT_A2B10G10R10_def D3DDDIFMT_A8B8G8R8_def
  D3DDDIFMT_X8B8G8R8_def D3DDDIFMT_P8_def D3DDDIFMT_A1_def

definition color_format :: "u32 \<Rightarrow> u32" where
  "color_format f =
     (if f = D3DDDIFMT_A8R8G8B8 then VIRTIO_GPU_FORMAT_B8G8R8A8_UNORM
      else if f = D3DDDIFMT_X8R8G8B8 then VIRTIO_GPU_FORMAT_B8G8R8X8_UNORM
      else if f = D3DDDIFMT_A8B8G8R8 then VIRTIO_GPU_FORMAT_R8G8B8A8_UNORM
      else if f = D3DDDIFMT_X8B8G8R8 then VIRTIO_GPU_FORMAT_R8G8B8X8_UNORM
      else VIRTIO_GPU_FORMAT_B8G8R8A8_UNORM)"

definition bpp_from_pixel_format :: "u32 \<Rightarrow> u32" where
  "bpp_from_pixel_format f =
     (if f = D3DDDIFMT_UNKNOWN then 0 else if f = D3DDDIFMT_A1 then 1
      else if f = D3DDDIFMT_P8 then 8 else if f = D3DDDIFMT_R5G6B5 then 16
      else if f = D3DDDIFMT_R8G8B8 then 24
      else if f = D3DDDIFMT_X8R8G8B8 \<or> f = D3DDDIFMT_A8B8G8R8 \<or> f = D3DDDIFMT_A8R8G8B8
        \<or> f = D3DDDIFMT_A2B10G10R10 then 32
      else 0)"

section \<open>Modes from identification data\<close>

text \<open>\<^verbatim>\<open>qemu_modelist\<close>, and the built-in data: a structure of 128 bytes, the fields that have
  fewer initialisers filled up with zeros.\<close>
definition qemu_modelist :: "(nat \<times> nat \<times> nat) list" where
  "qemu_modelist = [
  (640, 480, 60000000), (800, 600, 60000000), (1024, 768, 60000000),
   (2048, 1152, 60000000), (1920, 1080, 60000000), (1920, 1200, 60000000),
   (1600, 1200, 60000000), (1680, 1050, 60000000), (1440, 900, 60000000),
   (1280, 1024, 60000000), (1280, 960, 60000000), (1280, 768, 59870228),
   (1360, 768, 60015162), (1440, 1050, 59978442), (1792, 1344, 59999789),
   (1856, 1392, 59995184), (1920, 1440, 60000000), (5120, 2160, 50000000),
   (4096, 2160, 50000000), (3840, 2160, 50000000), (2560, 1080, 50000000),
   (1920, 1080, 50000000), (3840, 2160, 60000000)]"

definition g_gpu_edid :: "u8 list" where
  "g_gpu_edid = [
  0x00, 0xFF, 0xFF, 0xFF, 0xFF, 0xFF, 0xFF, 0x00, 0x49, 0x14, 0x34, 0x12, 0x00, 0x00, 0x00,
   0x00, 0xff, 0x1d, 0x01, 0x04, 0xa3, 0x00, 0x00, 0x78, 0x22, 0xEE, 0x95, 0xA3, 0x54,
   0x4C, 0x99, 0x26, 0x0F, 0x50, 0x54, 0x00, 0x00, 0x00, 0x01, 0x01, 0x01, 0x01, 0x01,
   0x01, 0x01, 0x01, 0x01, 0x01, 0x01, 0x01, 0x01, 0x01, 0x01, 0x01, 0x6c, 0x20, 0x80,
   0x30, 0x42, 0x00, 0x32, 0x30, 0x40, 0xc0, 0x13, 0x00, 0x00, 0x00, 0x00, 0x00, 0x00,
   0x1e, 0x00, 0x00, 0x00, 0xFD, 0x00, 0x32, 0x7D, 0x1E, 0xA0, 0x78, 0x01, 0x0A, 0x20,
   0x20, 0x20, 0x20, 0x20, 0x20, 0x00, 0x00, 0x00, 0x10, 0x00, 0x00, 0x00, 0x00, 0x00,
   0x00, 0x00, 0x00, 0x00, 0x00, 0x00, 0x00, 0x00, 0, 0x00, 0x00, 0x00, 0x10, 0x00, 0x00,
   0x00, 0x00, 0x00, 0x00, 0x00, 0x00, 0x00, 0x00, 0x00, 0x00, 0x00, 0x00, 0x00, 0x00]"

definition store_mode :: "nat \<Rightarrow> gpu_disp_mode_ext \<Rightarrow> screen \<Rightarrow> screen option" where
  "store_mode i v s = do {
     ms \<leftarrow> upd_opt (disp_mode_ext s) i v; Some (s\<lparr>disp_mode_ext := ms\<rparr>) }"

text \<open>\<^verbatim>\<open>AddEdidModes\<close> over the data \<^verbatim>\<open>GetEdidData\<close> points at.\<close>
definition add_edid_modes :: "u8 list \<Rightarrow> screen \<Rightarrow> screen option" where
  "add_edid_modes edid s = do {
     (r, lo) \<leftarrow> parse_edid_data edid (Some (mode_list s));
     let s1 = (case lo of None \<Rightarrow> s | Some l \<Rightarrow> s\<lparr>mode_list := l\<rparr>);
     if r \<noteq> 0 then
       for_loop 0 QEMU_MODELIST_SIZE 1 (\<lambda>i s. do {
         (x, y, rr) \<leftarrow> nth_opt qemu_modelist i;
         store_mode i \<lparr>XResolution = of_nat x, YResolution = of_nat y, refresh = rr\<rparr> s }) s1
     else do {
       let limit = unat (modelist_size (mode_list s1));
       let limit = (if OUTPUT_MODELIST_SIZE < limit then OUTPUT_MODELIST_SIZE else limit);
       for_loop 0 limit 1 (\<lambda>i s. do {
         m \<leftarrow> nth_opt (modelist (mode_list s)) i;
         store_mode i \<lparr>XResolution = ucast (mode_width m), YResolution = ucast (mode_height m),
           refresh = refresh_rate m\<rparr> s }) s1 } }"

text \<open>The part of \<^verbatim>\<open>struct edid_info\<close> that \<^verbatim>\<open>CopyResolution\<close> fills in.\<close>
definition copy_resolution :: "screen \<Rightarrow> u32 \<Rightarrow> (u32 \<times> u32 \<times> nat) list \<Rightarrow> (u32 \<times> u32 \<times> nat) list option" where
  "copy_resolution s mode_size ml =
     (let limit = (if MODE_LIST_MAX_SIZE < unat mode_size then MODE_LIST_MAX_SIZE else unat mode_size) in
      for_loop 0 limit 1 (\<lambda>i ml. do {
        m \<leftarrow> nth_opt (disp_mode_ext s) i;
        upd_opt ml i (ucast (XResolution m), ucast (YResolution m), refresh m) }) ml)"

definition set_video_mode_info :: "nat \<Rightarrow> gpu_disp_mode_ext \<Rightarrow> screen \<Rightarrow> screen option" where
  "set_video_mode_info i m s = do {
     mi \<leftarrow> m_ModeInfo s;
     mi' \<leftarrow> upd_opt mi i \<lparr>ModeIndex = of_nat i, VisScreenWidth = ucast (XResolution m),
       VisScreenHeight = ucast (YResolution m)\<rparr>;
     Some (s\<lparr>m_ModeInfo := Some mi'\<rparr>) }"

definition set_custom_display :: "u16 \<Rightarrow> u16 \<Rightarrow> screen \<Rightarrow> screen option" where
  "set_custom_display xres yres s = do {
     let tmp = \<lparr>XResolution = max (of_nat MIN_WIDTH_SIZE) xres,
       YResolution = max (of_nat MIN_HEIGHT_SIZE) yres, refresh = 0\<rparr>;
     let custom = ucast (if ucast (m_CustomMode s) = m_ModeCount s - 1
       then m_ModeCount s - 2 else m_ModeCount s - 1);
     let s1 = s\<lparr>m_CustomMode := custom\<rparr>;
     set_video_mode_info (unat custom) tmp s1 }"

definition is_same_mode :: "video_mode \<Rightarrow> disp_info \<Rightarrow> bool" where
  "is_same_mode m d \<longleftrightarrow> VisScreenWidth m = di_Width d \<and> VisScreenHeight m = di_Height d"

text \<open>The \<^verbatim>\<open>while\<close> loop of \<^verbatim>\<open>GetModeList\<close>: the first entry below the minimum ends it.\<close>
function count_modes :: "gpu_disp_mode_ext list \<Rightarrow> nat \<Rightarrow> nat option" where
  "count_modes ms k =
     (if k < MAX_MODELIST_SIZE then do {
        m \<leftarrow> nth_opt ms k;
        if MIN_WIDTH_SIZE \<le> unat (XResolution m) \<and> MIN_HEIGHT_SIZE \<le> unat (YResolution m)
        then count_modes ms (k + 1) else Some k }
      else Some k)"
  by pat_completeness auto
termination by (relation "measure (\<lambda>(ms, k). MAX_MODELIST_SIZE - k)") auto

declare count_modes.simps [simp del]

text \<open>One round of the loop that keeps the modes that are large enough.\<close>
definition keep_mode :: "disp_info \<Rightarrow> nat \<Rightarrow> nat \<times> screen \<Rightarrow> (nat \<times> screen) option" where
  "keep_mode d cur st = (case st of (suit, s) \<Rightarrow> do {
     m \<leftarrow> nth_opt (disp_mode_ext s) cur;
     if di_Width d \<le> ucast (XResolution m) \<and> di_Height d \<le> ucast (YResolution m) then do {
       nums \<leftarrow> m_ModeNumbers s;
       nums' \<leftarrow> upd_opt nums suit (of_nat suit);
       s1 \<leftarrow> set_video_mode_info suit m (s\<lparr>m_ModeNumbers := Some nums'\<rparr>);
       let s2 = (if unat (XResolution m) = NOM_WIDTH_SIZE \<and> unat (YResolution m) = NOM_HEIGHT_SIZE
         then s1\<lparr>m_CurrentMode := of_nat suit\<rparr> else s1);
       Some (suit + 1, s2) }
     else Some (suit, s) })"

definition custom_entry :: "nat \<Rightarrow> screen \<Rightarrow> screen option" where
  "custom_entry cur s = do {
     nums \<leftarrow> m_ModeNumbers s;
     nums' \<leftarrow> upd_opt nums cur (of_nat cur);
     mi \<leftarrow> m_ModeInfo s;
     m \<leftarrow> nth_opt mi (unat (m_CurrentMode s));
     mi' \<leftarrow> upd_opt mi cur m;
     Some (s\<lparr>m_ModeNumbers := Some nums', m_ModeInfo := Some mi'\<rparr>) }"

definition clamp_disp_info :: "disp_info \<Rightarrow> disp_info" where
  "clamp_disp_info d =
     (let w = max (di_Width d) (of_nat MIN_WIDTH_SIZE) in
      d\<lparr>di_Height := max (di_Height d) (of_nat MIN_HEIGHT_SIZE), di_Width := w,
        di_ColorFormat := D3DDDIFMT_X8R8G8B8,
        di_Pitch := bpp_from_pixel_format D3DDDIFMT_X8R8G8B8 div BITS_PER_BYTE * w\<rparr>)"

datatype mode_status = ModesOk | ModesNoMemory | ModesNone

text \<open>The body of the loop of \<^verbatim>\<open>GetModeList\<close> between \<^verbatim>\<open>ProcessEdid\<close> and \<^verbatim>\<open>GetDisplayInfo\<close>;
  the booleans say whether the two arrays can be allocated.\<close>
definition build_mode_table :: "bool \<Rightarrow> bool \<Rightarrow> disp_info \<Rightarrow> screen \<Rightarrow> (mode_status \<times> disp_info \<times> screen) option" where
  "build_mode_table alloc1 alloc2 d s = do {
     n \<leftarrow> count_modes (disp_mode_ext s) 0;
     let count = n + 2;
     if \<not> alloc1 then Some (ModesNoMemory, d, s\<lparr>m_ModeInfo := None\<rparr>)
     else do {
       let s1 = s\<lparr>m_ModeInfo := Some (replicate count zero_video_mode)\<rparr>;
       if \<not> alloc2 then Some (ModesNoMemory, d, s1\<lparr>m_ModeNumbers := None\<rparr>)
       else do {
         let s2 = s1\<lparr>m_ModeNumbers := Some (replicate count 0), m_CurrentMode := 0\<rparr>;
         let d' = clamp_disp_info d;
         (suit, s3) \<leftarrow> for_loop 0 (count - 2) 1 (keep_mode d') (0, s2);
         let s4 = s3\<lparr>m_CustomMode := of_nat suit\<rparr>;
         s5 \<leftarrow> for_loop suit (suit + 2) 1 custom_entry s4;
         Some (if suit = 0 then ModesNone else ModesOk, d', s5\<lparr>m_ModeCount := of_nat suit + 2\<rparr>) } } }"

section \<open>Rectangles\<close>

record rect =
  r_left :: int
  r_top :: int
  r_right :: int
  r_bottom :: int

definition merge_rect :: "rect \<Rightarrow> rect option \<Rightarrow> rect option" where
  "merge_rect r u = (case u of None \<Rightarrow> Some r
     | Some u \<Rightarrow> Some \<lparr>r_left = min (r_left r) (r_left u), r_top = min (r_top r) (r_top u),
         r_right = max (r_right r) (r_right u), r_bottom = max (r_bottom r) (r_bottom u)\<rparr>)"

text \<open>\<^verbatim>\<open>None\<close>: nothing to update, FALSE.\<close>
definition find_update_rect :: "rect list \<Rightarrow> rect list \<Rightarrow> rect option" where
  "find_update_rect moves dirty = fold merge_rect dirty (fold merge_rect moves None)"

end
