(* ===== verification/GpuIdr.thy ===== *)
theory GpuIdr
  imports Prelude
begin

text \<open>
  The allocator of resource identifiers, \<^verbatim>\<open>src/IntelVirtDisplayKMD/viogpu_idr.cpp\<close>: a
  bitmap of \<^verbatim>\<open>CHAR_BIT * PAGE_SIZE\<close> bits in one page.  The bitmap routines are those of
  the kernel's run-time library; the search for a clear bit is a parameter, with its
  documented contract as the locale \<^verbatim>\<open>rtl_bitmap\<close>.  Every operation runs under the
  allocator's mutex and is one step.
\<close>

section \<open>State and operations\<close>

definition CHAR_BIT :: nat where "CHAR_BIT = 8"
definition IDR_PAGE_SIZE :: nat where "IDR_PAGE_SIZE = 4096"
definition IDR_BITS :: nat where "IDR_BITS = CHAR_BIT * IDR_PAGE_SIZE"

record idr =
  m_uStartIndex :: u32
  m_IdBitMap :: "bool list option"

definition new_idr :: idr where
  "new_idr = \<lparr>m_uStartIndex = 0, m_IdBitMap = None\<rparr>"

text \<open>\<^verbatim>\<open>alloc_ok\<close>: whether the page could be allocated.  \<^verbatim>\<open>RtlSetBits\<close> of a range that is not
  in the bitmap is undefined.\<close>
definition idr_init :: "bool \<Rightarrow> u32 \<Rightarrow> idr \<Rightarrow> (bool \<times> idr) option" where
  "idr_init alloc_ok start s = do {
     let s1 = s\<lparr>m_uStartIndex := start\<rparr>;
     if alloc_ok then do {
       guard_opt (unat start \<le> IDR_BITS);
       Some (True, s1\<lparr>m_IdBitMap :=
         Some (replicate (unat start) True @ replicate (IDR_BITS - unat start) False)\<rparr>)
     } else Some (False, s1)
   }"

definition NOT_FOUND :: u32 where "NOT_FOUND = 0xFFFFFFFF"

text \<open>\<^verbatim>\<open>RtlFindClearBitsAndSet(bm, 1, 0)\<close> over the search.\<close>
definition find_clear_bit_and_set :: "(bool list \<Rightarrow> u32) \<Rightarrow> bool list \<Rightarrow> u32 \<times> bool list" where
  "find_clear_bit_and_set search bm =
     (let i = search bm in (i, if i = NOT_FOUND then bm else bm[unat i := True]))"

definition idr_get_id :: "(bool list \<Rightarrow> u32) \<Rightarrow> idr \<Rightarrow> u32 \<times> idr" where
  "idr_get_id search s =
     (case m_IdBitMap s of
        None \<Rightarrow> (0, s)
      | Some bm \<Rightarrow>
          let (i, bm') = find_clear_bit_and_set search bm in (i, s\<lparr>m_IdBitMap := Some bm'\<rparr>))"

definition idr_put_id :: "u32 \<Rightarrow> idr \<Rightarrow> idr option" where
  "idr_put_id i s =
     (case m_IdBitMap s of
        None \<Rightarrow> Some s
      | Some bm \<Rightarrow> do {
          bm' \<leftarrow> upd_opt bm (unat i) False;
          Some (s\<lparr>m_IdBitMap := Some bm'\<rparr>) })"

definition idr_close :: "idr \<Rightarrow> idr" where
  "idr_close s = \<lparr>m_uStartIndex = 0, m_IdBitMap = None\<rparr>"

section \<open>The contract of an identifier allocator\<close>

text \<open>A run: clients ask for identifiers and give back identifiers they hold.\<close>
inductive id_run :: "('s \<Rightarrow> 'i option \<times> 's) \<Rightarrow> ('i \<Rightarrow> 's \<Rightarrow> 's option) \<Rightarrow> 's \<Rightarrow> 'i multiset \<Rightarrow> 's \<Rightarrow> bool"
  for get put s0 where
  start: "id_run get put s0 {#} s0"
| get: "id_run get put s0 hs s \<Longrightarrow> get s = (r, s') \<Longrightarrow>
     id_run get put s0 (case r of None \<Rightarrow> hs | Some i \<Rightarrow> add_mset i hs) s'"
| put: "id_run get put s0 hs s \<Longrightarrow> i \<in># hs \<Longrightarrow> put i s = Some s' \<Longrightarrow>
     id_run get put s0 (hs - {#i#}) s'"

locale id_allocator =
  fixes inv :: "'s \<Rightarrow> bool"
    and get :: "'s \<Rightarrow> 'i option \<times> 's"
    and put :: "'i \<Rightarrow> 's \<Rightarrow> 's option"
    and taken :: "'s \<Rightarrow> 'i set"
    and ids :: "'i set"
  assumes get_some: "inv s \<Longrightarrow> get s = (Some i, s') \<Longrightarrow>
      inv s' \<and> i \<in> ids \<and> i \<notin> taken s \<and> taken s' = insert i (taken s)"
    and get_none: "inv s \<Longrightarrow> get s = (None, s') \<Longrightarrow> s' = s \<and> ids \<subseteq> taken s"
    and put_ok: "inv s \<Longrightarrow> i \<in> taken s \<Longrightarrow>
      \<exists>s'. put i s = Some s' \<and> inv s' \<and> taken s' = taken s - {i}"
    and taken_ids: "inv s \<Longrightarrow> taken s \<subseteq> ids"
begin

lemma run_ok:
  assumes "id_run get put s0 hs s" "inv s0" "taken s0 = {}"
  shows "inv s \<and> taken s = set_mset hs \<and> (\<forall>i. count hs i \<le> 1)"
  using assms
proof (induction rule: id_run.induct)
  case start
  then show ?case by simp
next
  case (get hs s r s')
  then have i: "inv s" "taken s = set_mset hs" "\<forall>i. count hs i \<le> 1" by auto
  show ?case
  proof (cases r)
    case None
    then show ?thesis using get_none [OF i(1)] get.hyps(2) i by simp
  next
    case (Some x)
    then have "inv s'" "x \<notin> taken s" "taken s' = insert x (taken s)"
      using get_some [OF i(1)] get.hyps(2) by auto
    then show ?thesis using i Some by (auto simp: not_in_iff)
  qed
next
  case (put hs s x s')
  then have i: "inv s" "taken s = set_mset hs" "\<forall>i. count hs i \<le> 1" by auto
  obtain s2 where s2: "put x s = Some s2" "inv s2" "taken s2 = taken s - {x}"
    using put_ok [OF i(1), of x] put.hyps(2) i(2) by auto
  have "count hs x = 1" using i(3) put.hyps(2) by (metis count_greater_eq_one_iff le_antisym)
  then have "set_mset (hs - {#x#}) = set_mset hs - {x}"
    by (auto simp: set_eq_iff in_diff_count)
  then show ?case using s2 put.hyps(3) i by (auto simp: le_diff_conv intro: order_trans)
qed

lemma run_get_fails_only_when_exhausted:
  assumes "id_run get put s0 hs s" "inv s0" "taken s0 = {}" "get s = (None, s')"
  shows "set_mset hs = ids"
  using run_ok [OF assms(1-3)] get_none [OF _ assms(4)] taken_ids by blast

end

section \<open>The bitmap implements the contract\<close>

text \<open>The documented contract of the search: the index of a clear bit if there is one.\<close>
locale rtl_bitmap =
  fixes search :: "bool list \<Rightarrow> u32"
  assumes finds: "length bm \<le> IDR_BITS \<Longrightarrow> False \<in> set bm \<Longrightarrow>
      unat (search bm) < length bm \<and> \<not> bm ! unat (search bm)"
    and not_found: "False \<notin> set bm \<Longrightarrow> search bm = NOT_FOUND"

definition idr_inv :: "u32 \<Rightarrow> idr \<Rightarrow> bool" where
  "idr_inv start s \<longleftrightarrow> (\<exists>bm. m_IdBitMap s = Some bm \<and> length bm = IDR_BITS \<and>
     unat start \<le> IDR_BITS \<and> (\<forall>i < unat start. bm ! i))"

definition idr_ids :: "u32 \<Rightarrow> u32 set" where
  "idr_ids start = {i. start \<le> i \<and> unat i < IDR_BITS}"

definition idr_taken :: "u32 \<Rightarrow> idr \<Rightarrow> u32 set" where
  "idr_taken start s = {i \<in> idr_ids start. the (m_IdBitMap s) ! unat i}"

definition idr_get :: "(bool list \<Rightarrow> u32) \<Rightarrow> idr \<Rightarrow> u32 option \<times> idr" where
  "idr_get search s = (let (i, s') = idr_get_id search s in (if i = NOT_FOUND then None else Some i, s'))"

lemma IDR_BITS_eq: "IDR_BITS = 32768"
  by (simp add: IDR_BITS_def CHAR_BIT_def IDR_PAGE_SIZE_def)

context rtl_bitmap
begin

lemma get_taken:
  assumes "idr_inv start s" "idr_get search s = (Some i, s')"
  shows "idr_inv start s' \<and> i \<in> idr_ids start \<and> i \<notin> idr_taken start s \<and>
    idr_taken start s' = insert i (idr_taken start s)"
proof -
  obtain bm where bm: "m_IdBitMap s = Some bm" "length bm = IDR_BITS" "unat start \<le> IDR_BITS"
      "\<forall>i < unat start. bm ! i"
    using assms(1) by (auto simp: idr_inv_def)
  have i: "i = search bm" "i \<noteq> NOT_FOUND" "s' = s\<lparr>m_IdBitMap := Some (bm[unat i := True])\<rparr>"
    using assms(2) bm(1)
    by (auto simp: idr_get_def idr_get_id_def find_clear_bit_and_set_def Let_def split: if_splits)
  then have "False \<in> set bm" using not_found by metis
  then have f: "unat i < IDR_BITS" "\<not> bm ! unat i" using finds [of bm] bm(2) i(1) by auto
  then have "unat start \<le> unat i" using bm(4) by (meson not_le)
  then have ids: "i \<in> idr_ids start" using f(1) by (simp add: idr_ids_def word_le_nat_alt)
  have "bm[unat i := True] ! unat j \<longleftrightarrow> j = i \<or> bm ! unat j" if "unat j < IDR_BITS" for j
    using that bm(2) f(1) by (cases "unat j = unat i") (simp_all add: nth_list_update word_unat_eq_iff)
  then have "idr_taken start s' = insert i (idr_taken start s)"
    using i(3) bm(1) ids by (auto simp: idr_taken_def idr_ids_def)
  moreover have "idr_inv start s'"
    using i(3) bm f(1) by (auto simp: idr_inv_def nth_list_update)
  moreover have "i \<notin> idr_taken start s" using f(2) bm(1) by (simp add: idr_taken_def)
  ultimately show ?thesis using ids by blast
qed

lemma get_exhausted:
  assumes "idr_inv start s" "idr_get search s = (None, s')"
  shows "s' = s \<and> idr_ids start \<subseteq> idr_taken start s"
proof -
  obtain bm where bm: "m_IdBitMap s = Some bm" "length bm = IDR_BITS"
    using assms(1) by (auto simp: idr_inv_def)
  have nf: "search bm = NOT_FOUND" "s' = s"
    using assms(2) bm(1)
    by (auto simp: idr_get_def idr_get_id_def find_clear_bit_and_set_def Let_def split: if_splits)
  have "False \<notin> set bm"
  proof
    assume "False \<in> set bm"
    then have "unat (search bm) < 32768" using finds [of bm] bm(2) by (simp add: IDR_BITS_eq)
    then show False using nf(1) by (simp add: NOT_FOUND_def)
  qed
  then have "\<forall>i < IDR_BITS. bm ! i" using bm(2) by (metis nth_mem)
  then show ?thesis using nf(2) bm(1) by (auto simp: idr_taken_def idr_ids_def)
qed

end

lemma put_taken:
  assumes "idr_inv start s" "i \<in> idr_taken start s"
  shows "\<exists>s'. idr_put_id i s = Some s' \<and> idr_inv start s' \<and>
    idr_taken start s' = idr_taken start s - {i}"
proof -
  obtain bm where bm: "m_IdBitMap s = Some bm" "length bm = IDR_BITS" "unat start \<le> IDR_BITS"
      "\<forall>i < unat start. bm ! i"
    using assms(1) by (auto simp: idr_inv_def)
  have i: "start \<le> i" "unat i < IDR_BITS" using assms(2) by (auto simp: idr_taken_def idr_ids_def)
  have p: "idr_put_id i s = Some (s\<lparr>m_IdBitMap := Some (bm[unat i := False])\<rparr>)"
    using bm(1,2) i(2) by (simp add: idr_put_id_def)
  have "bm[unat i := False] ! unat j \<longleftrightarrow> j \<noteq> i \<and> bm ! unat j" if "unat j < IDR_BITS" for j
    using that bm(2) i(2) by (cases "unat j = unat i") (simp_all add: nth_list_update word_unat_eq_iff)
  then have "idr_taken start (s\<lparr>m_IdBitMap := Some (bm[unat i := False])\<rparr>) = idr_taken start s - {i}"
    using bm(1) by (auto simp: idr_taken_def idr_ids_def)
  moreover have "idr_inv start (s\<lparr>m_IdBitMap := Some (bm[unat i := False])\<rparr>)"
    using bm i(1) by (auto simp: idr_inv_def nth_list_update word_le_nat_alt)
  ultimately show ?thesis using p by blast
qed

sublocale rtl_bitmap \<subseteq> ids: id_allocator "idr_inv start" "idr_get search" idr_put_id
    "idr_taken start" "idr_ids start" for start
proof
  show "idr_taken start s \<subseteq> idr_ids start" for s by (auto simp: idr_taken_def)
qed (fact get_taken get_exhausted put_taken)+

context rtl_bitmap
begin

lemma idr_run_ok:
  assumes "id_run (idr_get search) idr_put_id s0 held s" "idr_inv start s0" "idr_taken start s0 = {}"
  shows "idr_inv start s" "idr_taken start s = set_mset held" "\<forall>i. count held i \<le> 1"
    "fst (idr_get search s) = None \<longleftrightarrow> set_mset held = idr_ids start"
proof -
  note r = ids.run_ok [OF assms]
  then show inv: "idr_inv start s" and t: "idr_taken start s = set_mset held"
    and "\<forall>i. count held i \<le> 1" by auto
  show "fst (idr_get search s) = None \<longleftrightarrow> set_mset held = idr_ids start"
  proof
    assume "fst (idr_get search s) = None"
    then show "set_mset held = idr_ids start"
      using ids.run_get_fails_only_when_exhausted [OF assms] by (metis prod.collapse)
  next
    assume full: "set_mset held = idr_ids start"
    show "fst (idr_get search s) = None"
    proof (rule ccontr)
      assume "fst (idr_get search s) \<noteq> None"
      then obtain i s' where "idr_get search s = (Some i, s')" by (metis not_None_eq prod.collapse)
      then show False using get_taken [OF inv] full t by blast
    qed
  qed
qed

end

text \<open>The search by first fit.\<close>
definition first_clear :: "bool list \<Rightarrow> u32" where
  "first_clear bm = (let i = length (takeWhile id bm) in
     if i < length bm then of_nat i else NOT_FOUND)"

interpretation rtl: rtl_bitmap first_clear
proof
  fix bm :: "bool list"
  assume l: "length bm \<le> IDR_BITS" and f: "False \<in> set bm"
  have "length (takeWhile id bm) < length bm"
    using f by (metis id_apply length_takeWhile_le nth_length_takeWhile order_le_neq_trans
        set_takeWhileD takeWhile_eq_take take_all_iff)
  then have t: "length (takeWhile id bm) < length bm" "unat (of_nat (length (takeWhile id bm)) :: u32) =
      length (takeWhile id bm)"
    using l by (auto simp: IDR_BITS_eq intro!: unat_of_nat_less)
  then show "unat (first_clear bm) < length bm \<and> \<not> bm ! unat (first_clear bm)"
    using nth_length_takeWhile [of id bm] by (simp add: first_clear_def Let_def)
next
  fix bm :: "bool list"
  assume "False \<notin> set bm"
  then have "takeWhile id bm = bm" by (metis (full_types) id_apply takeWhile_eq_all_conv)
  then have "length (takeWhile id bm) = length bm" by (rule arg_cong)
  then show "first_clear bm = NOT_FOUND" by (simp add: first_clear_def Let_def)
qed

section \<open>Correctness\<close>

lemma idr_init_inv:
  assumes "idr_init True start s = Some (ok, s0)"
  shows "ok \<and> idr_inv start s0 \<and> idr_taken start s0 = {} \<and> m_uStartIndex s0 = start"
  using assms
  by (auto simp: idr_init_def idr_inv_def idr_taken_def idr_ids_def nth_append word_le_nat_alt
      guard_opt_def split: if_splits)

text \<open>C17: (identifiers, GetId and PutId) After Init with a start index, whatever clients
  ask for and give back, the identifiers held are pairwise different, none is below the
  start index (the driver starts at 1: identifier 0 stays "no resource") and none leaves
  the bitmap; GetId fails exactly when every identifier from the start index on is held,
  and an identifier held can be given back.\<close>
theorem idr_run_unique:
  assumes "rtl_bitmap search" "idr_init True start new_idr = Some (ok, s0)"
    and "id_run (idr_get search) idr_put_id s0 held s"
  shows "(\<forall>i \<in># held. start \<le> i \<and> unat i < 32768) \<and> (\<forall>i. count held i \<le> 1) \<and>
    (fst (idr_get search s) = None \<longleftrightarrow> set_mset held = {i. start \<le> i \<and> unat i < 32768}) \<and>
    (\<forall>i \<in># held. idr_put_id i s \<noteq> None)"
proof -
  note rb = assms(1)
  have i0: "idr_inv start s0" "idr_taken start s0 = {}" using idr_init_inv [OF assms(2)] by auto
  note r = rtl_bitmap.idr_run_ok [OF rb assms(3) i0]
  have sub: "set_mset held \<subseteq> idr_ids start" using r(2) by (auto simp: idr_taken_def)
  have "\<forall>i \<in># held. idr_put_id i s \<noteq> None" using put_taken [OF r(1)] r(2) by fastforce
  then show ?thesis using r sub by (auto simp: idr_ids_def IDR_BITS_eq)
qed

text \<open>(identifiers, edges) PutId accepts exactly the identifiers inside the bitmap: the
  bound of its assertion, \<open>id <= CHAR_BIT * PAGE_SIZE\<close>, admits one identifier past the
  end, and the failure value of GetId, which the callers do not check, is far outside.
  Giving an identifier back twice changes nothing.\<close>
theorem idr_put_id_domain:
  assumes "idr_inv start s"
  shows "(idr_put_id i s = None \<longleftrightarrow> 32768 \<le> unat i) \<and>
    idr_put_id (of_nat (CHAR_BIT * IDR_PAGE_SIZE)) s = None \<and> idr_put_id NOT_FOUND s = None \<and>
    (\<forall>s'. idr_put_id i s = Some s' \<longrightarrow> idr_put_id i s' = Some s')"
proof -
  obtain bm where bm: "m_IdBitMap s = Some bm" "length bm = 32768"
    using assms by (auto simp: idr_inv_def IDR_BITS_eq)
  have d: "idr_put_id j s = None \<longleftrightarrow> 32768 \<le> unat j" for j
    using bm by (auto simp: idr_put_id_def upd_opt_def)
  have "idr_put_id i s' = Some s'" if "idr_put_id i s = Some s'" for s'
    using bm that by (auto simp: idr_put_id_def upd_opt_def split: if_splits)
  then show ?thesis using d by (simp add: NOT_FOUND_def CHAR_BIT_def IDR_PAGE_SIZE_def)
qed

definition demo_idr :: idr where
  "demo_idr = \<lparr>m_uStartIndex = 1, m_IdBitMap = Some (replicate 1 True @ replicate 32767 False)\<rparr>"

lemma demo_idr_init: "idr_init True 1 new_idr = Some (True, demo_idr)"
  by (simp add: idr_init_def IDR_BITS_eq new_idr_def demo_idr_def)

theorem idr_run_unique_witness:
  "id_run (idr_get first_clear) idr_put_id demo_idr {#1#} (snd (idr_get first_clear demo_idr)) \<and>
   idr_put_id 1 (snd (idr_get first_clear demo_idr)) \<noteq> None"
proof -
  have "fst (idr_get first_clear demo_idr) = Some 1"
    by (simp add: idr_get_def idr_get_id_def demo_idr_def find_clear_bit_and_set_def first_clear_def
        Let_def NOT_FOUND_def)
  then have g: "idr_get first_clear demo_idr = (Some 1, snd (idr_get first_clear demo_idr))"
    by (metis prod.collapse)
  have r: "id_run (idr_get first_clear) idr_put_id demo_idr {#1#} (snd (idr_get first_clear demo_idr))"
    using id_run.get [of "idr_get first_clear" idr_put_id demo_idr "{#}" demo_idr, OF id_run.start g] by simp
  have rb: "rtl_bitmap first_clear" by (rule rtl.rtl_bitmap_axioms)
  show ?thesis using idr_run_unique [OF rb demo_idr_init r] r by simp
qed

theorem idr_put_id_domain_witness: "idr_put_id 32768 demo_idr = None"
  using idr_put_id_domain [of 1 demo_idr 32768] idr_init_inv [OF demo_idr_init] by simp

end
