(* ===== verification/GpuAdapter.thy ===== *)
theory GpuAdapter
  imports GpuScreen GpuIdr
begin

text \<open>
  The adapter of \<^verbatim>\<open>src/IntelVirtDisplayKMD/viogpulite.cpp\<close>: how a frame of the display
  becomes commands on the control queue, the cursor, the interrupt and its deferred
  routine.  An operation runs under the screen mutex and is one step, up to the places where it
  waits for the device: what the device and the interrupt handler do meanwhile is the
  parameter \<open>e_wait\<close>.  The queue underneath is any \<open>sender\<close> of commands; its two rings share
  the pool, and with it the kernel heap.
\<close>

section \<open>State\<close>

record current_mode =
  cm_DispInfo :: disp_info
  cm_Stride :: u32
  cm_SetMode :: bool
  cm_FrameBuffer :: u64
  cm_FrameBufferIsActive :: bool

record 'q adapter =
  m_screen :: "screen list"
  m_u32NumScanouts :: u32
  m_bBlobSupported :: bool
  m_bEDID :: bool
  m_Idr :: idr
  m_CtrlQueue :: "'q gpuq"
  m_CursorRing :: 'q
  a_kmem :: kmem
  a_ents :: "u64 \<Rightarrow> gpu_mem_entry list option"
  m_CurrentModeInfo :: current_mode
  m_PendingWorks :: u32
  config_event :: bool

text \<open>The world around the adapter: memory manager, command sender, the operations of the
  rings, whether a \<^verbatim>\<open>VioGpuObj\<close> can
  be allocated, the search for a free identifier, the address of the flush event of a
  screen, and what happens while a thread waits.\<close>
record 'q env =
  e_kernel :: kernel
  e_send :: "'q sender"
  e_ops :: "'q vq_ops"
  e_obj_ok :: "u64 set \<Rightarrow> bool"
  e_search :: "bool list \<Rightarrow> u32"
  e_flush_event :: "nat \<Rightarrow> u64"
  e_wait :: "'q adapter \<Rightarrow> 'q adapter option"

datatype ntstatus = StatusSuccess | StatusUnsuccessful | StatusInvalidParameter

definition FLUSH_STALL_LIMIT :: u32 where "FLUSH_STALL_LIMIT = 60"
definition POINTER_SIZE :: u32 where "POINTER_SIZE = 128"

section \<open>Access to the parts\<close>

definition upd_screen :: "nat \<Rightarrow> (screen \<Rightarrow> screen) \<Rightarrow> 'q adapter \<Rightarrow> 'q adapter option" where
  "upd_screen t f a = do {
     s \<leftarrow> nth_opt (m_screen a) t;
     Some (a\<lparr>m_screen := (m_screen a)[t := f s]\<rparr>) }"

definition on_ctrl :: "('q gpuq \<Rightarrow> 'q gpuq option) \<Rightarrow> 'q adapter \<Rightarrow> 'q adapter option" where
  "on_ctrl f a = do { q \<leftarrow> f (m_CtrlQueue a); Some (a\<lparr>m_CtrlQueue := q\<rparr>) }"

definition heap_of :: "'q adapter \<Rightarrow> u64 set" where
  "heap_of a = blocks (pool (m_CtrlQueue a))"

definition with_heap :: "u64 set \<Rightarrow> 'q adapter \<Rightarrow> 'q adapter" where
  "with_heap h a = a\<lparr>m_CtrlQueue := (m_CtrlQueue a)\<lparr>pool := (pool (m_CtrlQueue a))\<lparr>blocks := h\<rparr>\<rparr>\<rparr>"

text \<open>A memory segment works on the same heap as the pool.\<close>
definition kmem_of :: "'q adapter \<Rightarrow> kmem" where
  "kmem_of a = (a_kmem a)\<lparr>heap := heap_of a\<rparr>"

definition with_kmem :: "kmem \<Rightarrow> 'q adapter \<Rightarrow> 'q adapter" where
  "with_kmem k a = with_heap (heap k) (a\<lparr>a_kmem := k\<rparr>)"

definition frame_close :: "nat \<Rightarrow> 'q adapter \<Rightarrow> 'q adapter option" where
  "frame_close t a = do {
     s \<leftarrow> nth_opt (m_screen a) t;
     (g, k) \<leftarrow> segment_close (m_FrameSegment s) (kmem_of a);
     upd_screen t (\<lambda>s. s\<lparr>m_FrameSegment := g\<rparr>) (with_kmem k a) }"

definition frame_init :: "kernel \<Rightarrow> u32 \<Rightarrow> nat \<Rightarrow> 'q adapter \<Rightarrow> (bool \<times> 'q adapter) option" where
  "frame_init K sz t a = do {
     s \<leftarrow> nth_opt (m_screen a) t;
     (ok, g, k) \<leftarrow> segment_init K sz None (m_FrameSegment s) (kmem_of a);
     a' \<leftarrow> upd_screen t (\<lambda>s. s\<lparr>m_FrameSegment := g\<rparr>) (with_kmem k a);
     Some (ok, a') }"

definition frame_init_ext :: "kernel \<Rightarrow> u32 \<Rightarrow> u64 \<Rightarrow> nat \<Rightarrow> 'q adapter \<Rightarrow> (bool \<times> 'q adapter) option" where
  "frame_init_ext K sz addr t a = do {
     s \<leftarrow> nth_opt (m_screen a) t;
     (ok, g, k) \<leftarrow> segment_init_ext K sz addr (m_FrameSegment s) (kmem_of a);
     a' \<leftarrow> upd_screen t (\<lambda>s. s\<lparr>m_FrameSegment := g\<rparr>) (with_kmem k a);
     Some (ok, a') }"

definition cursor_init :: "kernel \<Rightarrow> u32 \<Rightarrow> nat \<Rightarrow> 'q adapter \<Rightarrow> (bool \<times> 'q adapter) option" where
  "cursor_init K sz t a = do {
     s \<leftarrow> nth_opt (m_screen a) t;
     (ok, g, k) \<leftarrow> segment_init K sz None (m_CursorSegment s) (kmem_of a);
     a' \<leftarrow> upd_screen t (\<lambda>s. s\<lparr>m_CursorSegment := g\<rparr>) (with_kmem k a);
     Some (ok, a') }"

definition segment_of :: "'q adapter \<Rightarrow> seg_ref \<Rightarrow> segment option" where
  "segment_of a r = (case r of
     FrameSeg t \<Rightarrow> map_option m_FrameSegment (nth_opt (m_screen a) t)
   | CursorSeg t \<Rightarrow> map_option m_CursorSegment (nth_opt (m_screen a) t))"

definition obj_address :: "'q adapter \<Rightarrow> gpu_obj \<Rightarrow> u64 option" where
  "obj_address a ob = (case m_pSegment ob of None \<Rightarrow> Some 0
     | Some r \<Rightarrow> map_option m_pVAddr (segment_of a r))"

definition get_id :: "'q env \<Rightarrow> 'q adapter \<Rightarrow> u32 \<times> 'q adapter" where
  "get_id e a = (case idr_get_id (e_search e) (m_Idr a) of (i, s) \<Rightarrow> (i, a\<lparr>m_Idr := s\<rparr>))"

definition put_id :: "u32 \<Rightarrow> 'q adapter \<Rightarrow> 'q adapter option" where
  "put_id i a = do { s \<leftarrow> idr_put_id i (m_Idr a); Some (a\<lparr>m_Idr := s\<rparr>) }"

section \<open>Resources\<close>

text \<open>\<^verbatim>\<open>GpuObjectAttach\<close>; an object without a page list is a fault.\<close>
definition gpu_object_attach ::
  "'q env \<Rightarrow> u32 \<Rightarrow> gpu_obj \<Rightarrow> u64 \<Rightarrow> u64 \<Rightarrow> u64 \<Rightarrow> 'q adapter \<Rightarrow> (bool \<times> gpu_obj \<times> 'q adapter) option" where
  "gpu_object_attach e res_id ob w h stride a = do {
     r \<leftarrow> m_pSegment ob;
     g \<leftarrow> segment_of a r;
     (p, es) \<leftarrow> m_pSGList g;
     let n = of_nat (length es);
     let ents = k_alloc (e_kernel e) (heap_of a) (ucast (SIZEOF_GPU_MEM_ENTRY * n));
     if ents = 0 then Some (False, ob, a)
     else do {
       let a1 = (with_heap (insert ents (heap_of a)) a)\<lparr>a_ents := (a_ents a)(ents \<mapsto>
         map (\<lambda>(pa, len). \<lparr>me_addr = pa, me_length = len, me_padding = 0\<rparr>) es)\<rparr>;
       a2 \<leftarrow> (if m_bBlobSupported a
         then on_ctrl (create_resource_blob (e_send e) res_id ents n w h stride) a1
         else on_ctrl (attach_backing (e_send e) res_id ents n) a1);
       Some (True, ob\<lparr>m_uiHwRes := res_id\<rparr>, a2) } }"

definition destroy_framebuffer_obj :: "'q env \<Rightarrow> nat \<Rightarrow> nat \<Rightarrow> bool \<Rightarrow> 'q adapter \<Rightarrow> 'q adapter option" where
  "destroy_framebuffer_obj e t i reset a = do {
     s \<leftarrow> nth_opt (m_screen a) t;
     ob \<leftarrow> nth_opt (m_pFrameBuf s) i;
     a1 \<leftarrow> upd_screen t (\<lambda>s. s\<lparr>m_pFrameBuf := (m_pFrameBuf s)[i := None]\<rparr>) a;
     case ob of
       None \<Rightarrow> Some a1
     | Some fbuf \<Rightarrow> do {
         let resid = m_uiHwRes fbuf;
         a2 \<leftarrow> on_ctrl (inval_backing (e_send e) resid) a1;
         a3 \<leftarrow> on_ctrl (unref_resource (e_send e) resid) a2;
         a4 \<leftarrow> (if reset then on_ctrl (set_scanout (e_send e) 0 0 0 0 0 0) a3 else Some a3);
         put_id resid a4 } }"

definition destroy_framebuffer_slot_obj :: "'q env \<Rightarrow> nat \<Rightarrow> fb_slot \<Rightarrow> bool \<Rightarrow> 'q adapter \<Rightarrow> 'q adapter option" where
  "destroy_framebuffer_slot_obj e t slot reset a = do {
     s \<leftarrow> nth_opt (m_screen a) t;
     destroy_framebuffer_obj e t (get_framebuffer_index slot s) reset a }"

definition destroy_cursor :: "'q env \<Rightarrow> nat \<Rightarrow> 'q adapter \<Rightarrow> 'q adapter option" where
  "destroy_cursor e t a = do {
     s \<leftarrow> nth_opt (m_screen a) t;
     a1 \<leftarrow> upd_screen t (\<lambda>s. s\<lparr>m_pCursorBuf := None\<rparr>) a;
     case m_pCursorBuf s of
       None \<Rightarrow> Some a1
     | Some cursor \<Rightarrow> do {
         let resid = m_uiHwRes cursor;
         a2 \<leftarrow> on_ctrl (inval_backing (e_send e) resid) a1;
         a3 \<leftarrow> on_ctrl (unref_resource (e_send e) resid) a2;
         put_id resid a3 } }"

definition destroy_framebuffer_cursor_obj_ext :: "'q env \<Rightarrow> 'q adapter \<Rightarrow> 'q adapter option" where
  "destroy_framebuffer_cursor_obj_ext e a =
     for_loop 0 (unat (m_u32NumScanouts a)) 1 (\<lambda>i a. do {
       a1 \<leftarrow> for_loop 0 FRAMEBUFFER_COUNT 1 (\<lambda>j a. destroy_framebuffer_obj e i j True a) a;
       destroy_cursor e i a1 }) a"

section \<open>Frames\<close>

text \<open>\<^verbatim>\<open>ResFlush\<close> with the increment of the count before it, the wait, and the release of the
  command after it.\<close>
definition flush_and_wait :: "'q env \<Rightarrow> u32 \<Rightarrow> u32 \<Rightarrow> u32 \<Rightarrow> nat \<Rightarrow> 'q adapter \<Rightarrow> 'q adapter option" where
  "flush_and_wait e resid w h t a = do {
     a1 \<leftarrow> upd_screen t (\<lambda>s. s\<lparr>m_FlushCount := m_FlushCount s + 1\<rparr>) a;
     (p, q) \<leftarrow> res_flush_submit (e_send e) resid w h 0 0 (of_nat t) (e_flush_event e t) (m_CtrlQueue a1);
     let a2 = a1\<lparr>m_CtrlQueue := q\<rparr>;
     if p = 0 then Some a2
     else do { a3 \<leftarrow> e_wait e a2; on_ctrl (res_flush_finish p) a3 } }"

definition flush_framebuffer_obj ::
  "'q env \<Rightarrow> video_mode \<Rightarrow> nat \<Rightarrow> current_mode \<Rightarrow> 'q adapter \<Rightarrow> (current_mode \<times> 'q adapter) option" where
  "flush_framebuffer_obj e vm t cm a = do {
     s \<leftarrow> nth_opt (m_screen a) t;
     fo \<leftarrow> get_framebuffer_obj Front s;
     case fo of
       None \<Rightarrow> Some (cm, a)
     | Some ob \<Rightarrow> do {
         let resid = m_uiHwRes ob;
         a1 \<leftarrow> (if \<not> m_bBlobSupported a
           then on_ctrl (transfer_to_host_2d (e_send e) resid 0 (VisScreenWidth vm) (VisScreenHeight vm) 0 0 None) a
           else Some a);
         a2 \<leftarrow> flush_and_wait e resid (VisScreenWidth vm) (VisScreenHeight vm) t a1;
         v \<leftarrow> obj_address a2 ob;
         Some (cm\<lparr>cm_FrameBuffer := v, cm_FrameBufferIsActive := True\<rparr>, a2) } }"

text \<open>The memory of the frame: the user's, or the segment of the screen, enlarged if need be.
  FALSE: the caller gives the identifier back and returns.\<close>
definition frame_memory :: "'q env \<Rightarrow> u32 \<Rightarrow> u64 \<Rightarrow> nat \<Rightarrow> 'q adapter \<Rightarrow> (bool \<times> 'q adapter) option" where
  "frame_memory e sz addr t a = do {
     s \<leftarrow> nth_opt (m_screen a) t;
     if addr \<noteq> 0 then do {
       a1 \<leftarrow> (if m_pVAddr (m_FrameSegment s) \<noteq> 0 then frame_close t a else Some a);
       frame_init_ext (e_kernel e) sz addr t a1 }
     else if m_pVAddr (m_FrameSegment s) \<noteq> 0 \<and> m_Size (m_FrameSegment s) < ucast sz then do {
       a1 \<leftarrow> frame_close t a;
       (ok, a2) \<leftarrow> frame_init (e_kernel e) sz t a1;
       Some (True, a2) }
     else Some (True, a) }"

definition create_framebuffer_obj ::
  "'q env \<Rightarrow> video_mode \<Rightarrow> nat \<Rightarrow> fb_slot \<Rightarrow> current_mode \<Rightarrow> 'q adapter \<Rightarrow> (current_mode \<times> 'q adapter) option" where
  "create_framebuffer_obj e vm t slot cm a0 = do {
     let w = VisScreenWidth vm;
     let h = VisScreenHeight vm;
     let sz = di_Pitch (cm_DispInfo cm) * h;
     let fmt = color_format (di_ColorFormat (cm_DispInfo cm));
     let (resid, a1) = get_id e a0;
     a2 \<leftarrow> (if \<not> m_bBlobSupported a1 then on_ctrl (create_resource (e_send e) resid fmt w h) a1 else Some a1);
     (ok, a3) \<leftarrow> frame_memory e sz (cm_FrameBuffer cm) t a2;
     if \<not> ok then do { a4 \<leftarrow> put_id resid a3; Some (cm, a4) }
     else if \<not> e_obj_ok e (heap_of a3) then do { a4 \<leftarrow> put_id resid a3; Some (cm, a4) }
     else do {
       s \<leftarrow> nth_opt (m_screen a3) t;
       let (iok, ob) = gpu_obj_init sz (FrameSeg t) (m_FrameSegment s) new_gpu_obj;
       if \<not> iok then do { a4 \<leftarrow> put_id resid a3; Some (cm, a4) }
       else do {
         (att, ob1, a4) \<leftarrow> gpu_object_attach e resid ob (ucast w) (ucast h) (ucast (cm_Stride cm)) a3;
         a5 \<leftarrow> (if m_bBlobSupported a4
           then on_ctrl (set_scanout_blob (e_send e) (of_nat t) resid w h fmt 0 0 (cm_Stride cm)) a4
           else do {
             b \<leftarrow> on_ctrl (set_scanout (e_send e) (of_nat t) resid w h 0 0) a4;
             on_ctrl (transfer_to_host_2d (e_send e) resid 0 w h 0 0 None) b });
         a6 \<leftarrow> flush_and_wait e resid w h t a5;
         s6 \<leftarrow> nth_opt (m_screen a6) t;
         s7 \<leftarrow> set_framebuffer_obj ob1 slot s6;
         a7 \<leftarrow> upd_screen t (\<lambda>_. s7) a6;
         v \<leftarrow> obj_address a7 ob1;
         Some (cm\<lparr>cm_FrameBuffer := v, cm_FrameBufferIsActive := True\<rparr>, a7) } } }"

definition backing_changed :: "current_mode \<Rightarrow> gpu_obj option \<Rightarrow> screen \<Rightarrow> bool" where
  "backing_changed cm front s \<longleftrightarrow> front = None \<or> m_FbSrcAddr s \<noteq> cm_FrameBuffer cm
     \<or> m_FbWidth s \<noteq> di_Width (cm_DispInfo cm) \<or> m_FbHeight s \<noteq> di_Height (cm_DispInfo cm)
     \<or> m_FbStride s \<noteq> cm_Stride cm"

text \<open>The back-pressure: \<^verbatim>\<open>None\<close> drops the frame.\<close>
definition flush_gate :: "bool \<Rightarrow> screen \<Rightarrow> bool \<times> screen" where
  "flush_gate set_mode s0 =
     (let s = (if set_mode \<and> m_FlushCount s0 \<noteq> 0 then s0\<lparr>m_FlushCount := 0, m_FlushStallCount := 0\<rparr> else s0) in
      if m_FlushCount s \<noteq> 0 then
        let s1 = s\<lparr>m_FlushStallCount := m_FlushStallCount s + 1\<rparr> in
        if FLUSH_STALL_LIMIT \<le> m_FlushStallCount s1
        then (True, s1\<lparr>m_FlushCount := 0, m_FlushStallCount := 0, m_FbSrcAddr := 0\<rparr>)
        else (False, s1)
      else (True, s\<lparr>m_FlushStallCount := 0\<rparr>))"

text \<open>The frame for a mode found in the table; the boolean says whether it was taken.\<close>
definition present_frame ::
  "'q env \<Rightarrow> video_mode \<Rightarrow> nat \<Rightarrow> current_mode \<Rightarrow> 'q adapter \<Rightarrow> (bool \<times> current_mode \<times> 'q adapter) option" where
  "present_frame e vm t cm a0 = do {
     let a = a0\<lparr>m_CurrentModeInfo := cm\<rparr>;
     s \<leftarrow> nth_opt (m_screen a) t;
     let (go, s1) = flush_gate (cm_SetMode cm) s;
     a1 \<leftarrow> upd_screen t (\<lambda>_. s1) a;
     if \<not> go then Some (False, cm, a1)
     else do {
       front \<leftarrow> get_framebuffer_obj Front s1;
       (cm', a') \<leftarrow> (if backing_changed cm front s1 then do {
           a2 \<leftarrow> (if front \<noteq> None then destroy_framebuffer_slot_obj e t Front False a1 else Some a1);
           a3 \<leftarrow> upd_screen t (\<lambda>s. s\<lparr>m_FbSrcAddr := cm_FrameBuffer cm, m_FbWidth := di_Width (cm_DispInfo cm),
             m_FbHeight := di_Height (cm_DispInfo cm), m_FbStride := cm_Stride cm\<rparr>) a2;
           create_framebuffer_obj e vm t Front cm a3 }
         else flush_framebuffer_obj e vm t cm a1);
       Some (True, cm', a') } }"

text \<open>The loop over the modes of the screen; a null table makes the address of its first entry null,
  which \<^verbatim>\<open>IsSameMode\<close> refuses, and that of any other entry a fault.\<close>
function find_mode :: "screen \<Rightarrow> disp_info \<Rightarrow> nat \<Rightarrow> video_mode option option" where
  "find_mode s d idx =
     (if idx < unat (m_ModeCount s) then
        (case m_ModeInfo s of
           None \<Rightarrow> if idx = 0 then find_mode s d 1 else None
         | Some mi \<Rightarrow> do {
             vm \<leftarrow> nth_opt mi idx;
             if is_same_mode vm d then Some (Some vm) else find_mode s d (idx + 1) })
      else Some None)"
  by pat_completeness auto
termination by (relation "measure (\<lambda>(s, d, i). unat (m_ModeCount s) - i)") auto

declare find_mode.simps [simp del]

definition set_current_mode_ext ::
  "'q env \<Rightarrow> current_mode option \<Rightarrow> 'q adapter \<Rightarrow> (ntstatus \<times> bool \<times> 'q adapter) option" where
  "set_current_mode_ext e cmo a = (case cmo of
     None \<Rightarrow> Some (StatusUnsuccessful, False, a)
   | Some cm \<Rightarrow> do {
       let t = unat (di_TargetId (cm_DispInfo cm));
       s \<leftarrow> nth_opt (m_screen a) t;
       vm \<leftarrow> find_mode s (cm_DispInfo cm) 0;
       let status = (if m_ModeCount s = 0 then StatusUnsuccessful else StatusSuccess);
       case vm of
         None \<Rightarrow> Some (status, False, a)
       | Some vm \<Rightarrow> do {
           (taken, cm', a') \<leftarrow> present_frame e vm t cm a;
           Some (status, taken, a') } })"

definition execute_present :: "'q env \<Rightarrow> u64 \<Rightarrow> u32 \<Rightarrow> u32 \<Rightarrow> u32 \<Rightarrow> u32 \<Rightarrow> u32 \<Rightarrow> 'q adapter \<Rightarrow>
    (ntstatus \<times> bool \<times> 'q adapter) option" where
  "execute_present e addr pitch w h t stride a =
     set_current_mode_ext e (Some \<lparr>cm_DispInfo = \<lparr>di_Width = w, di_Height = h, di_Pitch = pitch,
         di_ColorFormat = D3DDDIFMT_X8R8G8B8, di_TargetId = t\<rparr>,
       cm_Stride = stride, cm_SetMode = False, cm_FrameBuffer = addr, cm_FrameBufferIsActive = False\<rparr>) a"

definition release_frame_buffer :: "'q env \<Rightarrow> u32 \<Rightarrow> 'q adapter \<Rightarrow> (ntstatus \<times> 'q adapter) option" where
  "release_frame_buffer e n a =
     (if m_u32NumScanouts a \<le> n then Some (StatusInvalidParameter, a)
      else do {
        let t = unat n;
        a1 \<leftarrow> on_ctrl (set_scanout (e_send e) n 0 0 0 0 0) a;
        s \<leftarrow> nth_opt (m_screen a1) t;
        front \<leftarrow> get_framebuffer_obj Front s;
        a2 \<leftarrow> (if front \<noteq> None then destroy_framebuffer_slot_obj e t Front False a1 else Some a1);
        a3 \<leftarrow> frame_close t a2;
        a4 \<leftarrow> upd_screen t (\<lambda>s. s\<lparr>m_FbSrcAddr := 0, m_FbWidth := 0, m_FbHeight := 0, m_FbStride := 0,
          m_FlushCount := 0, m_FlushStallCount := 0\<rparr>) a3;
        Some (StatusSuccess, a4) })"

definition black_out_screen :: "'q env \<Rightarrow> current_mode \<Rightarrow> 'q adapter \<Rightarrow> 'q adapter option" where
  "black_out_screen e cm a =
     (if cm_FrameBufferIsActive cm then do {
        let t = unat (di_TargetId (cm_DispInfo cm));
        let w = di_Width (cm_DispInfo cm);
        let h = di_Height (cm_DispInfo cm);
        s \<leftarrow> nth_opt (m_screen a) t;
        front \<leftarrow> get_framebuffer_obj Front s;
        case front of
          None \<Rightarrow> Some a
        | Some ob \<Rightarrow> do {
            a1 \<leftarrow> on_ctrl (transfer_to_host_2d (e_send e) (m_uiHwRes ob) 0 w h 0 0 None) a;
            flush_and_wait e (m_uiHwRes ob) w h t a1 } }
      else Some a)"

section \<open>The cursor\<close>

record pointer_shape =
  ps_X :: u32
  ps_Y :: u32
  ps_VidPnSourceId :: u32
  ps_Width :: u32
  ps_Height :: u32
  ps_XHot :: u32
  ps_YHot :: u32

text \<open>\<^verbatim>\<open>CreateCursor\<close>; the copy of the pixels into the segment does not touch the state
  modelled here.\<close>
definition create_cursor :: "'q env \<Rightarrow> pointer_shape \<Rightarrow> u32 \<Rightarrow> 'q adapter \<Rightarrow> (bool \<times> 'q adapter) option" where
  "create_cursor e ps cf a0 = do {
     let t = unat (ps_VidPnSourceId ps);
     let sz = POINTER_SIZE * POINTER_SIZE * 4;
     let fmt = color_format cf;
     let (resid, a1) = get_id e a0;
     a2 \<leftarrow> (if \<not> m_bBlobSupported a1
       then on_ctrl (create_resource (e_send e) resid fmt POINTER_SIZE POINTER_SIZE) a1 else Some a1);
     s \<leftarrow> nth_opt (m_screen a2) t;
     (ok, a3) \<leftarrow> (if m_pVAddr (m_CursorSegment s) = 0 then cursor_init (e_kernel e) sz t a2 else Some (True, a2));
     if \<not> e_obj_ok e (heap_of a3) then Some (False, a3)
     else do {
       s3 \<leftarrow> nth_opt (m_screen a3) t;
       let (iok, ob) = gpu_obj_init sz (CursorSeg t) (m_CursorSegment s3) new_gpu_obj;
       if \<not> iok then Some (False, a3)
       else do {
         (att, ob1, a4) \<leftarrow> gpu_object_attach e resid ob (ucast POINTER_SIZE) (ucast POINTER_SIZE)
           (ucast POINTER_SIZE) a3;
         if \<not> att then Some (False, a4)
         else do {
           a5 \<leftarrow> upd_screen t (\<lambda>s. s\<lparr>m_pCursorBuf := Some ob1\<rparr>) a4;
           a6 \<leftarrow> (if \<not> m_bBlobSupported a5
             then on_ctrl (transfer_to_host_2d (e_send e) resid 0 (ps_Width ps) (ps_Height ps) 0 0 None) a5
             else Some a5);
           Some (True, a6) } } } }"

definition cursor_cmd :: "u32 \<Rightarrow> u32 \<Rightarrow> u32 \<Rightarrow> u32 \<Rightarrow> u32 \<Rightarrow> u32 \<Rightarrow> u32 \<Rightarrow> gpu_cmd" where
  "cursor_cmd type scanout resid x y hx hy =
     \<lparr>cmd_hdr = zero_hdr\<lparr>h_type := type\<rparr>,
      cmd_body = UpdateCursor \<lparr>uc_pos = \<lparr>cp_scanout_id = scanout, cp_x = x, cp_y = y, cp_padding = 0\<rparr>,
        uc_resource_id = resid, uc_hot_x = hx, uc_hot_y = hy, uc_padding = 0\<rparr>\<rparr>"

text \<open>A command on the cursor queue, which shares the pool; FALSE: no buffer.\<close>
definition send_cursor :: "'q env \<Rightarrow> gpu_cmd \<Rightarrow> 'q adapter \<Rightarrow> (bool \<times> 'q adapter) option" where
  "send_cursor e c a = do {
     (p, q1) \<leftarrow> alloc_cursor (m_CtrlQueue a);
     if p = 0 then Some (False, a\<lparr>m_CtrlQueue := q1\<rparr>)
     else do {
       (r, q2) \<leftarrow> queue_cursor (k_mm (e_kernel e)) (e_ops e) (with_ring (m_CursorRing a) (set_cmd p c q1)) p;
       Some (r = 0, a\<lparr>m_CtrlQueue := with_ring (ring (m_CtrlQueue a)) q2, m_CursorRing := ring q2\<rparr>) } }"

definition set_pointer_shape :: "'q env \<Rightarrow> pointer_shape \<Rightarrow> u32 \<Rightarrow> 'q adapter \<Rightarrow> (ntstatus \<times> 'q adapter) option" where
  "set_pointer_shape e ps cf a = do {
     let t = unat (ps_VidPnSourceId ps);
     a1 \<leftarrow> destroy_cursor e t a;
     (ok, a2) \<leftarrow> create_cursor e ps cf a1;
     if \<not> ok then Some (StatusUnsuccessful, a2)
     else do {
       s \<leftarrow> nth_opt (m_screen a2) t;
       ob \<leftarrow> m_pCursorBuf s;
       (sent, a3) \<leftarrow> send_cursor e (cursor_cmd VIRTIO_GPU_CMD_UPDATE_CURSOR (ps_VidPnSourceId ps)
         (m_uiHwRes ob) (ps_X ps) (ps_Y ps) (ps_XHot ps) (ps_YHot ps)) a2;
       Some (if sent then StatusSuccess else StatusUnsuccessful, a3) } }"

definition set_pointer_position :: "'q env \<Rightarrow> u32 \<Rightarrow> u32 \<Rightarrow> u32 \<Rightarrow> 'q adapter \<Rightarrow> (ntstatus \<times> 'q adapter) option" where
  "set_pointer_position e src x y a = do {
     s \<leftarrow> nth_opt (m_screen a) (unat src);
     case m_pCursorBuf s of
       None \<Rightarrow> Some (StatusUnsuccessful, a)
     | Some ob \<Rightarrow> do {
         (sent, a1) \<leftarrow> send_cursor e (cursor_cmd VIRTIO_GPU_CMD_MOVE_CURSOR src (m_uiHwRes ob) x y 0 0) a;
         Some (if sent then StatusSuccess else StatusUnsuccessful, a1) } }"

end
