(* ===== verification/GpuProtocol.thy ===== *)
theory GpuProtocol
  imports GpuAdapter
begin

text \<open>
  The resource protocol between the adapter and the host.  The host is an abstract machine
  that accepts a command or refuses it, over the resources that exist and those that have
  memory; the adapter's operations, in any order and with the device acting while they
  wait, only ever emit commands it accepts.  The argument is an invariant that relates three
  views of a resource identifier: the bitmap it is taken in, the object that carries it,
  and the host's table.
\<close>

section \<open>The host\<close>

record host =
  h_res :: "u32 set"
  h_back :: "u32 set"

definition empty_host :: host where
  "empty_host = \<lparr>h_res = {}, h_back = {}\<rparr>"

definition add_res :: "u32 \<Rightarrow> bool \<Rightarrow> host \<Rightarrow> host option" where
  "add_res i backed h = (if i = 0 \<or> i \<in> h_res h then None
     else Some \<lparr>h_res = insert i (h_res h), h_back = (if backed then insert i (h_back h) else h_back h)\<rparr>)"

definition host_step :: "gpu_cmd \<Rightarrow> host \<Rightarrow> host option" where
  "host_step c h = (case cmd_body c of
     Create2D b \<Rightarrow> add_res (c2_resource_id b) False h
   | CreateBlob b \<Rightarrow> add_res (cb_resource_id b) True h
   | AttachBacking i n \<Rightarrow>
       if i \<in> h_res h - h_back h then Some (h\<lparr>h_back := insert i (h_back h)\<rparr>) else None
   | ResId i p \<Rightarrow>
       if i \<notin> h_res h then None
       else if h_type (cmd_hdr c) = VIRTIO_GPU_CMD_RESOURCE_UNREF
         then Some \<lparr>h_res = h_res h - {i}, h_back = h_back h - {i}\<rparr>
       else Some (h\<lparr>h_back := h_back h - {i}\<rparr>)
   | SetScanout b \<Rightarrow> if ss_resource_id b = 0 \<or> ss_resource_id b \<in> h_back h then Some h else None
   | SetScanoutBlob b \<Rightarrow> if sb_resource_id b \<in> h_back h then Some h else None
   | Transfer2D b \<Rightarrow> if tr_resource_id b \<in> h_back h then Some h else None
   | ResFlush b \<Rightarrow> if rf_resource_id b \<in> h_res h then Some h else None
   | NoBody \<Rightarrow> Some h | GetEdid s p \<Rightarrow> Some h | UpdateCursor b \<Rightarrow> Some h)"

fun host_run :: "gpu_cmd list \<Rightarrow> host \<Rightarrow> host option" where
  "host_run [] h = Some h"
| "host_run (c # cs) h = do { h' \<leftarrow> host_step c h; host_run cs h' }"

lemma host_run_append: "host_run (cs @ ds) h = do { h' \<leftarrow> host_run cs h; host_run ds h' }"
proof (induction cs arbitrary: h)
  case (Cons c cs)
  then show ?case by (cases "host_step c h") simp_all
qed simp

section \<open>Assumptions on the surroundings\<close>

text \<open>The log of the control ring, \<open>sent\<close>: a command that goes out is appended, nothing else
  changes it.  (A command that finds no free buffer or no room is dropped by the code;
  that is the case excluded here.)\<close>
definition log_channel :: "('q \<Rightarrow> gpu_cmd list) \<Rightarrow> 'q env \<Rightarrow> bool" where
  "log_channel sent e \<longleftrightarrow>
     (\<forall>c pl q p q'. e_send e c pl q = Some (p, q') \<longrightarrow> sent (ring q') = sent (ring q) @ [c])"

definition fb_view :: "screen \<Rightarrow> gpu_obj option list \<times> gpu_obj option \<times> nat" where
  "fb_view s = (m_pFrameBuf s, m_pCursorBuf s, m_FrontBufferIndex s)"

definition same_view :: "('q \<Rightarrow> gpu_cmd list) \<Rightarrow> 'q adapter \<Rightarrow> 'q adapter \<Rightarrow> bool" where
  "same_view sent a a' \<longleftrightarrow> sent (ring (m_CtrlQueue a')) = sent (ring (m_CtrlQueue a))
     \<and> m_Idr a' = m_Idr a \<and> m_bBlobSupported a' = m_bBlobSupported a
     \<and> m_u32NumScanouts a' = m_u32NumScanouts a
     \<and> map fb_view (m_screen a') = map fb_view (m_screen a)"

text \<open>While a thread waits, the device and the interrupt handler leave objects, identifiers and the log
  alone.\<close>
definition quiet_wait :: "('q \<Rightarrow> gpu_cmd list) \<Rightarrow> 'q env \<Rightarrow> bool" where
  "quiet_wait sent e \<longleftrightarrow> (\<forall>a a'. e_wait e a = Some a' \<longrightarrow> same_view sent a a')"

definition memory_for_entries :: "'q env \<Rightarrow> bool" where
  "memory_for_entries e \<longleftrightarrow> (\<forall>h n. k_alloc (e_kernel e) h n \<noteq> 0)"

section \<open>Views\<close>

lemma same_view_refl [simp]: "same_view sent a a"
  by (simp add: same_view_def)

lemma same_view_trans: "same_view sent a b \<Longrightarrow> same_view sent b c \<Longrightarrow> same_view sent a c"
  by (simp add: same_view_def)

lemma upd_screen_Some:
  "upd_screen t f a = Some a' \<longleftrightarrow> t < length (m_screen a) \<and> a' = a\<lparr>m_screen := (m_screen a)[t := f (m_screen a ! t)]\<rparr>"
  by (auto simp: upd_screen_def nth_opt_Some bind_eq_Some_conv)

lemma same_view_upd:
  assumes "upd_screen t f a = Some a'" "\<And>s. fb_view (f s) = fb_view s"
  shows "same_view sent a a'"
proof -
  have "map fb_view ((m_screen a)[t := f (m_screen a ! t)]) = map fb_view (m_screen a)"
    using assms by (simp add: upd_screen_Some map_update assms(2)) (metis list_update_id length_map nth_map)
  then show ?thesis using assms(1) by (simp add: upd_screen_Some same_view_def)
qed

lemma same_view_kmem [simp]: "same_view sent a (with_kmem k a)" "same_view sent a (with_heap h a)"
  "same_view sent a (a\<lparr>a_ents := x\<rparr>)" "same_view sent a (a\<lparr>m_CurrentModeInfo := c\<rparr>)"
  by (simp_all add: same_view_def with_kmem_def with_heap_def)

lemma same_view_kmem_upd:
  assumes "upd_screen t f (with_kmem k a) = Some a'" "\<And>s. fb_view (f s) = fb_view s"
  shows "same_view sent a a'"
  by (rule same_view_trans [OF same_view_kmem(1) same_view_upd [OF assms]])

lemma frame_close_view:
  assumes "frame_close t a = Some a'"
  shows "same_view sent a a'"
proof -
  obtain s g k where "upd_screen t (\<lambda>s. s\<lparr>m_FrameSegment := g\<rparr>) (with_kmem k a) = Some a'"
    using assms unfolding frame_close_def bind_eq_Some_conv by (auto split: prod.splits)
  then show ?thesis by (rule same_view_kmem_upd) (simp add: fb_view_def)
qed

lemma frame_init_view:
  assumes "frame_init K sz t a = Some (ok, a')"
  shows "same_view sent a a'"
proof -
  obtain s g k where "upd_screen t (\<lambda>s. s\<lparr>m_FrameSegment := g\<rparr>) (with_kmem k a) = Some a'"
    using assms unfolding frame_init_def by (auto simp: bind_eq_Some_conv split: prod.splits)
  then show ?thesis by (rule same_view_kmem_upd) (simp add: fb_view_def)
qed

lemma frame_init_ext_view:
  assumes "frame_init_ext K sz addr t a = Some (ok, a')"
  shows "same_view sent a a'"
proof -
  obtain s g k where "upd_screen t (\<lambda>s. s\<lparr>m_FrameSegment := g\<rparr>) (with_kmem k a) = Some a'"
    using assms unfolding frame_init_ext_def by (auto simp: bind_eq_Some_conv split: prod.splits)
  then show ?thesis by (rule same_view_kmem_upd) (simp add: fb_view_def)
qed

lemma cursor_init_view:
  assumes "cursor_init K sz t a = Some (ok, a')"
  shows "same_view sent a a'"
proof -
  obtain s g k where "upd_screen t (\<lambda>s. s\<lparr>m_CursorSegment := g\<rparr>) (with_kmem k a) = Some a'"
    using assms unfolding cursor_init_def by (auto simp: bind_eq_Some_conv split: prod.splits)
  then show ?thesis by (rule same_view_kmem_upd) (simp add: fb_view_def)
qed

lemma frame_memory_view: "frame_memory e sz addr t a = Some (ok, a') \<Longrightarrow> same_view sent a a'"
  unfolding frame_memory_def
  by (auto simp: bind_eq_Some_conv split: if_splits
      dest!: frame_init_ext_view [where sent = sent] frame_init_view [where sent = sent]
        frame_close_view [where sent = sent]
      intro: same_view_trans)

text \<open>Commands: the rest of the view stays.\<close>
definition issued :: "('q \<Rightarrow> gpu_cmd list) \<Rightarrow> gpu_cmd list \<Rightarrow> 'q adapter \<Rightarrow> 'q adapter \<Rightarrow> bool" where
  "issued sent cs a a' \<longleftrightarrow> sent (ring (m_CtrlQueue a')) = sent (ring (m_CtrlQueue a)) @ cs
     \<and> m_Idr a' = m_Idr a \<and> m_bBlobSupported a' = m_bBlobSupported a
     \<and> m_u32NumScanouts a' = m_u32NumScanouts a
     \<and> map fb_view (m_screen a') = map fb_view (m_screen a)"

lemma issued_view: "issued sent [] a a' \<longleftrightarrow> same_view sent a a'"
  by (simp add: issued_def same_view_def)

lemma issued_trans: "issued sent cs a b \<Longrightarrow> issued sent ds b c \<Longrightarrow> issued sent (cs @ ds) a c"
  by (simp add: issued_def)

lemma issued_send:
  assumes "log_channel sent e" "on_ctrl (\<lambda>q. map_option snd (e_send e c pl q)) a = Some a'"
  shows "issued sent [c] a a'"
proof -
  obtain q where q: "map_option snd (e_send e c pl (m_CtrlQueue a)) = Some q" "a' = a\<lparr>m_CtrlQueue := q\<rparr>"
    using assms(2) by (auto simp: on_ctrl_def bind_eq_Some_conv)
  obtain p where "e_send e c pl (m_CtrlQueue a) = Some (p, q)" using q(1) by auto
  then have "sent (ring q) = sent (ring (m_CtrlQueue a)) @ [c]" using assms(1) unfolding log_channel_def by blast
  then show ?thesis by (simp add: issued_def q(2))
qed

lemma issued_ops:
  assumes "log_channel sent e"
  shows "on_ctrl (create_resource (e_send e) i f w h) a = Some a' \<Longrightarrow>
      issued sent [create_resource_cmd i f w h] a a'"
    and "on_ctrl (create_resource_blob (e_send e) i es n wl hl st) a = Some a' \<Longrightarrow>
      issued sent [create_resource_blob_cmd i n hl st] a a'"
    and "on_ctrl (unref_resource (e_send e) i) a = Some a' \<Longrightarrow> issued sent [unref_resource_cmd i] a a'"
    and "on_ctrl (inval_backing (e_send e) i) a = Some a' \<Longrightarrow> issued sent [inval_backing_cmd i] a a'"
    and "on_ctrl (set_scanout (e_send e) sc i w h x y) a = Some a' \<Longrightarrow>
      issued sent [set_scanout_cmd sc i w h x y] a a'"
    and "on_ctrl (set_scanout_blob (e_send e) sc i w h f x y s) a = Some a' \<Longrightarrow>
      issued sent [set_scanout_blob_cmd sc i w h f x y s] a a'"
    and "on_ctrl (transfer_to_host_2d (e_send e) i off w h x y fe) a = Some a' \<Longrightarrow>
      issued sent [transfer_cmd i off w h x y fe] a a'"
    and "on_ctrl (attach_backing (e_send e) i es n) a = Some a' \<Longrightarrow> issued sent [attach_backing_cmd i n] a a'"
  unfolding create_resource_def create_resource_blob_def unref_resource_def inval_backing_def
    set_scanout_def set_scanout_blob_def transfer_to_host_2d_def attach_backing_def
  by (erule issued_send [OF assms])+

lemma flush_and_wait_issued:
  assumes "log_channel sent e" "quiet_wait sent e" "flush_and_wait e i w h t a = Some a'"
  shows "issued sent [res_flush_cmd i w h 0 0 (of_nat t)] a a'"
proof -
  obtain a1 p q where a1: "upd_screen t (\<lambda>s. s\<lparr>m_FlushCount := m_FlushCount s + 1\<rparr>) a = Some a1"
    "res_flush_submit (e_send e) i w h 0 0 (of_nat t) (e_flush_event e t) (m_CtrlQueue a1) = Some (p, q)"
    and r: "(if p = 0 then Some (a1\<lparr>m_CtrlQueue := q\<rparr>)
       else do { a3 \<leftarrow> e_wait e (a1\<lparr>m_CtrlQueue := q\<rparr>); on_ctrl (res_flush_finish p) a3 }) = Some a'"
    using assms(3) by (auto simp: flush_and_wait_def bind_eq_Some_conv Let_def)
  have v1: "same_view sent a a1" by (rule same_view_upd [OF a1(1)]) (simp add: fb_view_def)
  have "sent (ring q) = sent (ring (m_CtrlQueue a1)) @ [res_flush_cmd i w h 0 0 (of_nat t)]"
    using assms(1) a1(2) unfolding log_channel_def res_flush_submit_def by blast
  then have 2: "issued sent [res_flush_cmd i w h 0 0 (of_nat t)] a1 (a1\<lparr>m_CtrlQueue := q\<rparr>)"
    by (simp add: issued_def)
  have 3: "same_view sent (a1\<lparr>m_CtrlQueue := q\<rparr>) a'"
  proof (cases "p = 0")
    case True
    then show ?thesis using r by simp
  next
    case False
    then obtain a3 q' where a3: "e_wait e (a1\<lparr>m_CtrlQueue := q\<rparr>) = Some a3"
      "res_flush_finish p (m_CtrlQueue a3) = Some q'" "a' = a3\<lparr>m_CtrlQueue := q'\<rparr>"
      using r by (auto simp: bind_eq_Some_conv on_ctrl_def)
    have "ring q' = ring (m_CtrlQueue a3)"
      using a3(2) by (auto simp: res_flush_finish_def release_buffer_def bind_eq_Some_conv split: if_splits)
    then have "same_view sent a3 a'" by (simp add: same_view_def a3(3))
    then show ?thesis using assms(2) a3(1) unfolding quiet_wait_def by (blast intro: same_view_trans)
  qed
  show ?thesis using issued_trans [OF issued_trans [OF _ 2]] v1 3 by (metis append_Nil append_Nil2 issued_view)
qed

section \<open>Who holds an identifier\<close>

definition slot_ids :: "gpu_obj option \<Rightarrow> u32 multiset" where
  "slot_ids ob = (case ob of None \<Rightarrow> {#} | Some b \<Rightarrow> {#m_uiHwRes b#})"

definition view_ids :: "gpu_obj option list \<times> gpu_obj option \<times> nat \<Rightarrow> u32 multiset" where
  "view_ids v = sum_list (map slot_ids (fst v)) + slot_ids (fst (snd v))"

text \<open>The identifiers of the objects that exist, with their number.\<close>
definition object_ids :: "'q adapter \<Rightarrow> u32 multiset" where
  "object_ids a = sum_list (map view_ids (map fb_view (m_screen a)))"

definition view_ok :: "gpu_obj option list \<times> gpu_obj option \<times> nat \<Rightarrow> bool" where
  "view_ok v \<longleftrightarrow> length (fst v) = FRAMEBUFFER_COUNT \<and> snd (snd v) < FRAMEBUFFER_COUNT"

definition shape_ok :: "'q adapter \<Rightarrow> bool" where
  "shape_ok a \<longleftrightarrow> length (m_screen a) \<le> 16 \<and> (\<forall>v \<in> set (map fb_view (m_screen a)). view_ok v)
     \<and> unat (m_u32NumScanouts a) \<le> length (m_screen a) \<and> m_bBlobSupported a"

text \<open>A host whose resources are \<open>M\<close>, all with memory.\<close>
definition live :: "u32 multiset \<Rightarrow> host" where
  "live M = \<lparr>h_res = set_mset M, h_back = set_mset M\<rparr>"

text \<open>The invariant: the host accepts the log and then has the resources of the objects and of
  \<open>P\<close>, all with memory; the bitmap has these and \<open>T\<close>; nobody shares an identifier.\<close>
definition proto :: "('q \<Rightarrow> gpu_cmd list) \<Rightarrow> u32 multiset \<Rightarrow> u32 multiset \<Rightarrow> 'q adapter \<Rightarrow> bool" where
  "proto sent P T a \<longleftrightarrow> shape_ok a \<and> idr_inv 1 (m_Idr a)
     \<and> idr_taken 1 (m_Idr a) = set_mset (object_ids a + P + T) \<and> (\<forall>i. count (object_ids a + P + T) i \<le> 1)
     \<and> host_run (sent (ring (m_CtrlQueue a))) empty_host = Some (live (object_ids a + P))"

lemma same_view_ids: "same_view sent a a' \<Longrightarrow> object_ids a' = object_ids a"
  unfolding same_view_def object_ids_def by presburger

lemma issued_ids: "issued sent cs a a' \<Longrightarrow> object_ids a' = object_ids a"
  unfolding issued_def object_ids_def by presburger

lemma issued_shape: "issued sent cs a a' \<Longrightarrow> shape_ok a \<Longrightarrow> shape_ok a'"
  unfolding issued_def shape_ok_def by (metis length_map)

text \<open>Commands the host accepts.\<close>
lemma proto_issue:
  assumes "proto sent P T a" "issued sent cs a a'"
    and "host_run cs (live (object_ids a + P)) = Some (live (object_ids a + P'))"
    and "P' + T' = P + T"
  shows "proto sent P' T' a'"
proof -
  note ids = issued_ids [OF assms(2)]
  have sum: "object_ids a + P' + T' = object_ids a + P + T" using assms(4) by (simp only: add.assoc)
  have "host_run (sent (ring (m_CtrlQueue a'))) empty_host = Some (live (object_ids a + P'))"
    using assms(1-3) unfolding proto_def issued_def by (simp only: host_run_append bind.bind_lunit)
  then show ?thesis using assms(1,2) issued_shape [OF assms(2)] unfolding proto_def ids sum issued_def by simp
qed

lemma proto_view: "proto sent P T a \<Longrightarrow> same_view sent a a' \<Longrightarrow> proto sent P T a'"
  by (rule proto_issue [where cs = "[]"]) (simp_all add: issued_view)

lemma proto_use:
  assumes "proto sent P T a" "issued sent [c] a a'"
    and "\<And>h. h_back h = h_res h \<Longrightarrow> i \<in> h_res h \<Longrightarrow> host_step c h = Some h"
    and "i \<in># object_ids a + P"
  shows "proto sent P T a'"
proof (rule proto_issue [OF assms(1,2) _ refl])
  show "host_run [c] (live (object_ids a + P)) = Some (live (object_ids a + P))"
    using assms(3) [of "live (object_ids a + P)"] assms(4) by (simp add: live_def)
qed

lemma proto_id:
  assumes "proto sent P T a" "i \<in># T"
  shows "i \<noteq> 0" "i \<notin># object_ids a + P"
proof -
  have "i \<in> idr_taken 1 (m_Idr a)" using assms by (simp add: proto_def)
  then show "i \<noteq> 0" by (auto simp: idr_taken_def idr_ids_def)
  have "count (object_ids a + P) i + count T i \<le> 1" using assms(1) by (simp add: proto_def)
  moreover have "1 \<le> count T i" using assms(2) by simp
  ultimately have "count (object_ids a + P) i = 0" by linarith
  then show "i \<notin># object_ids a + P" by (simp only: not_in_iff)
qed

lemma live_create:
  "i \<noteq> 0 \<Longrightarrow> i \<notin># M \<Longrightarrow> host_run [create_resource_blob_cmd i n hl st] (live M) = Some (live (add_mset i M))"
  by (simp add: host_step_def create_resource_blob_cmd_def add_res_def live_def)

lemma live_destroy:
  assumes "count M i = 1"
  shows "host_run [inval_backing_cmd i, unref_resource_cmd i] (live M) = Some (live (M - {#i#}))"
proof -
  have "i \<in># M" using assms by (metis count_eq_zero_iff zero_neq_one)
  moreover have "set_mset (M - {#i#}) = set_mset M - {i}"
    using assms by (auto simp: in_diff_count set_eq_iff)
  ultimately show ?thesis
    by (simp add: host_step_def inval_backing_cmd_def unref_resource_cmd_def live_def
        VIRTIO_GPU_CMD_RESOURCE_UNREF_def VIRTIO_GPU_CMD_RESOURCE_DETACH_BACKING_def)
qed

lemma proto_create:
  assumes "proto sent P T a" "issued sent [create_resource_blob_cmd i n hl st] a a'" "i \<in># T"
  shows "proto sent (add_mset i P) (T - {#i#}) a'"
proof (rule proto_issue [OF assms(1,2)])
  show "host_run [create_resource_blob_cmd i n hl st] (live (object_ids a + P)) =
      Some (live (object_ids a + add_mset i P))"
    using live_create [OF proto_id [OF assms(1,3)]] by simp
  show "add_mset i P + (T - {#i#}) = P + T" using assms(3) by simp
qed

lemma proto_destroy:
  assumes "proto sent P T a" "issued sent [inval_backing_cmd i, unref_resource_cmd i] a b" "i \<in># P"
  shows "proto sent (P - {#i#}) (add_mset i T) b"
proof (rule proto_issue [OF assms(1,2)])
  have "count (object_ids a + P + T) i \<le> 1" using assms(1) unfolding proto_def by blast
  moreover have "1 \<le> count P i" using assms(3) by simp
  ultimately have "count (object_ids a + P) i = 1" unfolding count_union by linarith
  from live_destroy [OF this] show "host_run [inval_backing_cmd i, unref_resource_cmd i] (live (object_ids a + P)) =
      Some (live (object_ids a + (P - {#i#})))"
    by (simp only: diff_union_single_conv [OF assms(3)])
  show "P - {#i#} + add_mset i T = P + T" using assms(3) by simp
qed

section \<open>Identifiers and slots\<close>

lemma view_ids_size: "view_ok v \<Longrightarrow> size (view_ids v) \<le> 3"
proof -
  have one: "size (slot_ids ob) \<le> 1" for ob by (simp add: slot_ids_def split: option.split)
  assume "view_ok v"
  then obtain x y where xy: "fst v = [x, y]"
    by (auto simp: view_ok_def FRAMEBUFFER_COUNT_def length_Suc_conv numeral_2_eq_2)
  show ?thesis using one [of x] one [of y] one [of "fst (snd v)"] by (simp add: view_ids_def xy)
qed

lemma card_set_size: "card (set_mset M) \<le> size M"
  by (induction M) (auto simp: card_insert_if)

lemma card_word_range:
  assumes "n \<le> 2 ^ LENGTH(32)"
  shows "card {i :: u32. m \<le> unat i \<and> unat i < n} = n - m"
proof -
  have "unat ` {i :: u32. m \<le> unat i \<and> unat i < n} = {m..<n}"
  proof (intro set_eqI iffI)
    fix k
    assume k: "k \<in> {m..<n}"
    then have "k < n" by (simp only: atLeastLessThan_iff)
    then have "k < 2 ^ LENGTH(32)" using assms by (rule less_le_trans)
    then have u: "unat (of_nat k :: u32) = k" by (rule unat_of_nat_less)
    have "(of_nat k :: u32) \<in> {i. m \<le> unat i \<and> unat i < n}"
      unfolding mem_Collect_eq u using k by (simp only: atLeastLessThan_iff)
    then show "k \<in> unat ` {i :: u32. m \<le> unat i \<and> unat i < n}"
      by (rule image_eqI [where f = unat and x = "of_nat k", OF u [symmetric]])
  qed auto
  moreover have "card (unat ` {i :: u32. m \<le> unat i \<and> unat i < n}) = card {i :: u32. m \<le> unat i \<and> unat i < n}"
    by (rule card_image, rule inj_onI) (simp only: word_unat_eq_iff)
  ultimately show ?thesis by (simp only: card_atLeastLessThan)
qed

lemma card_idr_ids: "card (idr_ids 1) = 32767"
proof -
  have "idr_ids 1 = {i. 1 \<le> unat i \<and> unat i < 32768}"
    by (simp add: idr_ids_def IDR_BITS_eq word_le_nat_alt)
  then show ?thesis using card_word_range [of 32768 1] by simp
qed

lemma view_list_size: "\<forall>v \<in> set vs. view_ok v \<Longrightarrow> size (sum_list (map view_ids vs)) \<le> 3 * length vs"
  by (induction vs) (auto dest!: view_ids_size)

lemma object_ids_size:
  assumes "shape_ok a"
  shows "size (object_ids a) \<le> 48"
proof -
  have "size (object_ids a) \<le> 3 * length (map fb_view (m_screen a))"
    unfolding object_ids_def by (rule view_list_size) (use assms in \<open>unfold shape_ok_def, blast\<close>)
  then show ?thesis using assms by (simp add: shape_ok_def)
qed

lemma proto_get:
  assumes "rtl_bitmap (e_search e)" "proto sent P T a" "get_id e a = (i, a')" "size P + size T \<le> 32700"
  shows "proto sent P (add_mset i T) a'"
proof -
  obtain s where s: "idr_get_id (e_search e) (m_Idr a) = (i, s)" "a' = a\<lparr>m_Idr := s\<rparr>"
    using assms(3) by (auto simp: get_id_def split: prod.splits)
  let ?M = "object_ids a + P + T"
  have inv: "idr_inv 1 (m_Idr a)" "idr_taken 1 (m_Idr a) = set_mset ?M" "shape_ok a"
    using assms(2) by (auto simp: proto_def)
  have "i \<noteq> NOT_FOUND"
  proof
    assume "i = NOT_FOUND"
    then have "idr_get (e_search e) (m_Idr a) = (None, s)" using s(1) by (simp add: idr_get_def)
    from rtl_bitmap.get_exhausted [OF assms(1) inv(1) this] inv(2)
    have "idr_ids 1 \<subseteq> set_mset ?M" by simp
    then have "card (idr_ids 1) \<le> card (set_mset ?M)" by (rule card_mono [OF finite_set_mset])
    also have "\<dots> \<le> size ?M" by (rule card_set_size)
    also have "\<dots> \<le> 32748" using object_ids_size [OF inv(3)] assms(4) by simp
    finally show False using card_idr_ids by simp
  qed
  then have "idr_get (e_search e) (m_Idr a) = (Some i, s)" using s(1) by (simp add: idr_get_def)
  note g = rtl_bitmap.get_taken [OF assms(1) inv(1) this]
  then have "count ?M i = 0" using inv(2) by (simp only: not_in_iff)
  then have "\<forall>j. count (object_ids a + P + add_mset i T) j \<le> 1" using assms(2) by (simp add: proto_def)
  moreover have "object_ids a' = object_ids a" "shape_ok a'" using inv(3) by (simp_all add: s(2) object_ids_def shape_ok_def)
  ultimately show ?thesis using g assms(2) inv(2) by (simp add: proto_def s(2))
qed

lemma proto_put:
  assumes "proto sent P T a" "put_id i a = Some a'" "i \<in># T"
  shows "proto sent P (T - {#i#}) a'"
proof -
  obtain s where s: "idr_put_id i (m_Idr a) = Some s" "a' = a\<lparr>m_Idr := s\<rparr>"
    using assms(2) by (auto simp: put_id_def bind_eq_Some_conv)
  let ?M = "object_ids a + P + T" and ?M' = "object_ids a + P + (T - {#i#})"
  have M: "?M = add_mset i ?M'" using assms(3) by simp
  have inv: "idr_inv 1 (m_Idr a)" "idr_taken 1 (m_Idr a) = set_mset ?M" "\<forall>j. count ?M j \<le> 1"
    using assms(1) by (auto simp: proto_def)
  have "i \<in> idr_taken 1 (m_Idr a)" using inv(2) assms(3) by simp
  from put_taken [OF inv(1) this] s(1)
  have p: "idr_inv 1 s" "idr_taken 1 s = set_mset ?M - {i}" using inv(2) by auto
  have c: "count ?M' j \<le> 1" for j
    using spec [OF inv(3), of j] unfolding M count_add_mset by (rule order_trans [rotated]) simp
  have "count ?M' i = 0" using spec [OF inv(3), of i] unfolding M by simp
  then have "set_mset ?M - {i} = set_mset ?M'" unfolding M by (simp only: not_in_iff [symmetric]) auto
  moreover have "object_ids a' = object_ids a" "shape_ok a'"
    using assms(1) by (simp_all add: s(2) object_ids_def shape_ok_def proto_def)
  ultimately show ?thesis using p c assms(1) unfolding proto_def s(2) by simp
qed

lemma sum_list_swap:
  "t < length xs \<Longrightarrow> sum_list (xs[t := y]) + xs ! t = sum_list xs + (y :: 'a multiset)"
proof (induction xs arbitrary: t)
  case (Cons x xs)
  then show ?case by (cases t) (simp_all add: add.commute add.left_commute add.assoc)
qed simp

lemma slot_update_ids:
  assumes "j < length (m_pFrameBuf s)"
  shows "view_ids (fb_view (s\<lparr>m_pFrameBuf := (m_pFrameBuf s)[j := x]\<rparr>)) + slot_ids (m_pFrameBuf s ! j)
    = view_ids (fb_view s) + slot_ids x"
  using sum_list_swap [of j "map slot_ids (m_pFrameBuf s)" "slot_ids x"] assms
  by (simp add: view_ids_def fb_view_def map_update add.commute add.left_commute add.assoc)

text \<open>A change of the slots of a screen moves identifiers to or from \<open>P\<close>.\<close>
lemma proto_upd:
  assumes "proto sent P T a" "upd_screen t f a = Some a'" "view_ok (fb_view (f (m_screen a ! t)))"
    and "view_ids (fb_view (f (m_screen a ! t))) + P' = view_ids (fb_view (m_screen a ! t)) + P"
  shows "proto sent P' T a'"
proof -
  let ?f = "fb_view (f (m_screen a ! t))" and ?v = "fb_view (m_screen a ! t)"
  have t: "t < length (m_screen a)" "a' = a\<lparr>m_screen := (m_screen a)[t := f (m_screen a ! t)]\<rparr>"
    using assms(2) by (auto simp: upd_screen_Some)
  have "object_ids a' + view_ids ?v = object_ids a + view_ids ?f"
    using sum_list_swap [of t "map view_ids (map fb_view (m_screen a))" "view_ids ?f"] t
    by (simp add: object_ids_def map_update)
  then have "object_ids a' + P' + view_ids ?v = object_ids a + P + view_ids ?v"
    using assms(4) by (metis (no_types, lifting) add.assoc add.commute)
  then have sum: "object_ids a' + P' = object_ids a + P" by (rule add_right_imp_eq)
  have "view_ok (fb_view x)" if "x \<in> set (m_screen a')" for x
    using that assms(1,3) t set_update_subset_insert [of "m_screen a" t "f (m_screen a ! t)"]
    by (auto simp: proto_def shape_ok_def)
  then have "shape_ok a'" using assms(1) t by (simp add: proto_def shape_ok_def)
  then show ?thesis using assms(1) unfolding proto_def sum by (simp add: t(2))
qed

section \<open>The operations keep the protocol\<close>

lemma bind_SomeE:
  assumes "m \<bind> f = Some y"
  obtains x where "m = Some x" "f x = Some y"
  using assms by (auto simp: bind_eq_Some_conv)

lemma release_resource:
  assumes "log_channel sent e" "proto sent {#i#} T a"
    and "on_ctrl (inval_backing (e_send e) i) a = Some b" "on_ctrl (unref_resource (e_send e) i) b = Some c"
  shows "proto sent {#} (add_mset i T) c"
  using proto_destroy [OF assms(2) issued_trans [OF issued_ops(4) [OF assms(1,3)] issued_ops(3) [OF assms(1,4)], simplified]]
  by simp

lemma scanout_off:
  assumes "log_channel sent e" "proto sent P T a" "on_ctrl (set_scanout (e_send e) n 0 w h x y) a = Some a'"
  shows "proto sent P T a'"
  by (rule proto_issue [OF assms(2) issued_ops(5) [OF assms(1,3)] _ refl])
    (simp add: host_step_def set_scanout_cmd_def)

lemma destroy_framebuffer_obj_proto:
  assumes "log_channel sent e" "proto sent {#} T a" "destroy_framebuffer_obj e t j r a = Some a'"
  shows "proto sent {#} T a'"
proof -
  obtain s ob a1 where s: "nth_opt (m_screen a) t = Some s" "nth_opt (m_pFrameBuf s) j = Some ob"
    and a1: "upd_screen t (\<lambda>s. s\<lparr>m_pFrameBuf := (m_pFrameBuf s)[j := None]\<rparr>) a = Some a1"
    and r: "(case ob of None \<Rightarrow> Some a1 | Some fbuf \<Rightarrow> do {
         let resid = m_uiHwRes fbuf;
         a2 \<leftarrow> on_ctrl (inval_backing (e_send e) resid) a1;
         a3 \<leftarrow> on_ctrl (unref_resource (e_send e) resid) a2;
         a4 \<leftarrow> (if r then on_ctrl (set_scanout (e_send e) 0 0 0 0 0 0) a3 else Some a3);
         put_id resid a4 }) = Some a'"
    using assms(3) unfolding destroy_framebuffer_obj_def by (elim bind_SomeE) blast
  have st: "m_screen a ! t = s" "j < length (m_pFrameBuf s)" "ob = m_pFrameBuf s ! j" "t < length (m_screen a)"
    using s by (auto simp: nth_opt_Some)
  have "view_ok (fb_view s)" using assms(2) st by (auto simp: proto_def shape_ok_def)
  then have "proto sent (slot_ids ob) T a1"
    using slot_update_ids [OF st(2), of None] st
    by (intro proto_upd [OF assms(2) a1]) (simp_all add: view_ok_def fb_view_def slot_ids_def [of None])
  show ?thesis
  proof (cases ob)
    case None
    then show ?thesis using r \<open>proto sent (slot_ids ob) T a1\<close> by (simp add: slot_ids_def)
  next
    case (Some fb)
    then obtain a2 a3 a4 where 2: "on_ctrl (inval_backing (e_send e) (m_uiHwRes fb)) a1 = Some a2"
        "on_ctrl (unref_resource (e_send e) (m_uiHwRes fb)) a2 = Some a3"
      and 4: "(if r then on_ctrl (set_scanout (e_send e) 0 0 0 0 0 0) a3 else Some a3) = Some a4"
      and 5: "put_id (m_uiHwRes fb) a4 = Some a'"
      using r by (auto simp: Let_def elim!: bind_SomeE)
    have p1: "proto sent {#m_uiHwRes fb#} T a1" using \<open>proto sent (slot_ids ob) T a1\<close> Some by (simp add: slot_ids_def)
    have "proto sent {#} (add_mset (m_uiHwRes fb) T) a3" by (rule release_resource [OF assms(1) p1 2])
    then have "proto sent {#} (add_mset (m_uiHwRes fb) T) a4"
      using 4 scanout_off [OF assms(1)] by (cases r) auto
    from proto_put [OF this 5] show ?thesis by simp
  qed
qed

lemma on_ctrl_screen: "on_ctrl f a = Some a' \<Longrightarrow> m_screen a' = m_screen a"
  by (auto simp: on_ctrl_def elim!: bind_SomeE)

lemma put_id_screen: "put_id i a = Some a' \<Longrightarrow> m_screen a' = m_screen a"
  by (auto simp: put_id_def elim!: bind_SomeE)

definition front_free :: "nat \<Rightarrow> 'q adapter \<Rightarrow> bool" where
  "front_free t a \<longleftrightarrow> (case map fb_view (m_screen a) ! t of (fs, c, k) \<Rightarrow> fs ! k = None)"

lemma front_free_view: "same_view sent a a' \<Longrightarrow> front_free t a \<Longrightarrow> front_free t a'"
  unfolding front_free_def same_view_def by metis

lemma front_free_issued: "issued sent cs a a' \<Longrightarrow> front_free t a \<Longrightarrow> front_free t a'"
  unfolding front_free_def issued_def by metis

lemma shape_front:
  assumes "shape_ok a" "t < length (m_screen a)"
  shows "get_framebuffer_index Front (m_screen a ! t) = m_FrontBufferIndex (m_screen a ! t)"
    "m_FrontBufferIndex (m_screen a ! t) < length (m_pFrameBuf (m_screen a ! t))"
    "view_ok (fb_view (m_screen a ! t))"
    "front_free t a \<longleftrightarrow> m_pFrameBuf (m_screen a ! t) ! m_FrontBufferIndex (m_screen a ! t) = None"
proof -
  show v: "view_ok (fb_view (m_screen a ! t))" using assms by (simp add: shape_ok_def)
  then show "get_framebuffer_index Front (m_screen a ! t) = m_FrontBufferIndex (m_screen a ! t)"
    "m_FrontBufferIndex (m_screen a ! t) < length (m_pFrameBuf (m_screen a ! t))"
    by (simp_all add: view_ok_def fb_view_def get_framebuffer_index_def)
  show "front_free t a \<longleftrightarrow> m_pFrameBuf (m_screen a ! t) ! m_FrontBufferIndex (m_screen a ! t) = None"
    using assms(2) by (simp add: front_free_def fb_view_def)
qed

lemma destroy_slot_frees:
  assumes "shape_ok a" "destroy_framebuffer_slot_obj e t Front r a = Some a'"
  shows "front_free t a' \<and> length (m_screen a') = length (m_screen a)"
proof -
  obtain s where s: "nth_opt (m_screen a) t = Some s"
    "destroy_framebuffer_obj e t (get_framebuffer_index Front s) r a = Some a'"
    using assms(2) unfolding destroy_framebuffer_slot_obj_def by (elim bind_SomeE)
  then have st: "t < length (m_screen a)" "s = m_screen a ! t" by (auto simp: nth_opt_Some)
  obtain ob :: "gpu_obj option" and a1 where a1: "upd_screen t (\<lambda>s'. s'\<lparr>m_pFrameBuf := (m_pFrameBuf s')[get_framebuffer_index Front s := None]\<rparr>) a = Some a1"
    and r: "(case ob of None \<Rightarrow> Some a1 | Some fbuf \<Rightarrow> do {
         let resid = m_uiHwRes fbuf;
         a2 \<leftarrow> on_ctrl (inval_backing (e_send e) resid) a1;
         a3 \<leftarrow> on_ctrl (unref_resource (e_send e) resid) a2;
         a4 \<leftarrow> (if r then on_ctrl (set_scanout (e_send e) 0 0 0 0 0 0) a3 else Some a3);
         put_id resid a4 }) = Some a'"
    using s(2) unfolding destroy_framebuffer_obj_def by (elim bind_SomeE) (rule that, assumption+)
  have "m_screen a' = m_screen a1"
    using r by (auto simp: Let_def split: option.splits if_splits elim!: bind_SomeE dest!: on_ctrl_screen put_id_screen)
  then show ?thesis using a1 shape_front(1,2) [OF assms(1) st(1)] st
    by (simp add: upd_screen_Some front_free_def fb_view_def)
qed

lemma attach_proto:
  assumes "log_channel sent e" "memory_for_entries e" "proto sent {#} (add_mset i T) a"
    and "gpu_object_attach e i ob w h st a = Some (ok, ob', a')"
  shows "ok \<and> proto sent {#i#} T a' \<and> m_uiHwRes ob' = i \<and> map fb_view (m_screen a') = map fb_view (m_screen a)"
proof -
  have blob: "m_bBlobSupported a" using assms(3) by (simp add: proto_def shape_ok_def)
  obtain r g p es where g: "m_pSegment ob = Some r" "segment_of a r = Some g" "m_pSGList g = Some (p, es)"
    using assms(4) unfolding gpu_object_attach_def by (auto elim!: bind_SomeE)
  define n :: u32 where "n = of_nat (length es)"
  define ents where "ents = k_alloc (e_kernel e) (heap_of a) (ucast (SIZEOF_GPU_MEM_ENTRY * n))"
  define a1 where "a1 = (with_heap (insert ents (heap_of a)) a)\<lparr>a_ents := (a_ents a)(ents \<mapsto>
         map (\<lambda>(pa, len). \<lparr>me_addr = pa, me_length = len, me_padding = 0\<rparr>) es)\<rparr>"
  have "ents \<noteq> 0" using assms(2) by (simp add: ents_def memory_for_entries_def)
  then have c: "on_ctrl (create_resource_blob (e_send e) i ents n w h st) a1 = Some a'"
    and ob: "ok" "ob' = ob\<lparr>m_uiHwRes := i\<rparr>"
    using assms(4) g blob unfolding gpu_object_attach_def
    by (auto simp: Let_def ents_def n_def a1_def elim!: bind_SomeE)
  have v: "same_view sent a a1" unfolding a1_def by (rule same_view_trans [OF same_view_kmem(2,3)])
  have "proto sent {#i#} T a'"
    using proto_create [OF proto_view [OF assms(3) v] issued_ops(2) [OF assms(1) c]] by simp
  moreover have "map fb_view (m_screen a') = map fb_view (m_screen a)"
    using v on_ctrl_screen [OF c] by (simp add: same_view_def)
  ultimately show ?thesis using ob by simp
qed

lemma use_blob:
  assumes "log_channel sent e" "proto sent P T a" "i \<in># object_ids a + P"
    and "on_ctrl (set_scanout_blob (e_send e) n i w h f x y st) a = Some a'"
  shows "proto sent P T a'"
  by (rule proto_use [OF assms(2) issued_ops(6) [OF assms(1,4)] _ assms(3)])
    (simp add: host_step_def set_scanout_blob_cmd_def)

lemma use_flush:
  assumes "log_channel sent e" "quiet_wait sent e" "proto sent P T a" "i \<in># object_ids a + P"
    and "flush_and_wait e i w h t a = Some a'"
  shows "proto sent P T a'"
  by (rule proto_use [OF assms(3) flush_and_wait_issued [OF assms(1,2,5)] _ assms(4)])
    (simp add: host_step_def res_flush_cmd_def)

lemma use_transfer:
  assumes "log_channel sent e" "proto sent P T a" "i \<in># object_ids a + P"
    and "on_ctrl (transfer_to_host_2d (e_send e) i off w h x y fe) a = Some a'"
  shows "proto sent P T a'"
  by (rule proto_use [OF assms(2) issued_ops(7) [OF assms(1,4)] _ assms(3)])
    (simp add: host_step_def transfer_cmd_def)

text \<open>The part of \<^verbatim>\<open>CreateFrameBufferObj\<close> that runs when the memory and the object are there.\<close>
definition create_tail :: "'q env \<Rightarrow> video_mode \<Rightarrow> nat \<Rightarrow> fb_slot \<Rightarrow> current_mode \<Rightarrow> u32 \<Rightarrow> gpu_obj \<Rightarrow> 'q adapter \<Rightarrow>
    (current_mode \<times> 'q adapter) option" where
  "create_tail e vm t slot cm resid ob a3 = do {
     let w = VisScreenWidth vm;
     let h = VisScreenHeight vm;
     let fmt = color_format (di_ColorFormat (cm_DispInfo cm));
     (att, ob1, a4) \<leftarrow> gpu_object_attach e resid ob (ucast w) (ucast h) (ucast (cm_Stride cm)) a3;
     a5 \<leftarrow> (if m_bBlobSupported a4
       then on_ctrl (set_scanout_blob (e_send e) (of_nat t) resid w h fmt 0 0 (cm_Stride cm)) a4
       else do {
         b \<leftarrow> on_ctrl (set_scanout (e_send e) (of_nat t) resid w h 0 0) a4;
         on_ctrl (transfer_to_host_2d (e_send e) resid 0 w h 0 0 None) b });
     a6 \<leftarrow> flush_and_wait e resid w h t a5;
     s6 \<leftarrow> nth_opt (m_screen a6) t;
     s7 \<leftarrow> set_framebuffer_obj ob1 slot s6;
     a7 \<leftarrow> upd_screen t (\<lambda>_. s7) a6;
     v \<leftarrow> obj_address a7 ob1;
     Some (cm\<lparr>cm_FrameBuffer := v, cm_FrameBufferIsActive := True\<rparr>, a7) }"

lemma create_framebuffer_obj_split:
  "create_framebuffer_obj e vm t slot cm a0 = (case get_id e a0 of (i, a1) \<Rightarrow> do {
     a2 \<leftarrow> (if \<not> m_bBlobSupported a1 then on_ctrl (create_resource (e_send e) i
         (color_format (di_ColorFormat (cm_DispInfo cm))) (VisScreenWidth vm) (VisScreenHeight vm)) a1 else Some a1);
     (ok, a3) \<leftarrow> frame_memory e (di_Pitch (cm_DispInfo cm) * VisScreenHeight vm) (cm_FrameBuffer cm) t a2;
     if \<not> ok then do { a4 \<leftarrow> put_id i a3; Some (cm, a4) }
     else if \<not> e_obj_ok e (heap_of a3) then do { a4 \<leftarrow> put_id i a3; Some (cm, a4) }
     else do {
       s \<leftarrow> nth_opt (m_screen a3) t;
       case gpu_obj_init (di_Pitch (cm_DispInfo cm) * VisScreenHeight vm) (FrameSeg t) (m_FrameSegment s) new_gpu_obj of
         (iok, ob) \<Rightarrow> if \<not> iok then do { a4 \<leftarrow> put_id i a3; Some (cm, a4) }
           else create_tail e vm t slot cm i ob a3 } })"
  unfolding create_framebuffer_obj_def create_tail_def
  by (simp add: Let_def case_prod_unfold cong: if_cong split del: if_split)

lemma create_tail_proto:
  assumes "log_channel sent e" "quiet_wait sent e" "memory_for_entries e"
    and "proto sent {#} (add_mset i T) a3" "front_free t a3" "t < length (m_screen a3)"
    and "create_tail e vm t Front cm i ob a3 = Some (cm', a')"
  shows "proto sent {#} T a'"
proof -
  obtain att ob1 a4 where att: "gpu_object_attach e i ob (ucast (VisScreenWidth vm)) (ucast (VisScreenHeight vm))
      (ucast (cm_Stride cm)) a3 = Some (att, ob1, a4)"
    using assms(7) unfolding create_tail_def by (auto simp: Let_def elim!: bind_SomeE)
  note 4 = attach_proto [OF assms(1,3,4) att]
  then have p4: "proto sent {#i#} T a4" by blast
  then have blob: "m_bBlobSupported a4" by (simp add: proto_def shape_ok_def)
  obtain a5 a6 s7 where a5: "on_ctrl (set_scanout_blob (e_send e) (of_nat t) i (VisScreenWidth vm) (VisScreenHeight vm)
        (color_format (di_ColorFormat (cm_DispInfo cm))) 0 0 (cm_Stride cm)) a4 = Some a5"
    and a6: "flush_and_wait e i (VisScreenWidth vm) (VisScreenHeight vm) t a5 = Some a6"
    and s7: "set_framebuffer_obj ob1 Front (m_screen a6 ! t) = Some s7" "upd_screen t (\<lambda>_. s7) a6 = Some a'"
    using assms(7) att blob unfolding create_tail_def by (auto simp: Let_def nth_opt_Some elim!: bind_SomeE)
  have p5: "proto sent {#i#} T a5" by (rule use_blob [OF assms(1) p4 _ a5]) simp
  have p6: "proto sent {#i#} T a6" by (rule use_flush [OF assms(1,2) p5 _ a6]) simp
  have v6: "map fb_view (m_screen a6) = map fb_view (m_screen a3)"
    using 4 on_ctrl_screen [OF a5] flush_and_wait_issued [OF assms(1,2) a6] by (simp add: issued_def)
  have l6: "t < length (m_screen a6)" using assms(6) arg_cong [OF v6, of length] by simp
  have free: "front_free t a6" using assms(5) unfolding front_free_def v6 .
  have "shape_ok a6" using p6 by (simp add: proto_def)
  note f = shape_front [OF this l6]
  let ?s = "m_screen a6 ! t"
  have s7': "s7 = ?s\<lparr>m_pFrameBuf := (m_pFrameBuf ?s)[m_FrontBufferIndex ?s := Some ob1]\<rparr>"
    using s7(1) f(1,2) by (simp add: set_framebuffer_obj_def)
  show ?thesis
  proof (rule proto_upd [OF p6 s7(2)])
    show "view_ok (fb_view s7)" using f(3) by (simp add: s7' view_ok_def fb_view_def)
    show "view_ids (fb_view s7) + {#} = view_ids (fb_view ?s) + {#i#}"
      using slot_update_ids [OF f(2), of "Some ob1"] f(4) free 4 by (simp add: s7' slot_ids_def)
  qed
qed

lemma create_framebuffer_obj_proto:
  assumes "log_channel sent e" "quiet_wait sent e" "memory_for_entries e" "rtl_bitmap (e_search e)"
    and "proto sent {#} T a" "size T \<le> 32700" "front_free t a" "t < length (m_screen a)"
    and "create_framebuffer_obj e vm t Front cm a = Some (cm', a')"
  shows "proto sent {#} T a'"
proof -
  define i a1 where "i = fst (get_id e a)" and "a1 = snd (get_id e a)"
  have g: "get_id e a = (i, a1)" by (simp add: i_def a1_def)
  have p1: "proto sent {#} (add_mset i T) a1" using proto_get [OF assms(4,5) g] assms(6) by simp
  have s1: "m_screen a1 = m_screen a" using g by (auto simp: get_id_def split: prod.splits)
  have blob: "m_bBlobSupported a1" using p1 by (simp add: proto_def shape_ok_def)
  define sz where "sz = di_Pitch (cm_DispInfo cm) * VisScreenHeight vm"
  obtain ok a3 where m: "frame_memory e sz (cm_FrameBuffer cm) t a1 = Some (ok, a3)"
    using assms(9) g blob unfolding create_framebuffer_obj_split
    by (auto simp: sz_def elim!: bind_SomeE)
  note v3 = frame_memory_view [OF m, of sent]
  have p3: "proto sent {#} (add_mset i T) a3" by (rule proto_view [OF p1 v3])
  have r: "(if \<not> ok then do { a4 \<leftarrow> put_id i a3; Some (cm, a4) }
     else if \<not> e_obj_ok e (heap_of a3) then do { a4 \<leftarrow> put_id i a3; Some (cm, a4) }
     else do {
       s \<leftarrow> nth_opt (m_screen a3) t;
       case gpu_obj_init sz (FrameSeg t) (m_FrameSegment s) new_gpu_obj of
         (iok, ob) \<Rightarrow> if \<not> iok then do { a4 \<leftarrow> put_id i a3; Some (cm, a4) }
           else create_tail e vm t Front cm i ob a3 }) = Some (cm', a')"
    using assms(9) g blob m by (simp add: create_framebuffer_obj_split sz_def cong: if_cong)
  have fail: ?thesis if "do { a4 \<leftarrow> put_id i a3; Some (cm, a4) } = Some (cm', a')"
    using that proto_put [OF p3, of i a'] by (auto elim!: bind_SomeE)
  have l: "t < length (m_screen a3)" using v3 s1 assms(8) unfolding same_view_def by (metis length_map)
  have free: "front_free t a3" using front_free_view [OF v3] assms(7) by (simp add: front_free_def s1)
  obtain iok ob where iok: "gpu_obj_init sz (FrameSeg t) (m_FrameSegment (m_screen a3 ! t)) new_gpu_obj = (iok, ob)"
    by fastforce
  show ?thesis
  proof (cases "ok \<and> e_obj_ok e (heap_of a3) \<and> iok")
    case False
    then show ?thesis using r fail iok l by (auto split: if_splits)
  next
    case True
    then have "create_tail e vm t Front cm i ob a3 = Some (cm', a')" using r iok l by simp
    then show ?thesis by (rule create_tail_proto [OF assms(1-3) p3 free l])
  qed
qed

lemma elem_sum_list_mset: "x \<in> set xs \<Longrightarrow> x \<subseteq># sum_list xs"
  by (induction xs) (auto intro: subset_mset.trans [OF _ mset_subset_eq_add_right])

lemma slot_object:
  assumes "t < length (m_screen a)" "nth_opt (m_pFrameBuf (m_screen a ! t)) j = Some (Some ob)"
  shows "m_uiHwRes ob \<in># object_ids a"
proof -
  have "slot_ids (Some ob) \<subseteq># sum_list (map slot_ids (m_pFrameBuf (m_screen a ! t)))"
    using assms(2) by (intro elem_sum_list_mset) (force simp: nth_opt_Some in_set_conv_nth)
  also have "\<dots> \<subseteq># view_ids (fb_view (m_screen a ! t))" by (simp add: view_ids_def fb_view_def)
  also have "\<dots> \<subseteq># object_ids a"
    unfolding object_ids_def using assms(1) by (intro elem_sum_list_mset) force
  finally show ?thesis by (simp add: slot_ids_def)
qed

lemma cursor_object:
  assumes "t < length (m_screen a)" "m_pCursorBuf (m_screen a ! t) = Some ob"
  shows "m_uiHwRes ob \<in># object_ids a"
proof -
  have "slot_ids (Some ob) \<subseteq># view_ids (fb_view (m_screen a ! t))"
    using assms(2) by (simp add: view_ids_def fb_view_def)
  also have "\<dots> \<subseteq># object_ids a"
    unfolding object_ids_def using assms(1) by (intro elem_sum_list_mset) force
  finally show ?thesis by (simp add: slot_ids_def)
qed

lemma flush_framebuffer_obj_proto:
  assumes "log_channel sent e" "quiet_wait sent e" "proto sent {#} T a"
    and "flush_framebuffer_obj e vm t cm a = Some (cm', a')"
  shows "proto sent {#} T a'"
proof -
  obtain s fo where s: "nth_opt (m_screen a) t = Some s" "get_framebuffer_obj Front s = Some fo"
    using assms(4) unfolding flush_framebuffer_obj_def by (elim bind_SomeE)
  show ?thesis
  proof (cases fo)
    case None
    then show ?thesis using assms(3,4) s by (simp add: flush_framebuffer_obj_def)
  next
    case (Some ob)
    have "m_bBlobSupported a" using assms(3) by (simp add: proto_def shape_ok_def)
    then have "flush_and_wait e (m_uiHwRes ob) (VisScreenWidth vm) (VisScreenHeight vm) t a = Some a'"
      using assms(4) s Some unfolding flush_framebuffer_obj_def by (auto simp: Let_def elim!: bind_SomeE)
    moreover have "m_uiHwRes ob \<in># object_ids a + {#}"
      using s Some slot_object [of t a _ ob] by (auto simp: nth_opt_Some get_framebuffer_obj_def)
    ultimately show ?thesis using use_flush [OF assms(1-3)] by blast
  qed
qed

lemma present_frame_proto:
  assumes "log_channel sent e" "quiet_wait sent e" "memory_for_entries e" "rtl_bitmap (e_search e)"
    and "proto sent {#} T a" "size T \<le> 32700" "present_frame e vm t cm a = Some (tk, cm', a')"
  shows "proto sent {#} T a'"
proof -
  let ?a = "a\<lparr>m_CurrentModeInfo := cm\<rparr>"
  obtain s go s1 a1 where s: "nth_opt (m_screen a) t = Some s" "flush_gate (cm_SetMode cm) s = (go, s1)"
    and a1: "upd_screen t (\<lambda>_. s1) ?a = Some a1"
    and r: "(if \<not> go then Some (False, cm, a1)
     else do {
       front \<leftarrow> get_framebuffer_obj Front s1;
       (cm', a') \<leftarrow> (if backing_changed cm front s1 then do {
           a2 \<leftarrow> (if front \<noteq> None then destroy_framebuffer_slot_obj e t Front False a1 else Some a1);
           a3 \<leftarrow> upd_screen t (\<lambda>s. s\<lparr>m_FbSrcAddr := cm_FrameBuffer cm, m_FbWidth := di_Width (cm_DispInfo cm),
             m_FbHeight := di_Height (cm_DispInfo cm), m_FbStride := cm_Stride cm\<rparr>) a2;
           create_framebuffer_obj e vm t Front cm a3 }
         else flush_framebuffer_obj e vm t cm a1);
       Some (True, cm', a') }) = Some (tk, cm', a')"
    using assms(7) unfolding present_frame_def
    by (auto simp: Let_def simp del: bind_assoc split: prod.splits elim!: bind_SomeE)
  have t: "t < length (m_screen a)" "s = m_screen a ! t" using s(1) by (auto simp: nth_opt_Some)
  have "fb_view s1 = fb_view s"
    using s(2) by (auto simp: flush_gate_def Let_def fb_view_def split: if_splits)
  then have "map fb_view (m_screen a1) = map fb_view (m_screen a)"
    using a1 t by (simp add: upd_screen_Some map_update) (metis list_update_id length_map nth_map)
  then have v1: "same_view sent a a1" using a1 by (simp add: same_view_def upd_screen_Some)
  have p1: "proto sent {#} T a1" by (rule proto_view [OF assms(5) v1])
  have t1: "t < length (m_screen a1)" "m_screen a1 ! t = s1" using a1 t by (auto simp: upd_screen_Some)
  show ?thesis
  proof (cases go)
    case False
    then show ?thesis using r p1 by simp
  next
    case True
    then obtain front where f: "get_framebuffer_obj Front s1 = Some front" using r by (auto elim!: bind_SomeE)
    show ?thesis
    proof (cases "backing_changed cm front s1")
      case False
      then have "flush_framebuffer_obj e vm t cm a1 = Some (cm', a')"
        using r True f by (auto elim!: bind_SomeE)
      then show ?thesis by (rule flush_framebuffer_obj_proto [OF assms(1,2) p1])
    next
      case change: True
      then obtain a2 a3 where a2: "(if front \<noteq> None then destroy_framebuffer_slot_obj e t Front False a1 else Some a1) = Some a2"
        and a3: "upd_screen t (\<lambda>s. s\<lparr>m_FbSrcAddr := cm_FrameBuffer cm, m_FbWidth := di_Width (cm_DispInfo cm),
             m_FbHeight := di_Height (cm_DispInfo cm), m_FbStride := cm_Stride cm\<rparr>) a2 = Some a3"
        and c: "create_framebuffer_obj e vm t Front cm a3 = Some (cm', a')"
        using r True f by (auto elim!: bind_SomeE split: if_splits)
      have sh: "shape_ok a1" using p1 by (simp add: proto_def)
      have "proto sent {#} T a2 \<and> front_free t a2 \<and> length (m_screen a2) = length (m_screen a1)"
      proof (cases front)
        case None
        then show ?thesis using a2 p1 f shape_front [OF sh t1(1)] t1
          by (simp add: get_framebuffer_obj_def nth_opt_Some)
      next
        case (Some ob)
        then have d: "destroy_framebuffer_slot_obj e t Front False a1 = Some a2" using a2 by simp
        then show ?thesis using destroy_slot_frees [OF sh d] destroy_framebuffer_obj_proto [OF assms(1) p1]
          by (auto simp: destroy_framebuffer_slot_obj_def elim!: bind_SomeE)
      qed
      moreover have v3: "same_view sent a2 a3" by (rule same_view_upd [OF a3]) (simp add: fb_view_def)
      ultimately have "proto sent {#} T a3" "front_free t a3" "t < length (m_screen a3)"
        using proto_view front_free_view a3 by (blast, blast, simp add: upd_screen_Some)
      from create_framebuffer_obj_proto [OF assms(1-4) this(1) assms(6) this(2,3) c] show ?thesis .
    qed
  qed
qed

lemma set_current_mode_ext_proto:
  assumes "log_channel sent e" "quiet_wait sent e" "memory_for_entries e" "rtl_bitmap (e_search e)"
    and "proto sent {#} T a" "size T \<le> 32700" "set_current_mode_ext e cmo a = Some (st, tk, a')"
  shows "proto sent {#} T a'"
proof (cases cmo)
  case (Some cm)
  obtain s vm where s: "nth_opt (m_screen a) (unat (di_TargetId (cm_DispInfo cm))) = Some s"
    "find_mode s (cm_DispInfo cm) 0 = Some vm"
    using assms(7) Some unfolding set_current_mode_ext_def by (auto simp: Let_def elim!: bind_SomeE)
  show ?thesis
  proof (cases vm)
    case None
    then show ?thesis using assms(5,7) Some s by (simp add: set_current_mode_ext_def Let_def)
  next
    case vm: (Some v)
    then obtain cm' where "present_frame e v (unat (di_TargetId (cm_DispInfo cm))) cm a = Some (tk, cm', a')"
      using assms(7) Some s by (auto simp: set_current_mode_ext_def Let_def elim!: bind_SomeE)
    then show ?thesis by (rule present_frame_proto [OF assms(1-6)])
  qed
qed (use assms in \<open>simp add: set_current_mode_ext_def\<close>)

lemma release_frame_buffer_proto:
  assumes "log_channel sent e" "proto sent {#} T a" "release_frame_buffer e n a = Some (st, a')"
  shows "proto sent {#} T a'"
proof (cases "m_u32NumScanouts a \<le> n")
  case False
  obtain a1 a2 a3 where a1: "on_ctrl (set_scanout (e_send e) n 0 0 0 0 0) a = Some a1"
    and a2: "a2 = a1 \<or> destroy_framebuffer_slot_obj e (unat n) Front False a1 = Some a2"
    and a3: "frame_close (unat n) a2 = Some a3"
    and a4: "upd_screen (unat n) (\<lambda>s. s\<lparr>m_FbSrcAddr := 0, m_FbWidth := 0, m_FbHeight := 0, m_FbStride := 0,
          m_FlushCount := 0, m_FlushStallCount := 0\<rparr>) a3 = Some a'"
    using assms(3) False unfolding release_frame_buffer_def
    by (fastforce simp: Let_def elim!: bind_SomeE split: if_splits)
  have p1: "proto sent {#} T a1" by (rule scanout_off [OF assms(1,2) a1])
  have "proto sent {#} T a2"
    using a2 p1 destroy_framebuffer_obj_proto [OF assms(1) p1]
    by (auto simp: destroy_framebuffer_slot_obj_def elim!: bind_SomeE)
  then have "proto sent {#} T a3" using proto_view frame_close_view [OF a3] by blast
  moreover have "same_view sent a3 a'" by (rule same_view_upd [OF a4]) (simp add: fb_view_def)
  ultimately show ?thesis by (rule proto_view)
qed (use assms in \<open>simp add: release_frame_buffer_def\<close>)

lemma black_out_screen_proto:
  assumes "log_channel sent e" "quiet_wait sent e" "proto sent {#} T a" "black_out_screen e cm a = Some a'"
  shows "proto sent {#} T a'"
proof (cases "cm_FrameBufferIsActive cm")
  case True
  let ?t = "unat (di_TargetId (cm_DispInfo cm))"
  obtain s fo where s: "nth_opt (m_screen a) ?t = Some s" "get_framebuffer_obj Front s = Some fo"
    using assms(4) True unfolding black_out_screen_def by (auto simp: Let_def elim!: bind_SomeE)
  show ?thesis
  proof (cases fo)
    case None
    then show ?thesis using assms(3,4) True s by (simp add: black_out_screen_def Let_def)
  next
    case (Some ob)
    then obtain a1 where a1: "on_ctrl (transfer_to_host_2d (e_send e) (m_uiHwRes ob) 0 (di_Width (cm_DispInfo cm))
          (di_Height (cm_DispInfo cm)) 0 0 None) a = Some a1"
        "flush_and_wait e (m_uiHwRes ob) (di_Width (cm_DispInfo cm)) (di_Height (cm_DispInfo cm)) ?t a1 = Some a'"
      using assms(4) True s by (auto simp: black_out_screen_def Let_def elim!: bind_SomeE)
    have i: "m_uiHwRes ob \<in># object_ids a + {#}"
      using s Some slot_object [of ?t a _ ob] by (auto simp: nth_opt_Some get_framebuffer_obj_def)
    have "proto sent {#} T a1" by (rule use_transfer [OF assms(1,3) i a1(1)])
    moreover have "m_uiHwRes ob \<in># object_ids a1 + {#}"
      using i issued_ids [OF issued_ops(7) [OF assms(1) a1(1)]] by simp
    ultimately show ?thesis using use_flush [OF assms(1,2)] a1(2) by blast
  qed
qed (use assms in \<open>simp add: black_out_screen_def\<close>)

lemma destroy_cursor_proto:
  assumes "log_channel sent e" "proto sent {#} T a" "destroy_cursor e t a = Some a'"
  shows "proto sent {#} T a' \<and> t < length (m_screen a') \<and> m_pCursorBuf (m_screen a' ! t) = None"
proof -
  obtain s a1 where s: "nth_opt (m_screen a) t = Some s"
    and a1: "upd_screen t (\<lambda>s. s\<lparr>m_pCursorBuf := None\<rparr>) a = Some a1"
    and r: "(case m_pCursorBuf s of
       None \<Rightarrow> Some a1
     | Some cursor \<Rightarrow> do {
         let resid = m_uiHwRes cursor;
         a2 \<leftarrow> on_ctrl (inval_backing (e_send e) resid) a1;
         a3 \<leftarrow> on_ctrl (unref_resource (e_send e) resid) a2;
         put_id resid a3 }) = Some a'"
    using assms(3) unfolding destroy_cursor_def by (elim bind_SomeE) (rule that, assumption+)
  have st: "m_screen a ! t = s" "t < length (m_screen a)" using s by (auto simp: nth_opt_Some)
  have "view_ok (fb_view s)" using assms(2) st by (auto simp: proto_def shape_ok_def)
  then have p1: "proto sent (slot_ids (m_pCursorBuf s)) T a1"
    using st by (intro proto_upd [OF assms(2) a1]) (simp_all add: view_ok_def fb_view_def view_ids_def slot_ids_def [of None])
  have none: "t < length (m_screen a1)" "m_pCursorBuf (m_screen a1 ! t) = None"
    using a1 st by (auto simp: upd_screen_Some)
  show ?thesis
  proof (cases "m_pCursorBuf s")
    case None
    then show ?thesis using r p1 none by (simp add: slot_ids_def)
  next
    case (Some ob)
    then obtain a2 a3 where 2: "on_ctrl (inval_backing (e_send e) (m_uiHwRes ob)) a1 = Some a2"
        "on_ctrl (unref_resource (e_send e) (m_uiHwRes ob)) a2 = Some a3"
      and 3: "put_id (m_uiHwRes ob) a3 = Some a'"
      using r by (auto simp: Let_def elim!: bind_SomeE)
    have "proto sent {#m_uiHwRes ob#} T a1" using p1 Some by (simp add: slot_ids_def)
    from release_resource [OF assms(1) this 2] have "proto sent {#} (add_mset (m_uiHwRes ob) T) a3" .
    from proto_put [OF this 3] show ?thesis
      using none on_ctrl_screen [OF 2(1)] on_ctrl_screen [OF 2(2)] put_id_screen [OF 3] by simp
  qed
qed

lemma create_cursor_proto:
  assumes "log_channel sent e" "memory_for_entries e" "rtl_bitmap (e_search e)"
    and "proto sent {#} T a" "size T \<le> 32700" "unat (ps_VidPnSourceId ps) < length (m_screen a)"
    and "m_pCursorBuf (m_screen a ! unat (ps_VidPnSourceId ps)) = None"
    and "create_cursor e ps cf a = Some (ok, a')"
  shows "\<exists>T'. proto sent {#} T' a' \<and> size T' \<le> size T + (if ok then 0 else 1)"
proof -
  let ?t = "unat (ps_VidPnSourceId ps)" and ?sz = "POINTER_SIZE * POINTER_SIZE * 4"
  define i a1 where "i = fst (get_id e a)" and "a1 = snd (get_id e a)"
  have g: "get_id e a = (i, a1)" by (simp add: i_def a1_def)
  have p1: "proto sent {#} (add_mset i T) a1" using proto_get [OF assms(3,4) g] assms(5) by simp
  have s1: "m_screen a1 = m_screen a" using g by (auto simp: get_id_def split: prod.splits)
  have blob: "m_bBlobSupported a1" using p1 by (simp add: proto_def shape_ok_def)
  obtain k a3 where m: "(if m_pVAddr (m_CursorSegment (m_screen a1 ! ?t)) = 0
      then cursor_init (e_kernel e) ?sz ?t a1 else Some (True, a1)) = Some (k, a3)"
    using assms(6,8) g blob s1 unfolding create_cursor_def
    by (auto simp: Let_def simp del: bind_assoc elim!: bind_SomeE split: if_splits)
  have v3: "same_view sent a1 a3" using m cursor_init_view by (auto split: if_splits)
  have p3: "proto sent {#} (add_mset i T) a3" by (rule proto_view [OF p1 v3])
  have vs: "map fb_view (m_screen a3) = map fb_view (m_screen a)" using v3 s1 by (simp add: same_view_def)
  have l3: "?t < length (m_screen a3)" using assms(6) arg_cong [OF vs, of length] by simp
  obtain iok ob where iok: "gpu_obj_init ?sz (CursorSeg ?t) (m_CursorSegment (m_screen a3 ! ?t)) new_gpu_obj = (iok, ob)"
    by fastforce
  have r: "(if \<not> e_obj_ok e (heap_of a3) \<or> \<not> iok then Some (False, a3)
     else do {
       (att, ob1, a4) \<leftarrow> gpu_object_attach e i ob (ucast POINTER_SIZE) (ucast POINTER_SIZE) (ucast POINTER_SIZE) a3;
       if \<not> att then Some (False, a4)
       else do {
         a5 \<leftarrow> upd_screen ?t (\<lambda>s. s\<lparr>m_pCursorBuf := Some ob1\<rparr>) a4;
         a6 \<leftarrow> (if \<not> m_bBlobSupported a5
             then on_ctrl (transfer_to_host_2d (e_send e) i 0 (ps_Width ps) (ps_Height ps) 0 0 None) a5
             else Some a5);
         Some (True, a6) } }) = Some (ok, a')"
    using assms(6,8) g blob m s1 l3 iok unfolding create_cursor_def by (simp add: Let_def split: if_splits)
  show ?thesis
  proof (cases "e_obj_ok e (heap_of a3) \<and> iok")
    case False
    then have "ok = False" "a' = a3" using r by (auto split: if_splits)
    then show ?thesis using p3 by (intro exI [of _ "add_mset i T"]) simp
  next
    case True
    then obtain att ob1 a4 where att: "gpu_object_attach e i ob (ucast POINTER_SIZE) (ucast POINTER_SIZE)
        (ucast POINTER_SIZE) a3 = Some (att, ob1, a4)"
      using r by (auto elim!: bind_SomeE)
    note 4 = attach_proto [OF assms(1,2) p3 att]
    then have blob4: "m_bBlobSupported a4" by (auto simp: proto_def shape_ok_def simp del: set_map)
    have ok: "ok" and a5: "upd_screen ?t (\<lambda>s. s\<lparr>m_pCursorBuf := Some ob1\<rparr>) a4 = Some a'"
      using r True att 4 blob4 by (auto simp: upd_screen_Some elim!: bind_SomeE)
    have l4: "?t < length (m_screen a4)" using a5 by (simp add: upd_screen_Some)
    have "fb_view (m_screen a4 ! ?t) = fb_view (m_screen a ! ?t)"
      using 4 vs assms(6) l4 by (metis nth_map)
    then have none: "m_pCursorBuf (m_screen a4 ! ?t) = None" using assms(7) by (simp add: fb_view_def)
    have "shape_ok a4" using 4 by (simp add: proto_def)
    note v4 = shape_front(3) [OF this l4]
    have "proto sent {#} T a'"
    proof (rule proto_upd [OF _ a5])
      show "proto sent {#i#} T a4" using 4 by blast
      show "view_ok (fb_view ((m_screen a4 ! ?t)\<lparr>m_pCursorBuf := Some ob1\<rparr>))"
        using v4 by (simp add: view_ok_def fb_view_def)
      show "view_ids (fb_view ((m_screen a4 ! ?t)\<lparr>m_pCursorBuf := Some ob1\<rparr>)) + {#} =
          view_ids (fb_view (m_screen a4 ! ?t)) + {#i#}"
        using none 4 by (simp add: view_ids_def fb_view_def slot_ids_def)
    qed
    then show ?thesis using ok by (intro exI [of _ T]) simp
  qed
qed

lemma send_cursor_view:
  assumes "send_cursor e c a = Some (ok, a')"
  shows "same_view sent a a'"
proof -
  obtain p q1 where q: "alloc_cursor (m_CtrlQueue a) = Some (p, q1)"
    using assms unfolding send_cursor_def by (auto elim!: bind_SomeE)
  then have "ring q1 = ring (m_CtrlQueue a)"
    by (auto simp: alloc_cursor_def alloc_cmd_resp_def split: if_splits elim!: bind_SomeE)
  then show ?thesis
    using assms q unfolding send_cursor_def
    by (auto simp: same_view_def split: if_splits elim!: bind_SomeE)
qed

lemma set_pointer_shape_proto:
  assumes "log_channel sent e" "memory_for_entries e" "rtl_bitmap (e_search e)"
    and "proto sent {#} T a" "size T \<le> 32700" "set_pointer_shape e ps cf a = Some (st, a')"
  shows "\<exists>T'. proto sent {#} T' a' \<and> size T' \<le> size T + (if st = StatusSuccess then 0 else 1)"
proof -
  let ?t = "unat (ps_VidPnSourceId ps)"
  obtain a1 ok a2 where a1: "destroy_cursor e ?t a = Some a1" and a2: "create_cursor e ps cf a1 = Some (ok, a2)"
    using assms(6) unfolding set_pointer_shape_def by (auto simp: Let_def elim!: bind_SomeE)
  note 1 = destroy_cursor_proto [OF assms(1,4) a1]
  obtain T' where T: "proto sent {#} T' a2" "size T' \<le> size T + (if ok then 0 else 1)"
    using create_cursor_proto [OF assms(1-3) conjunct1 [OF 1] assms(5) conjunct1 [OF conjunct2 [OF 1]]
        conjunct2 [OF conjunct2 [OF 1]] a2] by blast
  show ?thesis
  proof (cases ok)
    case False
    then show ?thesis using T assms(6) a1 a2 by (auto simp: set_pointer_shape_def Let_def)
  next
    case True
    then obtain sn c where "send_cursor e c a2 = Some (sn, a')"
      using assms(6) a1 a2 unfolding set_pointer_shape_def by (auto simp: Let_def elim!: bind_SomeE)
    from proto_view [OF T(1) send_cursor_view [OF this]] show ?thesis using T(2) True by auto
  qed
qed

lemma set_pointer_position_proto:
  assumes "proto sent {#} T a" "set_pointer_position e src x y a = Some (st, a')"
  shows "proto sent {#} T a'"
proof -
  have "same_view sent a a'"
    using assms(2) unfolding set_pointer_position_def
    by (auto split: option.splits elim!: bind_SomeE dest: send_cursor_view)
  then show ?thesis by (rule proto_view [OF assms(1)])
qed

lemma destroy_all_proto:
  assumes "log_channel sent e" "proto sent {#} T a" "destroy_framebuffer_cursor_obj_ext e a = Some a'"
  shows "proto sent {#} T a'"
proof (rule for_loop_keeps [where I = "proto sent {#} T"])
  show "for_loop 0 (unat (m_u32NumScanouts a)) 1 (\<lambda>i a. do {
       a1 \<leftarrow> for_loop 0 FRAMEBUFFER_COUNT 1 (\<lambda>j a. destroy_framebuffer_obj e i j True a) a;
       destroy_cursor e i a1 }) a = Some a'"
    using assms(3) by (simp only: destroy_framebuffer_cursor_obj_ext_def)
  show "proto sent {#} T a" by fact
  fix i b b'
  assume b: "do { a1 \<leftarrow> for_loop 0 FRAMEBUFFER_COUNT 1 (\<lambda>j a. destroy_framebuffer_obj e i j True a) b;
      destroy_cursor e i a1 } = Some b'" "proto sent {#} T b"
  then obtain c where c: "for_loop 0 FRAMEBUFFER_COUNT 1 (\<lambda>j a. destroy_framebuffer_obj e i j True a) b = Some c"
    "destroy_cursor e i c = Some b'" by (elim bind_SomeE)
  have "proto sent {#} T c"
    by (rule for_loop_keeps [where I = "proto sent {#} T", OF c(1) b(2)])
      (rule destroy_framebuffer_obj_proto [OF assms(1)])
  then show "proto sent {#} T b'" using destroy_cursor_proto [OF assms(1) _ c(2)] by blast
qed

section \<open>Runs of the adapter\<close>

text \<open>One operation, or the device acting; the number counts the pointer shapes that failed.\<close>
inductive adapter_step :: "'q env \<Rightarrow> 'q adapter \<Rightarrow> nat \<Rightarrow> 'q adapter \<Rightarrow> bool" for e where
  frame: "set_current_mode_ext e cmo a = Some (st, tk, a') \<Longrightarrow> adapter_step e a 0 a'"
| release: "release_frame_buffer e n a = Some (st, a') \<Longrightarrow> adapter_step e a 0 a'"
| blackout: "black_out_screen e cm a = Some a' \<Longrightarrow> adapter_step e a 0 a'"
| shape: "set_pointer_shape e ps cf a = Some (st, a') \<Longrightarrow>
    adapter_step e a (if st = StatusSuccess then 0 else 1) a'"
| position: "set_pointer_position e src x y a = Some (st, a') \<Longrightarrow> adapter_step e a 0 a'"
| teardown: "destroy_framebuffer_cursor_obj_ext e a = Some a' \<Longrightarrow> adapter_step e a 0 a'"
| device: "e_wait e a = Some a' \<Longrightarrow> adapter_step e a 0 a'"

inductive adapter_run :: "'q env \<Rightarrow> 'q adapter \<Rightarrow> nat \<Rightarrow> 'q adapter \<Rightarrow> bool" for e a0 where
  start: "adapter_run e a0 0 a0"
| step: "adapter_run e a0 n a \<Longrightarrow> adapter_step e a k a' \<Longrightarrow> adapter_run e a0 (n + k) a'"

inductive_cases adapter_stepE: "adapter_step e a k a'"

lemma adapter_step_proto:
  assumes "log_channel sent e" "quiet_wait sent e" "memory_for_entries e" "rtl_bitmap (e_search e)"
    and "adapter_step e a k a'" "proto sent {#} T a" "size T \<le> 32700"
  shows "\<exists>T'. proto sent {#} T' a' \<and> size T' \<le> size T + k"
  using assms(5)
proof (cases rule: adapter_step.cases)
  case (shape ps cf st)
  then show ?thesis using set_pointer_shape_proto [OF assms(1,3,4,6,7)] by blast
next
  case device
  then have "same_view sent a a'" using assms(2) by (simp add: quiet_wait_def)
  from proto_view [OF assms(6) this] show ?thesis by (intro exI [of _ T]) simp
qed (use set_current_mode_ext_proto [OF assms(1-4,6,7)] release_frame_buffer_proto [OF assms(1,6)]
    black_out_screen_proto [OF assms(1,2,6)] set_pointer_position_proto [OF assms(6)]
    destroy_all_proto [OF assms(1,6)] in \<open>auto intro!: exI [of _ T]\<close>)

text \<open>The adapter when the identifiers have been initialised and nothing was sent.\<close>
definition fresh_adapter :: "('q \<Rightarrow> gpu_cmd list) \<Rightarrow> 'q adapter \<Rightarrow> bool" where
  "fresh_adapter sent a \<longleftrightarrow> sent (ring (m_CtrlQueue a)) = [] \<and> (\<exists>ok. idr_init True 1 new_idr = Some (ok, m_Idr a))
     \<and> m_bBlobSupported a \<and> length (m_screen a) \<le> 16 \<and> unat (m_u32NumScanouts a) \<le> length (m_screen a)
     \<and> (\<forall>s \<in> set (m_screen a). fb_view s = fb_view (new_screen []))"

lemma fresh_proto: "fresh_adapter sent a \<Longrightarrow> proto sent {#} {#} a"
proof -
  assume f: "fresh_adapter sent a"
  have v: "view_ids (fb_view (new_screen [])) = {#}" "view_ok (fb_view (new_screen []))"
    by (simp_all add: view_ids_def view_ok_def fb_view_def new_screen_def slot_ids_def FRAMEBUFFER_COUNT_def
        numeral_2_eq_2)
  have "\<forall>s \<in> set ss. fb_view s = fb_view (new_screen []) \<Longrightarrow>
      sum_list (map view_ids (map fb_view ss)) = {#}" for ss
    by (induction ss) (simp_all add: v)
  then have "object_ids a = {#}" using f by (simp add: fresh_adapter_def object_ids_def)
  moreover have "shape_ok a" using f v by (auto simp: fresh_adapter_def shape_ok_def)
  ultimately show ?thesis
    using f idr_init_inv by (auto simp: fresh_adapter_def proto_def live_def empty_host_def)
qed

lemma adapter_run_proto:
  assumes "log_channel sent e" "quiet_wait sent e" "memory_for_entries e" "rtl_bitmap (e_search e)"
    and "fresh_adapter sent a0" "adapter_run e a0 n a"
  shows "n \<le> 32700 \<Longrightarrow> \<exists>T. proto sent {#} T a \<and> size T \<le> n"
  using assms(6)
proof (induction rule: adapter_run.induct)
  case start
  then show ?case using fresh_proto [OF assms(5)] by auto
next
  case (step n a k a')
  then obtain T where T: "proto sent {#} T a" "size T \<le> n" by auto
  then show ?case using adapter_step_proto [OF assms(1-4) step.hyps(2) T(1)] step.prems by force
qed

lemma adapter_run_host:
  assumes "log_channel sent e" "quiet_wait sent e" "memory_for_entries e" "rtl_bitmap (e_search e)"
    and "fresh_adapter sent a0" "adapter_run e a0 n a" "n \<le> 32700"
  shows "host_run (sent (ring (m_CtrlQueue a))) empty_host =
      Some \<lparr>h_res = set_mset (object_ids a), h_back = set_mset (object_ids a)\<rparr>
    \<and> (\<forall>i. count (object_ids a) i \<le> 1)"
proof -
  obtain T where T: "proto sent {#} T a" using adapter_run_proto [OF assms(1-6)] assms(7) by blast
  have "count (object_ids a) i \<le> 1" for i
    using T unfolding proto_def by (metis add.right_neutral count_union le_add1 order_trans)
  then show ?thesis using T by (simp add: proto_def live_def)
qed

text \<open>(resource protocol) With a device that takes resources as blobs, whatever the order
  of frames, releases, blackouts, pointer shapes and moves, with allocations of objects and of
  frame memory failing anywhere and fewer than 32,700 pointer shapes failing: the host accepts every command
  of the control queue (no resource created twice, none used, shown, detached or freed that does not
  exist), it has at the end exactly the resources of the objects the adapter holds, all with memory,
  and no two objects share an identifier.  Assumed: a command that is sent is not
  dropped, the entries of a page list can be allocated.\<close>
theorem host_accepts_all:
  assumes "log_channel sent e" "quiet_wait sent e" "memory_for_entries e" "rtl_bitmap (e_search e)"
    and "fresh_adapter sent a0" "adapter_run e a0 n a" "n \<le> 32700"
  shows "host_run (sent (ring (m_CtrlQueue a))) empty_host =
      Some \<lparr>h_res = set_mset (object_ids a), h_back = set_mset (object_ids a)\<rparr>
    \<and> (\<forall>i. count (object_ids a) i \<le> 1)"
  using assms by (rule adapter_run_host)

text \<open>A queue with one buffer that is back at once, and a display of one pixel.\<close>
definition one_buf_pool :: gpubuf where
  "one_buf_pool = \<lparr>m_FreeBufs = [], m_InUseBufs = [16], m_uCount = 1,
     vbufs = [16 \<mapsto> zero_vbuffer], blocks = {16}\<rparr>"

definition demo_kernel :: "bool \<Rightarrow> kernel" where
  "demo_kernel lock = \<lparr>k_alloc = (\<lambda>h n. if 0x1000 \<in> h then 0x2000 else 0x1000), k_map = (\<lambda>w h pa n. 0),
     k_mdl = (\<lambda>h v n. 7), k_lock = (\<lambda>u v n. lock),
     k_mm = \<lparr>addr_valid = (\<lambda>a. True), phys_addr = (\<lambda>a. a)\<rparr>\<rparr>"

definition demo_env :: "bool \<Rightarrow> gpu_cmd list env" where
  "demo_env lock = \<lparr>e_kernel = demo_kernel lock,
     e_send = (\<lambda>c pl q. Some (16, q\<lparr>ring := ring q @ [c], pool := one_buf_pool\<rparr>)),
     e_ops = undefined, e_obj_ok = (\<lambda>h. True), e_search = first_clear, e_flush_event = (\<lambda>t. 0x3000),
     e_wait = Some\<rparr>"

definition demo_screen :: screen where
  "demo_screen = (new_screen [])\<lparr>m_ModeCount := 1,
     m_ModeInfo := Some [\<lparr>ModeIndex = 0, VisScreenWidth = 1, VisScreenHeight = 1\<rparr>]\<rparr>"

definition demo_mode :: "u64 \<Rightarrow> current_mode" where
  "demo_mode addr = \<lparr>cm_DispInfo = \<lparr>di_Width = 1, di_Height = 1, di_Pitch = 4096, di_ColorFormat = 22,
       di_TargetId = 0\<rparr>, cm_Stride = 1024, cm_SetMode = False, cm_FrameBuffer = addr,
     cm_FrameBufferIsActive = False\<rparr>"

definition demo_adapter :: "bool \<Rightarrow> gpu_cmd list adapter" where
  "demo_adapter blob = \<lparr>m_screen = [demo_screen], m_u32NumScanouts = 1, m_bBlobSupported = blob, m_bEDID = True,
     m_Idr = demo_idr, m_CtrlQueue = \<lparr>ring = [], pool = one_buf_pool, cmds = Map.empty\<rparr>, m_CursorRing = [],
     a_kmem = \<lparr>heap = {16}, maps = {}, mdls = {}, locked = {}\<rparr>, a_ents = Map.empty,
     m_CurrentModeInfo = demo_mode 0, m_PendingWorks = 0, config_event = False\<rparr>"

lemma demo_ok: "log_channel id (demo_env l)"
  by (simp add: log_channel_def demo_env_def)

lemma demo_quiet: "quiet_wait sent (demo_env l)"
  by (simp add: quiet_wait_def demo_env_def)

lemma demo_entries: "memory_for_entries (demo_env l)"
  by (simp add: memory_for_entries_def demo_env_def demo_kernel_def)

lemma demo_fresh: "fresh_adapter id (demo_adapter True)"
  using demo_idr_init by (auto simp: fresh_adapter_def demo_adapter_def demo_screen_def fb_view_def)

lemma demo_fresh_id: "idr_get_id first_clear demo_idr =
    (1, demo_idr\<lparr>m_IdBitMap := Some ((replicate 1 True @ replicate 32767 False)[1 := True])\<rparr>)"
  by (simp add: idr_get_id_def demo_idr_def find_clear_bit_and_set_def first_clear_def Let_def NOT_FOUND_def)

lemma two_slots: "replicate 2 x = [x, x]"
  by (simp add: numeral_2_eq_2)

lemma demo_close: "segment_close new_segment k = Some (new_segment, k)"
  by (simp add: segment_close_def new_segment_def Let_def)

lemma new_segment_addr: "m_pVAddr new_segment = 0"
  by (simp add: new_segment_def)

lemma fill_1: "fill_sg_list mm b 1 = (if phys_addr mm b = 0 then [] else [(phys_addr mm b, PAGE_SIZE)])"
  by (simp add: Let_def)

lemma demo_segment:
  "segment_init_ext (demo_kernel True) 4096 0x5000 new_segment \<lparr>heap = {16}, maps = {}, mdls = {}, locked = {}\<rparr> =
    Some (True, new_segment\<lparr>m_pVAddr := 0x5000, m_bUserMemory := True, m_pMdl := 7,
      m_pSGList := Some (0x1000, [(0x5000, 4096)]), m_Size := 4096\<rparr>,
      \<lparr>heap = {0x1000, 16}, maps = {}, mdls = {7}, locked = {7}\<rparr>)"
  "segment_init_ext (demo_kernel False) 4096 0x5000 new_segment \<lparr>heap = {16}, maps = {}, mdls = {}, locked = {}\<rparr> =
    Some (False, new_segment, \<lparr>heap = {16}, maps = {}, mdls = {}, locked = {}\<rparr>)"
  unfolding segment_init_ext_def demo_close
  by (simp_all add: Let_def bytes_to_pages_def PAGE_SIZE_def page_align_def fill_1 [unfolded One_nat_def]
      demo_kernel_def free_mdl_def new_segment_def)

lemma demo_free: "\<exists>b. free_vbuf 16 one_buf_pool = Some b"
  by (simp add: free_vbuf_def one_buf_pool_def delete_payload_def large_resp_def has_data_def zero_vbuffer_def
      find_in_use.simps [of _ _ 0])

lemma demo_frame:
  "\<exists>a. set_current_mode_ext (demo_env True) (Some (demo_mode 0x5000)) (demo_adapter True) =
    Some (StatusSuccess, True, a)
    \<and> ring (m_CtrlQueue a) = [create_resource_blob_cmd 1 1 1 1024, set_scanout_blob_cmd 0 1 1 1 (color_format 22) 0 0 1024,
       res_flush_cmd 1 1 1 0 0 0]
    \<and> object_ids a = {#1#}"
proof -
  obtain b where b: "free_vbuf 16 one_buf_pool = Some b" using demo_free by blast
  show ?thesis
  apply (simp add: set_current_mode_ext_def demo_mode_def Let_def)
  apply (simp add: demo_adapter_def)
  apply (simp add: demo_screen_def find_mode.simps is_same_mode_def)
  apply (simp add: present_frame_def flush_gate_def new_screen_def upd_screen_def get_framebuffer_obj_def
    get_framebuffer_index_def backing_changed_def two_slots FRAMEBUFFER_COUNT_def)
  apply (simp add: create_framebuffer_obj_def get_id_def demo_env_def demo_fresh_id Let_def)
  apply (simp add: frame_memory_def frame_init_ext_def kmem_of_def heap_of_def one_buf_pool_def demo_segment)
  apply (simp add: new_segment_def upd_screen_def with_kmem_def with_heap_def gpu_obj_init_def bytes_to_pages_def PAGE_SIZE_def Let_def)
  apply (simp add: gpu_object_attach_def segment_of_def Let_def new_gpu_obj_def heap_of_def with_heap_def demo_kernel_def SIZEOF_GPU_MEM_ENTRY_def)
  apply (simp add: on_ctrl_def create_resource_blob_def set_scanout_blob_def flush_and_wait_def upd_screen_def res_flush_submit_def res_flush_finish_def release_buffer_def)
  apply (simp add: b set_framebuffer_obj_def get_framebuffer_index_def obj_address_def segment_of_def)
  apply (simp add: object_ids_def fb_view_def view_ids_def slot_ids_def)
  done
qed

theorem host_accepts_all_witness:
  "\<exists>a. set_current_mode_ext (demo_env True) (Some (demo_mode 0x5000)) (demo_adapter True) =
      Some (StatusSuccess, True, a)
    \<and> host_run (ring (m_CtrlQueue a)) empty_host = Some \<lparr>h_res = {1}, h_back = {1}\<rparr>"
proof -
  obtain a where a: "set_current_mode_ext (demo_env True) (Some (demo_mode 0x5000)) (demo_adapter True) =
      Some (StatusSuccess, True, a)" "object_ids a = {#1#}"
    using demo_frame by blast
  have s: "rtl_bitmap (e_search (demo_env True))" by (simp add: demo_env_def rtl.rtl_bitmap_axioms)
  have "adapter_run (demo_env True) (demo_adapter True) 0 a"
    using adapter_run.step [OF adapter_run.start adapter_step.frame [OF a(1)]] by simp
  from host_accepts_all [OF demo_ok demo_quiet demo_entries s demo_fresh this] a show ?thesis by auto
qed

section \<open>Without blob resources\<close>

lemma create_fails:
  assumes "log_channel sent e" "\<not> m_bBlobSupported a" "get_id e a = (i, a0)"
    and "\<not> cm_FrameBufferIsActive cm" "create_framebuffer_obj e vm t slot cm a = Some (cm', a')"
    and "\<not> cm_FrameBufferIsActive cm'"
  shows "\<not> m_bBlobSupported a' \<and> idr_put_id i (m_Idr a0) = Some (m_Idr a')
    \<and> (\<exists>f w h. sent (ring (m_CtrlQueue a')) = sent (ring (m_CtrlQueue a)) @ [create_resource_cmd i f w h])"
proof -
  have a0: "\<not> m_bBlobSupported a0" "m_CtrlQueue a0 = m_CtrlQueue a"
    using assms(2,3) by (auto simp: get_id_def split: prod.splits)
  define f where "f = color_format (di_ColorFormat (cm_DispInfo cm))"
  define sz where "sz = di_Pitch (cm_DispInfo cm) * VisScreenHeight vm"
  obtain a2 ok a3 where c: "on_ctrl (create_resource (e_send e) i f (VisScreenWidth vm) (VisScreenHeight vm)) a0 = Some a2"
    and m: "frame_memory e sz (cm_FrameBuffer cm) t a2 = Some (ok, a3)"
    and r: "put_id i a3 = Some a'"
    using assms(3-6) a0 unfolding create_framebuffer_obj_def
    by (fastforce simp: Let_def f_def sz_def split: if_splits prod.splits elim!: bind_SomeE)
  have "issued sent [create_resource_cmd i f (VisScreenWidth vm) (VisScreenHeight vm)] a0 a3"
    using issued_trans [OF issued_ops(1) [OF assms(1) c]] frame_memory_view [OF m] by (metis append_Nil2 issued_view)
  then have "sent (ring (m_CtrlQueue a')) = sent (ring (m_CtrlQueue a)) @ [create_resource_cmd i f (VisScreenWidth vm) (VisScreenHeight vm)]"
    "\<not> m_bBlobSupported a'" "idr_put_id i (m_Idr a0) = Some (m_Idr a')"
    using r a0 by (auto simp: issued_def put_id_def elim!: bind_SomeE)
  then show ?thesis by blast
qed

lemma put_undoes_get:
  assumes "rtl_bitmap search" "idr_inv start s" "idr_get_id search s = (i, s0)" "idr_put_id i s0 = Some s1"
  shows "s1 = s"
proof -
  obtain bm where bm: "m_IdBitMap s = Some bm" "length bm = IDR_BITS" using assms(2) by (auto simp: idr_inv_def)
  have i: "i = search bm" using assms(3) bm(1)
    by (simp add: idr_get_id_def find_clear_bit_and_set_def Let_def)
  have "i \<noteq> NOT_FOUND"
    using assms(3,4) bm i
    by (auto simp: idr_get_id_def find_clear_bit_and_set_def Let_def idr_put_id_def upd_opt_def NOT_FOUND_def IDR_BITS_eq)
  then have s0: "s0 = s\<lparr>m_IdBitMap := Some (bm[unat i := True])\<rparr>"
    using assms(3) bm(1) i by (auto simp: idr_get_id_def find_clear_bit_and_set_def Let_def)
  have "False \<in> set bm" using rtl_bitmap.not_found [OF assms(1)] i \<open>i \<noteq> NOT_FOUND\<close> by metis
  then have f: "unat i < length bm" "\<not> bm ! unat i" using rtl_bitmap.finds [OF assms(1), of bm] bm(2) i by auto
  then have "bm[unat i := False] = bm" by (metis (full_types) list_update_id)
  then show ?thesis using assms(4) f(1) bm(1) by (auto simp: idr_put_id_def s0 intro: idr.equality)
qed


definition taken_idr :: idr where
  "taken_idr = demo_idr\<lparr>m_IdBitMap := Some ((replicate 1 True @ replicate 32767 False)[1 := True])\<rparr>"

lemma demo_put: "idr_put_id 1 taken_idr = Some demo_idr"
proof -
  have "idr_inv 1 demo_idr" using idr_init_inv [OF demo_idr_init] by blast
  moreover obtain s where s: "idr_put_id 1 taken_idr = Some s"
    by (simp add: idr_put_id_def taken_idr_def upd_opt_def)
  ultimately show ?thesis
    using put_undoes_get [OF rtl.rtl_bitmap_axioms, of 1 demo_idr 1 taken_idr s] demo_fresh_id by (simp add: taken_idr_def)
qed

definition after :: "gpu_cmd list \<Rightarrow> gpu_cmd list adapter" where
  "after cs = (demo_adapter False)\<lparr>m_CtrlQueue := \<lparr>ring = cs, pool = one_buf_pool, cmds = Map.empty\<rparr>\<rparr>"

lemma demo_fails:
  "\<exists>c. create_framebuffer_obj (demo_env False) \<lparr>ModeIndex = 0, VisScreenWidth = 1, VisScreenHeight = 1\<rparr> 0 Front
    (demo_mode 0x5000) (after cs) = Some (demo_mode 0x5000, after (cs @ [c]))"
  apply (simp add: create_framebuffer_obj_def after_def demo_adapter_def get_id_def demo_env_def Let_def
      demo_fresh_id [folded taken_idr_def])
  apply (simp add: demo_mode_def on_ctrl_def create_resource_def frame_memory_def frame_init_ext_def kmem_of_def heap_of_def
      demo_screen_def new_screen_def)
  apply (simp add: one_buf_pool_def new_segment_addr demo_segment upd_screen_def with_kmem_def with_heap_def
      put_id_def demo_put)
  apply (simp add: demo_mode_def)
  done


end
