(* ===== verification/VirtioPackedSys.thy ===== *)
theory VirtioPackedSys
  imports VirtioPackedOps
begin

text \<open>
  The packed ring beside its device, as an instance of the contract \<^verbatim>\<open>virtqueue\<close>.  The
  device keeps its own ring index and wrap counter; \<^verbatim>\<open>dev_log\<close> records the ids it has
  completed and the driver has not fetched.
\<close>

section \<open>The device\<close>

record 'a packed_sys =
  drv :: "'a virtqueue_packed"
  dev_idx :: nat
  dev_wrap :: bool
  dev_log :: "nat list"

abbreviation num_of :: "'a virtqueue_packed \<Rightarrow> nat \<Rightarrow> nat" where
  "num_of q h \<equiv> unat (st_num (desc_state q ! h))"

text \<open>A completion overwrites the descriptor at the device's index (id, length, both flags
  equal to its wrap counter) and skips as many slots as the request has descriptors.\<close>
definition device_put_packed :: "'a packed_sys \<Rightarrow> nat \<Rightarrow> u32 \<Rightarrow> u64 \<Rightarrow> u16 \<Rightarrow> 'a packed_sys" where
  "device_put_packed s h len addr f =
    (let q = drv s; N = unat (pq_num q); p = dev_idx s + num_of q h
     in s\<lparr>drv := q\<lparr>pq_desc := (pq_desc q)[dev_idx s := \<lparr>p_addr = addr, p_len = len, p_id = of_nat h, p_flags = f\<rparr>]\<rparr>,
          dev_idx := (if N \<le> p then p - N else p),
          dev_wrap := (if N \<le> p then \<not> dev_wrap s else dev_wrap s),
          dev_log := dev_log s @ [h]\<rparr>)"

definition device_use_packed :: "'a packed_sys \<Rightarrow> 'a \<Rightarrow> 'a packed_sys \<Rightarrow> bool" where
  "device_use_packed s t s' \<longleftrightarrow>
     (\<exists>h len addr f. h < unat (pq_num (drv s)) \<and> st_data (desc_state (drv s) ! h) = Some t \<and>
        h \<notin> set (dev_log s) \<and> dev_written f (dev_wrap s) \<and> s' = device_put_packed s h len addr f)"

section \<open>The invariant of the system\<close>

text \<open>The position of the \<^verbatim>\<open>k\<close>-th unfetched completion.\<close>
definition log_pos :: "'a virtqueue_packed \<Rightarrow> nat \<Rightarrow> nat list \<Rightarrow> nat \<Rightarrow> nat" where
  "log_pos q U log k = U + sum_list (map (num_of q) (take k log))"

definition packed_log :: "nat \<Rightarrow> nat \<Rightarrow> 'a virtqueue_packed \<Rightarrow> nat list \<Rightarrow> bool" where
  "packed_log U A q log \<longleftrightarrow> (let N = unat (pq_num q); D = log_pos q U log (length log) in
     distinct log \<and> (\<forall>h \<in> set log. h < N \<and> st_data (desc_state q ! h) \<noteq> None) \<and>
     (\<forall>k < length log. unat (p_id (pq_desc q ! (log_pos q U log k mod N))) = log ! k \<and>
        dev_written (slot_flags q (log_pos q U log k)) (lap N (log_pos q U log k))) \<and>
     (\<forall>v. D \<le> v \<and> v < A \<longrightarrow> drv_written (slot_flags q v) (lap N v)))"

definition packed_sys_inv :: "'a packed_sys \<Rightarrow> bool" where
  "packed_sys_inv s \<longleftrightarrow> (\<exists>fs cs U A. packed_inv fs cs U A (drv s) \<and> packed_log U A (drv s) (dev_log s) \<and>
     dev_idx s = log_pos (drv s) U (dev_log s) (length (dev_log s)) mod unat (pq_num (drv s)) \<and>
     dev_wrap s = lap (unat (pq_num (drv s))) (log_pos (drv s) U (dev_log s) (length (dev_log s))))"

definition returned_packed :: "'a packed_sys \<Rightarrow> 'a list" where
  "returned_packed s = map (\<lambda>h. the (st_data (desc_state (drv s) ! h))) (dev_log s)"

definition outstanding_packed :: "'a packed_sys \<Rightarrow> 'a multiset" where
  "outstanding_packed s = mset (concat (map tok_of (map st_data (desc_state (drv s)))))"

lemma sum_chains_le:
  assumes "distinct hs" "set hs \<subseteq> hd ` snd ` set cs" "\<forall>(t, c) \<in> set cs. l (hd c) = length c"
  shows "sum_list (map l hs) \<le> length (ids_of cs)"
  using assms
proof (induction hs arbitrary: cs)
  case Nil
  then show ?case by simp
next
  case (Cons h hs)
  then obtain t c where c: "(t, c) \<in> set cs" "hd c = h" by auto
  let ?cs = "remove1 (t, c) cs"
  have sub: "set ?cs \<subseteq> set cs" by (rule set_remove1_subset)
  have len: "length (ids_of cs) = length c + length (ids_of ?cs)"
    using c(1) by (induction cs) auto
  have "p \<in> set ?cs" if "p \<in> set cs" "p \<noteq> (t, c)" for p using that by (simp add: in_set_remove1)
  then have "set cs \<subseteq> insert (t, c) (set ?cs)" by blast
  then have "set hs \<subseteq> hd ` snd ` set ?cs" using Cons.prems(1,2) c(2) by force
  moreover have "\<forall>(t, c) \<in> set ?cs. l (hd c) = length c" using Cons.prems(3) sub by blast
  ultimately have "sum_list (map l hs) \<le> length (ids_of ?cs)" using Cons.IH Cons.prems(1) by simp
  moreover have "l h = length c" using Cons.prems(3) c by auto
  ultimately show ?case using len by simp
qed

lemma packed_ids_none:
  assumes "packed_ids fs cs q" "i < unat (pq_num q)" "i \<notin> hd ` snd ` set cs"
  shows "st_data (desc_state q ! i) = None"
  using assms by (simp add: packed_ids_def)

lemma packed_head:
  assumes "packed_ids fs cs q" "h < unat (pq_num q)" "st_data (desc_state q ! h) = Some t"
  obtains c where "(t, c) \<in> set cs" "hd c = h" "num_of q h = length c" "c \<noteq> []"
proof -
  have "h \<in> hd ` snd ` set cs" using assms by (auto simp: packed_ids_def)
  then obtain u c where c: "(u, c) \<in> set cs" "hd c = h" by auto
  with packed_ids_chain [OF assms(1) c(1)] assms(3) that show thesis by auto
qed

lemma log_bound:
  assumes inv: "packed_inv fs cs U A q" and d: "distinct hs"
    and hs: "\<forall>h \<in> set hs. h < unat (pq_num q) \<and> st_data (desc_state q ! h) \<noteq> None"
  shows "U + sum_list (map (num_of q) hs) \<le> A"
proof -
  note P = packed_invD [OF inv]
  have "\<forall>i < unat (pq_num q). i \<notin> hd ` snd ` set cs \<longrightarrow> st_data (desc_state q ! i) = None"
    using packed_ids_none [OF P(1)] by blast
  then have "set hs \<subseteq> hd ` snd ` set cs" using hs by blast
  moreover have "\<forall>(t, c) \<in> set cs. num_of q (hd c) = length c"
    using packed_ids_chain(4) [OF P(1)] by blast
  ultimately have "sum_list (map (num_of q) hs) \<le> length (ids_of cs)" by (rule sum_chains_le [OF d])
  then show ?thesis using P(3) by simp
qed

lemma log_pos_mono: "log_pos q U log k \<le> log_pos q U log (length log)"
proof -
  have "sum_list (map (num_of q) log) =
      sum_list (map (num_of q) (take k log)) + sum_list (map (num_of q) (drop k log))"
    by (metis append_take_drop_id map_append sum_list_append)
  then show ?thesis by (simp add: log_pos_def)
qed

lemma log_pos_less:
  assumes "k < length log" "0 < num_of q (log ! k)"
  shows "log_pos q U log k < log_pos q U log (length log)"
proof -
  have "log_pos q U log (Suc k) = log_pos q U log k + num_of q (log ! k)"
    using assms(1) by (simp add: log_pos_def take_Suc_conv_app_nth)
  then show ?thesis using log_pos_mono [of q U log "Suc k"] assms by simp
qed

lemma packed_log_nums:
  assumes "packed_inv fs cs U A q" "packed_log U A q log" "h \<in> set log"
  shows "0 < num_of q h"
proof -
  from assms obtain t where "h < unat (pq_num q)" "st_data (desc_state q ! h) = Some t"
    by (auto simp: packed_log_def Let_def)
  then show ?thesis
    using packed_head [OF packed_invD(1) [OF assms(1)]] by (metis length_greater_0_conv)
qed

lemma packed_log_end:
  assumes "packed_inv fs cs U A q" "packed_log U A q log"
  shows "log_pos q U log (length log) \<le> A"
  using log_bound [OF assms(1), of log] assms(2) by (simp add: packed_log_def log_pos_def Let_def)

section \<open>The contract\<close>

definition add_tok_packed ::
  "'a packed_sys \<Rightarrow> scatterlist list \<Rightarrow> u32 \<Rightarrow> u32 \<Rightarrow> 'a \<Rightarrow> (int \<times> 'a packed_sys) option" where
  "add_tok_packed s sg out in' t =
     map_option (\<lambda>(r, va, q'). (r, s\<lparr>drv := q'\<rparr>)) (virtqueue_add_buf_packed (drv s) sg out in' (Some t) None 0)"

text \<open>Fetching moves the log on when the code returns a token.\<close>
definition get_tok_packed :: "'a packed_sys \<Rightarrow> ('a option \<times> 'a packed_sys) option" where
  "get_tok_packed s =
     map_option (\<lambda>(r, l, q'). (r, s\<lparr>drv := q', dev_log := (if r = None then dev_log s else tl (dev_log s))\<rparr>))
       (virtqueue_get_buf_packed (drv s))"

abbreviation free_packed :: "'a packed_sys \<Rightarrow> nat" where
  "free_packed s \<equiv> unat (num_free (drv s))"

lemma padd_frame_num: "padd_frame q q' \<Longrightarrow> pq_num q' = pq_num q"
  by (cases q; cases q') (simp add: padd_frame_def)

lemma pget_frame_sel:
  "pget_frame q q' \<Longrightarrow> pq_num q' = pq_num q \<and> pq_desc q' = pq_desc q"
  by (cases q; cases q') (simp add: pget_frame_def)

lemma log_pos_cong:
  assumes "\<forall>h \<in> set log. num_of q' h = num_of q h"
  shows "log_pos q' U log k = log_pos q U log k"
proof -
  have "map (num_of q') (take k log) = map (num_of q) (take k log)"
    using assms by (auto dest: in_set_takeD)
  then show ?thesis by (simp only: log_pos_def)
qed

lemma packed_log_add:
  assumes inv: "packed_inv fs cs U A q" and log: "packed_log U A q log"
    and n: "A + n \<le> U + unat (pq_num q)"
    and sh: "pq_num q' = pq_num q"
    and old: "\<forall>x < unat (pq_num q). (\<forall>j < n. x \<noteq> (A + j) mod unat (pq_num q)) \<longrightarrow> pq_desc q' ! x = pq_desc q ! x"
    and new: "\<forall>j < n. drv_written (slot_flags q' (A + j)) (lap (unat (pq_num q)) (A + j))"
    and st: "\<forall>h \<in> set log. desc_state q' ! h = desc_state q ! h"
  shows "packed_log U (A + n) q' log"
    "log_pos q' U log (length log) = log_pos q U log (length log)"
proof -
  let ?N = "unat (pq_num q)"
  have N: "0 < ?N" using packed_idsD(1) [OF packed_invD(1) [OF inv]] .
  have lp: "log_pos q' U log k = log_pos q U log k" for k
    using st by (intro log_pos_cong) simp
  then show "log_pos q' U log (length log) = log_pos q U log (length log)" .
  have same: "pq_desc q' ! (v mod ?N) = pq_desc q ! (v mod ?N)" if "U \<le> v" "v < A" for v
  proof -
    have "v mod ?N \<noteq> (A + j) mod ?N" if j: "j < n" for j
    proof
      assume "v mod ?N = (A + j) mod ?N"
      moreover have "A + j < v + ?N" using \<open>U \<le> v\<close> n j by linarith
      ultimately show False using mod_window_inj [of v v ?N "A + j"] \<open>v < A\<close> by simp
    qed
    then show ?thesis using old N by simp
  qed
  have pos: "U \<le> log_pos q U log k \<and> log_pos q U log k < A" if "k < length log" for k
  proof -
    have "0 < num_of q (log ! k)" using packed_log_nums [OF inv log] that by simp
    from log_pos_less [OF that this, of U] packed_log_end [OF inv log]
    show ?thesis by (simp add: log_pos_def)
  qed
  have D: "U \<le> log_pos q U log (length log)" by (simp add: log_pos_def)
  have fl: "drv_written (slot_flags q' v) (lap ?N v)" if v: "log_pos q U log (length log) \<le> v" "v < A + n" for v
  proof (cases "v < A")
    case True
    then show ?thesis using log v same [of v] D sh by (simp add: packed_log_def slot_flags_def Let_def)
  next
    case False
    then obtain j where "v = A + j" by (metis le_add_diff_inverse not_less)
    then show ?thesis using new v by simp
  qed
  show "packed_log U (A + n) q' log"
    using log lp fl same pos sh st by (simp add: packed_log_def slot_flags_def Let_def)
qed

lemma packed_outstanding_set:
  assumes "h < length (desc_state (drv s))" "length (desc_state (drv s')) = length (desc_state (drv s))"
    "\<And>i. i < length (desc_state (drv s)) \<Longrightarrow>
       st_data (desc_state (drv s') ! i) = (if i = h then v else st_data (desc_state (drv s) ! i))"
  shows "outstanding_packed s' =
    mset (tok_of v) + (outstanding_packed s - mset (tok_of (st_data (desc_state (drv s) ! h))))"
proof -
  have "map st_data (desc_state (drv s')) = (map st_data (desc_state (drv s)))[h := v]"
    by (rule nth_equalityI) (auto simp: assms nth_list_update)
  then show ?thesis
    unfolding outstanding_packed_def using tokens_update [of h "map st_data (desc_state (drv s))" v] assms(1)
    by (simp del: map_map)
qed

lemma packed_add_sys:
  assumes inv: "packed_sys_inv s" and n: "0 < unat (out + in')" "unat (out + in') \<le> free_packed s"
    "unat (out + in') \<le> length sg"
  shows "\<exists>s'. add_tok_packed s sg out in' t = Some (0, s') \<and> packed_sys_inv s' \<and>
        outstanding_packed s' = add_mset t (outstanding_packed s) \<and> returned_packed s' = returned_packed s \<and>
        free_packed s' = free_packed s - unat (out + in')"
proof -
  let ?q = "drv s" and ?N = "unat (pq_num (drv s))" and ?n = "unat (out + in')" and ?log = "dev_log s"
  obtain fs cs U A where I: "packed_inv fs cs U A ?q" and L: "packed_log U A ?q ?log"
    and dv: "dev_idx s = log_pos ?q U ?log (length ?log) mod ?N"
      "dev_wrap s = lap ?N (log_pos ?q U ?log (length ?log))"
    using inv unfolding packed_sys_inv_def by blast
  note P = packed_invD [OF I]
  note D = packed_idsD [OF P(1)]
  have fs: "?n \<le> length fs" "fs \<noteq> []" using n D(8) by auto
  obtain q' where q': "virtqueue_add_buf_packed ?q sg out in' (Some t) None 0 = Some (0, None, q')"
    "packed_inv (drop ?n fs) ((t, take ?n fs) # cs) U (A + ?n) q'" "padd_frame ?q q'"
    "\<forall>j < ?n. pq_desc q' ! ((A + j) mod ?N) = packed_desc_of sg out ?n ?N (of_nat (hd fs)) A j"
    "\<forall>x < ?N. (\<forall>j < ?n. x \<noteq> (A + j) mod ?N) \<longrightarrow> pq_desc q' ! x = pq_desc ?q ! x"
    "desc_state q' = (desc_state ?q)[hd fs := \<lparr>st_data = Some t, st_num = of_nat ?n,
       st_next = st_next (desc_state ?q ! hd fs), st_last = of_nat (fs ! (?n - 1))\<rparr>]"
    using add_buf_packed_direct [OF I refl n(1) fs(1) n(3), of t 0] by blast
  have num: "pq_num q' = pq_num ?q" by (rule padd_frame_num [OF q'(3)])
  have hfs: "hd fs < ?N" using D(7) fs(2) by (cases fs) auto
  have "hd fs \<notin> hd ` snd ` set cs"
  proof
    assume "hd fs \<in> hd ` snd ` set cs"
    then obtain u c where "(u, c) \<in> set cs" "hd fs = hd c" by auto
    with packed_ids_chain [OF P(1) this(1)] fs(2) show False by (metis disjoint_iff hd_in_set)
  qed
  then have hn: "st_data (desc_state ?q ! hd fs) = None"
    by (rule packed_ids_none [OF P(1) hfs])
  have lg: "h < ?N \<and> st_data (desc_state ?q ! h) \<noteq> None" if "h \<in> set ?log" for h
    using L that by (simp add: packed_log_def Let_def)
  have st: "desc_state q' ! h = desc_state ?q ! h" if "h \<in> set ?log" for h
    using lg [OF that] hn q'(6) by (metis nth_list_update_neq)
  have new: "\<forall>j < ?n. drv_written (slot_flags q' (A + j)) (lap ?N (A + j))"
    using q'(4) num drv_written_flags(1) by (simp add: slot_flags_def packed_desc_of_def)
  have An: "A + ?n \<le> U + ?N" using P(9) fs(1) by simp
  note LA = packed_log_add [OF I L An num q'(5) new]
  let ?s' = "s\<lparr>drv := q'\<rparr>"
  have "packed_sys_inv ?s'"
    unfolding packed_sys_inv_def
    using q'(2) LA st dv num by (intro exI conjI) auto
  moreover have "outstanding_packed ?s' = add_mset t (outstanding_packed s)"
    using packed_outstanding_set [of "hd fs" s ?s' "Some t"] hfs D(4) q'(6) hn by (simp add: nth_list_update)
  moreover have "returned_packed ?s' = returned_packed s"
    using st by (simp add: returned_packed_def)
  moreover have "free_packed ?s' = free_packed s - ?n"
    using packed_idsD(8) [OF packed_invD(1) [OF q'(2)]] D(8) by simp
  ultimately show ?thesis
    using q'(1) by (intro exI [of _ ?s']) (simp add: add_tok_packed_def)
qed

lemma packed_get_none_sys:
  assumes inv: "packed_sys_inv s" and r: "returned_packed s = []"
  shows "get_tok_packed s = Some (None, s)"
proof -
  let ?q = "drv s" and ?N = "unat (pq_num (drv s))"
  obtain fs cs U A where I: "packed_inv fs cs U A ?q" and L: "packed_log U A ?q (dev_log s)"
    using inv unfolding packed_sys_inv_def by blast
  have lg: "dev_log s = []" using r by (simp add: returned_packed_def)
  note P = packed_invD [OF I]
  have N: "0 < ?N" using packed_idsD(1) [OF P(1)] .
  have "\<not> dev_written (slot_flags ?q U) (lap ?N U)"
  proof (cases "U < A")
    case True
    then have "drv_written (slot_flags ?q U) (lap ?N U)"
      using L lg by (simp add: packed_log_def log_pos_def Let_def)
    then show ?thesis by (rule drv_not_dev)
  next
    case False
    then have UA: "U = A" using P(3) by simp
    have "\<not> dev_written (slot_flags ?q (U - ?N)) (\<not> lap ?N (U - ?N))"
      using P(2,8) UA N by (auto simp: packed_ring_def Let_def)
    moreover have "slot_flags ?q (U - ?N) = slot_flags ?q U"
      using P(8) by (simp add: slot_flags_def le_mod_geq)
    ultimately show ?thesis using lap_diff [OF N P(8)] by simp
  qed
  from get_buf_packed_none [OF I this] show ?thesis by (simp add: get_tok_packed_def)
qed

lemma log_pos_Cons: "log_pos q U (h # hs) (Suc k) = log_pos q (U + num_of q h) hs k"
  by (simp add: log_pos_def)

lemma packed_log_get:
  assumes log: "packed_log U A q (h # hs)" and l: "l = num_of q h"
    and sh: "pq_num q' = pq_num q" "pq_desc q' = pq_desc q"
    and num: "\<forall>i. num_of q' i = num_of q i"
    and data: "\<forall>i. st_data (desc_state q' ! i) = (if i = h then None else st_data (desc_state q ! i))"
  shows "packed_log (U + l) A q' hs"
    "log_pos q' (U + l) hs (length hs) = log_pos q U (h # hs) (length (h # hs))"
proof -
  have lp: "log_pos q' (U + l) hs k = log_pos q U (h # hs) (Suc k)" for k
    using num log_pos_cong [of hs q' q] by (simp add: log_pos_Cons l)
  then show "log_pos q' (U + l) hs (length hs) = log_pos q U (h # hs) (length (h # hs))" by simp
  have a: "distinct (h # hs)" "\<And>i. i \<in> set hs \<Longrightarrow> i < unat (pq_num q) \<and> st_data (desc_state q ! i) \<noteq> None"
    using log by (auto simp: packed_log_def Let_def)
  have b: "unat (p_id (pq_desc q ! (log_pos q U (h # hs) (Suc k) mod unat (pq_num q)))) = hs ! k \<and>
      dev_written (slot_flags q (log_pos q U (h # hs) (Suc k))) (lap (unat (pq_num q)) (log_pos q U (h # hs) (Suc k)))"
    if "k < length hs" for k
  proof -
    have "Suc k < length (h # hs)" using that by simp
    with log have "unat (p_id (pq_desc q ! (log_pos q U (h # hs) (Suc k) mod unat (pq_num q)))) = (h # hs) ! Suc k \<and>
      dev_written (slot_flags q (log_pos q U (h # hs) (Suc k))) (lap (unat (pq_num q)) (log_pos q U (h # hs) (Suc k)))"
      unfolding packed_log_def Let_def by blast
    then show ?thesis by simp
  qed
  have c: "drv_written (slot_flags q v) (lap (unat (pq_num q)) v)"
    if "log_pos q U (h # hs) (Suc (length hs)) \<le> v" "v < A" for v
    using log that by (simp add: packed_log_def Let_def)
  show "packed_log (U + l) A q' hs"
    unfolding packed_log_def Let_def sh lp slot_flags_def
    using a b c data by (auto simp: slot_flags_def)
qed

lemma packed_get_sys:
  assumes inv: "packed_sys_inv s" and r: "returned_packed s = t # ts"
  shows "\<exists>s'. get_tok_packed s = Some (Some t, s') \<and> packed_sys_inv s' \<and>
        outstanding_packed s' = outstanding_packed s - {#t#} \<and> returned_packed s' = ts \<and>
        free_packed s < free_packed s'"
proof -
  let ?q = "drv s" and ?N = "unat (pq_num (drv s))"
  obtain fs cs U A where I: "packed_inv fs cs U A ?q" and L: "packed_log U A ?q (dev_log s)"
    and dv: "dev_idx s = log_pos ?q U (dev_log s) (length (dev_log s)) mod ?N"
      "dev_wrap s = lap ?N (log_pos ?q U (dev_log s) (length (dev_log s)))"
    using inv unfolding packed_sys_inv_def by blast
  obtain h hs where hs: "dev_log s = h # hs" using r by (auto simp: returned_packed_def)
  note P = packed_invD [OF I]
  have L0: "distinct (h # hs)" "h < ?N" "st_data (desc_state ?q ! h) \<noteq> None"
    using L hs by (auto simp: packed_log_def Let_def)
  have first: "unat (p_id (pq_desc ?q ! (U mod ?N))) = h" "dev_written (slot_flags ?q U) (lap ?N U)"
  proof -
    have "0 < length (h # hs)" by simp
    with L [unfolded hs] have "unat (p_id (pq_desc ?q ! (log_pos ?q U (h # hs) 0 mod ?N))) = (h # hs) ! 0 \<and>
      dev_written (slot_flags ?q (log_pos ?q U (h # hs) 0)) (lap ?N (log_pos ?q U (h # hs) 0))"
      unfolding packed_log_def Let_def by blast
    then show "unat (p_id (pq_desc ?q ! (U mod ?N))) = h" "dev_written (slot_flags ?q U) (lap ?N U)"
      by (simp_all add: log_pos_def)
  qed
  have td: "st_data (desc_state ?q ! h) = Some t"
    using r hs L0(3) by (auto simp: returned_packed_def)
  obtain c where c: "(t, c) \<in> set cs" "hd c = h" "num_of ?q h = length c" "c \<noteq> []"
    using packed_head [OF P(1) L0(2) td] by blast
  obtain q' where q': "virtqueue_get_buf_packed ?q = Some (Some t, Some (p_len (pq_desc ?q ! (U mod ?N))), q')"
    "packed_inv (c @ fs) (remove1 (t, c) cs) (U + length c) A q'" "pget_frame ?q q'"
    "\<forall>i. st_data (desc_state q' ! i) = (if i = h then None else st_data (desc_state ?q ! i))"
    "\<forall>i. st_num (desc_state q' ! i) = st_num (desc_state ?q ! i)"
    using get_buf_packed_chain [OF I c(1) first(2)] first(1) unfolding c(2) by blast
  have sel: "pq_num q' = pq_num ?q" "pq_desc q' = pq_desc ?q" using pget_frame_sel [OF q'(3)] by auto
  have "\<forall>i. num_of q' i = num_of ?q i" using q'(5) by simp
  note LG = packed_log_get [OF L [unfolded hs] c(3) [symmetric] sel this q'(4)]
  let ?s' = "s\<lparr>drv := q', dev_log := hs\<rparr>"
  have "packed_sys_inv ?s'"
    unfolding packed_sys_inv_def
    using q'(2) LG dv sel hs by (intro exI conjI) auto
  moreover have "outstanding_packed ?s' = outstanding_packed s - {#t#}"
    using packed_outstanding_set [of h s ?s' None] q'(4) L0(2) td packed_idsD(4) [OF P(1)]
      packed_idsD(4) [OF packed_invD(1) [OF q'(2)]] sel
    by simp
  moreover have "returned_packed ?s' = ts"
    using r hs q'(4) L0(1) by (auto simp: returned_packed_def)
  moreover have "free_packed s < free_packed ?s'"
    using packed_idsD(8) [OF packed_invD(1) [OF q'(2)]] packed_idsD(8) [OF P(1)] c(4) by simp
  ultimately show ?thesis
    using q'(1) hs by (intro exI [of _ ?s']) (simp add: get_tok_packed_def)
qed

lemma packed_use_sys:
  assumes inv: "packed_sys_inv s" and u: "device_use_packed s t s'"
  shows "packed_sys_inv s' \<and> outstanding_packed s' = outstanding_packed s \<and>
      returned_packed s' = returned_packed s @ [t] \<and> free_packed s' = free_packed s"
proof -
  let ?q = "drv s" and ?N = "unat (pq_num (drv s))" and ?log = "dev_log s"
  obtain fs cs U A where I: "packed_inv fs cs U A ?q" and L: "packed_log U A ?q ?log"
    and dv: "dev_idx s = log_pos ?q U ?log (length ?log) mod ?N"
      "dev_wrap s = lap ?N (log_pos ?q U ?log (length ?log))"
    using inv unfolding packed_sys_inv_def by blast
  note P = packed_invD [OF I] and E = packed_log_end [OF I L]
  note D = packed_idsD [OF P(1)]
  let ?D = "log_pos ?q U ?log (length ?log)"
  obtain h len addr f where h: "h < ?N" "st_data (desc_state ?q ! h) = Some t" "h \<notin> set ?log"
    "dev_written f (dev_wrap s)" "s' = device_put_packed s h len addr f"
    using u unfolding device_use_packed_def by blast
  have lg: "distinct ?log" "\<And>x. x \<in> set ?log \<Longrightarrow> x < ?N \<and> st_data (desc_state ?q ! x) \<noteq> None"
    using L by (auto simp: packed_log_def Let_def)
  let ?l = "num_of ?q h"
  have l0: "0 < ?l" using packed_head [OF P(1) h(1,2)] by (metis length_greater_0_conv)
  have "U + sum_list (map (num_of ?q) (h # ?log)) \<le> A"
    using lg h(1,2,3) by (intro log_bound [OF I]) auto
  then have DA: "?D + ?l \<le> A" by (simp add: log_pos_def)
  have UD: "U \<le> ?D" by (simp add: log_pos_def)
  have lN: "?l \<le> ?N" using DA UD P(9) by linarith
  let ?d = "\<lparr>p_addr = addr, p_len = len, p_id = of_nat h, p_flags = f\<rparr>"
  let ?q' = "?q\<lparr>pq_desc := (pq_desc ?q)[?D mod ?N := ?d]\<rparr>"
  have N0: "0 < ?N" by (rule D(1))
  have DN: "?D mod ?N < ?N" using N0 by simp
  have s': "drv s' = ?q'" "dev_log s' = ?log @ [h]"
    "dev_idx s' = (?D + ?l) mod ?N" "dev_wrap s' = lap ?N (?D + ?l)"
    using h(5) dv mod_add_le [OF N0 lN, of ?D] lap_add [OF N0 lN, of ?D]
    by (simp_all add: device_put_packed_def Let_def)
  have num: "num_of ?q' x = num_of ?q x" for x by simp
  have lp: "log_pos ?q' U (?log @ [h]) k = (if k \<le> length ?log then log_pos ?q U ?log k else ?D + ?l)" for k
    by (simp add: log_pos_def)
  have other: "slot_flags ?q' v = slot_flags ?q v \<and> pq_desc ?q' ! (v mod ?N) = pq_desc ?q ! (v mod ?N)"
    if "A - ?N \<le> v" "v < A" "v \<noteq> ?D" for v
  proof -
    have "v mod ?N \<noteq> ?D mod ?N"
      using mod_window_inj [of "A - ?N" v ?N ?D] that DA l0 UD P(9) by linarith
    then show ?thesis by (simp add: slot_flags_def)
  qed
  have atD: "slot_flags ?q' ?D = f" "pq_desc ?q' ! (?D mod ?N) = ?d"
    using DN D(3) by (simp_all add: slot_flags_def)
  have fD: "dev_written f (lap ?N ?D)" using h(4) dv(2) by simp
  have "packed_ring U A ?q'"
  proof -
    have "\<not> dev_written (slot_flags ?q' v) (\<not> lap ?N v)" if v: "A - ?N \<le> v" "v < A" for v
    proof (cases "v = ?D")
      case True
      then show ?thesis using atD(1) fD by (auto simp: dev_written_def)
    next
      case False
      then show ?thesis using other [OF v] P(2) v by (simp add: packed_ring_def Let_def)
    qed
    then show ?thesis using P(2) by (simp add: packed_ring_def Let_def)
  qed
  moreover have "packed_ids fs cs ?q'" by (rule packed_ids_cong [OF P(1)]) simp_all
  ultimately have I': "packed_inv fs cs U A ?q'" using P(3) by (simp add: packed_inv_def)
  have hid: "unat (of_nat h :: u16) = h" using h(1) D(2) by (intro unat_of_nat_less) simp
  have pos: "A - ?N \<le> log_pos ?q U ?log k \<and> log_pos ?q U ?log k < A \<and> log_pos ?q U ?log k \<noteq> ?D"
    if "k < length ?log" for k
  proof -
    have "0 < num_of ?q (?log ! k)" using packed_log_nums [OF I L] that by simp
    from log_pos_less [OF that this, of U] E P(9) show ?thesis by (simp add: log_pos_def)
  qed
  have ent: "unat (p_id (pq_desc ?q' ! (log_pos ?q' U (?log @ [h]) k mod ?N))) = (?log @ [h]) ! k \<and>
      dev_written (slot_flags ?q' (log_pos ?q' U (?log @ [h]) k)) (lap ?N (log_pos ?q' U (?log @ [h]) k))"
    if "k < length (?log @ [h])" for k
  proof (cases "k < length ?log")
    case True
    then have "unat (p_id (pq_desc ?q ! (log_pos ?q U ?log k mod ?N))) = ?log ! k \<and>
      dev_written (slot_flags ?q (log_pos ?q U ?log k)) (lap ?N (log_pos ?q U ?log k))"
      using L unfolding packed_log_def Let_def by blast
    then show ?thesis using other [of "log_pos ?q U ?log k"] pos [OF True] True unfolding lp
      by (simp add: nth_append)
  next
    case False
    then have "k = length ?log" using that by simp
    then show ?thesis unfolding lp using atD fD hid by simp
  qed
  have rest: "drv_written (slot_flags ?q' v) (lap ?N v)" if "?D + ?l \<le> v" "v < A" for v
  proof -
    have "drv_written (slot_flags ?q v) (lap ?N v)" using L that by (simp add: packed_log_def Let_def)
    then show ?thesis using other [of v] that l0 UD P(9) by simp
  qed
  have L': "packed_log U A ?q' (?log @ [h])"
    unfolding packed_log_def Let_def
  proof (intro conjI)
    show "\<forall>k<length (?log @ [h]). unat (p_id (pq_desc ?q' ! (log_pos ?q' U (?log @ [h]) k mod unat (pq_num ?q')))) =
        (?log @ [h]) ! k \<and>
      dev_written (slot_flags ?q' (log_pos ?q' U (?log @ [h]) k)) (lap (unat (pq_num ?q')) (log_pos ?q' U (?log @ [h]) k))"
      using ent by simp
    show "\<forall>v. log_pos ?q' U (?log @ [h]) (length (?log @ [h])) \<le> v \<and> v < A \<longrightarrow>
        drv_written (slot_flags ?q' v) (lap (unat (pq_num ?q')) v)"
      using rest by (simp add: lp)
  qed (use lg h in auto)
  have "packed_sys_inv s'"
    unfolding packed_sys_inv_def s'
    using I' L' lp [of "length (?log @ [h])"] by (intro exI conjI) auto
  moreover have "outstanding_packed s' = outstanding_packed s"
    by (simp add: outstanding_packed_def s'(1))
  moreover have "returned_packed s' = returned_packed s @ [t]"
    using h(2) by (simp add: returned_packed_def s'(1,2))
  ultimately show ?thesis by (simp add: s'(1))
qed

interpretation pq: virtqueue packed_sys_inv add_tok_packed get_tok_packed device_use_packed
    outstanding_packed returned_packed free_packed
proof
  fix s :: "'a packed_sys" and out in' sg t
  show "packed_sys_inv s \<Longrightarrow> free_packed s < unat (out + in') \<Longrightarrow>
      add_tok_packed s sg out in' t = Some (- ENOSPC, s)"
  proof -
    assume a: "packed_sys_inv s" "free_packed s < unat (out + in')"
    then obtain fs cs U A where I: "packed_inv fs cs U A (drv s)" unfolding packed_sys_inv_def by blast
    then have "length fs < unat (out + in')"
      using a(2) packed_idsD(8) [OF packed_invD(1) [OF I]] by simp
    from add_buf_packed_full [OF I this] show ?thesis by (simp add: add_tok_packed_def)
  qed
  show "packed_sys_inv s \<Longrightarrow> mset (returned_packed s) \<subseteq># outstanding_packed s"
  proof -
    assume "packed_sys_inv s"
    then obtain fs cs U A where I: "packed_inv fs cs U A (drv s)" and L: "packed_log U A (drv s) (dev_log s)"
      unfolding packed_sys_inv_def by blast
    let ?xs = "map st_data (desc_state (drv s))"
    have len: "length (desc_state (drv s)) = unat (pq_num (drv s))"
      by (rule packed_idsD(4) [OF packed_invD(1) [OF I]])
    have lg: "distinct (dev_log s)" "\<forall>h \<in> set (dev_log s). h < length ?xs \<and> ?xs ! h \<noteq> None"
      using L len by (auto simp: packed_log_def Let_def)
    have "map (\<lambda>h. the (?xs ! h)) (dev_log s) = returned_packed s"
      using lg(2) by (simp add: returned_packed_def)
    with tokens_distinct_slots [OF lg] show ?thesis by (simp only: outstanding_packed_def)
  qed
qed (rule packed_add_sys packed_get_none_sys packed_get_sys packed_use_sys; assumption)+

end
