(* ===== verification/GpuQueueOps.thy ===== *)
theory GpuQueueOps
  imports GpuQueue VirtioPackedSys
begin

text \<open>
  What the operations of \<^verbatim>\<open>GpuQueue\<close> do: the scatter list of a command, and, over any
  ring that meets the contract \<^verbatim>\<open>virtqueue\<close> (locale \<^verbatim>\<open>gpu_ring\<close>), the invariant of the
  driver with its two queues and the shared pool.  The locale is interpreted on the split
  and on the packed ring.
\<close>

section \<open>The data pages\<close>

definition sgleft_ok :: "scatterlist list \<Rightarrow> u32 \<Rightarrow> bool" where
  "sgleft_ok sg l \<longleftrightarrow> length sg < SGLIST_SIZE \<and> unat l = SGLIST_SIZE - length sg"

lemma sgleft_ok_dec:
  assumes "sgleft_ok sg l" "l - 1 \<noteq> 0"
  shows "sgleft_ok (sg @ [e]) (l - 1)"
proof -
  have "0 < unat l" using assms(1) by (simp add: sgleft_ok_def SGLIST_SIZE_def)
  then have "unat (l - 1) = unat l - 1" by (rule unat_minus_1)
  moreover have "unat (l - 1) \<noteq> 0" using assms(2) by (simp add: unat_eq_zero)
  ultimately show ?thesis using assms(1) by (auto simp: sgleft_ok_def SGLIST_SIZE_def)
qed

lemma queue_data_partial:
  assumes "queue_data mm a d sg l = Some r"
  shows "sgleft_ok sg l \<longrightarrow> (case r of None \<Rightarrow> True | Some (sg', l') \<Rightarrow>
    length sg \<le> length sg' \<and> sgleft_ok sg' l')"
  using assms
proof (induction rule: queue_data.raw_induct [of _ mm a d sg l r, rotated, consumes 1])
  case (1 queue_data mm a d sg l r)
  show ?case
  proof
    assume ok: "sgleft_ok sg l"
    show "case r of None \<Rightarrow> True | Some (sg', l') \<Rightarrow> length sg \<le> length sg' \<and> sgleft_ok sg' l'"
    proof (cases "d = 0")
      case True
      then show ?thesis using 1(2) ok by auto
    next
      case False
      show ?thesis
      proof (cases "build_sg_element mm a d")
        case None
        then have "queue_data mm a d sg l = Some r" using 1(2) False by simp
        from 1(1) [OF this] ok show ?thesis by blast
      next
        case (Some e)
        have lt: "length sg < SGLIST_SIZE" using ok by (simp add: sgleft_ok_def)
        show ?thesis
        proof (cases "l - 1 = 0")
          case True
          then show ?thesis using 1(2) False Some lt by simp
        next
          case nz: False
          then have "queue_data mm (a + 4096) (d - min d PAGE_SIZE) (sg @ [e]) (l - 1) = Some r"
            using 1(2) False Some lt by simp
          from 1(1) [OF this] sgleft_ok_dec [OF ok nz, of e] show ?thesis
            by (auto split: option.splits)
        qed
      qed
    qed
  qed
qed

lemma queue_data_stuck:
  assumes "d \<noteq> 0" "\<not> addr_valid mm a"
  shows "queue_data mm a d sg l = None"
proof (rule ccontr)
  assume "queue_data mm a d sg l \<noteq> None"
  then obtain r where "queue_data mm a d sg l = Some r" by blast
  then have "d = 0 \<or> addr_valid mm a"
  proof (induction rule: queue_data.raw_induct [of _ mm a d sg l r, rotated, consumes 1])
    case (1 queue_data mm a d sg l r)
    show ?case
    proof (rule ccontr)
      assume n: "\<not> (d = 0 \<or> addr_valid mm a)"
      then have "queue_data mm a d sg l = Some r" using 1(2) by (simp add: build_sg_element_def)
      from 1(1) [OF this] n show False by blast
    qed
  qed
  with assms show False by blast
qed

text \<open>The list the loop builds: one element per page, the last one with what is left.\<close>
definition page_sgs :: "mm \<Rightarrow> u64 \<Rightarrow> nat \<Rightarrow> scatterlist list" where
  "page_sgs mm a n = map (\<lambda>i. \<lparr>physAddr = phys_addr mm (a + of_nat (4096 * i)),
     sg_length = of_nat (min 4096 (n - 4096 * i))\<rparr>) [0..<(n + 4095) div 4096]"

definition pages_of :: "nat \<Rightarrow> nat" where
  "pages_of n = (n + 4095) div 4096"

lemma length_page_sgs [simp]: "length (page_sgs mm a n) = pages_of n"
  by (simp add: page_sgs_def pages_of_def)

lemma pages_of_step: "n \<noteq> 0 \<Longrightarrow> pages_of n = Suc (pages_of (n - min n 4096))"
  unfolding pages_of_def by (cases "n \<le> 4096") (auto simp: min_def)

lemma pages_of_0 [simp]: "pages_of 0 = 0" by (simp add: pages_of_def)

lemma page_sgs_step:
  assumes "n \<noteq> 0"
  shows "page_sgs mm a n = \<lparr>physAddr = phys_addr mm a, sg_length = of_nat (min n 4096)\<rparr> #
    page_sgs mm (a + 4096) (n - min n 4096)"
proof (cases "n \<le> 4096")
  case True
  then have "(n + 4095) div 4096 = 1" by (intro div_nat_eqI) (use assms in auto)
  then show ?thesis using True by (simp add: page_sgs_def min.commute)
next
  case False
  then have p: "(n + 4095) div 4096 = Suc ((n - 4096 + 4095) div 4096)" by simp
  have "page_sgs mm a n = map (\<lambda>i. \<lparr>physAddr = phys_addr mm (a + of_nat (4096 * i)),
     sg_length = of_nat (min 4096 (n - 4096 * i))\<rparr>) (0 # map Suc [0..<(n - 4096 + 4095) div 4096])"
    unfolding page_sgs_def p by (simp only: upt_conv_Cons map_Suc_upt zero_less_Suc)
  then show ?thesis using False
    by (simp add: page_sgs_def comp_def min.commute add.assoc algebra_simps)
qed

lemma queue_data_step:
  assumes "d \<noteq> 0" "addr_valid mm a" "sgleft_ok sg l"
  shows "queue_data mm a d sg l =
    (if l - 1 = 0 then Some None
     else queue_data mm (a + 4096) (d - min d 4096)
       (sg @ [\<lparr>physAddr = phys_addr mm a, sg_length = min d 4096\<rparr>]) (l - 1))"
  using assms by (subst queue_data.simps) (simp add: build_sg_element_def sgleft_ok_def PAGE_SIZE_def)

lemma queue_data_ok:
  assumes "sgleft_ok sg l" "\<And>i. i < pages_of (unat d) \<Longrightarrow> addr_valid mm (a + of_nat (4096 * i))"
  shows "queue_data mm a d sg l =
    (if length sg + pages_of (unat d) < SGLIST_SIZE
     then Some (Some (sg @ page_sgs mm a (unat d), l - of_nat (pages_of (unat d)))) else Some None)"
  using assms
proof (induction "pages_of (unat d)" arbitrary: a d sg l)
  case 0
  then have "d = 0" using pages_of_step [of "unat d"] by (auto simp: unat_eq_zero)
  then show ?case using 0(2) by (subst queue_data.simps) (simp add: sgleft_ok_def page_sgs_def)
next
  case (Suc k)
  have d: "d \<noteq> 0" using Suc(2) by auto
  let ?d = "d - min d 4096" and ?e = "\<lparr>physAddr = phys_addr mm a, sg_length = min d 4096\<rparr>"
  have md: "unat (min d 4096) = min (unat d) 4096" by (simp add: min_def word_le_nat_alt)
  have ud: "unat ?d = unat d - min (unat d) 4096"
    using md by (subst unat_sub) (simp_all add: word_le_nat_alt)
  have k: "k = pages_of (unat ?d)"
    using Suc(2) pages_of_step [of "unat d"] d by (simp add: ud unat_eq_zero)
  have pk: "pages_of (unat d) = Suc k" using Suc(2) by simp
  have va: "addr_valid mm a" using Suc(4) [of 0] pk by simp
  have ok: "unat l = 64 - length sg" "length sg < 64" using Suc(3) by (simp_all add: sgleft_ok_def SGLIST_SIZE_def)
  show ?case
  proof (cases "l - 1 = 0")
    case True
    then have "unat l = 1" by simp
    then show ?thesis using True queue_data_step [OF d va Suc(3)] ok pk by (simp add: SGLIST_SIZE_def)
  next
    case False
    have v: "addr_valid mm (a + 4096 + of_nat (4096 * i))" if "i < pages_of (unat ?d)" for i
      using Suc(4) [of "Suc i"] that pk k by (simp add: algebra_simps)
    have pg: "page_sgs mm a (unat d) = ?e # page_sgs mm (a + 4096) (unat ?d)"
    proof -
      have "of_nat (min (unat d) 4096) = min d 4096"
        using unat_eq_of_nat [OF md] by simp
      then show ?thesis using page_sgs_step [of "unat d" mm a] d ud by (simp add: unat_eq_zero)
    qed
    have "queue_data mm a d sg l = queue_data mm (a + 4096) ?d (sg @ [?e]) (l - 1)"
      using queue_data_step [OF d va Suc(3)] False by simp
    also have "\<dots> = (if length (sg @ [?e]) + pages_of (unat ?d) < SGLIST_SIZE
       then Some (Some ((sg @ [?e]) @ page_sgs mm (a + 4096) (unat ?d), l - 1 - of_nat (pages_of (unat ?d))))
       else Some None)"
      by (rule Suc(1) [OF k sgleft_ok_dec [OF Suc(3) False] v])
    also have "\<dots> = (if length sg + pages_of (unat d) < SGLIST_SIZE
     then Some (Some (sg @ page_sgs mm a (unat d), l - of_nat (pages_of (unat d)))) else Some None)"
      using pg pk k by (simp add: diff_diff_eq)
    finally show ?thesis .
  qed
qed

section \<open>The driver over a ring\<close>

lemma get_vbuf_pool_blocks:
  assumes inv: "gpubuf_inv b" and f: "m_FreeBufs b = p # ps"
  shows "set (pool_blocks (b\<lparr>m_FreeBufs := ps, m_InUseBufs := m_InUseBufs b @ [p],
      vbufs := (vbufs b)(p \<mapsto> fresh_vbuf p sz rsize rbuf)\<rparr>)) =
    set (pool_blocks b) \<union> set (owned (fresh_vbuf p sz rsize rbuf))"
proof -
  have "p \<notin> set (m_InUseBufs b)" using gpubuf_inv_elem(5) [OF inv] f by auto
  then show ?thesis using f by (auto simp: set_eq_iff pool_blocks_mem) (auto simp: owned_at_def split: if_splits)
qed

lemma gpubuf_inv_new_block:
  assumes "gpubuf_inv b" "a \<noteq> 0"
  shows "gpubuf_inv (b\<lparr>blocks := insert a (blocks b)\<rparr>)"
proof -
  have "pool_blocks (b\<lparr>blocks := insert a (blocks b)\<rparr>) = pool_blocks b"
    by (simp add: pool_blocks_def) (rule concat_owned_cong, simp)
  then show ?thesis using assms by (auto simp: gpubuf_inv_def)
qed

lemma owned_attach_payload:
  "owned v = [] \<Longrightarrow> data_buf v = 0 \<Longrightarrow>
   owned (attach_payload pl v) = (case pl of Data a n \<Rightarrow>
      if a \<noteq> 0 \<and> SIZEOF_GPU_MEM_ENTRY * n \<noteq> 0 then [a] else [] | _ \<Rightarrow> [])"
  by (cases pl) (auto simp: owned_def large_resp_def has_data_def)

text \<open>A command up to its queueing: either no buffer was free, or the first free one is in
  use and carries the command's payload.\<close>
lemma alloc_and_attach:
  assumes inv: "gpubuf_inv (pool q)" and pl: "payload_ok pl (pool q)"
  shows "(alloc_cmd sz q = Some (0, q) \<and> m_FreeBufs (pool q) = []) \<or>
    (\<exists>p ps b. m_FreeBufs (pool q) = p # ps \<and> p \<noteq> 0 \<and>
       alloc_cmd sz q = Some (p, q\<lparr>pool := b\<rparr>) \<and>
       (\<exists>b'. set_vbuf p (attach_payload pl) (set_cmd p c (q\<lparr>pool := b\<rparr>)) =
          Some (set_cmd p c (q\<lparr>pool := b'\<rparr>)) \<and> gpubuf_inv b' \<and> m_FreeBufs b' = ps \<and>
          m_InUseBufs b' = m_InUseBufs (pool q) @ [p] \<and>
          vbufs b' p = Some (attach_payload pl (fresh_vbuf p sz SIZEOF_GPU_CTRL_HDR 0))))"
proof (cases "m_FreeBufs (pool q)")
  case Nil
  then show ?thesis by (simp add: alloc_cmd_def alloc_cmd_resp_def get_vbuf_empty)
next
  case (Cons p ps)
  let ?v = "fresh_vbuf p sz SIZEOF_GPU_CTRL_HDR 0"
  let ?b = "(pool q)\<lparr>m_FreeBufs := ps, m_InUseBufs := m_InUseBufs (pool q) @ [p],
    vbufs := (vbufs (pool q))(p \<mapsto> ?v)\<rparr>"
  have a: "resp_arg_ok (pool q) SIZEOF_GPU_CTRL_HDR 0"
    by (simp add: resp_arg_ok_def)
  note g = get_vbuf_ok [OF inv Cons a, of sz]
  have o: "owned ?v = []" by (simp add: owned_fresh_vbuf)
  have ow: "owned (attach_payload pl ?v) = (case pl of Data a n \<Rightarrow>
      if a \<noteq> 0 \<and> SIZEOF_GPU_MEM_ENTRY * n \<noteq> 0 then [a] else [] | _ \<Rightarrow> [])"
    by (rule owned_attach_payload [OF o]) (simp add: fresh_vbuf_def)
  have pb: "set (pool_blocks ?b) = set (pool_blocks (pool q))"
    using get_vbuf_pool_blocks [OF inv Cons] o by simp
  have p: "p \<in> set (m_InUseBufs ?b)" and v: "vbufs ?b p = Some ?v" by simp_all
  have x: "mset (owned (attach_payload pl ?v)) = mset (owned ?v) + mset (owned (attach_payload pl ?v))"
      "distinct (owned (attach_payload pl ?v))"
      "set (owned (attach_payload pl ?v)) \<subseteq> blocks ?b - set (pool_blocks ?b)"
    using o ow pb pl by (auto split: payload.splits)
  note u = upd_vbuf_ok [where f = "attach_payload pl", OF g(2) p v x]
  have "p \<noteq> 0" using gpubuf_inv_elem(2) [OF inv, of p] Cons by simp
  moreover have "alloc_cmd sz q = Some (p, q\<lparr>pool := ?b\<rparr>)"
    using g(1) by (simp add: alloc_cmd_def alloc_cmd_resp_def)
  moreover have "set_vbuf p (attach_payload pl) (set_cmd p c (q\<lparr>pool := ?b\<rparr>)) =
      Some (set_cmd p c (q\<lparr>pool := ?b\<lparr>vbufs := (vbufs ?b)(p \<mapsto> attach_payload pl ?v)\<rparr>\<rparr>))"
    using u(1) by (simp add: set_vbuf_def set_cmd_def)
  ultimately show ?thesis using u(2) Cons
    by (intro disjI2 exI [of _ p] exI [of _ ps] exI [of _ ?b] conjI
        exI [of _ "?b\<lparr>vbufs := (vbufs ?b)(p \<mapsto> attach_payload pl ?v)\<rparr>"]) simp_all
qed

lemma alloc_and_attach_resp:
  assumes inv: "gpubuf_inv (pool q)" and r: "resp_arg_ok (pool q) rsize rbuf"
  shows "(alloc_cmd_resp sz rbuf rsize q = Some (0, q) \<and> m_FreeBufs (pool q) = []) \<or>
    (\<exists>p ps b. m_FreeBufs (pool q) = p # ps \<and> p \<noteq> 0 \<and>
       alloc_cmd_resp sz rbuf rsize q = Some (p, q\<lparr>pool := b\<rparr>) \<and>
       (\<exists>b'. set_vbuf p (attach_payload (Event e)) (set_cmd p c (q\<lparr>pool := b\<rparr>)) =
          Some (set_cmd p c (q\<lparr>pool := b'\<rparr>)) \<and> gpubuf_inv b' \<and> m_FreeBufs b' = ps \<and>
          m_InUseBufs b' = m_InUseBufs (pool q) @ [p] \<and>
          vbufs b' p = Some ((fresh_vbuf p sz rsize rbuf)\<lparr>vb_event := e\<rparr>)) \<and>
       gpubuf_inv b \<and> m_FreeBufs b = ps \<and> m_InUseBufs b = m_InUseBufs (pool q) @ [p] \<and>
       vbufs b p = Some (fresh_vbuf p sz rsize rbuf))"
proof (cases "m_FreeBufs (pool q)")
  case Nil
  then show ?thesis by (simp add: alloc_cmd_resp_def get_vbuf_empty)
next
  case (Cons p ps)
  let ?v = "fresh_vbuf p sz rsize rbuf"
  let ?b = "(pool q)\<lparr>m_FreeBufs := ps, m_InUseBufs := m_InUseBufs (pool q) @ [p],
    vbufs := (vbufs (pool q))(p \<mapsto> ?v)\<rparr>"
  note g = get_vbuf_ok [OF inv Cons r, of sz]
  have p: "p \<in> set (m_InUseBufs ?b)" and v: "vbufs ?b p = Some ?v" by simp_all
  have x: "mset (owned (attach_payload (Event e) ?v)) = mset (owned ?v) + mset []" "distinct ([] :: u64 list)"
      "set [] \<subseteq> blocks ?b - set (pool_blocks ?b)"
    by (simp_all add: owned_def large_resp_def has_data_def)
  note u = upd_vbuf_ok [where f = "attach_payload (Event e)", OF g(2) p v x]
  have "p \<noteq> 0" using gpubuf_inv_elem(2) [OF inv, of p] Cons by simp
  moreover have "alloc_cmd_resp sz rbuf rsize q = Some (p, q\<lparr>pool := ?b\<rparr>)"
    using g(1) by (simp add: alloc_cmd_resp_def)
  moreover have "set_vbuf p (attach_payload (Event e)) (set_cmd p c (q\<lparr>pool := ?b\<rparr>)) =
      Some (set_cmd p c (q\<lparr>pool := ?b\<lparr>vbufs := (vbufs ?b)(p \<mapsto> ?v\<lparr>vb_event := e\<rparr>)\<rparr>\<rparr>))"
    using u(1) by (simp add: set_vbuf_def set_cmd_def)
  ultimately show ?thesis using u(2) g(2) Cons
    by (intro disjI2 exI [of _ p] exI [of _ ps] exI [of _ ?b] conjI
        exI [of _ "?b\<lparr>vbufs := (vbufs ?b)(p \<mapsto> ?v\<lparr>vb_event := e\<rparr>)\<rparr>"]) simp_all
qed

lemma bind_resultD:
  "(do { (r, y) \<leftarrow> x; Some (c, y) }) = Some (p, z) \<Longrightarrow> \<exists>r. x = Some (r, z) \<and> p = c"
  by (cases x) auto

locale gpu_ring = virtqueue rinv add_buf get_buf device_use outstanding returned rfree
  for rinv :: "'q \<Rightarrow> bool"
    and add_buf :: "'q \<Rightarrow> scatterlist list \<Rightarrow> u32 \<Rightarrow> u32 \<Rightarrow> u64 \<Rightarrow> (int \<times> 'q) option"
    and get_buf :: "'q \<Rightarrow> (u64 option \<times> 'q) option"
    and device_use :: "'q \<Rightarrow> u64 \<Rightarrow> 'q \<Rightarrow> bool"
    and outstanding :: "'q \<Rightarrow> u64 multiset"
    and returned :: "'q \<Rightarrow> u64 list"
    and rfree :: "'q \<Rightarrow> nat" +
  fixes kick :: "'q \<Rightarrow> 'q"
  assumes kick_ok: "rinv q \<Longrightarrow> rinv (kick q) \<and> outstanding (kick q) = outstanding q \<and>
      returned (kick q) = returned q \<and> rfree (kick q) = rfree q"
begin

lemma queue_buffer_effect:
  assumes run: "queue_buffer mm (ops_of add_buf get_buf kick) q p = Some (r, q')"
    and inv: "rinv (ring q)" and v: "vbufs (pool q) p = Some v" "vb_size v \<noteq> 0" "addr_valid mm (vb_buf v)"
  shows "pool q' = pool q \<and> cmds q' = cmds q \<and> rinv (ring q') \<and>
    (outstanding (ring q') = outstanding (ring q) \<or>
     r = 0 \<and> outstanding (ring q') = add_mset p (outstanding (ring q)))"
proof -
  let ?e = "\<lparr>physAddr = phys_addr mm (vb_buf v), sg_length = min (vb_size v) PAGE_SIZE\<rparr>"
  have b: "build_sg_element mm (vb_buf v) (vb_size v) = Some ?e"
    using v by (simp add: build_sg_element_def)
  have ok0: "sgleft_ok [?e] 63" by (simp add: sgleft_ok_def SGLIST_SIZE_def)
  have s63: "of_nat SGLIST_SIZE - 1 = (63 :: u32)" by (simp add: SGLIST_SIZE_def)
  show ?thesis
  proof (cases "sint PAGE_SIZE < sint (vb_size v)")
    case True
    then show ?thesis using run v(1) inv by (simp add: queue_buffer_def)
  next
    case False
    obtain d where d: "queue_data mm (data_buf v) (data_size v) [?e] 63 = Some d"
      using run v(1) False b s63 by (auto simp: queue_buffer_def bind_eq_Some_conv)
    show ?thesis
    proof (cases d)
      case None
      then show ?thesis using run v(1) False b s63 d inv by (simp add: queue_buffer_def)
    next
      case (Some x)
      obtain sg1 l1 where x: "x = (sg1, l1)" by (cases x)
      have ok1: "sgleft_ok sg1 l1" "1 \<le> length sg1"
        using queue_data_partial [OF d] ok0 Some x by auto
      show ?thesis
      proof (cases "sint PAGE_SIZE < sint (resp_size v)")
        case True
        then show ?thesis using run v(1) False b s63 d Some x inv by (simp add: queue_buffer_def)
      next
        case rs: False
        obtain sg2 incnt where sg2: "(sg2 = sg1 \<and> incnt = 0 \<or> (\<exists>e. sg2 = sg1 @ [e]) \<and> incnt = (1::u32))"
          and add: "(do { (r, ring1) \<leftarrow> add_buf (ring q) sg2 (of_nat (length sg1)) incnt p;
             Some (word_of_int r, q\<lparr>ring := kick ring1\<rparr>) }) = Some (r, q')"
        proof (cases "resp_size v \<noteq> 0 \<and> 0 < l1")
          case True
          show ?thesis
          proof (cases "build_sg_element mm (resp_buf v) (resp_size v)")
            case None
            then show ?thesis using run v(1) False b s63 d Some x rs True
              by (intro that [of sg1 0]) (simp_all add: queue_buffer_def ops_of_def)
          next
            case (Some e)
            have "length sg1 < SGLIST_SIZE" using ok1(1) by (simp add: sgleft_ok_def)
            then show ?thesis using run v(1) False b s63 d \<open>d = Some x\<close> x rs True Some
              by (intro that [of "sg1 @ [e]" 1]) (simp_all add: queue_buffer_def ops_of_def)
          qed
        next
          case nresp: False
          then show ?thesis using run v(1) False b s63 d Some x rs
            by (intro that [of sg1 0]) (auto simp: queue_buffer_def ops_of_def)
        qed
        obtain ri ring1 where ri: "add_buf (ring q) sg2 (of_nat (length sg1)) incnt p = Some (ri, ring1)"
            "r = word_of_int ri" "q' = q\<lparr>ring := kick ring1\<rparr>"
          using add by (auto simp: bind_eq_Some_conv)
        have len: "length sg1 < 64" using ok1(1) by (simp add: sgleft_ok_def SGLIST_SIZE_def)
        obtain k where k: "length sg2 = length sg1 + k" "incnt = of_nat k" "k \<le> 1"
          using sg2 by (auto intro: that [of 0] that [of 1])
        have "of_nat (length sg1) + incnt = of_nat (length sg2)" using k by simp
        moreover have "unat (of_nat (length sg2) :: u32) = length sg2"
          by (rule unat_of_nat_less) (use k len in simp)
        ultimately have u: "unat (of_nat (length sg1) + incnt) = length sg2" by simp
        have n: "0 < unat (of_nat (length sg1) + incnt)" "unat (of_nat (length sg1) + incnt) \<le> length sg2"
          using k(1) ok1(2) by (auto simp only: u)
        from add_cases [OF inv n, of p] show ?thesis
        proof (elim disjE exE conjE)
          fix ring2
          assume a: "add_buf (ring q) sg2 (of_nat (length sg1)) incnt p = Some (0, ring2)"
            "rinv ring2" "outstanding ring2 = add_mset p (outstanding (ring q))"
          then have "ri = 0" "ring1 = ring2" using ri(1) by simp_all
          then show ?thesis using ri(2,3) a(3) kick_ok [OF a(2)] by simp
        next
          assume "add_buf (ring q) sg2 (of_nat (length sg1)) incnt p = Some (- ENOSPC, ring q)"
          then have "ring1 = ring q" using ri(1) by simp
          then show ?thesis using ri(3) kick_ok [OF inv] by simp
        qed
      qed
    qed
  qed
qed


lemma queue_cursor_effect:
  assumes run: "queue_cursor mm (ops_of add_buf get_buf kick) q p = Some (r, q')"
    and inv: "rinv (ring q)" and v: "vbufs (pool q) p = Some v" "vb_size v \<noteq> 0" "addr_valid mm (vb_buf v)"
  shows "pool q' = pool q \<and> rinv (ring q') \<and>
    (outstanding (ring q') = outstanding (ring q) \<or> outstanding (ring q') = add_mset p (outstanding (ring q)))"
proof -
  let ?sg = "[\<lparr>physAddr = phys_addr mm (vb_buf v), sg_length = min (vb_size v) PAGE_SIZE\<rparr>]"
  obtain ri ring1 where a: "add_buf (ring q) ?sg 1 0 p = Some (ri, ring1)" "q' = q\<lparr>ring := kick ring1\<rparr>"
    using run v by (auto simp: queue_cursor_def ops_of_def build_sg_element_def bind_eq_Some_conv)
  have n: "0 < unat (1 + 0 :: u32)" "unat (1 + 0 :: u32) \<le> length ?sg" by simp_all
  from add_cases [OF inv n, of p] show ?thesis
  proof (elim disjE exE conjE)
    fix ring2
    assume "add_buf (ring q) ?sg 1 0 p = Some (0, ring2)" "rinv ring2"
      "outstanding ring2 = add_mset p (outstanding (ring q))"
    then show ?thesis using a kick_ok [of ring2] by simp
  next
    assume "add_buf (ring q) ?sg 1 0 p = Some (- ENOSPC, ring q)"
    then show ?thesis using a kick_ok [OF inv] by simp
  qed
qed

lemma dequeue_effect:
  assumes "rinv (ring q)" "0 \<notin># outstanding (ring q)"
  obtains p q' where "dequeue_buffer (ops_of add_buf get_buf kick) q = Some (p, q')"
    "pool q' = pool q" "cmds q' = cmds q" "rinv (ring q')"
    "p = 0 \<and> outstanding (ring q') = outstanding (ring q) \<or>
     p \<noteq> 0 \<and> p \<in># outstanding (ring q) \<and> outstanding (ring q') = outstanding (ring q) - {#p#}"
proof (cases "returned (ring q)")
  case Nil
  then show ?thesis using that [of 0 q] get_empty [OF assms(1)] assms(1)
    by (simp add: dequeue_buffer_def ops_of_def)
next
  case (Cons t ts)
  then have t: "t \<in># outstanding (ring q)"
    using returned_outstanding [OF assms(1)] by (auto dest: mset_subset_eqD)
  then have "t \<noteq> 0" using assms(2) by auto
  obtain r1 where "get_buf (ring q) = Some (Some t, r1)" "rinv r1" "outstanding r1 = outstanding (ring q) - {#t#}"
    using get_ok [OF assms(1) Cons] by blast
  with t \<open>t \<noteq> 0\<close> show ?thesis using that [of t "q\<lparr>ring := r1\<rparr>"]
    by (simp add: dequeue_buffer_def ops_of_def)
qed

text \<open>Every buffer the device or a waiter can still reach is in use, once.\<close>
definition drv_inv :: "u64 multiset \<Rightarrow> 'q gpuq \<Rightarrow> 'q \<Rightarrow> bool" where
  "drv_inv ws q c \<longleftrightarrow> gpubuf_inv (pool q) \<and> rinv (ring q) \<and> rinv c \<and>
     outstanding (ring q) + outstanding c + ws \<subseteq># mset (m_InUseBufs (pool q))"

lemma drv_invD:
  assumes "drv_inv ws q c"
  shows "gpubuf_inv (pool q)" "rinv (ring q)" "rinv c"
    "outstanding (ring q) + outstanding c + ws \<subseteq># mset (m_InUseBufs (pool q))"
    "x \<in># outstanding (ring q) + outstanding c + ws \<Longrightarrow> x \<in> set (m_InUseBufs (pool q)) \<and> x \<noteq> 0"
proof -
  show i: "gpubuf_inv (pool q)" "rinv (ring q)" "rinv c"
    and sub: "outstanding (ring q) + outstanding c + ws \<subseteq># mset (m_InUseBufs (pool q))"
    using assms by (simp_all add: drv_inv_def)
  show "x \<in> set (m_InUseBufs (pool q)) \<and> x \<noteq> 0" if "x \<in># outstanding (ring q) + outstanding c + ws"
    using mset_subset_eqD [OF sub that] gpubuf_inv_elem(2) [OF i(1), of x] by simp
qed

lemma drv_inv_grow:
  assumes "drv_inv ws q c" "gpubuf_inv (pool q')" "mset (m_InUseBufs (pool q')) = add_mset p (mset (m_InUseBufs (pool q)))"
    "rinv (ring q')" "rinv c'"
    "outstanding (ring q') + outstanding c' \<subseteq># add_mset p (outstanding (ring q) + outstanding c)"
  shows "drv_inv ws q' c'"
proof -
  have "outstanding (ring q') + outstanding c' + ws \<subseteq># add_mset p (outstanding (ring q) + outstanding c) + ws"
    using assms(6) by (rule subset_mset.add_right_mono)
  also have "\<dots> = add_mset p (outstanding (ring q) + outstanding c + ws)" by simp
  also have "\<dots> \<subseteq># add_mset p (mset (m_InUseBufs (pool q)))"
    using drv_invD(4) [OF assms(1)] by (simp only: mset_subset_eq_add_mset_cancel)
  finally show ?thesis using assms(2-5) by (simp add: drv_inv_def)
qed

lemma release_ok:
  assumes "gpubuf_inv (pool q)" "p \<in> set (m_InUseBufs (pool q))"
  obtains q' where "release_buffer q p = Some q'" "gpubuf_inv (pool q')" "ring q' = ring q" "cmds q' = cmds q"
    "m_InUseBufs (pool q') = remove1 p (m_InUseBufs (pool q))"
  using free_vbuf_ok [OF assms] by (auto simp: release_buffer_def)

lemma in_use_vbuf: "gpubuf_inv b \<Longrightarrow> p \<in> set (m_InUseBufs b) \<Longrightarrow> \<exists>v. vbufs b p = Some v"
  using gpubuf_inv_elem(1) by blast

lemma sizeof_cmd_nonzero: "sizeof_cmd cm \<noteq> 0"
  by (cases "cmd_body cm") (simp_all add: sizeof_cmd_def SIZEOF_GPU_CTRL_HDR_def)

lemma send_effect:
  assumes "drv_inv ws q c" "cmd_areas_valid mm" "payload_ok pl (pool q)"
    and run: "sender mm (ops_of add_buf get_buf kick) cm pl q = Some (p, q')"
  shows "drv_inv ws q' c \<and> (p = 0 \<and> q' = q \<and> m_FreeBufs (pool q) = [] \<or>
    p \<noteq> 0 \<and> p \<in> set (m_InUseBufs (pool q')) \<and> m_FreeBufs (pool q) \<noteq> [])"
proof -
  note i = drv_invD [OF assms(1)]
  from alloc_and_attach [OF i(1) assms(3), of "sizeof_cmd cm" cm] show ?thesis
  proof (elim disjE exE conjE)
    assume "alloc_cmd (sizeof_cmd cm) q = Some (0, q)" "m_FreeBufs (pool q) = []"
    then show ?thesis using run assms(1) by (simp add: sender_def send_cmd_def)
  next
    fix p2 ps b b'
    let ?q = "set_cmd p2 cm (q\<lparr>pool := b'\<rparr>)"
    let ?v = "attach_payload pl (fresh_vbuf p2 (sizeof_cmd cm) SIZEOF_GPU_CTRL_HDR 0)"
    assume a: "m_FreeBufs (pool q) = p2 # ps" "p2 \<noteq> 0"
      "alloc_cmd (sizeof_cmd cm) q = Some (p2, q\<lparr>pool := b\<rparr>)"
      "set_vbuf p2 (attach_payload pl) (set_cmd p2 cm (q\<lparr>pool := b\<rparr>)) = Some ?q"
      "gpubuf_inv b'" "m_FreeBufs b' = ps" "m_InUseBufs b' = m_InUseBufs (pool q) @ [p2]"
      "vbufs b' p2 = Some ?v"
    have "(do { (r, q3) \<leftarrow> queue_buffer mm (ops_of add_buf get_buf kick) ?q p2; Some (p2, q3) }) = Some (p, q')"
      using run a(2,3,4) by (simp add: sender_def send_cmd_def)
    from bind_resultD [OF this]
    obtain r where r: "queue_buffer mm (ops_of add_buf get_buf kick) ?q p2 = Some (r, q')" "p = p2" by blast
    have f: "ring ?q = ring q" "pool ?q = b'" by (simp_all add: set_cmd_def)
    have "vb_size ?v = sizeof_cmd cm" by (cases pl) (simp_all add: fresh_vbuf_def)
    then have v: "vb_size ?v \<noteq> 0" "addr_valid mm (vb_buf ?v)"
      using assms(2) sizeof_cmd_nonzero by (simp_all add: cmd_areas_valid_def)
    note e = queue_buffer_effect [OF r(1) _ _ v, unfolded f, OF i(2) a(8)]
    have "drv_inv ws q' c"
    proof (rule drv_inv_grow [OF assms(1), where p = p2])
      show "outstanding (ring q') + outstanding c \<subseteq># add_mset p2 (outstanding (ring q) + outstanding c)"
        using e by auto
    qed (use e a(5,7) i(3) in simp_all)
    then show ?thesis using a e r(2) by simp
  qed
qed


lemma ask_effect:
  assumes "drv_inv ws q c" "cmd_areas_valid mm" "fresh_allocator alloc"
    and run: "ask_cmd mm (ops_of add_buf get_buf kick) alloc cm rsize e q = Some (ok, p, q')"
  shows "drv_inv ws q' c \<and> (ok \<longrightarrow> p \<noteq> 0 \<and> p \<in> set (m_InUseBufs (pool q')))"
proof -
  note i = drv_invD [OF assms(1)]
  define rbuf where "rbuf = alloc (blocks (pool q)) (ucast rsize)"
  show ?thesis
  proof (cases "rbuf = 0")
    case True
    then show ?thesis using run assms(1) by (simp add: ask_cmd_def rbuf_def)
  next
    case False
    let ?ba = "(pool q)\<lparr>blocks := insert rbuf (blocks (pool q))\<rparr>"
    let ?qa = "q\<lparr>pool := ?ba\<rparr>"
    have new: "rbuf \<notin> blocks (pool q)" using assms(3) False by (auto simp: fresh_allocator_def rbuf_def)
    have i0: "gpubuf_inv (pool ?qa)" using gpubuf_inv_new_block [OF i(1) False] by simp
    have "pool_blocks ?ba = pool_blocks (pool q)"
      by (simp add: pool_blocks_def) (rule concat_owned_cong, simp)
    then have ra: "resp_arg_ok (pool ?qa) rsize rbuf"
      using new gpubuf_invD(2) [OF i(1)] by (auto simp: resp_arg_ok_def)
    have d0: "drv_inv ws ?qa c" using assms(1) i0 by (simp add: drv_inv_def)
    from alloc_and_attach_resp [OF i0 ra, of "sizeof_cmd cm" e cm] show ?thesis
    proof (elim disjE exE conjE)
      assume "alloc_cmd_resp (sizeof_cmd cm) rbuf rsize ?qa = Some (0, ?qa)"
      then show ?thesis using run False d0 by (simp add: ask_cmd_def rbuf_def Let_def)
    next
      fix p2 ps b b'
      let ?q = "set_cmd p2 cm (?qa\<lparr>pool := b'\<rparr>)"
      let ?v = "(fresh_vbuf p2 (sizeof_cmd cm) rsize rbuf)\<lparr>vb_event := e\<rparr>"
      assume a: "p2 \<noteq> 0"
        "alloc_cmd_resp (sizeof_cmd cm) rbuf rsize ?qa = Some (p2, ?qa\<lparr>pool := b\<rparr>)"
        "set_vbuf p2 (attach_payload (Event e)) (set_cmd p2 cm (?qa\<lparr>pool := b\<rparr>)) = Some ?q"
        "gpubuf_inv b'" "m_InUseBufs b' = m_InUseBufs (pool ?qa) @ [p2]" "vbufs b' p2 = Some ?v"
      have "(do { (r, q3) \<leftarrow> queue_buffer mm (ops_of add_buf get_buf kick) ?q p2; Some (True, p2, q3) }) =
          Some (ok, p, q')"
        using run a(1,2,3) False by (simp add: ask_cmd_def rbuf_def Let_def)
      then obtain r where r: "queue_buffer mm (ops_of add_buf get_buf kick) ?q p2 = Some (r, q')" "p = p2"
        by (cases "queue_buffer mm (ops_of add_buf get_buf kick) ?q p2") auto
      have f: "ring ?q = ring q" "pool ?q = b'" by (simp_all add: set_cmd_def)
      have v: "vb_size ?v \<noteq> 0" "addr_valid mm (vb_buf ?v)"
        using assms(2) sizeof_cmd_nonzero by (simp_all add: cmd_areas_valid_def fresh_vbuf_def)
      note ef = queue_buffer_effect [OF r(1) _ _ v, unfolded f, OF i(2) a(6)]
      have "drv_inv ws q' c"
      proof (rule drv_inv_grow [OF assms(1), where p = p2])
        show "outstanding (ring q') + outstanding c \<subseteq># add_mset p2 (outstanding (ring q) + outstanding c)"
          using ef by auto
      qed (use ef a(4,5) i(3) in simp_all)
      then show ?thesis using a ef r(2) by simp
    qed
  qed
qed

lemma cursor_effect:
  assumes "drv_inv ws q c" "cmd_areas_valid mm"
    and run: "alloc_cursor q = Some (p, q1)" "p \<noteq> 0"
      "queue_cursor mm (ops_of add_buf get_buf kick) (with_ring c (set_cmd p cm q1)) p = Some (r, q2)"
  shows "drv_inv ws (with_ring (ring q) q2) (ring q2)"
proof -
  note i = drv_invD [OF assms(1)]
  obtain ps where f: "m_FreeBufs (pool q) = p # ps"
    using run(1,2) by (cases "m_FreeBufs (pool q)")
      (auto simp: alloc_cursor_def alloc_cmd_resp_def get_vbuf_def bind_eq_Some_conv Let_def)
  have ra: "resp_arg_ok (pool q) 0 0" by (simp add: resp_arg_ok_def)
  let ?b = "(pool q)\<lparr>m_FreeBufs := ps, m_InUseBufs := m_InUseBufs (pool q) @ [p],
    vbufs := (vbufs (pool q))(p \<mapsto> fresh_vbuf p 56 0 0)\<rparr>"
  note g = get_vbuf_ok [OF i(1) f ra, of 56]
  have q1: "q1 = q\<lparr>pool := ?b\<rparr>" using run(1) g(1) by (simp add: alloc_cursor_def alloc_cmd_resp_def)
  let ?q = "with_ring c (set_cmd p cm q1)"
  have fl: "pool ?q = ?b" "ring ?q = c" by (simp_all add: with_ring_def set_cmd_def q1)
  have v: "vbufs ?b p = Some (fresh_vbuf p 56 0 0)" "vb_size (fresh_vbuf p 56 0 0) \<noteq> 0"
      "addr_valid mm (vb_buf (fresh_vbuf p 56 0 0))"
    using assms(2) by (simp_all add: fresh_vbuf_def cmd_areas_valid_def)
  note e = queue_cursor_effect [OF run(3), unfolded fl, OF i(3) v]
  show ?thesis
  proof (rule drv_inv_grow [OF assms(1), where p = p])
    show "outstanding (ring (with_ring (ring q) q2)) + outstanding (ring q2) \<subseteq>#
        add_mset p (outstanding (ring q) + outstanding c)"
      using e by (auto simp: with_ring_def)
  qed (use e g(2) i(2) in \<open>simp_all add: with_ring_def\<close>)
qed

lemma drv_inv_shrink:
  assumes "drv_inv ws q c" "gpubuf_inv (pool q')" "rinv (ring q')" "rinv c'"
    "m_InUseBufs (pool q') = remove1 p (m_InUseBufs (pool q))"
    "outstanding (ring q) + outstanding c + ws = add_mset p (outstanding (ring q') + outstanding c' + ws')"
  shows "drv_inv ws' q' c'"
proof -
  have p: "p \<in> set (m_InUseBufs (pool q))" using drv_invD(5) [OF assms(1), of p] assms(6) by simp
  have "add_mset p (outstanding (ring q') + outstanding c' + ws') \<subseteq># mset (m_InUseBufs (pool q))"
    using drv_invD(4) [OF assms(1)] by (simp only: assms(6))
  also have "mset (m_InUseBufs (pool q)) = add_mset p (mset (m_InUseBufs (pool q')))"
    using p assms(5) by simp
  finally show ?thesis using assms(2-4) by (simp only: drv_inv_def mset_subset_eq_add_mset_cancel simp_thms)
qed

text \<open>The interrupt handler on the control queue: never undefined, never stuck.\<close>
lemma dpc_ctrl_effect:
  assumes "drv_inv ws q c"
  obtains r q' where "dpc_ctrl_one (ops_of add_buf get_buf kick) q = Some (r, q')"
    "drv_inv (case r of Some (p, _) \<Rightarrow>
        if p \<in> set (m_InUseBufs (pool q')) then add_mset p ws else ws | None \<Rightarrow> ws) q' c"
proof -
  note i = drv_invD [OF assms]
  have nz: "0 \<notin># outstanding (ring q)" using i(5) [of 0] by auto
  obtain p q1 where d: "dequeue_buffer (ops_of add_buf get_buf kick) q = Some (p, q1)"
    "pool q1 = pool q" "cmds q1 = cmds q" "rinv (ring q1)"
    "p = 0 \<and> outstanding (ring q1) = outstanding (ring q) \<or>
     p \<noteq> 0 \<and> p \<in># outstanding (ring q) \<and> outstanding (ring q1) = outstanding (ring q) - {#p#}"
    using dequeue_effect [OF i(2) nz] .
  show ?thesis
  proof (cases "p = 0")
    case True
    then have "drv_inv ws q1 c" using d assms by (simp add: drv_inv_def)
    then show ?thesis using d(1) True by (intro that [of None q1]) (simp_all add: dpc_ctrl_one_def)
  next
    case False
    then have p: "p \<in># outstanding (ring q)" "outstanding (ring q1) = outstanding (ring q) - {#p#}"
      using d(5) by auto
    then have pu: "p \<in> set (m_InUseBufs (pool q1))" using i(5) [of p] d(2) by simp
    have split: "outstanding (ring q) + outstanding c + ws = add_mset p (outstanding (ring q1) + outstanding c + ws)"
      using p by simp
    obtain v where v: "vbufs (pool q1) p = Some v" using in_use_vbuf [OF i(1)] pu d(2) by auto
    show ?thesis
    proof (cases "vb_event v = 0")
      case True
      have i1: "gpubuf_inv (pool q1)" using i(1) d(2) by simp
      obtain q2 where q2: "release_buffer q1 p = Some q2" "gpubuf_inv (pool q2)" "ring q2 = ring q1"
        "m_InUseBufs (pool q2) = remove1 p (m_InUseBufs (pool q1))"
        using release_ok [OF i1 pu] by metis
      have "p \<notin> set (m_InUseBufs (pool q2))" using q2(4) gpubuf_inv_elem(4) [OF i1] by simp
      moreover have "drv_inv ws q2 c"
        by (rule drv_inv_shrink [OF assms q2(2), of c p]) (use q2 d i(3) split in simp_all)
      moreover have "dpc_ctrl_one (ops_of add_buf get_buf kick) q = Some (Some (p, False), q2)"
        using d(1) False v True q2(1) by (simp add: dpc_ctrl_one_def)
      ultimately show ?thesis by (intro that [of "Some (p, False)" q2]) simp_all
    next
      case ev: False
      define s where "s = (case cmds q1 p of None \<Rightarrow> False
         | Some c \<Rightarrow> h_type (cmd_hdr c) \<in> {VIRTIO_GPU_CMD_RESOURCE_FLUSH,
             VIRTIO_GPU_CMD_GET_DISPLAY_INFO, VIRTIO_GPU_CMD_GET_EDID})"
      have "outstanding (ring q1) + outstanding c + add_mset p ws = outstanding (ring q) + outstanding c + ws"
        using split by simp
      then have "drv_inv (add_mset p ws) q1 c"
        using i(1,3,4) d(2,4) by (simp only: drv_inv_def simp_thms)
      moreover have "dpc_ctrl_one (ops_of add_buf get_buf kick) q = Some (Some (p, s), q1)"
        using d(1) False v ev by (simp add: dpc_ctrl_one_def s_def)
      ultimately show ?thesis using pu by (intro that [of "Some (p, s)" q1]) simp_all
    qed
  qed
qed

lemma dpc_cursor_effect:
  assumes "drv_inv ws q c"
  obtains r q' where "dpc_cursor_one (ops_of add_buf get_buf kick) (with_ring c q) = Some (r, q')"
    "drv_inv ws (with_ring (ring q) q') (ring q')"
proof -
  note i = drv_invD [OF assms]
  have nz: "0 \<notin># outstanding (ring (with_ring c q))" using i(5) [of 0] by (auto simp: with_ring_def)
  have ic: "rinv (ring (with_ring c q))" using i(3) by (simp add: with_ring_def)
  obtain p q1 where d: "dequeue_buffer (ops_of add_buf get_buf kick) (with_ring c q) = Some (p, q1)"
    "pool q1 = pool q" "cmds q1 = cmds q" "rinv (ring q1)"
    "p = 0 \<and> outstanding (ring q1) = outstanding c \<or>
     p \<noteq> 0 \<and> p \<in># outstanding c \<and> outstanding (ring q1) = outstanding c - {#p#}"
    using dequeue_effect [OF ic nz] unfolding with_ring_simps .
  show ?thesis
  proof (cases "p = 0")
    case True
    then have "drv_inv ws (with_ring (ring q) q1) (ring q1)"
      using d assms by (simp add: drv_inv_def with_ring_def)
    then show ?thesis using d(1) True by (intro that [of None q1]) (simp_all add: dpc_cursor_one_def)
  next
    case False
    then have p: "p \<in># outstanding c" "outstanding (ring q1) = outstanding c - {#p#}" using d(5) by auto
    then have pu: "p \<in> set (m_InUseBufs (pool q1))" using i(5) [of p] d(2) by simp
    have i1: "gpubuf_inv (pool q1)" using i(1) d(2) by simp
    obtain q2 where q2: "release_buffer q1 p = Some q2" "gpubuf_inv (pool q2)" "ring q2 = ring q1"
      "m_InUseBufs (pool q2) = remove1 p (m_InUseBufs (pool q1))"
      using release_ok [OF i1 pu] by metis
    have "drv_inv ws (with_ring (ring q) q2) (ring q2)"
      by (rule drv_inv_shrink [OF assms, where p = p]) (use q2 d i(2) p in \<open>simp_all add: with_ring_def\<close>)
    then show ?thesis using d(1) False q2(1) by (intro that [of "Some p" q2]) (simp_all add: dpc_cursor_one_def)
  qed
qed

lemma finish_effect:
  assumes "drv_inv ws q c" "p \<in># ws"
  obtains q' where "res_flush_finish p q = Some q'" "drv_inv (ws - {#p#}) q' c"
proof -
  note i = drv_invD [OF assms(1)]
  have p: "p \<in> set (m_InUseBufs (pool q))" "p \<noteq> 0" using i(5) [of p] assms(2) by auto
  obtain q2 where q2: "release_buffer q p = Some q2" "gpubuf_inv (pool q2)" "ring q2 = ring q"
    "m_InUseBufs (pool q2) = remove1 p (m_InUseBufs (pool q))"
    using release_ok [OF i(1) p(1)] by metis
  have "drv_inv (ws - {#p#}) q2 c"
    by (rule drv_inv_shrink [OF assms(1) q2(2), where p = p]) (use q2 i(2,3) assms(2) in simp_all)
  then show ?thesis using that q2(1) p(2) by (simp add: res_flush_finish_def)
qed

lemma drv_run_inv:
  assumes "drv_run mm (ops_of add_buf get_buf kick) alloc device_use q0 c0 ws q c"
    "drv_inv {#} q0 c0" "cmd_areas_valid mm" "fresh_allocator alloc"
  shows "drv_inv ws q c"
  using assms
proof (induction rule: drv_run.induct)
  case (dev_ctrl ws q c t r')
  then show ?case using use_ok [of "ring q" t r'] by (auto simp: drv_inv_def with_ring_def)
next
  case (dev_cursor ws q c t c')
  then show ?case using use_ok [of c t c'] by (auto simp: drv_inv_def)
next
  case (dpc_ctrl ws q c r q')
  then have "drv_inv ws q c" by blast
  from dpc_ctrl_effect [OF this] obtain r2 q2
    where r2: "dpc_ctrl_one (ops_of add_buf get_buf kick) q = Some (r2, q2)"
      "drv_inv (case r2 of Some (p, _) \<Rightarrow>
        if p \<in> set (m_InUseBufs (pool q2)) then add_mset p ws else ws | None \<Rightarrow> ws) q2 c" .
  then have "r2 = r" "q2 = q'" using dpc_ctrl.hyps(2) by simp_all
  then show ?case using r2(2) by (simp only:)
next
  case (dpc_cursor ws q c r q')
  then have "drv_inv ws q c" by blast
  from dpc_cursor_effect [OF this] obtain r2 q2
    where r2: "dpc_cursor_one (ops_of add_buf get_buf kick) (with_ring c q) = Some (r2, q2)"
      "drv_inv ws (with_ring (ring q) q2) (ring q2)" .
  then have "q2 = q'" using dpc_cursor.hyps(2) by simp
  then show ?case using r2(2) by (simp only:)
next
  case (finish ws q c p q')
  then have "drv_inv ws q c" by blast
  from finish_effect [OF this finish.hyps(2)] obtain q2
    where "res_flush_finish p q = Some q2" "drv_inv (ws - {#p#}) q2 c" .
  then show ?case using finish.hyps(3) by simp
next
  case start
  then show ?case by blast
next
  case (send ws q c pl cm p q')
  then show ?case using send_effect [of ws q c mm pl cm p q'] by blast
next
  case (ask ws q c cm rsize event ok p q')
  then show ?case using ask_effect [of ws q c mm alloc cm rsize event ok p q'] by blast
next
  case (cursor ws q c p q1 cm r q2)
  then show ?case using cursor_effect [of ws q c mm p q1 cm r q2] by blast
qed


lemma drv_run_safe:
  assumes "drv_run mm (ops_of add_buf get_buf kick) alloc device_use q0 c0 ws q c"
    "gpubuf_inv (pool q0)" "m_InUseBufs (pool q0) = []"
    "rinv (ring q0)" "rinv c0" "outstanding (ring q0) = {#}" "outstanding c0 = {#}"
    "cmd_areas_valid mm" "fresh_allocator alloc"
  shows "gpubuf_inv (pool q) \<and>
    outstanding (ring q) + outstanding c + ws \<subseteq># mset (m_InUseBufs (pool q)) \<and>
    distinct (m_InUseBufs (pool q)) \<and>
    dpc_ctrl_one (ops_of add_buf get_buf kick) q \<noteq> None \<and>
    dpc_cursor_one (ops_of add_buf get_buf kick) (with_ring c q) \<noteq> None \<and>
    (\<forall>p. p \<in># ws \<longrightarrow> res_flush_finish p q \<noteq> None)"
proof -
  have "drv_inv {#} q0 c0" using assms(2-7) by (simp add: drv_inv_def)
  from drv_run_inv [OF assms(1) this assms(8,9)] have i: "drv_inv ws q c" .
  obtain r q' where "dpc_ctrl_one (ops_of add_buf get_buf kick) q = Some (r, q')"
    using dpc_ctrl_effect [OF i] by blast
  moreover obtain r2 q2 where "dpc_cursor_one (ops_of add_buf get_buf kick) (with_ring c q) = Some (r2, q2)"
    using dpc_cursor_effect [OF i] by blast
  moreover have "res_flush_finish p q \<noteq> None" if "p \<in># ws" for p
    using finish_effect [OF i that] by (metis option.distinct(1))
  moreover have "distinct (m_InUseBufs (pool q))" using gpubuf_inv_elem(4) drv_invD(1) [OF i] by blast
  ultimately show ?thesis using drv_invD(1,4) [OF i] by auto
qed

end

section \<open>The two rings\<close>

definition kick_split :: "'a virtqueue_split \<Rightarrow> 'a virtqueue_split" where
  "kick_split q = snd (virtqueue_kick_always_split q)"

definition kick_packed :: "'a packed_sys \<Rightarrow> 'a packed_sys" where
  "kick_packed s = s\<lparr>drv := snd (virtqueue_kick_always_packed (drv s))\<rparr>"

definition split_ops :: "u64 virtqueue_split vq_ops" where
  "split_ops = ops_of add_tok_split get_tok_split kick_split"

definition packed_ops :: "u64 packed_sys vq_ops" where
  "packed_ops = ops_of add_tok_packed get_tok_packed kick_packed"

lemma kick_split_fields:
  "opaques (kick_split q) = opaques q" "pending_split (kick_split q) = pending_split q"
  "sq_num (kick_split q) = sq_num q" "num_unused (kick_split q) = num_unused q"
  "split_inv fs cs (kick_split q) = split_inv fs cs q"
  by (simp_all add: kick_split_def virtqueue_kick_always_split_def pending_split_def split_inv_def ring_shape_def)

interpretation gsq: gpu_ring split_sys_inv add_tok_split get_tok_split device_use_split
    outstanding_split returned_split free_split kick_split
proof
  fix q :: "u64 virtqueue_split"
  show "split_sys_inv q \<Longrightarrow> split_sys_inv (kick_split q) \<and>
    outstanding_split (kick_split q) = outstanding_split q \<and>
    returned_split (kick_split q) = returned_split q \<and> free_split (kick_split q) = free_split q"
    by (simp add: split_sys_inv_def outstanding_split_def returned_split_def kick_split_fields)
qed

lemma num_added_irrelevant:
  "snext (q\<lparr>num_added := n\<rparr>) = snext q" "slot_flags (q\<lparr>num_added := n\<rparr>) = slot_flags q"
  "log_pos (q\<lparr>num_added := n\<rparr>) = log_pos q"
  by (simp_all add: fun_eq_iff snext_def slot_flags_def log_pos_def)

lemma kick_packed_inv:
  "packed_inv fs cs U A (q\<lparr>num_added := n\<rparr>) = packed_inv fs cs U A q"
  "packed_log U A (q\<lparr>num_added := n\<rparr>) = packed_log U A q"
  unfolding packed_inv_def packed_ids_def packed_ring_def packed_log_def num_added_irrelevant
  by (simp_all add: fun_eq_iff num_added_irrelevant)

interpretation gpq: gpu_ring packed_sys_inv add_tok_packed get_tok_packed device_use_packed
    outstanding_packed returned_packed free_packed kick_packed
proof
  fix q :: "u64 packed_sys"
  show "packed_sys_inv q \<Longrightarrow> packed_sys_inv (kick_packed q) \<and>
    outstanding_packed (kick_packed q) = outstanding_packed q \<and>
    returned_packed (kick_packed q) = returned_packed q \<and> free_packed (kick_packed q) = free_packed q"
    by (simp add: kick_packed_def virtqueue_kick_always_packed_def packed_sys_inv_def kick_packed_inv
        num_added_irrelevant outstanding_packed_def returned_packed_def)
qed

end
