(* ===== verification/VirtioPackedProps.thy ===== *)
theory VirtioPackedProps
  imports VirtioPackedSys
begin

text \<open>
  The properties of the packed ring of \<^verbatim>\<open>src/VirtIO/VirtIORing-Packed.c\<close>, each with its
  application to a concrete ring.
\<close>

section \<open>Concrete rings\<close>

definition empty_pdesc :: vring_packed_desc where
  "empty_pdesc = \<lparr>p_addr = 0, p_len = 0, p_id = 0, p_flags = 0\<rparr>"

definition no_event :: vring_packed_desc_event where
  "no_event = \<lparr>off_wrap = 0, ev_flags = 0\<rparr>"

definition pring4 :: "nat virtqueue_packed" where
  "pring4 = the (vring_new_virtqueue_packed 0 4 64 \<lparr>vdev_addr = 0, event_suppression_enabled = True\<rparr> 0
     (replicate 4 empty_pdesc) no_event no_event)"

text \<open>A two-descriptor request (token 7) on the fresh ring, completed by the device.\<close>
definition pring4_used :: "nat virtqueue_packed" where
  "pring4_used = pring4\<lparr>
     pq_desc := [\<lparr>p_addr = 4096, p_len = 64, p_id = 0, p_flags = 32896\<rparr>,
                 \<lparr>p_addr = 8192, p_len = 64, p_id = 0, p_flags = 130\<rparr>, empty_pdesc, empty_pdesc],
     desc_state := [\<lparr>st_data = Some 7, st_num = 2, st_next = 1, st_last = 1\<rparr>,
        \<lparr>st_data = None, st_num = 0, st_next = 2, st_last = 0\<rparr>,
        \<lparr>st_data = None, st_num = 0, st_next = 3, st_last = 0\<rparr>,
        \<lparr>st_data = None, st_num = 0, st_next = 0, st_last = 0\<rparr>],
     num_free := 2, free_head := 2, next_avail_idx := 2, num_added := 2\<rparr>"

lemma upt4: "[0..<4] = [0, 1, 2, 3::nat]"
  by (simp add: upt_rec)

lemma pring4_new:
  "vring_new_virtqueue_packed 0 4 64 \<lparr>vdev_addr = 0, event_suppression_enabled = True\<rparr> 0
     (replicate 4 empty_pdesc) no_event no_event = Some pring4"
  by (simp add: pring4_def vring_new_virtqueue_packed_def Let_def)

lemma pring4_inv: "packed_inv [0, 1, 2, 3] [] 4 4 pring4"
  using vring_new_virtqueue_packed_ok [of 4 "replicate 4 empty_pdesc" 0 64
      "\<lparr>vdev_addr = 0, event_suppression_enabled = True\<rparr>" 0 no_event no_event, where 'a = nat]
    pring4_new upt4
  by (auto simp: dev_written_def empty_pdesc_def)

lemma pring4_sel:
  "pq_num pring4 = 4" "desc_state pring4 = fresh_state 4" "avail_wrap_counter pring4"
  "used_wrap_counter pring4" "last_used_idx pring4 = 0" "event_flags_shadow pring4 = 0"
  "avail_used_flags pring4 = 128" "driver_event pring4 = no_event" "device_event pring4 = no_event"
  "next_avail_idx pring4 = 0" "num_added pring4 = 0" "pq_desc pring4 = replicate 4 empty_pdesc"
  "pq_vdev pring4 = \<lparr>vdev_addr = 0, event_suppression_enabled = True\<rparr>"
  by (simp_all add: pring4_def vring_new_virtqueue_packed_def Let_def packed_flag_defs)

lemma pring4_used_inv: "packed_inv [2, 3] [(7, [0, 1])] 4 6 pring4_used"
proof -
  have ids: "packed_ids [2, 3] [(7, [0, 1])] pring4_used"
    by (simp add: packed_ids_def pring4_used_def pring4_sel snext_def lessThan_4 all_less_4) auto
  have v: "v = 2 \<or> v = 3 \<or> v = 4 \<or> v = 5" if "2 \<le> v" "v < 6" for v :: nat using that by auto
  have "\<not> dev_written (slot_flags pring4_used v) (\<not> lap 4 v)" if "2 \<le> v" "v < 6" for v
    using v [OF that]
    by (auto simp: slot_flags_def pring4_used_def pring4_sel dev_written_def lap_def empty_pdesc_def bit_simps)
  then have "packed_ring 4 6 pring4_used"
    by (simp add: packed_ring_def pring4_used_def pring4_sel lap_def aflags_def packed_flag_defs Let_def)
  with ids show ?thesis by (simp add: packed_inv_def)
qed

definition psys4 :: "nat packed_sys" where
  "psys4 = \<lparr>drv = pring4, dev_idx = 0, dev_wrap = True, dev_log = []\<rparr>"

lemma psys4_inv: "packed_sys_inv psys4" "outstanding_packed psys4 = {#}"
proof -
  have "packed_log 4 4 pring4 []" by (auto simp: packed_log_def log_pos_def Let_def)
  then show "packed_sys_inv psys4"
    unfolding packed_sys_inv_def psys4_def using pring4_inv
    by (intro exI conjI) (auto simp: log_pos_def lap_def pring4_sel)
  show "outstanding_packed psys4 = {#}"
    by (simp add: outstanding_packed_def psys4_def pring4_sel fresh_state_def upt4)
qed

definition psg2 :: "scatterlist list" where
  "psg2 = [\<lparr>physAddr = 4096, sg_length = 24\<rparr>, \<lparr>physAddr = 8192, sg_length = 64\<rparr>]"

section \<open>Conservation\<close>



section \<open>Adding and fetching\<close>

text \<open>C32: A direct request writes its descriptors to consecutive slots of the packed ring,
  wrapping at the end: addresses and lengths of the scatter list, the id of the request in
  each, WRITE on exactly the last \<^verbatim>\<open>in\<close>, NEXT on all but the last, and in each slot the
  avail and used bits of the lap that slot is in (the head's flags are written last); no other slot
  changes, the id list gives up \<^verbatim>\<open>out + in\<close> ids, and the invariant holds with the
  request in flight.\<close>
theorem packed_add_buf_direct:
  assumes "packed_inv fs cs U A q" "n = unat (out + in')" "0 < n" "n \<le> length fs" "n \<le> length sg"
    and "N = unat (pq_num q)"
  shows "\<exists>q'. virtqueue_add_buf_packed q sg out in' (Some t) None phys = Some (0, None, q') \<and>
    packed_inv (drop n fs) ((t, take n fs) # cs) U (A + n) q' \<and> padd_frame q q' \<and>
    (\<forall>j < n. pq_desc q' ! ((A + j) mod N) = packed_desc_of sg out n N (of_nat (hd fs)) A j) \<and>
    (\<forall>x < N. (\<forall>j < n. x \<noteq> (A + j) mod N) \<longrightarrow> pq_desc q' ! x = pq_desc q ! x) \<and>
    num_added q' = num_added q + of_nat n"
  using add_buf_packed_direct [OF assms(1-5), of t phys] unfolding assms(6) by blast

theorem packed_add_buf_direct_witness:
  "\<exists>q'. virtqueue_add_buf_packed pring4 psg2 1 1 (Some 7) None 0 = Some (0, None, q') \<and>
    packed_inv (drop 2 [0, 1, 2, 3]) ((7, take 2 [0, 1, 2, 3]) # []) 4 (4 + 2) q' \<and> padd_frame pring4 q' \<and>
    (\<forall>j < 2. pq_desc q' ! ((4 + j) mod 4) = packed_desc_of psg2 1 2 4 (of_nat (hd [0, 1, 2, 3])) 4 j) \<and>
    (\<forall>x < 4. (\<forall>j < 2. x \<noteq> (4 + j) mod 4) \<longrightarrow> pq_desc q' ! x = pq_desc pring4 ! x) \<and>
    num_added q' = num_added pring4 + of_nat 2"
  by (rule packed_add_buf_direct [OF pring4_inv]) (simp_all add: psg2_def pring4_sel)

text \<open>Fetching from the packed ring.  When the slot at \<^verbatim>\<open>last_used_idx\<close> carries the used
  marks of its lap and the id of a request in flight, the code returns that request's token and
  the length the device wrote, gives its ids back to the front of the id list, and moves its index
  and wrap counter past all its slots; when the slot does not carry the marks it returns
  NULL and changes nothing.  No bug check can fire.\<close>
theorem packed_get_buf:
  assumes "packed_inv fs cs U A q" "(t, c) \<in> set cs" "N = unat (pq_num q)"
    and "dev_written (slot_flags q U) (lap N U) \<longrightarrow> unat (p_id (pq_desc q ! (U mod N))) = hd c"
  shows "(dev_written (slot_flags q U) (lap N U) \<longrightarrow>
    (\<exists>q'. virtqueue_get_buf_packed q = Some (Some t, Some (p_len (pq_desc q ! (U mod N))), q') \<and>
      packed_inv (c @ fs) (remove1 (t, c) cs) (U + length c) A q' \<and> pget_frame q q')) \<and>
   (\<not> dev_written (slot_flags q U) (lap N U) \<longrightarrow> virtqueue_get_buf_packed q = Some (None, None, q))"
  using get_buf_packed_chain [OF assms(1,2)] get_buf_packed_none [OF assms(1)] assms(4)
  unfolding assms(3) by blast

theorem packed_get_buf_witness:
  "\<exists>q'. virtqueue_get_buf_packed pring4_used = Some (Some 7, Some 64, q') \<and>
      packed_inv ([0, 1] @ [2, 3]) (remove1 (7, [0, 1]) [(7, [0, 1])]) (4 + length [0::nat, 1]) 6 q'"
proof -
  have "dev_written (slot_flags pring4_used 4) (lap 4 4)"
    by (simp add: slot_flags_def pring4_used_def pring4_sel dev_written_def lap_def bit_simps)
  moreover have "pq_desc pring4_used ! (4 mod 4) = \<lparr>p_addr = 4096, p_len = 64, p_id = 0, p_flags = 32896\<rparr>"
    by (simp add: pring4_used_def)
  ultimately show ?thesis
    using packed_get_buf [OF pring4_used_inv, of 7 "[0, 1]" 4]
    by (auto simp: pring4_used_def pring4_sel)
qed

section \<open>Creation, shutdown, detaching\<close>

text \<open>On zeroed ring memory a packed queue of up to 32768 descriptors starts with every id on
  the free list in order, both wrap counters set and nothing looking used; re-initialising
  a queue in use brings it back to that state; and detaching returns NULL exactly when nothing is in
  flight (its bug check cannot fire), else the token of the request with the lowest id,
  whose ids it frees.\<close>
theorem packed_new_shutdown_detach:
  assumes "packed_inv fs cs U A q" "N = unat (pq_num q)"
  shows "(\<exists>q'. virtqueue_shutdown_packed q = Some q' \<and> packed_inv [0..<N] [] N N q' \<and>
       avail_wrap_counter q' \<and> num_added q' = 0 \<and> pq_num q' = pq_num q) \<and>
    ((cs = [] \<and> virtqueue_detach_unused_buf_packed q = Some (None, q)) \<or>
    (\<exists>t c q'. (t, c) \<in> set cs \<and> virtqueue_detach_unused_buf_packed q = Some (Some t, q') \<and>
       packed_ids (c @ fs) (remove1 (t, c) cs) q' \<and> (\<forall>(u, d) \<in> set cs. hd c \<le> hd d)))"
proof -
  note I = packed_idsD [OF packed_invD(1) [OF assms(1)]]
  let ?ds = "map (\<lambda>_. \<lparr>p_addr = 0, p_len = 0, p_id = 0, p_flags = 0\<rparr>) (pq_desc q)"
  have "\<forall>d \<in> set ?ds. \<not> dev_written (p_flags d) True" by (auto simp: dev_written_def)
  then have "\<exists>q'. virtqueue_shutdown_packed q = Some q' \<and> packed_inv [0..<N] [] N N q' \<and>
       avail_wrap_counter q' \<and> num_added q' = 0 \<and> pq_num q' = pq_num q"
    using vring_new_virtqueue_packed_ok [of "pq_num q" ?ds] I(1,2,3) unfolding assms(2)
    by (simp add: virtqueue_shutdown_packed_def Let_def) blast
  then show ?thesis
    using detach_scan_packed_ok [OF packed_invD(1) [OF assms(1)], of 0 "unat (pq_num q)"]
    by (simp add: virtqueue_detach_unused_buf_packed_def)
qed

theorem packed_new_shutdown_detach_witness:
  "(\<exists>q'. virtqueue_shutdown_packed pring4_used = Some q' \<and> packed_inv [0..<4] [] 4 4 q') \<and>
   (\<exists>q'. virtqueue_detach_unused_buf_packed pring4_used = Some (Some 7, q'))"
  using packed_new_shutdown_detach [OF pring4_used_inv, of 4]
  by (auto simp: pring4_used_def pring4_sel)

section \<open>Notification and interrupts\<close>

text \<open>The driver's wrap counter and the lap of its flags agree after a direct request exactly
  when they agreed before and the request does not fill the whole ring at once: a request of as
  many descriptors as the ring has comes back to the same slot, and the code, which compares
  the new index with the old one by \<^verbatim>\<open><\<close>, toggles the flags but not the counter that
  \<^verbatim>\<open>virtqueue_kick_prepare_packed\<close> consults.\<close>
theorem packed_wrap_counter_after_add:
  assumes "packed_inv fs cs U A q" "n = unat (out + in')" "0 < n" "n \<le> length fs" "n \<le> length sg"
    and "N = unat (pq_num q)" "avail_wrap_counter q = lap N A"
  shows "\<exists>q'. virtqueue_add_buf_packed q sg out in' (Some t) None phys = Some (0, None, q') \<and>
     avail_used_flags q' = aflags (lap N (A + n)) \<and>
     (avail_wrap_counter q' = lap N (A + n) \<longleftrightarrow> n \<noteq> N)"
proof -
  note P = packed_invD [OF assms(1)]
  have N: "0 < N" "n \<le> N"
    using packed_idsD(1) [OF P(1)] packed_ids_count [OF P(1)] assms(4,6) by auto
  obtain q' where q': "virtqueue_add_buf_packed q sg out in' (Some t) None phys = Some (0, None, q')"
    "packed_inv (drop n fs) ((t, take n fs) # cs) U (A + n) q'" "padd_frame q q'"
    "avail_wrap_counter q' = (if (A + n) mod N < A mod N then \<not> avail_wrap_counter q else avail_wrap_counter q)"
    using add_buf_packed_direct [OF assms(1-5), of t phys] unfolding assms(6) by blast
  have AN: "A mod N < N" using N by simp
  have "(A + n) mod N < A mod N \<longleftrightarrow> N \<le> A mod N + n \<and> n \<noteq> N"
    unfolding mod_add_le [OF N] using AN N by auto
  moreover have "lap N (A + n) = (if N \<le> A mod N + n then \<not> lap N A else lap N A)"
    by (rule lap_add [OF N])
  ultimately have "avail_wrap_counter q' = lap N (A + n) \<longleftrightarrow> n \<noteq> N"
    using q'(4) assms(7) by auto
  moreover have "avail_used_flags q' = aflags (lap N (A + n))"
    using packed_invD(7) [OF q'(2)] padd_frame_num [OF q'(3)] assms(6) by simp
  ultimately show ?thesis using q'(1) by blast
qed

theorem packed_wrap_counter_after_add_witness:
  "\<exists>q'. virtqueue_add_buf_packed pring4 (psg2 @ psg2) 3 1 (Some 7) None 0 = Some (0, None, q') \<and>
     avail_used_flags q' = aflags (lap 4 (4 + 4)) \<and> (avail_wrap_counter q' = lap 4 (4 + 4) \<longleftrightarrow> (4::nat) \<noteq> 4)"
  by (rule packed_wrap_counter_after_add [OF pring4_inv]) (simp_all add: psg2_def pring4_sel lap_def)

lemma need_event_at:
  assumes "new - event - 1 = (of_nat x :: u16)" "x < 65536" "k < 65536"
  shows "vring_need_event_packed event new (new - of_nat k) \<longleftrightarrow> x < k"
proof -
  have "unat (new - event - 1) = x" unfolding assms(1) using assms(2) by (intro unat_of_nat_less) simp
  moreover have "unat (of_nat k :: u16) = k" using assms(3) by (intro unat_of_nat_less) simp
  ultimately show ?thesis by (simp add: vring_need_event_packed_def word_less_nat_alt)
qed

lemma need_event_lap:
  assumes N: "0 < N" "N \<le> 32768" and k: "k \<le> N" "k \<le> A"
    and e: "e div N = A div N \<or> Suc (e div N) = A div N"
  shows "vring_need_event_packed
     (if lap N e \<noteq> lap N A then of_nat (e mod N) - of_nat N else of_nat (e mod N))
     (of_nat (A mod N)) (of_nat (A mod N) - of_nat k) \<longleftrightarrow> A - k \<le> e \<and> e < A"
  using e
proof
  let ?a = "A mod N" and ?e = "e mod N"
  have A: "A = A div N * N + ?a" "?a < N" "e = e div N * N + ?e" "?e < N" using N by simp_all
  {
    assume s: "e div N = A div N"
    then have l: "lap N e = lap N A" by (simp add: lap_def)
    have Ae: "A = A div N * N + ?a" "e = A div N * N + ?e" using A(1,3) s by simp_all
    show ?thesis
    proof (cases "?e < ?a")
      case True
      have "(of_nat ?a :: u16) - of_nat ?e - 1 = of_nat (?a - ?e - 1)" using True by (simp add: of_nat_diff)
      then have "vring_need_event_packed (of_nat ?e) (of_nat ?a) (of_nat ?a - of_nat k)
         \<longleftrightarrow> ?a - ?e - 1 < k" by (rule need_event_at) (use A(2) N k in linarith)+
      also have "\<dots> \<longleftrightarrow> A - k \<le> e \<and> e < A" using True Ae k(2) by linarith
      finally show ?thesis using l by simp
    next
      case False
      have "(of_nat (65536 + ?a - ?e - 1) :: u16) = of_nat 65536 + of_nat ?a - of_nat ?e - 1"
        using A(2,4) N(2) False by (simp add: of_nat_diff)
      then have "(of_nat ?a :: u16) - of_nat ?e - 1 = of_nat (65536 + ?a - ?e - 1)" by simp
      then have "vring_need_event_packed (of_nat ?e) (of_nat ?a) (of_nat ?a - of_nat k)
         \<longleftrightarrow> 65536 + ?a - ?e - 1 < k" by (rule need_event_at) (use A(2,4) N k False in linarith)+
      moreover have "\<not> 65536 + ?a - ?e - 1 < k" using A(4) N k by linarith
      moreover have "\<not> e < A" using False Ae by linarith
      ultimately show ?thesis using l by simp
    qed
  }
  {
    assume s: "Suc (e div N) = A div N"
    then have l: "lap N e \<noteq> lap N A" by (metis even_Suc lap_def)
    have Ae: "A = e div N * N + N + ?a" "e = e div N * N + ?e" using A(1,3) by (simp_all flip: s)
    have "(of_nat (?a + N - ?e - 1) :: u16) = of_nat ?a - (of_nat ?e - of_nat N) - 1"
      using A(4) by (simp add: of_nat_diff)
    then have "vring_need_event_packed (of_nat ?e - of_nat N) (of_nat ?a) (of_nat ?a - of_nat k) \<longleftrightarrow> ?a + N - ?e - 1 < k"
      by (intro need_event_at [OF sym]) (use A(2) N k in linarith)+
    also have "\<dots> \<longleftrightarrow> A - k \<le> e \<and> e < A" using Ae A(4) k(2) by linarith
    finally show ?thesis using l by simp
  }
qed

text \<open>Kicking the packed ring.  A device that disabled events is not notified, one that enabled
  all of them is; one that asked for the event at position \<^verbatim>\<open>e\<close> (slot and lap parity in
  the event structure, at most one lap behind) is notified exactly when \<^verbatim>\<open>e\<close> is among the
  slots filled since the last kick, provided the wrap counter is that of the next slot.  The
  count restarts.\<close>
theorem packed_kick_prepare:
  assumes "unat (pq_num q) = N" "0 < N" "N \<le> 32768"
    and "unat (next_avail_idx q) = A mod N" "avail_wrap_counter q = lap N A"
    and "unat (num_added q) \<le> N" "unat (num_added q) \<le> A"
    and "e div N = A div N \<or> Suc (e div N) = A div N"
    and "unat (off_wrap (device_event q) AND NOT (push_bit VRING_PACKED_EVENT_F_WRAP_CTR 1)) = e mod N"
    and "(drop_bit VRING_PACKED_EVENT_F_WRAP_CTR (off_wrap (device_event q)) \<noteq> 0) = lap N e"
  shows "(fst (virtqueue_kick_prepare_packed q) \<longleftrightarrow>
     (if ev_flags (device_event q) = VRING_PACKED_EVENT_FLAG_DESC
      then A - unat (num_added q) \<le> e \<and> e < A
      else ev_flags (device_event q) \<noteq> VRING_PACKED_EVENT_FLAG_DISABLE)) \<and>
    num_added (snd (virtqueue_kick_prepare_packed q)) = 0"
proof -
  have w: "next_avail_idx q = of_nat (A mod N)"
    "off_wrap (device_event q) AND NOT (push_bit VRING_PACKED_EVENT_F_WRAP_CTR 1) = of_nat (e mod N)"
    using assms(4,9) by (auto dest: unat_eq_of_nat)
  have "unat (ucast (num_added q) :: u16) = unat (num_added q)" "unat (ucast (pq_num q) :: u16) = N"
    using assms(1,3,6) by (simp_all add: unat_ucast_u32_u16)
  then have c: "(ucast (num_added q) :: u16) = of_nat (unat (num_added q))" "(ucast (pq_num q) :: u16) = of_nat N"
    by (auto dest: unat_eq_of_nat)
  have "fst (virtqueue_kick_prepare_packed q) \<longleftrightarrow>
     (if ev_flags (device_event q) = VRING_PACKED_EVENT_FLAG_DESC
      then vring_need_event_packed (if lap N e \<noteq> lap N A then of_nat (e mod N) - of_nat N else of_nat (e mod N))
        (of_nat (A mod N)) (of_nat (A mod N) - of_nat (unat (num_added q)))
      else ev_flags (device_event q) \<noteq> VRING_PACKED_EVENT_FLAG_DISABLE)"
    by (simp only: virtqueue_kick_prepare_packed_def Let_def w c assms(5,10) if_distrib [of fst] fst_conv not_not
        if_not_P split: if_splits)
      auto
  then show ?thesis
    using need_event_lap [OF assms(2,3,6,7,8)] by (simp add: virtqueue_kick_prepare_packed_def Let_def)
qed

theorem packed_kick_prepare_witness:
  "fst (virtqueue_kick_prepare_packed (pring4_used\<lparr>device_event := \<lparr>off_wrap = 32769, ev_flags = 2\<rparr>\<rparr>))"
proof -
  let ?q = "pring4_used\<lparr>device_event := \<lparr>off_wrap = 32769, ev_flags = 2\<rparr>\<rparr>"
  have "unat (pq_num ?q) = 4" "unat (next_avail_idx ?q) = 6 mod 4" "avail_wrap_counter ?q = lap 4 6"
    "unat (num_added ?q) = 2"
    "unat (off_wrap (device_event ?q) AND NOT (push_bit VRING_PACKED_EVENT_F_WRAP_CTR 1)) = 5 mod 4"
    "(drop_bit VRING_PACKED_EVENT_F_WRAP_CTR (off_wrap (device_event ?q)) \<noteq> 0) = lap 4 5"
    by (simp_all add: pring4_used_def pring4_sel lap_def packed_flag_defs drop_bit_eq_div)
  with packed_kick_prepare [of ?q 4 6 5] show ?thesis
    by (simp add: packed_flag_defs)
qed

text \<open>Interrupt state of the packed ring.  After \<^verbatim>\<open>virtqueue_disable_cb_packed\<close> both the
  shadow and the device's copy say DISABLE, and enabling takes that back; but
  \<^verbatim>\<open>virtqueue_is_interrupt_enabled_packed\<close> answers the opposite of its name: true when
  disabled, false when enabled.\<close>
theorem packed_interrupt_flag_inverted:
  "event_flags_shadow (virtqueue_disable_cb_packed q) = VRING_PACKED_EVENT_FLAG_DISABLE \<and>
   virtqueue_is_interrupt_enabled_packed (virtqueue_disable_cb_packed q) \<and>
   (event_flags_shadow q = VRING_PACKED_EVENT_FLAG_DISABLE \<longrightarrow>
      event_flags_shadow (snd (virtqueue_enable_cb_prepare_packed q)) =
        (if event_suppression_enabled (pq_vdev q) then VRING_PACKED_EVENT_FLAG_DESC
         else VRING_PACKED_EVENT_FLAG_ENABLE) \<and>
      ev_flags (driver_event (snd (virtqueue_enable_cb_prepare_packed q))) =
        event_flags_shadow (snd (virtqueue_enable_cb_prepare_packed q)) \<and>
      \<not> virtqueue_is_interrupt_enabled_packed (snd (virtqueue_enable_cb_prepare_packed q)))"
  by (simp add: virtqueue_disable_cb_packed_def virtqueue_is_interrupt_enabled_packed_def
      virtqueue_enable_cb_prepare_packed_def unmask_interrupt_packed_def packed_flag_defs Let_def)

theorem packed_interrupt_flag_inverted_witness:
  "\<not> virtqueue_is_interrupt_enabled_packed
     (snd (virtqueue_enable_cb_prepare_packed (virtqueue_disable_cb_packed pring4)))"
  using packed_interrupt_flag_inverted [of pring4] packed_interrupt_flag_inverted [of "virtqueue_disable_cb_packed pring4"]
  by blast

end
