(* ===== verification/GpuQueueProps.thy ===== *)
theory GpuQueueProps
  imports GpuQueueOps VirtioSplitProps VirtioPackedProps
begin

text \<open>
  The correctness of the GPU queues, with witnesses: what reaches the ring for a command,
  what a reader of the bytes sees, the failing exits of \<^verbatim>\<open>QueueBuffer\<close>, and the safety of
  the buffers over any interleaving of driver, interrupt handler and device, on both rings.
\<close>

section \<open>Scatter lists\<close>

lemma sum_page_lengths:
  "sum_list (map (\<lambda>e. unat (sg_length e)) (page_sgs mm a n)) = n"
proof (induction n arbitrary: a rule: less_induct)
  case (less n)
  show ?case
  proof (cases "n = 0")
    case True
    then show ?thesis by (simp add: page_sgs_def)
  next
    case False
    have "unat (of_nat (min n 4096) :: u32) = min n 4096" by (rule unat_of_nat_less) simp
    then show ?thesis using less [of "n - min n 4096" "a + 4096"] False
      by (simp add: page_sgs_step [OF False])
  qed
qed

lemma page_lengths:
  assumes "e \<in> set (page_sgs mm a n)"
  shows "0 < unat (sg_length e) \<and> unat (sg_length e) \<le> 4096"
proof -
  obtain i where i: "i < (n + 4095) div 4096" "e = \<lparr>physAddr = phys_addr mm (a + of_nat (4096 * i)),
     sg_length = of_nat (min 4096 (n - 4096 * i))\<rparr>"
    using assms by (auto simp: page_sgs_def)
  have "4096 * i < n" using i(1) by (simp add: less_eq_div_iff_mult_less_eq Suc_le_eq [symmetric])
  moreover have "unat (of_nat (min 4096 (n - 4096 * i)) :: u32) = min 4096 (n - 4096 * i)"
    by (rule unat_of_nat_less) simp
  ultimately show ?thesis using i(2) by simp
qed

definition entry :: "mm \<Rightarrow> u64 \<Rightarrow> u32 \<Rightarrow> scatterlist" where
  "entry mm a n = \<lparr>physAddr = phys_addr mm a, sg_length = n\<rparr>"

text \<open>What \<^verbatim>\<open>QueueBuffer\<close> promises: the command, the data page by page, the response.\<close>
definition request_sg :: "mm \<Rightarrow> gpu_vbuffer \<Rightarrow> scatterlist list" where
  "request_sg mm v = entry mm (vb_buf v) (vb_size v) # page_sgs mm (data_buf v) (unat (data_size v)) @
     [entry mm (resp_buf v) (resp_size v)]"

definition small :: "u32 \<Rightarrow> bool" where
  "small n \<longleftrightarrow> 0 < unat n \<and> unat n \<le> 4096"

lemma small_simps:
  assumes "small n"
  shows "n \<noteq> 0" "\<not> sint PAGE_SIZE < sint n" "min n PAGE_SIZE = n"
proof -
  have n: "0 < unat n" "unat n \<le> 4096" using assms by (simp_all add: small_def)
  show "n \<noteq> 0" using n by auto
  have "sint n = int (unat n)" using n by (intro sint_small) simp
  moreover have "int (unat n) \<le> int 4096" using n(2) by (simp only: of_nat_le_iff)
  ultimately show "\<not> sint PAGE_SIZE < sint n" by (simp add: PAGE_SIZE_def)
  show "min n PAGE_SIZE = n" using n(2) by (simp add: min_def word_le_nat_alt PAGE_SIZE_def)
qed

definition areas_valid :: "mm \<Rightarrow> gpu_vbuffer \<Rightarrow> bool" where
  "areas_valid mm v \<longleftrightarrow> addr_valid mm (vb_buf v) \<and> addr_valid mm (resp_buf v) \<and>
     (\<forall>i < pages_of (unat (data_size v)). addr_valid mm (data_buf v + of_nat (4096 * i)))"

lemma queue_buffer_cases:
  assumes "vbufs (pool q) p = Some v" "small (vb_size v)" "small (resp_size v)" "areas_valid mm v"
  shows "queue_buffer mm ops q p =
    (if pages_of (unat (data_size v)) \<le> 62
     then do {
       (r, ring1) \<leftarrow> vq_add ops (ring q) (request_sg mm v) (of_nat (1 + pages_of (unat (data_size v)))) 1 p;
       Some (word_of_int r, q\<lparr>ring := vq_kick ops ring1\<rparr>) }
     else Some (0, q))"
proof -
  note c = small_simps [OF assms(2)] and r = small_simps [OF assms(3)]
  let ?k = "pages_of (unat (data_size v))"
  have s63: "of_nat SGLIST_SIZE - 1 = (63 :: u32)" by (simp add: SGLIST_SIZE_def)
  have b: "build_sg_element mm (vb_buf v) (vb_size v) = Some (entry mm (vb_buf v) (vb_size v))"
    using assms(4) c by (simp add: build_sg_element_def areas_valid_def entry_def)
  have b2: "build_sg_element mm (resp_buf v) (resp_size v) = Some (entry mm (resp_buf v) (resp_size v))"
    using assms(4) r by (simp add: build_sg_element_def areas_valid_def entry_def)
  have ok: "sgleft_ok [entry mm (vb_buf v) (vb_size v)] 63" by (simp add: sgleft_ok_def SGLIST_SIZE_def)
  have d: "queue_data mm (data_buf v) (data_size v) [entry mm (vb_buf v) (vb_size v)] 63 =
    (if ?k \<le> 62 then Some (Some (entry mm (vb_buf v) (vb_size v) # page_sgs mm (data_buf v) (unat (data_size v)),
        63 - of_nat ?k)) else Some None)"
    using queue_data_ok [OF ok, of "data_size v" mm "data_buf v"] assms(4)
    by (simp add: areas_valid_def SGLIST_SIZE_def)
  show ?thesis
  proof (cases "?k \<le> 62")
    case False
    then show ?thesis using d b c s63 assms(1) by (simp add: queue_buffer_def)
  next
    case True
    have "unat (63 - of_nat ?k :: u32) = 63 - ?k"
      using True by (subst unat_sub) (simp_all add: word_le_nat_alt unat_of_nat_less)
    then have "(0 :: u32) < 63 - of_nat ?k" using True by (simp add: word_less_nat_alt)
    then show ?thesis using True d b b2 c r s63 assms(1)
      by (simp add: queue_buffer_def request_sg_def SGLIST_SIZE_def)
  qed
qed

text \<open>C9: (QueueBuffer, scatter list) For a command and a response of 1 to 4096 bytes with all
  areas mapped and data of at most 62 pages, QueueBuffer hands the ring exactly one element
  for the command, one per page of the data and one, device-writable, for the response; the
  data elements cover the data exactly and none is empty or longer than a page.  With more
  data it returns 0, the code of success, and queues nothing; and if the first page of the
  data is not mapped it never returns.\<close>
theorem queue_buffer_scatter:
  assumes "vbufs (pool q) p = Some v" "small (vb_size v)" "small (resp_size v)"
  shows "(areas_valid mm v \<and> pages_of (unat (data_size v)) \<le> 62 \<longrightarrow>
      queue_buffer mm ops q p = do {
        (r, ring1) \<leftarrow> vq_add ops (ring q) (request_sg mm v) (of_nat (1 + pages_of (unat (data_size v)))) 1 p;
        Some (word_of_int r, q\<lparr>ring := vq_kick ops ring1\<rparr>) } \<and>
      length (request_sg mm v) = 2 + pages_of (unat (data_size v)) \<and>
      sum_list (map (\<lambda>e. unat (sg_length e)) (page_sgs mm (data_buf v) (unat (data_size v)))) =
        unat (data_size v) \<and>
      (\<forall>e \<in> set (request_sg mm v). 0 < unat (sg_length e) \<and> unat (sg_length e) \<le> 4096)) \<and>
    (areas_valid mm v \<and> 62 < pages_of (unat (data_size v)) \<longrightarrow> queue_buffer mm ops q p = Some (0, q)) \<and>
    (data_size v \<noteq> 0 \<and> \<not> addr_valid mm (data_buf v) \<longrightarrow> queue_buffer mm ops q p = None)"
proof -
  have "queue_buffer mm ops q p = None" if "data_size v \<noteq> 0" "\<not> addr_valid mm (data_buf v)"
    using assms small_simps(2) [OF assms(2)] queue_data_stuck [OF that]
    by (auto simp: queue_buffer_def split: option.split)
  moreover have "0 < unat (sg_length e) \<and> unat (sg_length e) \<le> 4096" if "e \<in> set (request_sg mm v)" for e
    using that assms(2,3) page_lengths [of e mm] by (auto simp: request_sg_def entry_def small_def)
  moreover have "length (request_sg mm v) = 2 + pages_of (unat (data_size v))" by (simp add: request_sg_def)
  ultimately show ?thesis using queue_buffer_cases [OF assms, of mm ops] sum_page_lengths by auto
qed

section \<open>The commands on the wire\<close>

lemma decode_wf: "cmd_wf c \<Longrightarrow> decode_cmd (cmd_bytes c) = Some c"
  by (rule decode_cmd_bytes)



section \<open>The driver over its rings\<close>

context gpu_ring
begin

lemma send_total:
  assumes "drv_inv ws q c" "cmd_areas_valid mm" "pl = NoPayload \<or> pl = Event e"
  shows "\<exists>p q'. sender mm (ops_of add_buf get_buf kick) cm pl q = Some (p, q')"
proof -
  note i = drv_invD [OF assms(1)]
  have pl: "payload_ok pl (pool q)" using assms(3) by auto
  from alloc_and_attach [OF i(1) pl, of "sizeof_cmd cm" cm] show ?thesis
  proof (elim disjE exE conjE)
    assume "alloc_cmd (sizeof_cmd cm) q = Some (0, q)"
    then show ?thesis by (simp add: sender_def send_cmd_def)
  next
    fix p2 ps b b'
    let ?q = "set_cmd p2 cm (q\<lparr>pool := b'\<rparr>)"
    let ?v = "attach_payload pl (fresh_vbuf p2 (sizeof_cmd cm) SIZEOF_GPU_CTRL_HDR 0)"
    assume a: "p2 \<noteq> 0" "alloc_cmd (sizeof_cmd cm) q = Some (p2, q\<lparr>pool := b\<rparr>)"
      "set_vbuf p2 (attach_payload pl) (set_cmd p2 cm (q\<lparr>pool := b\<rparr>)) = Some ?q" "vbufs b' p2 = Some ?v"
    have f: "vbufs (pool ?q) p2 = Some ?v" "ring ?q = ring q" using a(4) by (simp_all add: set_cmd_def)
    have s: "small (vb_size ?v)" "small (resp_size ?v)" "data_size ?v = 0"
      using assms(3) by (cases "cmd_body cm"; auto simp: small_def fresh_vbuf_def sizeof_cmd_def
          SIZEOF_GPU_CTRL_HDR_def)+
    then have "areas_valid mm ?v" using assms(2) by (simp add: areas_valid_def cmd_areas_valid_def)
    note e = queue_buffer_cases [OF f(1) s(1,2) this, of "ops_of add_buf get_buf kick"]
    have l: "length (request_sg mm ?v) = 2" using s(3) by (simp add: request_sg_def)
    have n: "0 < unat (1 + 1 :: u32)" "unat (1 + 1 :: u32) \<le> length (request_sg mm ?v)" using l by simp_all
    have "vq_add (ops_of add_buf get_buf kick) (ring q) (request_sg mm ?v) 1 1 p2 \<noteq> None"
      using add_cases [OF i(2) n, of p2] by (auto simp: ops_of_def)
    then have "queue_buffer mm (ops_of add_buf get_buf kick) ?q p2 \<noteq> None"
      using e s(3) f(2) by auto
    then show ?thesis using a(1-3) by (auto simp: sender_def send_cmd_def)
  qed
qed

end


text \<open>(driver, packed rings) The same over packed rings.\<close>
theorem driver_run_safe_packed:
  assumes "drv_run mm packed_ops alloc device_use_packed q0 c0 waiting q c"
    and "gpubuf_inv (pool q0)" "m_InUseBufs (pool q0) = []"
    and "packed_sys_inv (ring q0)" "packed_sys_inv c0"
    and "outstanding_packed (ring q0) = {#}" "outstanding_packed c0 = {#}"
    and "cmd_areas_valid mm" "fresh_allocator alloc"
  shows "gpubuf_inv (pool q) \<and>
    outstanding_packed (ring q) + outstanding_packed c + waiting \<subseteq># mset (m_InUseBufs (pool q)) \<and>
    distinct (m_InUseBufs (pool q)) \<and>
    dpc_ctrl_one packed_ops q \<noteq> None \<and> dpc_cursor_one packed_ops (with_ring c q) \<noteq> None \<and>
    (\<forall>p. p \<in># waiting \<longrightarrow> res_flush_finish p q \<noteq> None)"
  using gpq.drv_run_safe [OF assms(1) [unfolded packed_ops_def] assms(2-9)] unfolding packed_ops_def .

text \<open>(ResFlush, timeout) When the wait of a flush ends before the device has answered, its
  buffer is released all the same: it is then free and still on the ring, and with no other
  free buffer the very next command is written into it while the device may read it.\<close>
theorem flush_timeout_reuses_buffer:
  assumes "gpubuf_inv (pool q)" "p \<in> set (m_InUseBufs (pool q))" "m_FreeBufs (pool q) = []"
  shows "\<exists>q1 q2. res_flush_finish p q = Some q1 \<and> ring q1 = ring q \<and> m_FreeBufs (pool q1) = [p] \<and>
    alloc_cmd sz q1 = Some (p, q2) \<and> ring q2 = ring q"
proof -
  have p: "p \<noteq> 0" using gpubuf_inv_elem(2) [OF assms(1), of p] assms(2) by simp
  obtain b1 where b1: "free_vbuf p (pool q) = Some b1" "gpubuf_inv b1" "m_FreeBufs b1 = [p]"
    using free_vbuf_ok [OF assms(1,2)] assms(3) by simp
  have "resp_arg_ok b1 SIZEOF_GPU_CTRL_HDR 0" by (simp add: resp_arg_ok_def)
  from get_vbuf_ok(1) [OF b1(2,3) this, of sz]
  obtain b2 where "get_vbuf sz SIZEOF_GPU_CTRL_HDR 0 b1 = Some (p, b2)" by blast
  then show ?thesis using p b1 assms(3)
    by (simp add: res_flush_finish_def release_buffer_def alloc_cmd_def alloc_cmd_resp_def)
qed

section \<open>Witnesses\<close>

definition flat_mm :: mm where
  "flat_mm = \<lparr>addr_valid = (\<lambda>a. True), phys_addr = (\<lambda>a. a)\<rparr>"

lemma flat_mm_valid: "cmd_areas_valid flat_mm" "areas_valid flat_mm v"
  by (simp_all add: cmd_areas_valid_def areas_valid_def flat_mm_def)

definition uring4 :: "u64 virtqueue_split" where
  "uring4 = vring.extend (ring_mem4\<lparr>sq_desc :=
      map (\<lambda>n. \<lparr>d_addr = 0, d_len = 0, d_flags = VIRTQ_DESC_F_NEXT, d_next = n\<rparr>) [1, 2, 3] @ [empty_desc]\<rparr>)
    (virtqueue_split.fields 0 0 4 0 0 0 (replicate 4 None) 0 \<lparr>vdev_addr = 0, event_suppression_enabled = True\<rparr>)"

lemma uring4_sys: "split_sys_inv uring4" "outstanding_split uring4 = {#}"
proof -
  note defs = uring4_def ring4_defs
  have n: "unat (sq_num uring4) = 4" by (simp add: defs)
  have u: "[0..<4] = [0, 1, 2, 3::nat]" by (simp add: upt_rec)
  have sh: "ring_shape uring4" by (auto simp: ring_shape_def defs intro!: exI [of _ 2])
  have "split_inv [0, 1, 2, 3] [] uring4"
    using sh by (simp add: split_inv_def defs lessThan_4 all_less_4 desc_next_def)
  then have i: "split_inv [0..<unat (sq_num uring4)] [] uring4" unfolding n u .
  have "used_idx uring4 = last_used uring4" by (simp add: defs)
  moreover have "opaques uring4 = replicate (unat (sq_num uring4)) None" unfolding n by (simp add: defs)
  ultimately show "split_sys_inv uring4" "outstanding_split uring4 = {#}"
    using split_sys_inv_new [OF i] by simp_all
qed

definition upring4 :: "u64 virtqueue_packed" where
  "upring4 = the (vring_new_virtqueue_packed 0 4 64 \<lparr>vdev_addr = 0, event_suppression_enabled = True\<rparr> 0
     (replicate 4 empty_pdesc) no_event no_event)"

definition upsys4 :: "u64 packed_sys" where
  "upsys4 = \<lparr>drv = upring4, dev_idx = 0, dev_wrap = True, dev_log = []\<rparr>"

lemma upsys4_sys: "packed_sys_inv upsys4" "outstanding_packed upsys4 = {#}"
proof -
  have new: "vring_new_virtqueue_packed 0 4 64 \<lparr>vdev_addr = 0, event_suppression_enabled = True\<rparr> 0
     (replicate 4 empty_pdesc) no_event no_event = Some upring4"
    by (simp add: upring4_def vring_new_virtqueue_packed_def Let_def)
  have i: "packed_inv [0, 1, 2, 3] [] 4 4 upring4"
    using vring_new_virtqueue_packed_ok [of 4 "replicate 4 empty_pdesc" 0 64
      "\<lparr>vdev_addr = 0, event_suppression_enabled = True\<rparr>" 0 no_event no_event, where 'a = u64]
      new upt4 by (auto simp: dev_written_def empty_pdesc_def)
  have sel: "pq_num upring4 = 4" "desc_state upring4 = fresh_state 4"
    by (simp_all add: upring4_def vring_new_virtqueue_packed_def Let_def packed_flag_defs)
  have "packed_log 4 4 upring4 []" by (auto simp: packed_log_def log_pos_def Let_def)
  then show "packed_sys_inv upsys4"
    unfolding packed_sys_inv_def upsys4_def using i
    by (intro exI conjI) (auto simp: log_pos_def lap_def sel)
  show "outstanding_packed upsys4 = {#}"
    by (simp add: outstanding_packed_def upsys4_def sel fresh_state_def upt4)
qed

definition demo_q :: "'q \<Rightarrow> 'q gpuq" where
  "demo_q r = \<lparr>ring = r, pool = demo_pool, cmds = Map.empty\<rparr>"

lemma demo_q_sel: "ring (demo_q r) = r" "pool (demo_q r) = demo_pool" "m_InUseBufs demo_pool = []"
  by (simp_all add: demo_q_def demo_pool_def)


theorem driver_run_safe_packed_witness:
  "\<exists>p q. sender flat_mm packed_ops (unref_resource_cmd 7) NoPayload (demo_q upsys4) = Some (p, q) \<and>
    dpc_ctrl_one packed_ops q \<noteq> None"
proof -
  have i: "gpq.drv_inv {#} (demo_q upsys4) upsys4"
    by (simp add: gpq.drv_inv_def demo_q_sel demo_pool_inv upsys4_sys)
  obtain p q where s: "sender flat_mm packed_ops (unref_resource_cmd 7) NoPayload (demo_q upsys4) = Some (p, q)"
    using gpq.send_total [OF i flat_mm_valid(1), of NoPayload] unfolding packed_ops_def by blast
  have r: "drv_run flat_mm packed_ops two_blocks device_use_packed (demo_q upsys4) upsys4 {#} q upsys4"
    by (rule drv_run.send [OF drv_run.start _ s]) simp
  show ?thesis
    using s driver_run_safe_packed [OF r _ _ _ _ _ _ flat_mm_valid(1) two_blocks_fresh]
    by (auto simp: demo_q_sel demo_pool_inv upsys4_sys)
qed

definition demo_busy :: "nat gpuq" where
  "demo_busy = \<lparr>ring = 0, pool = demo_taken\<lparr>m_FreeBufs := [], m_uCount := 1,
     vbufs := (vbufs demo_taken)(8192 := None)\<rparr>, cmds = Map.empty\<rparr>"

theorem flush_timeout_reuses_buffer_witness:
  "\<exists>q1 q2. res_flush_finish 4096 demo_busy = Some q1 \<and> alloc_cmd 48 q1 = Some (4096, q2)"
proof -
  have "gpubuf_inv (pool demo_busy)"
    by (simp add: gpubuf_inv_def demo_busy_def demo_taken_def demo_pool_def pool_blocks_def owned_at_def
        owned_fresh_vbuf MAX_INLINE_RESP_SIZE_def)
  from flush_timeout_reuses_buffer [OF this, of 4096 48] show ?thesis
    by (auto simp: demo_busy_def demo_taken_def)
qed

theorem queue_buffer_scatter_witness:
  "\<exists>v. vbufs demo_taken 4096 = Some v \<and>
    queue_buffer flat_mm (ops_of (\<lambda>q sg out in' t. Some (0, q @ sg)) (\<lambda>q. None) id)
      \<lparr>ring = [], pool = demo_taken, cmds = Map.empty\<rparr> 4096 =
      Some (0, \<lparr>ring = request_sg flat_mm v, pool = demo_taken, cmds = Map.empty\<rparr>)"
proof -
  let ?v = "fresh_vbuf 4096 32 1056 12288"
  have v: "vbufs demo_taken 4096 = Some ?v" by (simp add: demo_taken_def)
  have s: "small (vb_size ?v)" "small (resp_size ?v)" "data_size ?v = 0"
    by (simp_all add: small_def fresh_vbuf_def)
  show ?thesis
    using queue_buffer_scatter [of "\<lparr>ring = [], pool = demo_taken, cmds = Map.empty\<rparr>" 4096 ?v flat_mm
        "ops_of (\<lambda>q sg out in' t. Some (0, q @ sg)) (\<lambda>q. None) id"] v s flat_mm_valid(2) [of ?v]
    by (simp add: ops_of_def)
qed


end
