(* ===== verification/GpuDpc.thy ===== *)
theory GpuDpc
  imports GpuProtocol GpuQueueProps
begin

text \<open>
  Interrupts: the interrupt routine and the deferred routine of
  \<^verbatim>\<open>src/IntelVirtDisplayKMD/viogpulite.cpp\<close>.  The deferred routine drains both rings,
  releases what nobody waits for, counts flushes and sets the events of the waiters; it works on the
  adapter of \<open>GpuAdapter\<close>, and the events it sets are the value it returns.
\<close>

unbundle bit_operations_syntax

section \<open>The interrupt routine\<close>

definition ISR_REASON_DISPLAY :: u32 where "ISR_REASON_DISPLAY = 1"
definition ISR_REASON_CURSOR :: u32 where "ISR_REASON_CURSOR = 2"
definition ISR_REASON_CHANGE :: u32 where "ISR_REASON_CHANGE = 4"

text \<open>The reason, or \<open>None\<close> for an interrupt that is not serviced; \<open>isr\<close> is what the status
  register of the device gives when it is read.\<close>
definition interrupt_reason :: "bool \<Rightarrow> u32 \<Rightarrow> u8 \<Rightarrow> u32 option" where
  "interrupt_reason msi msg isr =
     (if msi then
        (if msg = 0 then Some ISR_REASON_CHANGE
         else if msg = 1 then Some ISR_REASON_DISPLAY
         else if msg = 2 then Some ISR_REASON_CURSOR
         else None)
      else if isr = 1 then Some (ISR_REASON_DISPLAY OR ISR_REASON_CURSOR)
      else if isr = 3 then Some ISR_REASON_CHANGE
      else None)"

definition interrupt_routine :: "bool \<Rightarrow> u32 \<Rightarrow> u8 \<Rightarrow> 'q adapter \<Rightarrow> bool \<times> 'q adapter" where
  "interrupt_routine msi msg isr a = (case interrupt_reason msi msg isr of
     None \<Rightarrow> (False, a)
   | Some r \<Rightarrow> (True, a\<lparr>m_PendingWorks := m_PendingWorks a OR r\<rparr>))"

section \<open>The deferred routine\<close>

text \<open>A flush has completed; its fence number is the screen.\<close>
definition flush_done :: "u64 \<Rightarrow> 'q adapter \<Rightarrow> 'q adapter option" where
  "flush_done sid a =
     (if ucast (m_u32NumScanouts a) \<le> sid then Some a
      else upd_screen (unat sid)
        (\<lambda>s. if 0 < m_FlushCount s then s\<lparr>m_FlushCount := m_FlushCount s - 1\<rparr> else s) a)"

text \<open>One round of the loop over the control queue: the events set, or \<open>None\<close> when the queue is empty.\<close>
definition dpc_ctrl_round :: "'q env \<Rightarrow> 'q adapter \<Rightarrow> (u64 list option \<times> 'q adapter) option" where
  "dpc_ctrl_round e a = do {
     (r, q) \<leftarrow> dpc_ctrl_one (e_ops e) (m_CtrlQueue a);
     let a1 = a\<lparr>m_CtrlQueue := q\<rparr>;
     case r of
       None \<Rightarrow> Some (None, a1)
     | Some (p, sets) \<Rightarrow>
         if \<not> sets then Some (Some [], a1)
         else do {
           c \<leftarrow> cmds q p;
           v \<leftarrow> vbufs (pool q) p;
           a2 \<leftarrow> (if h_type (cmd_hdr c) = VIRTIO_GPU_CMD_RESOURCE_FLUSH
             then flush_done (h_fence_id (cmd_hdr c)) a1 else Some a1);
           Some (Some [vb_event v], a2) } }"

definition dpc_cursor_round :: "'q env \<Rightarrow> 'q adapter \<Rightarrow> (bool \<times> 'q adapter) option" where
  "dpc_cursor_round e a = do {
     (r, q) \<leftarrow> dpc_cursor_one (e_ops e) (with_ring (m_CursorRing a) (m_CtrlQueue a));
     Some (r \<noteq> None, a\<lparr>m_CtrlQueue := with_ring (ring (m_CtrlQueue a)) q, m_CursorRing := ring q\<rparr>) }"

partial_function (option) drain_ctrl :: "'q env \<Rightarrow> u64 list \<Rightarrow> 'q adapter \<Rightarrow> (u64 list \<times> 'q adapter) option" where
  "drain_ctrl e evs a = do {
     (r, a') \<leftarrow> dpc_ctrl_round e a;
     (case r of None \<Rightarrow> Some (evs, a') | Some es \<Rightarrow> drain_ctrl e (evs @ es) a') }"

partial_function (option) drain_cursor :: "'q env \<Rightarrow> 'q adapter \<Rightarrow> 'q adapter option" where
  "drain_cursor e a = do {
     (more, a') \<leftarrow> dpc_cursor_round e a;
     (if more then drain_cursor e a' else Some a') }"

text \<open>The body for the reasons found pending.\<close>
definition dpc_body :: "'q env \<Rightarrow> u32 \<Rightarrow> u64 list \<Rightarrow> 'q adapter \<Rightarrow> (u64 list \<times> 'q adapter) option" where
  "dpc_body e reason evs a = do {
     (evs1, a1) \<leftarrow> (if reason AND ISR_REASON_DISPLAY \<noteq> 0 then drain_ctrl e evs a else Some (evs, a));
     a2 \<leftarrow> (if reason AND ISR_REASON_CURSOR \<noteq> 0 then drain_cursor e a1 else Some a1);
     Some (evs1, if reason AND ISR_REASON_CHANGE \<noteq> 0 then a2\<lparr>config_event := True\<rparr> else a2) }"

text \<open>The outer loop; \<open>irqs\<close> are the reasons the interrupt routine adds while each round of it runs.\<close>
partial_function (option) dpc_routine :: "'q env \<Rightarrow> u32 list \<Rightarrow> u64 list \<Rightarrow> 'q adapter \<Rightarrow> (u64 list \<times> 'q adapter) option" where
  "dpc_routine e irqs evs a =
     (if m_PendingWorks a = 0 then Some (evs, a)
      else do {
        (evs1, a1) \<leftarrow> dpc_body e (m_PendingWorks a) evs (a\<lparr>m_PendingWorks := 0\<rparr>);
        dpc_routine e (tl irqs) evs1
          (a1\<lparr>m_PendingWorks := m_PendingWorks a1 OR (if irqs = [] then 0 else hd irqs)\<rparr>) })"

section \<open>What the deferred routine does\<close>

text \<open>Whether somebody waits for the answer to the command in the buffer at \<open>p\<close>.\<close>
definition waited :: "'q gpuq \<Rightarrow> u64 \<Rightarrow> bool" where
  "waited q p \<longleftrightarrow> (\<exists>v c. vbufs (pool q) p = Some v \<and> vb_event v \<noteq> 0 \<and> cmds q p = Some c
      \<and> h_type (cmd_hdr c) \<in> {VIRTIO_GPU_CMD_RESOURCE_FLUSH, VIRTIO_GPU_CMD_GET_DISPLAY_INFO, VIRTIO_GPU_CMD_GET_EDID})"

definition event_of :: "'q gpuq \<Rightarrow> u64 \<Rightarrow> u64" where
  "event_of q p = vb_event (the (vbufs (pool q) p))"

text \<open>The screen whose flush the buffer at \<open>p\<close> completes.\<close>
definition flush_of :: "'q gpuq \<Rightarrow> u64 \<Rightarrow> u64 option" where
  "flush_of q p = (if waited q p \<and> h_type (cmd_hdr (the (cmds q p))) = VIRTIO_GPU_CMD_RESOURCE_FLUSH
     then Some (h_fence_id (cmd_hdr (the (cmds q p)))) else None)"

definition dec_flush :: "screen \<Rightarrow> screen" where
  "dec_flush s = (if 0 < m_FlushCount s then s\<lparr>m_FlushCount := m_FlushCount s - 1\<rparr> else s)"

lemma dec_flush_pow: "0 \<le> m_FlushCount s \<Longrightarrow> m_FlushCount ((dec_flush ^^ n) s) = max 0 (m_FlushCount s - int n)"
  by (induction n arbitrary: s) (auto simp: funpow_swap1 dec_flush_def max_def)

text \<open>How many of the buffers \<open>ps\<close> complete a flush of screen \<open>t\<close>.\<close>
definition flushes :: "'q gpuq \<Rightarrow> u64 list \<Rightarrow> nat \<Rightarrow> nat" where
  "flushes q ps t = length (filter (\<lambda>p. map_option unat (flush_of q p) = Some t) ps)"

definition screens_in_range :: "'q adapter \<Rightarrow> bool" where
  "screens_in_range a \<longleftrightarrow> unat (m_u32NumScanouts a) = length (m_screen a)"

lemma flush_done_ok:
  assumes "screens_in_range a"
  shows "\<exists>a'. flush_done sid a = Some a' \<and> m_CtrlQueue a' = m_CtrlQueue a \<and> m_CursorRing a' = m_CursorRing a
    \<and> m_PendingWorks a' = m_PendingWorks a \<and> config_event a' = config_event a \<and> screens_in_range a'
    \<and> m_screen a' = (if unat sid < length (m_screen a)
        then (m_screen a)[unat sid := dec_flush (m_screen a ! unat sid)] else m_screen a)"
proof (cases "ucast (m_u32NumScanouts a) \<le> sid")
  case True
  then have "length (m_screen a) \<le> unat sid"
    using assms by (simp add: screens_in_range_def word_le_nat_alt unat_ucast_u32_u64)
  then show ?thesis using True assms by (simp add: flush_done_def)
next
  case False
  then have "unat sid < length (m_screen a)"
    using assms by (simp add: screens_in_range_def word_le_nat_alt unat_ucast_u32_u64)
  then show ?thesis using False assms
    by (simp add: flush_done_def upd_screen_def dec_flush_def screens_in_range_def)
qed

lemma distinct_of_count: "\<forall>x. count (mset xs) x \<le> 1 \<Longrightarrow> distinct xs"
proof (induction xs)
  case (Cons y ys)
  have "count (mset ys) x \<le> count (mset (y # ys)) x" for x by simp
  then have "count (mset ys) x \<le> 1" for x using Cons.prems by (meson order_trans)
  moreover have "count (mset ys) y = 0" using spec [OF Cons.prems, of y] by simp
  ultimately show ?case using Cons.IH by (simp add: count_mset_0_iff)
qed simp

context gpu_ring
begin

lemma dpc_ctrl_exact:
  assumes "drv_inv ws q c" "returned (ring q) = p # ps"
  shows "\<exists>q'. dpc_ctrl_one (ops_of add_buf get_buf kick) q = Some (Some (p, waited q p), q')
    \<and> returned (ring q') = ps \<and> cmds q' = cmds q
    \<and> drv_inv (if event_of q p = 0 then ws else add_mset p ws) q' c
    \<and> (\<forall>p'. p' \<noteq> p \<longrightarrow> vbufs (pool q') p' = vbufs (pool q) p') \<and> (event_of q p \<noteq> 0 \<longrightarrow> pool q' = pool q)
    \<and> (\<exists>v. vbufs (pool q) p = Some v)
    \<and> m_InUseBufs (pool q') = (if event_of q p = 0 then remove1 p (m_InUseBufs (pool q)) else m_InUseBufs (pool q))
    \<and> m_FreeBufs (pool q') = (if event_of q p = 0 then m_FreeBufs (pool q) @ [p] else m_FreeBufs (pool q))"
proof -
  note i = drv_invD [OF assms(1)]
  obtain r1 where r1: "get_buf (ring q) = Some (Some p, r1)" "rinv r1" "outstanding r1 = outstanding (ring q) - {#p#}"
    "returned r1 = ps"
    using get_ok [OF i(2) assms(2)] by blast
  have p: "p \<in># outstanding (ring q)"
    using returned_outstanding [OF i(2)] assms(2) by (auto dest: mset_subset_eqD)
  then have pu: "p \<in> set (m_InUseBufs (pool q))" "p \<noteq> 0" using i(5) [of p] by auto
  let ?q1 = "q\<lparr>ring := r1\<rparr>"
  have d: "dequeue_buffer (ops_of add_buf get_buf kick) q = Some (p, ?q1)"
    using r1(1) by (simp add: dequeue_buffer_def ops_of_def)
  obtain v where v: "vbufs (pool q) p = Some v" using in_use_vbuf [OF i(1) pu(1)] by blast
  have split: "outstanding (ring q) + outstanding c + ws = add_mset p (outstanding r1 + outstanding c + ws)"
    using p r1(3) by simp
  show ?thesis
  proof (cases "vb_event v = 0")
    case True
    note f = free_vbuf_ok [OF i(1) pu(1)]
    define b where "b = (pool q)\<lparr>m_FreeBufs := m_FreeBufs (pool q) @ [p], m_InUseBufs := remove1 p (m_InUseBufs (pool q)),
      vbufs := (vbufs (pool q))(p \<mapsto> drop_payload (the (vbufs (pool q) p))),
      blocks := blocks (pool q) - set (owned_at (pool q) p)\<rparr>"
    let ?q2 = "?q1\<lparr>pool := b\<rparr>"
    have "dpc_ctrl_one (ops_of add_buf get_buf kick) q = Some (Some (p, False), ?q2)"
      using d pu(2) v True f(1) by (simp add: dpc_ctrl_one_def release_buffer_def b_def)
    moreover have "drv_inv ws ?q2 c"
      by (rule drv_inv_shrink [OF assms(1), where p = p]) (use f(2) r1 i(3) split pu in \<open>simp_all add: b_def\<close>)
    ultimately show ?thesis using v True r1(4) by (simp add: waited_def event_of_def b_def)
  next
    case False
    then have "dpc_ctrl_one (ops_of add_buf get_buf kick) q = Some (Some (p, waited q p), ?q1)"
      using d pu(2) v by (auto simp: dpc_ctrl_one_def waited_def split: option.splits)
    moreover have "outstanding r1 + outstanding c + add_mset p ws = outstanding (ring q) + outstanding c + ws"
      using split by simp
    then have "outstanding r1 + outstanding c + add_mset p ws \<subseteq># mset (m_InUseBufs (pool q))"
      using i(4) by (simp only:)
    then have "drv_inv (add_mset p ws) ?q1 c" using i(1,3) r1(2) by (simp add: drv_inv_def)
    ultimately show ?thesis using v False r1(4) by (simp add: event_of_def)
  qed
qed

text \<open>What does not change while buffers come back: the answers that are still to be fetched.\<close>
lemma rest_unchanged:
  assumes "cmds q' = cmds q" "\<forall>p'. p' \<noteq> p \<longrightarrow> vbufs (pool q') p' = vbufs (pool q) p'" "p' \<noteq> p"
  shows "waited q' p' = waited q p'" "event_of q' p' = event_of q p'" "flush_of q' p' = flush_of q p'"
  using assms by (simp_all add: waited_def event_of_def flush_of_def)

lemma ctrl_round_ok:
  assumes "e_ops e = ops_of add_buf get_buf kick" "drv_inv ws (m_CtrlQueue a) (m_CursorRing a)"
    and "returned (ring (m_CtrlQueue a)) = p # ps" "screens_in_range a"
  defines "q \<equiv> m_CtrlQueue a"
  shows "\<exists>a'. dpc_ctrl_round e a = Some (Some (if waited q p then [event_of q p] else []), a')
    \<and> returned (ring (m_CtrlQueue a')) = ps \<and> cmds (m_CtrlQueue a') = cmds q
    \<and> (\<forall>p'. p' \<noteq> p \<longrightarrow> vbufs (pool (m_CtrlQueue a')) p' = vbufs (pool q) p')
    \<and> drv_inv (if event_of q p = 0 then ws else add_mset p ws) (m_CtrlQueue a') (m_CursorRing a')
    \<and> m_CursorRing a' = m_CursorRing a \<and> m_PendingWorks a' = m_PendingWorks a \<and> config_event a' = config_event a
    \<and> screens_in_range a' \<and> length (m_screen a') = length (m_screen a)
    \<and> (\<forall>t < length (m_screen a). m_screen a' ! t = (dec_flush ^^ flushes q [p] t) (m_screen a ! t))
    \<and> m_FreeBufs (pool (m_CtrlQueue a')) = m_FreeBufs (pool q) @ (if event_of q p = 0 then [p] else [])"
proof -
  obtain q' v where q': "dpc_ctrl_one (ops_of add_buf get_buf kick) q = Some (Some (p, waited q p), q')"
    "returned (ring q') = ps" "cmds q' = cmds q"
    "drv_inv (if event_of q p = 0 then ws else add_mset p ws) q' (m_CursorRing a)"
    "\<forall>p'. p' \<noteq> p \<longrightarrow> vbufs (pool q') p' = vbufs (pool q) p'" "event_of q p \<noteq> 0 \<longrightarrow> pool q' = pool q"
    "vbufs (pool q) p = Some v"
    "m_FreeBufs (pool q') = (if event_of q p = 0 then m_FreeBufs (pool q) @ [p] else m_FreeBufs (pool q))"
    using dpc_ctrl_exact [OF assms(2,3)] unfolding q_def by blast
  let ?a1 = "a\<lparr>m_CtrlQueue := q'\<rparr>"
  have r1: "screens_in_range ?a1" using assms(4) by (simp add: screens_in_range_def)
  show ?thesis
  proof (cases "flush_of q p")
    case None
    have "dpc_ctrl_round e a = Some (Some (if waited q p then [event_of q p] else []), ?a1)"
      using q' None assms(1)
      by (auto simp: dpc_ctrl_round_def q_def waited_def event_of_def flush_of_def Let_def split: if_splits)
    then show ?thesis using q' r1 None by (simp add: flushes_def)
  next
    case (Some sid)
    then have w: "waited q p" "event_of q p \<noteq> 0" "pool q' = pool q"
      using q'(6,7) by (auto simp: flush_of_def waited_def event_of_def split: if_splits)
    obtain c where c: "cmds q p = Some c" "h_type (cmd_hdr c) = VIRTIO_GPU_CMD_RESOURCE_FLUSH"
      "h_fence_id (cmd_hdr c) = sid"
      using w(1) Some by (auto simp: flush_of_def waited_def split: if_splits)
    obtain a' where a': "flush_done sid ?a1 = Some a'" "m_CtrlQueue a' = q'" "m_CursorRing a' = m_CursorRing a"
      "m_PendingWorks a' = m_PendingWorks a" "config_event a' = config_event a" "screens_in_range a'"
      "m_screen a' = (if unat sid < length (m_screen a)
        then (m_screen a)[unat sid := dec_flush (m_screen a ! unat sid)] else m_screen a)"
      using flush_done_ok [OF r1, of sid] by auto
    have "dpc_ctrl_round e a = Some (Some [event_of q p], a')"
      unfolding dpc_ctrl_round_def assms(1) q_def [symmetric] q'(1)
      using q'(3,7) w c a'(1) by (simp add: event_of_def)
    moreover have "m_screen a' ! t = (dec_flush ^^ flushes q [p] t) (m_screen a ! t)" if "t < length (m_screen a)" for t
      using a'(7) that Some by (simp add: flushes_def nth_list_update)
    ultimately show ?thesis using q' w a' by simp
  qed
qed

lemma returned_distinct: "drv_inv ws q c \<Longrightarrow> distinct (returned (ring q))"
proof -
  assume a: "drv_inv ws q c"
  note i = drv_invD [OF a]
  have "mset (returned (ring q)) \<subseteq># mset (m_InUseBufs (pool q))"
    using returned_outstanding [OF i(2)] i(4)
    by (meson mset_subset_eq_add_left subset_mset.order_trans)
  then have "count (mset (returned (ring q))) x \<le> count (mset (m_InUseBufs (pool q))) x" for x
    by (rule mset_subset_eq_count)
  moreover have "count (mset (m_InUseBufs (pool q))) x \<le> 1" for x
    using gpubuf_inv_elem(4) [OF i(1)] by (simp add: distinct_count_atmost_1)
  ultimately show ?thesis by (intro distinct_of_count) (meson order_trans)
qed

lemma drain_ctrl_ok:
  assumes "e_ops e = ops_of add_buf get_buf kick" "drv_inv ws (m_CtrlQueue a) (m_CursorRing a)" "screens_in_range a"
  defines "q \<equiv> m_CtrlQueue a"
  defines "ps \<equiv> returned (ring q)"
  shows "\<exists>a' ws'. drain_ctrl e evs a = Some (evs @ map (event_of q) (filter (waited q) ps), a')
    \<and> returned (ring (m_CtrlQueue a')) = [] \<and> drv_inv ws' (m_CtrlQueue a') (m_CursorRing a')
    \<and> m_CursorRing a' = m_CursorRing a \<and> m_PendingWorks a' = m_PendingWorks a \<and> config_event a' = config_event a
    \<and> screens_in_range a' \<and> length (m_screen a') = length (m_screen a)
    \<and> (\<forall>t < length (m_screen a). m_screen a' ! t = (dec_flush ^^ flushes q ps t) (m_screen a ! t))
    \<and> m_FreeBufs (pool (m_CtrlQueue a')) = m_FreeBufs (pool q) @ filter (\<lambda>p. event_of q p = 0) ps"
  using assms(2,3) unfolding q_def ps_def
proof (induction "returned (ring (m_CtrlQueue a))" arbitrary: a ws evs)
  case Nil
  note i = drv_invD [OF Nil.prems(1)]
  have "get_buf (ring (m_CtrlQueue a)) = Some (None, ring (m_CtrlQueue a))"
    using get_empty [OF i(2)] Nil.hyps by simp
  then have "dpc_ctrl_round e a = Some (None, a)"
    using assms(1) by (simp add: dpc_ctrl_round_def dpc_ctrl_one_def dequeue_buffer_def ops_of_def)
  then have "drain_ctrl e evs a = Some (evs, a)" by (subst drain_ctrl.simps) simp
  then show ?case using Nil by (auto simp: flushes_def)
next
  case (Cons p ps)
  let ?q = "m_CtrlQueue a"
  have ret: "returned (ring ?q) = p # ps" using Cons.hyps(2) by simp
  obtain a1 where r: "dpc_ctrl_round e a = Some (Some (if waited ?q p then [event_of ?q p] else []), a1)"
    and a1: "returned (ring (m_CtrlQueue a1)) = ps" "cmds (m_CtrlQueue a1) = cmds ?q"
      "\<forall>p'. p' \<noteq> p \<longrightarrow> vbufs (pool (m_CtrlQueue a1)) p' = vbufs (pool ?q) p'"
      "drv_inv (if event_of ?q p = 0 then ws else add_mset p ws) (m_CtrlQueue a1) (m_CursorRing a1)"
      "m_CursorRing a1 = m_CursorRing a" "m_PendingWorks a1 = m_PendingWorks a" "config_event a1 = config_event a"
      "screens_in_range a1" "length (m_screen a1) = length (m_screen a)"
      "\<forall>t < length (m_screen a). m_screen a1 ! t = (dec_flush ^^ flushes ?q [p] t) (m_screen a ! t)"
      "m_FreeBufs (pool (m_CtrlQueue a1)) = m_FreeBufs (pool ?q) @ (if event_of ?q p = 0 then [p] else [])"
    using ctrl_round_ok [OF assms(1) Cons.prems(1) ret Cons.prems(2)] by blast
  have notin: "p \<notin> set ps" using returned_distinct [OF Cons.prems(1)] ret by simp
  have same: "waited (m_CtrlQueue a1) p' = waited ?q p'" "event_of (m_CtrlQueue a1) p' = event_of ?q p'"
      "flush_of (m_CtrlQueue a1) p' = flush_of ?q p'" if "p' \<in> set ps" for p'
    by (rule rest_unchanged [OF a1(2,3)], use that notin in blast)+
  obtain a' ws' where IH: "drain_ctrl e (evs @ (if waited ?q p then [event_of ?q p] else [])) a1 =
      Some ((evs @ (if waited ?q p then [event_of ?q p] else [])) @
        map (event_of (m_CtrlQueue a1)) (filter (waited (m_CtrlQueue a1)) ps), a')"
    "returned (ring (m_CtrlQueue a')) = []" "drv_inv ws' (m_CtrlQueue a') (m_CursorRing a')"
    "m_CursorRing a' = m_CursorRing a1" "m_PendingWorks a' = m_PendingWorks a1" "config_event a' = config_event a1"
    "screens_in_range a'" "length (m_screen a') = length (m_screen a1)"
    "\<forall>t < length (m_screen a1). m_screen a' ! t = (dec_flush ^^ flushes (m_CtrlQueue a1) ps t) (m_screen a1 ! t)"
    "m_FreeBufs (pool (m_CtrlQueue a')) = m_FreeBufs (pool (m_CtrlQueue a1)) @
        filter (\<lambda>p. event_of (m_CtrlQueue a1) p = 0) ps"
    using Cons.hyps(1) [OF a1(1) [symmetric] a1(4,8)] unfolding a1(1) by blast
  have "drain_ctrl e evs a = drain_ctrl e (evs @ (if waited ?q p then [event_of ?q p] else [])) a1"
    using r by (subst drain_ctrl.simps) simp
  also have "\<dots> = Some (evs @ map (event_of ?q) (filter (waited ?q) (returned (ring ?q))), a')"
    unfolding IH(1) ret using same by (auto cong: filter_cong map_cong)
  finally have d: "drain_ctrl e evs a = Some (evs @ map (event_of ?q) (filter (waited ?q) (returned (ring ?q))), a')" .
  have fl: "flushes (m_CtrlQueue a1) ps t = flushes ?q ps t" for t
    unfolding flushes_def using same(3) by (metis (mono_tags, lifting) filter_cong)
  have add: "flushes ?q (p # ps) t = flushes ?q ps t + flushes ?q [p] t" for t by (simp add: flushes_def)
  have scr: "m_screen a' ! t = (dec_flush ^^ flushes ?q (returned (ring ?q)) t) (m_screen a ! t)"
    if "t < length (m_screen a)" for t
    using IH(9) a1(9,10) that unfolding ret add funpow_add fl by simp
  have free: "m_FreeBufs (pool (m_CtrlQueue a')) = m_FreeBufs (pool ?q) @ filter (\<lambda>p. event_of ?q p = 0) (returned (ring ?q))"
    unfolding IH(10) a1(11) ret using same(2) by (auto cong: filter_cong)
  show ?case using d IH scr free a1 by (intro exI [of _ a'] exI [of _ ws']) simp
qed

text \<open>What a drain of the cursor queue leaves alone.\<close>
definition same_ctrl :: "'q adapter \<Rightarrow> 'q adapter \<Rightarrow> bool" where
  "same_ctrl a a' \<longleftrightarrow> ring (m_CtrlQueue a') = ring (m_CtrlQueue a) \<and> m_screen a' = m_screen a
    \<and> m_PendingWorks a' = m_PendingWorks a \<and> config_event a' = config_event a
    \<and> m_u32NumScanouts a' = m_u32NumScanouts a"

lemma drain_cursor_ok:
  assumes "e_ops e = ops_of add_buf get_buf kick" "drv_inv ws (m_CtrlQueue a) (m_CursorRing a)"
  shows "\<exists>a'. drain_cursor e a = Some a' \<and> returned (m_CursorRing a') = [] \<and> same_ctrl a a'
    \<and> drv_inv ws (m_CtrlQueue a') (m_CursorRing a')"
  using assms(2)
proof (induction "returned (m_CursorRing a)" arbitrary: a)
  case Nil
  note i = drv_invD [OF Nil.prems]
  have "get_buf (m_CursorRing a) = Some (None, m_CursorRing a)" using get_empty [OF i(3)] Nil.hyps by simp
  then have "dpc_cursor_round e a = Some (False, a)"
    using assms(1) by (simp add: dpc_cursor_round_def dpc_cursor_one_def dequeue_buffer_def ops_of_def with_ring_def)
  then have "drain_cursor e a = Some a" by (subst drain_cursor.simps) simp
  then show ?case using Nil by (simp add: same_ctrl_def)
next
  case (Cons p ps)
  note i = drv_invD [OF Cons.prems]
  let ?q = "m_CtrlQueue a" and ?c = "m_CursorRing a"
  obtain c1 where c1: "get_buf ?c = Some (Some p, c1)" "rinv c1" "outstanding c1 = outstanding ?c - {#p#}"
    "returned c1 = ps"
    using get_ok [OF i(3) Cons.hyps(2) [symmetric]] by blast
  have p: "p \<in># outstanding ?c"
    using returned_outstanding [OF i(3)] Cons.hyps(2) [symmetric] by (auto dest: mset_subset_eqD)
  then have pu: "p \<in> set (m_InUseBufs (pool ?q))" "p \<noteq> 0" using i(5) [of p] by auto
  let ?q1 = "?q\<lparr>ring := c1\<rparr>"
  obtain q2 where q2: "release_buffer ?q1 p = Some q2" "gpubuf_inv (pool q2)" "ring q2 = c1"
    "m_InUseBufs (pool q2) = remove1 p (m_InUseBufs (pool ?q))"
    using release_ok [of ?q1 p] i(1) pu(1) by auto
  let ?a1 = "a\<lparr>m_CtrlQueue := with_ring (ring ?q) q2, m_CursorRing := c1\<rparr>"
  have r: "dpc_cursor_round e a = Some (True, ?a1)"
    using c1(1) q2(1,3) pu(2) assms(1)
    by (simp add: dpc_cursor_round_def dpc_cursor_one_def dequeue_buffer_def ops_of_def with_ring_def)
  have "drv_inv ws (with_ring (ring ?q) q2) c1"
    by (rule drv_inv_shrink [OF Cons.prems, where p = p]) (use q2 c1 i(2) p in \<open>simp_all add: with_ring_def\<close>)
  then obtain a' where a': "drain_cursor e ?a1 = Some a'" "returned (m_CursorRing a') = []" "same_ctrl ?a1 a'"
    "drv_inv ws (m_CtrlQueue a') (m_CursorRing a')"
    using Cons.hyps(1) [of ?a1] c1(4) by auto
  have "drain_cursor e a = Some a'" using r a'(1) by (subst drain_cursor.simps) simp
  then show ?case using a' by (auto simp: same_ctrl_def with_ring_def)
qed

text \<open>The outcome of the deferred routine: which events it sets, which flushes it counts.\<close>
definition dpc_outcome :: "bool \<Rightarrow> bool \<Rightarrow> 'q adapter \<Rightarrow> u64 list \<Rightarrow> 'q adapter \<Rightarrow> bool" where
  "dpc_outcome ctrl cursor a es a' \<longleftrightarrow> (let q = m_CtrlQueue a; ps = returned (ring q) in
     (if ctrl then es = map (event_of q) (filter (waited q) ps) \<and> returned (ring (m_CtrlQueue a')) = []
         \<and> (\<forall>t < length (m_screen a). m_screen a' ! t = (dec_flush ^^ flushes q ps t) (m_screen a ! t))
      else ps = [] \<longrightarrow> es = [] \<and> returned (ring (m_CtrlQueue a')) = [] \<and> m_screen a' = m_screen a)
     \<and> (cursor \<or> returned (m_CursorRing a) = [] \<longrightarrow> returned (m_CursorRing a') = [])
     \<and> length (m_screen a') = length (m_screen a))"

lemma dpc_body_ok:
  assumes "e_ops e = ops_of add_buf get_buf kick" "drv_inv ws (m_CtrlQueue a) (m_CursorRing a)" "screens_in_range a"
  shows "\<exists>es a' ws'. dpc_body e r evs a = Some (evs @ es, a')
    \<and> dpc_outcome (r AND ISR_REASON_DISPLAY \<noteq> 0) (r AND ISR_REASON_CURSOR \<noteq> 0) a es a'
    \<and> drv_inv ws' (m_CtrlQueue a') (m_CursorRing a') \<and> screens_in_range a' \<and> m_PendingWorks a' = m_PendingWorks a
    \<and> config_event a' = (config_event a \<or> r AND ISR_REASON_CHANGE \<noteq> 0)"
proof -
  let ?ctrl = "r AND ISR_REASON_DISPLAY \<noteq> 0" and ?cur = "r AND ISR_REASON_CURSOR \<noteq> 0"
  obtain es a1 ws1 where 1: "(if ?ctrl then drain_ctrl e evs a else Some (evs, a)) = Some (evs @ es, a1)"
    "dpc_outcome ?ctrl False a es a1" "drv_inv ws1 (m_CtrlQueue a1) (m_CursorRing a1)" "screens_in_range a1"
    "m_PendingWorks a1 = m_PendingWorks a" "config_event a1 = config_event a" "m_CursorRing a1 = m_CursorRing a"
  proof (cases ?ctrl)
    case True
    obtain a1 ws1 where d: "drain_ctrl e evs a = Some (evs @ map (event_of (m_CtrlQueue a))
        (filter (waited (m_CtrlQueue a)) (returned (ring (m_CtrlQueue a)))), a1)"
      "returned (ring (m_CtrlQueue a1)) = []" "drv_inv ws1 (m_CtrlQueue a1) (m_CursorRing a1)"
      "m_CursorRing a1 = m_CursorRing a" "m_PendingWorks a1 = m_PendingWorks a" "config_event a1 = config_event a"
      "screens_in_range a1" "length (m_screen a1) = length (m_screen a)"
      "\<forall>t < length (m_screen a). m_screen a1 ! t =
        (dec_flush ^^ flushes (m_CtrlQueue a) (returned (ring (m_CtrlQueue a))) t) (m_screen a ! t)"
      using drain_ctrl_ok [OF assms, of evs] by blast
    show ?thesis by (rule that [OF _ _ d(3,7,5,6,4)]) (use True d in \<open>simp_all add: dpc_outcome_def Let_def\<close>)
  next
    case False
    show ?thesis by (rule that [of "[]", OF _ _ assms(2,3)]) (use False in \<open>simp_all add: dpc_outcome_def Let_def\<close>)
  qed
  obtain a2 where 2: "(if ?cur then drain_cursor e a1 else Some a1) = Some a2" "same_ctrl a1 a2"
    "drv_inv ws1 (m_CtrlQueue a2) (m_CursorRing a2)"
    "?cur \<or> returned (m_CursorRing a1) = [] \<longrightarrow> returned (m_CursorRing a2) = []"
  proof (cases ?cur)
    case True
    then show ?thesis using drain_cursor_ok [OF assms(1) 1(3)] that by auto
  next
    case False
    show ?thesis by (rule that [of a1]) (use False 1(3) in \<open>simp_all add: same_ctrl_def\<close>)
  qed
  define a3 where "a3 = (if r AND ISR_REASON_CHANGE \<noteq> 0 then a2\<lparr>config_event := True\<rparr> else a2)"
  have a3: "m_CtrlQueue a3 = m_CtrlQueue a2" "m_CursorRing a3 = m_CursorRing a2" "m_screen a3 = m_screen a1"
    "m_PendingWorks a3 = m_PendingWorks a" "m_u32NumScanouts a3 = m_u32NumScanouts a1"
    "ring (m_CtrlQueue a3) = ring (m_CtrlQueue a1)"
    "config_event a3 = (config_event a \<or> r AND ISR_REASON_CHANGE \<noteq> 0)"
    using 2(2) 1(5,6) by (simp_all add: a3_def same_ctrl_def)
  have "dpc_body e r evs a = Some (evs @ es, a3)"
    unfolding dpc_body_def 1(1) using 2(1) by (simp add: a3_def)
  moreover have "dpc_outcome ?ctrl ?cur a es a3"
    using 1(2,7) 2(4) a3(2,3,6) unfolding dpc_outcome_def Let_def by auto
  moreover have "screens_in_range a3" using 1(4) a3(3,5) by (simp add: screens_in_range_def)
  moreover have "drv_inv ws1 (m_CtrlQueue a3) (m_CursorRing a3)" using 2(3) a3(1,2) by simp
  ultimately show ?thesis using a3(4,7) by blast
qed

lemma dpc_outcome_trans:
  assumes "dpc_outcome ct cu a es b" "dpc_outcome ct' cu' b es' c"
  shows "dpc_outcome ct cu a (es @ es') c"
proof -
  let ?ps = "returned (ring (m_CtrlQueue b))"
  have e: "?ps = [] \<Longrightarrow> es' = [] \<and> returned (ring (m_CtrlQueue c)) = [] \<and> m_screen c = m_screen b"
    using assms(2) by (cases ct') (auto simp: dpc_outcome_def Let_def flushes_def intro: nth_equalityI)
  show ?thesis
  proof (cases "ct \<or> returned (ring (m_CtrlQueue a)) = []")
    case True
    then have "?ps = []" using assms(1) by (cases ct) (auto simp: dpc_outcome_def Let_def)
    from e [OF this] show ?thesis using assms True by (auto simp: dpc_outcome_def Let_def)
  qed (use assms in \<open>auto simp: dpc_outcome_def Let_def\<close>)
qed

lemma dpc_routine_idle: "m_PendingWorks a = 0 \<Longrightarrow> dpc_routine e irqs evs a = Some (evs, a)"
  by (subst dpc_routine.simps) simp

lemma dpc_outcome_pending:
  "dpc_outcome ct cu (a\<lparr>m_PendingWorks := x\<rparr>) es b = dpc_outcome ct cu a es b"
  by (simp add: dpc_outcome_def)

lemma dpc_routine_ok:
  assumes "e_ops e = ops_of add_buf get_buf kick" "drv_inv ws (m_CtrlQueue a) (m_CursorRing a)" "screens_in_range a"
  shows "\<exists>es a' ws'. dpc_routine e irqs evs a = Some (evs @ es, a') \<and> m_PendingWorks a' = 0
    \<and> dpc_outcome (m_PendingWorks a AND ISR_REASON_DISPLAY \<noteq> 0) (m_PendingWorks a AND ISR_REASON_CURSOR \<noteq> 0) a es a'
    \<and> drv_inv ws' (m_CtrlQueue a') (m_CursorRing a')
    \<and> (m_PendingWorks a AND ISR_REASON_CHANGE \<noteq> 0 \<longrightarrow> config_event a')
    \<and> (config_event a \<longrightarrow> config_event a')"
  using assms(2,3)
proof (induction irqs arbitrary: a evs ws)
  case Nil
  show ?case
  proof (cases "m_PendingWorks a = 0")
    case True
    then show ?thesis using dpc_routine_idle [OF True] Nil.prems by (auto simp: dpc_outcome_def Let_def)
  next
    case False
    from Nil.prems obtain es b ws' where b: "dpc_body e (m_PendingWorks a) evs (a\<lparr>m_PendingWorks := 0\<rparr>) = Some (evs @ es, b)"
      "dpc_outcome (m_PendingWorks a AND ISR_REASON_DISPLAY \<noteq> 0) (m_PendingWorks a AND ISR_REASON_CURSOR \<noteq> 0)
        (a\<lparr>m_PendingWorks := 0\<rparr>) es b"
      "drv_inv ws' (m_CtrlQueue b) (m_CursorRing b)" "m_PendingWorks b = 0"
      "config_event b = (config_event a \<or> m_PendingWorks a AND ISR_REASON_CHANGE \<noteq> 0)"
      using dpc_body_ok [OF assms(1), of ws "a\<lparr>m_PendingWorks := 0\<rparr>" "m_PendingWorks a" evs]
      by (auto simp: screens_in_range_def)
    have "dpc_routine e [] evs a = Some (evs @ es, b)"
      using b(1,4) False dpc_routine_idle [of b e "[]" "evs @ es"] by (subst dpc_routine.simps) simp
    then show ?thesis using b by (auto simp: dpc_outcome_pending)
  qed
next
  case (Cons k irqs)
  show ?case
  proof (cases "m_PendingWorks a = 0")
    case True
    then show ?thesis using dpc_routine_idle [OF True] Cons.prems by (auto simp: dpc_outcome_def Let_def)
  next
    case False
    from Cons.prems obtain es b ws1 where b: "dpc_body e (m_PendingWorks a) evs (a\<lparr>m_PendingWorks := 0\<rparr>) = Some (evs @ es, b)"
      "dpc_outcome (m_PendingWorks a AND ISR_REASON_DISPLAY \<noteq> 0) (m_PendingWorks a AND ISR_REASON_CURSOR \<noteq> 0)
        (a\<lparr>m_PendingWorks := 0\<rparr>) es b"
      "drv_inv ws1 (m_CtrlQueue b) (m_CursorRing b)" "m_PendingWorks b = 0" "screens_in_range b"
      "config_event b = (config_event a \<or> m_PendingWorks a AND ISR_REASON_CHANGE \<noteq> 0)"
      using dpc_body_ok [OF assms(1), of ws "a\<lparr>m_PendingWorks := 0\<rparr>" "m_PendingWorks a" evs]
      by (auto simp: screens_in_range_def)
    let ?b = "b\<lparr>m_PendingWorks := k\<rparr>"
    obtain es' a' ws' where IH: "dpc_routine e irqs (evs @ es) ?b = Some ((evs @ es) @ es', a')" "m_PendingWorks a' = 0"
      "dpc_outcome (k AND ISR_REASON_DISPLAY \<noteq> 0) (k AND ISR_REASON_CURSOR \<noteq> 0) ?b es' a'"
      "drv_inv ws' (m_CtrlQueue a') (m_CursorRing a')" "config_event b \<longrightarrow> config_event a'"
      using Cons.IH [of ws1 ?b "evs @ es"] b(3,5) by (auto simp: screens_in_range_def)
    have "dpc_routine e (k # irqs) evs a = Some (evs @ (es @ es'), a')"
      using b(1,4) IH(1) False by (subst dpc_routine.simps) simp
    moreover have "dpc_outcome (m_PendingWorks a AND ISR_REASON_DISPLAY \<noteq> 0) (m_PendingWorks a AND ISR_REASON_CURSOR \<noteq> 0)
        a (es @ es') a'"
      using dpc_outcome_trans b(2) IH(3) by (simp add: dpc_outcome_pending)
    ultimately show ?thesis using IH b(6) by blast
  qed
qed

end

section \<open>Correctness\<close>


text \<open>The same over packed rings.\<close>
lemma dpc_wakes_waiters_packed:
  assumes "drv_run mm packed_ops alloc device_use_packed q0 c0 waiting (m_CtrlQueue a) (m_CursorRing a)"
    and "gpubuf_inv (pool q0)" "m_InUseBufs (pool q0) = []"
    and "packed_sys_inv (ring q0)" "packed_sys_inv c0"
    and "outstanding_packed (ring q0) = {#}" "outstanding_packed c0 = {#}"
    and "cmd_areas_valid mm" "fresh_allocator alloc" "e_ops e = packed_ops" "screens_in_range a"
  shows "\<exists>es a'. dpc_routine e irqs [] a = Some (es, a') \<and> m_PendingWorks a' = 0"
proof -
  have i0: "gpq.drv_inv {#} q0 c0" using assms(2-7) by (simp add: gpq.drv_inv_def)
  have "gpq.drv_inv waiting (m_CtrlQueue a) (m_CursorRing a)"
    by (rule gpq.drv_run_inv [OF assms(1) [unfolded packed_ops_def] i0 assms(8,9)])
  from gpq.dpc_routine_ok [OF assms(10) [unfolded packed_ops_def] this assms(11), of irqs "[]"] show ?thesis
    by auto
qed

definition dpc_env :: "u64 virtqueue_split env" where
  "dpc_env = \<lparr>e_kernel = demo_kernel True, e_send = (\<lambda>c pl q. None), e_ops = split_ops, e_obj_ok = (\<lambda>h. True),
     e_search = first_clear, e_flush_event = (\<lambda>t. 0x3000), e_wait = Some\<rparr>"

definition dpc_adapter :: "u64 virtqueue_split gpuq \<Rightarrow> u64 virtqueue_split adapter" where
  "dpc_adapter q = \<lparr>m_screen = [demo_screen\<lparr>m_FlushCount := 1\<rparr>], m_u32NumScanouts = 1, m_bBlobSupported = True,
     m_bEDID = True, m_Idr = demo_idr, m_CtrlQueue = q, m_CursorRing = uring4,
     a_kmem = \<lparr>heap = {16}, maps = {}, mdls = {}, locked = {}\<rparr>, a_ents = Map.empty,
     m_CurrentModeInfo = demo_mode 0, m_PendingWorks = 3, config_event = False\<rparr>"


end
