(* ===== verification/GpuPressure.thy ===== *)
theory GpuPressure
  imports GpuProtocol
begin

text \<open>
  Back-pressure: a frame is dropped while a flush of its screen is outstanding.  The counter of
  the drops makes the next frame go through after a bounded number of them, whatever the
  device does or leaves undone; the bound is an invariant of all operations of the adapter.
\<close>

definition stalls :: "'q adapter \<Rightarrow> u32 list" where
  "stalls a = map m_FlushStallCount (m_screen a)"

definition stalls_ok :: "'q adapter \<Rightarrow> bool" where
  "stalls_ok a \<longleftrightarrow> (\<forall>n \<in> set (stalls a). n < FLUSH_STALL_LIMIT)"

definition wait_keeps_stalls :: "'q env \<Rightarrow> bool" where
  "wait_keeps_stalls e \<longleftrightarrow> (\<forall>a a'. e_wait e a = Some a' \<longrightarrow> stalls a' = stalls a)"

lemma stalls_upd:
  assumes "upd_screen t f a = Some a'" "\<And>s. m_FlushStallCount (f s) = m_FlushStallCount s"
  shows "stalls a' = stalls a"
  using assms by (simp add: stalls_def upd_screen_Some map_update) (metis list_update_id length_map nth_map)

lemma stalls_parts [simp]:
  "stalls (with_kmem k a) = stalls a" "stalls (with_heap h a) = stalls a"
  "stalls (a\<lparr>m_Idr := i\<rparr>) = stalls a" "stalls (a\<lparr>m_CtrlQueue := q\<rparr>) = stalls a"
  "stalls (a\<lparr>a_ents := x\<rparr>) = stalls a" "stalls (a\<lparr>m_CurrentModeInfo := c\<rparr>) = stalls a"
  "stalls (a\<lparr>m_CtrlQueue := q, m_CursorRing := r\<rparr>) = stalls a"
  by (simp_all add: stalls_def with_kmem_def with_heap_def)

lemma stalls_ctrl: "on_ctrl f a = Some a' \<Longrightarrow> stalls a' = stalls a"
  by (simp add: stalls_def on_ctrl_screen)

lemma stalls_put: "put_id i a = Some a' \<Longrightarrow> stalls a' = stalls a"
  by (simp add: stalls_def put_id_screen)

lemma stalls_get: "get_id e a = (i, a') \<Longrightarrow> stalls a' = stalls a"
  by (auto simp: get_id_def split: prod.splits)

lemma frame_close_stalls: "frame_close t a = Some a' \<Longrightarrow> stalls a' = stalls a"
  unfolding frame_close_def by (auto elim!: bind_SomeE dest!: stalls_upd)

lemma frame_init_stalls: "frame_init K sz t a = Some (ok, a') \<Longrightarrow> stalls a' = stalls a"
  unfolding frame_init_def by (auto elim!: bind_SomeE dest!: stalls_upd)

lemma frame_init_ext_stalls: "frame_init_ext K sz addr t a = Some (ok, a') \<Longrightarrow> stalls a' = stalls a"
  unfolding frame_init_ext_def by (auto elim!: bind_SomeE dest!: stalls_upd)

lemma cursor_init_stalls: "cursor_init K sz t a = Some (ok, a') \<Longrightarrow> stalls a' = stalls a"
  unfolding cursor_init_def by (auto elim!: bind_SomeE dest!: stalls_upd)

lemma frame_memory_stalls: "frame_memory e sz addr t a = Some (ok, a') \<Longrightarrow> stalls a' = stalls a"
  unfolding frame_memory_def
  by (auto split: if_splits elim!: bind_SomeE dest!: frame_init_ext_stalls frame_init_stalls frame_close_stalls)

lemma attach_stalls: "gpu_object_attach e i ob w h st a = Some (ok, ob', a') \<Longrightarrow> stalls a' = stalls a"
  unfolding gpu_object_attach_def
  by (auto simp: Let_def split: if_splits elim!: bind_SomeE dest!: stalls_ctrl)

lemma flush_and_wait_stalls:
  "wait_keeps_stalls e \<Longrightarrow> flush_and_wait e i w h t a = Some a' \<Longrightarrow> stalls a' = stalls a"
  unfolding flush_and_wait_def wait_keeps_stalls_def
  by (auto simp: Let_def split: if_splits elim!: bind_SomeE dest!: stalls_ctrl stalls_upd)

lemma destroy_framebuffer_obj_stalls: "destroy_framebuffer_obj e t j r a = Some a' \<Longrightarrow> stalls a' = stalls a"
  unfolding destroy_framebuffer_obj_def
  by (auto simp: Let_def split: if_splits option.splits elim!: bind_SomeE dest!: stalls_ctrl stalls_put stalls_upd)

lemma destroy_cursor_stalls: "destroy_cursor e t a = Some a' \<Longrightarrow> stalls a' = stalls a"
  unfolding destroy_cursor_def
  by (auto simp: Let_def split: option.splits elim!: bind_SomeE dest!: stalls_ctrl stalls_put stalls_upd)

lemma flush_framebuffer_obj_stalls:
  assumes "wait_keeps_stalls e" "flush_framebuffer_obj e vm t cm a = Some (cm', a')"
  shows "stalls a' = stalls a"
  using assms(2) unfolding flush_framebuffer_obj_def
  by (auto simp: Let_def split: if_splits option.splits elim!: bind_SomeE
      dest!: stalls_ctrl flush_and_wait_stalls [OF assms(1)])

lemma set_framebuffer_obj_stall: "set_framebuffer_obj ob b s = Some s' \<Longrightarrow> m_FlushStallCount s' = m_FlushStallCount s"
  by (auto simp: set_framebuffer_obj_def elim!: bind_SomeE)

lemma stalls_set:
  assumes "set_framebuffer_obj ob b s = Some s'" "nth_opt (m_screen a) t = Some s" "upd_screen t (\<lambda>_. s') a = Some a'"
  shows "stalls a' = stalls a"
  using assms set_framebuffer_obj_stall [OF assms(1)]
  by (simp add: stalls_def upd_screen_Some map_update nth_opt_Some) (metis list_update_id length_map nth_map)

lemma create_tail_stalls:
  assumes "wait_keeps_stalls e" "create_tail e vm t b cm i ob a = Some (cm', a')"
  shows "stalls a' = stalls a"
proof -
  obtain att ob1 a4 a5 a6 s6 s7 where "gpu_object_attach e i ob (ucast (VisScreenWidth vm)) (ucast (VisScreenHeight vm))
      (ucast (cm_Stride cm)) a = Some (att, ob1, a4)"
    and a5: "stalls a5 = stalls a4"
    and "flush_and_wait e i (VisScreenWidth vm) (VisScreenHeight vm) t a5 = Some a6"
    and s7: "nth_opt (m_screen a6) t = Some s6" "set_framebuffer_obj ob1 b s6 = Some s7" "upd_screen t (\<lambda>_. s7) a6 = Some a'"
    using assms(2) unfolding create_tail_def
    by (auto simp: Let_def split: if_splits elim!: bind_SomeE dest: stalls_ctrl) (metis stalls_ctrl)+
  then show ?thesis
    using attach_stalls flush_and_wait_stalls [OF assms(1)] stalls_set [OF s7(2,1,3)] by metis
qed

lemma create_framebuffer_obj_stalls:
  assumes "wait_keeps_stalls e" "create_framebuffer_obj e vm t b cm a = Some (cm', a')"
  shows "stalls a' = stalls a"
  using assms(2) unfolding create_framebuffer_obj_split
  by (auto split: if_splits prod.splits elim!: bind_SomeE
      dest!: stalls_get stalls_ctrl stalls_put frame_memory_stalls create_tail_stalls [OF assms(1)])

lemma create_cursor_stalls: "create_cursor e ps cf a = Some (ok, a') \<Longrightarrow> stalls a' = stalls a"
  unfolding create_cursor_def
  by (auto simp: Let_def split: if_splits prod.splits elim!: bind_SomeE
      dest!: stalls_get stalls_ctrl cursor_init_stalls attach_stalls stalls_upd)

lemma send_cursor_stalls: "send_cursor e c a = Some (ok, a') \<Longrightarrow> stalls a' = stalls a"
  unfolding send_cursor_def by (auto split: if_splits elim!: bind_SomeE)

lemma flush_gate_ok:
  assumes "flush_gate sm s = (go, s')" "m_FlushStallCount s < FLUSH_STALL_LIMIT"
  shows "m_FlushStallCount s' < FLUSH_STALL_LIMIT
    \<and> (\<not> go \<longrightarrow> \<not> sm \<and> unat (m_FlushStallCount s') = Suc (unat (m_FlushStallCount s)))"
proof -
  have "unat (m_FlushStallCount s) < 60" using assms(2) by (simp add: FLUSH_STALL_LIMIT_def word_less_nat_alt)
  then have "unat (m_FlushStallCount s + 1) = Suc (unat (m_FlushStallCount s))"
    by (simp add: unat_word_ariths)
  then show ?thesis using assms
    by (auto simp: flush_gate_def Let_def FLUSH_STALL_LIMIT_def word_less_nat_alt word_le_nat_alt split: if_splits)
qed

lemma stalls_upd_screen: "upd_screen t f a = Some a' \<Longrightarrow> stalls a' = (stalls a)[t := m_FlushStallCount (f (m_screen a ! t))]"
  by (simp add: stalls_def upd_screen_Some map_update)

lemma present_frame_stalls:
  assumes "wait_keeps_stalls e" "present_frame e vm t cm a = Some (tk, cm', a')"
    and "flush_gate (cm_SetMode cm) (m_screen a ! t) = (go, s1)"
  shows "t < length (m_screen a) \<and> stalls a' = (stalls a)[t := m_FlushStallCount s1] \<and> tk = go"
proof -
  obtain a1 where t: "t < length (m_screen a)"
    and a1: "upd_screen t (\<lambda>_. s1) (a\<lparr>m_CurrentModeInfo := cm\<rparr>) = Some a1"
    and r: "if go then tk \<and> (\<exists>a2 a3. (a2 = a1 \<or> destroy_framebuffer_slot_obj e t Front False a1 = Some a2)
        \<and> ((upd_screen t (\<lambda>s. s\<lparr>m_FbSrcAddr := cm_FrameBuffer cm, m_FbWidth := di_Width (cm_DispInfo cm),
             m_FbHeight := di_Height (cm_DispInfo cm), m_FbStride := cm_Stride cm\<rparr>) a2 = Some a3
            \<and> create_framebuffer_obj e vm t Front cm a3 = Some (cm', a'))
          \<or> flush_framebuffer_obj e vm t cm a2 = Some (cm', a')))
      else \<not> tk \<and> a' = a1"
    using assms(2,3) unfolding present_frame_def
    by (fastforce simp: Let_def nth_opt_Some split: if_splits prod.splits elim!: bind_SomeE)
  have 1: "stalls a1 = (stalls a)[t := m_FlushStallCount s1]" using stalls_upd_screen [OF a1] by simp
  show ?thesis
  proof (cases go)
    case True
    then have "stalls a' = stalls a1"
      using r by (auto dest!: create_framebuffer_obj_stalls [OF assms(1)] flush_framebuffer_obj_stalls [OF assms(1)] stalls_upd
          destroy_framebuffer_obj_stalls elim!: bind_SomeE simp: destroy_framebuffer_slot_obj_def)
    then show ?thesis using 1 t r True by simp
  qed (use r t 1 in simp)
qed

lemma stalls_ok_upd: "stalls_ok a \<Longrightarrow> stalls a' = (stalls a)[t := n] \<Longrightarrow> n < FLUSH_STALL_LIMIT \<Longrightarrow> stalls_ok a'"
  unfolding stalls_ok_def by (metis insertE set_update_subset_insert subsetD)

lemma stalls_ok_eq: "stalls_ok a \<Longrightarrow> stalls a' = stalls a \<Longrightarrow> stalls_ok a'"
  by (simp add: stalls_ok_def)

lemma stalls_ok_nth: "stalls_ok a \<Longrightarrow> t < length (m_screen a) \<Longrightarrow> m_FlushStallCount (m_screen a ! t) < FLUSH_STALL_LIMIT"
  by (simp add: stalls_ok_def stalls_def)

lemma set_current_mode_ext_cases:
  assumes "set_current_mode_ext e cmo a = Some (st, tk, a')"
  obtains "a' = a" "\<not> tk"
  | cm vm cm' where "cmo = Some cm" "present_frame e vm (unat (di_TargetId (cm_DispInfo cm))) cm a = Some (tk, cm', a')"
  using assms unfolding set_current_mode_ext_def
  by (auto simp: Let_def split: option.splits elim!: bind_SomeE)

lemma frame_stalls_ok:
  assumes "wait_keeps_stalls e" "stalls_ok a" "set_current_mode_ext e cmo a = Some (st, tk, a')"
  shows "stalls_ok a'"
  using assms(3)
proof (cases rule: set_current_mode_ext_cases)
  case (2 cm vm cm')
  let ?t = "unat (di_TargetId (cm_DispInfo cm))"
  obtain go s1 where g: "flush_gate (cm_SetMode cm) (m_screen a ! ?t) = (go, s1)" by fastforce
  note p = present_frame_stalls [OF assms(1) 2(2) g]
  then have "m_FlushStallCount s1 < FLUSH_STALL_LIMIT" using flush_gate_ok [OF g stalls_ok_nth [OF assms(2)]] by blast
  then show ?thesis using stalls_ok_upd [OF assms(2)] p by blast
qed (use assms(2) in simp)

lemma release_stalls_ok:
  assumes "stalls_ok a" "release_frame_buffer e n a = Some (st, a')"
  shows "stalls_ok a'"
proof (cases "m_u32NumScanouts a \<le> n")
  case False
  obtain a1 a2 a3 where a1: "on_ctrl (set_scanout (e_send e) n 0 0 0 0 0) a = Some a1"
    and a2: "a2 = a1 \<or> destroy_framebuffer_slot_obj e (unat n) Front False a1 = Some a2"
    and a3: "frame_close (unat n) a2 = Some a3"
    and a4: "upd_screen (unat n) (\<lambda>s. s\<lparr>m_FbSrcAddr := 0, m_FbWidth := 0, m_FbHeight := 0, m_FbStride := 0,
          m_FlushCount := 0, m_FlushStallCount := 0\<rparr>) a3 = Some a'"
    using assms(2) False unfolding release_frame_buffer_def
    by (fastforce simp: Let_def elim!: bind_SomeE split: if_splits)
  have "stalls a3 = stalls a"
    using stalls_ctrl [OF a1] a2 frame_close_stalls [OF a3]
    by (auto dest!: destroy_framebuffer_obj_stalls elim!: bind_SomeE simp: destroy_framebuffer_slot_obj_def)
  then show ?thesis using stalls_upd_screen [OF a4]
    by (intro stalls_ok_upd [OF assms(1), of _ "unat n" 0]) (simp_all add: FLUSH_STALL_LIMIT_def)
qed (use assms in \<open>simp add: release_frame_buffer_def\<close>)

lemma adapter_step_stalls_ok:
  assumes "wait_keeps_stalls e" "adapter_step e a k a'" "stalls_ok a"
  shows "stalls_ok a'"
  using assms(2)
proof (cases rule: adapter_step.cases)
  case (frame cmo st tk)
  then show ?thesis using frame_stalls_ok [OF assms(1,3)] by blast
next
  case (release n st)
  then show ?thesis using release_stalls_ok [OF assms(3)] by blast
next
  case (blackout cm)
  then have "stalls a' = stalls a" unfolding black_out_screen_def
    by (auto simp: Let_def split: if_splits option.splits elim!: bind_SomeE dest!: stalls_ctrl flush_and_wait_stalls [OF assms(1)])
  then show ?thesis by (rule stalls_ok_eq [OF assms(3)])
next
  case (shape ps cf st)
  then have "stalls a' = stalls a" unfolding set_pointer_shape_def
    by (auto simp: Let_def split: if_splits elim!: bind_SomeE
        dest!: destroy_cursor_stalls create_cursor_stalls send_cursor_stalls)
  then show ?thesis by (rule stalls_ok_eq [OF assms(3)])
next
  case (position src x y st)
  then have "stalls a' = stalls a" unfolding set_pointer_position_def
    by (auto split: if_splits option.splits elim!: bind_SomeE dest!: send_cursor_stalls)
  then show ?thesis by (rule stalls_ok_eq [OF assms(3)])
next
  case teardown
  then have loop: "for_loop 0 (unat (m_u32NumScanouts a)) 1 (\<lambda>i a. do {
       a1 \<leftarrow> for_loop 0 FRAMEBUFFER_COUNT 1 (\<lambda>j a. destroy_framebuffer_obj e i j True a) a;
       destroy_cursor e i a1 }) a = Some a'" by (simp only: destroy_framebuffer_cursor_obj_ext_def)
  have inner: "for_loop 0 FRAMEBUFFER_COUNT 1 (\<lambda>j a. destroy_framebuffer_obj e i j True a) b = Some c \<Longrightarrow> stalls c = stalls b"
    for i b c
    by (erule for_loop_keeps [where I = "\<lambda>x. stalls x = stalls b"]) (auto dest!: destroy_framebuffer_obj_stalls)
  have "stalls a' = stalls a"
    by (rule for_loop_keeps [where I = "\<lambda>x. stalls x = stalls a", OF loop])
      (auto elim!: bind_SomeE dest!: inner [unfolded One_nat_def] destroy_cursor_stalls)
  then show ?thesis by (rule stalls_ok_eq [OF assms(3)])
next
  case device
  then have "stalls a' = stalls a" using assms(1) unfolding wait_keeps_stalls_def by blast
  then show ?thesis by (rule stalls_ok_eq [OF assms(3)])
qed

lemma adapter_run_stalls_ok:
  assumes "wait_keeps_stalls e" "adapter_run e a0 n a" "stalls_ok a0"
  shows "stalls_ok a"
  using assms(2,3) by (induction rule: adapter_run.induct) (auto dest: adapter_step_stalls_ok [OF assms(1)])

text \<open>Frames dropped one after the other on screen \<open>t\<close>; between two of them anything that does
  not touch its counter.\<close>
inductive drops :: "'q env \<Rightarrow> nat \<Rightarrow> 'q adapter \<Rightarrow> nat \<Rightarrow> 'q adapter \<Rightarrow> bool" for e t a0 where
  start: "drops e t a0 0 a0"
| drop: "drops e t a0 n a \<Longrightarrow> unat (di_TargetId (cm_DispInfo cm)) = t \<Longrightarrow>
    find_mode (m_screen a ! t) (cm_DispInfo cm) 0 = Some (Some vm) \<Longrightarrow>
    set_current_mode_ext e (Some cm) a = Some (st, False, a') \<Longrightarrow> drops e t a0 (Suc n) a'"
| other: "drops e t a0 n a \<Longrightarrow> m_FlushStallCount (m_screen a' ! t) = m_FlushStallCount (m_screen a ! t) \<Longrightarrow>
    length (m_screen a') = length (m_screen a) \<Longrightarrow> drops e t a0 n a'"

lemma drops_count:
  assumes "wait_keeps_stalls e" "drops e t a0 n a" "m_FlushStallCount (m_screen a0 ! t) < FLUSH_STALL_LIMIT"
  shows "unat (m_FlushStallCount (m_screen a ! t)) = n + unat (m_FlushStallCount (m_screen a0 ! t))
    \<and> m_FlushStallCount (m_screen a ! t) < FLUSH_STALL_LIMIT"
  using assms(2,3)
proof (induction rule: drops.induct)
  case (drop n a cm vm st a')
  obtain go s1 where g: "flush_gate (cm_SetMode cm) (m_screen a ! t) = (go, s1)" by fastforce
  obtain cm' where p: "present_frame e vm t cm a = Some (False, cm', a')"
    using drop.hyps(2-4) by (auto simp: set_current_mode_ext_def Let_def nth_opt_Some elim!: bind_SomeE)
  note q = present_frame_stalls [OF assms(1) p g]
  have "length (stalls a') = length (stalls a)" using q by simp
  then have t: "t < length (m_screen a')" using q by (simp add: stalls_def)
  have "t < length (stalls a)" using q by (simp add: stalls_def)
  then have "stalls a' ! t = m_FlushStallCount s1" using q by simp
  then have "m_FlushStallCount (m_screen a' ! t) = m_FlushStallCount s1" using t by (simp add: stalls_def)
  then show ?case using flush_gate_ok [OF g] drop.IH drop.prems q by simp
qed simp_all

text \<open>C10: (frames, liveness) A screen never stops: at most 59 frames in a row are dropped, whether or
  not the device ever completes the flush they wait for, from any state the adapter reaches; and a frame that
  comes with a mode change is never dropped.\<close>
theorem frames_get_through:
  assumes "wait_keeps_stalls e" "stalls_ok a0" "adapter_run e a0 k a" "t < length (m_screen a)"
  shows "(drops e t a n b \<longrightarrow> n \<le> 59)
    \<and> (cm_SetMode cm \<longrightarrow> present_frame e vm t cm a = Some (tk, cm', a') \<longrightarrow> tk)"
proof -
  have ok: "m_FlushStallCount (m_screen a ! t) < FLUSH_STALL_LIMIT"
    using adapter_run_stalls_ok [OF assms(1,3,2)] assms(4) by (rule stalls_ok_nth)
  have "n \<le> 59" if "drops e t a n b"
    using drops_count [OF assms(1) that ok] by (simp add: FLUSH_STALL_LIMIT_def word_less_nat_alt)
  moreover have tk if sm: "cm_SetMode cm" and p: "present_frame e vm t cm a = Some (tk, cm', a')"
  proof -
    obtain go s1 where g: "flush_gate (cm_SetMode cm) (m_screen a ! t) = (go, s1)" by fastforce
    then show ?thesis using present_frame_stalls [OF assms(1) p g] flush_gate_ok [OF g ok] sm by simp
  qed
  ultimately show ?thesis by blast
qed

text \<open>The adapter with a flush that never completes.\<close>
definition stuck_adapter :: "gpu_cmd list adapter" where
  "stuck_adapter = (demo_adapter True)\<lparr>m_screen := [demo_screen\<lparr>m_FlushCount := 1\<rparr>]\<rparr>"

lemma stuck_drop: "\<exists>a. set_current_mode_ext (demo_env True) (Some (demo_mode 0x5000)) stuck_adapter =
    Some (StatusSuccess, False, a)"
  by (simp add: set_current_mode_ext_def demo_mode_def Let_def stuck_adapter_def demo_adapter_def demo_screen_def
      find_mode.simps is_same_mode_def present_frame_def flush_gate_def FLUSH_STALL_LIMIT_def new_screen_def
      upd_screen_def word_le_nat_alt)

theorem frames_get_through_witness:
  "\<exists>b. drops (demo_env True) 0 stuck_adapter 1 b \<and> \<not> (\<exists>c. drops (demo_env True) 0 stuck_adapter 60 c)"
proof -
  obtain a where a: "set_current_mode_ext (demo_env True) (Some (demo_mode 0x5000)) stuck_adapter =
    Some (StatusSuccess, False, a)" using stuck_drop by blast
  have f: "find_mode (m_screen stuck_adapter ! 0) (cm_DispInfo (demo_mode 0x5000)) 0 =
      Some (Some \<lparr>ModeIndex = 0, VisScreenWidth = 1, VisScreenHeight = 1\<rparr>)"
    by (simp add: demo_mode_def stuck_adapter_def demo_screen_def find_mode.simps is_same_mode_def)
  have d: "drops (demo_env True) 0 stuck_adapter 1 a"
    using drops.drop [OF drops.start _ f a] by (simp add: demo_mode_def)
  have w: "wait_keeps_stalls (demo_env True)" by (simp add: wait_keeps_stalls_def demo_env_def)
  have s: "stalls_ok stuck_adapter"
    by (simp add: stalls_ok_def stalls_def stuck_adapter_def demo_screen_def new_screen_def FLUSH_STALL_LIMIT_def)
  have l: "0 < length (m_screen stuck_adapter)" by (simp add: stuck_adapter_def)
  have "\<not> drops (demo_env True) 0 stuck_adapter 60 c" for c
    using frames_get_through [OF w s adapter_run.start l, of 60 c] by auto
  then show ?thesis using d by blast
qed

end
