(* ===== verification/GpuScreenProps.thy ===== *)
theory GpuScreenProps
  imports GpuScreen
begin

text \<open>
  What the table of video modes holds: the modes of the list up to its first small entry
  that are large enough for the display, and two places for the resolution of the host.
\<close>

section \<open>The table as a function of the list\<close>

definition usable :: "gpu_disp_mode_ext \<Rightarrow> bool" where
  "usable m \<longleftrightarrow> 640 \<le> unat (XResolution m) \<and> 480 \<le> unat (YResolution m)"

definition fits :: "disp_info \<Rightarrow> gpu_disp_mode_ext \<Rightarrow> bool" where
  "fits d m \<longleftrightarrow> di_Width d \<le> ucast (XResolution m) \<and> di_Height d \<le> ucast (YResolution m)"

definition nominal :: "gpu_disp_mode_ext \<Rightarrow> bool" where
  "nominal m \<longleftrightarrow> unat (XResolution m) = 1024 \<and> unat (YResolution m) = 768"

definition kept_modes :: "disp_info \<Rightarrow> gpu_disp_mode_ext list \<Rightarrow> gpu_disp_mode_ext list" where
  "kept_modes d ms = filter (fits d) (takeWhile usable ms)"

definition mode_entry :: "nat \<Rightarrow> gpu_disp_mode_ext \<Rightarrow> video_mode" where
  "mode_entry i m = \<lparr>ModeIndex = of_nat i, VisScreenWidth = ucast (XResolution m),
     VisScreenHeight = ucast (YResolution m)\<rparr>"

definition mode_entries :: "gpu_disp_mode_ext list \<Rightarrow> video_mode list" where
  "mode_entries ms = map (\<lambda>i. mode_entry i (ms ! i)) [0..<length ms]"

text \<open>The last mode of 1024 by 768, else the first.\<close>
fun preferred :: "nat \<Rightarrow> nat \<Rightarrow> gpu_disp_mode_ext list \<Rightarrow> nat" where
  "preferred c i [] = c"
| "preferred c i (m # ms) = preferred (if nominal m then i else c) (Suc i) ms"

lemma preferred_snoc:
  "preferred c i (ms @ [m]) = (if nominal m then i + length ms else preferred c i ms)"
  by (induction ms arbitrary: c i) auto

lemma preferred_bound: "preferred 0 0 ms \<le> length ms"
  by (induction ms rule: rev_induct) (auto simp: preferred_snoc)

lemma preferred_less: "ms \<noteq> [] \<Longrightarrow> preferred 0 0 ms < length ms"
proof (induction ms rule: rev_induct)
  case Nil
  then show ?case by simp
next
  case (snoc m ms)
  then show ?case by (cases "ms = []") (auto simp: preferred_snoc)
qed

lemma length_mode_entries [simp]: "length (mode_entries ms) = length ms"
  by (simp add: mode_entries_def)

lemma mode_entries_snoc: "mode_entries (ms @ [m]) = mode_entries ms @ [mode_entry (length ms) m]"
  by (simp add: mode_entries_def nth_append)

lemma count_modes_ok:
  assumes "length ms = 128" "k \<le> 128"
  shows "count_modes ms k = Some (k + length (takeWhile usable (drop k ms)))"
  using assms
proof (induction "128 - k" arbitrary: k)
  case 0
  then show ?case by (subst count_modes.simps) (simp add: MAX_MODELIST_SIZE_def)
next
  case (Suc n)
  then have k: "k < 128" "drop k ms = ms ! k # drop (Suc k) ms" by (simp_all add: Cons_nth_drop_Suc)
  have IH: "count_modes ms (Suc k) = Some (Suc k + length (takeWhile usable (drop (Suc k) ms)))"
    using Suc by simp
  show ?case
  proof (cases "usable (ms ! k)")
    case True
    then show ?thesis using k IH assms(1)
      by (subst count_modes.simps) (simp add: screen_consts usable_def)
  next
    case False
    then have "\<not> (640 \<le> unat (XResolution (ms ! k)) \<and> 480 \<le> unat (YResolution (ms ! k)))"
      by (simp add: usable_def)
    then show ?thesis using k assms(1) False
      by (subst count_modes.simps) (auto simp: screen_consts)
  qed
qed

text \<open>The state of the loop over the first \<^verbatim>\<open>i\<close> modes.\<close>
definition table_state :: "nat \<Rightarrow> gpu_disp_mode_ext list \<Rightarrow> screen \<Rightarrow> screen" where
  "table_state tot F s = s\<lparr>
     m_ModeInfo := Some (mode_entries F @ replicate (tot - length F) zero_video_mode),
     m_ModeNumbers := Some (map of_nat [0..<length F] @ replicate (tot - length F) 0),
     m_CurrentMode := of_nat (preferred 0 0 F)\<rparr>"

lemma replicate_less: "k < c \<Longrightarrow> replicate (c - k) x = x # replicate (c - Suc k) x"
  by (metis Suc_diff_Suc replicate_Suc)

lemma keep_mode_step:
  assumes "i < length (disp_mode_ext s)" "length F < tot"
  shows "keep_mode d i (length F, table_state tot F s) =
    (let m = disp_mode_ext s ! i in
     Some (if fits d m then (length F + 1, table_state tot (F @ [m]) s)
           else (length F, table_state tot F s)))"
proof -
  have r: "(mode_entries F @ replicate (tot - length F) zero_video_mode)[length F := e]
      = mode_entries F @ e # replicate (tot - Suc (length F)) zero_video_mode" for e
    using assms(2) by (simp add: replicate_less list_update_append)
  have n: "(map of_nat [0..<length F] @ replicate (tot - length F) 0)[length F := x]
      = map of_nat [0..<length F] @ x # replicate (tot - Suc (length F)) (0::u16)" for x
    using assms(2) by (simp add: replicate_less list_update_append)
  show ?thesis
    using assms
    by (auto simp: keep_mode_def table_state_def fits_def Let_def set_video_mode_info_def r n
        mode_entries_snoc mode_entry_def preferred_snoc nominal_def screen_consts)
qed

lemma keep_modes_loop:
  assumes "n \<le> length (disp_mode_ext s)" "n < tot"
  shows "for_loop 0 n 1 (keep_mode d) (0, table_state tot [] s) =
    (let F = filter (fits d) (take n (disp_mode_ext s)) in Some (length F, table_state tot F s))"
proof -
  let ?F = "\<lambda>i. filter (fits d) (take i (disp_mode_ext s))"
  have len: "length (?F i) \<le> i" for i
    using length_filter_le [of "fits d" "take i (disp_mode_ext s)"] by simp
  have "\<exists>st. for_loop 0 n 1 (keep_mode d) (0, table_state tot [] s) = Some st
      \<and> st = (length (?F n), table_state tot (?F n) s)"
  proof (rule for_loop_inv [where I = "\<lambda>i st. st = (length (?F i), table_state tot (?F i) s)"])
    fix i st
    assume i: "0 \<le> i" "i < n" and st: "st = (length (?F i), table_state tot (?F i) s)"
    have "length (?F i) < tot" using len [of i] i assms(2) by simp
    then show "\<exists>s'. keep_mode d i st = Some s' \<and> s' = (length (?F (Suc i)), table_state tot (?F (Suc i)) s)"
      using i assms(1) by (simp add: st keep_mode_step Let_def take_Suc_conv_app_nth)
  qed auto
  then show ?thesis by (simp add: Let_def)
qed

text \<open>The two custom entries.\<close>
lemma custom_entries:
  assumes "length F + 2 \<le> tot" "length F < 65536"
  defines "mi \<equiv> mode_entries F @ replicate (tot - length F) zero_video_mode"
  defines "c \<equiv> mi ! preferred 0 0 F"
  shows "for_loop (length F) (length F + 2) 1 custom_entry ((table_state tot F s)\<lparr>m_CustomMode := x\<rparr>) =
    Some (s\<lparr>m_ModeInfo := Some (mode_entries F @ [c, c] @ replicate (tot - length F - 2) zero_video_mode),
      m_ModeNumbers := Some (map of_nat [0..<length F + 2] @ replicate (tot - length F - 2) 0),
      m_CurrentMode := of_nat (preferred 0 0 F), m_CustomMode := x\<rparr>)"
proof -
  obtain k where "tot = length F + 2 + k" using le_Suc_ex [OF assms(1)] by blast
  then have k: "tot = length F + Suc (Suc k)" by simp
  have p: "preferred 0 0 F \<le> length F" by (rule preferred_bound)
  then have u: "unat (of_nat (preferred 0 0 F) :: u16) = preferred 0 0 F"
    using assms(2) by (intro unat_of_nat_less) simp
  have mi: "mi = mode_entries F @ zero_video_mode # zero_video_mode # replicate k zero_video_mode"
    by (simp add: mi_def k)
  have c1: "mi ! preferred 0 0 F = c" by (simp only: c_def)
  have c2: "(mode_entries F @ c # zero_video_mode # replicate k zero_video_mode) ! preferred 0 0 F = c"
  proof (cases "preferred 0 0 F < length F")
    case True
    then show ?thesis using c1 unfolding mi by (simp add: nth_append)
  next
    case False
    then have "preferred 0 0 F = length F" using p by simp
    then show ?thesis by (simp add: nth_append)
  qed
  let ?s1 = "s\<lparr>m_ModeInfo := Some (mode_entries F @ c # zero_video_mode # replicate k zero_video_mode),
      m_ModeNumbers := Some (map of_nat [0..<length F] @ of_nat (length F) # 0 # replicate k 0),
      m_CurrentMode := of_nat (preferred 0 0 F), m_CustomMode := x\<rparr>"
  have 1: "custom_entry (length F) ((table_state tot F s)\<lparr>m_CustomMode := x\<rparr>) = Some ?s1"
    using p c1 unfolding mi
    by (simp add: custom_entry_def table_state_def k u nth_opt_def list_update_append)
  have 2: "custom_entry (Suc (length F)) ?s1 =
      Some (s\<lparr>m_ModeInfo := Some (mode_entries F @ c # c # replicate k zero_video_mode),
      m_ModeNumbers := Some (map of_nat [0..<length F] @ of_nat (length F) # of_nat (Suc (length F)) # replicate k 0),
      m_CurrentMode := of_nat (preferred 0 0 F), m_CustomMode := x\<rparr>)"
    using p c2 by (simp add: custom_entry_def u nth_opt_def list_update_append)
  show ?thesis
    by (subst for_loop.simps, simp add: 1, subst for_loop.simps, simp add: 2, subst for_loop.simps)
       (simp add: k)
qed

lemma length_kept: "length (kept_modes d ms) \<le> length (takeWhile usable ms)"
  by (simp add: kept_modes_def)

lemma build_mode_table_eq:
  fixes d :: disp_info and s :: screen
  assumes "length (disp_mode_ext s) = 128"
  defines "d' \<equiv> clamp_disp_info d"
  defines "F \<equiv> kept_modes d' (disp_mode_ext s)"
  defines "rest \<equiv> length (takeWhile usable (disp_mode_ext s)) - length F"
  defines "c \<equiv> (if F = [] then zero_video_mode else mode_entry (preferred 0 0 F) (F ! preferred 0 0 F))"
  shows "build_mode_table True True d s = Some (if F = [] then ModesNone else ModesOk, d',
    s\<lparr>m_ModeInfo := Some (mode_entries F @ [c, c] @ replicate rest zero_video_mode),
      m_ModeNumbers := Some (map of_nat [0..<length F + 2] @ replicate rest 0),
      m_CurrentMode := of_nat (preferred 0 0 F), m_CustomMode := of_nat (length F),
      m_ModeCount := of_nat (length F) + 2\<rparr>)"
proof -
  define n where "n = length (takeWhile usable (disp_mode_ext s))"
  have n: "n \<le> 128" unfolding n_def using length_takeWhile_le [of usable "disp_mode_ext s"] assms(1) by simp
  have c0: "count_modes (disp_mode_ext s) 0 = Some n"
    using count_modes_ok [of "disp_mode_ext s" 0] assms(1) by (simp add: n_def)
  have tk: "take n (disp_mode_ext s) = takeWhile usable (disp_mode_ext s)"
    unfolding n_def by (rule takeWhile_eq_take [symmetric])
  have Fn: "F = filter (fits d') (take n (disp_mode_ext s))"
    unfolding F_def kept_modes_def tk ..
  have lF: "length F \<le> n" unfolding F_def n_def by (rule length_kept)
  have loop: "for_loop 0 n 1 (keep_mode d') (0, table_state (n + 2) [] s) = Some (length F, table_state (n + 2) F s)"
    using keep_modes_loop [of n s "n + 2" d'] n assms(1) by (simp add: Fn Let_def)
  have c: "(mode_entries F @ replicate (n + 2 - length F) zero_video_mode) ! preferred 0 0 F = c"
  proof (cases "F = []")
    case True
    then show ?thesis by (simp add: c_def mode_entries_def)
  next
    case False
    then show ?thesis using preferred_less [OF False]
      by (simp add: c_def nth_append) (simp add: mode_entries_def)
  qed
  have ce: "for_loop (length F) (length F + 2) 1 custom_entry ((table_state (n + 2) F s)\<lparr>m_CustomMode := of_nat (length F)\<rparr>) =
    Some (s\<lparr>m_ModeInfo := Some (mode_entries F @ [c, c] @ replicate (n + 2 - length F - 2) zero_video_mode),
      m_ModeNumbers := Some (map of_nat [0..<length F + 2] @ replicate (n + 2 - length F - 2) 0),
      m_CurrentMode := of_nat (preferred 0 0 F), m_CustomMode := of_nat (length F)\<rparr>)"
    using custom_entries [of F "n + 2" "of_nat (length F)" s] lF n unfolding c by simp
  have r: "n + 2 - length F - 2 = rest" unfolding rest_def n_def [symmetric] by simp
  have z: "length F = 0 \<longleftrightarrow> F = []" by simp
  have "build_mode_table True True d s = do {
      (suit, s3) \<leftarrow> for_loop 0 n 1 (keep_mode d') (0, table_state (n + 2) [] s);
      s5 \<leftarrow> for_loop suit (suit + 2) 1 custom_entry (s3\<lparr>m_CustomMode := of_nat suit\<rparr>);
      Some (if suit = 0 then ModesNone else ModesOk, d', s5\<lparr>m_ModeCount := of_nat suit + 2\<rparr>) }"
    by (simp add: build_mode_table_def c0 table_state_def mode_entries_def d'_def Let_def)
  then show ?thesis unfolding loop by (simp only: bind.bind_lunit prod.case ce r z)
qed

section \<open>The list from identification data\<close>

definition mode_ext_of :: "edid_qemu_modes \<Rightarrow> gpu_disp_mode_ext" where
  "mode_ext_of m = \<lparr>XResolution = ucast (mode_width m), YResolution = ucast (mode_height m),
     refresh = refresh_rate m\<rparr>"

lemma store_loop:
  assumes "n \<le> length (disp_mode_ext s)"
    and "\<And>i s'. i < n \<Longrightarrow> mode_list s' = mode_list s \<Longrightarrow> f i s' = store_mode i (g i) s'"
  shows "for_loop 0 n 1 f s = Some (s\<lparr>disp_mode_ext := map g [0..<n] @ drop n (disp_mode_ext s)\<rparr>)"
proof -
  let ?s = "\<lambda>i. s\<lparr>disp_mode_ext := map g [0..<i] @ drop i (disp_mode_ext s)\<rparr>"
  have "\<exists>s'. for_loop 0 n 1 f s = Some s' \<and> s' = ?s n"
  proof (rule for_loop_inv [where I = "\<lambda>i s'. s' = ?s i"])
    fix i s' assume i: "0 \<le> i" "i < n" and s': "s' = ?s i"
    have d: "drop i (disp_mode_ext s) = disp_mode_ext s ! i # drop (Suc i) (disp_mode_ext s)"
      using i assms(1) by (simp add: Cons_nth_drop_Suc)
    have "f i s' = store_mode i (g i) s'" using assms(2) [OF i(2)] s' by simp
    then show "\<exists>s2. f i s' = Some s2 \<and> s2 = ?s (Suc i)"
      using i assms(1) by (simp add: s' store_mode_def d list_update_append)
  qed auto
  then show ?thesis by simp
qed

lemma add_edid_modes_ok:
  assumes "length (disp_mode_ext s) = 128" "length edid = 256" "mode_list s = empty_modelist"
    "take 8 edid = g_edid_header" "256 dvd (\<Sum>b\<leftarrow>take 128 edid. uint b)"
    "256 dvd (\<Sum>b\<leftarrow>drop 128 edid. uint b)"
  shows "\<exists>l. add_edid_modes edid s = Some (s\<lparr>mode_list := l, disp_mode_ext :=
      map mode_ext_of (take 32 (edid_modes edid))
      @ drop (min 32 (length (edid_modes edid))) (disp_mode_ext s)\<rparr>)"
proof -
  have ok: "modes_ok (Some empty_modelist)"
    by (simp add: modes_ok_def empty_modelist_def OUTPUT_MODELIST_SIZE_def)
  have p: "parse_edid_data edid (Some empty_modelist) = Some (0, add_modes (edid_modes edid) (Some empty_modelist))"
    using parse_cases [OF assms(2) ok] assms(4-6) by auto
  define n where "n = min 32 (length (edid_modes edid))"
  obtain l where l: "add_modes (edid_modes edid) (Some empty_modelist) = Some l"
    "length (modelist l) = 32" "unat (modelist_size l) = n" "take n (modelist l) = take 32 (edid_modes edid)"
    using nth_add_modes [OF ok, of "edid_modes edid"] by (auto simp: empty_modelist_def n_def)
  have n: "n \<le> 32" by (simp add: n_def)
  have g: "map (\<lambda>i. mode_ext_of (modelist l ! i)) [0..<n] = map mode_ext_of (take 32 (edid_modes edid))"
    unfolding l(4) [symmetric] using n l(2) by (intro nth_equalityI) auto
  have "for_loop 0 n 1 (\<lambda>i s. do {
         m \<leftarrow> nth_opt (modelist (mode_list s)) i;
         store_mode i \<lparr>XResolution = ucast (mode_width m), YResolution = ucast (mode_height m),
           refresh = refresh_rate m\<rparr> s }) (s\<lparr>mode_list := l\<rparr>)
      = Some (s\<lparr>mode_list := l, disp_mode_ext :=
          map (\<lambda>i. mode_ext_of (modelist l ! i)) [0..<n] @ drop n (disp_mode_ext s)\<rparr>)"
    using n l(2) assms(1) by (subst store_loop) (auto simp: mode_ext_of_def)
  then show ?thesis
    using n unfolding g
    by (intro exI [of _ l])
       (simp add: add_edid_modes_def assms(3) p l(1,3) Let_def OUTPUT_MODELIST_SIZE_def n_def [symmetric])
qed

lemma set_video_mode_info_ok:
  assumes "m_ModeInfo s = Some mi" "i < length mi"
  shows "set_video_mode_info i m s = Some (s\<lparr>m_ModeInfo := Some (mi[i := mode_entry i m])\<rparr>)"
  using assms by (simp add: set_video_mode_info_def mode_entry_def)

text \<open>The resolution the host reports, not below the minimum.\<close>
definition custom_mode :: "u16 \<Rightarrow> u16 \<Rightarrow> gpu_disp_mode_ext" where
  "custom_mode x y = \<lparr>XResolution = max 640 x, YResolution = max 480 y, refresh = 0\<rparr>"

lemma ucast_of_nat_u16: "k < 65536 \<Longrightarrow> (ucast (of_nat k :: u32) :: u16) = of_nat k"
  by (simp add: word_unat_eq_iff unat_ucast_u32_u16 unat_of_nat_less)

lemma set_custom_display_ok:
  assumes "m_ModeInfo s = Some mi" "m_ModeCount s = of_nat (n + 2)" "n + 2 \<le> length mi" "n < 65000"
  defines "k \<equiv> (if unat (m_CustomMode s) = n + 1 then n else n + 1)"
  shows "set_custom_display x y s = Some (s\<lparr>m_CustomMode := of_nat k,
    m_ModeInfo := Some (mi[k := mode_entry k (custom_mode x y)])\<rparr>)"
proof -
  have s1: "(m_ModeCount s - 1 :: u32) = of_nat (n + 1)" "(m_ModeCount s - 2 :: u32) = of_nat n"
    using assms(2) by simp_all
  have u: "unat (of_nat (n + 1) :: u32) = n + 1" using assms(4) by (intro unat_of_nat_less) simp
  have eq: "(ucast (m_CustomMode s) :: u32) = of_nat (n + 1) \<longleftrightarrow> unat (m_CustomMode s) = n + 1"
    using u unat_ucast_u16_u32 [of "m_CustomMode s"] by (metis word_unat_eq_iff)
  have ck: "(ucast (if (ucast (m_CustomMode s) :: u32) = m_ModeCount s - 1
       then m_ModeCount s - 2 else m_ModeCount s - 1) :: u16) = of_nat k"
    unfolding s1 eq k_def using assms(4)
    by (cases "unat (m_CustomMode s) = n + 1")
       (simp_all only: simp_thms if_True if_False, (rule ucast_of_nat_u16, simp)+)
  have kb: "k \<le> n + 1" by (simp add: k_def)
  then have k: "unat (of_nat k :: u16) = k" "k < length mi"
    using assms(3,4) by (auto intro: unat_of_nat_less)
  show ?thesis
    using set_video_mode_info_ok [of "s\<lparr>m_CustomMode := of_nat k\<rparr>" mi k "custom_mode x y"] assms(1) k
    by (simp add: set_custom_display_def Let_def ck custom_mode_def MIN_WIDTH_SIZE_def MIN_HEIGHT_SIZE_def)
qed

section \<open>Properties\<close>

text \<open>C30: (mode table) Building the table of a screen is defined for every list of 128 modes and
  gives, in order and each once: the modes before the first one below 640 by 480 that are
  at least as large as the display, then two copies of the preferred one, which is the last of
  1024 by 768 or else the first. The arrays are filled inside their bounds, the count of
  modes is right, and the status is a failure exactly when no mode is kept.\<close>
theorem build_mode_table_contents:
  assumes "length (disp_mode_ext s) = 128"
  shows "\<exists>st d' s'. build_mode_table True True d s = Some (st, d', s')
    \<and> (let F = kept_modes d' (disp_mode_ext s);
           c = (if F = [] then zero_video_mode else mode_entry (preferred 0 0 F) (F ! preferred 0 0 F)) in
       take (length F + 2) (the (m_ModeInfo s')) = mode_entries F @ [c, c] \<and> m_ModeCount s' = of_nat (length F + 2)
       \<and> (st = ModesNone \<longleftrightarrow> F = []) \<and> st \<noteq> ModesNoMemory \<and> length F \<le> 128
       \<and> m_CurrentMode s' = of_nat (preferred 0 0 F)
       \<and> map unat (take (length F + 2) (the (m_ModeNumbers s'))) = [0..<length F + 2])"
proof -
  let ?F = "kept_modes (clamp_disp_info d) (disp_mode_ext s)"
  have l: "length ?F \<le> 128"
    using length_kept [of "clamp_disp_info d" "disp_mode_ext s"]
      length_takeWhile_le [of usable "disp_mode_ext s"] assms by simp
  have u: "map unat (map (of_nat :: nat \<Rightarrow> u16) [0..<length ?F + 2]) = [0..<length ?F + 2]"
    using l by (intro nth_equalityI) (auto intro!: unat_of_nat_less simp del: upt_Suc)
  show ?thesis
    unfolding build_mode_table_eq [OF assms]
    by (intro exI conjI, rule refl) (use l u in \<open>simp add: Let_def del: upt_Suc map_map\<close>)
qed

text \<open>Three modes, the second below the minimum.\<close>
definition sample_screen :: screen where
  "sample_screen = (new_screen [])\<lparr>disp_mode_ext :=
     [\<lparr>XResolution = 1920, YResolution = 1080, refresh = 60000000\<rparr>,
      \<lparr>XResolution = 720, YResolution = 400, refresh = 70000000\<rparr>,
      \<lparr>XResolution = 1024, YResolution = 768, refresh = 60000000\<rparr>] @ replicate 125 zero_mode_ext\<rparr>"

definition sample_display :: disp_info where
  "sample_display = \<lparr>di_Width = 1024, di_Height = 768, di_Pitch = 4096, di_ColorFormat = 22, di_TargetId = 0\<rparr>"

theorem build_mode_table_contents_witness:
  "\<exists>st d' s'. build_mode_table True True sample_display sample_screen = Some (st, d', s')
    \<and> st \<noteq> ModesNoMemory"
  using build_mode_table_contents [of sample_screen sample_display]
  by (auto simp: sample_screen_def Let_def)

lemma first_byte_modes:
  assumes "j < 8"
  shows "mode_width (timing_bitmap_modelist ! j) \<le> 800 \<and>
    (j = 6 \<or> j = 7 \<longrightarrow> mode_height (timing_bitmap_modelist ! j) = 400)"
proof -
  have "j \<in> {0, 1, 2, 3, 4, 5, 6, 7}" using assms by auto
  then show ?thesis by (elim insertE emptyE) (simp_all add: timing_bitmap_modelist_def)
qed

text \<open>(mode table, identification data) Data that is valid but offers an established timing of
  720 by 400 (bits 6 and 7 of byte 35, the VGA text mode) leaves the screen without a
  video mode: that entry ends the scan of the list, and only modes of at most 800 by 600
  come before it. All the other timings of the display are lost.\<close>
theorem text_mode_hides_all_modes:
  assumes "length (disp_mode_ext s) = 128" and "length edid = 256" and "mode_list s = empty_modelist"
    and "take 8 edid = g_edid_header" and "256 dvd (\<Sum>b\<leftarrow>take 128 edid. uint b)"
    and "256 dvd (\<Sum>b\<leftarrow>drop 128 edid. uint b)"
    and "bit (edid ! 35) 6 \<or> bit (edid ! 35) 7" and "1024 \<le> di_Width d"
  shows "\<exists>s1 d' s2. add_edid_modes edid s = Some s1
    \<and> build_mode_table True True d s1 = Some (ModesNone, d', s2) \<and> m_ModeCount s2 = 2"
proof -
  define F where "F = bitmap_modes timing_bitmap_modelist 0 (edid ! 35) [0..<8]"
  obtain R where R: "edid_modes edid = F @ R" by (simp add: edid_modes_def timing_modes_def F_def)
  have Fset: "set F = {timing_bitmap_modelist ! j | j. j < 8 \<and> bit (edid ! 35) j}"
    by (auto simp: F_def bitmap_modes_def)
  have lF: "length F \<le> 8"
  proof -
    have "length (bitmap_modes timing_bitmap_modelist 0 (edid ! 35) js) \<le> length js" for js
      by (induction js) (auto simp: bitmap_modes_def)
    from this [of "[0..<8]"] show ?thesis by (simp add: F_def)
  qed
  obtain l where l: "add_edid_modes edid s = Some (s\<lparr>mode_list := l, disp_mode_ext :=
      map mode_ext_of (take 32 (edid_modes edid)) @ drop (min 32 (length (edid_modes edid))) (disp_mode_ext s)\<rparr>)"
    using add_edid_modes_ok [OF assms(1-6)] by blast
  define E where "E = map mode_ext_of (take 32 (edid_modes edid)) @ drop (min 32 (length (edid_modes edid))) (disp_mode_ext s)"
  have "take 32 (F @ R) = F @ take (32 - length F) R" using lF by simp
  then obtain R2 where E: "E = map mode_ext_of F @ R2" unfolding E_def R by simp
  have lE: "length E = 128" using assms(1) by (simp add: E_def)
  obtain j where j: "j = 6 \<or> j = 7" "bit (edid ! 35) j" using assms(7) by blast
  then have mem: "mode_ext_of (timing_bitmap_modelist ! j) \<in> set (map mode_ext_of F)"
    unfolding set_map Fset by (intro imageI CollectI exI [of _ j]) auto
  have "\<not> usable (mode_ext_of (timing_bitmap_modelist ! j))"
    using first_byte_modes [of j] j by (auto simp: usable_def mode_ext_of_def)
  then have tw: "takeWhile usable E = takeWhile usable (map mode_ext_of F)"
    unfolding E by (rule takeWhile_append1 [OF mem])
  have small: "\<not> fits (clamp_disp_info d) m" if "m \<in> set (takeWhile usable E)" for m
  proof -
    have "m \<in> set (map mode_ext_of F)" using that set_takeWhileD unfolding tw by fastforce
    then obtain i where i: "i < 8" "m = mode_ext_of (timing_bitmap_modelist ! i)"
      unfolding set_map Fset by auto
    have w: "unat (mode_width (timing_bitmap_modelist ! i)) \<le> 800"
      using first_byte_modes [OF i(1)] by (simp add: word_le_nat_alt)
    have "unat (ucast (ucast (mode_width (timing_bitmap_modelist ! i)) :: u16) :: u32) \<le> 800"
      using w by (simp add: unat_ucast_u16_u32 unat_ucast_u32_u16)
    moreover have "1024 \<le> unat (di_Width (clamp_disp_info d))"
    proof -
      have "di_Width d \<le> di_Width (clamp_disp_info d)" by (simp add: clamp_disp_info_def Let_def)
      then have "(1024 :: u32) \<le> di_Width (clamp_disp_info d)" using assms(8) by simp
      then show ?thesis by (simp add: word_le_nat_alt)
    qed
    ultimately show ?thesis by (simp add: fits_def i(2) mode_ext_of_def word_le_nat_alt)
  qed
  then have "kept_modes (clamp_disp_info d) E = []" by (simp add: kept_modes_def filter_empty_conv)
  then show ?thesis
    unfolding l using build_mode_table_eq [of "s\<lparr>mode_list := l, disp_mode_ext := E\<rparr>" d] lE
    by (simp add: E_def [symmetric])
qed

text \<open>Established timings 640 by 480 and 720 by 400 with otherwise unused standard timings.\<close>
definition text_mode_edid :: "u8 list" where
  "text_mode_edid = g_edid_header @ replicate 27 0 @ [0xA0, 0, 0] @ replicate 16 1 @ replicate 73 0
     @ [0x56] @ replicate 128 0"

theorem text_mode_hides_all_modes_witness:
  "\<exists>s1 d' s2. add_edid_modes text_mode_edid (new_screen []) = Some s1
    \<and> build_mode_table True True sample_display s1 = Some (ModesNone, d', s2)"
proof -
  have "length text_mode_edid = 256" "take 8 text_mode_edid = g_edid_header"
    "256 dvd (\<Sum>b\<leftarrow>take 128 text_mode_edid. uint b)" "256 dvd (\<Sum>b\<leftarrow>drop 128 text_mode_edid. uint b)"
    "bit (text_mode_edid ! 35) 7"
    by (simp_all add: text_mode_edid_def g_edid_header_def sum_list_replicate nth_append)
  then show ?thesis
    using text_mode_hides_all_modes [of "new_screen []" text_mode_edid sample_display]
    by (auto simp: new_screen_def MAX_MODELIST_SIZE_def sample_display_def)
qed

text \<open>(mode table, host resolutions) Two resolutions reported one after the other are both
  in the table, raised to 640 by 480, in the two places kept for them: a report never
  overwrites the one before it nor a mode of the display.\<close>
theorem custom_modes_alternate:
  assumes "m_ModeInfo s = Some mi" and "m_ModeCount s = of_nat (n + 2)" and "n + 2 \<le> length mi"
    and "n < 65000"
  shows "\<exists>s1 s2 mi2. set_custom_display x1 y1 s = Some s1 \<and> set_custom_display x2 y2 s1 = Some s2
    \<and> m_ModeInfo s2 = Some mi2 \<and> take n mi2 = take n mi \<and> drop (n + 2) mi2 = drop (n + 2) mi
    \<and> length mi2 = length mi
    \<and> {mi2 ! n, mi2 ! (n + 1)} = {mode_entry (unat (m_CustomMode s1)) (custom_mode x1 y1),
        mode_entry (unat (m_CustomMode s2)) (custom_mode x2 y2)}"
proof -
  define k1 where "k1 = (if unat (m_CustomMode s) = n + 1 then n else n + 1)"
  define k2 where "k2 = (if k1 = n + 1 then n else n + 1)"
  have kb: "k1 \<le> n + 1" "k2 \<le> n + 1" by (simp_all add: k1_def k2_def)
  define s1 where "s1 = s\<lparr>m_CustomMode := of_nat k1, m_ModeInfo := Some (mi[k1 := mode_entry k1 (custom_mode x1 y1)])\<rparr>"
  have 1: "set_custom_display x1 y1 s = Some s1"
    using set_custom_display_ok [OF assms] by (simp add: s1_def k1_def)
  have u1: "unat (m_CustomMode s1) = k1"
    using assms(4) kb(1) by (simp add: s1_def unat_of_nat_less)
  define mi2 where "mi2 = mi[k1 := mode_entry k1 (custom_mode x1 y1), k2 := mode_entry k2 (custom_mode x2 y2)]"
  define s2 where "s2 = s1\<lparr>m_CustomMode := of_nat k2, m_ModeInfo := Some mi2\<rparr>"
  have 2: "set_custom_display x2 y2 s1 = Some s2"
    using set_custom_display_ok [of s1 "mi[k1 := mode_entry k1 (custom_mode x1 y1)]" n x2 y2] assms u1
    by (simp add: s1_def s2_def k2_def mi2_def)
  have u2: "unat (m_CustomMode s2) = k2"
    using assms(4) kb(2) by (simp add: s2_def unat_of_nat_less)
  have "k1 = n \<and> k2 = n + 1 \<or> k1 = n + 1 \<and> k2 = n" by (auto simp: k1_def k2_def)
  then have "{mi2 ! n, mi2 ! (n + 1)} = {mode_entry k1 (custom_mode x1 y1), mode_entry k2 (custom_mode x2 y2)}"
    "take n mi2 = take n mi" "drop (n + 2) mi2 = drop (n + 2) mi"
    using assms(3) by (auto simp: mi2_def nth_list_update)
  then show ?thesis using 1 2 u1 u2 by (intro exI [of _ s1] exI [of _ s2] exI [of _ mi2]) (simp add: s2_def mi2_def)
qed

theorem custom_modes_alternate_witness:
  "\<exists>s1 s2. set_custom_display 1280 800 ((new_screen [])\<lparr>m_ModeInfo := Some [zero_video_mode, zero_video_mode],
      m_ModeCount := 2\<rparr>) = Some s1 \<and> set_custom_display 100 100 s1 = Some s2"
  using custom_modes_alternate [of "(new_screen [])\<lparr>m_ModeInfo := Some [zero_video_mode, zero_video_mode],
      m_ModeCount := 2\<rparr>" "[zero_video_mode, zero_video_mode]" 0 1280 800 100 100]
  by auto

end
