(* ===== verification/MemSegmentProps.thy ===== *)
theory MemSegmentProps
  imports MemSegment
begin

text \<open>
  The memory segments keep their books: no operation is undefined, nothing is given back
  twice and nothing is left out after a close; and what a segment describes to the device.
\<close>

lemma own_new [simp]: "own_heap new_segment = {}" "own_mdl new_segment = {}"
  by (simp_all add: own_heap_def own_mdl_def new_segment_def)

lemma holds_new: "seg_holds k0 new_segment k0"
  by (simp add: seg_holds_def) (simp add: new_segment_def)

lemma kernel_alloc_fresh: "kernel_ok K \<Longrightarrow> k_alloc K h n \<noteq> 0 \<Longrightarrow> k_alloc K h n \<notin> h"
  by (auto simp: kernel_ok_def fresh_allocator_def)

lemma kernel_mdl_fresh: "kernel_ok K \<Longrightarrow> k_mdl K ms v n \<noteq> 0 \<Longrightarrow> k_mdl K ms v n \<notin> ms"
  by (auto simp: kernel_ok_def)

lemma close_holds:
  assumes "seg_holds k0 s k"
  shows "segment_close s k = Some (new_segment, k0)"
proof -
  have h: "heap k = heap k0 \<union> own_heap s" "heap k0 \<inter> own_heap s = {}" "0 \<notin> own_heap s"
    "mdls k = mdls k0 \<union> own_mdl s" "mdls k0 \<inter> own_mdl s = {}"
    "locked k = locked k0 \<union> own_mdl s" "locked k0 \<inter> own_mdl s = {}" "maps k = maps k0"
    "\<not> (m_bSystemMemory s \<and> m_bUserMemory s)"
    "m_pVAddr s \<noteq> 0 \<longleftrightarrow> m_bSystemMemory s \<or> m_bUserMemory s"
    "m_pVAddr s = 0 \<longrightarrow> m_pMdl s = 0 \<and> m_pSGList s = None"
    "\<forall>p es. m_pSGList s = Some (p, es) \<longrightarrow> m_bSystemMemory s \<longrightarrow> p \<noteq> m_pVAddr s"
    using assms unfolding seg_holds_def by blast+
  define k1 where "k1 = k\<lparr>locked := locked k0, mdls := mdls k0\<rparr>"
  have 1: "(if m_pMdl s \<noteq> 0 then do {
         k' \<leftarrow> (if m_bSystemMemory s \<or> m_bUserMemory s then unlock_pages (m_pMdl s) k else Some k);
         free_mdl (m_pMdl s) k' } else Some k) = Some k1"
  proof (cases "m_pMdl s = 0")
    case True
    then have "k1 = k" using h by (simp add: k1_def own_mdl_def)
    then show ?thesis using True by simp
  next
    case False
    then have "m_bSystemMemory s \<or> m_bUserMemory s" "own_mdl s = {m_pMdl s}"
      using h by (auto simp: own_mdl_def)
    then show ?thesis using False h by (simp add: unlock_pages_def free_mdl_def k1_def)
  qed
  define k2 where "k2 = k1\<lparr>heap := heap k0 \<union> (case m_pSGList s of None \<Rightarrow> {} | Some (p, es) \<Rightarrow> {p})\<rparr>"
  have 2: "(if \<not> m_bUserMemory s then
         (if m_bSystemMemory s then delete_heap (m_pVAddr s) k1
          else if m_pVAddr s \<noteq> 0 then unmap_frame_buffer (m_pVAddr s) (ucast (m_Size s)) k1
          else Some k1) else Some k1) = Some k2"
    using h by (auto simp: delete_heap_def k2_def k1_def own_heap_def split: option.splits)
  have 3: "(case m_pSGList s of None \<Rightarrow> Some k2 | Some (p, es) \<Rightarrow> delete_heap p k2) = Some k0"
    using h by (auto simp: delete_heap_def k2_def k1_def own_heap_def split: option.splits)
  show ?thesis unfolding segment_close_def by (simp only: 1 2 3 bind.bind_lunit)
qed

lemma init_holds:
  assumes "seg_holds k0 s k" "m_pVAddr s = 0" "kernel_ok K" "locked k0 \<subseteq> mdls k0"
  shows "\<exists>r s' k'. segment_init K n None s k = Some (r, s', k') \<and> seg_holds k0 s' k'"
proof -
  have z: "\<not> m_bSystemMemory s" "\<not> m_bUserMemory s" "m_pMdl s = 0" "m_pSGList s = None"
    using assms(1,2) by (simp_all add: seg_holds_def)
  have k: "heap k = heap k0" "mdls k = mdls k0" "locked k = locked k0" "maps k = maps k0"
    using assms(1) z by (simp_all add: seg_holds_def own_heap_def own_mdl_def)
  define sz where "sz = bytes_to_pages n * PAGE_SIZE"
  define v where "v = k_alloc K (heap k0) (ucast sz)"
  have fv: "v \<noteq> 0 \<Longrightarrow> v \<notin> heap k0" unfolding v_def by (rule kernel_alloc_fresh [OF assms(3)])
  define m where "m = k_mdl K (mdls k0) v sz"
  have fm: "m \<noteq> 0 \<Longrightarrow> m \<notin> mdls k0" unfolding m_def by (rule kernel_mdl_fresh [OF assms(3)])
  define p where "p = k_alloc K (insert v (heap k0)) (sgl_bytes (bytes_to_pages n))"
  have fp: "p \<noteq> 0 \<Longrightarrow> p \<notin> insert v (heap k0)" unfolding p_def by (rule kernel_alloc_fresh [OF assms(3)])
  have lm: "m \<noteq> 0 \<Longrightarrow> m \<notin> locked k0" using fm assms(4) by auto
  show ?thesis
    unfolding segment_init_def sz_def [symmetric] segment_memory_def Let_def
    using z k fv fm fp lm
    by (simp add: v_def [symmetric] m_def [symmetric] p_def [symmetric] seg_holds_def own_heap_def
        own_mdl_def unlock_pages_def free_mdl_def assms(2) ex_bool_eq)
qed

lemma init_ext_holds:
  assumes "seg_holds k0 s k" "kernel_ok K" "locked k0 \<subseteq> mdls k0"
  shows "\<exists>r s' k'. segment_init_ext K n addr s k = Some (r, s', k') \<and> seg_holds k0 s' k'"
proof -
  define sz where "sz = bytes_to_pages n * PAGE_SIZE"
  define m where "m = k_mdl K (mdls k0) addr sz"
  have fm: "m \<noteq> 0 \<Longrightarrow> m \<notin> mdls k0" unfolding m_def by (rule kernel_mdl_fresh [OF assms(2)])
  define p where "p = k_alloc K (heap k0) (sgl_bytes (bytes_to_pages n))"
  have fp: "p \<noteq> 0 \<Longrightarrow> p \<notin> heap k0" unfolding p_def by (rule kernel_alloc_fresh [OF assms(2)])
  have lm: "m \<noteq> 0 \<Longrightarrow> m \<notin> locked k0" using fm assms(3) by auto
  have n: "m_bSystemMemory new_segment = False" "m_bUserMemory new_segment = False"
    "m_pMdl new_segment = 0" "m_pSGList new_segment = None" "m_pVAddr new_segment = 0"
    by (simp_all add: new_segment_def)
  show ?thesis
    unfolding segment_init_ext_def close_holds [OF assms(1)] bind.bind_lunit sz_def [symmetric] Let_def
    using fm fp lm
    by (simp add: m_def [symmetric] p_def [symmetric] seg_holds_def own_heap_def
        own_mdl_def unlock_pages_def free_mdl_def n ex_bool_eq)
qed

lemma run_holds:
  assumes "segment_run K k0 s k" "kernel_ok K" "locked k0 \<subseteq> mdls k0"
  shows "seg_holds k0 s k"
  using assms
proof (induction rule: segment_run.induct)
  case start
  show ?case by (rule holds_new)
next
  case (init s k n r s' k')
  then show ?case using init_holds [of k0 s k K n] by auto
next
  case (init_ext s k n addr r s' k')
  then show ?case using init_ext_holds [of k0 s k K n addr] by auto
next
  case (close s k s' k')
  then show ?case using close_holds [of k0 s k] holds_new by auto
qed

section \<open>What the device sees\<close>

lemma fill_sg_list_eq:
  "\<exists>j \<le> n. fill_sg_list mm buf n = map (\<lambda>i. (phys_addr mm (buf + 4096 * of_nat i), PAGE_SIZE)) [0..<j]
     \<and> (j = n \<longleftrightarrow> (\<forall>i < n. phys_addr mm (buf + 4096 * of_nat i) \<noteq> 0))"
proof (induction n arbitrary: buf)
  case 0
  show ?case by simp
next
  case (Suc n)
  show ?case
  proof (cases "phys_addr mm buf = 0")
    case True
    then show ?thesis by (intro exI [of _ 0]) auto
  next
    case False
    obtain j where j: "j \<le> n"
      "fill_sg_list mm (buf + 4096) n = map (\<lambda>i. (phys_addr mm (buf + 4096 + 4096 * of_nat i), PAGE_SIZE)) [0..<j]"
      "j = n \<longleftrightarrow> (\<forall>i < n. phys_addr mm (buf + 4096 + 4096 * of_nat i) \<noteq> 0)"
      using Suc.IH [of "buf + 4096"] by blast
    have "[0..<Suc j] = 0 # map Suc [0..<j]" by (simp add: upt_conv_Cons map_Suc_upt del: upt_Suc)
    then have "fill_sg_list mm buf (Suc n)
        = map (\<lambda>i. (phys_addr mm (buf + 4096 * of_nat i), PAGE_SIZE)) [0..<Suc j]"
      using False j(2) by (simp add: Let_def algebra_simps del: upt_Suc)
    moreover have "Suc j = Suc n \<longleftrightarrow> (\<forall>i < Suc n. phys_addr mm (buf + 4096 * of_nat i) \<noteq> 0)"
      using j(3) False by (simp add: All_less_Suc2 algebra_simps)
    ultimately show ?thesis using j(1) by (intro exI [of _ "Suc j"]) (simp only: Suc_le_mono simp_thms)
  qed
qed

lemma bytes_to_pages_unat: "unat (bytes_to_pages n) = (unat n + 4095) div 4096"
proof -
  have m: "unat (n AND 0xFFF) = unat n mod 4096"
    using unat_and_mask_mod [of n 12] by (simp add: mask_eq_exp_minus_1)
  have nz: "n AND 0xFFF \<noteq> 0 \<longleftrightarrow> unat n mod 4096 \<noteq> 0"
    unfolding m [symmetric] by (simp add: unat_eq_zero)
  have d: "unat (drop_bit 12 n) = unat n div 4096" by (simp add: drop_bit_eq_div unat_div)
  define q where "q = unat n div 4096"
  define r where "r = unat n mod 4096"
  have n: "unat n = q * 4096 + r" "r < 4096" by (simp_all add: q_def r_def)
  have "unat n < 4294967296" using unsigned_less [of n] by simp
  then have q: "q < 1048576" unfolding q_def by (simp add: less_mult_imp_div_less)
  have dq: "unat (drop_bit 12 n) = q" using d by (simp only: q_def)
  show ?thesis
  proof (cases "r = 0")
    case True
    then have "bytes_to_pages n = drop_bit 12 n" using nz by (simp only: bytes_to_pages_def r_def if_False) simp
    then show ?thesis using True dq n by simp
  next
    case False
    then have "bytes_to_pages n = drop_bit 12 n + 1" using nz by (simp only: bytes_to_pages_def r_def if_True simp_thms)
    then have "unat (bytes_to_pages n) = q + 1" using q dq by (simp only: unat_Suc_mod) simp
    moreover have "(q * 4096 + r + 4095) div 4096 = q + 1" using False n(2) by (intro div_nat_eqI) auto
    ultimately show ?thesis using n(1) by simp
  qed
qed

lemma init_sgl:
  assumes "segment_init K n None s k = Some (True, s', k')"
  shows "\<exists>p. m_pSGList s' = Some (p, fill_sg_list (k_mm K) (page_align (m_pVAddr s')) (unat (bytes_to_pages n)))
    \<and> m_Size s' = ucast (bytes_to_pages n * PAGE_SIZE)"
  using assms
  by (auto simp: segment_init_def segment_memory_def Let_def bind_eq_Some_conv
      split: if_splits option.splits)

lemma init_ext_sgl:
  assumes "segment_init_ext K n addr s k = Some (True, s', k')"
  shows "\<exists>p. m_pSGList s' = Some (p, fill_sg_list (k_mm K) (page_align (m_pVAddr s')) (unat (bytes_to_pages n)))
    \<and> m_Size s' = ucast (bytes_to_pages n * PAGE_SIZE) \<and> m_pVAddr s' = addr"
  using assms
  by (auto simp: segment_init_ext_def Let_def bind_eq_Some_conv
      split: if_splits option.splits)

text \<open>A mapping whose descriptor list can not be had is lost: the close finds a size of 0.\<close>
lemma mapped_leak:
  assumes "pa \<noteq> 0" "bytes_to_pages n * PAGE_SIZE \<noteq> 0" "k_map K True (maps k) pa (bytes_to_pages n * PAGE_SIZE) = v"
    "v \<noteq> 0" "k_mdl K (mdls k) v (bytes_to_pages n * PAGE_SIZE) = 0"
  shows "\<exists>s' k'. segment_init K n (Some pa) new_segment k = Some (False, s', k')
    \<and> segment_close s' k' = Some (new_segment, k') \<and> v \<in> maps k'"
  using assms
  by (auto simp: segment_init_def segment_memory_def map_frame_buffer_def Let_def new_segment_def
      segment_close_def unmap_frame_buffer_def)

section \<open>Properties\<close>

text \<open>C33: (memory segments, books) Whatever sequence of initialisations from the heap (of a
  segment without memory), from user memory and closes has gone before and whichever of
  their steps failed, the next operation is defined, and a close gives back exactly what
  the segment holds: blocks, descriptor lists and locks are as before the first operation.\<close>
theorem segment_no_leak:
  assumes "kernel_ok K" and "locked k0 \<subseteq> mdls k0" and "segment_run K k0 s k"
  shows "segment_close s k = Some (new_segment, k0)
    \<and> (\<exists>r s' k'. segment_init_ext K n addr s k = Some (r, s', k'))
    \<and> (m_pVAddr s = 0 \<longrightarrow> (\<exists>r s' k'. segment_init K n None s k = Some (r, s', k')))"
  using close_holds [OF run_holds [OF assms(3,1,2)]] init_ext_holds [OF run_holds [OF assms(3,1,2)] assms(1,2)]
    init_holds [OF run_holds [OF assms(3,1,2)] _ assms(1,2)]
  by blast

text \<open>A memory manager with one block, one descriptor list and identity addresses.\<close>
definition small_kernel :: kernel where
  "small_kernel = \<lparr>k_alloc = (\<lambda>h n. if 0x1000 \<in> h then if 0x9000 \<in> h then 0 else 0x9000 else 0x1000),
     k_map = (\<lambda>w h pa n. 0), k_mdl = (\<lambda>h v n. if 7 \<in> h then 0 else 7), k_lock = (\<lambda>u v n. True),
     k_mm = \<lparr>addr_valid = (\<lambda>a. True), phys_addr = (\<lambda>a. a)\<rparr>\<rparr>"

definition no_kmem :: kmem where
  "no_kmem = \<lparr>heap = {}, maps = {}, mdls = {}, locked = {}\<rparr>"

lemma small_kernel_ok: "kernel_ok small_kernel"
  by (simp add: kernel_ok_def small_kernel_def fresh_allocator_def)

lemma fill_sg_2: "fill_sg_list mm b 2 = (if phys_addr mm b = 0 then []
    else (phys_addr mm b, PAGE_SIZE) # (if phys_addr mm (b + 4096) = 0 then []
      else [(phys_addr mm (b + 4096), PAGE_SIZE)]))"
  by (simp add: numeral_2_eq_2)

lemma small_init:
  "segment_init small_kernel 5000 None new_segment no_kmem = Some (True,
     \<lparr>m_bSystemMemory = True, m_bUserMemory = False, m_bMapped = False,
      m_pSGList = Some (0x9000, [(0x1000, 4096), (0x2000, 4096)]), m_pVAddr = 0x1000, m_pMdl = 7,
      m_Size = 8192\<rparr>,
     \<lparr>heap = {0x9000, 0x1000}, maps = {}, mdls = {7}, locked = {7}\<rparr>)"
  by (simp add: segment_init_def segment_memory_def Let_def small_kernel_def new_segment_def
      no_kmem_def bytes_to_pages_def PAGE_SIZE_def page_align_def fill_sg_2)

theorem segment_no_leak_witness:
  "\<exists>s k. segment_init small_kernel 5000 None new_segment no_kmem = Some (True, s, k)
    \<and> segment_close s k = Some (new_segment, no_kmem)"
  using segment_no_leak [OF small_kernel_ok _ segment_run.init [OF segment_run.start _ small_init]]
    small_init
  by (auto simp: new_segment_def no_kmem_def)

text \<open>(memory segments, backing) What a successful initialisation describes to the device: the pages
  from the one that holds the start address on, in order, one element each. The list is
  complete exactly when every page has a physical address; if one has none the list is cut
  there and the initialisation still succeeds. The size is the one asked for, rounded up
  to pages, unless it is within a page of 4 GiB: then it is 0.\<close>
theorem segment_backing:
  assumes "segment_init K n None s k = Some (True, s', k')
    \<or> segment_init_ext K n addr s k = Some (True, s', k')"
  defines "pg \<equiv> (unat n + 4095) div 4096"
  defines "pa \<equiv> (\<lambda>i::nat. phys_addr (k_mm K) (page_align (m_pVAddr s') + 4096 * of_nat i))"
  shows "(\<exists>p es. m_pSGList s' = Some (p, es) \<and> length es \<le> pg
      \<and> (\<forall>i < length es. es ! i = (pa i, 4096)) \<and> (length es = pg \<longleftrightarrow> (\<forall>i < pg. pa i \<noteq> 0)))
    \<and> (if unat n \<le> 4294963200 then unat (m_Size s') = pg * 4096 \<and> unat n \<le> unat (m_Size s')
       else m_Size s' = 0)"
proof -
  have pg: "unat (bytes_to_pages n) = pg" by (simp add: bytes_to_pages_unat pg_def)
  obtain p where p: "m_pSGList s' = Some (p, fill_sg_list (k_mm K) (page_align (m_pVAddr s')) pg)"
    "m_Size s' = ucast (bytes_to_pages n * PAGE_SIZE)"
    using assms(1) init_sgl init_ext_sgl unfolding pg [symmetric] by blast
  obtain j where j: "j \<le> pg"
    "fill_sg_list (k_mm K) (page_align (m_pVAddr s')) pg = map (\<lambda>i. (pa i, PAGE_SIZE)) [0..<j]"
    "j = pg \<longleftrightarrow> (\<forall>i < pg. pa i \<noteq> 0)"
    using fill_sg_list_eq [of pg "k_mm K" "page_align (m_pVAddr s')"] unfolding pa_def by blast
  have list: "\<exists>p es. m_pSGList s' = Some (p, es) \<and> length es \<le> pg
      \<and> (\<forall>i < length es. es ! i = (pa i, 4096)) \<and> (length es = pg \<longleftrightarrow> (\<forall>i < pg. pa i \<noteq> 0))"
    using p j by (simp add: PAGE_SIZE_def)
  have lt: "unat n < 4294967296" using unsigned_less [of n] by simp
  have sz: "unat (m_Size s') = pg * 4096 mod 4294967296"
    unfolding p(2) by (simp add: unat_ucast_u32_u64 unat_word_ariths pg PAGE_SIZE_def)
  have small: "unat n \<le> 4294963200 \<Longrightarrow> unat (m_Size s') = pg * 4096 \<and> unat n \<le> unat (m_Size s')"
  proof -
    assume "unat n \<le> 4294963200"
    then have "pg \<le> (4294963200 + 4095) div 4096" unfolding pg_def by (intro div_le_mono) simp
    then have "pg * 4096 mod 4294967296 = pg * 4096" by simp
    moreover have "unat n + 4095 - (unat n + 4095) mod 4096 = pg * 4096"
      unfolding pg_def by (rule minus_mod_eq_div_mult)
    moreover have "(unat n + 4095) mod 4096 < 4096" by simp
    ultimately show ?thesis unfolding sz by linarith
  qed
  have big: "4294963200 < unat n \<Longrightarrow> m_Size s' = 0"
  proof -
    assume "4294963200 < unat n"
    then have "pg = 1048576" using lt unfolding pg_def by (intro div_nat_eqI) auto
    then show ?thesis using sz by (simp add: unat_eq_zero)
  qed
  have "if unat n \<le> 4294963200 then unat (m_Size s') = pg * 4096 \<and> unat n \<le> unat (m_Size s')
      else m_Size s' = 0"
    by (rule if_split [THEN iffD2]) (use small big not_le in blast)
  with list show ?thesis by (rule conjI)
qed

theorem segment_backing_witness:
  "\<exists>p es s k. segment_init small_kernel 5000 None new_segment no_kmem = Some (True, s, k)
    \<and> m_pSGList s = Some (p, es) \<and> length es = 2 \<and> unat (m_Size s) = 8192"
  using segment_backing [OF disjI1 [OF small_init]] small_init
  by (auto simp: small_kernel_def page_align_def)

end
