(* ===== verification/Ioctl.thy ===== *)
theory Ioctl
  imports GpuAdapter
begin

text \<open>
  The requests of the user-mode driver: \<^verbatim>\<open>src/IntelVirtDisplayKMD/Queue.cpp\<close> (the callback
  of the default queue and one handler per control code) and
  \<^verbatim>\<open>src/IntelVirtDisplayKMD/IoctlValidation.cpp\<close>, over the structures of
  \<^verbatim>\<open>src/IntelVirtDisplayKMD/Public.h\<close>.  A request carries what the framework and the memory
  manager answer about it; the state keeps the log of its completions, the bytes it reports
  as returned, its answer, and the regions a handler fills with zeros.
\<close>

section \<open>Statuses\<close>

definition STATUS_SUCCESS :: u32 where "STATUS_SUCCESS = 0"
definition STATUS_UNSUCCESSFUL :: u32 where "STATUS_UNSUCCESSFUL = 0xC0000001"
definition STATUS_INVALID_PARAMETER :: u32 where "STATUS_INVALID_PARAMETER = 0xC000000D"
definition STATUS_INVALID_DEVICE_REQUEST :: u32 where "STATUS_INVALID_DEVICE_REQUEST = 0xC0000010"
definition STATUS_BUFFER_TOO_SMALL :: u32 where "STATUS_BUFFER_TOO_SMALL = 0xC0000023"
definition STATUS_INSUFFICIENT_RESOURCES :: u32 where "STATUS_INSUFFICIENT_RESOURCES = 0xC000009A"
definition STATUS_DEVICE_NOT_READY :: u32 where "STATUS_DEVICE_NOT_READY = 0xC00000A3"
definition STATUS_NOT_SUPPORTED :: u32 where "STATUS_NOT_SUPPORTED = 0xC00000BB"
definition STATUS_INVALID_USER_BUFFER :: u32 where "STATUS_INVALID_USER_BUFFER = 0xC00000E8"

lemmas status_defs = STATUS_SUCCESS_def STATUS_UNSUCCESSFUL_def STATUS_INVALID_PARAMETER_def
  STATUS_INVALID_DEVICE_REQUEST_def STATUS_BUFFER_TOO_SMALL_def STATUS_INSUFFICIENT_RESOURCES_def
  STATUS_DEVICE_NOT_READY_def STATUS_NOT_SUPPORTED_def STATUS_INVALID_USER_BUFFER_def

text \<open>\<^verbatim>\<open>NT_SUCCESS\<close>.\<close>
definition nt_success :: "u32 \<Rightarrow> bool" where "nt_success s \<longleftrightarrow> 0 \<le> sint s"

fun status_code :: "ntstatus \<Rightarrow> u32" where
  "status_code StatusSuccess = STATUS_SUCCESS"
| "status_code StatusUnsuccessful = STATUS_UNSUCCESSFUL"
| "status_code StatusInvalidParameter = STATUS_INVALID_PARAMETER"

section \<open>The structures of the interface\<close>

definition MAX_SCAN_OUT :: u32 where "MAX_SCAN_OUT = 4"
definition MAX_WIDTH_SIZE :: u32 where "MAX_WIDTH_SIZE = 3840"
definition MAX_HEIGHT_SIZE :: u32 where "MAX_HEIGHT_SIZE = 2160"
definition EDID_V1_BLOCK_SIZE :: nat where "EDID_V1_BLOCK_SIZE = 256"
definition INTELVIRTDISPLAYKMD_SUCCESS :: u16 where "INTELVIRTDISPLAYKMD_SUCCESS = 1"

definition FRAME_TYPE_INVALID :: u32 where "FRAME_TYPE_INVALID = 0"
definition FRAME_TYPE_BGRA :: u32 where "FRAME_TYPE_BGRA = 1"
definition FRAME_TYPE_RGBA :: u32 where "FRAME_TYPE_RGBA = 2"
definition FRAME_TYPE_RGBA10 :: u32 where "FRAME_TYPE_RGBA10 = 3"
definition FRAME_TYPE_YUV420 :: u32 where "FRAME_TYPE_YUV420 = 4"
definition FRAME_TYPE_MAX :: u32 where "FRAME_TYPE_MAX = 5"

lemmas frame_types = FRAME_TYPE_INVALID_def FRAME_TYPE_BGRA_def FRAME_TYPE_RGBA_def
  FRAME_TYPE_RGBA10_def FRAME_TYPE_YUV420_def FRAME_TYPE_MAX_def

lemmas ioctl_consts = MAX_SCAN_OUT_def MAX_WIDTH_SIZE_def MAX_HEIGHT_SIZE_def

record frame_meta =
  fm_width :: u32
  fm_height :: u32
  fm_color_format :: u32
  fm_pitch :: u32
  fm_stride :: u32
  fm_bitrate :: u16
  fm_addr :: u64
  fm_refresh_rate :: u16
  fm_screen_num :: u32

record cursor_data =
  cd_screen_num :: u32
  cd_cursor_x :: u32
  cd_cursor_y :: u32
  cd_iscursorvisible :: bool
  cd_cursor_version :: u32
  cd_cursor_type :: u16
  cd_width :: u32
  cd_height :: u32
  cd_pitch :: u32
  cd_color_format :: u32
  cd_data :: u64
  cd_x_hot :: u32
  cd_y_hot :: u32

record edid_info =
  ei_edid_data :: "u8 list"
  ei_mode_size :: u32
  ei_screen_num :: u32
  ei_mode_list :: "(u32 \<times> u32 \<times> nat) list"

record hp_info =
  hp_event :: u64
  hp_screen_present :: "bool list"

text \<open>The sizes of the structures in the 64-bit ABI.\<close>
definition SIZEOF_FRAME_META_DATA :: u64 where "SIZEOF_FRAME_META_DATA = 40"
definition SIZEOF_CURSOR_DATA :: u64 where "SIZEOF_CURSOR_DATA = 56"
definition SIZEOF_EDID_INFO :: u64 where "SIZEOF_EDID_INFO = 776"
definition SIZEOF_SCREEN_INFO :: u64 where "SIZEOF_SCREEN_INFO = 4"
definition SIZEOF_HP_INFO :: u64 where "SIZEOF_HP_INFO = 16"
definition SIZEOF_IOCTL_RESPONSE :: u64 where "SIZEOF_IOCTL_RESPONSE = 2"
definition SIZEOF_UINT32 :: u64 where "SIZEOF_UINT32 = 4"

datatype response = RespRetval u16 | RespEdid edid_info | RespScreens u32 | RespHotplug hp_info

text \<open>The control codes of \<^verbatim>\<open>Public.h\<close>.\<close>
datatype ioctl_code = FrameDataCode | CursorDataCode | CursorPosCode | GetEdidCode | SetModeCode
  | TestImageCode | TotalScreensCode | HpEventCode | ReleaseFbCode | OtherCode u32

text \<open>A request.  The answers of the framework: whether the packet and its stack location
  are there, whether the thread is at \<^verbatim>\<open>PASSIVE_LEVEL\<close>, and the status of retrieving the
  input and the output buffer of some least length.  The answers of the memory manager:
  the exception of a probe for reading or writing an address for a length, 0 when there is
  none.  The contents of the input buffer as the handler of the code reads it, the output
  buffer of a buffered code being the same memory.\<close>
record request =
  rq_code :: ioctl_code
  rq_in_len :: u64
  rq_out_len :: u64
  rq_irp :: bool
  rq_stack :: bool
  rq_passive :: bool
  rq_type3 :: u64
  rq_user :: u64
  rq_retrieve_in :: "u64 \<Rightarrow> u32"
  rq_retrieve_out :: "u64 \<Rightarrow> u32"
  rq_probe_read :: "u64 \<Rightarrow> u64 \<Rightarrow> u32"
  rq_probe_write :: "u64 \<Rightarrow> u64 \<Rightarrow> u32"
  rq_frame :: frame_meta
  rq_cursor :: cursor_data
  rq_edid :: edid_info
  rq_total_screens :: u32
  rq_hp :: hp_info
  rq_screen :: u32
  rq_event :: "u64 \<Rightarrow> u64 option"

text \<open>The device as a handler sees it (\<^verbatim>\<open>pvDeviceExtension\<close>, null before the adapter is made,
  and its member \<^verbatim>\<open>hpd_event\<close>), and what the handlers do to the request.\<close>
record 'q ios =
  io_adapter :: "'q adapter option"
  io_hpd_event :: u64
  io_done :: "u32 list"
  io_info :: u64
  io_resp :: "response option"
  io_zeroed :: "(u64 \<times> u32) list"

text \<open>\<^verbatim>\<open>WdfRequestComplete\<close>, and the pattern of an early return.\<close>
definition complete :: "u32 \<Rightarrow> 'q ios \<Rightarrow> 'q ios" where
  "complete st s = s\<lparr>io_done := io_done s @ [st]\<rparr>"

definition refuse :: "u32 \<Rightarrow> 'q ios \<Rightarrow> (u32 \<times> 'q ios) option" where
  "refuse st s = Some (st, complete st s)"

section \<open>Validation\<close>

definition buffers_overlap :: "u64 \<Rightarrow> u64 \<Rightarrow> u64 \<Rightarrow> u64 \<Rightarrow> bool" where
  "buffers_overlap inp ilen out olen =
     (if inp = 0 \<or> out = 0 \<or> ilen = 0 \<or> olen = 0 then False
      else if - 1 - inp < ilen \<or> - 1 - out < olen then False
      else inp < out + olen \<and> out < inp + ilen)"

datatype ioctl_data = FrameIn frame_meta | CursorIn cursor_data | CursorPositionIn cursor_data
  | EdidIn edid_info | TotalScreensIn u32 | HpEventIn hp_info

definition validate_frame :: "frame_meta \<Rightarrow> u32" where
  "validate_frame f =
     (if MAX_SCAN_OUT \<le> fm_screen_num f then STATUS_INVALID_PARAMETER
      else if fm_width f = 0 \<or> fm_height f = 0 then STATUS_INVALID_PARAMETER
      else if MAX_WIDTH_SIZE < fm_width f \<or> MAX_HEIGHT_SIZE < fm_height f then STATUS_INVALID_PARAMETER
      else if fm_stride f = 0 then STATUS_INVALID_PARAMETER
      else let maxFrameSize = ucast MAX_WIDTH_SIZE * ucast MAX_HEIGHT_SIZE * 4 :: u64 in
      if maxFrameSize div ucast (fm_height f) < ucast (fm_stride f) then STATUS_INVALID_PARAMETER
      else let minPitch = fm_width f * 4; maxPitch = MAX_WIDTH_SIZE * 4 in
      if fm_pitch f < minPitch \<or> maxPitch < fm_pitch f then STATUS_INVALID_PARAMETER
      else if fm_color_format f = FRAME_TYPE_INVALID \<or> FRAME_TYPE_MAX \<le> fm_color_format f
        then STATUS_INVALID_PARAMETER
      else if fm_color_format f = FRAME_TYPE_RGBA10 then STATUS_NOT_SUPPORTED
      else STATUS_SUCCESS)"

definition validate_cursor :: "cursor_data \<Rightarrow> u32" where
  "validate_cursor c =
     (if MAX_SCAN_OUT \<le> cd_screen_num c then STATUS_INVALID_PARAMETER
      else if POINTER_SIZE < cd_width c \<or> POINTER_SIZE < cd_height c then STATUS_INVALID_PARAMETER
      else STATUS_SUCCESS)"

fun validate_data :: "ioctl_data \<Rightarrow> u32" where
  "validate_data (FrameIn f) = validate_frame f"
| "validate_data (CursorIn c) = validate_cursor c"
| "validate_data (CursorPositionIn c) =
     (if MAX_SCAN_OUT \<le> cd_screen_num c then STATUS_INVALID_PARAMETER else STATUS_SUCCESS)"
| "validate_data (EdidIn d) =
     (if MAX_SCAN_OUT \<le> ei_screen_num d then STATUS_INVALID_PARAMETER else STATUS_SUCCESS)"
| "validate_data (TotalScreensIn n) =
     (if MAX_SCAN_OUT < n then STATUS_INVALID_PARAMETER else STATUS_SUCCESS)"
| "validate_data (HpEventIn h) =
     (if hp_event h = 0 then STATUS_INVALID_PARAMETER else STATUS_SUCCESS)"

text \<open>Every branch that rejects the data completes the request with the status it returns,
  except the one for a null pointer.\<close>
definition validate_ioctl :: "ioctl_data option \<Rightarrow> 'q ios \<Rightarrow> u32 \<times> 'q ios" where
  "validate_ioctl d s = (case d of
     None \<Rightarrow> (STATUS_UNSUCCESSFUL, complete STATUS_INSUFFICIENT_RESOURCES s)
   | Some d \<Rightarrow>
       let st = validate_data d in
       if st = STATUS_SUCCESS then (st, s) else (st, complete st s))"

text \<open>The number of bytes of the frame the user's buffer is probed for.\<close>
definition frame_bytes :: "frame_meta \<Rightarrow> u64 option" where
  "frame_bytes f =
     (if fm_stride f \<noteq> 0 \<and> ucast (fm_height f) \<le> (- 1 :: u64) div ucast (fm_stride f)
      then Some (ucast (fm_height f) * ucast (fm_stride f)) else None)"

definition color_format_to_d3dddi :: "u32 \<Rightarrow> u32" where
  "color_format_to_d3dddi f =
     (if f = FRAME_TYPE_BGRA then D3DDDIFMT_A8R8G8B8
      else if f = FRAME_TYPE_RGBA then D3DDDIFMT_A8B8G8R8
      else if f = FRAME_TYPE_RGBA10 then D3DDDIFMT_A2B10G10R10
      else D3DDDIFMT_A8R8G8B8)"

section \<open>The adapter as the handlers use it\<close>

definition get_fb_vaddr :: "u32 \<Rightarrow> 'q adapter \<Rightarrow> u64 option" where
  "get_fb_vaddr t a = map_option (\<lambda>s. m_pVAddr (m_FrameSegment s)) (nth_opt (m_screen a) (unat t))"

definition get_mode_list_size :: "u32 \<Rightarrow> 'q adapter \<Rightarrow> u32 option" where
  "get_mode_list_size t a = map_option (\<lambda>s. modelist_size (mode_list s)) (nth_opt (m_screen a) (unat t))"

text \<open>The bytes \<^verbatim>\<open>GetEdidData\<close> points at, to the end of the object they are in.\<close>
definition get_edid_data :: "u32 \<Rightarrow> 'q adapter \<Rightarrow> u8 list option" where
  "get_edid_data t a =
     (if m_u32NumScanouts a \<le> t then Some g_gpu_edid
      else if m_bEDID a then map_option m_EDIDs (nth_opt (m_screen a) (unat t))
      else Some g_gpu_edid)"

text \<open>\<^verbatim>\<open>RtlCopyMemory\<close>; a source that is too short is read past its end.\<close>
definition copy_memory :: "nat \<Rightarrow> 'b list \<Rightarrow> 'b list \<Rightarrow> 'b list option" where
  "copy_memory n dst src' = do {
     guard_opt (n \<le> length src' \<and> n \<le> length dst);
     Some (take n src' @ drop n dst) }"

definition fill_present_status :: "hp_info \<Rightarrow> 'q adapter \<Rightarrow> hp_info option" where
  "fill_present_status h a =
     for_loop 0 (unat (m_u32NumScanouts a)) 1 (\<lambda>i h. do {
       s \<leftarrow> nth_opt (m_screen a) i;
       ps \<leftarrow> upd_opt (hp_screen_present h) i (scr_enabled s);
       Some (h\<lparr>hp_screen_present := ps\<rparr>) }) h"

text \<open>\<^verbatim>\<open>SetEvent\<close>: the first event that can be referenced stays; the lookup of the handle is
  the parameter.\<close>
definition set_event :: "(u64 \<Rightarrow> u64 option) \<Rightarrow> u64 \<Rightarrow> 'q ios \<Rightarrow> 'q ios" where
  "set_event lookup h s =
     (if h = 0 then s
      else case lookup h of
        None \<Rightarrow> s
      | Some ev \<Rightarrow> if io_hpd_event s = 0 then s\<lparr>io_hpd_event := ev\<rparr> else s)"

text \<open>The memory \<^verbatim>\<open>BlackOutScreen\<close> fills with zeros before it takes the lock: address and
  length, a product of 32-bit numbers.\<close>
definition black_out_fill :: "current_mode \<Rightarrow> (u64 \<times> u32) list" where
  "black_out_fill cm =
     (if cm_FrameBufferIsActive cm \<and> cm_FrameBuffer cm \<noteq> 0
      then [(cm_FrameBuffer cm, di_Height (cm_DispInfo cm) * di_Pitch (cm_DispInfo cm))] else [])"

section \<open>The handlers\<close>

definition frame_mode :: "frame_meta \<Rightarrow> current_mode" where
  "frame_mode f = \<lparr>cm_DispInfo = \<lparr>di_Width = fm_width f, di_Height = fm_height f, di_Pitch = fm_pitch f,
       di_ColorFormat = color_format_to_d3dddi (fm_color_format f), di_TargetId = fm_screen_num f\<rparr>,
     cm_Stride = fm_stride f, cm_SetMode = True, cm_FrameBuffer = fm_addr f, cm_FrameBufferIsActive = False\<rparr>"

definition black_out_mode :: "frame_meta \<Rightarrow> u64 \<Rightarrow> current_mode" where
  "black_out_mode f v = \<lparr>cm_DispInfo = \<lparr>di_Width = fm_width f, di_Height = fm_height f, di_Pitch = fm_pitch f,
       di_ColorFormat = 0, di_TargetId = fm_screen_num f\<rparr>,
     cm_Stride = 0, cm_SetMode = False, cm_FrameBuffer = v, cm_FrameBufferIsActive = True\<rparr>"

text \<open>The check of the user's frame buffer: the status of the early return, if any.\<close>
definition probe_frame :: "request \<Rightarrow> frame_meta \<Rightarrow> u32" where
  "probe_frame rq f = (case frame_bytes f of
     None \<Rightarrow> STATUS_INVALID_PARAMETER
   | Some n \<Rightarrow> rq_probe_read rq (fm_addr f) n)"

definition ioctl_request_set_mode :: "'q env \<Rightarrow> request \<Rightarrow> 'q ios \<Rightarrow> (u32 \<times> 'q ios) option" where
  "ioctl_request_set_mode e rq s = (case io_adapter s of
     None \<Rightarrow> refuse STATUS_INSUFFICIENT_RESOURCES s
   | Some a \<Rightarrow>
     if rq_in_len rq < SIZEOF_FRAME_META_DATA then refuse STATUS_BUFFER_TOO_SMALL s
     else if \<not> nt_success (rq_retrieve_in rq (rq_in_len rq)) then refuse STATUS_INVALID_USER_BUFFER s
     else let f = rq_frame rq; (st, s1) = validate_ioctl (Some (FrameIn f)) s in
     if st \<noteq> STATUS_SUCCESS then Some (st, s1)
     else if fm_addr f \<noteq> 0 \<and> probe_frame rq f \<noteq> 0 then refuse (probe_frame rq f) s1
     else do {
       (st, _, a1) \<leftarrow> set_current_mode_ext e (Some (frame_mode f)) a;
       let s2 = s1\<lparr>io_adapter := Some a1\<rparr>;
       if st \<noteq> StatusSuccess then refuse STATUS_UNSUCCESSFUL s2
       else do {
         v \<leftarrow> get_fb_vaddr (fm_screen_num f) a1;
         let cm = black_out_mode f v;
         a2 \<leftarrow> black_out_screen e cm a1;
         Some (STATUS_SUCCESS, s2\<lparr>io_adapter := Some a2, io_zeroed := io_zeroed s2 @ black_out_fill cm\<rparr>) } })"

text \<open>The answer of the two codes that are not buffered, written to the user's memory; the
  overlap of the buffers is looked at afterwards.\<close>
definition answer_user :: "request \<Rightarrow> 'q ios \<Rightarrow> (u32 \<times> 'q ios) option" where
  "answer_user rq s =
     (if rq_out_len rq < SIZEOF_IOCTL_RESPONSE then refuse STATUS_BUFFER_TOO_SMALL s
      else if rq_user rq = 0 then refuse STATUS_INVALID_PARAMETER s
      else if rq_probe_write rq (rq_user rq) SIZEOF_IOCTL_RESPONSE \<noteq> 0
        then refuse (rq_probe_write rq (rq_user rq) SIZEOF_IOCTL_RESPONSE) s
      else let s1 = s\<lparr>io_resp := Some (RespRetval INTELVIRTDISPLAYKMD_SUCCESS)\<rparr> in
      if buffers_overlap (rq_type3 rq) (rq_in_len rq) (rq_user rq) (rq_out_len rq)
      then refuse STATUS_INVALID_PARAMETER s1
      else Some (STATUS_SUCCESS, s1\<lparr>io_info := SIZEOF_IOCTL_RESPONSE\<rparr>))"

definition ioctl_request_present_fb :: "'q env \<Rightarrow> request \<Rightarrow> 'q ios \<Rightarrow> (u32 \<times> 'q ios) option" where
  "ioctl_request_present_fb e rq s =
     (if \<not> rq_irp rq then refuse STATUS_INVALID_PARAMETER s
      else if \<not> rq_stack rq then refuse STATUS_INVALID_PARAMETER s
      else case io_adapter s of
        None \<Rightarrow> refuse STATUS_INSUFFICIENT_RESOURCES s
      | Some a \<Rightarrow>
        if rq_in_len rq < SIZEOF_FRAME_META_DATA then refuse STATUS_BUFFER_TOO_SMALL s
        else if rq_type3 rq = 0 then refuse STATUS_INSUFFICIENT_RESOURCES s
        else if \<not> rq_passive rq then refuse STATUS_INVALID_DEVICE_REQUEST s
        else if rq_probe_read rq (rq_type3 rq) SIZEOF_FRAME_META_DATA \<noteq> 0
          then refuse (rq_probe_read rq (rq_type3 rq) SIZEOF_FRAME_META_DATA) s
        else let f = rq_frame rq; (st, s1) = validate_ioctl (Some (FrameIn f)) s in
        if st \<noteq> STATUS_SUCCESS then Some (st, s1)
        else case frame_bytes f of
          None \<Rightarrow> refuse STATUS_INVALID_PARAMETER s1
        | Some n \<Rightarrow>
          if buffers_overlap (fm_addr f) n (rq_user rq) (rq_out_len rq)
          then refuse STATUS_INVALID_PARAMETER s1
          else if rq_probe_read rq (fm_addr f) n \<noteq> 0 then refuse (rq_probe_read rq (fm_addr f) n) s1
          else do {
            (st, _, a1) \<leftarrow> execute_present e (fm_addr f) (fm_pitch f) (fm_width f) (fm_height f)
              (fm_screen_num f) (fm_stride f) a;
            let s2 = s1\<lparr>io_adapter := Some a1\<rparr>;
            if st \<noteq> StatusSuccess then refuse STATUS_UNSUCCESSFUL s2 else answer_user rq s2 })"

definition ioctl_request_edid :: "request \<Rightarrow> 'q ios \<Rightarrow> (u32 \<times> 'q ios) option" where
  "ioctl_request_edid rq s = (case io_adapter s of
     None \<Rightarrow> refuse STATUS_INSUFFICIENT_RESOURCES s
   | Some a \<Rightarrow>
     if rq_in_len rq < SIZEOF_EDID_INFO then refuse STATUS_BUFFER_TOO_SMALL s
     else if \<not> nt_success (rq_retrieve_in rq SIZEOF_EDID_INFO) then refuse STATUS_INVALID_USER_BUFFER s
     else let d = rq_edid rq; (st, s1) = validate_ioctl (Some (EdidIn d)) s in
     if st \<noteq> STATUS_SUCCESS then Some (st, s1)
     else if rq_out_len rq < SIZEOF_EDID_INFO then refuse STATUS_BUFFER_TOO_SMALL s1
     else let t = ei_screen_num d in
     if \<not> nt_success (rq_retrieve_out rq SIZEOF_EDID_INFO) then refuse STATUS_INSUFFICIENT_RESOURCES s1
     else do {
       n0 \<leftarrow> get_mode_list_size t a;
       let n1 = (if n0 = 0 then of_nat QEMU_MODELIST_SIZE else n0);
       let n = (if of_nat MODE_LIST_MAX_SIZE < n1 then of_nat MODE_LIST_MAX_SIZE else n1);
       src' \<leftarrow> get_edid_data t a;
       bytes \<leftarrow> copy_memory EDID_V1_BLOCK_SIZE (ei_edid_data d) src';
       sc \<leftarrow> nth_opt (m_screen a) (unat t);
       ml \<leftarrow> copy_resolution sc n (ei_mode_list d);
       Some (STATUS_SUCCESS, s1\<lparr>io_info := SIZEOF_EDID_INFO,
         io_resp := Some (RespEdid \<lparr>ei_edid_data = bytes, ei_mode_size = n, ei_screen_num = t,
           ei_mode_list = ml\<rparr>)\<rparr>) })"

definition ioctl_request_total_screens :: "request \<Rightarrow> 'q ios \<Rightarrow> (u32 \<times> 'q ios) option" where
  "ioctl_request_total_screens rq s = (case io_adapter s of
     None \<Rightarrow> refuse STATUS_INSUFFICIENT_RESOURCES s
   | Some a \<Rightarrow>
     if rq_out_len rq < SIZEOF_SCREEN_INFO then refuse STATUS_BUFFER_TOO_SMALL s
     else if \<not> nt_success (rq_retrieve_out rq SIZEOF_SCREEN_INFO) then refuse STATUS_INSUFFICIENT_RESOURCES s
     else let (st, s1) = validate_ioctl (Some (TotalScreensIn (rq_total_screens rq))) s in
     if st \<noteq> STATUS_SUCCESS then Some (st, s1)
     else Some (STATUS_SUCCESS, s1\<lparr>io_info := SIZEOF_SCREEN_INFO,
       io_resp := Some (RespScreens (m_u32NumScanouts a))\<rparr>))"

definition ioctl_request_hp_event_info :: "request \<Rightarrow> 'q ios \<Rightarrow> (u32 \<times> 'q ios) option" where
  "ioctl_request_hp_event_info rq s =
     (if rq_in_len rq < SIZEOF_HP_INFO then refuse STATUS_BUFFER_TOO_SMALL s
      else if \<not> nt_success (rq_retrieve_in rq SIZEOF_HP_INFO) then refuse STATUS_INVALID_USER_BUFFER s
      else case io_adapter s of
        None \<Rightarrow> refuse STATUS_INSUFFICIENT_RESOURCES s
      | Some a \<Rightarrow>
        if rq_out_len rq < SIZEOF_HP_INFO then refuse STATUS_BUFFER_TOO_SMALL s
        else if \<not> nt_success (rq_retrieve_out rq SIZEOF_HP_INFO) then refuse STATUS_INSUFFICIENT_RESOURCES s
        else let h = rq_hp rq; (st, s1) = validate_ioctl (Some (HpEventIn h)) s in
        if st \<noteq> STATUS_SUCCESS then Some (st, s1)
        else do {
          h' \<leftarrow> fill_present_status h a;
          Some (STATUS_SUCCESS, (set_event (rq_event rq) (hp_event h) s1)\<lparr>io_info := SIZEOF_HP_INFO,
            io_resp := Some (RespHotplug h')\<rparr>) })"

text \<open>A negative coordinate becomes the edge.\<close>
definition clamp_edge :: "u32 \<Rightarrow> u32" where
  "clamp_edge x = (if sint x < 0 then 0 else x)"

definition cursor_shape :: "cursor_data \<Rightarrow> pointer_shape" where
  "cursor_shape c = \<lparr>ps_X = clamp_edge (cd_cursor_x c), ps_Y = clamp_edge (cd_cursor_y c),
     ps_VidPnSourceId = cd_screen_num c, ps_Width = cd_width c, ps_Height = cd_height c,
     ps_XHot = cd_x_hot c, ps_YHot = cd_y_hot c\<rparr>"

definition ioctl_set_pointer_shape :: "'q env \<Rightarrow> request \<Rightarrow> 'q ios \<Rightarrow> (u32 \<times> 'q ios) option" where
  "ioctl_set_pointer_shape e rq s =
     (if \<not> rq_irp rq then refuse STATUS_INVALID_PARAMETER s
      else if \<not> rq_stack rq then refuse STATUS_INVALID_PARAMETER s
      else case io_adapter s of
        None \<Rightarrow> refuse STATUS_INSUFFICIENT_RESOURCES s
      | Some a \<Rightarrow>
        if rq_in_len rq < SIZEOF_CURSOR_DATA then refuse STATUS_BUFFER_TOO_SMALL s
        else if rq_type3 rq = 0 then refuse STATUS_INVALID_PARAMETER s
        else if \<not> rq_passive rq then refuse STATUS_INVALID_DEVICE_REQUEST s
        else if rq_probe_read rq (rq_type3 rq) SIZEOF_CURSOR_DATA \<noteq> 0
          then refuse (rq_probe_read rq (rq_type3 rq) SIZEOF_CURSOR_DATA) s
        else let c = rq_cursor rq; (st, s1) = validate_ioctl (Some (CursorIn c)) s in
        if st \<noteq> STATUS_SUCCESS then Some (st, s1)
        else if cd_width c = 0 \<or> cd_height c = 0 then refuse STATUS_INVALID_PARAMETER s1
        else let widthBytes = ucast (cd_width c) * 4 :: u64 in
        if - 1 div widthBytes < ucast (cd_height c) then refuse STATUS_INVALID_PARAMETER s1
        else let n = ucast (cd_height c) * widthBytes in
        if rq_probe_read rq (cd_data c) n \<noteq> 0 then refuse (rq_probe_read rq (cd_data c) n) s1
        else do {
          (st, a1) \<leftarrow> set_pointer_shape e (cursor_shape c) (cd_color_format c) a;
          let s2 = s1\<lparr>io_adapter := Some a1\<rparr>;
          if st \<noteq> StatusSuccess then refuse STATUS_UNSUCCESSFUL s2 else answer_user rq s2 })"

definition ioctl_set_pointer_position :: "'q env \<Rightarrow> request \<Rightarrow> 'q ios \<Rightarrow> (u32 \<times> 'q ios) option" where
  "ioctl_set_pointer_position e rq s = (case io_adapter s of
     None \<Rightarrow> refuse STATUS_INSUFFICIENT_RESOURCES s
   | Some a \<Rightarrow>
     if rq_in_len rq < SIZEOF_CURSOR_DATA then refuse STATUS_BUFFER_TOO_SMALL s
     else if \<not> nt_success (rq_retrieve_in rq (rq_in_len rq)) then refuse STATUS_INVALID_USER_BUFFER s
     else let c = rq_cursor rq; (st, s1) = validate_ioctl (Some (CursorPositionIn c)) s in
     if st \<noteq> STATUS_SUCCESS then Some (st, s1)
     else do {
       (st, a1) \<leftarrow> set_pointer_position e (cd_screen_num c) (clamp_edge (cd_cursor_x c))
         (clamp_edge (cd_cursor_y c)) a;
       let s2 = s1\<lparr>io_adapter := Some a1\<rparr>;
       if st \<noteq> StatusSuccess then refuse STATUS_UNSUCCESSFUL s2 else Some (STATUS_SUCCESS, s2) })"

section \<open>The dispatch of a request\<close>

text \<open>The answer the callback itself gives for the codes that are buffered.\<close>
definition answer_buffered :: "request \<Rightarrow> 'q ios \<Rightarrow> (u32 \<times> 'q ios) option" where
  "answer_buffered rq s =
     (if rq_out_len rq < SIZEOF_IOCTL_RESPONSE then refuse STATUS_BUFFER_TOO_SMALL s
      else if \<not> nt_success (rq_retrieve_out rq SIZEOF_IOCTL_RESPONSE)
        then refuse STATUS_INSUFFICIENT_RESOURCES s
      else Some (STATUS_SUCCESS, s\<lparr>io_resp := Some (RespRetval INTELVIRTDISPLAYKMD_SUCCESS),
        io_info := SIZEOF_IOCTL_RESPONSE\<rparr>))"

definition ioctl_release_fb :: "'q env \<Rightarrow> request \<Rightarrow> 'q ios \<Rightarrow> (u32 \<times> 'q ios) option" where
  "ioctl_release_fb e rq s =
     (if rq_in_len rq < SIZEOF_UINT32 then refuse STATUS_BUFFER_TOO_SMALL s
      else if \<not> nt_success (rq_retrieve_in rq SIZEOF_UINT32) then refuse STATUS_INVALID_USER_BUFFER s
      else case io_adapter s of
        None \<Rightarrow> refuse STATUS_DEVICE_NOT_READY s
      | Some a \<Rightarrow> do {
          (st, a1) \<leftarrow> release_frame_buffer e (rq_screen rq) a;
          let s1 = s\<lparr>io_adapter := Some a1\<rparr>;
          if \<not> nt_success (status_code st) then refuse (status_code st) s1
          else Some (STATUS_SUCCESS, s1) })"

definition ioctl_handler :: "'q env \<Rightarrow> request \<Rightarrow> 'q ios \<Rightarrow> (u32 \<times> 'q ios) option" where
  "ioctl_handler e rq s = (case rq_code rq of
     FrameDataCode \<Rightarrow> ioctl_request_present_fb e rq s
   | CursorDataCode \<Rightarrow> ioctl_set_pointer_shape e rq s
   | CursorPosCode \<Rightarrow> do {
       (st, s1) \<leftarrow> ioctl_set_pointer_position e rq s;
       if st \<noteq> STATUS_SUCCESS then Some (st, s1) else answer_buffered rq s1 }
   | GetEdidCode \<Rightarrow> ioctl_request_edid rq s
   | SetModeCode \<Rightarrow> do {
       (st, s1) \<leftarrow> ioctl_request_set_mode e rq s;
       if st \<noteq> STATUS_SUCCESS then Some (st, s1) else answer_buffered rq s1 }
   | TestImageCode \<Rightarrow> ioctl_request_present_fb e rq s
   | TotalScreensCode \<Rightarrow> ioctl_request_total_screens rq s
   | HpEventCode \<Rightarrow> ioctl_request_hp_event_info rq s
   | ReleaseFbCode \<Rightarrow> ioctl_release_fb e rq s
   | OtherCode _ \<Rightarrow> Some (STATUS_SUCCESS, s))"

definition evt_io_device_control :: "'q env \<Rightarrow> request \<Rightarrow> 'q ios \<Rightarrow> 'q ios option" where
  "evt_io_device_control e rq s =
     (if rq_out_len rq = 0 \<or> rq_in_len rq = 0 then Some (complete STATUS_INVALID_PARAMETER s)
      else do {
        (st, s1) \<leftarrow> ioctl_handler e rq s;
        if st \<noteq> STATUS_SUCCESS then Some s1 else Some (complete STATUS_SUCCESS s1) })"

end
