(* ===== verification/IoctlProps.thy ===== *)
theory IoctlProps
  imports Ioctl GpuProtocol
begin

text \<open>
  What the request handlers guarantee: one completion per request and an answer that fits, the
  exact set of frames that reach the adapter, the overlap test, the requests for the identification
  data, and the composition with the adapter: no sequence of requests, whatever they hold, makes
  the host refuse a command.
\<close>

section \<open>The shape of a handler\<close>

fun response_size :: "response \<Rightarrow> u64" where
  "response_size (RespRetval r) = SIZEOF_IOCTL_RESPONSE"
| "response_size (RespEdid d) = SIZEOF_EDID_INFO"
| "response_size (RespScreens n) = SIZEOF_SCREEN_INFO"
| "response_size (RespHotplug h) = SIZEOF_HP_INFO"

text \<open>A request is answered: the bytes reported as returned are those of the answer, and the
  output buffer holds them.\<close>
definition answered :: "request \<Rightarrow> 'q ios \<Rightarrow> bool" where
  "answered rq s \<longleftrightarrow> (\<exists>r. io_resp s = Some r \<and> io_info s = response_size r \<and> response_size r \<le> rq_out_len rq)"

text \<open>What every handler keeps to: it completes a request it refuses, and one it has served
  is left to the caller.\<close>
definition handled :: "'q ios \<Rightarrow> u32 \<times> 'q ios \<Rightarrow> bool" where
  "handled s r \<longleftrightarrow> (case r of (st, s') \<Rightarrow>
     if st = STATUS_SUCCESS then io_done s' = io_done s
     else (\<exists>c. io_done s' = io_done s @ [c] \<and> c \<noteq> STATUS_SUCCESS) \<and> io_info s' = io_info s)"

lemmas handler_simps = handled_def answered_def refuse_def complete_def validate_ioctl_def Let_def

lemma answer_user_handled:
  assumes "answer_user rq s = Some (st, s')"
  shows "handled s (st, s') \<and> (st = STATUS_SUCCESS \<longrightarrow> answered rq s') \<and> io_adapter s' = io_adapter s"
  using assms by (auto simp: answer_user_def handler_simps status_defs split: if_splits)

lemma answer_buffered_handled:
  assumes "answer_buffered rq s = Some (st, s')"
  shows "handled s (st, s') \<and> (st = STATUS_SUCCESS \<longrightarrow> answered rq s') \<and> io_adapter s' = io_adapter s"
  using assms by (auto simp: answer_buffered_def handler_simps status_defs split: if_splits)

lemma handled_trans:
  assumes "io_done s1 = io_done s" "io_info s1 = io_info s" "handled s1 r"
  shows "handled s r"
  using assms by (auto simp: handled_def split: prod.splits)

lemma set_mode_handled:
  assumes "ioctl_request_set_mode e rq s = Some (st, s')"
  shows "handled s (st, s') \<and> io_info s' = io_info s"
  using assms by (auto simp: ioctl_request_set_mode_def handler_simps status_defs
      split: if_splits option.splits elim!: bind_SomeE)

lemma present_fb_handled:
  assumes "ioctl_request_present_fb e rq s = Some (st, s')"
  shows "handled s (st, s') \<and> (st = STATUS_SUCCESS \<longrightarrow> answered rq s')"
  using assms by (auto simp: ioctl_request_present_fb_def refuse_def complete_def validate_ioctl_def handled_def Let_def
      status_defs split: if_splits option.splits elim!: bind_SomeE
      dest!: answer_user_handled)

lemma pointer_shape_handled:
  assumes "ioctl_set_pointer_shape e rq s = Some (st, s')"
  shows "handled s (st, s') \<and> (st = STATUS_SUCCESS \<longrightarrow> answered rq s')"
  using assms by (auto simp: ioctl_set_pointer_shape_def refuse_def complete_def validate_ioctl_def handled_def Let_def
      status_defs split: if_splits option.splits elim!: bind_SomeE
      dest!: answer_user_handled)

lemma pointer_position_handled:
  assumes "ioctl_set_pointer_position e rq s = Some (st, s')"
  shows "handled s (st, s') \<and> io_info s' = io_info s"
  using assms by (auto simp: ioctl_set_pointer_position_def handler_simps status_defs
      split: if_splits option.splits elim!: bind_SomeE)

lemma edid_handled:
  assumes "ioctl_request_edid rq s = Some (st, s')"
  shows "handled s (st, s') \<and> (st = STATUS_SUCCESS \<longrightarrow> answered rq s')"
  using assms by (auto simp: ioctl_request_edid_def handler_simps status_defs
      split: if_splits option.splits elim!: bind_SomeE)

lemma total_screens_handled:
  assumes "ioctl_request_total_screens rq s = Some (st, s')"
  shows "handled s (st, s') \<and> (st = STATUS_SUCCESS \<longrightarrow> answered rq s')"
  using assms by (auto simp: ioctl_request_total_screens_def handler_simps status_defs
      split: if_splits option.splits)

lemma set_event_same:
  "io_done (set_event l h s) = io_done s" "io_info (set_event l h s) = io_info s"
  "io_adapter (set_event l h s) = io_adapter s"
  by (simp_all add: set_event_def split: option.split)

lemma hp_event_handled:
  assumes "ioctl_request_hp_event_info rq s = Some (st, s')"
  shows "handled s (st, s') \<and> (st = STATUS_SUCCESS \<longrightarrow> answered rq s')"
  using assms by (auto simp: ioctl_request_hp_event_info_def handler_simps status_defs set_event_same
      split: if_splits option.splits elim!: bind_SomeE)

lemma release_fb_handled:
  assumes "ioctl_release_fb e rq s = Some (st, s')"
  shows "handled s (st, s') \<and> io_info s' = io_info s"
  using assms by (auto simp: ioctl_release_fb_def handler_simps status_defs nt_success_def
      split: if_splits option.splits elim!: bind_SomeE)

text \<open>The codes with an answer.\<close>
fun has_answer :: "ioctl_code \<Rightarrow> bool" where
  "has_answer (OtherCode c) = False"
| "has_answer ReleaseFbCode = False"
| "has_answer _ = True"

lemma handler_handled:
  assumes "ioctl_handler e rq s = Some (st, s')"
  shows "handled s (st, s') \<and> (st = STATUS_SUCCESS \<longrightarrow>
    (if has_answer (rq_code rq) then answered rq s' else io_info s' = io_info s))"
proof (cases "rq_code rq")
  case CursorPosCode
  then obtain st1 s1 where p: "ioctl_set_pointer_position e rq s = Some (st1, s1)"
    and r: "(if st1 \<noteq> STATUS_SUCCESS then Some (st1, s1) else answer_buffered rq s1) = Some (st, s')"
    using assms by (auto simp: ioctl_handler_def elim!: bind_SomeE)
  show ?thesis using pointer_position_handled [OF p] r CursorPosCode
    by (auto simp: handled_def split: if_splits dest!: answer_buffered_handled)
next
  case SetModeCode
  then obtain st1 s1 where p: "ioctl_request_set_mode e rq s = Some (st1, s1)"
    and r: "(if st1 \<noteq> STATUS_SUCCESS then Some (st1, s1) else answer_buffered rq s1) = Some (st, s')"
    using assms by (auto simp: ioctl_handler_def elim!: bind_SomeE)
  show ?thesis using set_mode_handled [OF p] r SetModeCode
    by (auto simp: handled_def split: if_splits dest!: answer_buffered_handled)
next
  case (OtherCode c)
  then show ?thesis using assms by (auto simp: ioctl_handler_def handled_def)
qed (use assms in \<open>auto simp: ioctl_handler_def handled_def split: if_splits dest!: present_fb_handled pointer_shape_handled
   edid_handled total_screens_handled hp_event_handled release_fb_handled\<close>)

text \<open>C14: Every request that is served is completed exactly once, on every path of every handler,
  and the bytes a request reports as returned are those of its answer and fit the
  output buffer: nothing else of the driver's memory is copied to the user.\<close>
theorem request_completed_once:
  assumes "evt_io_device_control e rq s = Some s'"
  shows "\<exists>st. io_done s' = io_done s @ [st]
    \<and> (if st = STATUS_SUCCESS \<and> has_answer (rq_code rq) then answered rq s' else io_info s' = io_info s)"
proof (cases "rq_out_len rq = 0 \<or> rq_in_len rq = 0")
  case True
  then have "s' = complete STATUS_INVALID_PARAMETER s" using assms by (auto simp: evt_io_device_control_def)
  then show ?thesis by (intro exI [of _ STATUS_INVALID_PARAMETER]) (simp add: complete_def status_defs)
next
  case False
  then obtain st s1 where h: "ioctl_handler e rq s = Some (st, s1)"
    and s': "(if st \<noteq> STATUS_SUCCESS then Some s1 else Some (complete STATUS_SUCCESS s1)) = Some s'"
    using assms by (auto simp: evt_io_device_control_def elim!: bind_SomeE)
  show ?thesis using handler_handled [OF h] s' by (auto simp: handled_def complete_def answered_def split: if_splits)
qed

section \<open>Validation\<close>

lemma unat_max_u64: "unat (- 1 :: u64) = 2 ^ 64 - 1"
  by (simp add: unsigned_minus_1_eq_mask mask_eq_exp_minus_1)

lemma unat_frame_limit: "unat (ucast MAX_WIDTH_SIZE * ucast MAX_HEIGHT_SIZE * 4 :: u64) = 33177600"
  by (simp add: ioctl_consts)

lemma stride_limit:
  fixes h st :: u32
  assumes "h \<noteq> 0"
  shows "((ucast MAX_WIDTH_SIZE * ucast MAX_HEIGHT_SIZE * 4 :: u64) div ucast h < ucast st)
    \<longleftrightarrow> 33177600 < unat st * unat h"
proof -
  have "0 < unat h" using assms by (simp add: unat_gt_0)
  have "((ucast MAX_WIDTH_SIZE * ucast MAX_HEIGHT_SIZE * 4 :: u64) div ucast h < ucast st)
      \<longleftrightarrow> 33177600 div unat h < unat st"
    by (simp add: word_less_nat_alt unat_div unat_frame_limit unat_ucast_u32_u64)
  also have "\<dots> \<longleftrightarrow> 33177600 < unat st * unat h"
    using \<open>0 < unat h\<close> by (simp add: div_less_iff_less_mult)
  finally show ?thesis .
qed

definition frame_ok :: "frame_meta \<Rightarrow> bool" where
  "frame_ok f \<longleftrightarrow> unat (fm_screen_num f) < 4 \<and> 0 < unat (fm_width f) \<and> unat (fm_width f) \<le> 3840
     \<and> 0 < unat (fm_height f) \<and> unat (fm_height f) \<le> 2160
     \<and> 0 < unat (fm_stride f) \<and> unat (fm_stride f) * unat (fm_height f) \<le> 33177600
     \<and> 4 * unat (fm_width f) \<le> unat (fm_pitch f) \<and> unat (fm_pitch f) \<le> 15360
     \<and> fm_color_format f \<in> {FRAME_TYPE_BGRA, FRAME_TYPE_RGBA, FRAME_TYPE_YUV420}"

lemma format_range:
  "(f \<noteq> 0 \<and> \<not> 5 \<le> f \<and> f \<noteq> 3) \<longleftrightarrow> f = 1 \<or> f = 2 \<or> (f :: u32) = 4"
  by (auto simp: word_le_nat_alt word_less_nat_alt unat_eq_of_nat) (auto simp: word_unat_eq_iff)

lemma validate_frame_ok: "validate_frame f = STATUS_SUCCESS \<longleftrightarrow> frame_ok f"
proof -
  have w: "unat (fm_width f * 4) = 4 * unat (fm_width f)" if "unat (fm_width f) \<le> 3840"
    using that by (simp add: unat_mult_lem [THEN iffD1] unat_word_ariths)
  show ?thesis
    unfolding validate_frame_def frame_ok_def Let_def
    using w stride_limit [of "fm_height f" "fm_stride f"] format_range [of "fm_color_format f"]
    by (auto simp: status_defs ioctl_consts frame_types word_le_nat_alt word_less_nat_alt unat_gt_0 unat_eq_0)
qed

text \<open>C24: The frames that pass the validation are exactly those on one of the four screens, of at most 3840
  by 2160 pixels, whose rows of pixels fit the pitch, whose stride times height is at most the size of the
  largest frame, and whose format is not the ten-bit one; and for such a frame the sizes the driver
  computes with it do not wrap: the length it probes, and the length it locks and maps.\<close>
theorem validated_frames:
  "if frame_ok f
   then validate_frame f = STATUS_SUCCESS
     \<and> (\<exists>n. frame_bytes f = Some n \<and> unat n = unat (fm_height f) * unat (fm_stride f))
     \<and> unat (fm_height f * fm_pitch f) = unat (fm_height f) * unat (fm_pitch f)
     \<and> unat (fm_height f * fm_pitch f) \<le> 33177600
   else validate_frame f \<noteq> STATUS_SUCCESS"
proof (cases "frame_ok f")
  case ok: True
  let ?h = "fm_height f" and ?s = "fm_stride f" and ?p = "fm_pitch f"
  have "unat ?h * unat ?s < 2 ^ 64" using ok by (simp add: frame_ok_def mult.commute)
  then have "unat (ucast ?h * ucast ?s :: u64) = unat ?h * unat ?s"
    by (simp add: unat_word_ariths unat_ucast_u32_u64)
  moreover have "?s \<noteq> 0" using ok by (auto simp: frame_ok_def)
  moreover have "ucast ?h \<le> (- 1 :: u64) div ucast ?s"
  proof -
    have "unat ?h \<le> (2 ^ 64 - 1) div unat ?s"
      using ok \<open>?s \<noteq> 0\<close> by (simp add: less_eq_div_iff_mult_less_eq frame_ok_def unat_gt_0 mult.commute)
    then show ?thesis by (simp add: word_le_nat_alt unat_div unat_ucast_u32_u64 unat_max_u64)
  qed
  ultimately have "\<exists>n. frame_bytes f = Some n \<and> unat n = unat ?h * unat ?s" by (simp add: frame_bytes_def)
  moreover have l: "unat ?h * unat ?p \<le> 2160 * 15360" using ok by (intro mult_mono) (auto simp: frame_ok_def)
  moreover have "unat (?h * ?p) = unat ?h * unat ?p" using l by (simp add: unat_word_ariths)
  ultimately show ?thesis using ok by (simp add: validate_frame_ok)
qed (simp add: validate_frame_ok)

text \<open>The overlap test is exact for two buffers that do not wrap around the address space: it says yes
  just when some address is in both.  For one that does wrap it always says no.\<close>
theorem buffers_overlap_exact:
  "if inp = 0 \<or> out = 0 \<or> 2 ^ 64 \<le> unat inp + unat ilen \<or> 2 ^ 64 \<le> unat out + unat olen
   then \<not> buffers_overlap inp ilen out olen
   else buffers_overlap inp ilen out olen \<longleftrightarrow>
     {unat inp ..< unat inp + unat ilen} \<inter> {unat out ..< unat out + unat olen} \<noteq> {}"
proof -
  have wrap: "- 1 - x < n \<longleftrightarrow> 2 ^ 64 \<le> unat x + unat n" for x n :: u64
  proof -
    have l: "unat x < 2 ^ 64" by (rule order_less_le_trans [OF unsigned_less]) simp
    have "unat (- 1 - x) = 2 ^ 64 - 1 - unat x"
      using l by (subst unat_sub) (simp_all add: word_le_nat_alt unat_max_u64 del: One_nat_def)
    then show ?thesis using l by (simp add: word_less_nat_alt) linarith
  qed
  have sum: "unat (x + n) = unat x + unat n" if "\<not> 2 ^ 64 \<le> unat x + unat n" for x n :: u64
    using that by (simp add: unat_add_lem [THEN iffD1])
  have meet: "{a ..< a + m} \<inter> {b ..< b + n} \<noteq> {} \<longleftrightarrow> 0 < m \<and> 0 < n \<and> a < b + n \<and> b < a + m" for a b m n :: nat
  proof -
    have "max a b \<in> {a ..< a + m} \<inter> {b ..< b + n}" if "0 < m" "0 < n" "a < b + n" "b < a + m"
      using that by auto
    then show ?thesis by auto
  qed
  have "buffers_overlap inp ilen out olen \<longleftrightarrow> inp \<noteq> 0 \<and> out \<noteq> 0 \<and> ilen \<noteq> 0 \<and> olen \<noteq> 0
      \<and> \<not> 2 ^ 64 \<le> unat inp + unat ilen \<and> \<not> 2 ^ 64 \<le> unat out + unat olen
      \<and> inp < out + olen \<and> out < inp + ilen"
    unfolding buffers_overlap_def wrap by auto
  then show ?thesis
    using sum [of inp ilen] sum [of out olen] by (auto simp: meet word_less_nat_alt unat_gt_0)
qed

lemma validate_code_refused:
  assumes "validate_frame (rq_frame rq) \<noteq> STATUS_SUCCESS"
  shows "\<exists>st. st \<noteq> STATUS_SUCCESS \<and> ioctl_request_present_fb e rq s = Some (st, complete st s)"
    and "\<exists>st. st \<noteq> STATUS_SUCCESS \<and> ioctl_request_set_mode e rq s = Some (st, complete st s)"
  using assms by (auto simp: ioctl_request_present_fb_def ioctl_request_set_mode_def validate_ioctl_def refuse_def Let_def
      status_defs split: option.split)

text \<open>C31: A frame that does not pass the validation never reaches the adapter: the request returns,
  completed with an error, and nothing else has changed.\<close>
theorem bad_frame_refused:
  assumes "\<not> frame_ok (rq_frame rq)" "rq_code rq \<in> {FrameDataCode, TestImageCode, SetModeCode}"
  shows "\<exists>st. st \<noteq> STATUS_SUCCESS \<and> evt_io_device_control e rq s = Some (complete st s)"
proof (cases "rq_out_len rq = 0 \<or> rq_in_len rq = 0")
  case True
  then show ?thesis
    by (intro exI [of _ STATUS_INVALID_PARAMETER]) (auto simp: evt_io_device_control_def status_defs)
next
  case False
  have "validate_frame (rq_frame rq) \<noteq> STATUS_SUCCESS" using assms(1) by (simp add: validate_frame_ok)
  then obtain st st' where "st \<noteq> STATUS_SUCCESS" "ioctl_request_present_fb e rq s = Some (st, complete st s)"
      "st' \<noteq> STATUS_SUCCESS" "ioctl_request_set_mode e rq s = Some (st', complete st' s)"
    using validate_code_refused by metis
  then show ?thesis using assms(2) False by (auto simp: evt_io_device_control_def ioctl_handler_def)
qed

section \<open>The requests and the adapter\<close>

text \<open>The adapter before and after a handler: none stays none, and one makes steps of its own,
  of which at most one is a pointer shape that failed.\<close>
definition adapter_moves :: "'q env \<Rightarrow> nat \<Rightarrow> 'q ios \<Rightarrow> 'q ios \<Rightarrow> bool" where
  "adapter_moves e n s s' \<longleftrightarrow> (case io_adapter s of
     None \<Rightarrow> io_adapter s' = None
   | Some a \<Rightarrow> \<exists>a' k. io_adapter s' = Some a' \<and> k \<le> n \<and>
       (\<forall>a0 m. adapter_run e a0 m a \<longrightarrow> adapter_run e a0 (m + k) a'))"

lemma moves_same: "io_adapter s' = io_adapter s \<Longrightarrow> adapter_moves e n s s'"
  by (auto simp: adapter_moves_def intro!: exI [of _ 0] split: option.split)

lemma moves_trans:
  assumes "adapter_moves e n s s1" "adapter_moves e m s1 s2"
  shows "adapter_moves e (n + m) s s2"
proof (cases "io_adapter s")
  case None
  then show ?thesis using assms by (simp add: adapter_moves_def)
next
  case (Some a)
  then obtain a1 k where a1: "io_adapter s1 = Some a1" "k \<le> n"
      "\<And>a0 i. adapter_run e a0 i a \<Longrightarrow> adapter_run e a0 (i + k) a1"
    using assms(1) by (auto simp: adapter_moves_def)
  then obtain a2 l where a2: "io_adapter s2 = Some a2" "l \<le> m"
      "\<And>a0 i. adapter_run e a0 i a1 \<Longrightarrow> adapter_run e a0 (i + l) a2"
    using assms(2) by (auto simp: adapter_moves_def)
  have "adapter_run e a0 (i + (k + l)) a2" if "adapter_run e a0 i a" for a0 i
    using a2(3) [OF a1(3) [OF that]] by (simp add: add.assoc)
  then show ?thesis using Some a1(2) a2(1,2) by (auto simp: adapter_moves_def intro!: exI [of _ "k + l"])
qed

lemma moves_step:
  assumes "io_adapter s = Some a" "io_adapter s' = Some a'" "adapter_step e a k a'" "k \<le> n"
  shows "adapter_moves e n s s'"
  using assms adapter_run.step by (auto simp: adapter_moves_def intro!: exI [of _ k])

lemma answer_moves:
  "answer_user rq s = Some (st, s') \<Longrightarrow> adapter_moves e n s s'"
  "answer_buffered rq s = Some (st, s') \<Longrightarrow> adapter_moves e n s s'"
  by (auto intro!: moves_same dest!: answer_user_handled answer_buffered_handled)

lemma frame_moves:
  assumes "io_adapter s = Some a" "set_current_mode_ext e cm a = Some (st, tk, a1)" "io_adapter s' = Some a1"
  shows "adapter_moves e 0 s s'"
  using moves_step [OF assms(1,3) adapter_step.frame [OF assms(2)]] by simp

lemma set_mode_moves:
  assumes "ioctl_request_set_mode e rq s = Some (st, s')"
  shows "adapter_moves e 0 s s'"
proof (cases "io_adapter s' = io_adapter s")
  case False
  then obtain a st1 tk a1 where a: "io_adapter s = Some a"
    and f: "set_current_mode_ext e (Some (frame_mode (rq_frame rq))) a = Some (st1, tk, a1)"
    and r: "io_adapter s' = Some a1 \<or>
      (\<exists>cm a2. black_out_screen e cm a1 = Some a2 \<and> io_adapter s' = Some a2)"
    using assms by (auto simp: ioctl_request_set_mode_def refuse_def complete_def validate_ioctl_def Let_def
        split: if_splits option.splits elim!: bind_SomeE) blast+
  from r show ?thesis
  proof
    assume "io_adapter s' = Some a1"
    with a f show ?thesis by (rule frame_moves)
  next
    assume "\<exists>cm a2. black_out_screen e cm a1 = Some a2 \<and> io_adapter s' = Some a2"
    then obtain cm a2 where b: "black_out_screen e cm a1 = Some a2" "io_adapter s' = Some a2" by blast
    let ?m = "s\<lparr>io_adapter := Some a1\<rparr>"
    have "adapter_moves e 0 s ?m" by (rule frame_moves [OF a f]) simp
    moreover have "adapter_moves e 0 ?m s'"
      using moves_step [OF _ b(2) adapter_step.blackout [OF b(1)], of ?m] by simp
    ultimately show ?thesis using moves_trans by fastforce
  qed
qed (rule moves_same)

lemma present_fb_moves:
  assumes "ioctl_request_present_fb e rq s = Some (st, s')"
  shows "adapter_moves e 0 s s'"
proof (cases "io_adapter s' = io_adapter s")
  case False
  then obtain a cm st1 tk a1 where "io_adapter s = Some a" "set_current_mode_ext e cm a = Some (st1, tk, a1)"
      "io_adapter s' = Some a1"
    using assms by (auto simp: ioctl_request_present_fb_def refuse_def complete_def validate_ioctl_def Let_def
        execute_present_def split: if_splits option.splits elim!: bind_SomeE dest!: answer_user_handled)
  then show ?thesis by (rule frame_moves)
qed (rule moves_same)

lemma pointer_shape_moves:
  assumes "ioctl_set_pointer_shape e rq s = Some (st, s')"
  shows "adapter_moves e 1 s s'"
proof (cases "io_adapter s' = io_adapter s")
  case False
  then obtain a ps cf st1 a1 where "io_adapter s = Some a" "set_pointer_shape e ps cf a = Some (st1, a1)"
      "io_adapter s' = Some a1"
    using assms by (auto simp: ioctl_set_pointer_shape_def refuse_def complete_def validate_ioctl_def Let_def
        split: if_splits option.splits elim!: bind_SomeE dest!: answer_user_handled)
  then show ?thesis by (auto intro!: moves_step [OF _ _ adapter_step.shape])
qed (rule moves_same)

lemma pointer_position_moves:
  assumes "ioctl_set_pointer_position e rq s = Some (st, s')"
  shows "adapter_moves e 0 s s'"
proof (cases "io_adapter s' = io_adapter s")
  case False
  then obtain a t x y st1 a1 where "io_adapter s = Some a" "set_pointer_position e t x y a = Some (st1, a1)"
      "io_adapter s' = Some a1"
    using assms by (auto simp: ioctl_set_pointer_position_def refuse_def complete_def validate_ioctl_def Let_def
        split: if_splits option.splits elim!: bind_SomeE)
  then show ?thesis by (auto intro!: moves_step [OF _ _ adapter_step.position])
qed (rule moves_same)

lemma release_fb_moves:
  assumes "ioctl_release_fb e rq s = Some (st, s')"
  shows "adapter_moves e 0 s s'"
proof (cases "io_adapter s' = io_adapter s")
  case False
  then obtain a n st1 a1 where "io_adapter s = Some a" "release_frame_buffer e n a = Some (st1, a1)"
      "io_adapter s' = Some a1"
    using assms by (auto simp: ioctl_release_fb_def refuse_def complete_def Let_def
        split: if_splits option.splits elim!: bind_SomeE)
  then show ?thesis by (auto intro!: moves_step [OF _ _ adapter_step.release])
qed (rule moves_same)

lemma query_moves:
  "ioctl_request_edid rq s = Some (st, s') \<Longrightarrow> adapter_moves e n s s'"
  "ioctl_request_total_screens rq s = Some (st, s') \<Longrightarrow> adapter_moves e n s s'"
  "ioctl_request_hp_event_info rq s = Some (st, s') \<Longrightarrow> adapter_moves e n s s'"
  by (rule moves_same, auto simp: ioctl_request_edid_def ioctl_request_total_screens_def
      ioctl_request_hp_event_info_def refuse_def complete_def validate_ioctl_def Let_def set_event_same
      split: if_splits option.splits elim!: bind_SomeE)+

definition shape_weight :: "request \<Rightarrow> nat" where
  "shape_weight rq = (if rq_code rq = CursorDataCode then 1 else 0)"

lemma handler_moves:
  assumes "ioctl_handler e rq s = Some (st, s')"
  shows "adapter_moves e (shape_weight rq) s s'"
proof (cases "rq_code rq")
  case CursorPosCode
  then obtain st1 s1 where p: "ioctl_set_pointer_position e rq s = Some (st1, s1)"
    and r: "(if st1 \<noteq> STATUS_SUCCESS then Some (st1, s1) else answer_buffered rq s1) = Some (st, s')"
    using assms by (auto simp: ioctl_handler_def elim!: bind_SomeE)
  show ?thesis using pointer_position_moves [OF p] r CursorPosCode moves_trans [of e 0 s s1 0]
    by (auto simp: shape_weight_def answer_moves split: if_splits)
next
  case SetModeCode
  then obtain st1 s1 where p: "ioctl_request_set_mode e rq s = Some (st1, s1)"
    and r: "(if st1 \<noteq> STATUS_SUCCESS then Some (st1, s1) else answer_buffered rq s1) = Some (st, s')"
    using assms by (auto simp: ioctl_handler_def elim!: bind_SomeE)
  show ?thesis using set_mode_moves [OF p] r SetModeCode moves_trans [of e 0 s s1 0]
    by (auto simp: shape_weight_def answer_moves split: if_splits)
qed (use assms in \<open>auto simp: ioctl_handler_def shape_weight_def query_moves moves_same
  intro: present_fb_moves pointer_shape_moves release_fb_moves simp del: One_nat_def\<close>)

lemma request_moves:
  assumes "evt_io_device_control e rq s = Some s'"
  shows "adapter_moves e (shape_weight rq) s s'"
proof (cases "rq_out_len rq = 0 \<or> rq_in_len rq = 0")
  case True
  then show ?thesis using assms by (auto simp: evt_io_device_control_def complete_def moves_same)
next
  case False
  then obtain st s1 where h: "ioctl_handler e rq s = Some (st, s1)" and "io_adapter s' = io_adapter s1"
    using assms by (auto simp: evt_io_device_control_def complete_def split: if_splits elim!: bind_SomeE)
  then show ?thesis using handler_moves [OF h] by (simp add: adapter_moves_def split: option.splits)
qed

text \<open>Requests, and in between (\<^verbatim>\<open>None\<close>) the device at work.\<close>
fun serve :: "'q env \<Rightarrow> request option list \<Rightarrow> 'q ios \<Rightarrow> 'q ios option" where
  "serve e [] s = Some s"
| "serve e (None # es) s = (case io_adapter s of
     None \<Rightarrow> serve e es s
   | Some a \<Rightarrow> do { a' \<leftarrow> e_wait e a; serve e es (s\<lparr>io_adapter := Some a'\<rparr>) })"
| "serve e (Some rq # es) s = do { s1 \<leftarrow> evt_io_device_control e rq s; serve e es s1 }"

lemma serve_moves:
  "serve e es s = Some s' \<Longrightarrow>
    adapter_moves e (sum_list (map (case_option 0 shape_weight) es)) s s'"
proof (induction e es s rule: serve.induct)
  case (2 e es s)
  show ?case
  proof (cases "io_adapter s")
    case None
    then show ?thesis using 2 by simp
  next
    case (Some a)
    then obtain a' where a': "e_wait e a = Some a'" "serve e es (s\<lparr>io_adapter := Some a'\<rparr>) = Some s'"
      using "2.prems" by (auto elim!: bind_SomeE)
    have "adapter_moves e 0 s (s\<lparr>io_adapter := Some a'\<rparr>)"
      by (rule moves_step [OF Some _ adapter_step.device [OF a'(1)]]) simp_all
    from moves_trans [OF this "2.IH"(2) [OF Some a']] show ?thesis by simp
  qed
next
  case (3 e rq es s)
  then obtain s1 where s1: "evt_io_device_control e rq s = Some s1" "serve e es s1 = Some s'"
    by (auto elim!: bind_SomeE)
  from moves_trans [OF request_moves [OF s1(1)] "3.IH" [OF s1]] show ?case by simp
qed (simp add: moves_same)


definition demo_request :: "ioctl_code \<Rightarrow> frame_meta \<Rightarrow> request" where
  "demo_request c f = \<lparr>rq_code = c, rq_in_len = 776, rq_out_len = 776, rq_irp = True, rq_stack = True,
     rq_passive = True, rq_type3 = 0x8000, rq_user = 0x9000, rq_retrieve_in = (\<lambda>n. 0), rq_retrieve_out = (\<lambda>n. 0),
     rq_probe_read = (\<lambda>a n. 0), rq_probe_write = (\<lambda>a n. 0), rq_frame = f,
     rq_cursor = \<lparr>cd_screen_num = 0, cd_cursor_x = 0, cd_cursor_y = 0, cd_iscursorvisible = True,
       cd_cursor_version = 0, cd_cursor_type = 0, cd_width = 1, cd_height = 1, cd_pitch = 4,
       cd_color_format = 21, cd_data = 0x6000, cd_x_hot = 0, cd_y_hot = 0\<rparr>,
     rq_edid = \<lparr>ei_edid_data = replicate 256 0, ei_mode_size = 0, ei_screen_num = 0,
       ei_mode_list = replicate 32 (0, 0, 0)\<rparr>,
     rq_total_screens = 0, rq_hp = \<lparr>hp_event = 0, hp_screen_present = [False, False, False, False]\<rparr>,
     rq_screen = 0, rq_event = (\<lambda>h. None)\<rparr>"

definition demo_meta :: "u32 \<Rightarrow> u32 \<Rightarrow> u64 \<Rightarrow> frame_meta" where
  "demo_meta h st addr = \<lparr>fm_width = 1, fm_height = h, fm_color_format = 1, fm_pitch = 4096, fm_stride = st,
     fm_bitrate = 32, fm_addr = addr, fm_refresh_rate = 60, fm_screen_num = 0\<rparr>"

definition demo_device :: "'q adapter \<Rightarrow> 'q ios" where
  "demo_device a = \<lparr>io_adapter = Some a, io_hpd_event = 0, io_done = [], io_info = 0, io_resp = None, io_zeroed = []\<rparr>"

lemma demo_present:
  assumes "set_current_mode_ext e (Some (demo_mode 0x5000)) a = Some (StatusSuccess, tk, a')"
  shows "evt_io_device_control e (demo_request FrameDataCode (demo_meta 1 1024 0x5000)) (demo_device a) =
    Some ((demo_device a')\<lparr>io_done := [STATUS_SUCCESS], io_info := 2,
      io_resp := Some (RespRetval INTELVIRTDISPLAYKMD_SUCCESS)\<rparr>)"
proof -
  have m: "execute_present e 0x5000 4096 1 1 0 1024 a = Some (StatusSuccess, tk, a')"
    using assms by (simp add: execute_present_def demo_mode_def D3DDDIFMT_X8R8G8B8_def)
  have v: "validate_frame (demo_meta 1 1024 0x5000) = STATUS_SUCCESS"
    by (simp add: validate_frame_ok frame_ok_def demo_meta_def frame_types)
  have n: "frame_bytes (demo_meta 1 1024 0x5000) = Some 1024" by (simp add: frame_bytes_def demo_meta_def)
  have sz: "SIZEOF_FRAME_META_DATA = 40" "SIZEOF_IOCTL_RESPONSE = 2"
    by (simp_all add: SIZEOF_FRAME_META_DATA_def SIZEOF_IOCTL_RESPONSE_def)
  have o: "\<not> buffers_overlap 0x5000 1024 0x9000 776" "\<not> buffers_overlap 0x8000 776 0x9000 776"
    by (simp_all add: buffers_overlap_def)
  have "ioctl_request_present_fb e (demo_request FrameDataCode (demo_meta 1 1024 0x5000)) (demo_device a) =
      Some (STATUS_SUCCESS, (demo_device a')\<lparr>io_info := 2, io_resp := Some (RespRetval INTELVIRTDISPLAYKMD_SUCCESS)\<rparr>)"
    using v n m o by (simp add: ioctl_request_present_fb_def demo_request_def demo_device_def validate_ioctl_def Let_def sz
        answer_user_def) (simp add: demo_meta_def answer_user_def sz)
  then show ?thesis
    by (simp add: evt_io_device_control_def ioctl_handler_def) (simp add: demo_request_def demo_device_def complete_def)
qed


theorem bad_frame_refused_witness:
  "evt_io_device_control (demo_env True) (demo_request SetModeCode (demo_meta 0 1024 0x5000))
     (demo_device (demo_adapter True)) \<noteq> None"
  using bad_frame_refused [of "demo_request SetModeCode (demo_meta 0 1024 0x5000)" "demo_env True"
      "demo_device (demo_adapter True)"]
  by (auto simp: demo_request_def demo_meta_def frame_ok_def)

theorem request_completed_once_witness:
  "\<exists>s' st. evt_io_device_control (demo_env True) (demo_request FrameDataCode (demo_meta 1 1024 0x5000))
      (demo_device (demo_adapter True)) = Some s' \<and> io_done s' = [st]"
proof -
  obtain a where a: "set_current_mode_ext (demo_env True) (Some (demo_mode 0x5000)) (demo_adapter True) =
      Some (StatusSuccess, True, a)"
    using demo_frame by blast
  from request_completed_once [OF demo_present [OF a]] demo_present [OF a] show ?thesis by (auto simp: demo_device_def)
qed

section \<open>The region a mode set fills with zeros\<close>

lemma black_out_no_frame:
  assumes "nth_opt (m_screen a) (unat (di_TargetId (cm_DispInfo cm))) = Some sc"
    and "get_framebuffer_obj Front sc = Some None"
  shows "black_out_screen e cm a = Some a"
  using assms by (simp add: black_out_screen_def Let_def)

text \<open>C16: A mode set for a size that is not in the screen's table is a success that leaves the adapter as it was, and then
  fills pitch times height bytes with zeros from the start of the screen's frame memory, however small that is: a
  request that passes the validation writes past the end of kernel memory.\<close>
theorem set_mode_zeroes_past_segment:
  assumes "rq_code rq = SetModeCode" "frame_ok (rq_frame rq)" "fm_addr (rq_frame rq) = 0"
    and "SIZEOF_FRAME_META_DATA \<le> rq_in_len rq" "SIZEOF_IOCTL_RESPONSE \<le> rq_out_len rq"
    and "\<And>n. nt_success (rq_retrieve_in rq n) \<and> nt_success (rq_retrieve_out rq n)"
    and "io_adapter s = Some a" "nth_opt (m_screen a) (unat (fm_screen_num (rq_frame rq))) = Some sc"
    and "m_ModeCount sc \<noteq> 0" "find_mode sc (cm_DispInfo (frame_mode (rq_frame rq))) 0 = Some None"
    and "get_framebuffer_obj Front sc = Some None" "m_pVAddr (m_FrameSegment sc) \<noteq> 0"
    and "unat (m_Size (m_FrameSegment sc)) < unat (fm_height (rq_frame rq)) * unat (fm_pitch (rq_frame rq))"
  shows "\<exists>s' n. evt_io_device_control e rq s = Some s' \<and> io_adapter s' = Some a
    \<and> io_done s' = io_done s @ [STATUS_SUCCESS] \<and> io_zeroed s' = io_zeroed s @ [(m_pVAddr (m_FrameSegment sc), n)]
    \<and> unat (m_Size (m_FrameSegment sc)) < unat n"
proof -
  let ?f = "rq_frame rq"
  let ?n = "fm_height ?f * fm_pitch ?f"
  have v: "validate_frame ?f = STATUS_SUCCESS" using assms(2) by (simp add: validate_frame_ok)
  have sm: "set_current_mode_ext e (Some (frame_mode ?f)) a = Some (StatusSuccess, False, a)"
    using assms(8-10) by (simp add: set_current_mode_ext_def Let_def frame_mode_def)
  have bo: "black_out_screen e (black_out_mode ?f (m_pVAddr (m_FrameSegment sc))) a = Some a"
    by (rule black_out_no_frame [of _ _ sc]) (use assms(8,11) in \<open>simp_all add: black_out_mode_def\<close>)
  have bf: "black_out_fill (black_out_mode ?f (m_pVAddr (m_FrameSegment sc))) = [(m_pVAddr (m_FrameSegment sc), ?n)]"
    using assms(12) by (simp add: black_out_fill_def black_out_mode_def)
  have l: "unat (fm_height ?f) * unat (fm_pitch ?f) \<le> 2160 * 15360"
    using assms(2) by (intro mult_mono) (auto simp: frame_ok_def)
  have n: "unat ?n = unat (fm_height ?f) * unat (fm_pitch ?f)" using l by (simp add: unat_word_ariths)
  have ne: "rq_out_len rq \<noteq> 0" "rq_in_len rq \<noteq> 0"
    using assms(4,5) by (auto simp: SIZEOF_FRAME_META_DATA_def SIZEOF_IOCTL_RESPONSE_def)
  have "ioctl_request_set_mode e rq s = Some (STATUS_SUCCESS, s\<lparr>io_adapter := Some a,
      io_zeroed := io_zeroed s @ [(m_pVAddr (m_FrameSegment sc), ?n)]\<rparr>)"
    using v sm bo bf assms(3,6-8)
    by (simp add: ioctl_request_set_mode_def validate_ioctl_def Let_def get_fb_vaddr_def leD [OF assms(4)])
  then show ?thesis
    using assms(1,6,13) n ne
    by (simp add: evt_io_device_control_def ioctl_handler_def answer_buffered_def complete_def leD [OF assms(5)])
qed

theorem set_mode_zeroes_past_segment_witness:
  "\<exists>s' n. evt_io_device_control (demo_env True) (demo_request SetModeCode (demo_meta 2 1024 0))
      (demo_device ((demo_adapter True)\<lparr>m_screen := [demo_screen\<lparr>m_FrameSegment :=
        new_segment\<lparr>m_pVAddr := 0xA000, m_Size := 4096\<rparr>\<rparr>]\<rparr>)) = Some s'
    \<and> io_zeroed s' = [(0xA000, n)] \<and> 4096 < unat n"
proof -
  let ?sc = "demo_screen\<lparr>m_FrameSegment := new_segment\<lparr>m_pVAddr := 0xA000, m_Size := 4096\<rparr>\<rparr>"
  let ?a = "(demo_adapter True)\<lparr>m_screen := [?sc]\<rparr>"
  let ?rq = "demo_request SetModeCode (demo_meta 2 1024 0)"
  have f: "find_mode ?sc (cm_DispInfo (frame_mode (demo_meta 2 1024 0))) 0 = Some None"
    by (simp add: find_mode.simps [of _ _ 0] find_mode.simps [of _ _ "Suc 0"] demo_screen_def is_same_mode_def
        frame_mode_def demo_meta_def)
  have g: "get_framebuffer_obj Front ?sc = Some None"
    by (simp add: get_framebuffer_obj_def get_framebuffer_index_def demo_screen_def new_screen_def FRAMEBUFFER_COUNT_def)
  have "\<exists>s' n. evt_io_device_control (demo_env True) ?rq (demo_device ?a) = Some s' \<and> io_adapter s' = Some ?a
    \<and> io_done s' = io_done (demo_device ?a) @ [STATUS_SUCCESS]
    \<and> io_zeroed s' = io_zeroed (demo_device ?a) @ [(m_pVAddr (m_FrameSegment ?sc), n)]
    \<and> unat (m_Size (m_FrameSegment ?sc)) < unat n"
  proof (rule set_mode_zeroes_past_segment)
    show "frame_ok (rq_frame ?rq)" by (simp add: demo_request_def frame_ok_def demo_meta_def frame_types)
  qed (use f g in \<open>simp_all add: demo_request_def demo_device_def SIZEOF_FRAME_META_DATA_def SIZEOF_IOCTL_RESPONSE_def
      nt_success_def\<close>, simp_all add: demo_meta_def demo_screen_def)
  then show ?thesis by (auto simp: demo_device_def)
qed

section \<open>The identification data\<close>

lemma copy_resolution_ok:
  assumes "length (disp_mode_ext sc) = 128" "length ml = 32" "unat n \<le> 32"
  shows "\<exists>ml'. copy_resolution sc n ml = Some ml' \<and> length ml' = 32 \<and>
    (\<forall>i < unat n. ml' ! i = (case disp_mode_ext sc ! i of m \<Rightarrow> (ucast (XResolution m), ucast (YResolution m), refresh m)))"
proof -
  let ?v = "\<lambda>i. case disp_mode_ext sc ! i of m \<Rightarrow> (ucast (XResolution m), ucast (YResolution m), refresh m)"
  let ?I = "\<lambda>k ml'. length ml' = 32 \<and> (\<forall>i < k. ml' ! i = ?v i)"
  have "\<exists>ml'. for_loop 0 (unat n) 1 (\<lambda>i ml. do {
        m \<leftarrow> nth_opt (disp_mode_ext sc) i;
        upd_opt ml i (ucast (XResolution m), ucast (YResolution m), refresh m) }) ml = Some ml' \<and> ?I (unat n) ml'"
    by (rule for_loop_inv [where I = ?I])
      (use assms in \<open>auto simp: less_Suc_eq nth_list_update\<close>)
  then show ?thesis using assms(3) by (simp add: copy_resolution_def MODE_LIST_MAX_SIZE_def Let_def)
qed

lemma length_g_gpu_edid: "length g_gpu_edid = 128"
  by (simp add: g_gpu_edid_def)

text \<open>A valid request for the identification data of a screen is answered with the 256 bytes
  the device gave for it and the first modes of its table, at most 32 (23 where the table was not filled from
  the data); when the device gives no identification data, or the screen is not scanned out, the
  256 bytes are copied from the built-in data, which has 128: the copy reads past its end.\<close>
theorem edid_request_answer:
  assumes "rq_code rq = GetEdidCode" "rq_in_len rq = 776" "rq_out_len rq = 776"
    and "\<And>n. nt_success (rq_retrieve_in rq n) \<and> nt_success (rq_retrieve_out rq n)"
    and "t = ei_screen_num (rq_edid rq)" "t < 4" "io_adapter s = Some a" "nth_opt (m_screen a) (unat t) = Some sc"
    and "length (disp_mode_ext sc) = 128" "length (m_EDIDs sc) = 256"
    and "length (ei_edid_data (rq_edid rq)) = 256" "length (ei_mode_list (rq_edid rq)) = 32"
  shows "if m_bEDID a \<and> t < m_u32NumScanouts a
    then \<exists>s' d. evt_io_device_control e rq s = Some s' \<and> io_adapter s' = Some a \<and> io_resp s' = Some (RespEdid d)
      \<and> ei_screen_num d = t \<and> ei_edid_data d = m_EDIDs sc
      \<and> unat (ei_mode_size d) = (if modelist_size (mode_list sc) = 0 then 23
          else min 32 (unat (modelist_size (mode_list sc))))
      \<and> (\<forall>i < unat (ei_mode_size d). ei_mode_list d ! i = (case disp_mode_ext sc ! i of m \<Rightarrow>
          (ucast (XResolution m), ucast (YResolution m), refresh m)))
    else evt_io_device_control e rq s = None"
proof -
  let ?n1 = "if modelist_size (mode_list sc) = 0 then 23 else modelist_size (mode_list sc)"
  let ?n = "if 32 < ?n1 then 32 else ?n1"
  have n: "unat ?n = (if modelist_size (mode_list sc) = 0 then 23 else min 32 (unat (modelist_size (mode_list sc))))"
    by (auto simp: word_less_nat_alt min_def)
  have "unat ?n \<le> 32" using n by auto
  from copy_resolution_ok [OF assms(9,12) this] obtain ml where
    ml: "copy_resolution sc ?n (ei_mode_list (rq_edid rq)) = Some ml"
    "\<forall>i < unat ?n. ml ! i = (case disp_mode_ext sc ! i of m \<Rightarrow>
          (ucast (XResolution m), ucast (YResolution m), refresh m))" by blast
  have v: "validate_ioctl (Some (EdidIn (rq_edid rq))) s = (STATUS_SUCCESS, s)"
    using assms(5,6) by (simp add: validate_ioctl_def MAX_SCAN_OUT_def not_le [THEN iffD2])
  note sizes = SIZEOF_EDID_INFO_def QEMU_MODELIST_SIZE_def MODE_LIST_MAX_SIZE_def EDID_V1_BLOCK_SIZE_def
  show ?thesis
  proof (cases "m_bEDID a \<and> t < m_u32NumScanouts a")
    case True
    then have d: "get_edid_data t a = Some (m_EDIDs sc)"
      using assms(8) by (auto simp: get_edid_data_def)
    have "ioctl_request_edid rq s = Some (STATUS_SUCCESS, s\<lparr>io_info := SIZEOF_EDID_INFO,
        io_resp := Some (RespEdid \<lparr>ei_edid_data = m_EDIDs sc, ei_mode_size = ?n, ei_screen_num = t, ei_mode_list = ml\<rparr>)\<rparr>)"
      using assms(2-5,7,8,10,11) v d ml(1)
      by (simp add: ioctl_request_edid_def Let_def sizes get_mode_list_size_def copy_memory_def cong: if_cong)
    then show ?thesis using True assms(1-3) ml(2) n
      by (simp add: evt_io_device_control_def ioctl_handler_def complete_def assms(7) cong: if_cong)
  next
    case False
    then have d: "get_edid_data t a = Some g_gpu_edid" by (auto simp: get_edid_data_def)
    have "ioctl_request_edid rq s = None"
      using assms(2-5,7,8) v d
      by (simp add: ioctl_request_edid_def Let_def sizes get_mode_list_size_def copy_memory_def length_g_gpu_edid
          guard_opt_def cong: if_cong)
    then show ?thesis using False assms(1-3)
      by (simp add: evt_io_device_control_def ioctl_handler_def)
  qed
qed

theorem edid_request_answer_witness:
  "\<exists>s' d. evt_io_device_control (demo_env True) (demo_request GetEdidCode (demo_meta 1 1024 0))
      (demo_device ((demo_adapter True)\<lparr>m_screen := [new_screen (replicate 256 7)]\<rparr>)) = Some s'
    \<and> io_resp s' = Some (RespEdid d) \<and> ei_edid_data d = replicate 256 7 \<and> ei_mode_size d = 23"
proof -
  let ?a = "(demo_adapter True)\<lparr>m_screen := [new_screen (replicate 256 7)]\<rparr>"
  let ?rq = "demo_request GetEdidCode (demo_meta 1 1024 0)"
  have "if m_bEDID ?a \<and> 0 < m_u32NumScanouts ?a
    then \<exists>s' d. evt_io_device_control (demo_env True) ?rq (demo_device ?a) = Some s' \<and> io_adapter s' = Some ?a
      \<and> io_resp s' = Some (RespEdid d)
      \<and> ei_screen_num d = 0 \<and> ei_edid_data d = m_EDIDs (new_screen (replicate 256 7))
      \<and> unat (ei_mode_size d) = (if modelist_size (mode_list (new_screen (replicate 256 7))) = 0 then 23
          else min 32 (unat (modelist_size (mode_list (new_screen (replicate 256 7))))))
      \<and> (\<forall>i < unat (ei_mode_size d). ei_mode_list d ! i = (case disp_mode_ext (new_screen (replicate 256 7)) ! i of m \<Rightarrow>
          (ucast (XResolution m), ucast (YResolution m), refresh m)))
    else evt_io_device_control (demo_env True) ?rq (demo_device ?a) = None"
    by (rule edid_request_answer) (simp_all add: demo_request_def demo_device_def demo_adapter_def new_screen_def
        nt_success_def MAX_MODELIST_SIZE_def)
  then obtain s' d where d: "evt_io_device_control (demo_env True) ?rq (demo_device ?a) = Some s'"
      "io_resp s' = Some (RespEdid d)" "ei_edid_data d = replicate 256 7"
      "unat (ei_mode_size d) = 23"
    by (auto simp: demo_adapter_def new_screen_def empty_modelist_def split: if_splits)
  then have "ei_mode_size d = 23" by (simp add: word_unat_eq_iff)
  with d show ?thesis by blast
qed

end
