(* ===== verification/BitOps.thy ===== *)
theory BitOps
  imports GpuScreen
begin

text \<open>
  The copy of pixels, \<^verbatim>\<open>src/IntelVirtDisplayKMD/bitops.cpp\<close>, over a byte-addressed memory.
  The arithmetic is that of the code: 32-bit numbers that wrap, extended to 64 bits with the sign of
  their C type when they are added to a pointer.  A copy that faults is cut off by the handler around
  it; the memory here is one where none does.
\<close>

section \<open>State\<close>

type_synonym mem = "u64 \<Rightarrow> u8"

datatype rotation = Identity | Rotate90 | Rotate180 | Rotate270 | BadRotation

record blt_info =
  bi_pBits :: u64
  bi_Pitch :: u32
  bi_BitsPerPel :: u32
  bi_Offset_x :: u32
  bi_Offset_y :: u32
  bi_Rotation :: rotation
  bi_Width :: u32
  bi_Height :: u32
  bi_PixelFmt :: u32

text \<open>A \<^verbatim>\<open>RECT\<close> at its width.\<close>
record rect32 =
  rt_left :: u32
  rt_top :: u32
  rt_right :: u32
  rt_bottom :: u32

section \<open>Pitches and rows\<close>

text \<open>The signed quotient of \<^verbatim>\<open>(LONG)BitsPerPel / BITS_PER_BYTE\<close> for a depth that is no negative
  number as a \<^verbatim>\<open>LONG\<close>, and the unsigned one, are the same.\<close>
definition bytes_per_pixel :: "blt_info \<Rightarrow> u32" where
  "bytes_per_pixel b = bi_BitsPerPel b div BITS_PER_BYTE"

text \<open>The pitch from a pixel to the next, and from a row to the next.\<close>
definition get_pitches :: "blt_info \<Rightarrow> u32 \<times> u32" where
  "get_pitches b = (case bi_Rotation b of
     Identity \<Rightarrow> (bytes_per_pixel b, bi_Pitch b)
   | Rotate90 \<Rightarrow> (- bi_Pitch b, bytes_per_pixel b)
   | Rotate180 \<Rightarrow> (- bytes_per_pixel b, - bi_Pitch b)
   | Rotate270 \<Rightarrow> (bi_Pitch b, - bytes_per_pixel b)
   | BadRotation \<Rightarrow> (0, 0))"

definition get_row_start :: "blt_info \<Rightarrow> rect32 \<Rightarrow> u64" where
  "get_row_start b r =
     (let left = rt_left r + bi_Offset_x b; top = rt_top r + bi_Offset_y b; bpp = bytes_per_pixel b in
      case bi_Rotation b of
        Identity \<Rightarrow> bi_pBits b + ucast (top * bi_Pitch b) + scast (left * bpp)
      | Rotate90 \<Rightarrow> bi_pBits b + ucast ((bi_Height b - 1 - left) * bi_Pitch b) + scast (top * bpp)
      | Rotate180 \<Rightarrow> bi_pBits b + ucast ((bi_Height b - 1 - top) * bi_Pitch b)
          + ucast ((bi_Width b - 1 - left) * bpp)
      | Rotate270 \<Rightarrow> bi_pBits b + ucast (left * bi_Pitch b) + ucast ((bi_Width b - 1 - top) * bpp)
      | BadRotation \<Rightarrow> 0)"

definition num_pixels :: "rect32 \<Rightarrow> nat" where "num_pixels r = unat (rt_right r - rt_left r)"
definition num_rows :: "rect32 \<Rightarrow> nat" where "num_rows r = unat (rt_bottom r - rt_top r)"

section \<open>The copy for any rotation\<close>

text \<open>A 32-bit load and store.\<close>
definition copy_pixel :: "u64 \<Rightarrow> u64 \<Rightarrow> mem \<Rightarrow> mem" where
  "copy_pixel d s m = m(d := m s, d + 1 := m (s + 1), d + 2 := m (s + 2), d + 3 := m (s + 3))"

definition generic_row :: "bool \<Rightarrow> u32 \<Rightarrow> u32 \<Rightarrow> nat \<Rightarrow> u64 \<Rightarrow> u64 \<Rightarrow> mem \<Rightarrow> mem" where
  "generic_row both32 dp sp n d0 s0 m0 =
     snd (snd (fold (\<lambda>x (d, s, m). (d + scast dp, s + scast sp, if both32 then copy_pixel d s m else m))
       [0..<n] (d0, s0, m0)))"

definition generic_rect :: "blt_info \<Rightarrow> blt_info \<Rightarrow> rect32 \<Rightarrow> mem \<Rightarrow> mem" where
  "generic_rect dst src r m0 =
     (let (dp, drow) = get_pitches dst; (sp, srow) = get_pitches src;
          both32 = (bi_BitsPerPel dst = 32 \<and> bi_BitsPerPel src = 32) in
      snd (snd (fold (\<lambda>y (d, s, m). (d + scast drow, s + scast srow,
          generic_row both32 dp sp (num_pixels r) d s m))
        [0..<num_rows r] (get_row_start dst r, get_row_start src r, m0))))"

definition copy_bits_generic :: "blt_info \<Rightarrow> blt_info \<Rightarrow> rect32 list \<Rightarrow> mem \<Rightarrow> mem" where
  "copy_bits_generic dst src rs = fold (generic_rect dst src) rs"

section \<open>The copy without rotation\<close>

text \<open>\<^verbatim>\<open>RtlCopyMemory\<close>, for ranges that do not overlap.\<close>
definition rtl_copy :: "u64 \<Rightarrow> u64 \<Rightarrow> u32 \<Rightarrow> mem \<Rightarrow> mem" where
  "rtl_copy d s n m = (\<lambda>a. if unat (a - d) < unat n then m (s + (a - d)) else m a)"

definition swizzle_pixel :: "u64 \<Rightarrow> u64 \<Rightarrow> nat \<Rightarrow> mem \<Rightarrow> mem" where
  "swizzle_pixel d s j m =
     (let i = (\<lambda>c. ucast (of_nat j * 4 + c :: u32) :: u64);
          m1 = m(d + i 0 := m (s + i 2));
          m2 = m1(d + i 1 := m1 (s + i 1));
          m3 = m2(d + i 2 := m2 (s + i 0)) in
      m3(d + i 3 := m3 (s + i 3)))"

definition swizzle_row :: "nat \<Rightarrow> u64 \<Rightarrow> u64 \<Rightarrow> mem \<Rightarrow> mem" where
  "swizzle_row n d s = fold (swizzle_pixel d s) [0..<n]"

definition start32 :: "blt_info \<Rightarrow> rect32 \<Rightarrow> u64" where
  "start32 b r = bi_pBits b + ucast ((rt_top r + bi_Offset_y b) * bi_Pitch b)
     + scast ((rt_left r + bi_Offset_x b) * 4)"

definition rect_32_32 :: "blt_info \<Rightarrow> blt_info \<Rightarrow> rect32 \<Rightarrow> mem \<Rightarrow> mem" where
  "rect_32_32 dst src r m0 =
     (let swizzle = (bi_PixelFmt dst = D3DDDIFMT_A8B8G8R8 \<and> bi_PixelFmt src = D3DDDIFMT_A8R8G8B8);
          n = num_pixels r; bytes = of_nat n * 4 in
      snd (snd (fold (\<lambda>i (d, s, m). (d + ucast (bi_Pitch dst), s + ucast (bi_Pitch src),
          if \<not> swizzle then rtl_copy d s bytes m else swizzle_row n d s m))
        [0..<num_rows r] (start32 dst r, start32 src r, m0))))"

definition copy_bits32_32 :: "blt_info \<Rightarrow> blt_info \<Rightarrow> rect32 list \<Rightarrow> mem \<Rightarrow> mem" where
  "copy_bits32_32 dst src rs = fold (rect_32_32 dst src) rs"

definition blt_bits :: "blt_info \<Rightarrow> blt_info \<Rightarrow> rect32 list \<Rightarrow> mem \<Rightarrow> mem" where
  "blt_bits dst src rs =
     (if bi_Rotation dst = Identity \<and> bi_Rotation src = Identity then copy_bits32_32 dst src rs
      else copy_bits_generic dst src rs)"

section \<open>Rows\<close>

lemma offset_eq: "a = d + of_nat i \<longleftrightarrow> unat (a - d) = i" if "i < 2 ^ 64" for a d :: u64
proof
  assume "a = d + of_nat i"
  then show "unat (a - d) = i" using that by (simp add: unat_of_nat)
next
  assume "unat (a - d) = i"
  then have "of_nat i = a - d" by auto
  then show "a = d + of_nat i" by simp
qed

text \<open>Two ranges that do not meet.\<close>
definition apart :: "u64 \<Rightarrow> u64 \<Rightarrow> nat \<Rightarrow> bool" where
  "apart d s n \<longleftrightarrow> (\<forall>i < n. \<forall>j < n. d + of_nat i \<noteq> s + of_nat j)"

lemma apart_mono: "apart d s n \<Longrightarrow> k \<le> n \<Longrightarrow> apart d s k"
  by (auto simp: apart_def)

lemma upd_offset:
  fixes f :: mem
  assumes "i < 2 ^ 64"
  shows "(f(d + of_nat i := v)) a = (if unat (a - d) = i then v else f a)"
  using offset_eq [OF assms, of a d] by simp

lemma apart_read:
  assumes "apart d s n" "unat o' < n"
  shows "\<not> unat (s + o' - d) < n"
proof
  assume "unat (s + o' - d) < n"
  then have "d + of_nat (unat (s + o' - d)) \<noteq> s + of_nat (unat o')" using assms unfolding apart_def by blast
  then show False by simp
qed

lemma copy_pixel_at:
  assumes "k + 4 \<le> 2 ^ 32"
  shows "copy_pixel (d + of_nat k) (s + of_nat k) m a =
    (if k \<le> unat (a - d) \<and> unat (a - d) < k + 4 then m (s + (a - d)) else m a)"
proof -
  let ?o = "unat (a - d)"
  have e: "x + of_nat k + 1 = x + of_nat (k + 1)" "x + of_nat k + 2 = x + of_nat (k + 2)"
      "x + of_nat k + 3 = x + of_nat (k + 3)" for x :: u64
    by (simp_all add: add.assoc)
  have o: "a - d = of_nat ?o" by simp
  have l: "k < 2 ^ 64" "k + 1 < 2 ^ 64" "k + 2 < 2 ^ 64" "k + 3 < 2 ^ 64" using assms by simp_all
  have "copy_pixel (d + of_nat k) (s + of_nat k) m a =
    (if ?o = k + 3 then m (s + of_nat (k + 3)) else if ?o = k + 2 then m (s + of_nat (k + 2))
     else if ?o = k + 1 then m (s + of_nat (k + 1)) else if ?o = k then m (s + of_nat k) else m a)"
    by (simp only: copy_pixel_def e upd_offset [OF l(1)] upd_offset [OF l(2)] upd_offset [OF l(3)] upd_offset [OF l(4)])
  also have "\<dots> = (if k \<le> ?o \<and> ?o < k + 4 then m (s + of_nat ?o) else m a)"
  proof (cases "k \<le> ?o \<and> ?o < k + 4")
    case True
    then have "?o = k \<or> ?o = k + 1 \<or> ?o = k + 2 \<or> ?o = k + 3" by arith
    then show ?thesis by (elim disjE) (simp_all only:, simp_all)
  next
    case False
    then have "?o \<noteq> k" "?o \<noteq> k + 1" "?o \<noteq> k + 2" "?o \<noteq> k + 3" by arith+
    with False show ?thesis by (simp only: if_False)
  qed
  finally show ?thesis by (simp only: o [symmetric])
qed

lemma generic_row_pixels:
  assumes "apart d s (4 * n)" "4 * n \<le> 2 ^ 32"
  shows "generic_row True 4 4 n d s m = (\<lambda>a. if unat (a - d) < 4 * n then m (s + (a - d)) else m a)"
proof -
  let ?st = "\<lambda>k. fold (\<lambda>x (d, s, m). (d + scast (4 :: u32), s + scast (4 :: u32), if True then copy_pixel d s m else m))
       [0..<k] (d, s, m)"
  let ?spec = "\<lambda>k a. if unat (a - d) < 4 * k then m (s + (a - d)) else m a"
  have "?st k = (d + of_nat (4 * k), s + of_nat (4 * k), ?spec k)" if "k \<le> n" for k
    using that
  proof (induction k)
    case (Suc k)
    have le: "4 * k + 4 \<le> 4 * n" using Suc.prems by simp
    have "copy_pixel (d + of_nat (4 * k)) (s + of_nat (4 * k)) (?spec k) = ?spec (Suc k)"
    proof
      fix a
      have rd: "?spec k (s + (a - d)) = m (s + (a - d))" if "unat (a - d) < 4 * k + 4"
        using apart_read [OF apart_mono [OF assms(1) le] that] by auto
      have "copy_pixel (d + of_nat (4 * k)) (s + of_nat (4 * k)) (?spec k) a =
          (if 4 * k \<le> unat (a - d) \<and> unat (a - d) < 4 * k + 4 then ?spec k (s + (a - d)) else ?spec k a)"
        by (rule copy_pixel_at) (use le assms(2) in simp)
      then show "copy_pixel (d + of_nat (4 * k)) (s + of_nat (4 * k)) (?spec k) a = ?spec (Suc k) a" using rd by auto
    qed
    then show ?case using Suc by (simp add: algebra_simps)
  qed simp
  from this [of n] show ?thesis by (simp add: generic_row_def)
qed

lemma ucast_of_nat_u32: "k < 2 ^ 32 \<Longrightarrow> (ucast (of_nat k :: u32) :: u64) = of_nat k"
  by (simp add: ucast_eq uint_nat unat_of_nat)

text \<open>The byte of a source pixel that a byte of the swizzled one comes from.\<close>
definition swizzled :: "nat \<Rightarrow> nat" where
  "swizzled i = (if i mod 4 = 0 then i + 2 else if i mod 4 = 2 then i - 2 else i)"

lemma swizzle_pixel_at:
  assumes "apart d s (4 * j + 4)" "4 * j + 4 < 2 ^ 32"
  shows "swizzle_pixel d s j m a =
    (if 4 * j \<le> unat (a - d) \<and> unat (a - d) < 4 * j + 4 then m (s + of_nat (swizzled (unat (a - d)))) else m a)"
proof -
  let ?o = "unat (a - d)" and ?k = "4 * j"
  have i: "(ucast (of_nat j * 4 + 0 :: u32) :: u64) = of_nat ?k" "(ucast (of_nat j * 4 + 1 :: u32) :: u64) = of_nat (?k + 1)"
      "(ucast (of_nat j * 4 + 2 :: u32) :: u64) = of_nat (?k + 2)" "(ucast (of_nat j * 4 + 3 :: u32) :: u64) = of_nat (?k + 3)"
    using ucast_of_nat_u32 [of ?k] ucast_of_nat_u32 [of "?k + 1"] ucast_of_nat_u32 [of "?k + 2"]
      ucast_of_nat_u32 [of "?k + 3"] assms(2) by (simp_all add: mult.commute add.commute)
  have l: "?k < 2 ^ 64" "?k + 1 < 2 ^ 64" "?k + 2 < 2 ^ 64" "?k + 3 < 2 ^ 64" using assms(2) by simp_all
  have rd: "unat (s + of_nat x - d) \<noteq> y" if "x < ?k + 4" "y < ?k + 4" for x y
  proof -
    have "unat (of_nat x :: u64) < ?k + 4" using that assms(2) by (simp add: unat_of_nat)
    from apart_read [OF assms(1) this] show ?thesis using that(2) by auto
  qed
  have r: "unat (s + of_nat (?k + 1) - d) \<noteq> ?k" "unat (s + of_nat ?k - d) \<noteq> ?k"
      "unat (s + of_nat ?k - d) \<noteq> ?k + 1" "unat (s + of_nat (?k + 3) - d) \<noteq> ?k"
      "unat (s + of_nat (?k + 3) - d) \<noteq> ?k + 1" "unat (s + of_nat (?k + 3) - d) \<noteq> ?k + 2"
    by (rule rd; simp)+
  have "swizzle_pixel d s j m a =
    (if ?o = ?k + 3 then m (s + of_nat (?k + 3)) else if ?o = ?k + 2 then m (s + of_nat ?k)
     else if ?o = ?k + 1 then m (s + of_nat (?k + 1)) else if ?o = ?k then m (s + of_nat (?k + 2)) else m a)"
    by (simp only: swizzle_pixel_def Let_def i upd_offset [OF l(1)] upd_offset [OF l(2)] upd_offset [OF l(3)]
        upd_offset [OF l(4)] r if_False)
  also have "\<dots> = (if ?k \<le> ?o \<and> ?o < ?k + 4 then m (s + of_nat (swizzled ?o)) else m a)"
  proof (cases "?k \<le> ?o \<and> ?o < ?k + 4")
    case True
    then have "?o = ?k \<or> ?o = ?k + 1 \<or> ?o = ?k + 2 \<or> ?o = ?k + 3" by arith
    moreover have "swizzled ?k = ?k + 2" "swizzled (?k + 1) = ?k + 1" "swizzled (?k + 2) = ?k" "swizzled (?k + 3) = ?k + 3"
      unfolding swizzled_def by presburger+
    ultimately show ?thesis by (elim disjE) (simp_all del: of_nat_add of_nat_mult add_2_eq_Suc')
  next
    case False
    then have "?o \<noteq> ?k" "?o \<noteq> ?k + 1" "?o \<noteq> ?k + 2" "?o \<noteq> ?k + 3" by arith+
    with False show ?thesis by (simp only: if_False)
  qed
  finally show ?thesis .
qed

lemma swizzled_bound: "i < 4 * n \<Longrightarrow> swizzled i < 4 * n"
  unfolding swizzled_def by (split if_split, intro conjI impI; (presburger)?)

lemma swizzle_row_at:
  assumes "apart d s (4 * n)" "4 * n < 2 ^ 32"
  shows "swizzle_row n d s m = (\<lambda>a. if unat (a - d) < 4 * n then m (s + of_nat (swizzled (unat (a - d)))) else m a)"
proof -
  let ?spec = "\<lambda>k a. if unat (a - d) < 4 * k then m (s + of_nat (swizzled (unat (a - d)))) else m a"
  have "swizzle_row k d s m = ?spec k" if "k \<le> n" for k
    using that
  proof (induction k)
    case (Suc k)
    have le: "4 * k + 4 \<le> 4 * n" using Suc.prems by simp
    have "swizzle_pixel d s k (?spec k) = ?spec (Suc k)"
    proof
      fix a
      have rd: "?spec k (s + of_nat (swizzled (unat (a - d)))) = m (s + of_nat (swizzled (unat (a - d))))"
        if "unat (a - d) < 4 * k + 4"
      proof -
        have "swizzled (unat (a - d)) < 4 * k + 4" using swizzled_bound [of "unat (a - d)" "Suc k"] that by simp
        then have "unat (of_nat (swizzled (unat (a - d))) :: u64) < 4 * k + 4"
          using le assms(2) by (simp add: unat_of_nat)
        from apart_read [OF apart_mono [OF assms(1) le] this] show ?thesis by auto
      qed
      have "swizzle_pixel d s k (?spec k) a = (if 4 * k \<le> unat (a - d) \<and> unat (a - d) < 4 * k + 4
          then ?spec k (s + of_nat (swizzled (unat (a - d)))) else ?spec k a)"
        by (rule swizzle_pixel_at) (use apart_mono [OF assms(1) le] le assms(2) in simp_all)
      then show "swizzle_pixel d s k (?spec k) a = ?spec (Suc k) a" using rd by auto
    qed
    then show ?case using Suc by (simp add: swizzle_row_def)
  qed (simp add: swizzle_row_def)
  from this [of n] show ?thesis by simp
qed

section \<open>The two copies agree\<close>

lemma scast_ucast: "unat x < 2 ^ 31 \<Longrightarrow> (scast (x :: u32) :: u64) = ucast x"
proof -
  assume "unat x < 2 ^ 31"
  then have "sint x = uint x" using sint_small by (simp only: uint_nat)
  then show ?thesis by (simp only: scast_eq ucast_eq)
qed

text \<open>Two loops over rows whose bodies agree wherever they get to.\<close>
lemma fold_rows:
  fixes d0 s0 pd ps :: u64
  assumes "\<And>y m. y < n \<Longrightarrow> f (d0 + of_nat y * pd) (s0 + of_nat y * ps) m = g y m"
  shows "fold (\<lambda>y (d, s, m). (d + pd, s + ps, f d s m)) [0..<n] (d0, s0, m0) =
    (d0 + of_nat n * pd, s0 + of_nat n * ps, fold g [0..<n] m0)"
  using assms
proof (induction n)
  case (Suc n)
  then show ?case by (simp add: algebra_simps)
qed simp

text \<open>The rows of a rectangle, in the two bitmaps, do not meet, and a row is shorter than 4 GB.\<close>
definition rows_apart :: "blt_info \<Rightarrow> blt_info \<Rightarrow> rect32 \<Rightarrow> bool" where
  "rows_apart dst src r \<longleftrightarrow> 4 * num_pixels r < 2 ^ 32 \<and>
     (\<forall>y < num_rows r. apart (start32 dst r + of_nat y * ucast (bi_Pitch dst))
       (start32 src r + of_nat y * ucast (bi_Pitch src)) (4 * num_pixels r))"

lemma bytes_per_pixel_32: "bi_BitsPerPel b = 32 \<Longrightarrow> bytes_per_pixel b = 4"
  by (simp add: bytes_per_pixel_def BITS_PER_BYTE_def)

lemma identity_start:
  "bi_Rotation b = Identity \<Longrightarrow> bi_BitsPerPel b = 32 \<Longrightarrow> get_row_start b r = start32 b r"
  by (simp add: get_row_start_def start32_def Let_def bytes_per_pixel_32)

lemma rects_agree:
  assumes "bi_Rotation dst = Identity" "bi_Rotation src = Identity"
    and "bi_BitsPerPel dst = 32" "bi_BitsPerPel src = 32"
    and "unat (bi_Pitch dst) < 2 ^ 31" "unat (bi_Pitch src) < 2 ^ 31"
    and "\<not> (bi_PixelFmt dst = D3DDDIFMT_A8B8G8R8 \<and> bi_PixelFmt src = D3DDDIFMT_A8R8G8B8)"
    and "rows_apart dst src r"
  shows "generic_rect dst src r m = rect_32_32 dst src r m"
proof -
  let ?n = "num_pixels r"
  have b: "unat (of_nat ?n * 4 :: u32) = 4 * ?n"
    using assms(8) by (simp add: rows_apart_def unat_word_ariths unat_of_nat)
  have row: "generic_row True 4 4 ?n (start32 dst r + of_nat y * ucast (bi_Pitch dst))
      (start32 src r + of_nat y * ucast (bi_Pitch src)) m =
    rtl_copy (start32 dst r + of_nat y * ucast (bi_Pitch dst))
      (start32 src r + of_nat y * ucast (bi_Pitch src)) (of_nat ?n * 4) m" if "y < num_rows r" for y m
    using assms(8) that by (subst generic_row_pixels) (auto simp: rows_apart_def rtl_copy_def b)
  have p: "get_pitches dst = (4, bi_Pitch dst)" "get_pitches src = (4, bi_Pitch src)"
    using assms(1-4) by (simp_all add: get_pitches_def bytes_per_pixel_32)
  have swz: "(\<not> (bi_PixelFmt dst = D3DDDIFMT_A8B8G8R8 \<and> bi_PixelFmt src = D3DDDIFMT_A8R8G8B8)) = True"
    using assms(7) by simp
  show ?thesis
    unfolding generic_rect_def rect_32_32_def p Let_def case_prod_conv assms(3,4)
      identity_start [OF assms(1,3)] identity_start [OF assms(2,4)] scast_ucast [OF assms(5)] scast_ucast [OF assms(6)]
      swz if_True simp_thms
    by (subst fold_rows [where g = "\<lambda>y. rtl_copy (start32 dst r + of_nat y * ucast (bi_Pitch dst))
          (start32 src r + of_nat y * ucast (bi_Pitch src)) (of_nat ?n * 4)"], rule row, assumption)
      (subst fold_rows [where g = "\<lambda>y. rtl_copy (start32 dst r + of_nat y * ucast (bi_Pitch dst))
          (start32 src r + of_nat y * ucast (bi_Pitch src)) (of_nat ?n * 4)"], simp_all)
qed

text \<open>For bitmaps that are not rotated, have 32 bits per pixel and need no reordering, the copy row by row and the
  copy pixel by pixel leave the same memory, for every list of rectangles whose rows do not overlap.\<close>
theorem copies_agree:
  assumes "bi_Rotation dst = Identity" "bi_Rotation src = Identity"
    and "bi_BitsPerPel dst = 32" "bi_BitsPerPel src = 32"
    and "unat (bi_Pitch dst) < 2 ^ 31" "unat (bi_Pitch src) < 2 ^ 31"
    and "\<not> (bi_PixelFmt dst = D3DDDIFMT_A8B8G8R8 \<and> bi_PixelFmt src = D3DDDIFMT_A8R8G8B8)"
    and "\<forall>r \<in> set rs. rows_apart dst src r"
  shows "copy_bits_generic dst src rs m = blt_bits dst src rs m"
proof -
  have "fold (generic_rect dst src) rs m = fold (rect_32_32 dst src) rs m"
    using assms(8) by (induction rs arbitrary: m) (simp_all add: rects_agree [OF assms(1-7)])
  then show ?thesis using assms(1,2) by (simp add: copy_bits_generic_def blt_bits_def copy_bits32_32_def)
qed

section \<open>The pixels of the cursor\<close>

text \<open>The part of \<^verbatim>\<open>CreateCursor\<close> that fills the segment: zeros, then the shape.\<close>
definition cursor_dst :: "u64 \<Rightarrow> blt_info" where
  "cursor_dst base = \<lparr>bi_pBits = base, bi_Pitch = 128 * 4,
     bi_BitsPerPel = bpp_from_pixel_format D3DDDIFMT_A8B8G8R8, bi_Offset_x = 0, bi_Offset_y = 0,
     bi_Rotation = Identity, bi_Width = 128, bi_Height = 128, bi_PixelFmt = D3DDDIFMT_A8B8G8R8\<rparr>"

definition cursor_src :: "u64 \<Rightarrow> u32 \<Rightarrow> u32 \<Rightarrow> u32 \<Rightarrow> blt_info" where
  "cursor_src pixels pitch w h = \<lparr>bi_pBits = pixels, bi_Pitch = pitch,
     bi_BitsPerPel = bpp_from_pixel_format D3DDDIFMT_A8R8G8B8, bi_Offset_x = 0, bi_Offset_y = 0,
     bi_Rotation = Identity, bi_Width = w, bi_Height = h, bi_PixelFmt = D3DDDIFMT_A8R8G8B8\<rparr>"

definition rtl_fill :: "u64 \<Rightarrow> u32 \<Rightarrow> u8 \<Rightarrow> mem \<Rightarrow> mem" where
  "rtl_fill d n v m = (\<lambda>a. if unat (a - d) < unat n then v else m a)"

definition cursor_pixels :: "u64 \<Rightarrow> u64 \<Rightarrow> u32 \<Rightarrow> u32 \<Rightarrow> u32 \<Rightarrow> mem \<Rightarrow> mem" where
  "cursor_pixels base pixels pitch w h m =
     (let dst = cursor_dst base; rc = \<lparr>rt_left = 0, rt_top = 0, rt_right = 0 + w, rt_bottom = 0 + h\<rparr> in
      blt_bits dst (cursor_src pixels pitch w h) [rc] (rtl_fill base (bi_Pitch dst * bi_Height dst) 0 m))"

lemma offset_shift:
  fixes a d :: u64
  assumes "k + n \<le> 2 ^ 32"
  shows "unat (a - (d + of_nat k)) < n \<longleftrightarrow> k \<le> unat (a - d) \<and> unat (a - d) < k + n"
    and "k \<le> unat (a - d) \<Longrightarrow> unat (a - (d + of_nat k)) = unat (a - d) - k"
proof -
  have e: "a - (d + of_nat k) = (a - d) - of_nat k" by simp
  have k: "unat (of_nat k :: u64) = k" using assms by (simp add: unat_of_nat)
  have l: "unat (a - d) < 2 ^ 64" by (rule order_less_le_trans [OF unsigned_less]) simp
  show s: "unat (a - (d + of_nat k)) = unat (a - d) - k" if "k \<le> unat (a - d)"
    unfolding e using that k by (subst unat_sub) (simp_all add: word_le_nat_alt)
  show "unat (a - (d + of_nat k)) < n \<longleftrightarrow> k \<le> unat (a - d) \<and> unat (a - d) < k + n"
  proof (cases "k \<le> unat (a - d)")
    case False
    then have "unat (a - (d + of_nat k)) = 2 ^ 64 + unat (a - d) - k"
      unfolding e using k by (simp add: unat_sub_if')
    then show ?thesis using False assms by simp
  qed (use s in auto)
qed

text \<open>The memory the cursor should have: in the segment the reordered pixel of the shape, or zero outside
  it; outside the segment what was there.\<close>
definition cursor_image :: "u64 \<Rightarrow> u64 \<Rightarrow> u32 \<Rightarrow> nat \<Rightarrow> nat \<Rightarrow> mem \<Rightarrow> mem" where
  "cursor_image base pixels pitch w h m = (\<lambda>a. let i = unat (a - base) in
     if 65536 \<le> i then m a
     else if i div 512 < h \<and> i mod 512 < 4 * w
       then m (pixels + of_nat (i div 512) * ucast pitch + of_nat (swizzled (i mod 512)))
     else 0)"

lemma row_index:
  fixes i :: nat
  assumes "w \<le> 128"
  shows "512 * y \<le> i \<and> i < 512 * y + 4 * w \<longleftrightarrow> i div 512 = y \<and> i mod 512 < 4 * w"
proof -
  have e: "i = 512 * (i div 512) + i mod 512" "i mod 512 < 512" by simp_all
  show ?thesis
  proof
    assume l: "512 * y \<le> i \<and> i < 512 * y + 4 * w"
    then have "i div 512 = y" using assms by (intro div_nat_eqI) simp_all
    then show "i div 512 = y \<and> i mod 512 < 4 * w" using l e(1) by linarith
  next
    assume "i div 512 = y \<and> i mod 512 < 4 * w"
    then show "512 * y \<le> i \<and> i < 512 * y + 4 * w" using e(1) by linarith
  qed
qed

lemma cursor_row:
  fixes base src' :: u64
  assumes "y < 128" "w \<le> 128" "\<And>j. j < 4 * w \<Longrightarrow> 65536 \<le> unat (src' + of_nat j - base)"
  shows "swizzle_row w (base + of_nat (512 * y)) src' m =
    (\<lambda>a. let i = unat (a - base) in
      if i div 512 = y \<and> i mod 512 < 4 * w then m (src' + of_nat (swizzled (i mod 512))) else m a)"
proof -
  have b: "512 * y + 4 * w \<le> 65536" using assms(1,2) by simp
  have ap: "apart (base + of_nat (512 * y)) src' (4 * w)"
    unfolding apart_def
  proof (intro allI impI notI)
    fix i j assume i: "i < 4 * w" and j: "j < 4 * w"
    assume "base + of_nat (512 * y) + of_nat i = src' + of_nat j"
    then have "src' + of_nat j - base = of_nat (512 * y + i)" by (simp add: algebra_simps)
    then have "unat (src' + of_nat j - base) = 512 * y + i" using i b by (simp add: unat_of_nat del: of_nat_add of_nat_mult)
    then show False using assms(3) [OF j] i b by simp
  qed
  show ?thesis
  proof
    fix a
    let ?i = "unat (a - base)"
    have "unat (a - (base + of_nat (512 * y))) < 4 * w \<longleftrightarrow> 512 * y \<le> ?i \<and> ?i < 512 * y + 4 * w"
      by (rule offset_shift(1)) (use b in simp)
    also have "\<dots> \<longleftrightarrow> ?i div 512 = y \<and> ?i mod 512 < 4 * w" by (rule row_index [OF assms(2)])
    finally have c: "unat (a - (base + of_nat (512 * y))) < 4 * w \<longleftrightarrow> ?i div 512 = y \<and> ?i mod 512 < 4 * w" .
    have o: "unat (a - (base + of_nat (512 * y))) = ?i mod 512" if "?i div 512 = y"
    proof -
      have "512 * y \<le> ?i" using that by auto
      then have "unat (a - (base + of_nat (512 * y))) = ?i - 512 * y"
        using offset_shift(2) [of "512 * y" "4 * w"] b by simp
      then show ?thesis using that by (simp add: minus_mult_div_eq_mod [symmetric])
    qed
    have r: "swizzle_row w (base + of_nat (512 * y)) src' m a =
        (if unat (a - (base + of_nat (512 * y))) < 4 * w
         then m (src' + of_nat (swizzled (unat (a - (base + of_nat (512 * y)))))) else m a)"
      by (subst swizzle_row_at [OF ap]) (use assms(2) in simp_all)
    show "swizzle_row w (base + of_nat (512 * y)) src' m a =
      (let i = unat (a - base) in
        if i div 512 = y \<and> i mod 512 < 4 * w then m (src' + of_nat (swizzled (i mod 512))) else m a)"
      unfolding r c by (simp only: Let_def) (use o in \<open>simp cong: if_cong\<close>)
  qed
qed

text \<open>C21: For a shape of at most 128 by 128 pixels, whatever its pitch, the cursor's memory becomes the picture
  of the shape: each pixel at its place with its red and blue bytes exchanged, zeros around it,
  and no byte outside the 65,536 of the segment is written.  The shape lies outside the segment.\<close>
theorem cursor_pixels_exact:
  assumes "unat w \<le> 128" "unat h \<le> 128"
    and "\<And>y j. y < unat h \<Longrightarrow> j < 4 * unat w \<Longrightarrow>
      65536 \<le> unat (pixels + of_nat y * ucast pitch + of_nat j - base)"
  shows "cursor_pixels base pixels pitch w h m = cursor_image base pixels pitch (unat w) (unat h) m"
proof -
  let ?w = "unat w" and ?p = "\<lambda>y. pixels + of_nat y * ucast pitch"
  let ?rc = "\<lparr>rt_left = 0, rt_top = 0, rt_right = 0 + w, rt_bottom = 0 + h\<rparr>"
  define m0 where "m0 = rtl_fill base (512 * 128) 0 m"
  have m0: "m0 a = (if unat (a - base) < 65536 then 0 else m a)" for a by (simp add: m0_def rtl_fill_def)
  let ?g = "\<lambda>y. swizzle_row ?w (base + of_nat (512 * y)) (?p y)"
  have g: "fold ?g [0..<k] m0 = cursor_image base pixels pitch ?w k m" if "k \<le> unat h" for k
    using that
  proof (induction k)
    case 0
    show ?case by (rule ext) (simp add: cursor_image_def m0 Let_def not_le)
  next
    case (Suc k)
    let ?I = "cursor_image base pixels pitch ?w k m"
    have rd: "?I (?p k + of_nat j) = m (?p k + of_nat j)" if "j < 4 * ?w" for j
      using assms(3) [of k j] Suc.prems that by (simp add: cursor_image_def Let_def)
    have "?g k ?I = (\<lambda>a. let i = unat (a - base) in
        if i div 512 = k \<and> i mod 512 < 4 * ?w then ?I (?p k + of_nat (swizzled (i mod 512))) else ?I a)"
      by (rule cursor_row) (use Suc.prems assms in auto)
    also have "\<dots> = cursor_image base pixels pitch ?w (Suc k) m"
    proof
      fix a
      let ?i = "unat (a - base)"
      have s: "?i < 65536" if "?i div 512 = k"
      proof -
        have "?i = 512 * (?i div 512) + ?i mod 512" "?i mod 512 < 512" by simp_all
        then show ?thesis using that Suc.prems assms(2) by linarith
      qed
      show "(let i = unat (a - base) in
        if i div 512 = k \<and> i mod 512 < 4 * ?w then ?I (?p k + of_nat (swizzled (i mod 512))) else ?I a) =
        cursor_image base pixels pitch ?w (Suc k) m a"
      proof (cases "?i div 512 = k \<and> ?i mod 512 < 4 * ?w")
        case True
        then show ?thesis using s rd [OF swizzled_bound [of "?i mod 512" ?w]]
          by (simp add: Let_def) (simp add: cursor_image_def Let_def)
      next
        case False
        then show ?thesis by (auto simp: Let_def cursor_image_def less_Suc_eq)
      qed
    qed
    finally show ?case using Suc by simp
  qed
  have r: "num_pixels ?rc = ?w" "num_rows ?rc = unat h" by (simp_all add: num_pixels_def num_rows_def)
  have st: "start32 (cursor_dst base) ?rc = base" "start32 (cursor_src pixels pitch w h) ?rc = pixels"
    by (simp_all add: start32_def cursor_dst_def cursor_src_def)
  have "cursor_pixels base pixels pitch w h m = snd (snd (fold (\<lambda>y (d, s, m).
      (d + 512, s + ucast pitch, swizzle_row ?w d s m)) [0..<unat h] (base, pixels, m0)))"
    unfolding cursor_pixels_def Let_def blt_bits_def copy_bits32_32_def rect_32_32_def
    by (simp add: st [simplified], unfold r [simplified], simp add: cursor_dst_def cursor_src_def m0_def)
  also have "\<dots> = fold ?g [0..<unat h] m0"
    by (subst fold_rows [where g = ?g and f = "swizzle_row ?w" and pd = 512 and ps = "ucast pitch"])
      (simp_all add: mult.commute)
  finally show ?thesis using g by simp
qed

theorem cursor_pixels_exact_witness:
  "cursor_pixels 0x10000 0x40000 8 2 1 (\<lambda>a. ucast a) 0x10000 = 2
    \<and> cursor_pixels 0x10000 0x40000 8 2 1 (\<lambda>a. ucast a) 0x10006 = 4"
proof -
  have "cursor_pixels 0x10000 0x40000 8 2 1 (\<lambda>a. ucast a) =
      cursor_image 0x10000 0x40000 8 (unat (2 :: u32)) (unat (1 :: u32)) (\<lambda>a. ucast a)"
    by (rule cursor_pixels_exact) (auto simp: unat_word_ariths unat_of_nat)
  then show ?thesis by (simp add: cursor_image_def swizzled_def)
qed

definition demo_blt :: "u64 \<Rightarrow> blt_info" where
  "demo_blt p = \<lparr>bi_pBits = p, bi_Pitch = 8, bi_BitsPerPel = 32, bi_Offset_x = 0, bi_Offset_y = 0,
     bi_Rotation = Identity, bi_Width = 2, bi_Height = 2, bi_PixelFmt = D3DDDIFMT_A8R8G8B8\<rparr>"

theorem copies_agree_witness:
  "copy_bits_generic (demo_blt 0x1000) (demo_blt 0x2000) [\<lparr>rt_left = 0, rt_top = 0, rt_right = 1, rt_bottom = 1\<rparr>] (\<lambda>a. ucast a) =
   blt_bits (demo_blt 0x1000) (demo_blt 0x2000) [\<lparr>rt_left = 0, rt_top = 0, rt_right = 1, rt_bottom = 1\<rparr>] (\<lambda>a. ucast a)"
proof -
  have four: "(\<forall>i < 4. P i) \<longleftrightarrow> P 0 \<and> P 1 \<and> P 2 \<and> P (3 :: nat)" for P
    by (auto simp: less_Suc_eq numeral_eq_Suc)
  show ?thesis
    by (rule copies_agree)
      (simp_all add: demo_blt_def rows_apart_def num_pixels_def num_rows_def start32_def apart_def format_consts four)
qed

end
