(* ===== verification/VirtqueueSpec.thy ===== *)
theory VirtqueueSpec
  imports VirtioSplitProps VirtioPackedProps
begin

text \<open>
  What a virtqueue promises its driver, as an abstract machine that knows nothing of
  descriptors, rings, wrap counters or flags, and the proof that both ring implementations
  (\<^verbatim>\<open>src/VirtIO/VirtIORing.c\<close>, \<^verbatim>\<open>src/VirtIO/VirtIORing-Packed.c\<close>) refine it: whatever a driver and
  a device do to a ring, what they see is a behaviour of the abstract machine.
\<close>

section \<open>The abstract machine\<close>

text \<open>What can be observed at a queue: a request of \<^verbatim>\<open>n\<close> buffers taken or refused, a
  completion by the device, and the answers of a fetch.\<close>
datatype 'a vq_event =
    Added nat 'a
  | Refused nat 'a
  | Completed 'a
  | Fetched 'a
  | Nothing

text \<open>The requests the device works on, those it has completed in the order it did, and the
  room for further buffers.\<close>
record 'a vq_spec =
  working :: "'a multiset"
  completed :: "'a list"
  room :: nat

inductive spec_step :: "'a vq_spec \<Rightarrow> 'a vq_event \<Rightarrow> 'a vq_spec \<Rightarrow> bool" where
  spec_add: "n \<le> room s \<Longrightarrow>
    spec_step s (Added n t) \<lparr>working = add_mset t (working s), completed = completed s, room = room s - n\<rparr>"
| spec_refuse: "room s < n \<Longrightarrow> spec_step s (Refused n t) s"
| spec_complete: "t \<in># working s \<Longrightarrow>
    spec_step s (Completed t) \<lparr>working = working s - {#t#}, completed = completed s @ [t], room = room s\<rparr>"
| spec_fetch: "completed s = t # ts \<Longrightarrow> room s < r \<Longrightarrow>
    spec_step s (Fetched t) \<lparr>working = working s, completed = ts, room = r\<rparr>"
| spec_nothing: "completed s = [] \<Longrightarrow> spec_step s Nothing s"

inductive spec_run :: "'a vq_spec \<Rightarrow> 'a vq_event list \<Rightarrow> 'a vq_spec \<Rightarrow> bool" for s0 where
  spec_start: "spec_run s0 [] s0"
| spec_more: "spec_run s0 es s \<Longrightarrow> spec_step s e s' \<Longrightarrow> spec_run s0 (es @ [e]) s'"

section \<open>The behaviours of a ring\<close>

text \<open>The calls of the driver and the completions of the device on a ring, each with what it
  shows of itself.\<close>
inductive vq_trace ::
  "('q \<Rightarrow> scatterlist list \<Rightarrow> u32 \<Rightarrow> u32 \<Rightarrow> 'a \<Rightarrow> (int \<times> 'q) option) \<Rightarrow>
   ('q \<Rightarrow> ('a option \<times> 'q) option) \<Rightarrow> ('q \<Rightarrow> 'a \<Rightarrow> 'q \<Rightarrow> bool) \<Rightarrow>
   'q \<Rightarrow> 'a vq_event list \<Rightarrow> 'q \<Rightarrow> bool"
  for add get use q0 where
  tr_start: "vq_trace add get use q0 [] q0"
| tr_add: "vq_trace add get use q0 es q \<Longrightarrow> 0 < unat (out + in') \<Longrightarrow> unat (out + in') \<le> length sg \<Longrightarrow>
     add q sg out in' t = Some (r, q') \<Longrightarrow>
     vq_trace add get use q0
       (es @ [if r = 0 then Added (unat (out + in')) t else Refused (unat (out + in')) t]) q'"
| tr_use: "vq_trace add get use q0 es q \<Longrightarrow> use q t q' \<Longrightarrow> vq_trace add get use q0 (es @ [Completed t]) q'"
| tr_get: "vq_trace add get use q0 es q \<Longrightarrow> get q = Some (r, q') \<Longrightarrow>
     vq_trace add get use q0 (es @ [case r of None \<Rightarrow> Nothing | Some t \<Rightarrow> Fetched t]) q'"

section \<open>The contract gives the refinement\<close>

context virtqueue
begin

definition abs_vq :: "'q \<Rightarrow> 'a vq_spec" where
  "abs_vq q = \<lparr>working = outstanding q - mset (returned q), completed = returned q, room = free q\<rparr>"

lemma abs_sel [simp]:
  "working (abs_vq q) = outstanding q - mset (returned q)" "completed (abs_vq q) = returned q"
  "room (abs_vq q) = free q"
  by (simp_all add: abs_vq_def)

lemma sim_add:
  assumes "inv q" "0 < unat (out + in')" "unat (out + in') \<le> length sg" "add_buf q sg out in' t = Some (r, q')"
  shows "inv q' \<and>
    spec_step (abs_vq q) (if r = 0 then Added (unat (out + in')) t else Refused (unat (out + in')) t) (abs_vq q')"
proof (cases "unat (out + in') \<le> free q")
  case True
  with add_ok [OF assms(1,2) True assms(3), of t] assms(4)
  have q': "r = 0" "inv q'" "outstanding q' = add_mset t (outstanding q)" "returned q' = returned q"
    "free q' = free q - unat (out + in')" by auto
  have "outstanding q' - mset (returned q') = add_mset t (outstanding q - mset (returned q))"
    using q'(3,4) multiset_diff_union_assoc [OF returned_outstanding [OF assms(1)], of "{#t#}"] by simp
  then have "abs_vq q' = \<lparr>working = add_mset t (working (abs_vq q)), completed = completed (abs_vq q),
      room = room (abs_vq q) - unat (out + in')\<rparr>"
    using q'(4,5) by (simp add: abs_vq_def)
  then show ?thesis using spec_add [of "unat (out + in')" "abs_vq q" t] True q'(1,2) by simp
next
  case False
  with add_full [OF assms(1), of out in' sg t] assms(4) have "r = - ENOSPC" "q' = q" by auto
  then show ?thesis using False assms(1) spec_refuse [of "abs_vq q"] by (simp add: ENOSPC_def)
qed

lemma sim_use:
  assumes "inv q" "device_use q t q'"
  shows "inv q' \<and> spec_step (abs_vq q) (Completed t) (abs_vq q')"
proof -
  note u = use_ok [OF assms]
  have "mset (returned q @ [t]) \<subseteq># outstanding q" using u returned_outstanding [of q'] by metis
  then obtain Z where "outstanding q = mset (returned q @ [t]) + Z" by (metis mset_subset_eq_exists_conv)
  then have "t \<in># outstanding q - mset (returned q)" by simp
  moreover have "abs_vq q' = \<lparr>working = working (abs_vq q) - {#t#}, completed = completed (abs_vq q) @ [t],
      room = room (abs_vq q)\<rparr>"
    using u by (simp add: abs_vq_def)
  ultimately show ?thesis using u spec_complete [of t "abs_vq q"] by (simp only: abs_sel)
qed

lemma sim_get:
  assumes "inv q" "get_buf q = Some (r, q')"
  shows "inv q' \<and> spec_step (abs_vq q) (case r of None \<Rightarrow> Nothing | Some t \<Rightarrow> Fetched t) (abs_vq q')"
proof (cases "returned q")
  case Nil
  then have "r = None" "q' = q" using get_empty [OF assms(1)] assms(2) by auto
  then show ?thesis using Nil assms(1) spec_nothing [of "abs_vq q"] by simp
next
  case (Cons t ts)
  then have g: "r = Some t" "inv q'" "outstanding q' = outstanding q - {#t#}" "returned q' = ts" "free q < free q'"
    using get_ok [OF assms(1)] assms(2) by fastforce+
  then have "abs_vq q' = \<lparr>working = working (abs_vq q), completed = ts, room = free q'\<rparr>"
    using Cons by (simp add: abs_vq_def)
  then show ?thesis using spec_fetch [of "abs_vq q" t ts "free q'"] Cons g(1,2,5) by simp
qed

lemma trace_refines:
  assumes "vq_trace add_buf get_buf device_use q0 es q" "inv q0"
  shows "inv q \<and> spec_run (abs_vq q0) es (abs_vq q)"
  using assms
proof (induction rule: vq_trace.induct)
  case (tr_add es q out in' sg t r q')
  then show ?case using sim_add [of q out in' sg t r q'] spec_more by blast
next
  case (tr_use es q t q')
  then show ?case using sim_use [of q t q'] spec_more by blast
next
  case (tr_get es q r q')
  then show ?case using sim_get [of q r q'] spec_more by blast
qed (simp add: spec_start)

text \<open>The calls the abstract machine allows are defined on the ring.\<close>
lemma trace_enabled:
  assumes "inv q"
  shows "get_buf q \<noteq> None \<and>
    (0 < unat (out + in') \<longrightarrow> unat (out + in') \<le> length sg \<longrightarrow> add_buf q sg out in' t \<noteq> None)"
  using get_total [OF assms] add_cases [OF assms, of out in' sg t] by fastforce

end

section \<open>Both rings refine it\<close>

text \<open>What the abstract machine sees of a split ring and of a packed ring with its device.\<close>
definition split_view :: "'a virtqueue_split \<Rightarrow> 'a vq_spec" where
  "split_view q = \<lparr>working = outstanding_split q - mset (returned_split q), completed = returned_split q,
     room = free_split q\<rparr>"

definition packed_view :: "'a packed_sys \<Rightarrow> 'a vq_spec" where
  "packed_view s = \<lparr>working = outstanding_packed s - mset (returned_packed s),
     completed = returned_packed s, room = free_packed s\<rparr>"

text \<open>C2: (both rings, refinement) Whatever a driver and a device do to a split ring and to a packed
  ring, what they see of it is a behaviour of the same abstract machine: requests are taken exactly
  while there is room for all their buffers and refused otherwise, a completion moves one request
  the device works on to the end of a queue, a fetch takes the request at the front of that queue
  and gives room back, and finds nothing exactly when the queue is empty.  In the state reached
  no call of the driver is undefined.\<close>
theorem rings_refine_spec:
  assumes "split_sys_inv q0" "vq_trace add_tok_split get_tok_split device_use_split q0 es q"
    and "packed_sys_inv s0" "vq_trace add_tok_packed get_tok_packed device_use_packed s0 fs s"
  shows "spec_run (split_view q0) es (split_view q) \<and> spec_run (packed_view s0) fs (packed_view s) \<and>
    get_tok_split q \<noteq> None \<and> get_tok_packed s \<noteq> None \<and>
    (0 < unat (out + in') \<and> unat (out + in') \<le> length sg \<longrightarrow>
      add_tok_split q sg out in' t \<noteq> None \<and> add_tok_packed s sg out in' u \<noteq> None)"
proof -
  have v: "split_view = sq.abs_vq" "packed_view = pq.abs_vq"
    by (simp_all add: fun_eq_iff split_view_def packed_view_def sq.abs_vq_def pq.abs_vq_def)
  note a = sq.trace_refines [OF assms(2,1)] and b = pq.trace_refines [OF assms(4,3)]
  show ?thesis
    using a b sq.trace_enabled [of q out in' sg t] pq.trace_enabled [of s out in' sg u] by (simp add: v)
qed

lemma pring4_num_free: "num_free pring4 = 4"
  by (simp add: pring4_def vring_new_virtqueue_packed_def Let_def)

theorem rings_refine_spec_witness:
  "\<exists>q' s'. spec_run (split_view ring4) [Added 2 7, Nothing] (split_view q') \<and>
    spec_run (packed_view psys4) [Added 2 7, Nothing] (packed_view s')"
proof -
  have n: "unat (1 + 1 :: u32) = 2" by simp
  obtain q1 where q1: "add_tok_split ring4 sg2 1 1 7 = Some (0, q1)" "split_sys_inv q1"
      "returned_split q1 = returned_split ring4"
    using sq.add_ok [OF ring4_sys(1), of 1 1 sg2 7] by (auto simp: sg2_def ring4_defs)
  obtain s1 where s1: "add_tok_packed psys4 sg2 1 1 7 = Some (0, s1)" "packed_sys_inv s1"
      "returned_packed s1 = returned_packed psys4"
    using pq.add_ok [OF psys4_inv(1), of 1 1 sg2 7] by (auto simp: sg2_def psys4_def pring4_num_free)
  have r: "returned_split q1 = []" "returned_packed s1 = []"
    using q1(3) s1(3) by (simp_all add: returned_split_def pending_split_def ring4_defs returned_packed_def psys4_def)
  have l: "0 < unat (1 + 1 :: u32)" "unat (1 + 1 :: u32) \<le> length sg2" by (simp_all add: sg2_def)
  note tq = tr_add [where add = add_tok_split and get = get_tok_split and use = device_use_split,
      OF tr_start l q1(1)]
  note ts = tr_add [where add = add_tok_packed and get = get_tok_packed and use = device_use_packed,
      OF tr_start l s1(1)]
  note tq2 = tr_get [OF tq sq.get_empty [OF q1(2) r(1)]]
  note ts2 = tr_get [OF ts pq.get_empty [OF s1(2) r(2)]]
  show ?thesis
    using rings_refine_spec [OF ring4_sys(1) tq2 psys4_inv(1) ts2, of 0 0 "[]" 0 0] by auto
qed

end
