(* ===== verification/UmdModes.thy ===== *)
theory UmdModes
  imports Ioctl
begin

text \<open>
  The modes the user-mode driver reports: \<^verbatim>\<open>get_edid_data\<close>, \<^verbatim>\<open>get_total_screens\<close> and
  \<^verbatim>\<open>is_blacklist\<close> of \<^verbatim>\<open>src/IntelVirtDisplayUMD/IntelVirtDisplay/IntelVirtDisplayedid.cpp\<close>, and the
  callbacks of \<^verbatim>\<open>Driver.cpp\<close> beside it that turn a monitor description into modes.  The answers
  of the control requests and of the allocations are parameters; the buffers the operating system
  passes are lists, and an access outside one is undefined.
\<close>

section \<open>Data\<close>

definition szEdidBlock :: nat where "szEdidBlock = 256"
definition szModeList :: nat where "szModeList = 32"

record sample_mode =
  sm_Width :: u32
  sm_Height :: u32
  sm_VSync :: u32

record sample_monitor =
  pEdidBlock :: "u8 list"
  pModeList :: "sample_mode list"
  ulPreferredModeIdx :: u32

definition monitor_ok :: "sample_monitor \<Rightarrow> bool" where
  "monitor_ok m \<longleftrightarrow> length (pEdidBlock m) = szEdidBlock \<and> length (pModeList m) = szModeList"

definition no_mode :: sample_mode where
  "no_mode = \<lparr>sm_Width = 0, sm_Height = 0, sm_VSync = 0\<rparr>"

text \<open>The monitor of \<^verbatim>\<open>s_SampleMonitors\<close>, the entries of the mode list that are not written zero.\<close>
definition sample_edid :: "u8 list" where
  "sample_edid = [0, 255, 255, 255, 255, 255, 255, 0, 73, 20, 52, 18, 0, 0, 0, 0,
     42, 24, 1, 4, 165, 32, 20, 120, 6, 238, 145, 163, 84, 76, 153, 38,
     15, 80, 84, 33, 8, 0, 225, 192, 209, 192, 209, 0, 169, 64, 179, 0,
     149, 0, 129, 128, 129, 64, 234, 41, 0, 192, 81, 32, 28, 48, 64, 38,
     68, 64, 69, 203, 16, 0, 0, 24, 0, 0, 0, 247, 0, 160, 0, 64,
     130, 0, 40, 32, 0, 0, 0, 0, 0, 0, 0, 0, 0, 253, 0, 50,
     125, 30, 160, 255, 1, 10, 32, 32, 32, 32, 32, 32, 0, 0, 0, 252,
     0, 81, 69, 77, 85, 32, 77, 111, 110, 105, 116, 111, 114, 10, 1, 58,
     2, 3, 11, 0, 70, 125, 101, 96, 89, 31, 97, 0, 0, 0, 16, 0,
     0, 0, 0, 0, 0, 0, 0, 0, 0, 0, 0, 0, 0, 0, 0, 0,
     16, 0, 0, 0, 0, 0, 0, 0, 0, 0, 0, 0, 0, 0, 0, 0,
     0, 0, 16, 0, 0, 0, 0, 0, 0, 0, 0, 0, 0, 0, 0, 0,
     0, 0, 0, 0, 16, 0, 0, 0, 0, 0, 0, 0, 0, 0, 0, 0,
     0, 0, 0, 0, 0, 0, 16, 0, 0, 0, 0, 0, 0, 0, 0, 0,
     0, 0, 0, 0, 0, 0, 0, 0, 16, 0, 0, 0, 0, 0, 0, 0,
     0, 0, 0, 0, 0, 0, 0, 0, 0, 0, 0, 0, 0, 0, 0, 47]"

definition sample_monitor0 :: sample_monitor where
  "sample_monitor0 = \<lparr>pEdidBlock = sample_edid,
     pModeList = [\<lparr>sm_Width = 1920, sm_Height = 1080, sm_VSync = 60\<rparr>,
       \<lparr>sm_Width = 1600, sm_Height = 1200, sm_VSync = 60\<rparr>,
       \<lparr>sm_Width = 1024, sm_Height = 768, sm_VSync = 60\<rparr>] @ replicate 29 no_mode,
     ulPreferredModeIdx = 0\<rparr>"

text \<open>The element \<^verbatim>\<open>new IndirectSampleMonitor[n]()\<close> starts with.\<close>
definition blank_monitor :: sample_monitor where
  "blank_monitor = \<lparr>pEdidBlock = replicate szEdidBlock 0, pModeList = replicate szModeList no_mode,
     ulPreferredModeIdx = 0\<rparr>"

section \<open>The list of modes of a screen\<close>

definition WIDTH_UPPER_CAP :: u32 where "WIDTH_UPPER_CAP = 3840"
definition WIDTH_LOWER_CAP :: u32 where "WIDTH_LOWER_CAP = 1024"
definition REFRESH_RATE_59 :: u32 where "REFRESH_RATE_59 = 59"
definition REFRESH_RATE_60 :: u32 where "REFRESH_RATE_60 = 60"

definition blacklisted_resolution_list :: "(u32 \<times> u32) list" where
  "blacklisted_resolution_list = [(1400, 1050)]"

text \<open>0 or -1, as the code has it.\<close>
definition is_blacklist :: "u32 \<Rightarrow> u32 \<Rightarrow> int" where
  "is_blacklist w h = (if (w, h) \<in> set blacklisted_resolution_list then - 1 else 0)"

text \<open>\<^verbatim>\<open>(DWORD)refreshrate\<close>, the rate in millionths of a hertz; defined when the result fits.\<close>
definition rate_dword :: "nat \<Rightarrow> u32 option" where
  "rate_dword r = (if r div 1000000 < 2 ^ 32 then Some (of_nat (r div 1000000)) else None)"

text \<open>One turn of the loop that trims the modes; \<^verbatim>\<open>k\<close> is \<^verbatim>\<open>edid_mode_index\<close>.\<close>
definition trim_mode :: "edid_info \<Rightarrow> nat \<Rightarrow> nat \<times> sample_monitor \<Rightarrow> (nat \<times> sample_monitor) option" where
  "trim_mode d i = (\<lambda>(k, m). do {
     (w, h, r) \<leftarrow> nth_opt (ei_mode_list d) i;
     if w \<le> WIDTH_UPPER_CAP \<and> WIDTH_LOWER_CAP \<le> w \<and> k < szModeList \<and> is_blacklist w h = 0 then do {
       hz \<leftarrow> rate_dword r;
       ml \<leftarrow> upd_opt (pModeList m) k \<lparr>sm_Width = w, sm_Height = h,
         sm_VSync = (if hz = REFRESH_RATE_59 then REFRESH_RATE_60 else hz)\<rparr>;
       Some (k + 1, m\<lparr>pModeList := ml\<rparr>)
     } else Some (k, m) })"

text \<open>\<^verbatim>\<open>handle\<close>: whether the device handle is not null; \<^verbatim>\<open>ans\<close>: what the control request left in
  the structure, \<^verbatim>\<open>None\<close> when it could not be allocated or the request failed.\<close>
definition umd_get_edid_data ::
  "bool \<Rightarrow> edid_info option \<Rightarrow> bool \<Rightarrow> sample_monitor \<Rightarrow> (bool \<times> sample_monitor) option" where
  "umd_get_edid_data handle ans d_edid m =
     (if \<not> handle then Some (False, m)
      else if d_edid then Some (True, sample_monitor0)
      else case ans of
        None \<Rightarrow> Some (False, m)
      | Some d \<Rightarrow>
        if of_nat MODE_LIST_MAX_SIZE < ei_mode_size d then Some (False, m)
        else do {
          block \<leftarrow> copy_memory szEdidBlock (pEdidBlock m) (ei_edid_data d);
          (k, m') \<leftarrow> for_loop 0 (unat (ei_mode_size d)) 1 (trim_mode d)
            (0, m\<lparr>pEdidBlock := block, ulPreferredModeIdx := 0\<rparr>);
          Some (True, m') })"

text \<open>The number of screens, -1 as an unsigned number on failure.\<close>
definition get_total_screens :: "bool \<Rightarrow> u32 option \<Rightarrow> u32" where
  "get_total_screens handle ans = (if \<not> handle then - 1 else case ans of None \<Rightarrow> - 1 | Some n \<Rightarrow> n)"

definition MAX_MONITOR_SUPPORTED :: u32 where "MAX_MONITOR_SUPPORTED = 4"

text \<open>The monitors the driver makes when its device is added, or its failure.\<close>
definition make_monitors :: "bool \<Rightarrow> u32 option \<Rightarrow> bool \<Rightarrow> sample_monitor list option" where
  "make_monitors handle ans alloc_ok =
     (let n = get_total_screens handle ans in
      if n = - 1 \<or> MAX_MONITOR_SUPPORTED < n then None
      else if alloc_ok then Some (replicate (unat n) blank_monitor) else None)"

section \<open>Modes for the operating system\<close>

record signal_info =
  totalSize :: "u32 \<times> u32"
  activeSize :: "u32 \<times> u32"
  vSyncFreqDivider :: u32
  videoStandard :: u32
  vSyncFreq :: "u32 \<times> u32"
  hSyncFreq :: "u32 \<times> u32"
  pixelRate :: u64

definition fill_signal_info :: "u32 \<Rightarrow> u32 \<Rightarrow> u32 \<Rightarrow> bool \<Rightarrow> signal_info" where
  "fill_signal_info w h vsync monitor_mode =
     \<lparr>totalSize = (w, h), activeSize = (w, h), vSyncFreqDivider = (if monitor_mode then 0 else 1),
      videoStandard = 255, vSyncFreq = (vsync, 1), hSyncFreq = (vsync * h, 1),
      pixelRate = ucast vsync * ucast w * ucast h\<rparr>"

datatype mode_origin = OriginDriver | OriginMonitorDescriptor

record monitor_mode =
  mm_origin :: mode_origin
  mm_signal :: signal_info

definition create_monitor_mode :: "mode_origin \<Rightarrow> sample_mode \<Rightarrow> monitor_mode" where
  "create_monitor_mode org m =
     \<lparr>mm_origin = org, mm_signal = fill_signal_info (sm_Width m) (sm_Height m) (sm_VSync m) True\<rparr>"

definition create_target_mode :: "sample_mode \<Rightarrow> signal_info" where
  "create_target_mode m = fill_signal_info (sm_Width m) (sm_Height m) (sm_VSync m) False"

text \<open>\<^verbatim>\<open>memcmp(p, q, 256) == 0\<close>.\<close>
definition same_block :: "u8 list \<Rightarrow> u8 list \<Rightarrow> bool option" where
  "same_block p q = do {
     guard_opt (szEdidBlock \<le> length p \<and> szEdidBlock \<le> length q);
     Some (take szEdidBlock p = take szEdidBlock q) }"

text \<open>The loop over the monitors that looks for the one of a description.\<close>
fun find_description :: "u8 list \<Rightarrow> sample_monitor list \<Rightarrow> sample_monitor option option" where
  "find_description d [] = Some None"
| "find_description d (m # ms) = do {
     eq \<leftarrow> same_block d (pEdidBlock m);
     if eq then Some (Some m) else find_description d ms }"

text \<open>A status, the mode buffer afterwards, the number of modes reported, and the index of the
  preferred mode if it was set.\<close>
type_synonym modes_answer = "u32 \<times> monitor_mode list \<times> u32 \<times> u32 option"

definition parse_monitor_description ::
  "sample_monitor list \<Rightarrow> u32 \<Rightarrow> u8 list \<Rightarrow> u32 \<Rightarrow> monitor_mode list \<Rightarrow> modes_answer option" where
  "parse_monitor_description g_monitors dsize data cnt buf =
     (if unat cnt < szModeList
      then Some (if 0 < cnt then STATUS_BUFFER_TOO_SMALL else STATUS_SUCCESS, buf, of_nat szModeList, None)
      else if unat dsize \<noteq> szEdidBlock
      then Some (STATUS_INVALID_PARAMETER, buf, of_nat szModeList, None)
      else do {
        r \<leftarrow> find_description data g_monitors;
        case r of
          None \<Rightarrow> Some (STATUS_INVALID_PARAMETER, buf, of_nat szModeList, None)
        | Some m \<Rightarrow> do {
            buf' \<leftarrow> for_loop 0 szModeList 1 (\<lambda>i buf. do {
              sm \<leftarrow> nth_opt (pModeList m) i;
              upd_opt buf i (create_monitor_mode OriginMonitorDescriptor sm) }) buf;
            Some (STATUS_SUCCESS, buf', of_nat szModeList, Some (ulPreferredModeIdx m)) } })"

definition s_SampleDefaultModes :: "sample_mode list" where
  "s_SampleDefaultModes = [\<lparr>sm_Width = 1920, sm_Height = 1080, sm_VSync = 60\<rparr>,
     \<lparr>sm_Width = 1600, sm_Height = 900, sm_VSync = 60\<rparr>, \<lparr>sm_Width = 1024, sm_Height = 768, sm_VSync = 75\<rparr>]"

definition monitor_get_default_modes :: "u32 \<Rightarrow> monitor_mode list \<Rightarrow> modes_answer option" where
  "monitor_get_default_modes cnt buf =
     (if cnt = 0 then Some (STATUS_SUCCESS, buf, 3, None)
      else do {
        buf' \<leftarrow> for_loop 0 (length s_SampleDefaultModes) 1 (\<lambda>i buf. do {
          sm \<leftarrow> nth_opt s_SampleDefaultModes i;
          upd_opt buf i (create_monitor_mode OriginDriver sm) }) buf;
        Some (STATUS_SUCCESS, buf', 3, Some 0) })"

text \<open>The target modes: a status, the buffer afterwards and the number of modes, if it was set.\<close>
definition monitor_query_modes ::
  "sample_monitor list \<Rightarrow> u8 list \<Rightarrow> u32 \<Rightarrow> signal_info list \<Rightarrow> (u32 \<times> signal_info list \<times> u32 option) option" where
  "monitor_query_modes g_monitors data cnt buf = do {
     r \<leftarrow> find_description data g_monitors;
     case r of
       None \<Rightarrow> Some (STATUS_INVALID_PARAMETER, buf, None)
     | Some m \<Rightarrow> do {
         modes \<leftarrow> for_loop 0 szModeList 1 (\<lambda>i v. do {
           sm \<leftarrow> nth_opt (pModeList m) i;
           Some (v @ [create_target_mode sm]) }) [];
         if length modes \<le> unat cnt then do {
           buf' \<leftarrow> copy_memory (length modes) buf modes;
           Some (STATUS_SUCCESS, buf', Some (of_nat (length modes))) }
         else Some (STATUS_SUCCESS, buf, Some (of_nat (length modes))) } }"

section \<open>The trimmed list\<close>

text \<open>The modes of an answer that are kept, as the driver writes them, in the order of the answer.\<close>
definition mode_kept :: "u32 \<times> u32 \<times> nat \<Rightarrow> bool" where
  "mode_kept = (\<lambda>(w, h, r). 1024 \<le> w \<and> w \<le> 3840 \<and> (w, h) \<noteq> (1400, 1050))"

definition mode_of :: "u32 \<times> u32 \<times> nat \<Rightarrow> sample_mode" where
  "mode_of = (\<lambda>(w, h, r). \<lparr>sm_Width = w, sm_Height = h,
     sm_VSync = of_nat (if r div 1000000 = 59 then 60 else r div 1000000)\<rparr>)"

definition kept_modes :: "edid_info \<Rightarrow> sample_mode list" where
  "kept_modes d = map mode_of (filter mode_kept (take (unat (ei_mode_size d)) (ei_mode_list d)))"

definition rates_fit :: "edid_info \<Rightarrow> bool" where
  "rates_fit d \<longleftrightarrow> (\<forall>(w, h, r) \<in> set (ei_mode_list d). r div 1000000 < 2 ^ 32)"

lemma mode_kept_code:
  "mode_kept (w, h, r) \<longleftrightarrow> w \<le> WIDTH_UPPER_CAP \<and> WIDTH_LOWER_CAP \<le> w \<and> is_blacklist w h = 0"
  by (auto simp: mode_kept_def WIDTH_UPPER_CAP_def WIDTH_LOWER_CAP_def is_blacklist_def
      blacklisted_resolution_list_def)

lemma mode_of_code:
  assumes "rate_dword r = Some hz"
  shows "mode_of (w, h, r) = \<lparr>sm_Width = w, sm_Height = h,
    sm_VSync = (if hz = REFRESH_RATE_59 then REFRESH_RATE_60 else hz)\<rparr>"
proof -
  have r: "r div 1000000 < 2 ^ 32" "hz = of_nat (r div 1000000)"
    using assms by (auto simp: rate_dword_def split: if_splits)
  have "unat hz = r div 1000000" unfolding r(2) using r(1) by (intro unat_of_nat_less) simp
  then have "hz = 59 \<longleftrightarrow> r div 1000000 = 59" by (auto simp: word_unat_eq_iff)
  then show ?thesis using r(2) by (auto simp: mode_of_def REFRESH_RATE_59_def REFRESH_RATE_60_def)
qed

lemma trim_modes_ok:
  assumes d: "unat (ei_mode_size d) \<le> 32" "length (ei_mode_list d) = 32" "rates_fit d" and m: "monitor_ok m"
  shows "\<exists>k m'. for_loop 0 (unat (ei_mode_size d)) 1 (trim_mode d) (0, m) = Some (k, m') \<and>
    m' = m\<lparr>pModeList := kept_modes d @ drop (length (kept_modes d)) (pModeList m)\<rparr>"
proof -
  let ?ms = "\<lambda>i. map mode_of (filter mode_kept (take i (ei_mode_list d)))"
  let ?I = "\<lambda>i (k, m'). k = length (?ms i) \<and> m' = m\<lparr>pModeList := ?ms i @ drop k (pModeList m)\<rparr>"
  have "\<exists>s'. for_loop 0 (unat (ei_mode_size d)) 1 (trim_mode d) (0, m) = Some s' \<and> ?I (unat (ei_mode_size d)) s'"
  proof (rule for_loop_inv)
    show "?I 0 (0, m)" by simp
  next
    fix i s
    assume i: "0 \<le> i" "i < unat (ei_mode_size d)" and I: "?I i s"
    obtain k m' where s: "s = (k, m')" by (cases s)
    obtain w h r where x: "ei_mode_list d ! i = (w, h, r)" by (metis prod_cases3)
    have il: "i < length (ei_mode_list d)" using i(2) d(1,2) by simp
    have tk: "take (Suc i) (ei_mode_list d) = take i (ei_mode_list d) @ [(w, h, r)]"
      using il x by (simp add: take_Suc_conv_app_nth)
    have "length (filter mode_kept (take i (ei_mode_list d))) \<le> i"
      using length_filter_le [of mode_kept "take i (ei_mode_list d)"] by simp
    then have k: "k = length (?ms i)" "k < 32" using I s il d(2) by auto
    have rf: "r div 1000000 < 2 ^ 32" using d(3) x il nth_mem [OF il] by (auto simp: rates_fit_def)
    show "\<exists>s'. trim_mode d i s = Some s' \<and> ?I (Suc i) s'"
    proof (cases "mode_kept (w, h, r)")
      case False
      then have "trim_mode d i s = Some (k, m')"
        using il x mode_kept_code [of w h r] by (auto simp: trim_mode_def s)
      moreover have "?I (Suc i) (k, m')" using I False by (simp add: s tk)
      ultimately show ?thesis by blast
    next
      case True
      have l: "length (pModeList m) = 32" using m by (simp add: monitor_ok_def szModeList_def)
      obtain hz where hz: "rate_dword r = Some hz" using rf by (simp add: rate_dword_def)
      have pm: "pModeList m' = ?ms i @ drop k (pModeList m)" using I s by simp
      have lp: "k < length (pModeList m')" using pm k l by simp
      have "trim_mode d i s = Some (k + 1, m'\<lparr>pModeList := (pModeList m')[k := mode_of (w, h, r)]\<rparr>)"
        using il x mode_kept_code [of w h r] True hz k lp mode_of_code [OF hz, of w h]
        by (simp add: trim_mode_def s szModeList_def)
      moreover have "(pModeList m')[k := mode_of (w, h, r)] = ?ms (Suc i) @ drop (k + 1) (pModeList m)"
        using pm k l True by (simp add: tk list_update_append Cons_nth_drop_Suc [symmetric])
      ultimately show ?thesis using I k True by (auto simp: s tk)
    qed
  qed simp
  then show ?thesis by (auto simp: kept_modes_def)
qed

lemma umd_get_edid_answer:
  assumes "monitor_ok m" "ei_mode_size d \<le> 32" "length (ei_mode_list d) = 32" "length (ei_edid_data d) = 256"
    and "rates_fit d"
  shows "umd_get_edid_data True (Some d) False m =
    Some (True, \<lparr>pEdidBlock = ei_edid_data d,
      pModeList = kept_modes d @ drop (length (kept_modes d)) (pModeList m), ulPreferredModeIdx = 0\<rparr>)"
proof -
  let ?m = "m\<lparr>pEdidBlock := ei_edid_data d, ulPreferredModeIdx := 0\<rparr>"
  have n: "unat (ei_mode_size d) \<le> 32" using assms(2) by (simp add: word_le_nat_alt)
  have "monitor_ok ?m" using assms(1,4) by (simp add: monitor_ok_def szEdidBlock_def)
  from trim_modes_ok [OF n assms(3,5) this] obtain k m' where
    l: "for_loop 0 (unat (ei_mode_size d)) 1 (trim_mode d) (0, ?m) = Some (k, m')"
      "m' = ?m\<lparr>pModeList := kept_modes d @ drop (length (kept_modes d)) (pModeList ?m)\<rparr>" by blast
  have "copy_memory szEdidBlock (pEdidBlock m) (ei_edid_data d) = Some (ei_edid_data d)"
    using assms(1,4) by (simp add: copy_memory_def monitor_ok_def szEdidBlock_def)
  moreover have "\<not> of_nat MODE_LIST_MAX_SIZE < ei_mode_size d"
    using assms(2) by (simp add: MODE_LIST_MAX_SIZE_def)
  ultimately show ?thesis using l by (cases m) (simp add: umd_get_edid_data_def)
qed

text \<open>C22: (user-mode driver, the modes of a screen) For an answer with at most 32 modes,
  \<^verbatim>\<open>get_edid_data\<close> takes over the 256 bytes and writes, from the front of the list, exactly the modes
  that are 1024 to 3840 pixels wide and not 1400x1050, in the order of the answer, 59 Hz as 60 Hz,
  other fractions of a hertz cut off.  Nothing ends the list: the entries behind it are those of the
  identification data the screen had before, and the mode list is reported whole.\<close>
theorem trimmed_modes_keep_stale_tail:
  assumes "monitor_ok m" "ei_mode_size d \<le> 32" "length (ei_mode_list d) = 32" "length (ei_edid_data d) = 256"
    and "rates_fit d"
  shows "umd_get_edid_data True (Some d) False m =
    Some (True, \<lparr>pEdidBlock = ei_edid_data d,
      pModeList = kept_modes d @ drop (length (kept_modes d)) (pModeList m), ulPreferredModeIdx = 0\<rparr>)"
  by (rule umd_get_edid_answer [OF assms])

text \<open>An answer of one mode, for a screen that had the modes of the built-in monitor.\<close>
definition demo_edid_answer :: edid_info where
  "demo_edid_answer = \<lparr>ei_edid_data = replicate 256 0, ei_mode_size = 2, ei_screen_num = 0,
     ei_mode_list = [(800, 600, 60000000), (1280, 720, 59940000)] @ replicate 30 (0, 0, 0)\<rparr>"

theorem trimmed_modes_keep_stale_tail_witness:
  "umd_get_edid_data True (Some demo_edid_answer) False sample_monitor0 =
    Some (True, \<lparr>pEdidBlock = replicate 256 0,
      pModeList = \<lparr>sm_Width = 1280, sm_Height = 720, sm_VSync = 60\<rparr> # tl (pModeList sample_monitor0),
      ulPreferredModeIdx = 0\<rparr>) \<and>
   pModeList sample_monitor0 ! 1 = \<lparr>sm_Width = 1600, sm_Height = 1200, sm_VSync = 60\<rparr>"
proof -
  have "monitor_ok sample_monitor0"
    by (simp add: monitor_ok_def sample_monitor0_def sample_edid_def szEdidBlock_def szModeList_def)
  moreover have "ei_mode_size demo_edid_answer \<le> 32" "length (ei_mode_list demo_edid_answer) = 32"
    "length (ei_edid_data demo_edid_answer) = 256" "rates_fit demo_edid_answer"
    by (auto simp: demo_edid_answer_def rates_fit_def)
  moreover have "kept_modes demo_edid_answer = [\<lparr>sm_Width = 1280, sm_Height = 720, sm_VSync = 60\<rparr>]"
    by (simp add: kept_modes_def demo_edid_answer_def mode_kept_def mode_of_def)
  moreover have "ei_edid_data demo_edid_answer = replicate 256 0" by (simp add: demo_edid_answer_def)
  ultimately show ?thesis
    using trimmed_modes_keep_stale_tail [of sample_monitor0 demo_edid_answer]
    by (simp add: drop_Suc) (simp add: sample_monitor0_def)
qed

section \<open>The modes of a description\<close>

lemma for_loop_fill:
  assumes "length ms \<le> length buf"
  shows "for_loop 0 (length ms) 1 (\<lambda>i buf. do { x \<leftarrow> nth_opt ms i; upd_opt buf i (f x) }) buf =
    Some (map f ms @ drop (length ms) buf)"
proof -
  let ?I = "\<lambda>i b. b = map f (take i ms) @ drop i buf"
  have "\<exists>s'. for_loop 0 (length ms) 1 (\<lambda>i buf. do { x \<leftarrow> nth_opt ms i; upd_opt buf i (f x) }) buf = Some s' \<and>
    ?I (length ms) s'"
    by (rule for_loop_inv)
      (use assms in \<open>auto simp: take_Suc_conv_app_nth list_update_append Cons_nth_drop_Suc [symmetric]\<close>)
  then show ?thesis by auto
qed

lemma for_loop_fill_short:
  assumes "length buf < length ms"
  shows "for_loop 0 (length ms) 1 (\<lambda>i buf. do { x \<leftarrow> nth_opt ms i; upd_opt buf i (f x) }) buf = None"
proof -
  let ?f = "\<lambda>i buf. do { x \<leftarrow> nth_opt ms i; upd_opt buf i (f x) }"
  have "for_loop i (length ms) 1 ?f b = None" if "length b < length ms" "i \<le> length b" for i b
    using that
  proof (induction "length b - i" arbitrary: i b)
    case 0
    then show ?case by (subst for_loop.simps) (simp add: upd_opt_def)
  next
    case (Suc n)
    then have "?f i b = Some (b[i := f (ms ! i)])" by simp
    moreover have "for_loop (Suc i) (length ms) 1 ?f (b[i := f (ms ! i)]) = None"
      using Suc.prems Suc.hyps(2) by (intro Suc.hyps(1)) simp_all
    ultimately show ?case using Suc.prems by (subst for_loop.simps) simp
  qed
  then show ?thesis using assms by simp
qed

lemma for_loop_collect:
  "for_loop 0 (length ms) 1 (\<lambda>i v. do { x \<leftarrow> nth_opt ms i; Some (v @ [f x]) }) [] = Some (map f ms)"
proof -
  let ?I = "\<lambda>i v. v = map f (take i ms)"
  have "\<exists>s'. for_loop 0 (length ms) 1 (\<lambda>i v. do { x \<leftarrow> nth_opt ms i; Some (v @ [f x]) }) [] = Some s' \<and>
    ?I (length ms) s'"
    by (rule for_loop_inv) (auto simp: take_Suc_conv_app_nth)
  then show ?thesis by simp
qed

lemma find_description_eq:
  assumes "\<forall>m \<in> set ms. monitor_ok m" "length d = szEdidBlock"
  shows "find_description d ms = Some (find (\<lambda>m. pEdidBlock m = d) ms)"
  using assms by (induction ms) (auto simp: same_block_def monitor_ok_def)

text \<open>C37: (user-mode driver, modes of a description) For a buffer that has room, both callbacks find
  the first monitor with the identification data they are asked for, and report for each of its
  32 modes, used or not, a monitor mode and at the same place a target mode of the same size and
  rate, so that none is lost when the operating system intersects the two lists; what lies behind in
  the buffers stays.  Data no monitor has is an invalid parameter for both.\<close>
theorem description_modes_agree:
  assumes "\<forall>m \<in> set ms. monitor_ok m" "length d = 256"
    and "length b1 = unat n1" "32 \<le> unat n1" "length b2 = unat n2" "32 \<le> unat n2"
  shows "case find (\<lambda>m. pEdidBlock m = d) ms of
      None \<Rightarrow> parse_monitor_description ms 256 d n1 b1 = Some (STATUS_INVALID_PARAMETER, b1, 32, None) \<and>
        monitor_query_modes ms d n2 b2 = Some (STATUS_INVALID_PARAMETER, b2, None)
    | Some m \<Rightarrow> (\<exists>mm tm. length mm = 32 \<and> length tm = 32 \<and>
        parse_monitor_description ms 256 d n1 b1 =
          Some (STATUS_SUCCESS, mm @ drop 32 b1, 32, Some (ulPreferredModeIdx m)) \<and>
        monitor_query_modes ms d n2 b2 = Some (STATUS_SUCCESS, tm @ drop 32 b2, Some 32) \<and>
        (\<forall>i < 32. mm_signal (mm ! i) = (tm ! i)\<lparr>vSyncFreqDivider := 0\<rparr> \<and>
          activeSize (tm ! i) = (sm_Width (pModeList m ! i), sm_Height (pModeList m ! i)) \<and>
          vSyncFreq (tm ! i) = (sm_VSync (pModeList m ! i), 1) \<and>
          unat (pixelRate (tm ! i)) =
            unat (sm_VSync (pModeList m ! i)) * unat (sm_Width (pModeList m ! i)) *
            unat (sm_Height (pModeList m ! i)) mod 2 ^ 64))"
proof -
  have d: "length d = szEdidBlock" using assms(2) by (simp add: szEdidBlock_def)
  note fd = find_description_eq [OF assms(1) d]
  have pr: "unat (ucast v * ucast w * ucast h :: u64) = unat (v :: u32) * unat (w :: u32) * unat (h :: u32) mod 2 ^ 64" for v w h
    by (simp add: unat_word_ariths unat_ucast_u32_u64 mod_mult_left_eq)
  show ?thesis
  proof (cases "find (\<lambda>m. pEdidBlock m = d) ms")
    case None
    then show ?thesis using assms(3-6)
      by (simp add: parse_monitor_description_def monitor_query_modes_def fd szModeList_def szEdidBlock_def)
  next
    case (Some m)
    then have m: "length (pModeList m) = 32" using assms(1) by (auto simp: find_Some_iff monitor_ok_def szModeList_def)
    let ?mm = "map (create_monitor_mode OriginMonitorDescriptor) (pModeList m)"
    let ?tm = "map create_target_mode (pModeList m)"
    have "parse_monitor_description ms 256 d n1 b1 =
        Some (STATUS_SUCCESS, ?mm @ drop 32 b1, 32, Some (ulPreferredModeIdx m))"
      using assms(3,4) m for_loop_fill [of "pModeList m" b1 "create_monitor_mode OriginMonitorDescriptor"] Some
      by (simp add: parse_monitor_description_def fd szModeList_def szEdidBlock_def)
    moreover have "monitor_query_modes ms d n2 b2 = Some (STATUS_SUCCESS, ?tm @ drop 32 b2, Some 32)"
      using assms(5,6) m for_loop_collect [of "pModeList m" create_target_mode] Some
      by (simp add: monitor_query_modes_def fd szModeList_def copy_memory_def)
    ultimately show ?thesis using m
      by (auto simp: Some create_monitor_mode_def create_target_mode_def fill_signal_info_def pr
          intro!: exI [of _ ?mm] exI [of _ ?tm])
  qed
qed

theorem description_modes_agree_witness:
  "\<exists>mm tm. parse_monitor_description [sample_monitor0] 256 sample_edid 32 (replicate 32 undefined) =
      Some (STATUS_SUCCESS, mm, 32, Some 0) \<and>
    monitor_query_modes [sample_monitor0] sample_edid 32 (replicate 32 undefined) =
      Some (STATUS_SUCCESS, tm, Some 32) \<and> activeSize (tm ! 0) = (1920, 1080)"
proof -
  have "\<forall>m \<in> set [sample_monitor0]. monitor_ok m" "length sample_edid = 256"
    by (simp_all add: monitor_ok_def sample_monitor0_def sample_edid_def szEdidBlock_def szModeList_def)
  moreover have "find (\<lambda>m. pEdidBlock m = sample_edid) [sample_monitor0] = Some sample_monitor0"
    "ulPreferredModeIdx sample_monitor0 = 0" "pModeList sample_monitor0 ! 0 = \<lparr>sm_Width = 1920, sm_Height = 1080, sm_VSync = 60\<rparr>"
    by (simp_all add: sample_monitor0_def)
  ultimately show ?thesis
    using description_modes_agree [of "[sample_monitor0]" sample_edid "replicate 32 undefined" 32
        "replicate 32 undefined" 32]
    by (auto split: option.splits)
qed

text \<open>(user-mode driver, buffers of the operating system) The callbacks that are given a buffer too
  small differ in what they do with it: the one for a monitor without identification data writes
  its three modes also into a buffer for one or two; the one for the target modes takes the
  description without looking at its length and compares 256 bytes of it, past the end of a
  shorter one; only the one for the monitor modes refuses both.\<close>
theorem mode_buffers_overrun:
  assumes "0 < unat n" "unat n < 3" "length b = unat n" "length d < 256" "monitor_ok m"
  shows "monitor_get_default_modes n b = None \<and> monitor_query_modes (m # ms) d n2 b2 = None \<and>
    parse_monitor_description (m # ms) (of_nat (length d)) d n b =
      Some (STATUS_BUFFER_TOO_SMALL, b, 32, None) \<and>
    (32 \<le> unat n2 \<longrightarrow> parse_monitor_description (m # ms) (of_nat (length d)) d n2 b3 =
      Some (STATUS_INVALID_PARAMETER, b3, 32, None))"
proof -
  have l: "length s_SampleDefaultModes = 3" by (simp add: s_SampleDefaultModes_def)
  have n: "n \<noteq> 0" "0 < n" using assms(1) by (auto simp: word_gt_0 intro: ccontr)
  have "monitor_get_default_modes n b = None"
    using for_loop_fill_short [of b s_SampleDefaultModes "create_monitor_mode OriginDriver"] assms(2,3) l n(1)
    by (simp add: monitor_get_default_modes_def)
  moreover have "monitor_query_modes (m # ms) d n2 b2 = None"
    using assms(4) by (simp add: monitor_query_modes_def same_block_def szEdidBlock_def)
  moreover have "unat (of_nat (length d) :: u32) = length d" using assms(4) by (intro unat_of_nat_less) simp
  ultimately show ?thesis
    using assms n by (simp add: parse_monitor_description_def szModeList_def szEdidBlock_def)
qed

theorem mode_buffers_overrun_witness:
  "monitor_get_default_modes 2 (replicate 2 undefined) = None \<and>
   monitor_query_modes [sample_monitor0] [] 0 [] = None"
proof -
  have "monitor_ok sample_monitor0"
    by (simp add: monitor_ok_def sample_monitor0_def sample_edid_def szEdidBlock_def szModeList_def)
  then show ?thesis
    using mode_buffers_overrun [of 2 "replicate 2 undefined" "[]" sample_monitor0 "[]" 0 "[]" "[]"] by simp
qed

end
