(* ===== verification/UmdHotplug.thy ===== *)
theory UmdHotplug
  imports UmdModes
begin

text \<open>
  The hot-plug thread of the user-mode driver: \<^verbatim>\<open>hpd_event_create\<close>, \<^verbatim>\<open>get_hpd_data\<close> and
  \<^verbatim>\<open>FinishInit\<close> of \<^verbatim>\<open>src/IntelVirtDisplayUMD/IntelVirtDisplay/Driver.cpp\<close>.  A round of the thread
  answers one hot-plug event; what the kernel-mode driver and the operating system answer in it is
  a record.  The arrivals and departures of monitors and the published counts are logged.
\<close>

section \<open>State\<close>

record monitor_info =
  mi_status :: bool
  mi_edid :: "u8 list"

text \<open>A monitor object: the handle and the description it was created with, none for a connector
  past the known monitors.\<close>
type_synonym monitor_object = "nat \<times> u8 list option"

datatype hpd_event = Arrived nat nat | Departed nat "nat option" | Published int

text \<open>The locals of the thread, \<^verbatim>\<open>g_monitors\<close> and \<^verbatim>\<open>g_monitorobject_list\<close>, and the count in the
  shared section.\<close>
record hpd =
  h_minfo :: "monitor_info list"
  h_monitors :: "sample_monitor list"
  h_objs :: "monitor_object option list"
  h_disp_count :: int
  h_shared :: int
  h_d_edid :: bool
  h_present :: "bool list"
  h_do_set :: bool
  h_log :: "hpd_event list"

text \<open>What a round is answered: the screens present, or none when the request or its allocation
  failed; per screen the identification data, and the handle of the monitor object if it can be
  created.  A round asks for each screen at most once.\<close>
record hpd_round =
  rd_present :: "bool list option"
  rd_edid :: "nat \<Rightarrow> edid_info option"
  rd_create :: "nat \<Rightarrow> nat option"

section \<open>Operations\<close>

definition finish_init :: "(nat \<Rightarrow> nat option) \<Rightarrow> nat \<Rightarrow> hpd \<Rightarrow> hpd option" where
  "finish_init create c s = (case create c of
     None \<Rightarrow> Some s
   | Some h \<Rightarrow> do {
       os \<leftarrow> upd_opt (h_objs s) c (Some (h, map_option pEdidBlock (nth_opt (h_monitors s) c)));
       Some (s\<lparr>h_objs := os, h_log := h_log s @ [Arrived c h]\<rparr>) })"

definition monitor_departure :: "nat \<Rightarrow> hpd \<Rightarrow> hpd option" where
  "monitor_departure c s = do {
     ob \<leftarrow> nth_opt (h_objs s) c;
     os \<leftarrow> upd_opt (h_objs s) c None;
     Some (s\<lparr>h_objs := os, h_log := h_log s @ [Departed c (map_option fst ob)]\<rparr>) }"

definition fetch_edid :: "bool \<Rightarrow> edid_info option \<Rightarrow> bool \<Rightarrow> nat \<Rightarrow> hpd \<Rightarrow> (bool \<times> hpd) option" where
  "fetch_edid handle ans d_edid c s = do {
     m \<leftarrow> nth_opt (h_monitors s) c;
     (ok, m') \<leftarrow> umd_get_edid_data handle ans d_edid m;
     ms \<leftarrow> upd_opt (h_monitors s) c m';
     Some (ok, s\<lparr>h_monitors := ms\<rparr>) }"

text \<open>The fallback to the default data.\<close>
definition fetch_or_default :: "bool \<Rightarrow> hpd_round \<Rightarrow> nat \<Rightarrow> hpd \<Rightarrow> hpd option" where
  "fetch_or_default handle rd c s = do {
     (ok, s1) \<leftarrow> fetch_edid handle (rd_edid rd c) (h_d_edid s) c s;
     if ok then Some s1 else map_option snd (fetch_edid handle (rd_edid rd c) True c s1) }"

definition set_minfo :: "nat \<Rightarrow> (monitor_info \<Rightarrow> monitor_info) \<Rightarrow> hpd \<Rightarrow> hpd option" where
  "set_minfo c f s = do {
     mi \<leftarrow> nth_opt (h_minfo s) c;
     ms \<leftarrow> upd_opt (h_minfo s) c (f mi);
     Some (s\<lparr>h_minfo := ms\<rparr>) }"

definition copy_edid :: "nat \<Rightarrow> hpd \<Rightarrow> hpd option" where
  "copy_edid c s = do {
     m \<leftarrow> nth_opt (h_monitors s) c;
     mi \<leftarrow> nth_opt (h_minfo s) c;
     b \<leftarrow> copy_memory szEdidBlock (mi_edid mi) (pEdidBlock m);
     set_minfo c (\<lambda>mi. mi\<lparr>mi_edid := b\<rparr>) s }"

definition clear_edid :: "nat \<Rightarrow> hpd \<Rightarrow> hpd option" where
  "clear_edid c = set_minfo c (\<lambda>mi. mi\<lparr>mi_edid := replicate szEdidBlock 0\<rparr>)"

text \<open>The body of the loop over the screens.\<close>
definition hpd_screen :: "bool \<Rightarrow> hpd_round \<Rightarrow> nat \<Rightarrow> hpd \<Rightarrow> hpd option" where
  "hpd_screen handle rd c s = do {
     mi \<leftarrow> nth_opt (h_minfo s) c;
     p \<leftarrow> nth_opt (h_present s) c;
     if mi_status mi \<noteq> p then do {
       s1 \<leftarrow> set_minfo c (\<lambda>mi. mi\<lparr>mi_status := p\<rparr>) s;
       ob \<leftarrow> nth_opt (h_objs s1) c;
       s2 \<leftarrow> (if \<not> p \<and> ob \<noteq> None then do {
           s2 \<leftarrow> monitor_departure c s1;
           s3 \<leftarrow> clear_edid c s2;
           Some (s3\<lparr>h_disp_count := h_disp_count s3 - 1\<rparr>)
         } else do {
           s2 \<leftarrow> fetch_or_default handle rd c s1;
           s3 \<leftarrow> copy_edid c s2;
           s4 \<leftarrow> finish_init (rd_create rd) c s3;
           Some (s4\<lparr>h_disp_count := h_disp_count s4 + 1\<rparr>) });
       Some (s2\<lparr>h_do_set := True\<rparr>)
     } else if p then do {
       s1 \<leftarrow> fetch_or_default handle rd c s;
       mi \<leftarrow> nth_opt (h_minfo s1) c;
       m \<leftarrow> nth_opt (h_monitors s1) c;
       eq \<leftarrow> same_block (mi_edid mi) (pEdidBlock m);
       if \<not> eq then do {
         s2 \<leftarrow> clear_edid c s1;
         s3 \<leftarrow> copy_edid c s2;
         s4 \<leftarrow> monitor_departure c s3;
         s5 \<leftarrow> finish_init (rd_create rd) c s4;
         Some (s5\<lparr>h_do_set := True\<rparr>)
       } else Some s1
     } else Some s }"

definition publish :: "int \<Rightarrow> hpd \<Rightarrow> hpd" where
  "publish n s = s\<lparr>h_shared := n, h_log := h_log s @ [Published n]\<rparr>"

text \<open>Whether the request succeeded, and the screens present, copied one by one.\<close>
definition get_hpd_data :: "hpd_round \<Rightarrow> bool list \<Rightarrow> bool \<times> bool list" where
  "get_hpd_data rd data = (case rd_present rd of
     None \<Rightarrow> (False, data)
   | Some ps \<Rightarrow> (True, map (\<lambda>i. if i < 4 then ps ! i else data ! i) [0..<length data]))"

text \<open>One hot-plug event.\<close>
definition hpd_hotplug :: "bool \<Rightarrow> hpd_round \<Rightarrow> hpd \<Rightarrow> hpd option" where
  "hpd_hotplug handle rd s = do {
     s1 \<leftarrow> (if h_d_edid s then do { s1 \<leftarrow> monitor_departure 0 s; Some (s1\<lparr>h_d_edid := False\<rparr>) } else Some s);
     ps \<leftarrow> upd_opt (h_present s1) 3 False;
     let s2 = s1\<lparr>h_present := ps\<rparr>;
     let (ok, ps) = get_hpd_data rd (h_present s2);
     if \<not> ok then Some s2
     else do {
         s3 \<leftarrow> for_loop 0 (length (h_monitors s2)) 1 (hpd_screen handle rd) (s2\<lparr>h_present := ps\<rparr>);
         let s4 = (if h_do_set s3 then publish (h_disp_count s3) s3 else s3);
         Some (s4\<lparr>h_do_set := False\<rparr>) } }"

text \<open>Before the first event: the primary monitor, with the data of the device on Windows 11 and the
  default data before.\<close>
definition hpd_begin :: "bool \<Rightarrow> bool \<Rightarrow> edid_info option \<Rightarrow> (nat \<Rightarrow> nat option) \<Rightarrow> hpd \<Rightarrow> hpd option" where
  "hpd_begin handle is_win11 ans create s = do {
     (ok, s1) \<leftarrow> fetch_edid handle ans (if is_win11 then False else h_d_edid s) 0 s;
     s2 \<leftarrow> finish_init create 0 s1;
     Some (publish 1 s2) }"

text \<open>When the thread is told to end.\<close>
definition hpd_end :: "hpd \<Rightarrow> hpd option" where
  "hpd_end s = for_loop 0 4 1 (\<lambda>c s. do {
     p \<leftarrow> nth_opt (h_present s) c;
     if p then do { s1 \<leftarrow> set_minfo c (\<lambda>mi. mi\<lparr>mi_status := False\<rparr>) s; monitor_departure c s1 }
     else Some s }) s"

text \<open>The thread with the monitors and the objects it finds; \<^verbatim>\<open>log\<close> is what has happened before.\<close>
definition hpd_new :: "sample_monitor list \<Rightarrow> monitor_object option list \<Rightarrow> hpd_event list \<Rightarrow> hpd" where
  "hpd_new ms obs log = \<lparr>h_minfo = replicate 4 \<lparr>mi_status = False, mi_edid = replicate szEdidBlock 0\<rparr>,
     h_monitors = ms, h_objs = obs, h_disp_count = 0, h_shared = 0, h_d_edid = True,
     h_present = replicate 4 False, h_do_set = False, h_log = log\<rparr>"

fun hpd_rounds :: "bool \<Rightarrow> hpd_round list \<Rightarrow> hpd \<Rightarrow> hpd option" where
  "hpd_rounds handle [] s = Some s"
| "hpd_rounds handle (rd # rds) s = do { s1 \<leftarrow> hpd_hotplug handle rd s; hpd_rounds handle rds s1 }"

definition hpd_event_create ::
  "bool \<Rightarrow> bool \<Rightarrow> edid_info option \<Rightarrow> (nat \<Rightarrow> nat option) \<Rightarrow> hpd_round list \<Rightarrow> hpd \<Rightarrow> hpd option" where
  "hpd_event_create handle is_win11 ans create rds s = do {
     s1 \<leftarrow> hpd_begin handle is_win11 ans create s;
     s2 \<leftarrow> hpd_rounds handle rds s1;
     hpd_end s2 }"

section \<open>The invariant\<close>

text \<open>The log of a connector: what arrives finds the connector free, what departs is the object
  that arrived there.\<close>
fun replay :: "(nat \<Rightarrow> nat option) \<Rightarrow> hpd_event list \<Rightarrow> (nat \<Rightarrow> nat option) option" where
  "replay f [] = Some f"
| "replay f (Arrived c h # es) = (if f c = None then replay (f(c := Some h)) es else None)"
| "replay f (Departed c ob # es) = (if ob \<noteq> None \<and> f c = ob then replay (f(c := None)) es else None)"
| "replay f (Published n # es) = replay f es"

lemma replay_append: "replay f (xs @ ys) = do { g \<leftarrow> replay f xs; replay g ys }"
  by (induction f xs rule: replay.induct) (auto simp del: fun_upd_apply)

definition live :: "hpd \<Rightarrow> nat \<Rightarrow> nat option" where
  "live s c = (if c < 4 then map_option fst (h_objs s ! c) else None)"

definition plugged :: "nat \<Rightarrow> hpd \<Rightarrow> nat set" where
  "plugged n s = {c. c < n \<and> mi_status (h_minfo s ! c)}"

definition hpd_shape :: "nat \<Rightarrow> hpd \<Rightarrow> bool" where
  "hpd_shape n s \<longleftrightarrow> 0 < n \<and> n \<le> 4 \<and> length (h_minfo s) = 4 \<and> length (h_objs s) = 4 \<and>
     length (h_present s) = 4 \<and> length (h_monitors s) = n \<and> (\<forall>m \<in> set (h_monitors s). monitor_ok m) \<and>
     (\<forall>mi \<in> set (h_minfo s). length (mi_edid mi) = szEdidBlock)"

text \<open>A screen that is plugged in has a monitor object, made with the data the device gave for it.\<close>
definition screen_ok :: "hpd \<Rightarrow> nat \<Rightarrow> bool" where
  "screen_ok s c \<longleftrightarrow> (if mi_status (h_minfo s ! c)
     then \<exists>h. h_objs s ! c = Some (h, Some (mi_edid (h_minfo s ! c))) \<and>
       mi_edid (h_minfo s ! c) = pEdidBlock (h_monitors s ! c)
     else h_objs s ! c = None)"

definition hpd_tracked :: "nat \<Rightarrow> hpd \<Rightarrow> bool" where
  "hpd_tracked n s \<longleftrightarrow> hpd_shape n s \<and> (\<forall>c < n. screen_ok s c) \<and> (\<forall>c. n \<le> c \<and> c < 4 \<longrightarrow> h_objs s ! c = None) \<and>
     h_disp_count s = int (card (plugged n s)) \<and> \<not> h_d_edid s \<and> replay (\<lambda>_. None) (h_log s) = Some (live s)"

text \<open>What the device reports for a screen, the default data when it reports none.\<close>
definition reported_edid :: "hpd_round \<Rightarrow> nat \<Rightarrow> u8 list" where
  "reported_edid rd c = (case rd_edid rd c of
     Some d \<Rightarrow> if ei_mode_size d \<le> 32 then ei_edid_data d else sample_edid | None \<Rightarrow> sample_edid)"

text \<open>Answers of the sizes the structures have, about the screens there are, and no failure to
  create a monitor object.\<close>
definition answers_ok :: "hpd_round \<Rightarrow> bool" where
  "answers_ok rd \<longleftrightarrow> (\<forall>c d. rd_edid rd c = Some d \<longrightarrow>
     length (ei_edid_data d) = 256 \<and> length (ei_mode_list d) = 32 \<and> rates_fit d)"

definition round_ok :: "nat \<Rightarrow> hpd_round \<Rightarrow> bool" where
  "round_ok n rd \<longleftrightarrow>
     (\<forall>ps. rd_present rd = Some ps \<longrightarrow> length ps = 4 \<and> (\<forall>c. n \<le> c \<and> c < 4 \<longrightarrow> \<not> ps ! c)) \<and>
     answers_ok rd \<and> (\<forall>c < n. rd_create rd c \<noteq> None)"

lemma sample_monitor0_ok: "monitor_ok sample_monitor0" "pEdidBlock sample_monitor0 = sample_edid"
  by (simp_all add: monitor_ok_def sample_monitor0_def sample_edid_def szEdidBlock_def szModeList_def)

lemma kept_modes_length: "unat (ei_mode_size d) \<le> 32 \<Longrightarrow> length (kept_modes d) \<le> 32"
  using length_filter_le [of mode_kept "take (unat (ei_mode_size d)) (ei_mode_list d)"]
  by (simp add: kept_modes_def)

lemma fetch_ok:
  assumes "c < length (h_monitors s)" "monitor_ok (h_monitors s ! c)"
    and "\<And>d. ans = Some d \<Longrightarrow> length (ei_edid_data d) = 256 \<and> length (ei_mode_list d) = 32 \<and> rates_fit d"
  shows "\<exists>ok m. fetch_edid True ans d_edid c s = Some (ok, s\<lparr>h_monitors := (h_monitors s)[c := m]\<rparr>) \<and> monitor_ok m \<and>
    (d_edid \<longrightarrow> ok \<and> pEdidBlock m = sample_edid) \<and>
    (\<not> d_edid \<longrightarrow> ok = (\<exists>d. ans = Some d \<and> ei_mode_size d \<le> 32) \<and>
      (\<forall>d. ans = Some d \<and> ei_mode_size d \<le> 32 \<longrightarrow> pEdidBlock m = ei_edid_data d))"
proof (cases "\<not> d_edid \<and> (\<exists>d. ans = Some d \<and> ei_mode_size d \<le> 32)")
  case True
  then obtain d where d: "\<not> d_edid" "ans = Some d" "ei_mode_size d \<le> 32" by blast
  note a = assms(3) [OF d(2)]
  let ?m = "\<lparr>pEdidBlock = ei_edid_data d,
      pModeList = kept_modes d @ drop (length (kept_modes d)) (pModeList (h_monitors s ! c)), ulPreferredModeIdx = 0\<rparr>"
  have "umd_get_edid_data True ans d_edid (h_monitors s ! c) = Some (True, ?m)"
    using umd_get_edid_answer [OF assms(2) d(3)] a d(1,2) by simp
  moreover have "monitor_ok ?m"
    using a assms(2) kept_modes_length [of d] d(3)
    by (simp add: monitor_ok_def szEdidBlock_def szModeList_def word_le_nat_alt)
  moreover have "fetch_edid True ans d_edid c s = Some (True, s\<lparr>h_monitors := (h_monitors s)[c := ?m]\<rparr>)"
    using calculation(1) assms(1) by (simp add: fetch_edid_def)
  ultimately show ?thesis using d by (intro exI [of _ True] exI [of _ ?m]) auto
next
  case False
  let ?m = "if d_edid then sample_monitor0 else h_monitors s ! c"
  have "umd_get_edid_data True ans d_edid (h_monitors s ! c) = Some (d_edid, ?m)"
    using False by (auto simp: umd_get_edid_data_def MODE_LIST_MAX_SIZE_def not_less split: option.split)
  then have "fetch_edid True ans d_edid c s = Some (d_edid, s\<lparr>h_monitors := (h_monitors s)[c := ?m]\<rparr>)"
    using assms(1) by (simp add: fetch_edid_def)
  moreover have "monitor_ok ?m" "d_edid \<longrightarrow> pEdidBlock ?m = sample_edid"
    using assms(2) sample_monitor0_ok by simp_all
  ultimately show ?thesis using False by (intro exI [of _ d_edid] exI [of _ ?m]) auto
qed

lemma hpd_shapeD:
  assumes "hpd_shape n s" "c < n"
  shows "c < 4" "c < length (h_minfo s)" "c < length (h_objs s)" "c < length (h_present s)"
    "c < length (h_monitors s)" "monitor_ok (h_monitors s ! c)" "length (mi_edid (h_minfo s ! c)) = szEdidBlock"
  using assms by (auto simp: hpd_shape_def)

lemma fetch_or_default_ok:
  assumes "hpd_shape n s" "c < n" "\<not> h_d_edid s" "answers_ok rd"
  shows "\<exists>m. fetch_or_default True rd c s = Some (s\<lparr>h_monitors := (h_monitors s)[c := m]\<rparr>) \<and> monitor_ok m \<and>
    pEdidBlock m = reported_edid rd c"
proof -
  note D = hpd_shapeD [OF assms(1,2)]
  have a: "length (ei_edid_data d) = 256 \<and> length (ei_mode_list d) = 32 \<and> rates_fit d" if "rd_edid rd c = Some d" for d
    using assms(4) that by (simp add: answers_ok_def)
  from fetch_ok [where ans = "rd_edid rd c" and d_edid = False, OF D(5,6) a] obtain ok m where
    f: "fetch_edid True (rd_edid rd c) False c s = Some (ok, s\<lparr>h_monitors := (h_monitors s)[c := m]\<rparr>)" "monitor_ok m"
      "ok = (\<exists>d. rd_edid rd c = Some d \<and> ei_mode_size d \<le> 32)"
      "\<And>d. rd_edid rd c = Some d \<Longrightarrow> ei_mode_size d \<le> 32 \<Longrightarrow> pEdidBlock m = ei_edid_data d" by auto
  show ?thesis
  proof (cases ok)
    case True
    then obtain d where d: "rd_edid rd c = Some d" "ei_mode_size d \<le> 32" using f(3) by blast
    then have "reported_edid rd c = pEdidBlock m" using f(4) by (simp add: reported_edid_def)
    then show ?thesis using f True assms(3) by (auto simp: fetch_or_default_def)
  next
    case False
    let ?s1 = "s\<lparr>h_monitors := (h_monitors s)[c := m]\<rparr>"
    have l: "c < length (h_monitors ?s1)" "monitor_ok (h_monitors ?s1 ! c)" using D(5) f(2) by simp_all
    from fetch_ok [where ans = "rd_edid rd c" and d_edid = True, OF l a] obtain m2 where
      g: "fetch_edid True (rd_edid rd c) True c ?s1 = Some (True, ?s1\<lparr>h_monitors := (h_monitors ?s1)[c := m2]\<rparr>)"
        "monitor_ok m2" "pEdidBlock m2 = sample_edid" by auto
    have "reported_edid rd c = sample_edid" using False f(3) by (auto simp: reported_edid_def split: option.split)
    then show ?thesis using f(1) g False assms(3) by (auto simp: fetch_or_default_def)
  qed
qed

lemma hpd_trackedD:
  assumes "hpd_tracked n s"
  shows "hpd_shape n s" "\<And>c. c < n \<Longrightarrow> screen_ok s c" "\<And>c. n \<le> c \<Longrightarrow> c < 4 \<Longrightarrow> h_objs s ! c = None"
    "h_disp_count s = int (card (plugged n s))" "\<not> h_d_edid s" "replay (\<lambda>_. None) (h_log s) = Some (live s)"
  using assms by (auto simp: hpd_tracked_def)

lemma plugged_finite [simp]: "finite (plugged n s)"
  by (simp add: plugged_def)

lemma card_flip:
  assumes "finite S"
  shows "int (card (if b then insert c S else S - {c})) = int (card S) + of_bool b - of_bool (c \<in> S)"
proof (cases "c \<in> S")
  case True
  then have "0 < card S" using assms by (auto simp: card_gt_0_iff)
  then show ?thesis using True by (simp add: insert_absorb of_nat_diff)
qed (simp add: assms)

text \<open>A change of one screen that keeps it in order keeps the invariant.\<close>
lemma tracked_update:
  assumes t: "hpd_tracked n s" and c: "c < n" and m: "monitor_ok m" "length e = szEdidBlock"
    and ob: "if st then \<exists>h. ob = Some (h, Some e) \<and> e = pEdidBlock m else ob = None"
    and log: "replay (live s) es = Some ((live s)(c := map_option fst ob))"
    and s': "h_minfo s' = (h_minfo s)[c := \<lparr>mi_status = st, mi_edid = e\<rparr>]" "h_monitors s' = (h_monitors s)[c := m]"
      "h_objs s' = (h_objs s)[c := ob]" "h_log s' = h_log s @ es" "h_d_edid s' = h_d_edid s"
      "h_disp_count s' = h_disp_count s + of_bool st - of_bool (mi_status (h_minfo s ! c))"
      "h_present s' = h_present s"
  shows "hpd_tracked n s'"
proof -
  note T = hpd_trackedD [OF t] and D = hpd_shapeD [OF hpd_trackedD(1) [OF t] c]
  have "hpd_shape n s'"
    using T(1) m by (auto simp: hpd_shape_def s' dest!: subsetD [OF set_update_subset_insert])
  moreover have "screen_ok s' c'" if "c' < n" for c'
    using T(2) [OF that] ob D by (cases "c' = c") (auto simp: screen_ok_def s' nth_list_update)
  moreover have "h_objs s' ! c' = None" if "n \<le> c'" "c' < 4" for c'
    using T(3) [OF that] c that by (simp add: s')
  moreover have "plugged n s' = (if st then insert c (plugged n s) else plugged n s - {c})"
    using c D(2) by (auto simp: plugged_def s' nth_list_update)
  then have "int (card (plugged n s')) = int (card (plugged n s)) + of_bool st - of_bool (c \<in> plugged n s)"
    by (rule ssubst) (rule card_flip [OF plugged_finite])
  then have "h_disp_count s' = int (card (plugged n s'))"
    using T(4) c by (simp add: s' plugged_def)
  moreover have "live s' = (live s)(c := map_option fst ob)"
    using D(1,3) by (auto simp: live_def s' fun_eq_iff)
  then have "replay (\<lambda>_. None) (h_log s') = Some (live s')"
    using T(6) log by (simp add: s' replay_append del: fun_upd_apply)
  ultimately show ?thesis using T(5) by (simp add: hpd_tracked_def s')
qed

section \<open>A screen in a round\<close>

lemma set_minfo_eq:
  "c < length (h_minfo s) \<Longrightarrow> set_minfo c f s = Some (s\<lparr>h_minfo := (h_minfo s)[c := f (h_minfo s ! c)]\<rparr>)"
  by (simp add: set_minfo_def)

lemma copy_edid_eq:
  assumes "c < length (h_minfo s)" "c < length (h_monitors s)" "monitor_ok (h_monitors s ! c)"
    "length (mi_edid (h_minfo s ! c)) = szEdidBlock"
  shows "copy_edid c s = Some (s\<lparr>h_minfo := (h_minfo s)[c := (h_minfo s ! c)\<lparr>mi_edid := pEdidBlock (h_monitors s ! c)\<rparr>]\<rparr>)"
  using assms by (simp add: copy_edid_def copy_memory_def monitor_ok_def set_minfo_eq)

lemma departure_eq:
  "c < length (h_objs s) \<Longrightarrow> monitor_departure c s = Some (s\<lparr>h_objs := (h_objs s)[c := None],
     h_log := h_log s @ [Departed c (map_option fst (h_objs s ! c))]\<rparr>)"
  by (simp add: monitor_departure_def)

lemma finish_init_eq:
  "c < length (h_objs s) \<Longrightarrow> c < length (h_monitors s) \<Longrightarrow> create c = Some h \<Longrightarrow>
   finish_init create c s = Some (s\<lparr>h_objs := (h_objs s)[c := Some (h, Some (pEdidBlock (h_monitors s ! c)))],
     h_log := h_log s @ [Arrived c h]\<rparr>)"
  by (simp add: finish_init_def)

lemmas screen_ops = set_minfo_eq copy_edid_eq departure_eq finish_init_eq clear_edid_def

text \<open>What a turn of the loop leaves for the screen and the others.\<close>
definition screen_done :: "hpd_round \<Rightarrow> nat \<Rightarrow> hpd \<Rightarrow> hpd \<Rightarrow> bool" where
  "screen_done rd c s s' \<longleftrightarrow> h_present s' = h_present s \<and> h_shared s' = h_shared s \<and>
     mi_status (h_minfo s' ! c) = h_present s ! c \<and>
     (h_present s ! c \<longrightarrow> pEdidBlock (h_monitors s' ! c) = reported_edid rd c) \<and>
     (\<forall>c'. c' \<noteq> c \<longrightarrow> h_minfo s' ! c' = h_minfo s ! c' \<and> h_monitors s' ! c' = h_monitors s ! c') \<and>
     (h_do_set s \<longrightarrow> h_do_set s') \<and> (mi_status (h_minfo s ! c) \<noteq> h_present s ! c \<longrightarrow> h_do_set s') \<and>
     (h_do_set s' \<longrightarrow> h_do_set s \<or> mi_status (h_minfo s ! c) \<or> h_present s ! c)"

lemma live_status:
  assumes "hpd_tracked n s" "c < n"
  shows "(live s c = None) = (\<not> mi_status (h_minfo s ! c))" "live s c = map_option fst (h_objs s ! c)"
  using hpd_trackedD(2) [OF assms] hpd_shapeD(1) [OF hpd_trackedD(1) [OF assms(1)] assms(2)]
  by (auto simp: live_def screen_ok_def split: if_splits)

lemma hpd_screen_ok:
  assumes t: "hpd_tracked n s" and c: "c < n" and rd: "round_ok n rd"
  shows "\<exists>s'. hpd_screen True rd c s = Some s' \<and> hpd_tracked n s' \<and> screen_done rd c s s'"
proof -
  note T = hpd_trackedD [OF t] and D = hpd_shapeD [OF hpd_trackedD(1) [OF t] c]
  note L = live_status [OF t c]
  obtain h where h: "rd_create rd c = Some h" using rd c by (auto simp: round_ok_def)
  have an: "answers_ok rd" using rd by (simp add: round_ok_def)
  obtain st e where mi: "h_minfo s ! c = \<lparr>mi_status = st, mi_edid = e\<rparr>" by (metis monitor_info.cases)
  define s1 where "s1 = s\<lparr>h_minfo := (h_minfo s)[c := \<lparr>mi_status = h_present s ! c, mi_edid = e\<rparr>]\<rparr>"
  have sh1: "hpd_shape n s1" using T(1) D mi
    by (auto simp: hpd_shape_def s1_def dest!: subsetD [OF set_update_subset_insert])
  show ?thesis
  proof (cases "st = h_present s ! c")
    case same: True
    show ?thesis
    proof (cases "h_present s ! c")
      case False
      then have "hpd_screen True rd c s = Some s" using same D mi by (simp add: hpd_screen_def)
      then show ?thesis using t False same mi by (simp add: screen_done_def)
    next
      case True
      obtain m where m: "fetch_or_default True rd c s = Some (s\<lparr>h_monitors := (h_monitors s)[c := m]\<rparr>)"
          "monitor_ok m" "pEdidBlock m = reported_edid rd c"
        using fetch_or_default_ok [OF T(1) c T(5) an] by blast
      obtain h0 where ob: "h_objs s ! c = Some (h0, Some e)"
        using T(2) [OF c] True same mi by (auto simp: screen_ok_def)
      have ml: "length (pEdidBlock m) = szEdidBlock" using m(2) by (simp add: monitor_ok_def)
      show ?thesis
      proof (cases "e = pEdidBlock m")
        case eq: True
        let ?s' = "s\<lparr>h_monitors := (h_monitors s)[c := m]\<rparr>"
        have ids: "h_minfo s = (h_minfo s)[c := \<lparr>mi_status = True, mi_edid = pEdidBlock m\<rparr>]"
          "h_objs s = (h_objs s)[c := Some (h0, Some (pEdidBlock m))]" "live s = (live s)(c := Some h0)"
          subgoal using list_update_id [of "h_minfo s" c] mi same True eq by simp
          subgoal using list_update_id [of "h_objs s" c] ob eq by simp
          subgoal using fun_upd_triv [of "live s" c] L(2) ob by (simp del: fun_upd_triv)
          done
        have "hpd_screen True rd c s = Some ?s'"
          using same True D mi m eq ml by (simp add: hpd_screen_def same_block_def)
        moreover have "hpd_tracked n ?s'"
          by (rule tracked_update [OF t c m(2) ml, of True "Some (h0, Some (pEdidBlock m))" "[]"])
            (use ob eq mi same True ids in simp_all)
        ultimately show ?thesis using same True mi m D by (simp add: screen_done_def)
      next
        case ne: False
        let ?s' = "s\<lparr>h_minfo := (h_minfo s)[c := \<lparr>mi_status = True, mi_edid = pEdidBlock m\<rparr>],
          h_monitors := (h_monitors s)[c := m], h_objs := (h_objs s)[c := Some (h, Some (pEdidBlock m))],
          h_do_set := True, h_log := h_log s @ [Departed c (Some h0), Arrived c h]\<rparr>"
        have "hpd_screen True rd c s = Some ?s'"
          using same True D mi m ne ml h ob by (simp add: hpd_screen_def same_block_def screen_ops)
        moreover have "hpd_tracked n ?s'"
          by (rule tracked_update [OF t c m(2) ml, of True "Some (h, Some (pEdidBlock m))"
                "[Departed c (Some h0), Arrived c h]"]) (use ob mi same True L in simp_all)
        ultimately show ?thesis using same True mi m D by (simp add: screen_done_def)
      qed
    qed
  next
    case diff: False
    show ?thesis
    proof (cases "h_present s ! c")
      case False
      then have st: "st" using diff by simp
      obtain h0 where ob: "h_objs s ! c = Some (h0, Some e)"
        using T(2) [OF c] st mi by (auto simp: screen_ok_def)
      let ?s' = "s\<lparr>h_minfo := (h_minfo s)[c := \<lparr>mi_status = False, mi_edid = replicate szEdidBlock 0\<rparr>],
        h_objs := (h_objs s)[c := None], h_disp_count := h_disp_count s - 1, h_do_set := True,
        h_log := h_log s @ [Departed c (Some h0)]\<rparr>"
      have "hpd_screen True rd c s = Some ?s'"
        using diff False D mi ob by (simp add: hpd_screen_def screen_ops)
      moreover have "hpd_tracked n ?s'"
        by (rule tracked_update [OF t c D(6), of "replicate szEdidBlock 0" False None "[Departed c (Some h0)]"])
          (use ob mi st L in simp_all)
      ultimately show ?thesis using False mi st D by (simp add: screen_done_def)
    next
      case True
      then have st: "\<not> st" using diff by simp
      obtain m where m: "fetch_or_default True rd c s1 = Some (s1\<lparr>h_monitors := (h_monitors s1)[c := m]\<rparr>)"
          "monitor_ok m" "pEdidBlock m = reported_edid rd c"
        using fetch_or_default_ok [OF sh1 c _ an] T(5) by (auto simp: s1_def)
      have ml: "length (pEdidBlock m) = szEdidBlock" using m(2) by (simp add: monitor_ok_def)
      have fs: "fetch_or_default True rd c (s\<lparr>h_minfo := (h_minfo s)[c := \<lparr>mi_status = True, mi_edid = e\<rparr>]\<rparr>) =
          Some (s\<lparr>h_minfo := (h_minfo s)[c := \<lparr>mi_status = True, mi_edid = e\<rparr>], h_monitors := (h_monitors s)[c := m]\<rparr>)"
        using m(1) True by (simp add: s1_def)
      let ?s' = "s\<lparr>h_minfo := (h_minfo s)[c := \<lparr>mi_status = True, mi_edid = pEdidBlock m\<rparr>],
        h_monitors := (h_monitors s)[c := m], h_objs := (h_objs s)[c := Some (h, Some (pEdidBlock m))],
        h_disp_count := h_disp_count s + 1, h_do_set := True, h_log := h_log s @ [Arrived c h]\<rparr>"
      have "hpd_screen True rd c s = Some ?s'"
        using diff True D mi m ml h fs by (simp add: hpd_screen_def screen_ops)
      moreover have "hpd_tracked n ?s'"
        by (rule tracked_update [OF t c m(2) ml, of True "Some (h, Some (pEdidBlock m))" "[Arrived c h]"])
          (use mi st L in simp_all)
      ultimately show ?thesis using True mi m D by (simp add: screen_done_def)
    qed
  qed
qed

section \<open>A round\<close>

definition screens_done :: "nat \<Rightarrow> hpd_round \<Rightarrow> hpd \<Rightarrow> nat \<Rightarrow> hpd \<Rightarrow> bool" where
  "screens_done n rd s c s' \<longleftrightarrow> hpd_tracked n s' \<and> h_present s' = h_present s \<and> h_shared s' = h_shared s \<and>
     (\<forall>k < c. mi_status (h_minfo s' ! k) = h_present s ! k \<and>
        (h_present s ! k \<longrightarrow> pEdidBlock (h_monitors s' ! k) = reported_edid rd k)) \<and>
     (\<forall>k \<ge> c. h_minfo s' ! k = h_minfo s ! k) \<and>
     ((\<exists>k < c. mi_status (h_minfo s ! k) \<noteq> h_present s ! k) \<longrightarrow> h_do_set s') \<and>
     (h_do_set s' \<longrightarrow> h_do_set s \<or> (\<exists>k < c. mi_status (h_minfo s ! k) \<or> h_present s ! k))"

lemma screens_ok:
  assumes t: "hpd_tracked n s" and rd: "round_ok n rd"
  shows "\<exists>s'. for_loop 0 n 1 (hpd_screen True rd) s = Some s' \<and> screens_done n rd s n s'"
proof (rule for_loop_inv [where I = "screens_done n rd s"])
  show "screens_done n rd s 0 s" using t by (simp add: screens_done_def)
next
  fix c s1
  assume c: "c < n" and I: "screens_done n rd s c s1"
  then have t1: "hpd_tracked n s1" by (simp add: screens_done_def)
  from hpd_screen_ok [OF t1 c rd] obtain s2 where
    s2: "hpd_screen True rd c s1 = Some s2" "hpd_tracked n s2" "screen_done rd c s1 s2" by blast
  have "screens_done n rd s (Suc c) s2"
    using I s2(2,3) unfolding screens_done_def screen_done_def
    by (auto simp: less_Suc_eq)
  then show "\<exists>s'. hpd_screen True rd c s1 = Some s' \<and> screens_done n rd s (Suc c) s'" using s2(1) by blast
qed simp

lemma get_hpd_data_eq:
  assumes "length data = 4"
  shows "rd_present rd = None \<Longrightarrow> get_hpd_data rd data = (False, data)"
    "rd_present rd = Some ps \<Longrightarrow> length ps = 4 \<Longrightarrow> get_hpd_data rd data = (True, ps)"
  using assms by (auto simp: get_hpd_data_def intro!: nth_equalityI)

text \<open>Before the first event: the primary monitor is there, and no screen has been looked at.\<close>
definition hpd_fresh :: "nat \<Rightarrow> hpd \<Rightarrow> bool" where
  "hpd_fresh n s \<longleftrightarrow> hpd_shape n s \<and> h_d_edid s \<and> (\<forall>c < 4. \<not> mi_status (h_minfo s ! c)) \<and> h_disp_count s = 0 \<and>
     h_objs s ! 0 \<noteq> None \<and> (\<forall>c. 0 < c \<and> c < 4 \<longrightarrow> h_objs s ! c = None) \<and>
     replay (\<lambda>_. None) (h_log s) = Some (live s)"

lemma fresh_plugged: "hpd_fresh n s \<Longrightarrow> plugged n s = {}"
  by (auto simp: hpd_fresh_def plugged_def hpd_shape_def)

lemma first_departure:
  assumes "hpd_fresh n s"
  shows "\<exists>s'. monitor_departure 0 s = Some s' \<and> hpd_tracked n (s'\<lparr>h_d_edid := False\<rparr>) \<and>
    h_minfo s' = h_minfo s \<and> h_monitors s' = h_monitors s \<and> h_present s' = h_present s \<and>
    h_shared s' = h_shared s \<and> h_do_set s' = h_do_set s"
proof -
  let ?s' = "s\<lparr>h_objs := (h_objs s)[0 := None], h_log := h_log s @ [Departed 0 (map_option fst (h_objs s ! 0))]\<rparr>"
  have sh: "hpd_shape n s" "0 < n" "n \<le> 4" "length (h_objs s) = 4" using assms by (auto simp: hpd_fresh_def hpd_shape_def)
  have l: "live (?s'\<lparr>h_d_edid := False\<rparr>) = (live s)(0 := None)" "live s 0 = map_option fst (h_objs s ! 0)"
    using sh by (auto simp: live_def fun_eq_iff)
  have "hpd_shape n (?s'\<lparr>h_d_edid := False\<rparr>)" using sh by (simp add: hpd_shape_def)
  moreover have "plugged n (?s'\<lparr>h_d_edid := False\<rparr>) = {}" using fresh_plugged [OF assms] by (simp add: plugged_def)
  ultimately have "hpd_tracked n (?s'\<lparr>h_d_edid := False\<rparr>)"
    using assms sh l by (auto simp: hpd_tracked_def hpd_fresh_def screen_ok_def replay_append nth_list_update
        simp del: fun_upd_apply)
  then show ?thesis using sh departure_eq [of 0 s] by simp
qed

lemma tracked_cong:
  assumes "hpd_tracked n s" "h_minfo s' = h_minfo s" "h_monitors s' = h_monitors s" "h_objs s' = h_objs s"
    "h_disp_count s' = h_disp_count s" "h_d_edid s' = h_d_edid s" "length (h_present s') = 4"
    "replay (\<lambda>_. None) (h_log s') = replay (\<lambda>_. None) (h_log s)"
  shows "hpd_tracked n s'"
proof -
  have "screen_ok s' = screen_ok s" "plugged n s' = plugged n s" "live s' = live s"
    using assms by (auto simp: screen_ok_def plugged_def live_def fun_eq_iff)
  then show ?thesis using assms by (simp add: hpd_tracked_def hpd_shape_def)
qed

lemma tracked_present: "hpd_tracked n s \<Longrightarrow> length ps = 4 \<Longrightarrow> hpd_tracked n (s\<lparr>h_present := ps\<rparr>)"
  by (erule tracked_cong) simp_all

lemma tracked_publish: "hpd_tracked n s \<Longrightarrow> hpd_tracked n (publish k s)"
  using tracked_cong [of n s "publish k s"] hpd_trackedD(1,6) [of n s]
  by (simp add: publish_def replay_append hpd_shape_def)

lemma tracked_do_set: "hpd_tracked n s \<Longrightarrow> hpd_tracked n (s\<lparr>h_do_set := b\<rparr>)"
  using tracked_cong [of n s "s\<lparr>h_do_set := b\<rparr>"] hpd_trackedD(1) [of n s] by (simp add: hpd_shape_def)

definition round_done :: "nat \<Rightarrow> hpd_round \<Rightarrow> hpd \<Rightarrow> hpd \<Rightarrow> bool" where
  "round_done n rd s s' \<longleftrightarrow> hpd_tracked n s' \<and> \<not> h_do_set s' \<and>
     (case rd_present rd of
        None \<Rightarrow> plugged n s' = plugged n s \<and> h_shared s' = h_shared s
      | Some ps \<Rightarrow> h_present s' = ps \<and> plugged n s' = {c. c < n \<and> ps ! c} \<and>
          (\<forall>c < n. ps ! c \<longrightarrow> pEdidBlock (h_monitors s' ! c) = reported_edid rd c) \<and>
          (plugged n s = {} \<and> plugged n s' = {} \<longrightarrow> h_shared s' = h_shared s) \<and>
          (h_shared s' = h_disp_count s' \<or> h_shared s' = h_shared s \<and> plugged n s' = plugged n s))"

lemma hotplug_ok:
  assumes s: "hpd_tracked n s \<or> hpd_fresh n s" and set: "\<not> h_do_set s" and rd: "round_ok n rd"
  shows "\<exists>s'. hpd_hotplug True rd s = Some s' \<and> round_done n rd s s'"
proof -
  obtain s1 where s1: "(if h_d_edid s then do { s1 \<leftarrow> monitor_departure 0 s; Some (s1\<lparr>h_d_edid := False\<rparr>) } else Some s) = Some s1"
      "hpd_tracked n s1" "h_minfo s1 = h_minfo s" "h_monitors s1 = h_monitors s"
      "h_present s1 = h_present s" "h_shared s1 = h_shared s" "\<not> h_do_set s1"
  proof (cases "h_d_edid s")
    case True
    then have "hpd_fresh n s" using s hpd_trackedD(5) by blast
    from first_departure [OF this] set True show ?thesis by (auto intro!: that)
  next
    case False
    then have "hpd_tracked n s" using s by (auto simp: hpd_fresh_def)
    with False set show ?thesis by (intro that) auto
  qed
  have pl: "plugged n s1 = plugged n s" using s1(3) by (simp add: plugged_def)
  have l4: "length (h_present s1) = 4" "length (h_monitors s1) = n"
    using hpd_trackedD(1) [OF s1(2)] by (auto simp: hpd_shape_def)
  let ?s2 = "s1\<lparr>h_present := (h_present s1)[3 := False]\<rparr>"
  have t2: "hpd_tracked n ?s2" using tracked_present [OF s1(2)] l4(1) by simp
  show ?thesis
  proof (cases "rd_present rd")
    case None
    then have "hpd_hotplug True rd s = Some ?s2" using s1(1) l4 by (simp add: hpd_hotplug_def get_hpd_data_eq)
    then show ?thesis using None t2 s1(6,7) pl by (simp add: round_done_def plugged_def)
  next
    case (Some ps)
    then have ps: "length ps = 4" using rd by (simp add: round_ok_def)
    have t3: "hpd_tracked n (?s2\<lparr>h_present := ps\<rparr>)" by (rule tracked_present [OF t2 ps])
    from screens_ok [OF t3 rd] obtain s3 where s3: "for_loop 0 n 1 (hpd_screen True rd) (?s2\<lparr>h_present := ps\<rparr>) = Some s3"
      "screens_done n rd (?s2\<lparr>h_present := ps\<rparr>) n s3" by blast
    then have d: "hpd_tracked n s3" "h_present s3 = ps" "h_shared s3 = h_shared s"
      "\<And>k. k < n \<Longrightarrow> mi_status (h_minfo s3 ! k) = ps ! k \<and> (ps ! k \<longrightarrow> pEdidBlock (h_monitors s3 ! k) = reported_edid rd k)"
      "(\<exists>k < n. mi_status (h_minfo s ! k) \<noteq> ps ! k) \<Longrightarrow> h_do_set s3"
      "h_do_set s3 \<Longrightarrow> \<exists>k < n. mi_status (h_minfo s ! k) \<or> ps ! k"
      using s1(3,6,7) by (auto simp: screens_done_def)
    let ?s4 = "(if h_do_set s3 then publish (h_disp_count s3) s3 else s3)\<lparr>h_do_set := False\<rparr>"
    have "hpd_hotplug True rd s = Some ?s4" using s1(1) s3(1) l4 ps Some by (simp add: hpd_hotplug_def get_hpd_data_eq Let_def)
    moreover have "plugged n s3 = {c. c < n \<and> ps ! c}" using d(4) by (auto simp: plugged_def)
    moreover have "plugged n s = {c. c < n \<and> ps ! c}" if "\<not> h_do_set s3"
      using d(5) that by (auto simp: plugged_def)
    moreover have "\<not> h_do_set s3" if "plugged n s = {}" "{c. c < n \<and> ps ! c} = {}"
      using d(6) that by (auto simp: plugged_def)
    moreover have "plugged n ?s4 = plugged n s3" "h_monitors ?s4 = h_monitors s3" "h_present ?s4 = ps"
      "h_disp_count ?s4 = h_disp_count s3" "\<not> h_do_set ?s4"
      "h_shared ?s4 = (if h_do_set s3 then h_disp_count s3 else h_shared s)"
      using d(2,3) by (simp_all add: plugged_def publish_def)
    moreover have "hpd_tracked n ?s4" using d(1) by (auto intro!: tracked_do_set tracked_publish)
    ultimately show ?thesis using d(4) Some by (auto simp: round_done_def)
  qed
qed

section \<open>The life of the thread\<close>

text \<open>Whether a screen has been present in an answered round.\<close>
definition ever_present :: "nat \<Rightarrow> hpd_round list \<Rightarrow> bool" where
  "ever_present n rds \<longleftrightarrow> (\<exists>rd \<in> set rds. case rd_present rd of None \<Rightarrow> False | Some ps \<Rightarrow> \<exists>c < n. ps ! c)"

definition counted :: "nat \<Rightarrow> bool \<Rightarrow> hpd \<Rightarrow> bool" where
  "counted n ever s \<longleftrightarrow> h_shared s = (if ever then int (card (plugged n s)) else 1) \<and>
     (\<not> ever \<longrightarrow> plugged n s = {})"

lemma round_counted:
  assumes "counted n ever s" "round_done n rd s s'"
  shows "counted n (ever \<or> ever_present n [rd]) s'"
proof (cases "rd_present rd")
  case None
  then show ?thesis using assms by (simp add: counted_def round_done_def ever_present_def)
next
  case (Some ps)
  then have r: "plugged n s' = {c. c < n \<and> ps ! c}" "h_disp_count s' = int (card (plugged n s'))"
    "plugged n s = {} \<and> plugged n s' = {} \<longrightarrow> h_shared s' = h_shared s"
    "h_shared s' = h_disp_count s' \<or> h_shared s' = h_shared s \<and> plugged n s' = plugged n s"
    using assms(2) hpd_trackedD(4) by (auto simp: round_done_def)
  have "ever_present n [rd] = (plugged n s' \<noteq> {})" using Some r(1) by (auto simp: ever_present_def)
  then show ?thesis using r(2-4) assms(1) by (auto simp: counted_def)
qed

lemma rounds_ok:
  assumes "hpd_tracked n s \<or> hpd_fresh n s" "\<not> h_do_set s" "\<forall>rd \<in> set rds. round_ok n rd" "counted n ever s" "rds \<noteq> []"
  shows "\<exists>s0 s'. hpd_rounds True rds s = Some s' \<and> round_done n (last rds) s0 s' \<and>
    counted n (ever \<or> ever_present n rds) s'"
  using assms
proof (induction rds arbitrary: s ever)
  case (Cons rd rds)
  from hotplug_ok [OF Cons.prems(1,2)] Cons.prems(3) obtain s1 where
    s1: "hpd_hotplug True rd s = Some s1" "round_done n rd s s1" by auto
  note c1 = round_counted [OF Cons.prems(4) s1(2)]
  have t1: "hpd_tracked n s1" "\<not> h_do_set s1" using s1(2) by (auto simp: round_done_def)
  show ?case
  proof (cases "rds = []")
    case True
    then show ?thesis using s1 c1 by auto
  next
    case False
    have e: "ever_present n (rd # rds) = (ever_present n [rd] \<or> ever_present n rds)"
      by (simp add: ever_present_def)
    from Cons.IH [OF disjI1 [OF t1(1)] t1(2) _ c1 False] Cons.prems(3) obtain s0 s' where
      "hpd_rounds True rds s1 = Some s'" "round_done n (last rds) s0 s'"
      "counted n ((ever \<or> ever_present n [rd]) \<or> ever_present n rds) s'" by auto
    then show ?thesis using s1(1) False unfolding e by (auto simp: disj_assoc)
  qed
qed simp

lemma hpd_begin_ok:
  assumes "0 < n" "n \<le> 4" "create 0 = Some h"
    and "\<And>d. ans = Some d \<Longrightarrow> length (ei_edid_data d) = 256 \<and> length (ei_mode_list d) = 32 \<and> rates_fit d"
  shows "\<exists>s. hpd_begin True win11 ans create (hpd_new (replicate n blank_monitor) (replicate 4 None) []) = Some s \<and>
    hpd_fresh n s \<and> \<not> h_do_set s \<and> counted n False s"
proof -
  let ?s = "hpd_new (replicate n blank_monitor) (replicate 4 None) []"
  have b: "monitor_ok blank_monitor" by (simp add: blank_monitor_def monitor_ok_def)
  have "0 < length (h_monitors ?s)" "monitor_ok (h_monitors ?s ! 0)" using assms(1) b by (simp_all add: hpd_new_def)
  from fetch_ok [where d_edid = "if win11 then False else True", OF this assms(4)] obtain ok m where
    f: "fetch_edid True ans (if win11 then False else True) 0 ?s = Some (ok, ?s\<lparr>h_monitors := (h_monitors ?s)[0 := m]\<rparr>)" "monitor_ok m"
    by blast
  let ?s1 = "?s\<lparr>h_monitors := (h_monitors ?s)[0 := m], h_objs := (h_objs ?s)[0 := Some (h, Some (pEdidBlock m))],
    h_log := [Arrived 0 h]\<rparr>"
  have "hpd_begin True win11 ans create ?s = Some (publish 1 ?s1)"
    using f assms(1,3) by (cases win11) (simp_all add: hpd_begin_def hpd_new_def finish_init_eq)
  moreover have "hpd_shape n (publish 1 ?s1)"
    using assms(1,2) f(2) b by (auto simp: hpd_shape_def hpd_new_def publish_def dest!: subsetD [OF set_update_subset_insert])
  then have "hpd_fresh n (publish 1 ?s1)"
    by (auto simp: hpd_fresh_def hpd_new_def publish_def live_def fun_eq_iff)
  moreover have "counted n False (publish 1 ?s1)" "\<not> h_do_set (publish 1 ?s1)"
    using fresh_plugged [OF calculation(2)] by (simp_all add: counted_def publish_def hpd_new_def)
  ultimately show ?thesis by blast
qed

text \<open>When the screens the thread remembers as present are those that have a monitor object, its end
  departs them all.\<close>
lemma hpd_end_ok:
  assumes "length (h_minfo s) = 4" "length (h_objs s) = 4" "length (h_present s) = 4"
    and "\<forall>c < 4. h_present s ! c = (h_objs s ! c \<noteq> None)" "replay (\<lambda>_. None) (h_log s) = Some (live s)"
  shows "\<exists>s'. hpd_end s = Some s' \<and> h_objs s' = replicate 4 None \<and> replay (\<lambda>_. None) (h_log s') = Some (\<lambda>_. None)"
proof -
  let ?I = "\<lambda>c s'. length (h_minfo s') = 4 \<and> length (h_objs s') = 4 \<and> h_present s' = h_present s \<and>
    (\<forall>k < 4. h_objs s' ! k = (if k < c then None else h_objs s ! k)) \<and> replay (\<lambda>_. None) (h_log s') = Some (live s')"
  have "\<exists>s'. hpd_end s = Some s' \<and> ?I 4 s'"
    unfolding hpd_end_def
  proof (rule for_loop_inv [where I = ?I])
    fix c s1
    assume c: "c < 4" and I: "?I c s1"
    let ?f = "\<lambda>c s. do { p \<leftarrow> nth_opt (h_present s) c;
      if p then do { s1 \<leftarrow> set_minfo c (\<lambda>mi. mi\<lparr>mi_status := False\<rparr>) s; monitor_departure c s1 } else Some s }"
    show "\<exists>s'. ?f c s1 = Some s' \<and> ?I (Suc c) s'"
    proof (cases "h_present s ! c")
      case False
      then have "?f c s1 = Some s1" using I c assms(3) by simp
      moreover have "h_objs s ! c = None" using assms(4) c False by metis
      ultimately show ?thesis using I by (auto simp: less_Suc_eq)
    next
      case True
      let ?ms = "(h_minfo s1)[c := (h_minfo s1 ! c)\<lparr>mi_status := False\<rparr>]"
      let ?s' = "s1\<lparr>h_minfo := ?ms, h_objs := (h_objs s1)[c := None],
        h_log := h_log s1 @ [Departed c (map_option fst (h_objs s1 ! c))]\<rparr>"
      have "?f c s1 = Some ?s'" using True I c assms(3) by (simp add: set_minfo_eq departure_eq)
      moreover have "live ?s' = (live s1)(c := None)" "live s1 c = map_option fst (h_objs s1 ! c)"
        using c I by (auto simp: live_def fun_eq_iff)
      then have "replay (\<lambda>_. None) (h_log ?s') = Some (live ?s')"
        using I c True assms(4) by (auto simp: replay_append simp del: fun_upd_apply)
      ultimately show ?thesis using I c by (auto simp: nth_list_update less_Suc_eq)
    qed
  qed (use assms in auto)
  then obtain s' where s': "hpd_end s = Some s'" "?I 4 s'" by blast
  then have "h_objs s' = replicate 4 None" by (auto intro!: nth_equalityI)
  moreover have "live s' = (\<lambda>_. None)" using s'(2) by (auto simp: live_def fun_eq_iff)
  ultimately show ?thesis using s' by auto
qed

section \<open>Correctness\<close>

definition hpd_boot :: "nat \<Rightarrow> hpd" where
  "hpd_boot n = hpd_new (replicate n blank_monitor) (replicate 4 None) []"

definition answer_ok :: "edid_info option \<Rightarrow> bool" where
  "answer_ok ans \<longleftrightarrow> (\<forall>d. ans = Some d \<longrightarrow>
     length (ei_edid_data d) = 256 \<and> length (ei_mode_list d) = 32 \<and> rates_fit d)"


definition demo_round :: "bool \<Rightarrow> nat option \<Rightarrow> hpd_round" where
  "demo_round p h = \<lparr>rd_present = Some [p, False, False, False], rd_edid = \<lambda>_. None, rd_create = \<lambda>_. h\<rparr>"

lemma demo_round_ok: "round_ok 1 (demo_round p (Some h))"
proof -
  have "c = 0 \<or> c = 1 \<or> c = 2 \<or> c = 3" if "c < 4" for c :: nat using that by linarith
  then show ?thesis by (fastforce simp: demo_round_def round_ok_def answers_ok_def)
qed


lemma for_loop_one: "for_loop 0 (Suc 0) (Suc 0) f x = f 0 x"
proof -
  have "for_loop (Suc 0) (Suc 0) (Suc 0) f = Some" by (rule ext) (simp add: for_loop.simps [of "Suc 0" "Suc 0"])
  then show ?thesis by (simp add: for_loop.simps [of 0 "Suc 0"])
qed

text \<open>C29: (hot plug, an object that cannot be created) With one screen and no monitor at it: when the
  screen appears and its monitor object cannot be created, the failure is not noticed, and when the
  screen goes away the thread creates a monitor for the absent screen and counts it a second time:
  two displays are published while none is present.\<close>
theorem absent_screen_gets_monitor:
  assumes "hpd_tracked 1 s" "\<not> h_do_set s" "\<not> mi_status (h_minfo s ! 0)" "answers_ok r1" "answers_ok r2"
    and "rd_present r1 = Some ps1" "length ps1 = 4" "ps1 ! 0" "rd_create r1 0 = None"
    and "rd_present r2 = Some ps2" "length ps2 = 4" "\<not> ps2 ! 0" "rd_create r2 0 = Some h"
  shows "\<exists>s'. hpd_rounds True [r1, r2] s = Some s' \<and> h_objs s' ! 0 = Some (h, Some (reported_edid r2 0)) \<and>
    h_disp_count s' = 2 \<and> h_shared s' = 2"
proof -
  note T = hpd_trackedD [OF assms(1)] and D = hpd_shapeD [OF hpd_trackedD(1) [OF assms(1)], of 0]
  have "plugged 1 s = {}" using assms(3) by (auto simp: plugged_def)
  then have z: "h_disp_count s = 0" using T(4) by simp
  have l: "length (h_monitors s) = 1" "length (h_present s) = 4" "h_objs s ! 0 = None"
    using T(1,2) assms(3) by (auto simp: hpd_shape_def screen_ok_def)
  obtain e where mi: "h_minfo s ! 0 = \<lparr>mi_status = False, mi_edid = e\<rparr>" using assms(3) by (metis monitor_info.cases monitor_info.select_convs(1))
  note loop = for_loop_one
  have screen: "\<exists>m. hpd_screen True r 0 x = Some (x\<lparr>h_minfo := (h_minfo x)[0 := \<lparr>mi_status = q, mi_edid = pEdidBlock m\<rparr>],
      h_monitors := (h_monitors x)[0 := m],
      h_objs := (case rd_create r 0 of None \<Rightarrow> h_objs x | Some h \<Rightarrow> (h_objs x)[0 := Some (h, Some (pEdidBlock m))]),
      h_disp_count := h_disp_count x + 1, h_do_set := True,
      h_log := h_log x @ (case rd_create r 0 of None \<Rightarrow> [] | Some h \<Rightarrow> [Arrived 0 h])\<rparr>) \<and>
      monitor_ok m \<and> pEdidBlock m = reported_edid r 0"
    if x: "hpd_shape 1 x" "\<not> h_d_edid x" "answers_ok r" "h_present x ! 0 = q"
      "h_minfo x ! 0 = \<lparr>mi_status = \<not> q, mi_edid = f\<rparr>" "h_objs x ! 0 = None" for x q r f
  proof -
    note X = hpd_shapeD [OF x(1), of 0]
    let ?x1 = "x\<lparr>h_minfo := (h_minfo x)[0 := \<lparr>mi_status = q, mi_edid = f\<rparr>]\<rparr>"
    have sh: "hpd_shape 1 ?x1"
      using x(1,5) X by (auto simp: hpd_shape_def dest!: subsetD [OF set_update_subset_insert])
    from fetch_or_default_ok [OF sh _ _ x(3), of 0] x(2) obtain m where
      m: "fetch_or_default True r 0 ?x1 = Some (?x1\<lparr>h_monitors := (h_monitors x)[0 := m]\<rparr>)" "monitor_ok m"
        "pEdidBlock m = reported_edid r 0" by auto
    then show ?thesis using x X
      by (intro exI [of _ m]) (cases x; cases "rd_create r 0";
        simp add: hpd_screen_def screen_ops finish_init_def monitor_ok_def)
  qed
  let ?x1 = "s\<lparr>h_present := ps1\<rparr>"
  have sx: "hpd_shape 1 ?x1" using T(1) assms(7) by (simp add: hpd_shape_def)
  from screen [OF sx _ assms(4), of True e] T(5) assms(8,9) mi l(3) obtain m1 where
    m1: "hpd_screen True r1 0 ?x1 = Some (?x1\<lparr>h_minfo := (h_minfo s)[0 := \<lparr>mi_status = True, mi_edid = pEdidBlock m1\<rparr>],
        h_monitors := (h_monitors s)[0 := m1], h_disp_count := 1, h_do_set := True\<rparr>)" "monitor_ok m1"
    using z by auto
  define s1 where "s1 = publish 1 (?x1\<lparr>h_minfo := (h_minfo s)[0 := \<lparr>mi_status = True, mi_edid = pEdidBlock m1\<rparr>],
        h_monitors := (h_monitors s)[0 := m1], h_disp_count := 1\<rparr>)\<lparr>h_do_set := False\<rparr>"
  have h1: "hpd_hotplug True r1 s = Some s1"
    using T(5) l assms(6,7) m1(1) by (simp add: hpd_hotplug_def get_hpd_data_eq loop s1_def publish_def Let_def)
  let ?x2 = "s1\<lparr>h_present := ps2\<rparr>"
  have sx2: "hpd_shape 1 ?x2"
    using sx m1(2) assms(11) D by (auto simp: hpd_shape_def s1_def publish_def monitor_ok_def dest!: subsetD [OF set_update_subset_insert])
  from screen [OF sx2 _ assms(5), of False "pEdidBlock m1"] T(5) assms(12,13) l(3) D obtain m2 where
    m2: "hpd_screen True r2 0 ?x2 = Some (?x2\<lparr>h_minfo := (h_minfo s1)[0 := \<lparr>mi_status = False, mi_edid = pEdidBlock m2\<rparr>],
        h_monitors := (h_monitors s1)[0 := m2], h_objs := (h_objs s1)[0 := Some (h, Some (pEdidBlock m2))],
        h_disp_count := 2, h_do_set := True, h_log := h_log s1 @ [Arrived 0 h]\<rparr>)" "pEdidBlock m2 = reported_edid r2 0"
    by (auto simp: s1_def publish_def)
  have "length (h_present s1) = 4" "length (h_monitors s1) = 1" "\<not> h_d_edid s1" "length (h_objs s1) = 4"
    using assms(7) l T(1,5) by (simp_all add: s1_def publish_def hpd_shape_def)
  then show ?thesis using h1 m2 assms(10,11) by (simp add: hpd_hotplug_def get_hpd_data_eq loop publish_def Let_def)
qed

lemma boot_tracked: "hpd_tracked 1 ((hpd_boot 1)\<lparr>h_d_edid := False\<rparr>)"
proof -
  have "plugged 1 ((hpd_boot 1)\<lparr>h_d_edid := False\<rparr>) = {}" by (auto simp: plugged_def hpd_boot_def hpd_new_def)
  moreover have "monitor_ok blank_monitor" by (simp add: blank_monitor_def monitor_ok_def)
  ultimately show ?thesis
    by (auto simp: hpd_tracked_def hpd_shape_def screen_ok_def hpd_boot_def hpd_new_def live_def fun_eq_iff)
qed

theorem absent_screen_gets_monitor_witness:
  "\<exists>s'. hpd_rounds True [demo_round True None, demo_round False (Some 7)] ((hpd_boot 1)\<lparr>h_d_edid := False\<rparr>) = Some s' \<and>
    h_objs s' ! 0 = Some (7, Some sample_edid) \<and> h_disp_count s' = 2 \<and> h_shared s' = 2"
proof -
  have "answers_ok (demo_round p h)" for p h by (simp add: answers_ok_def demo_round_def)
  then show ?thesis
    using absent_screen_gets_monitor [OF boot_tracked, of "demo_round True None" "demo_round False (Some 7)"
        "[True, False, False, False]" "[False, False, False, False]" 7]
    by (simp add: demo_round_def hpd_boot_def hpd_new_def reported_edid_def)
qed

text \<open>C39: (hot plug, end before the first event) A thread that is told to end before the first hot-plug
  event, as when the device is put to sleep early, does not let the primary monitor depart, since no
  screen has been reported; the thread of the next start makes a second monitor at the same
  connector, and the handle of the first is gone.\<close>
theorem early_end_leaks_monitor:
  assumes "0 < n" "n \<le> 4" "create 0 = Some h" "answer_ok ans" "create2 0 = Some h2" "answer_ok ans2"
  shows "\<exists>s1 s2. hpd_event_create True win11 ans create [] (hpd_boot n) = Some s1 \<and>
    map_option fst (h_objs s1 ! 0) = Some h \<and>
    hpd_begin True win11 ans2 create2 (hpd_new (h_monitors s1) (h_objs s1) (h_log s1)) = Some s2 \<and>
    replay (\<lambda>_. None) (h_log s2) = None \<and> map_option fst (h_objs s2 ! 0) = Some h2 \<and>
    (\<forall>c. 0 < c \<and> c < 4 \<longrightarrow> h_objs s2 ! c = None)"
proof -
  have b: "monitor_ok blank_monitor" by (simp add: blank_monitor_def monitor_ok_def)
  have boot: "0 < length (h_monitors (hpd_boot n))" "monitor_ok (h_monitors (hpd_boot n) ! 0)"
    using assms(1) b by (simp_all add: hpd_boot_def hpd_new_def)
  obtain ok m where f: "fetch_edid True ans (if win11 then False else True) 0 (hpd_boot n) =
      Some (ok, (hpd_boot n)\<lparr>h_monitors := (h_monitors (hpd_boot n))[0 := m]\<rparr>)" "monitor_ok m"
    using fetch_ok [where d_edid = "if win11 then False else True", OF boot, of ans] assms(4)
    by (auto simp: answer_ok_def)
  define s1 where "s1 = publish 1 ((hpd_boot n)\<lparr>h_monitors := (h_monitors (hpd_boot n))[0 := m],
    h_objs := (h_objs (hpd_boot n))[0 := Some (h, Some (pEdidBlock m))], h_log := [Arrived 0 h]\<rparr>)"
  have begin1: "hpd_begin True win11 ans create (hpd_boot n) = Some s1"
    using f assms(1,3) by (cases win11) (simp_all add: hpd_begin_def hpd_boot_def hpd_new_def finish_init_eq s1_def)
  have "hpd_end s1 = Some s1"
  proof -
    let ?I = "\<lambda>(c::nat) s'. s' = s1"
    have "\<exists>s'. hpd_end s1 = Some s' \<and> ?I 4 s'"
      unfolding hpd_end_def by (rule for_loop_inv [where I = ?I]) (auto simp: s1_def publish_def hpd_boot_def hpd_new_def)
    then show ?thesis by simp
  qed
  then have e1: "hpd_event_create True win11 ans create [] (hpd_boot n) = Some s1"
    using begin1 by (simp add: hpd_event_create_def)
  let ?x = "hpd_new (h_monitors s1) (h_objs s1) (h_log s1)"
  have x: "0 < length (h_monitors ?x)" "monitor_ok (h_monitors ?x ! 0)"
    using assms(1) f(2) by (simp_all add: s1_def hpd_new_def publish_def hpd_boot_def)
  obtain ok2 m2 where g: "fetch_edid True ans2 (if win11 then False else True) 0 ?x =
      Some (ok2, ?x\<lparr>h_monitors := (h_monitors ?x)[0 := m2]\<rparr>)"
    using fetch_ok [where d_edid = "if win11 then False else True", OF x, of ans2] assms(6)
    by (auto simp: answer_ok_def)
  let ?s2 = "publish 1 (?x\<lparr>h_monitors := (h_monitors ?x)[0 := m2],
    h_objs := (h_objs ?x)[0 := Some (h2, Some (pEdidBlock m2))], h_log := h_log ?x @ [Arrived 0 h2]\<rparr>)"
  have "hpd_begin True win11 ans2 create2 ?x = Some ?s2"
    using g assms(1,5)
    by (cases win11) (simp_all add: hpd_begin_def hpd_new_def finish_init_eq s1_def publish_def hpd_boot_def)
  moreover have "replay (\<lambda>_. None) (h_log ?s2) = None"
    by (simp add: publish_def hpd_new_def s1_def)
  moreover have "\<forall>c. 0 < c \<and> c < 4 \<longrightarrow> h_objs ?s2 ! c = None"
    by (simp add: publish_def hpd_new_def s1_def hpd_boot_def)
  ultimately show ?thesis
    using e1 by (intro exI [of _ s1] exI [of _ ?s2]) (simp add: s1_def publish_def hpd_new_def hpd_boot_def)
qed

theorem early_end_leaks_monitor_witness:
  "\<exists>s1. hpd_event_create True False None (\<lambda>_. Some 5) [] (hpd_boot 1) = Some s1 \<and> h_objs s1 ! 0 \<noteq> None"
  using early_end_leaks_monitor [of 1 "\<lambda>_. Some 5" 5 None "\<lambda>_. Some 6" 6 None False]
  by (auto simp: answer_ok_def)

end
