(* ===== verification/UmdFrames.thy ===== *)
theory UmdFrames
  imports IoctlProps
begin

text \<open>
  The frames of the user-mode driver: \<^verbatim>\<open>SwapChainProcessor\<close> of
  \<^verbatim>\<open>src/IntelVirtDisplayUMD/IntelVirtDisplay/Driver.cpp\<close> (\<^verbatim>\<open>init\<close>, \<^verbatim>\<open>RunCore\<close>, \<^verbatim>\<open>GetFrameData\<close>,
  \<^verbatim>\<open>cleanup_resources\<close>).  What the operating system, the graphics device and the kernel-mode driver
  answer for one acquired buffer is a record; the calls that matter for the staging texture, the
  desktop images and the kernel-mode driver are logged.
\<close>

section \<open>State\<close>

datatype frame_event =
    ImageAcquired | ImageReleased
  | TextureCreated nat | TextureReleased nat
  | TextureMapped nat u64 | TextureUnmapped nat | ImageCopied nat
  | SetModeSent frame_meta bool | FrameDataSent frame_meta bool | ReleaseFbSent u32
  | FrameFinished | StatisticsReported u32 u32

record swap_proc =
  sp_screen_num :: u32
  sp_destimage :: "nat option"
  sp_staging_mapped :: bool
  sp_pData :: u64
  sp_RowPitch :: u32
  sp_width :: u32
  sp_height :: u32
  sp_pitch :: u32
  sp_stride :: u32
  sp_format :: u32
  sp_resolution_changed :: bool
  sp_last_reported_addr :: u64
  sp_staging_addr_valid :: bool
  sp_statistics_counter :: u32
  sp_framedata :: frame_meta
  sp_log :: "frame_event list"

text \<open>The answers for one acquired buffer: whether it has the texture interface, whether the image is
  not the invalid handle, its description, whether the staging description is valid, the staging
  texture, the mapping (address and row pitch), the two control requests, and the report that the
  frame is finished.\<close>
record frame_env =
  fe_query :: bool
  fe_image :: bool
  fe_width :: u32
  fe_height :: u32
  fe_format :: u32
  fe_valid :: bool
  fe_texture :: "nat option"
  fe_map :: "(u64 \<times> u32) option"
  fe_set_mode :: bool
  fe_frame_data :: bool
  fe_finished :: bool

definition DXGI_FORMAT_R10G10B10A2_UNORM :: u32 where "DXGI_FORMAT_R10G10B10A2_UNORM = 24"
definition DXGI_FORMAT_R8G8B8A8_UNORM :: u32 where "DXGI_FORMAT_R8G8B8A8_UNORM = 28"
definition DXGI_FORMAT_B8G8R8A8_UNORM :: u32 where "DXGI_FORMAT_B8G8R8A8_UNORM = 87"
definition INTELVIRTDISPLAY_BBP :: u16 where "INTELVIRTDISPLAY_BBP = 4"
definition REPORT_FRAME_STATS :: u32 where "REPORT_FRAME_STATS = 60"

definition zero_frame :: frame_meta where
  "zero_frame = \<lparr>fm_width = 0, fm_height = 0, fm_color_format = 0, fm_pitch = 0, fm_stride = 0, fm_bitrate = 0,
     fm_addr = 0, fm_refresh_rate = 0, fm_screen_num = 0\<rparr>"

text \<open>A processor whose allocations succeeded, before its thread starts.\<close>
definition sp_init :: "u32 \<Rightarrow> swap_proc" where
  "sp_init n = \<lparr>sp_screen_num = n, sp_destimage = None, sp_staging_mapped = False, sp_pData = 0, sp_RowPitch = 0,
     sp_width = 0, sp_height = 0, sp_pitch = 0, sp_stride = 0, sp_format = FRAME_TYPE_INVALID,
     sp_resolution_changed = True, sp_last_reported_addr = 0, sp_staging_addr_valid = False,
     sp_statistics_counter = 1, sp_framedata = zero_frame, sp_log = []\<rparr>"

definition note_ev :: "frame_event \<Rightarrow> swap_proc \<Rightarrow> swap_proc" where
  "note_ev ev s = s\<lparr>sp_log := sp_log s @ [ev]\<rparr>"

section \<open>A frame\<close>

definition color_type :: "u32 \<Rightarrow> u32" where
  "color_type f = (if f = DXGI_FORMAT_B8G8R8A8_UNORM then FRAME_TYPE_BGRA
     else if f = DXGI_FORMAT_R8G8B8A8_UNORM then FRAME_TYPE_RGBA
     else if f = DXGI_FORMAT_R10G10B10A2_UNORM then FRAME_TYPE_RGBA10 else FRAME_TYPE_BGRA)"

text \<open>\<^verbatim>\<open>Unmap\<close> of the staging texture; without a texture it is not called.\<close>
definition unmap_staging :: "swap_proc \<Rightarrow> swap_proc option" where
  "unmap_staging s =
     (if sp_staging_mapped s then do {
        t \<leftarrow> sp_destimage s;
        Some (note_ev (TextureUnmapped t) (s\<lparr>sp_staging_mapped := False\<rparr>))
      } else Some s)"

definition drop_staging :: "swap_proc \<Rightarrow> swap_proc option" where
  "drop_staging s = (case sp_destimage s of
     None \<Rightarrow> Some s
   | Some t \<Rightarrow> do {
       s1 \<leftarrow> unmap_staging s;
       Some (note_ev (TextureReleased t) (s1\<lparr>sp_destimage := None\<rparr>)) })"

text \<open>The new staging texture for a changed resolution; \<^verbatim>\<open>False\<close>: \<^verbatim>\<open>GetFrameData\<close> fails.\<close>
definition setup_staging :: "frame_env \<Rightarrow> swap_proc \<Rightarrow> (bool \<times> swap_proc) option" where
  "setup_staging e s = do {
     s1 \<leftarrow> drop_staging s;
     let s2 = s1\<lparr>sp_pData := 0, sp_RowPitch := 0, sp_width := fe_width e, sp_height := fe_height e,
       sp_format := color_type (fe_format e)\<rparr>;
     if \<not> fe_valid e then Some (False, note_ev ImageReleased s2)
     else case fe_texture e of
       None \<Rightarrow> Some (False, note_ev ImageReleased s2)
     | Some t \<Rightarrow> Some (True, note_ev (TextureCreated t) (s2\<lparr>sp_destimage := Some t\<rparr>)) }"

text \<open>The copy of the desktop image and the mapping of the copy; copying into no texture is a fault.\<close>
definition copy_image :: "frame_env \<Rightarrow> swap_proc \<Rightarrow> (bool \<times> swap_proc) option" where
  "copy_image e s = do {
     s1 \<leftarrow> unmap_staging s;
     t \<leftarrow> sp_destimage s1;
     let s2 = note_ev ImageReleased (note_ev (ImageCopied t) s1);
     case fe_map e of
       None \<Rightarrow> Some (False, note_ev (TextureReleased t) (s2\<lparr>sp_destimage := None\<rparr>))
     | Some (addr, pitch) \<Rightarrow> Some (True, note_ev (TextureMapped t addr)
         (s2\<lparr>sp_pData := addr, sp_RowPitch := pitch, sp_staging_mapped := True\<rparr>)) }"

text \<open>The description of the frame.\<close>
definition frame_of :: "swap_proc \<Rightarrow> frame_meta" where
  "frame_of s = (sp_framedata s)\<lparr>fm_width := sp_width s, fm_height := sp_height s, fm_color_format := sp_format s,
     fm_pitch := sp_pitch s, fm_stride := sp_stride s, fm_bitrate := INTELVIRTDISPLAY_BBP,
     fm_addr := sp_pData s, fm_screen_num := sp_screen_num s\<rparr>"

definition describe_frame :: "swap_proc \<Rightarrow> swap_proc" where
  "describe_frame s =
     (let s1 = (if sp_staging_addr_valid s \<and> sp_last_reported_addr s \<noteq> sp_pData s
          then s\<lparr>sp_resolution_changed := True\<rparr> else s);
        s2 = s1\<lparr>sp_pitch := sp_RowPitch s1, sp_stride := sp_RowPitch s1 div 4\<rparr>
      in s2\<lparr>sp_framedata := frame_of s2\<rparr>)"

text \<open>The two control requests.\<close>
definition send_frame :: "frame_env \<Rightarrow> swap_proc \<Rightarrow> bool \<times> swap_proc" where
  "send_frame e s =
     (let f = sp_framedata s;
        s1 = (if sp_resolution_changed s then note_ev (SetModeSent f (fe_set_mode e)) s else s) in
      if sp_resolution_changed s \<and> \<not> fe_set_mode e then (False, s1)
      else let s2 = note_ev (FrameDataSent f (fe_frame_data e)) (s1\<lparr>sp_resolution_changed := False\<rparr>) in
      if \<not> fe_frame_data e then (False, s2)
      else (True, s2\<lparr>sp_last_reported_addr := sp_pData s2, sp_staging_addr_valid := True\<rparr>))"

definition get_frame_data :: "frame_env \<Rightarrow> swap_proc \<Rightarrow> (bool \<times> swap_proc) option" where
  "get_frame_data e s =
     (if \<not> fe_image e then Some (False, s)
      else do {
        (ok, s1) \<leftarrow> (if sp_resolution_changed s then setup_staging e s else Some (True, s));
        if \<not> ok then Some (False, s1)
        else do {
          (ok, s2) \<leftarrow> copy_image e s1;
          if \<not> ok then Some (False, s2) else Some (send_frame e (describe_frame s2)) } })"

section \<open>The loop of the thread\<close>

datatype wait_result = WaitBuffer | WaitTimeout | WaitTerminate | WaitOther

text \<open>What asking for the next buffer yields.\<close>
datatype acquired = NoBuffer wait_result | Buffer frame_env | Abandoned

definition report_frame_statistics :: "swap_proc \<Rightarrow> swap_proc" where
  "report_frame_statistics s = (let n = sp_width s * sp_height s in note_ev (StatisticsReported n (n * 4)) s)"

text \<open>A buffer: \<^verbatim>\<open>False\<close> leaves the loop.  While the resources of the driver could not be set up
  (\<^verbatim>\<open>g_init_kmd_resources\<close>) buffers are acquired and left alone.\<close>
definition process_buffer :: "bool \<Rightarrow> frame_env \<Rightarrow> swap_proc \<Rightarrow> (bool \<times> swap_proc) option" where
  "process_buffer kmd_ok e s =
     (if \<not> kmd_ok then Some (True, s)
      else if \<not> fe_query e then Some (False, s)
      else do {
        (ok, s1) \<leftarrow> get_frame_data e (if fe_image e then note_ev ImageAcquired s else s);
        if \<not> ok then Some (False, s1)
        else let s2 = note_ev FrameFinished s1 in
        if \<not> fe_finished e then Some (False, s2)
        else let s3 = (if sp_statistics_counter s2 = REPORT_FRAME_STATS
            then (report_frame_statistics s2)\<lparr>sp_statistics_counter := 0\<rparr> else s2) in
        Some (True, s3\<lparr>sp_statistics_counter := sp_statistics_counter s3 + 1\<rparr>) })"

text \<open>The loop over what it acquires; the boolean says whether it is still running at the end.\<close>
fun run_core :: "bool \<Rightarrow> acquired list \<Rightarrow> swap_proc \<Rightarrow> (bool \<times> swap_proc) option" where
  "run_core kmd_ok [] s = Some (True, s)"
| "run_core kmd_ok (NoBuffer w # as) s =
     (if w = WaitBuffer \<or> w = WaitTimeout then run_core kmd_ok as s else Some (False, s))"
| "run_core kmd_ok (Buffer e # as) s = do {
     (go, s1) \<leftarrow> process_buffer kmd_ok e s;
     if go then run_core kmd_ok as s1 else Some (False, s1) }"
| "run_core kmd_ok (Abandoned # as) s = Some (False, s)"

text \<open>The end of the processor; \<^verbatim>\<open>dev\<close>: whether the kernel-mode driver can be reached.\<close>
definition cleanup_resources :: "bool \<Rightarrow> swap_proc \<Rightarrow> swap_proc option" where
  "cleanup_resources dev s = do {
     let s1 = (if sp_staging_addr_valid s \<and> dev then note_ev (ReleaseFbSent (sp_screen_num s)) s else s);
     let s2 = s1\<lparr>sp_staging_addr_valid := False, sp_last_reported_addr := 0\<rparr>;
     s3 \<leftarrow> drop_staging s2;
     Some (if sp_destimage s2 = None then s3 else s3\<lparr>sp_pData := 0\<rparr>) }"

section \<open>The order of the calls\<close>

text \<open>What the calls so far amount to: desktop images held, the staging texture, its mapping, the
  frame of the last accepted mode set, whether the kernel-mode driver has accepted a frame it was not
  told to release.\<close>
record frame_ledger =
  fl_images :: nat
  fl_texture :: "nat option"
  fl_mapped :: "u64 option"
  fl_mode :: "frame_meta option"
  fl_published :: bool

text \<open>A call out of order is an error: an image released that is not held, a second texture, a texture
  released while mapped, a copy into a mapped texture, a frame that is not mapped where it is said to
  be, or that is not at the place and of the geometry of the last accepted mode set.\<close>
fun ledger_step :: "frame_event \<Rightarrow> frame_ledger \<Rightarrow> frame_ledger option" where
  "ledger_step ImageAcquired l = Some (l\<lparr>fl_images := fl_images l + 1\<rparr>)"
| "ledger_step ImageReleased l = (if 0 < fl_images l then Some (l\<lparr>fl_images := fl_images l - 1\<rparr>) else None)"
| "ledger_step (TextureCreated t) l = (if fl_texture l = None then Some (l\<lparr>fl_texture := Some t\<rparr>) else None)"
| "ledger_step (TextureReleased t) l = (if fl_texture l = Some t \<and> fl_mapped l = None
     then Some (l\<lparr>fl_texture := None\<rparr>) else None)"
| "ledger_step (TextureMapped t a) l = (if fl_texture l = Some t \<and> fl_mapped l = None
     then Some (l\<lparr>fl_mapped := Some a\<rparr>) else None)"
| "ledger_step (TextureUnmapped t) l = (if fl_texture l = Some t \<and> fl_mapped l \<noteq> None
     then Some (l\<lparr>fl_mapped := None\<rparr>) else None)"
| "ledger_step (ImageCopied t) l = (if fl_texture l = Some t \<and> fl_mapped l = None \<and> 0 < fl_images l
     then Some l else None)"
| "ledger_step (SetModeSent f ok) l = (if fl_mapped l = Some (fm_addr f)
     then Some (if ok then l\<lparr>fl_mode := Some f\<rparr> else l) else None)"
| "ledger_step (FrameDataSent f ok) l =
     (if fl_mapped l = Some (fm_addr f) \<and> (\<exists>m. fl_mode l = Some m \<and> fm_addr m = fm_addr f \<and>
          fm_width m = fm_width f \<and> fm_height m = fm_height f \<and> fm_screen_num m = fm_screen_num f)
      then Some (if ok then l\<lparr>fl_published := True\<rparr> else l) else None)"
| "ledger_step (ReleaseFbSent n) l = Some (l\<lparr>fl_published := False\<rparr>)"
| "ledger_step FrameFinished l = Some l"
| "ledger_step (StatisticsReported n b) l = Some l"

fun ledger :: "frame_event list \<Rightarrow> frame_ledger \<Rightarrow> frame_ledger option" where
  "ledger [] l = Some l"
| "ledger (ev # evs) l = do { l1 \<leftarrow> ledger_step ev l; ledger evs l1 }"

definition empty_ledger :: frame_ledger where
  "empty_ledger = \<lparr>fl_images = 0, fl_texture = None, fl_mapped = None, fl_mode = None, fl_published = False\<rparr>"

lemma ledger_append: "ledger (xs @ ys) l = do { l1 \<leftarrow> ledger xs l; ledger ys l1 }"
proof (induction xs arbitrary: l)
  case (Cons ev xs)
  then show ?case by (cases "ledger_step ev l") simp_all
qed simp

section \<open>The ledger of a run\<close>

definition led :: "swap_proc \<Rightarrow> frame_ledger option" where
  "led s = ledger (sp_log s) empty_ledger"

lemma led_note [simp]: "led (note_ev ev s) = do { l \<leftarrow> led s; ledger_step ev l }"
proof -
  have "ledger [ev] = ledger_step ev" by (rule ext, rename_tac l, case_tac "ledger_step ev l") simp_all
  then show ?thesis by (simp add: led_def note_ev_def ledger_append)
qed

lemma led_upd [simp]:
  "led (s\<lparr>sp_screen_num := v0\<rparr>) = led s" "led (s\<lparr>sp_destimage := v1\<rparr>) = led s" "led (s\<lparr>sp_staging_mapped := v2\<rparr>) = led s"
  "led (s\<lparr>sp_pData := v3\<rparr>) = led s" "led (s\<lparr>sp_RowPitch := v4\<rparr>) = led s" "led (s\<lparr>sp_width := v5\<rparr>) = led s"
  "led (s\<lparr>sp_height := v6\<rparr>) = led s" "led (s\<lparr>sp_pitch := v7\<rparr>) = led s" "led (s\<lparr>sp_stride := v8\<rparr>) = led s"
  "led (s\<lparr>sp_format := v9\<rparr>) = led s" "led (s\<lparr>sp_resolution_changed := v10\<rparr>) = led s" "led (s\<lparr>sp_last_reported_addr := v11\<rparr>) = led s"
  "led (s\<lparr>sp_staging_addr_valid := v12\<rparr>) = led s" "led (s\<lparr>sp_statistics_counter := v13\<rparr>) = led s" "led (s\<lparr>sp_framedata := v14\<rparr>) = led s"
 
  by (simp_all add: led_def)

lemma note_sel [simp]:
  "sp_destimage (note_ev ev s) = sp_destimage s" "sp_staging_mapped (note_ev ev s) = sp_staging_mapped s"
  "sp_pData (note_ev ev s) = sp_pData s" "sp_width (note_ev ev s) = sp_width s"
  "sp_height (note_ev ev s) = sp_height s" "sp_screen_num (note_ev ev s) = sp_screen_num s"
  "sp_resolution_changed (note_ev ev s) = sp_resolution_changed s"
  "sp_last_reported_addr (note_ev ev s) = sp_last_reported_addr s"
  "sp_staging_addr_valid (note_ev ev s) = sp_staging_addr_valid s"
  "sp_framedata (note_ev ev s) = sp_framedata s" "sp_RowPitch (note_ev ev s) = sp_RowPitch s"
  "sp_statistics_counter (note_ev ev s) = sp_statistics_counter s"
  by (simp_all add: note_ev_def)

text \<open>In step with the ledger, with \<^verbatim>\<open>n\<close> desktop images held.\<close>
definition in_step :: "nat \<Rightarrow> swap_proc \<Rightarrow> frame_ledger \<Rightarrow> bool" where
  "in_step n s l \<longleftrightarrow> led s = Some l \<and> fl_images l = n \<and> fl_texture l = sp_destimage s \<and>
     fl_mapped l = (if sp_staging_mapped s then Some (sp_pData s) else None) \<and>
     (sp_staging_mapped s \<longrightarrow> sp_destimage s \<noteq> None) \<and> (fl_published l \<longrightarrow> sp_staging_addr_valid s)"

definition mode_matches :: "swap_proc \<Rightarrow> frame_ledger \<Rightarrow> bool" where
  "mode_matches s l \<longleftrightarrow> (\<exists>m. fl_mode l = Some m \<and> fm_addr m = sp_last_reported_addr s \<and> fm_width m = sp_width s \<and>
     fm_height m = sp_height s \<and> fm_screen_num m = sp_screen_num s)"

text \<open>Between two frames.\<close>
definition sp_ready :: "swap_proc \<Rightarrow> bool" where
  "sp_ready s \<longleftrightarrow> (\<exists>l. in_step 0 s l \<and> (if sp_resolution_changed s
     then sp_destimage s = None \<and> \<not> sp_staging_addr_valid s
     else sp_destimage s \<noteq> None \<and> sp_staging_addr_valid s \<and> mode_matches s l))"

definition sp_stopped :: "swap_proc \<Rightarrow> bool" where
  "sp_stopped s \<longleftrightarrow> (\<exists>l. in_step 0 s l)"

lemma unmap_ok:
  assumes "in_step n s l"
  shows "\<exists>s' l'. unmap_staging s = Some s' \<and> in_step n s' l' \<and> \<not> sp_staging_mapped s' \<and>
    sp_destimage s' = sp_destimage s \<and> sp_resolution_changed s' = sp_resolution_changed s \<and>
    sp_staging_addr_valid s' = sp_staging_addr_valid s \<and> sp_last_reported_addr s' = sp_last_reported_addr s \<and>
    sp_width s' = sp_width s \<and> sp_height s' = sp_height s \<and> sp_screen_num s' = sp_screen_num s \<and>
    fl_mode l' = fl_mode l \<and> fl_published l' = fl_published l"
proof (cases "sp_staging_mapped s")
  case True
  then obtain t where t: "sp_destimage s = Some t" using assms by (auto simp: in_step_def)
  show ?thesis using assms True t
    by (intro exI [of _ "note_ev (TextureUnmapped t) (s\<lparr>sp_staging_mapped := False\<rparr>)"]
        exI [of _ "l\<lparr>fl_mapped := None\<rparr>"]) (simp add: unmap_staging_def in_step_def)
qed (use assms in \<open>auto simp: unmap_staging_def\<close>)

lemma drop_ok:
  assumes "in_step n s l"
  shows "\<exists>s' l'. drop_staging s = Some s' \<and> in_step n s' l' \<and> sp_destimage s' = None \<and> \<not> sp_staging_mapped s' \<and>
    sp_staging_addr_valid s' = sp_staging_addr_valid s \<and> sp_screen_num s' = sp_screen_num s \<and>
    sp_resolution_changed s' = sp_resolution_changed s \<and> fl_published l' = fl_published l"
proof (cases "sp_destimage s")
  case None
  then show ?thesis using assms by (auto simp: drop_staging_def in_step_def)
next
  case (Some t)
  from unmap_ok [OF assms] obtain s1 l1 where u: "unmap_staging s = Some s1" "in_step n s1 l1" "\<not> sp_staging_mapped s1"
    "sp_destimage s1 = Some t" "sp_staging_addr_valid s1 = sp_staging_addr_valid s" "sp_screen_num s1 = sp_screen_num s"
    "sp_resolution_changed s1 = sp_resolution_changed s" "fl_published l1 = fl_published l"
    using Some by auto
  then show ?thesis using Some by (auto simp: drop_staging_def in_step_def)
qed

lemma setup_ok:
  assumes "in_step 1 s l" "sp_destimage s = None" "\<not> sp_staging_addr_valid s" "sp_resolution_changed s"
  shows "\<exists>ok s' l'. setup_staging e s = Some (ok, s') \<and> in_step (if ok then 1 else 0) s' l' \<and>
    sp_resolution_changed s' \<and> \<not> sp_staging_addr_valid s' \<and> (ok \<longrightarrow> sp_destimage s' \<noteq> None)"
proof -
  have "drop_staging s = Some s" using assms(2) by (simp add: drop_staging_def)
  then show ?thesis using assms
    by (cases "fe_valid e"; cases "fe_texture e") (auto simp: setup_staging_def in_step_def)
qed

text \<open>The state the two control requests are made in.\<close>
definition sp_copied :: "swap_proc \<Rightarrow> frame_ledger \<Rightarrow> bool" where
  "sp_copied s l \<longleftrightarrow> in_step 0 s l \<and> sp_staging_mapped s \<and>
     (if sp_resolution_changed s then \<not> sp_staging_addr_valid s else sp_staging_addr_valid s \<and> mode_matches s l)"

lemma copy_ok:
  assumes "in_step 1 s l" "sp_destimage s \<noteq> None"
    and "if sp_resolution_changed s then \<not> sp_staging_addr_valid s else sp_staging_addr_valid s \<and> mode_matches s l"
  shows "\<exists>ok s' l'. copy_image e s = Some (ok, s') \<and> in_step 0 s' l' \<and> (ok \<longrightarrow> sp_copied s' l')"
proof -
  from unmap_ok [OF assms(1)] obtain s1 l1 where u: "unmap_staging s = Some s1" "in_step 1 s1 l1" "\<not> sp_staging_mapped s1"
    "sp_destimage s1 = sp_destimage s" "sp_resolution_changed s1 = sp_resolution_changed s"
    "sp_staging_addr_valid s1 = sp_staging_addr_valid s" "sp_last_reported_addr s1 = sp_last_reported_addr s"
    "sp_width s1 = sp_width s" "sp_height s1 = sp_height s" "sp_screen_num s1 = sp_screen_num s" "fl_mode l1 = fl_mode l"
    by blast
  obtain t where t: "sp_destimage s1 = Some t" using u(4) assms(2) by auto
  show ?thesis
  proof (cases "fe_map e")
    case None
    then show ?thesis using u(1-3) t by (auto simp: copy_image_def in_step_def)
  next
    case (Some am)
    obtain a b where am: "am = (a, b)" by (cases am)
    let ?s' = "note_ev (TextureMapped t a) ((note_ev ImageReleased (note_ev (ImageCopied t) s1))
      \<lparr>sp_pData := a, sp_RowPitch := b, sp_staging_mapped := True\<rparr>)"
    let ?l' = "l1\<lparr>fl_images := 0, fl_mapped := Some a\<rparr>"
    have "copy_image e s = Some (True, ?s')" using u(1) t Some am by (simp add: copy_image_def)
    moreover have "in_step 0 ?s' ?l'" using u(2,3) t by (simp add: in_step_def)
    moreover have "sp_copied ?s' ?l'" using calculation(2) assms(3) u by (auto simp: sp_copied_def mode_matches_def)
    ultimately show ?thesis by blast
  qed
qed

lemma send_ok:
  assumes "sp_copied s l"
  shows "\<exists>ok s'. send_frame e (describe_frame s) = (ok, s') \<and> (if ok then sp_ready s' else sp_stopped s')"
proof -
  define d where "d = describe_frame s"
  let ?f = "sp_framedata d"
  have d: "sp_staging_mapped d" "sp_pData d = sp_pData s" "sp_destimage d = sp_destimage s" "led d = led s"
    "sp_staging_addr_valid d = sp_staging_addr_valid s" "sp_width d = sp_width s" "sp_height d = sp_height s"
    "sp_screen_num d = sp_screen_num s" "sp_last_reported_addr d = sp_last_reported_addr s"
    "sp_resolution_changed d = (sp_resolution_changed s \<or>
      (sp_staging_addr_valid s \<and> sp_last_reported_addr s \<noteq> sp_pData s))"
    and f: "fm_addr ?f = sp_pData s" "fm_width ?f = sp_width s" "fm_height ?f = sp_height s"
    "fm_screen_num ?f = sp_screen_num s"
    using assms by (auto simp: d_def describe_frame_def frame_of_def Let_def sp_copied_def)
  have l: "led s = Some l" "fl_images l = 0" "fl_texture l = sp_destimage s" "fl_mapped l = Some (sp_pData s)"
    "sp_destimage s \<noteq> None" "fl_published l \<longrightarrow> sp_staging_addr_valid s"
    using assms by (auto simp: sp_copied_def in_step_def)
  define s1 where "s1 = (if sp_resolution_changed d then note_ev (SetModeSent ?f (fe_set_mode e)) d else d)"
  define l1 where "l1 = (if sp_resolution_changed d \<and> fe_set_mode e then l\<lparr>fl_mode := Some ?f\<rparr> else l)"
  have s1: "in_step 0 s1 l1" using l d f by (auto simp: in_step_def s1_def l1_def)
  have s1s: "sp_framedata s1 = ?f" "sp_pData s1 = sp_pData s" "sp_staging_mapped s1" "sp_width s1 = sp_width s"
    "sp_height s1 = sp_height s" "sp_screen_num s1 = sp_screen_num s" "sp_destimage s1 = sp_destimage s"
    using d by (simp_all add: s1_def)
  have l1m: "fl_mapped l1 = Some (fm_addr ?f)" using l(4) f(1) by (simp add: l1_def)
  have send: "send_frame e d = (if sp_resolution_changed d \<and> \<not> fe_set_mode e then (False, s1)
      else let s2 = note_ev (FrameDataSent ?f (fe_frame_data e)) (s1\<lparr>sp_resolution_changed := False\<rparr>) in
      if \<not> fe_frame_data e then (False, s2)
      else (True, s2\<lparr>sp_last_reported_addr := sp_pData s2, sp_staging_addr_valid := True\<rparr>))"
    by (simp add: send_frame_def Let_def s1_def)
  show ?thesis
  proof (cases "sp_resolution_changed d \<and> \<not> fe_set_mode e")
    case True
    then show ?thesis using s1 send by (auto simp: d_def sp_stopped_def)
  next
    case False
    have m: "\<exists>m. fl_mode l1 = Some m \<and> fm_addr m = fm_addr ?f \<and> fm_width m = fm_width ?f \<and>
        fm_height m = fm_height ?f \<and> fm_screen_num m = fm_screen_num ?f"
    proof (cases "sp_resolution_changed d")
      case True
      then show ?thesis using False by (simp add: l1_def)
    next
      case unch: False
      then have "mode_matches s l" "sp_last_reported_addr s = sp_pData s"
        using assms d(10) by (auto simp: sp_copied_def split: if_splits)
      then show ?thesis using unch f by (simp add: mode_matches_def l1_def)
    qed
    let ?s2 = "note_ev (FrameDataSent ?f (fe_frame_data e)) (s1\<lparr>sp_resolution_changed := False\<rparr>)"
    let ?l2 = "if fe_frame_data e then l1\<lparr>fl_published := True\<rparr> else l1"
    have led2: "led ?s2 = Some ?l2" using s1 l1m m by (simp add: in_step_def)
    show ?thesis
    proof (cases "fe_frame_data e")
      case no: False
      then have "send_frame e d = (False, ?s2)" using False send by (auto simp: Let_def)
      moreover have "in_step 0 ?s2 ?l2" using led2 s1 no by (simp add: in_step_def)
      ultimately show ?thesis by (auto simp: d_def sp_stopped_def)
    next
      case ok: True
      let ?s3 = "?s2\<lparr>sp_last_reported_addr := sp_pData ?s2, sp_staging_addr_valid := True\<rparr>"
      have "send_frame e d = (True, ?s3)" using False ok send by (auto simp: Let_def)
      moreover have "in_step 0 ?s3 ?l2" using led2 s1 ok by (simp add: in_step_def)
      moreover have "mode_matches ?s3 ?l2" using m f s1s ok by (auto simp: mode_matches_def)
      moreover have "sp_destimage ?s3 \<noteq> None" using s1s(7) l(5) by simp
      ultimately show ?thesis by (auto simp: d_def sp_ready_def)
    qed
  qed
qed

lemma frame_ok_step:
  assumes "sp_ready s"
  shows "\<exists>ok s'. get_frame_data e (if fe_image e then note_ev ImageAcquired s else s) = Some (ok, s') \<and>
    (if ok then sp_ready s' else sp_stopped s')"
proof (cases "fe_image e")
  case False
  then show ?thesis using assms by (auto simp: get_frame_data_def sp_ready_def sp_stopped_def)
next
  case True
  let ?a = "note_ev ImageAcquired s"
  obtain l where l: "in_step 0 s l" "if sp_resolution_changed s then sp_destimage s = None \<and> \<not> sp_staging_addr_valid s
      else sp_destimage s \<noteq> None \<and> sp_staging_addr_valid s \<and> mode_matches s l"
    using assms by (auto simp: sp_ready_def)
  let ?l = "l\<lparr>fl_images := 1\<rparr>"
  have a: "in_step 1 ?a ?l" using l(1) by (simp add: in_step_def)
  have "\<exists>ok s1 l1. (if sp_resolution_changed ?a then setup_staging e ?a else Some (True, ?a)) = Some (ok, s1) \<and>
    in_step (if ok then 1 else 0) s1 l1 \<and> (ok \<longrightarrow> sp_destimage s1 \<noteq> None \<and>
      (if sp_resolution_changed s1 then \<not> sp_staging_addr_valid s1 else sp_staging_addr_valid s1 \<and> mode_matches s1 l1))"
  proof (cases "sp_resolution_changed s")
    case True
    then show ?thesis using setup_ok [OF a, of e] l(2) by fastforce
  next
    case False
    then show ?thesis using a l(2) by (intro exI [of _ True] exI [of _ ?a] exI [of _ ?l]) (simp add: mode_matches_def)
  qed
  then obtain ok s1 l1 where s1: "(if sp_resolution_changed ?a then setup_staging e ?a else Some (True, ?a)) = Some (ok, s1)"
    "in_step (if ok then 1 else 0) s1 l1" "ok \<Longrightarrow> sp_destimage s1 \<noteq> None \<and>
      (if sp_resolution_changed s1 then \<not> sp_staging_addr_valid s1 else sp_staging_addr_valid s1 \<and> mode_matches s1 l1)"
    by blast
  show ?thesis
  proof (cases ok)
    case False
    then have "get_frame_data e ?a = Some (False, s1)" using s1(1) True by (simp add: get_frame_data_def)
    then show ?thesis using s1(2) False True by (auto simp: sp_stopped_def)
  next
    case ok: True
    with s1 copy_ok [of s1 l1 e] obtain ok2 s2 l2 where
      s2: "copy_image e s1 = Some (ok2, s2)" "in_step 0 s2 l2" "ok2 \<longrightarrow> sp_copied s2 l2" by auto
    have g: "get_frame_data e ?a = (if \<not> ok2 then Some (False, s2) else Some (send_frame e (describe_frame s2)))"
      using s1(1) s2(1) True ok by (simp add: get_frame_data_def)
    show ?thesis
    proof (cases ok2)
      case False
      then show ?thesis using g s2(2) True by (auto simp: sp_stopped_def)
    next
      case ok2: True
      then show ?thesis using g send_ok [of s2 l2 e] s2(3) True by (metis (full_types))
    qed
  qed
qed

lemma ready_stopped: "sp_ready s \<Longrightarrow> sp_stopped s"
  by (auto simp: sp_ready_def sp_stopped_def)

lemma in_step_neutral:
  assumes "\<And>l. ledger_step ev l = Some l"
  shows "sp_ready (note_ev ev s) = sp_ready s" "sp_stopped (note_ev ev s) = sp_stopped s"
  using assms by (auto simp: sp_ready_def sp_stopped_def in_step_def mode_matches_def bind_eq_Some_conv)

lemma counter_neutral: "sp_ready (s\<lparr>sp_statistics_counter := c\<rparr>) = sp_ready s"
  by (simp add: sp_ready_def in_step_def mode_matches_def)

lemma report_neutral: "sp_ready (report_frame_statistics s) = sp_ready s"
  unfolding report_frame_statistics_def Let_def by (rule in_step_neutral) simp

lemma process_ok:
  assumes "sp_ready s"
  shows "\<exists>go s'. process_buffer kmd_ok e s = Some (go, s') \<and> (if go then sp_ready s' else sp_stopped s')"
proof (cases "kmd_ok \<and> fe_query e")
  case False
  then show ?thesis using assms ready_stopped [OF assms] by (auto simp: process_buffer_def)
next
  case True
  from frame_ok_step [OF assms] obtain ok s1 where
    g: "get_frame_data e (if fe_image e then note_ev ImageAcquired s else s) = Some (ok, s1)"
      "if ok then sp_ready s1 else sp_stopped s1" by blast
  show ?thesis
  proof (cases ok)
    case False
    then show ?thesis using True g by (auto simp: process_buffer_def)
  next
    case ok: True
    define s2 where "s2 = note_ev FrameFinished s1"
    define s3 where "s3 = (if sp_statistics_counter s2 = REPORT_FRAME_STATS
      then (report_frame_statistics s2)\<lparr>sp_statistics_counter := 0\<rparr> else s2)"
    have p: "process_buffer kmd_ok e s = (if \<not> fe_finished e then Some (False, s2)
        else Some (True, s3\<lparr>sp_statistics_counter := sp_statistics_counter s3 + 1\<rparr>))"
      using True g(1) ok by (simp add: process_buffer_def Let_def s2_def s3_def)
    have r2: "sp_ready s2" using g(2) ok in_step_neutral(1) [of FrameFinished s1] by (simp add: s2_def)
    then have "sp_ready s3" by (simp add: s3_def counter_neutral report_neutral)
    then show ?thesis using p ready_stopped [OF r2] by (cases "fe_finished e") (auto simp: counter_neutral)
  qed
qed

lemma frames_run_ok:
  assumes "sp_ready s"
  shows "\<exists>go s'. run_core kmd_ok as s = Some (go, s') \<and> sp_stopped s'"
  using assms
proof (induction kmd_ok as s rule: run_core.induct)
  case (3 kmd_ok e as s)
  from process_ok [OF 3(2)] obtain go s1 where
    p: "process_buffer kmd_ok e s = Some (go, s1)" "if go then sp_ready s1 else sp_stopped s1" by blast
  then show ?case using 3(1) [OF p(1) refl] by (cases go) auto
qed (auto intro: ready_stopped)

lemma init_ready: "sp_ready (sp_init n)"
  by (simp add: sp_ready_def in_step_def sp_init_def led_def empty_ledger_def)

lemma drop_clear:
  "drop_staging (s\<lparr>sp_staging_addr_valid := v, sp_last_reported_addr := w\<rparr>) =
   map_option (\<lambda>x. x\<lparr>sp_staging_addr_valid := v, sp_last_reported_addr := w\<rparr>) (drop_staging s)"
  by (cases s) (simp add: drop_staging_def unmap_staging_def note_ev_def split: option.split)

lemma cleanup_ok:
  assumes "sp_stopped s"
  shows "\<exists>s' l. cleanup_resources dev s = Some s' \<and> led s' = Some l \<and> fl_images l = 0 \<and> fl_texture l = None \<and>
    fl_mapped l = None \<and> (dev \<longrightarrow> \<not> fl_published l)"
proof -
  obtain l where l: "in_step 0 s l" using assms by (auto simp: sp_stopped_def)
  let ?s1 = "if sp_staging_addr_valid s \<and> dev then note_ev (ReleaseFbSent (sp_screen_num s)) s else s"
  let ?l1 = "if sp_staging_addr_valid s \<and> dev then l\<lparr>fl_published := False\<rparr> else l"
  let ?clear = "\<lambda>x. x\<lparr>sp_staging_addr_valid := False, sp_last_reported_addr := 0\<rparr>"
  have s1: "in_step 0 ?s1 ?l1" "dev \<longrightarrow> \<not> fl_published ?l1" using l by (auto simp: in_step_def)
  from drop_ok [OF s1(1)] obtain s3 l3 where d: "drop_staging ?s1 = Some s3" "in_step 0 s3 l3"
    "sp_destimage s3 = None" "\<not> sp_staging_mapped s3" "fl_published l3 = fl_published ?l1" by blast
  have "drop_staging (?clear ?s1) = Some (?clear s3)" using d(1) by (simp add: drop_clear)
  then have "cleanup_resources dev s = Some (if sp_destimage (?clear ?s1) = None then ?clear s3 else (?clear s3)\<lparr>sp_pData := 0\<rparr>)"
    by (simp add: cleanup_resources_def Let_def)
  moreover have "led (if sp_destimage (?clear ?s1) = None then ?clear s3 else (?clear s3)\<lparr>sp_pData := 0\<rparr>) = Some l3"
    using d(2) by (simp add: in_step_def)
  ultimately show ?thesis using d s1(2) by (auto simp: in_step_def)
qed

section \<open>Correctness\<close>


text \<open>C26: (user-mode driver, a mode set without its frame) The flag that asks for the release at the end is
  only set when a frame was accepted, but the kernel-mode driver takes the pages of the staging
  texture with the mode set: when that is accepted and the first frame is refused, the loop ends
  and the clean-up unmaps and frees the texture without telling it.\<close>
theorem mode_set_not_released:
  assumes "fe_query e" "fe_image e" "fe_valid e" "fe_texture e = Some t" "fe_map e = Some (a, p)"
    and "fe_set_mode e" "\<not> fe_frame_data e"
  shows "\<exists>s s' f. run_core True (Buffer e # as) (sp_init n) = Some (False, s) \<and>
    cleanup_resources True s = Some s' \<and> fm_addr f = a \<and>
    sp_log s' = [ImageAcquired, TextureCreated t, ImageCopied t, ImageReleased, TextureMapped t a,
      SetModeSent f True, FrameDataSent f False, TextureUnmapped t, TextureReleased t]"
  using assms
  by (simp add: process_buffer_def get_frame_data_def setup_staging_def drop_staging_def copy_image_def
      unmap_staging_def describe_frame_def frame_of_def send_frame_def cleanup_resources_def note_ev_def
      sp_init_def Let_def)

definition demo_frame_env :: "bool \<Rightarrow> frame_env" where
  "demo_frame_env ok = \<lparr>fe_query = True, fe_image = True, fe_width = 1920, fe_height = 1080,
     fe_format = DXGI_FORMAT_B8G8R8A8_UNORM, fe_valid = True, fe_texture = Some 3, fe_map = Some (4096, 7680),
     fe_set_mode = True, fe_frame_data = ok, fe_finished = True\<rparr>"

theorem mode_set_not_released_witness:
  "\<exists>s s' f. run_core True [Buffer (demo_frame_env False)] (sp_init 0) = Some (False, s) \<and>
    cleanup_resources True s = Some s' \<and> fm_addr f = 4096 \<and>
    sp_log s' = [ImageAcquired, TextureCreated 3, ImageCopied 3, ImageReleased, TextureMapped 3 4096,
      SetModeSent f True, FrameDataSent f False, TextureUnmapped 3, TextureReleased 3]"
  by (rule mode_set_not_released [where p = 7680]) (simp_all add: demo_frame_env_def)

section \<open>The frames the kernel-mode driver accepts\<close>

text \<open>A stride that is not 0 never makes the length wrap.\<close>
lemma frame_bytes_small:
  assumes "fm_stride f \<noteq> 0"
  shows "map_option unat (frame_bytes f) = Some (unat (fm_height f) * unat (fm_stride f))"
proof -
  have "unat x < 4294967296" for x :: u32 using unsigned_less [of x] by simp
  from this [of "fm_height f"] this [of "fm_stride f"]
  have l: "unat (fm_height f) \<le> 2 ^ 32 - 1" "unat (fm_stride f) \<le> 2 ^ 32 - 1" by simp_all
  then have p: "unat (fm_height f) * unat (fm_stride f) \<le> (2 ^ 32 - 1) * (2 ^ 32 - 1)" by (rule mult_mono) simp_all
  then have "unat (fm_height f) \<le> (2 ^ 64 - 1) div unat (fm_stride f)"
    using assms by (simp add: less_eq_div_iff_mult_less_eq unat_gt_0)
  then have "ucast (fm_height f) \<le> (- 1 :: u64) div ucast (fm_stride f)"
    by (simp add: word_le_nat_alt unat_div unat_ucast_u32_u64 unat_max_u64)
  moreover have "unat (ucast (fm_height f) * ucast (fm_stride f) :: u64) = unat (fm_height f) * unat (fm_stride f)"
    using p by (simp add: unat_word_ariths unat_ucast_u32_u64)
  ultimately show ?thesis using assms by (simp add: frame_bytes_def)
qed

text \<open>C23: (both drivers, frames) The kernel-mode driver accepts a frame of the user-mode driver exactly
  when the screen is one of its four, the image is not empty and not larger than 3840x2160, the
  rows are at least the pixels and at most 15360 bytes long, and the image does not have ten bits per
  colour.  The length it then probes the pages for is a quarter of what the image occupies: the
  user-mode driver counts the stride in pixels.\<close>
theorem frames_accepted_exactly:
  "(validate_frame (sp_framedata (describe_frame s)) = STATUS_SUCCESS \<longleftrightarrow>
      unat (sp_screen_num s) < 4 \<and> 0 < unat (sp_width s) \<and> unat (sp_width s) \<le> 3840 \<and>
      0 < unat (sp_height s) \<and> unat (sp_height s) \<le> 2160 \<and>
      4 * unat (sp_width s) \<le> unat (sp_RowPitch s) \<and> unat (sp_RowPitch s) \<le> 15360 \<and>
      sp_format s \<in> {FRAME_TYPE_BGRA, FRAME_TYPE_RGBA, FRAME_TYPE_YUV420}) \<and>
   (4 \<le> unat (sp_RowPitch s) \<longrightarrow> map_option unat (frame_bytes (sp_framedata (describe_frame s))) =
      Some (unat (sp_height s) * (unat (sp_RowPitch s) div 4)))"
proof -
  let ?f = "sp_framedata (describe_frame s)"
  have f: "fm_width ?f = sp_width s" "fm_height ?f = sp_height s" "fm_color_format ?f = sp_format s"
    "fm_pitch ?f = sp_RowPitch s" "fm_stride ?f = sp_RowPitch s div 4" "fm_screen_num ?f = sp_screen_num s"
    by (simp_all add: describe_frame_def frame_of_def Let_def)
  have st: "unat (fm_stride ?f) = unat (sp_RowPitch s) div 4" by (simp add: f unat_div)
  have pr: "unat (sp_RowPitch s) div 4 * unat (sp_height s) \<le> 3840 * 2160"
    if "unat (sp_RowPitch s) \<le> 15360" "unat (sp_height s) \<le> 2160" using that by (intro mult_mono) auto
  have dv: "unat (sp_RowPitch s div 4) = unat (sp_RowPitch s) div 4" by (simp add: unat_div)
  have "frame_ok ?f \<longleftrightarrow> unat (sp_screen_num s) < 4 \<and> 0 < unat (sp_width s) \<and> unat (sp_width s) \<le> 3840 \<and>
      0 < unat (sp_height s) \<and> unat (sp_height s) \<le> 2160 \<and>
      4 * unat (sp_width s) \<le> unat (sp_RowPitch s) \<and> unat (sp_RowPitch s) \<le> 15360 \<and>
      sp_format s \<in> {FRAME_TYPE_BGRA, FRAME_TYPE_RGBA, FRAME_TYPE_YUV420}"
    unfolding frame_ok_def f dv using pr by auto
  moreover have "map_option unat (frame_bytes ?f) = Some (unat (sp_height s) * (unat (sp_RowPitch s) div 4))"
    if "4 \<le> unat (sp_RowPitch s)"
  proof -
    have "0 < unat (fm_stride ?f)" using that st by simp
    then have "fm_stride ?f \<noteq> 0" by (auto simp del: unat_gt_0)
    then show ?thesis using frame_bytes_small [of ?f] st f(2) by simp
  qed
  ultimately show ?thesis by (simp add: validate_frame_ok)
qed

theorem frames_accepted_exactly_witness:
  "validate_frame (sp_framedata (describe_frame ((sp_init 0)\<lparr>sp_width := 1920, sp_height := 1080,
      sp_RowPitch := 7680, sp_format := FRAME_TYPE_BGRA\<rparr>))) = STATUS_SUCCESS \<and>
   map_option unat (frame_bytes (sp_framedata (describe_frame ((sp_init 0)\<lparr>sp_width := 1920, sp_height := 1080,
      sp_RowPitch := 7680, sp_format := FRAME_TYPE_BGRA\<rparr>)))) = Some (1080 * 1920)"
  using frames_accepted_exactly [of "(sp_init 0)\<lparr>sp_width := 1920, sp_height := 1080, sp_RowPitch := 7680,
      sp_format := FRAME_TYPE_BGRA\<rparr>"]
  by (simp add: sp_init_def)

end
