(* ===== verification/UmdCursor.thy ===== *)
theory UmdCursor
  imports Ioctl
begin

text \<open>
  The cursor of the user-mode driver: the loop of the cursor thread (\<^verbatim>\<open>GetCursorData\<close>) and the two
  ways it asks the operating system for the cursor (\<^verbatim>\<open>ProcessCursorData\<close>,
  \<^verbatim>\<open>ProcessCursorDataLegacy\<close>) in \<^verbatim>\<open>src/IntelVirtDisplayUMD/IntelVirtDisplay/Driver.cpp\<close>.  The
  answers of the operating system and of the kernel-mode driver are parameters; the requests are
  logged with their outcome.
\<close>

section \<open>State\<close>

text \<open>The cursor as the operating system describes it; the last two are only there in the newer query.\<close>
record hw_cursor =
  hc_visible :: bool
  hc_X :: u32
  hc_Y :: u32
  hc_ShapeId :: u32
  hc_Width :: u32
  hc_Height :: u32
  hc_Pitch :: u32
  hc_XHot :: u32
  hc_YHot :: u32
  hc_PositionValid :: bool
  hc_PositionId :: u32

text \<open>What the thread remembers of the last cursor it has passed on.\<close>
record cursor_track =
  tempshapeid :: u32
  tempposid :: u32
  tempX :: u32
  tempY :: u32

definition cursor_start :: cursor_track where
  "cursor_start = \<lparr>tempshapeid = - 1, tempposid = - 1, tempX = - 1, tempY = - 1\<rparr>"

datatype cursor_event = CursorPosSent cursor_data bool | CursorDataSent cursor_data bool

definition INTELVIRTDISPLAYUMD_COLORFORMAT :: u32 where "INTELVIRTDISPLAYUMD_COLORFORMAT = 21"

definition zero_cursor :: cursor_data where
  "zero_cursor = \<lparr>cd_screen_num = 0, cd_cursor_x = 0, cd_cursor_y = 0, cd_iscursorvisible = False, cd_cursor_version = 0,
     cd_cursor_type = 0, cd_width = 0, cd_height = 0, cd_pitch = 0, cd_color_format = 0, cd_data = 0, cd_x_hot = 0,
     cd_y_hot = 0\<rparr>"

section \<open>A query\<close>

definition position_data :: "u32 \<Rightarrow> hw_cursor \<Rightarrow> cursor_data \<Rightarrow> cursor_data" where
  "position_data screen hc c = c\<lparr>cd_screen_num := screen, cd_iscursorvisible := hc_visible hc,
     cd_cursor_x := hc_X hc, cd_cursor_y := hc_Y hc\<rparr>"

definition shape_data :: "u32 \<Rightarrow> u64 \<Rightarrow> hw_cursor \<Rightarrow> cursor_data \<Rightarrow> cursor_data" where
  "shape_data screen buf hc c = c\<lparr>cd_screen_num := screen, cd_width := hc_Width hc, cd_height := hc_Height hc,
     cd_pitch := hc_Pitch hc, cd_x_hot := hc_XHot hc, cd_y_hot := hc_YHot hc, cd_cursor_x := hc_X hc,
     cd_cursor_y := hc_Y hc, cd_iscursorvisible := hc_visible hc, cd_data := buf,
     cd_color_format := INTELVIRTDISPLAYUMD_COLORFORMAT\<rparr>"

text \<open>The part the two functions share: the requests for a position and for a shape that has changed,
  and what is remembered when they are accepted.\<close>
definition pass_on ::
  "u32 \<Rightarrow> u64 \<Rightarrow> hw_cursor \<Rightarrow> bool \<Rightarrow> bool \<Rightarrow> bool \<Rightarrow> bool \<Rightarrow> (cursor_track \<Rightarrow> cursor_track) \<Rightarrow>
   cursor_track \<Rightarrow> cursor_track \<times> cursor_event list" where
  "pass_on screen buf hc position_changed shape_changed pos_ok shape_ok commit t =
     (let c0 = zero_cursor;
        c1 = (if position_changed then position_data screen hc c0 else c0);
        ev1 = (if position_changed then [CursorPosSent c1 pos_ok] else []);
        t1 = (if position_changed \<and> pos_ok then commit t else t);
        c2 = (if shape_changed then shape_data screen buf hc c1 else c1);
        ev2 = (if shape_changed then [CursorDataSent c2 shape_ok] else []);
        t2 = (if shape_changed \<and> shape_ok then t1\<lparr>tempshapeid := hc_ShapeId hc\<rparr> else t1)
      in (t2, ev1 @ ev2))"

text \<open>\<^verbatim>\<open>q\<close>: the answer of the query, none when it failed.\<close>
definition process_cursor_data ::
  "u32 \<Rightarrow> u64 \<Rightarrow> hw_cursor option \<Rightarrow> bool \<Rightarrow> bool \<Rightarrow> cursor_track \<Rightarrow> cursor_track \<times> cursor_event list" where
  "process_cursor_data screen buf q pos_ok shape_ok t = (case q of
     None \<Rightarrow> (t, [])
   | Some hc \<Rightarrow> pass_on screen buf hc
       (tempposid t \<noteq> hc_PositionId hc \<and> hc_PositionValid hc \<and> (tempX t \<noteq> hc_X hc \<or> tempY t \<noteq> hc_Y hc))
       (tempshapeid t \<noteq> hc_ShapeId hc) pos_ok shape_ok
       (\<lambda>t. t\<lparr>tempposid := hc_PositionId hc, tempX := hc_X hc, tempY := hc_Y hc\<rparr>) t)"

definition process_cursor_data_legacy ::
  "u32 \<Rightarrow> u64 \<Rightarrow> hw_cursor option \<Rightarrow> bool \<Rightarrow> bool \<Rightarrow> cursor_track \<Rightarrow> cursor_track \<times> cursor_event list" where
  "process_cursor_data_legacy screen buf q pos_ok shape_ok t = (case q of
     None \<Rightarrow> (t, [])
   | Some hc \<Rightarrow> pass_on screen buf hc (tempX t \<noteq> hc_X hc \<or> tempY t \<noteq> hc_Y hc)
       (tempshapeid t \<noteq> hc_ShapeId hc) pos_ok shape_ok
       (\<lambda>t. t\<lparr>tempX := hc_X hc, tempY := hc_Y hc\<rparr>) t)"

section \<open>The loop of the thread\<close>

text \<open>A turn: asleep while the resources could not be set up, or a wait and what it ends with; with a
  cursor event, the answers to the query and to the requests.\<close>
datatype cursor_turn = Sleeping | CursorEvent "hw_cursor option" bool bool | CursorTimeout | CursorEnd

text \<open>\<^verbatim>\<open>newer\<close>: whether the newer query is available.\<close>
fun get_cursor_data ::
  "bool \<Rightarrow> u32 \<Rightarrow> u64 \<Rightarrow> cursor_turn list \<Rightarrow> cursor_track \<Rightarrow> cursor_track \<times> cursor_event list" where
  "get_cursor_data newer screen buf [] t = (t, [])"
| "get_cursor_data newer screen buf (CursorEnd # ts) t = (t, [])"
| "get_cursor_data newer screen buf (CursorEvent q pos_ok shape_ok # ts) t =
     (let (t1, ev1) = (if newer then process_cursor_data screen buf q pos_ok shape_ok t
          else process_cursor_data_legacy screen buf q pos_ok shape_ok t);
        (t2, ev2) = get_cursor_data newer screen buf ts t1
      in (t2, ev1 @ ev2))"
| "get_cursor_data newer screen buf (_ # ts) t = get_cursor_data newer screen buf ts t"

section \<open>Delivery\<close>

text \<open>The positions and the shapes the kernel-mode driver has accepted.\<close>
definition positions :: "cursor_event list \<Rightarrow> cursor_data list" where
  "positions evs = concat (map (\<lambda>ev. case ev of CursorPosSent c ok \<Rightarrow> if ok then [c] else [] | _ \<Rightarrow> []) evs)"

definition shapes :: "cursor_event list \<Rightarrow> cursor_data list" where
  "shapes evs = concat (map (\<lambda>ev. case ev of CursorDataSent c ok \<Rightarrow> if ok then [c] else [] | _ \<Rightarrow> []) evs)"

lemma accepted_simps [simp]:
  "positions [] = []" "shapes [] = []" "positions (xs @ ys) = positions xs @ positions ys"
  "shapes (xs @ ys) = shapes xs @ shapes ys" "positions (CursorPosSent c ok # evs) = (if ok then [c] else []) @ positions evs"
  "positions (CursorDataSent c ok # evs) = positions evs"
  "shapes (CursorDataSent c ok # evs) = (if ok then [c] else []) @ shapes evs"
  "shapes (CursorPosSent c ok # evs) = shapes evs"
  by (simp_all add: positions_def shapes_def)

text \<open>Turns in which the operating system describes the cursor always the same, or the thread has
  nothing to do, or the query fails.\<close>
fun same_cursor :: "hw_cursor \<Rightarrow> cursor_turn \<Rightarrow> bool" where
  "same_cursor hc (CursorEvent q a b) = (q = None \<or> q = Some hc)"
| "same_cursor hc CursorEnd = False"
| "same_cursor hc _ = True"

definition tries_position :: "cursor_turn list \<Rightarrow> bool" where
  "tries_position ts \<longleftrightarrow> (\<exists>hc b. CursorEvent (Some hc) True b \<in> set ts)"

definition tries_shape :: "cursor_turn list \<Rightarrow> bool" where
  "tries_shape ts \<longleftrightarrow> (\<exists>hc a. CursorEvent (Some hc) a True \<in> set ts)"

definition moved :: "bool \<Rightarrow> hw_cursor \<Rightarrow> cursor_track \<Rightarrow> bool" where
  "moved newer hc t \<longleftrightarrow> (tempX t \<noteq> hc_X hc \<or> tempY t \<noteq> hc_Y hc) \<and>
     (newer \<longrightarrow> tempposid t \<noteq> hc_PositionId hc \<and> hc_PositionValid hc)"

lemma shape_data_position [simp]: "shape_data s b hc (position_data s hc c) = shape_data s b hc c"
  by (simp add: shape_data_def position_data_def)

definition one_query ::
  "bool \<Rightarrow> u32 \<Rightarrow> u64 \<Rightarrow> hw_cursor option \<Rightarrow> bool \<Rightarrow> bool \<Rightarrow> cursor_track \<Rightarrow> cursor_track \<times> cursor_event list" where
  "one_query newer screen buf q a b t = (if newer then process_cursor_data screen buf q a b t
     else process_cursor_data_legacy screen buf q a b t)"

text \<open>What one query sends and what is remembered after it.\<close>
lemma one_query_some:
  assumes "one_query newer scr buf (Some hc) a b t = (t', evs)"
  shows "positions evs = (if moved newer hc t \<and> a then [position_data scr hc zero_cursor] else [])"
    "shapes evs = (if tempshapeid t \<noteq> hc_ShapeId hc \<and> b then [shape_data scr buf hc zero_cursor] else [])"
    "moved newer hc t' = (moved newer hc t \<and> \<not> a)"
    "tempshapeid t' = (if b then hc_ShapeId hc else tempshapeid t)"
  using assms
  by (auto simp: one_query_def process_cursor_data_def process_cursor_data_legacy_def pass_on_def moved_def Let_def
      split: if_splits)

lemma one_query_none: "one_query newer scr buf None a b t = (t, [])"
  by (simp add: one_query_def process_cursor_data_def process_cursor_data_legacy_def)

text \<open>C19: (user-mode driver, cursor) While the operating system describes the cursor the same, however
  often it signals it and however often queries and requests fail, the kernel-mode driver accepts a
  position that has changed once, in the first query whose request for it succeeds, a shape that has
  changed once in the same way, each with all the data of the cursor, and nothing else; with either
  of the two queries.\<close>
theorem cursor_delivered_once:
  assumes "\<forall>turn \<in> set ts. same_cursor hc turn" "get_cursor_data newer scr buf ts t = (t', evs)"
  shows "positions evs = (if moved newer hc t \<and> tries_position ts then [position_data scr hc zero_cursor] else []) \<and>
    shapes evs = (if tempshapeid t \<noteq> hc_ShapeId hc \<and> tries_shape ts then [shape_data scr buf hc zero_cursor] else []) \<and>
    moved newer hc t' = (moved newer hc t \<and> \<not> tries_position ts) \<and>
    tempshapeid t' = (if tries_shape ts then hc_ShapeId hc else tempshapeid t)"
  using assms
proof (induction newer scr buf ts t arbitrary: t' evs rule: get_cursor_data.induct)
  case (3 newer scr buf q a b ts t)
  obtain t1 ev1 where 1: "one_query newer scr buf q a b t = (t1, ev1)" by fastforce
  obtain t2 ev2 where 2: "get_cursor_data newer scr buf ts t1 = (t2, ev2)" by fastforce
  have e: "t' = t2" "evs = ev1 @ ev2"
    using 3(3) 1 2 by (simp_all add: one_query_def split: if_splits)
  have IH: "positions ev2 = (if moved newer hc t1 \<and> tries_position ts then [position_data scr hc zero_cursor] else []) \<and>
    shapes ev2 = (if tempshapeid t1 \<noteq> hc_ShapeId hc \<and> tries_shape ts then [shape_data scr buf hc zero_cursor] else []) \<and>
    moved newer hc t2 = (moved newer hc t1 \<and> \<not> tries_position ts) \<and>
    tempshapeid t2 = (if tries_shape ts then hc_ShapeId hc else tempshapeid t1)"
    by (rule 3(1) [OF _ refl]) (use 1 2 3(2) in \<open>simp_all add: one_query_def\<close>)
  consider "q = None" | "q = Some hc" using 3(2) by auto
  then show ?case
  proof cases
    case 1
    then show ?thesis using IH e \<open>one_query newer scr buf q a b t = (t1, ev1)\<close> one_query_none [of newer scr buf a b t]
      by (auto simp: tries_position_def tries_shape_def)
  next
    case 2
    have "tries_position (CursorEvent q a b # ts) = (a \<or> tries_position ts)"
      "tries_shape (CursorEvent q a b # ts) = (b \<or> tries_shape ts)"
      using 2 by (auto simp: tries_position_def tries_shape_def)
    then show ?thesis using IH e one_query_some [OF \<open>one_query newer scr buf q a b t = (t1, ev1)\<close> [unfolded 2]]
      by (auto split: if_splits)
  qed
qed (auto simp: tries_position_def tries_shape_def)

definition demo_cursor :: "bool \<Rightarrow> hw_cursor" where
  "demo_cursor v = \<lparr>hc_visible = v, hc_X = 5, hc_Y = 6, hc_ShapeId = 1, hc_Width = 32, hc_Height = 32, hc_Pitch = 128,
     hc_XHot = 0, hc_YHot = 0, hc_PositionValid = True, hc_PositionId = 1\<rparr>"

theorem cursor_delivered_once_witness:
  "positions (snd (get_cursor_data True 0 4096 [CursorEvent (Some (demo_cursor True)) False True, CursorTimeout,
     CursorEvent (Some (demo_cursor True)) True True, CursorEvent (Some (demo_cursor True)) True True] cursor_start)) =
   [position_data 0 (demo_cursor True) zero_cursor]"
proof -
  let ?ts = "[CursorEvent (Some (demo_cursor True)) False True, CursorTimeout,
     CursorEvent (Some (demo_cursor True)) True True, CursorEvent (Some (demo_cursor True)) True True]"
  have "moved True (demo_cursor True) cursor_start" by (simp add: moved_def demo_cursor_def cursor_start_def)
  moreover have "tries_position ?ts" by (auto simp: tries_position_def)
  moreover have s: "\<forall>turn \<in> set ?ts. same_cursor (demo_cursor True) turn" by simp
  ultimately show ?thesis
    using cursor_delivered_once [OF s prod.collapse [symmetric], of True 0 4096 cursor_start]
    by (simp del: get_cursor_data.simps)
qed

text \<open>(user-mode driver, cursor) A cursor that is hidden or shown where it is, with the shape it has, is
  never passed on, by neither query: visibility only travels with a change of position or shape, so
  the cursor on the screen stays as it was.\<close>
theorem visibility_alone_not_sent:
  assumes "tempX t = hc_X hc" "tempY t = hc_Y hc" "tempshapeid t = hc_ShapeId hc"
  shows "process_cursor_data scr buf (Some (hc\<lparr>hc_visible := v, hc_PositionId := i\<rparr>)) a b t = (t, []) \<and>
    process_cursor_data_legacy scr buf (Some (hc\<lparr>hc_visible := v, hc_PositionId := i\<rparr>)) a b t = (t, [])"
  using assms by (simp add: process_cursor_data_def process_cursor_data_legacy_def pass_on_def)

theorem visibility_alone_not_sent_witness:
  "process_cursor_data 0 4096 (Some ((demo_cursor True)\<lparr>hc_visible := False, hc_PositionId := 2\<rparr>)) True True
    \<lparr>tempshapeid = 1, tempposid = 1, tempX = 5, tempY = 6\<rparr> = (\<lparr>tempshapeid = 1, tempposid = 1, tempX = 5, tempY = 6\<rparr>, [])"
  using visibility_alone_not_sent [of "\<lparr>tempshapeid = 1, tempposid = 1, tempX = 5, tempY = 6\<rparr>" "demo_cursor True"]
  by (simp add: demo_cursor_def)

end
