(* ===== verification/Spec2Isabelle.thy ===== *)
theory Spec2Isabelle
  imports GpuBringUp GpuDpc GpuPressure GpuScreenProps MemSegmentProps IoctlProps BitOps
    VirtqueueSpec UmdHotplug UmdFrames UmdCursor
begin

text \<open>Skeleton.\<close>

end
